(* ===== verification/Oba_Prelude.thy ===== *)
theory Oba_Prelude
  imports Main "HOL-Library.Word" "HOL-Library.AList"
begin

text \<open>
  Shared vocabulary of the development: the machine types of the Go sources, the outcome
  of a Go call (a value, an error value, or a run-time panic) threaded through an explicit
  state, indexing and slicing with Go's bounds checks, and the fixed-width little-endian
  codec of \<^verbatim>\<open>encoding/binary\<close> that the on-disk and on-the-wire formats use.
\<close>

unbundle bit_operations_syntax

named_theorems outcome_simps \<open>evaluation rules for calls that may fail\<close>
named_theorems codec_simps \<open>round trips of the fixed-width codecs\<close>

section \<open>Machine types\<close>

type_synonym byte = "8 word"
type_synonym bytes = "8 word list"
type_synonym uint16 = "16 word"
type_synonym uint32 = "32 word"
type_synonym uint64 = "64 word"

section \<open>Outcomes of Go calls\<close>

text \<open>
  A Go function returns a value and an error, or panics. \<open>Ok\<close> is the return with a nil
  error, \<open>Fail\<close> the return with a non-nil error, \<open>Panic\<close> a run-time panic (an index or a
  slice bound out of range, a nil dereference). The state reached is kept in all three.
\<close>

datatype ('e, 'a) outcome = Ok 'a | Fail 'e | Panic

fun and_then ::
  "('e, 'a) outcome \<times> 's \<Rightarrow> ('a \<Rightarrow> 's \<Rightarrow> ('e, 'b) outcome \<times> 's) \<Rightarrow> ('e, 'b) outcome \<times> 's" where
  "and_then (Ok a, s) f = f a s"
| "and_then (Fail e, s) f = (Fail e, s)"
| "and_then (Panic, s) f = (Panic, s)"

fun map_fail :: "('e \<Rightarrow> 'f) \<Rightarrow> ('e, 'a) outcome \<times> 's \<Rightarrow> ('f, 'a) outcome \<times> 's" where
  "map_fail g (Ok a, s) = (Ok a, s)"
| "map_fail g (Fail e, s) = (Fail (g e), s)"
| "map_fail g (Panic, s) = (Panic, s)"

definition go_index :: "'a list \<Rightarrow> nat \<Rightarrow> ('e, 'a) outcome" where
  "go_index xs i = (if i < length xs then Ok (xs ! i) else Panic)"

definition go_slice :: "'a list \<Rightarrow> nat \<Rightarrow> nat \<Rightarrow> ('e, 'a list) outcome" where
  "go_slice xs i j = (if i \<le> j \<and> j \<le> length xs then Ok (take (j - i) (drop i xs)) else Panic)"

text \<open>\<open>copy(xs[d:], src)\<close>: at most as many elements as fit.\<close>

definition go_copy :: "'a list \<Rightarrow> nat \<Rightarrow> 'a list \<Rightarrow> 'a list" where
  "go_copy xs d src =
     (let n = min (length xs - d) (length src)
      in take d xs @ take n src @ drop (d + n) xs)"

lemma and_then_Ok_iff:
  "and_then r f = (Ok b, t) \<longleftrightarrow> (\<exists>a s. r = (Ok a, s) \<and> f a s = (Ok b, t))"
  by (cases "(r, f)" rule: and_then.cases) auto

lemma and_then_Fail_iff:
  "and_then r f = (Fail e, t) \<longleftrightarrow>
     r = (Fail e, t) \<or> (\<exists>a s. r = (Ok a, s) \<and> f a s = (Fail e, t))"
  by (cases "(r, f)" rule: and_then.cases) auto

lemma and_then_Panic_iff:
  "and_then r f = (Panic, t) \<longleftrightarrow>
     r = (Panic, t) \<or> (\<exists>a s. r = (Ok a, s) \<and> f a s = (Panic, t))"
  by (cases "(r, f)" rule: and_then.cases) auto

lemma and_then_assoc:
  "and_then (and_then r f) g = and_then r (\<lambda>a s. and_then (f a s) g)"
  by (cases "(r, f)" rule: and_then.cases) auto

lemma and_then_cong [fundef_cong]:
  assumes "r = r'" and "\<And>a s. r' = (Ok a, s) \<Longrightarrow> f a s = g a s"
  shows "and_then r f = and_then r' g"
  using assms by (cases "(r', f)" rule: and_then.cases) auto

lemma go_index_Ok [simp]: "i < length xs \<Longrightarrow> go_index xs i = Ok (xs ! i)"
  by (simp add: go_index_def)

lemma go_slice_Ok [simp]:
  "i \<le> j \<Longrightarrow> j \<le> length xs \<Longrightarrow> go_slice xs i j = Ok (take (j - i) (drop i xs))"
  by (simp add: go_slice_def)

lemma go_index_not_Fail [simp]: "go_index xs i \<noteq> Fail e"
  by (simp add: go_index_def)

lemma go_slice_not_Fail [simp]: "go_slice xs i j \<noteq> Fail e"
  by (simp add: go_slice_def)

lemma length_go_copy [simp]: "length (go_copy xs d src) = length xs"
  by (auto simp: go_copy_def Let_def min_def)

lemma go_copy_within:
  "d + length src \<le> length xs \<Longrightarrow>
     go_copy xs d src = take d xs @ src @ drop (d + length src) xs"
  by (simp add: go_copy_def min_def)

section \<open>Shifts\<close>

lemma drop_bit_int_less [termination_simp]:
  fixes v :: int
  assumes "0 < v" and "0 < n"
  shows "drop_bit n v < v"
proof -
  have "1 < (2::int) ^ n" using assms(2) by simp
  then show ?thesis
    using assms(1) by (simp add: drop_bit_eq_div int_div_less_self)
qed

lemma drop_bit_int_le:
  fixes v :: int
  assumes "0 \<le> v"
  shows "drop_bit n v \<le> v"
  using drop_bit_int_less [of v n] assms by (cases "n = 0"; cases "v = 0") auto

lemma push_bit_or_int:
  fixes x y :: int
  assumes "0 \<le> y" and "y < 2 ^ n"
  shows "push_bit n x OR y = x * 2 ^ n + y"
proof -
  have "take_bit n y = y"
    using assms by (simp add: take_bit_int_eq_self)
  then have low: "bit y i \<Longrightarrow> i < n" for i
    by (metis bit_take_bit_iff)
  have "push_bit n x AND y = 0"
    by (auto intro!: bit_eqI simp: bit_simps dest!: low)
  then have "push_bit n x + y = push_bit n x OR y"
    by (rule disjunctive_add_eq_or)
  then show ?thesis by (simp add: push_bit_eq_mult)
qed

lemma push_bit_or_byte:
  "push_bit 8 x OR uint (b :: byte) = x * 256 + uint b"
  using push_bit_or_int [of "uint b" 8 x] uint_lt2p [of b] by simp

lemma byte_and_255 [simp]: "x AND 255 = (x :: byte)"
proof -
  have "(255 :: byte) = - 1" by simp
  then show ?thesis by (simp only: and_minus_numerals bit.conj_one_right)
qed

section \<open>Little-endian integers\<close>

text \<open>
  \<^verbatim>\<open>binary.LittleEndian.PutUintN\<close> writes \<open>n\<close> bytes, least significant first;
  \<^verbatim>\<open>binary.LittleEndian.UintN\<close> reads them back.
\<close>

definition put_le :: "nat \<Rightarrow> 'a::len word \<Rightarrow> bytes" where
  "put_le n w = map (\<lambda>i. ucast (drop_bit (8 * i) w)) [0..<n]"

fun get_le :: "bytes \<Rightarrow> 'a::len word" where
  "get_le [] = 0"
| "get_le (b # bs) = ucast b OR push_bit 8 (get_le bs)"

lemma length_put_le [simp]: "length (put_le n w) = n"
  by (simp add: put_le_def)

lemma put_le_Suc:
  "put_le (Suc n) w = ucast w # put_le n (drop_bit 8 w)"
  unfolding put_le_def
  by (simp add: upt_conv_Cons map_Suc_upt [symmetric] add.commute del: upt_Suc)

lemma put_le_0 [simp]: "put_le 0 w = []"
  by (simp add: put_le_def)

lemma get_le_put_le_take:
  fixes w :: "'a::len word"
  shows "get_le (put_le n w) = take_bit (8 * n) w"
proof (induction n arbitrary: w)
  case 0
  then show ?case by simp
next
  case (Suc n)
  have "ucast (ucast w :: byte) OR push_bit 8 (take_bit (8 * n) (drop_bit 8 w))
          = take_bit (8 * Suc n) w"
    by (rule bit_word_eqI) (auto simp: bit_simps)
  with Suc show ?case by (simp add: put_le_Suc)
qed

lemma get_le_put_le [simp, codec_simps]:
  fixes w :: "'a::len word"
  assumes "LENGTH('a) \<le> 8 * n"
  shows "get_le (put_le n w) = w"
proof -
  have "take_bit (8 * n) w = w"
    using assms by (auto intro!: bit_word_eqI simp: bit_simps)
  then show ?thesis by (simp add: get_le_put_le_take)
qed

lemma put_le_get_le [codec_simps]:
  assumes "8 * length bs \<le> LENGTH('a)"
  shows "put_le (length bs) (get_le bs :: 'a::len word) = bs"
  using assms
proof (induction bs)
  case Nil
  then show ?case by simp
next
  case (Cons b bs)
  let ?w = "get_le bs :: 'a word"
  have len: "8 * length bs + 8 \<le> LENGTH('a)"
    using Cons.prems by simp
  have low: "(ucast (ucast b OR push_bit 8 ?w) :: byte) = b"
    using len by (auto intro!: bit_word_eqI simp: bit_simps)
  have cut: "take_bit (8 * length bs) ?w = ?w"
  proof -
    have "get_le (put_le (length bs) ?w) = ?w"
      using Cons by simp
    then show ?thesis by (simp add: get_le_put_le_take)
  qed
  have "drop_bit 8 (ucast b OR push_bit 8 ?w) = ?w"
  proof (rule bit_word_eqI)
    fix n
    assume n: "n < LENGTH('a)"
    have "bit ?w n \<Longrightarrow> n < 8 * length bs"
      by (metis bit_take_bit_iff cut)
    then show "bit (drop_bit 8 (ucast b OR push_bit 8 ?w)) n = bit ?w n"
      using len by (auto simp: bit_simps dest: bit_imp_le_length)
  qed
  with Cons low show ?case by (simp add: put_le_Suc)
qed

end
