(* ===== verification/Ber_Encoder.thy ===== *)
theory Ber_Encoder
  imports Oba_Prelude
begin

text \<open>
  The BER encoder of \<^verbatim>\<open>internal/ber\<close> (types.go, errors.go, encoder.go). The encoder's
  state is its growing buffer; every operation returns an outcome and the encoder it leaves
  behind, also when it fails half way. Go's \<^verbatim>\<open>int\<close> arguments are \<^typ>\<open>int\<close>, the \<^verbatim>\<open>int64\<close>
  of \<^verbatim>\<open>WriteInteger\<close> is a \<^typ>\<open>64 word\<close> read in two's complement, and \<^verbatim>\<open>byte(x)\<close> is
  truncation to eight bits.
\<close>

section \<open>Constants and errors\<close>

definition ClassUniversal :: int where "ClassUniversal = 0x00"
definition ClassApplication :: int where "ClassApplication = 0x40"
definition ClassContextSpecific :: int where "ClassContextSpecific = 0x80"
definition ClassPrivate :: int where "ClassPrivate = 0xC0"

definition TypePrimitive :: int where "TypePrimitive = 0x00"
definition TypeConstructed :: int where "TypeConstructed = 0x20"

definition TagBoolean :: int where "TagBoolean = 0x01"
definition TagInteger :: int where "TagInteger = 0x02"
definition TagOctetString :: int where "TagOctetString = 0x04"
definition TagNull :: int where "TagNull = 0x05"
definition TagEnumerated :: int where "TagEnumerated = 0x0A"
definition TagSequence :: int where "TagSequence = 0x10"
definition TagSet :: int where "TagSet = 0x11"

definition LengthLongFormBit :: int where "LengthLongFormBit = 0x80"
definition MaxShortFormLength :: int where "MaxShortFormLength = 127"

lemmas ber_class_defs =
  ClassUniversal_def ClassApplication_def ClassContextSpecific_def ClassPrivate_def
lemmas ber_type_defs = TypePrimitive_def TypeConstructed_def
lemmas ber_tag_defs =
  TagBoolean_def TagInteger_def TagOctetString_def TagNull_def TagEnumerated_def
  TagSequence_def TagSet_def
lemmas ber_const_defs = ber_class_defs ber_type_defs ber_tag_defs
  LengthLongFormBit_def MaxShortFormLength_def

datatype ber_error =
    ErrInvalidTagClass
  | ErrInvalidTagNumber
  | ErrLengthOverflow
  | ErrNegativeLength
  | ErrUnexpectedEOF
  | ErrInvalidLength
  | ErrIndefiniteLength
  | ErrInvalidBoolean
  | ErrInvalidInteger
  | ErrInvalidNull
  | ErrTagMismatch
  | DecodeError nat string "ber_error option"
  | TagMismatchError nat int int int int int

text \<open>
  \<^verbatim>\<open>errors.Is\<close>: an error matches a sentinel if it is the sentinel, if it wraps one that
  matches (\<^verbatim>\<open>DecodeError.Unwrap\<close>), or if its own \<^verbatim>\<open>Is\<close> method says so
  (\<^verbatim>\<open>TagMismatchError.Is\<close>).
\<close>

fun errors_Is :: "ber_error \<Rightarrow> ber_error \<Rightarrow> bool" where
  "errors_Is (DecodeError off msg (Some e)) target =
     (DecodeError off msg (Some e) = target \<or> errors_Is e target)"
| "errors_Is (DecodeError off msg None) target = (DecodeError off msg None = target)"
| "errors_Is (TagMismatchError off ec en ac an acon) target =
     (TagMismatchError off ec en ac an acon = target \<or> target = ErrTagMismatch)"
| "errors_Is e target = (e = target)"

section \<open>The encoder\<close>

record encoder =
  buf :: bytes

type_synonym 'a enc_result = "(ber_error, 'a) outcome \<times> encoder"

definition NewBEREncoder :: encoder where
  "NewBEREncoder = \<lparr>buf = []\<rparr>"

definition Enc_Reset :: "encoder \<Rightarrow> encoder" where
  "Enc_Reset e = e\<lparr>buf := []\<rparr>"

definition append_bytes :: "encoder \<Rightarrow> bytes \<Rightarrow> encoder" where
  "append_bytes e bs = e\<lparr>buf := buf e @ bs\<rparr>"

text \<open>The base-128 digits of \<^verbatim>\<open>writeBase128\<close>, least significant first.\<close>

fun base128_digits :: "int \<Rightarrow> bytes" where
  "base128_digits value =
     (if 0 < value then word_of_int (value AND 0x7F) # base128_digits (drop_bit 7 value) else [])"

declare base128_digits.simps [simp del]

definition base128 :: "int \<Rightarrow> bytes" where
  "base128 value =
     (if value = 0 then [0]
      else let ds = base128_digits value
           in map (\<lambda>i. if 0 < i then ds ! i OR 0x80 else ds ! i) (rev [0..<length ds]))"

definition writeBase128 :: "encoder \<Rightarrow> int \<Rightarrow> encoder" where
  "writeBase128 e value = append_bytes e (base128 value)"

definition WriteTag :: "encoder \<Rightarrow> int \<Rightarrow> int \<Rightarrow> int \<Rightarrow> unit enc_result" where
  "WriteTag e class constructed number =
     (if class \<noteq> ClassUniversal \<and> class \<noteq> ClassApplication \<and>
         class \<noteq> ClassContextSpecific \<and> class \<noteq> ClassPrivate
      then (Fail ErrInvalidTagClass, e)
      else if number < 0 then (Fail ErrInvalidTagNumber, e)
      else if number \<le> 30
      then (Ok (), append_bytes e [word_of_int class OR word_of_int constructed OR word_of_int number])
      else (Ok (), writeBase128
                     (append_bytes e [word_of_int class OR word_of_int constructed OR 0x1F]) number))"

text \<open>The number of octets the long form of a length needs: the loop \<^verbatim>\<open>temp >>= 8\<close>.\<close>

fun num_length_bytes :: "int \<Rightarrow> nat" where
  "num_length_bytes temp = (if 0 < temp then Suc (num_length_bytes (drop_bit 8 temp)) else 0)"

declare num_length_bytes.simps [simp del]

definition length_octets :: "nat \<Rightarrow> int \<Rightarrow> bytes" where
  "length_octets n len = map (\<lambda>i. word_of_int (drop_bit (8 * i) len)) (rev [0..<n])"

definition WriteLength :: "encoder \<Rightarrow> int \<Rightarrow> unit enc_result" where
  "WriteLength e len =
     (if len < 0 then (Fail ErrNegativeLength, e)
      else if len \<le> MaxShortFormLength then (Ok (), append_bytes e [word_of_int len])
      else let numBytes = num_length_bytes len
           in if 127 < numBytes then (Fail ErrLengthOverflow, e)
              else (Ok (), append_bytes
                     (append_bytes e [word_of_int (LengthLongFormBit OR int numBytes)])
                     (length_octets numBytes len)))"

definition WriteBoolean :: "encoder \<Rightarrow> bool \<Rightarrow> unit enc_result" where
  "WriteBoolean e v =
     and_then (WriteTag e ClassUniversal TypePrimitive TagBoolean) (\<lambda>_ e.
     and_then (WriteLength e 1) (\<lambda>_ e.
       (Ok (), append_bytes e [if v then 0xFF else 0x00])))"

text \<open>
  The two loops of \<^verbatim>\<open>encodeInteger\<close> run over the octets \<open>7, \<dots>, 0\<close> of the two's complement
  and append an octet once a significant one has been seen.
\<close>

definition octet :: "uint64 \<Rightarrow> nat \<Rightarrow> byte" where
  "octet uv i = ucast (drop_bit (i * 8) uv)"

definition neg_step :: "uint64 \<Rightarrow> nat \<Rightarrow> bytes \<Rightarrow> bytes" where
  "neg_step uv i bs =
     (if bs \<noteq> [] \<or> octet uv i \<noteq> 0xFF \<or>
         (0 < i \<and> drop_bit ((i - 1) * 8) uv AND 0x80 = 0)
      then bs @ [octet uv i] else bs)"

definition pos_step :: "uint64 \<Rightarrow> nat \<Rightarrow> bytes \<Rightarrow> bytes" where
  "pos_step uv i bs = (if bs \<noteq> [] \<or> octet uv i \<noteq> 0 then bs @ [octet uv i] else bs)"

definition encodeInteger :: "uint64 \<Rightarrow> bytes" where
  "encodeInteger v =
     (if v = 0 then [0x00]
      else if sint v < 0
      then let bs = fold (neg_step v) (rev [0..<8]) [];
               bs = (if bs = [] then [0xFF] else bs)
           in if hd bs AND 0x80 = 0 then 0xFF # bs else bs
      else let bs = fold (pos_step v) (rev [0..<8]) []
           in if bs \<noteq> [] \<and> hd bs AND 0x80 \<noteq> 0 then 0x00 # bs else bs)"

definition WriteInteger :: "encoder \<Rightarrow> uint64 \<Rightarrow> unit enc_result" where
  "WriteInteger e v =
     and_then (WriteTag e ClassUniversal TypePrimitive TagInteger) (\<lambda>_ e.
       let encoded = encodeInteger v in
       and_then (WriteLength e (int (length encoded))) (\<lambda>_ e.
         (Ok (), append_bytes e encoded)))"

definition WriteOctetString :: "encoder \<Rightarrow> bytes \<Rightarrow> unit enc_result" where
  "WriteOctetString e v =
     and_then (WriteTag e ClassUniversal TypePrimitive TagOctetString) (\<lambda>_ e.
     and_then (WriteLength e (int (length v))) (\<lambda>_ e.
       (Ok (), append_bytes e v)))"

definition WriteEnumerated :: "encoder \<Rightarrow> uint64 \<Rightarrow> unit enc_result" where
  "WriteEnumerated e v =
     and_then (WriteTag e ClassUniversal TypePrimitive TagEnumerated) (\<lambda>_ e.
       let encoded = encodeInteger v in
       and_then (WriteLength e (int (length encoded))) (\<lambda>_ e.
         (Ok (), append_bytes e encoded)))"

definition WriteNull :: "encoder \<Rightarrow> unit enc_result" where
  "WriteNull e =
     and_then (WriteTag e ClassUniversal TypePrimitive TagNull) (\<lambda>_ e. WriteLength e 0)"

definition WriteRaw :: "encoder \<Rightarrow> bytes \<Rightarrow> encoder" where
  "WriteRaw e bs = append_bytes e bs"

definition constructed_flag :: "bool \<Rightarrow> int" where
  "constructed_flag constructed = (if constructed then TypeConstructed else TypePrimitive)"

definition WriteTaggedValue :: "encoder \<Rightarrow> int \<Rightarrow> bool \<Rightarrow> bytes \<Rightarrow> unit enc_result" where
  "WriteTaggedValue e tagNumber constructed v =
     and_then (WriteTag e ClassContextSpecific (constructed_flag constructed) tagNumber) (\<lambda>_ e.
     and_then (WriteLength e (int (length v))) (\<lambda>_ e.
       (Ok (), append_bytes e v)))"

section \<open>Constructed values: reserve four octets, fix the length up afterwards\<close>

definition BeginSequence :: "encoder \<Rightarrow> nat \<times> encoder" where
  "BeginSequence e =
     (let e = append_bytes e [word_of_int (ClassUniversal OR TypeConstructed OR TagSequence)]
      in (length (buf e), append_bytes e [0, 0, 0, 0]))"

definition BeginSet :: "encoder \<Rightarrow> nat \<times> encoder" where
  "BeginSet e =
     (let e = append_bytes e [word_of_int (ClassUniversal OR TypeConstructed OR TagSet)]
      in (length (buf e), append_bytes e [0, 0, 0, 0]))"

definition begin_tagged :: "int \<Rightarrow> encoder \<Rightarrow> int \<Rightarrow> bool \<Rightarrow> nat \<times> encoder" where
  "begin_tagged class e num constructed =
     (let flag = constructed_flag constructed;
          e = (if num \<le> 30 then append_bytes e [word_of_int (class OR flag OR num)]
               else writeBase128 (append_bytes e [word_of_int (class OR flag OR 0x1F)]) num)
      in (length (buf e), append_bytes e [0, 0, 0, 0]))"

definition WriteContextTag :: "encoder \<Rightarrow> int \<Rightarrow> bool \<Rightarrow> nat \<times> encoder" where
  "WriteContextTag e num constructed = begin_tagged ClassContextSpecific e num constructed"

definition WriteApplicationTag :: "encoder \<Rightarrow> int \<Rightarrow> bool \<Rightarrow> nat \<times> encoder" where
  "WriteApplicationTag e num constructed = begin_tagged ClassApplication e num constructed"

text \<open>
  \<^verbatim>\<open>fixupLength\<close> overwrites the reserved octets in place and moves the content: three,
  two or one octets to the left, not at all, or one octet to the right.
\<close>

definition fixupLength :: "encoder \<Rightarrow> nat \<Rightarrow> unit enc_result" where
  "fixupLength e pos =
     (let contentLength = int (length (buf e)) - int pos - 4; b = buf e in
      if contentLength < 0 then (Fail ErrNegativeLength, e)
      else if contentLength \<le> MaxShortFormLength
      then let b = b[pos := word_of_int contentLength];
               b = go_copy b (pos + 1) (drop (pos + 4) b)
           in (Ok (), e\<lparr>buf := take (length b - 3) b\<rparr>)
      else if contentLength \<le> 0xFF
      then let b = b[pos := 0x81, pos + 1 := word_of_int contentLength];
               b = go_copy b (pos + 2) (drop (pos + 4) b)
           in (Ok (), e\<lparr>buf := take (length b - 2) b\<rparr>)
      else if contentLength \<le> 0xFFFF
      then let b = b[pos := 0x82, pos + 1 := word_of_int (drop_bit 8 contentLength),
                     pos + 2 := word_of_int contentLength];
               b = go_copy b (pos + 3) (drop (pos + 4) b)
           in (Ok (), e\<lparr>buf := take (length b - 1) b\<rparr>)
      else if contentLength \<le> 0xFFFFFF
      then (Ok (), e\<lparr>buf := b[pos := 0x83, pos + 1 := word_of_int (drop_bit 16 contentLength),
                     pos + 2 := word_of_int (drop_bit 8 contentLength),
                     pos + 3 := word_of_int contentLength]\<rparr>)
      else let b = b[pos := 0x84];
               b = b @ [0];
               b = go_copy b (pos + 5) (take (length b - 1 - (pos + 4)) (drop (pos + 4) b))
           in (Ok (), e\<lparr>buf := b[pos + 1 := word_of_int (drop_bit 24 contentLength),
                     pos + 2 := word_of_int (drop_bit 16 contentLength),
                     pos + 3 := word_of_int (drop_bit 8 contentLength),
                     pos + 4 := word_of_int contentLength]\<rparr>))"

definition EndSequence :: "encoder \<Rightarrow> nat \<Rightarrow> unit enc_result" where
  "EndSequence e pos = fixupLength e pos"

definition EndSet :: "encoder \<Rightarrow> nat \<Rightarrow> unit enc_result" where
  "EndSet e pos = fixupLength e pos"

definition EndContextTag :: "encoder \<Rightarrow> nat \<Rightarrow> unit enc_result" where
  "EndContextTag e pos = fixupLength e pos"

definition EndApplicationTag :: "encoder \<Rightarrow> nat \<Rightarrow> unit enc_result" where
  "EndApplicationTag e pos = fixupLength e pos"

end
