(* ===== verification/Ber_Decoder.thy ===== *)
theory Ber_Decoder
  imports Ber_Encoder
begin

text \<open>
  The BER decoder of \<^verbatim>\<open>internal/ber/decoder.go\<close>: a cursor into a byte slice. Every read
  returns its outcome and the decoder it leaves behind, so that the position after an error
  is part of the model. An unguarded index or slice expression of the source is
  \<^const>\<open>go_index\<close> or \<^const>\<open>go_slice\<close>, which panic out of range.
\<close>

record decoder =
  dec_data :: bytes
  dec_offset :: nat

type_synonym 'a dec_result = "(ber_error, 'a) outcome \<times> decoder"

definition NewBERDecoder :: "bytes \<Rightarrow> decoder" where
  "NewBERDecoder bs = \<lparr>dec_data = bs, dec_offset = 0\<rparr>"

definition Remaining :: "decoder \<Rightarrow> int" where
  "Remaining d = int (length (dec_data d)) - int (dec_offset d)"

definition Dec_Reset :: "decoder \<Rightarrow> decoder" where
  "Dec_Reset d = d\<lparr>dec_offset := 0\<rparr>"

definition SetOffset :: "decoder \<Rightarrow> nat \<Rightarrow> decoder" where
  "SetOffset d off = d\<lparr>dec_offset := off\<rparr>"

definition SetData :: "decoder \<Rightarrow> bytes \<Rightarrow> decoder" where
  "SetData d bs = d\<lparr>dec_data := bs, dec_offset := 0\<rparr>"

definition at_end :: "decoder \<Rightarrow> bool" where
  "at_end d \<longleftrightarrow> length (dec_data d) \<le> dec_offset d"

text \<open>The pair of statements \<^verbatim>\<open>b := d.data[d.offset]; d.offset++\<close>.\<close>

definition next_byte :: "decoder \<Rightarrow> byte dec_result" where
  "next_byte d =
     and_then (go_index (dec_data d) (dec_offset d), d)
       (\<lambda>b d. (Ok b, d\<lparr>dec_offset := dec_offset d + 1\<rparr>))"

section \<open>Tags and lengths\<close>

function readBase128_loop :: "int \<Rightarrow> decoder \<Rightarrow> int dec_result" where
  "readBase128_loop result d =
     (if at_end d then (Fail ErrUnexpectedEOF, d)
      else and_then (next_byte d) (\<lambda>b d'.
        if 1 * 2 ^ 24 < result
        then (Fail (DecodeError (dec_offset d' - 1) ''tag number overflow'' None), d')
        else let result' = push_bit 7 result OR uint (b AND 0x7F)
             in if b AND 0x80 = 0 then (Ok result', d') else readBase128_loop result' d'))"
  by pat_completeness auto
termination
  by (relation "measure (\<lambda>(r, d). length (dec_data d) - dec_offset d)")
     (auto simp: at_end_def next_byte_def and_then_Ok_iff)

declare readBase128_loop.simps [simp del]

definition readBase128 :: "decoder \<Rightarrow> int dec_result" where
  "readBase128 d = readBase128_loop 0 d"

definition ReadTag :: "decoder \<Rightarrow> (int \<times> int \<times> int) dec_result" where
  "ReadTag d =
     (let startOffset = dec_offset d in
      if at_end d
      then (Fail (DecodeError startOffset ''cannot read tag'' (Some ErrUnexpectedEOF)), d)
      else and_then (next_byte d) (\<lambda>firstByte d.
        let class = uint (firstByte AND 0xC0);
            constructed = uint (firstByte AND 0x20);
            number = uint (firstByte AND 0x1F)
        in if number = 0x1F
           then and_then
                  (map_fail (\<lambda>err. DecodeError startOffset ''cannot read long form tag number''
                     (Some err)) (readBase128 d))
                  (\<lambda>number d. (Ok (class, constructed, number), d))
           else (Ok (class, constructed, number), d)))"

fun readLength_loop :: "nat \<Rightarrow> nat \<Rightarrow> int \<Rightarrow> decoder \<Rightarrow> int dec_result" where
  "readLength_loop startOffset 0 len d = (Ok len, d)"
| "readLength_loop startOffset (Suc n) len d =
     (if 1 * 2 ^ 24 < len
      then (Fail (DecodeError startOffset ''length value overflow'' (Some ErrInvalidLength)), d)
      else and_then (next_byte d) (\<lambda>b d.
        readLength_loop startOffset n (push_bit 8 len OR uint b) d))"

definition ReadLength :: "decoder \<Rightarrow> int dec_result" where
  "ReadLength d =
     (let startOffset = dec_offset d in
      if at_end d
      then (Fail (DecodeError startOffset ''cannot read length'' (Some ErrUnexpectedEOF)), d)
      else and_then (next_byte d) (\<lambda>firstByte d.
        if firstByte AND 0x80 = 0 then (Ok (uint firstByte), d)
        else let numBytes = unat (firstByte AND 0x7F) in
          if numBytes = 0
          then (Fail (DecodeError startOffset ''indefinite length encoding''
                  (Some ErrIndefiniteLength)), d)
          else if length (dec_data d) < dec_offset d + numBytes
          then (Fail (DecodeError startOffset ''truncated length encoding''
                  (Some ErrUnexpectedEOF)), d)
          else readLength_loop startOffset numBytes 0 d))"

section \<open>Primitive values\<close>

text \<open>
  The check \<^verbatim>\<open>d.offset+length > len(d.data)\<close> that every value read makes; the length is an
  \<^verbatim>\<open>int\<close> that \<^const>\<open>ReadLength\<close> keeps non-negative.
\<close>

definition beyond_end :: "decoder \<Rightarrow> int \<Rightarrow> bool" where
  "beyond_end d len \<longleftrightarrow> int (length (dec_data d)) < int (dec_offset d) + len"

definition ReadBoolean :: "decoder \<Rightarrow> bool dec_result" where
  "ReadBoolean d =
     (let startOffset = dec_offset d in
      and_then (ReadTag d) (\<lambda>(class, constructed, number) d.
        if class \<noteq> ClassUniversal \<or> constructed \<noteq> TypePrimitive \<or> number \<noteq> TagBoolean
        then (Fail (TagMismatchError startOffset ClassUniversal TagBoolean class number constructed), d)
        else and_then (ReadLength d) (\<lambda>len d.
          if len \<noteq> 1
          then (Fail (DecodeError startOffset ''boolean must have length 1''
                  (Some ErrInvalidBoolean)), d)
          else if at_end d
          then (Fail (DecodeError (dec_offset d) ''cannot read boolean value''
                  (Some ErrUnexpectedEOF)), d)
          else and_then (next_byte d) (\<lambda>v d. (Ok (v \<noteq> 0x00), d)))))"

text \<open>
  \<^verbatim>\<open>decodeInteger\<close> on a \<^verbatim>\<open>int64\<close> accumulator: sign extension by starting from \<open>-1\<close>, then one
  left shift per octet.
\<close>

fun decodeInteger_loop :: "nat \<Rightarrow> uint64 \<Rightarrow> decoder \<Rightarrow> uint64 dec_result" where
  "decodeInteger_loop 0 result d = (Ok result, d)"
| "decodeInteger_loop (Suc n) result d =
     and_then (next_byte d) (\<lambda>b d. decodeInteger_loop n (push_bit 8 result OR ucast b) d)"

definition decodeInteger :: "decoder \<Rightarrow> int \<Rightarrow> uint64 dec_result" where
  "decodeInteger d len =
     and_then (next_byte d) (\<lambda>firstByte d.
       let result = (if firstByte AND 0x80 \<noteq> 0 then - 1 else 0);
           result = push_bit 8 result OR ucast firstByte
       in decodeInteger_loop (nat (len - 1)) result d)"

definition ReadInteger :: "decoder \<Rightarrow> uint64 dec_result" where
  "ReadInteger d =
     (let startOffset = dec_offset d in
      and_then (ReadTag d) (\<lambda>(class, constructed, number) d.
        if class \<noteq> ClassUniversal \<or> constructed \<noteq> TypePrimitive \<or> number \<noteq> TagInteger
        then (Fail (TagMismatchError startOffset ClassUniversal TagInteger class number constructed), d)
        else and_then (ReadLength d) (\<lambda>len d.
          if len = 0
          then (Fail (DecodeError startOffset ''integer must have at least 1 byte''
                  (Some ErrInvalidInteger)), d)
          else if 8 < len
          then (Fail (DecodeError startOffset ''integer too large for int64''
                  (Some ErrInvalidInteger)), d)
          else if beyond_end d len
          then (Fail (DecodeError (dec_offset d) ''truncated integer value''
                  (Some ErrUnexpectedEOF)), d)
          else decodeInteger d len)))"

text \<open>The slice expression \<^verbatim>\<open>d.data[d.offset:d.offset+length]\<close> followed by \<^verbatim>\<open>d.offset += length\<close>.\<close>

definition take_value :: "decoder \<Rightarrow> int \<Rightarrow> bytes dec_result" where
  "take_value d len =
     and_then (go_slice (dec_data d) (dec_offset d) (dec_offset d + nat len), d)
       (\<lambda>v d. (Ok v, d\<lparr>dec_offset := dec_offset d + nat len\<rparr>))"

definition ReadOctetString :: "decoder \<Rightarrow> bytes dec_result" where
  "ReadOctetString d =
     (let startOffset = dec_offset d in
      and_then (ReadTag d) (\<lambda>(class, constructed, number) d.
        if class \<noteq> ClassUniversal \<or> number \<noteq> TagOctetString
        then (Fail (TagMismatchError startOffset ClassUniversal TagOctetString class number
                constructed), d)
        else if constructed \<noteq> TypePrimitive
        then (Fail (DecodeError startOffset ''constructed octet string not supported'' None), d)
        else and_then (ReadLength d) (\<lambda>len d.
          if beyond_end d len
          then (Fail (DecodeError (dec_offset d) ''truncated octet string value''
                  (Some ErrUnexpectedEOF)), d)
          else take_value d len)))"

definition ReadEnumerated :: "decoder \<Rightarrow> uint64 dec_result" where
  "ReadEnumerated d =
     (let startOffset = dec_offset d in
      and_then (ReadTag d) (\<lambda>(class, constructed, number) d.
        if class \<noteq> ClassUniversal \<or> constructed \<noteq> TypePrimitive \<or> number \<noteq> TagEnumerated
        then (Fail (TagMismatchError startOffset ClassUniversal TagEnumerated class number constructed), d)
        else and_then (ReadLength d) (\<lambda>len d.
          if len = 0
          then (Fail (DecodeError startOffset ''enumerated must have at least 1 byte''
                  (Some ErrInvalidInteger)), d)
          else if 8 < len
          then (Fail (DecodeError startOffset ''enumerated too large for int64''
                  (Some ErrInvalidInteger)), d)
          else if beyond_end d len
          then (Fail (DecodeError (dec_offset d) ''truncated enumerated value''
                  (Some ErrUnexpectedEOF)), d)
          else decodeInteger d len)))"

definition ReadNull :: "decoder \<Rightarrow> unit dec_result" where
  "ReadNull d =
     (let startOffset = dec_offset d in
      and_then (ReadTag d) (\<lambda>(class, constructed, number) d.
        if class \<noteq> ClassUniversal \<or> constructed \<noteq> TypePrimitive \<or> number \<noteq> TagNull
        then (Fail (TagMismatchError startOffset ClassUniversal TagNull class number constructed), d)
        else and_then (ReadLength d) (\<lambda>len d.
          if len \<noteq> 0
          then (Fail (DecodeError startOffset ''null must have length 0'' (Some ErrInvalidNull)), d)
          else (Ok (), d))))"

section \<open>Whole elements and tagged values\<close>

definition PeekTag :: "decoder \<Rightarrow> (int \<times> int \<times> int) dec_result" where
  "PeekTag d = (let (r, d') = ReadTag d in (r, d'\<lparr>dec_offset := dec_offset d\<rparr>))"

definition Skip :: "decoder \<Rightarrow> unit dec_result" where
  "Skip d =
     (let startOffset = dec_offset d in
      and_then (ReadTag d) (\<lambda>_ d.
      and_then (ReadLength d) (\<lambda>len d.
        if beyond_end d len
        then (Fail (DecodeError startOffset ''truncated value'' (Some ErrUnexpectedEOF)), d)
        else (Ok (), d\<lparr>dec_offset := dec_offset d + nat len\<rparr>))))"

definition ReadRawValue :: "decoder \<Rightarrow> bytes dec_result" where
  "ReadRawValue d =
     (let startOffset = dec_offset d in
      and_then (ReadTag d) (\<lambda>_ d.
      and_then (ReadLength d) (\<lambda>len d.
        if beyond_end d len
        then (Fail (DecodeError startOffset ''truncated value'' (Some ErrUnexpectedEOF)), d)
        else let endOffset = dec_offset d + nat len in
          and_then (go_slice (dec_data d) startOffset endOffset, d)
            (\<lambda>v d. (Ok v, d\<lparr>dec_offset := endOffset\<rparr>)))))"

definition ReadTaggedValue :: "decoder \<Rightarrow> (int \<times> bool \<times> bytes) dec_result" where
  "ReadTaggedValue d =
     (let startOffset = dec_offset d in
      and_then (ReadTag d) (\<lambda>(class, constructedFlag, number) d.
        if class \<noteq> ClassContextSpecific
        then (Fail (TagMismatchError startOffset ClassContextSpecific (- 1) class number
                constructedFlag), d)
        else and_then (ReadLength d) (\<lambda>len d.
          if beyond_end d len
          then (Fail (DecodeError (dec_offset d) ''truncated tagged value''
                  (Some ErrUnexpectedEOF)), d)
          else and_then (take_value d len)
                 (\<lambda>v d. (Ok (number, constructedFlag = TypeConstructed, v), d)))))"

definition ReadIntegerWithTag :: "decoder \<Rightarrow> int \<Rightarrow> uint64 dec_result" where
  "ReadIntegerWithTag d expectedTag =
     (let startOffset = dec_offset d in
      and_then (ReadTag d) (\<lambda>(class, constructed, number) d.
        if class \<noteq> ClassContextSpecific \<or> constructed \<noteq> TypePrimitive \<or> number \<noteq> expectedTag
        then (Fail (TagMismatchError startOffset ClassContextSpecific expectedTag class number constructed), d)
        else and_then (ReadLength d) (\<lambda>len d.
          if len = 0
          then (Fail (DecodeError startOffset ''integer must have at least 1 byte''
                  (Some ErrInvalidInteger)), d)
          else if 8 < len
          then (Fail (DecodeError startOffset ''integer too large for int64''
                  (Some ErrInvalidInteger)), d)
          else if beyond_end d len
          then (Fail (DecodeError (dec_offset d) ''truncated integer value''
                  (Some ErrUnexpectedEOF)), d)
          else decodeInteger d len)))"

section \<open>Constructed values\<close>

definition ExpectSequence :: "decoder \<Rightarrow> int dec_result" where
  "ExpectSequence d =
     (let startOffset = dec_offset d in
      and_then (ReadTag d) (\<lambda>(class, constructed, number) d.
        if class \<noteq> ClassUniversal \<or> constructed \<noteq> TypeConstructed \<or> number \<noteq> TagSequence
        then (Fail (TagMismatchError startOffset ClassUniversal TagSequence class number constructed), d)
        else and_then (ReadLength d) (\<lambda>len d.
          if beyond_end d len
          then (Fail (DecodeError startOffset ''truncated sequence content''
                  (Some ErrUnexpectedEOF)), d)
          else (Ok len, d))))"

definition ExpectSet :: "decoder \<Rightarrow> int dec_result" where
  "ExpectSet d =
     (let startOffset = dec_offset d in
      and_then (ReadTag d) (\<lambda>(class, constructed, number) d.
        if class \<noteq> ClassUniversal \<or> constructed \<noteq> TypeConstructed \<or> number \<noteq> TagSet
        then (Fail (TagMismatchError startOffset ClassUniversal TagSet class number constructed), d)
        else and_then (ReadLength d) (\<lambda>len d.
          if beyond_end d len
          then (Fail (DecodeError startOffset ''truncated set content''
                  (Some ErrUnexpectedEOF)), d)
          else (Ok len, d))))"

definition ExpectContextTag :: "decoder \<Rightarrow> int \<Rightarrow> int dec_result" where
  "ExpectContextTag d num =
     (let startOffset = dec_offset d in
      and_then (ReadTag d) (\<lambda>(class, constructed, number) d.
        if class \<noteq> ClassContextSpecific \<or> number \<noteq> num
        then (Fail (TagMismatchError startOffset ClassContextSpecific num class number constructed), d)
        else and_then (ReadLength d) (\<lambda>len d.
          if beyond_end d len
          then (Fail (DecodeError startOffset ''truncated context-tagged content''
                  (Some ErrUnexpectedEOF)), d)
          else (Ok len, d))))"

definition ExpectApplicationTag :: "decoder \<Rightarrow> int \<Rightarrow> int dec_result" where
  "ExpectApplicationTag d num =
     (let startOffset = dec_offset d in
      and_then (ReadTag d) (\<lambda>(class, constructed, number) d.
        if class \<noteq> ClassApplication \<or> number \<noteq> num
        then (Fail (TagMismatchError startOffset ClassApplication num class number constructed), d)
        else and_then (ReadLength d) (\<lambda>len d.
          if beyond_end d len
          then (Fail (DecodeError startOffset ''truncated application-tagged content''
                  (Some ErrUnexpectedEOF)), d)
          else (Ok len, d))))"

definition IsContextTag :: "decoder \<Rightarrow> int \<Rightarrow> bool" where
  "IsContextTag d num =
     (case fst (PeekTag d) of
        Ok (class, _, number) \<Rightarrow> class = ClassContextSpecific \<and> number = num
      | _ \<Rightarrow> False)"

definition IsApplicationTag :: "decoder \<Rightarrow> int \<Rightarrow> bool" where
  "IsApplicationTag d num =
     (case fst (PeekTag d) of
        Ok (class, _, number) \<Rightarrow> class = ClassApplication \<and> number = num
      | _ \<Rightarrow> False)"

text \<open>
  The four \<^verbatim>\<open>Read...Contents\<close> functions cut the content out as a decoder of its own and step
  over it.
\<close>

definition sub_decoder :: "decoder \<Rightarrow> int \<Rightarrow> decoder dec_result" where
  "sub_decoder d len =
     and_then (take_value d len) (\<lambda>contents d. (Ok (NewBERDecoder contents), d))"

definition ReadSequenceContents :: "decoder \<Rightarrow> decoder dec_result" where
  "ReadSequenceContents d = and_then (ExpectSequence d) (\<lambda>len d. sub_decoder d len)"

definition ReadSetContents :: "decoder \<Rightarrow> decoder dec_result" where
  "ReadSetContents d = and_then (ExpectSet d) (\<lambda>len d. sub_decoder d len)"

definition ReadContextTagContents :: "decoder \<Rightarrow> int \<Rightarrow> decoder dec_result" where
  "ReadContextTagContents d num = and_then (ExpectContextTag d num) (\<lambda>len d. sub_decoder d len)"

definition ReadApplicationTagContents :: "decoder \<Rightarrow> int \<Rightarrow> decoder dec_result" where
  "ReadApplicationTagContents d num = and_then (ExpectApplicationTag d num) (\<lambda>len d. sub_decoder d len)"

end
