(* ===== verification/Ber_Safety.thy ===== *)
theory Ber_Safety
  imports Ber_Decoder
begin

text \<open>
  Memory safety of the decoder on arbitrary input. The contract every read keeps is the
  locale \<open>ber_reader\<close>: no panic, the data untouched, the cursor never moved backwards and
  never past the end of the data. Readers that also consume at least one byte when they
  succeed (\<open>ber_progress\<close>) can be iterated until the data is used up, as the LDAP layer
  does. Both locales are interpreted on every public read of decoder.go.
\<close>

section \<open>The contract of a read\<close>

definition safe_from :: "decoder \<Rightarrow> 'a dec_result \<Rightarrow> bool" where
  "safe_from d r \<longleftrightarrow>
     fst r \<noteq> Panic \<and> dec_data (snd r) = dec_data d \<and> dec_offset d \<le> dec_offset (snd r) \<and>
     (dec_offset d \<le> length (dec_data d) \<longrightarrow> dec_offset (snd r) \<le> length (dec_data d))"

lemma safe_from_pair:
  "safe_from d (r, d') \<longleftrightarrow>
     r \<noteq> Panic \<and> dec_data d' = dec_data d \<and> dec_offset d \<le> dec_offset d' \<and>
     (dec_offset d \<le> length (dec_data d) \<longrightarrow> dec_offset d' \<le> length (dec_data d))"
  by (simp add: safe_from_def)

lemma safe_from_refl [simp]: "safe_from d (Ok a, d)" "safe_from d (Fail e, d)"
  by (simp_all add: safe_from_pair)

lemma safe_from_and_then:
  assumes "safe_from d r"
    and "\<And>a d'. r = (Ok a, d') \<Longrightarrow> dec_data d' = dec_data d \<Longrightarrow> safe_from d' (f a d')"
  shows "safe_from d (and_then r f)"
proof (cases "(r, f)" rule: and_then.cases)
  case (1 a s f')
  then show ?thesis
    using assms(1) assms(2) [of a s] by (auto simp: safe_from_def)
qed (use assms(1) in \<open>auto simp: safe_from_def\<close>)

lemma safe_from_map_fail: "safe_from d r \<Longrightarrow> safe_from d (map_fail g r)"
  by (cases "(g, r)" rule: map_fail.cases) (auto simp: safe_from_pair)

locale ber_reader =
  fixes read :: "decoder \<Rightarrow> 'a dec_result"
  assumes safe: "safe_from d (read d)"
begin

lemma no_panic: "fst (read d) \<noteq> Panic"
  using safe [of d] by (simp add: safe_from_def)

lemma keeps_data: "dec_data (snd (read d)) = dec_data d"
  using safe [of d] by (simp add: safe_from_def)

lemma in_bounds:
  "dec_offset d \<le> length (dec_data d) \<Longrightarrow>
     dec_offset d \<le> dec_offset (snd (read d)) \<and> dec_offset (snd (read d)) \<le> length (dec_data d)"
  using safe [of d] by (simp add: safe_from_def)

end

section \<open>Reading several elements\<close>

fun read_n :: "(decoder \<Rightarrow> 'a dec_result) \<Rightarrow> nat \<Rightarrow> decoder \<Rightarrow> 'a list dec_result" where
  "read_n read 0 d = (Ok [], d)"
| "read_n read (Suc n) d =
     and_then (read d) (\<lambda>x d. and_then (read_n read n d) (\<lambda>xs d. (Ok (x # xs), d)))"

context ber_reader
begin

lemma read_n_safe: "safe_from d (read_n read n d)"
  by (induction n arbitrary: d) (auto intro!: safe_from_and_then safe)

end

text \<open>
  The loop \<^verbatim>\<open>for d.Remaining() > 0 { ... }\<close>. The fuel bounds the number of iterations; for a
  reader that makes progress the number of bytes left is enough.
\<close>

fun read_all :: "nat \<Rightarrow> (decoder \<Rightarrow> 'a dec_result) \<Rightarrow> decoder \<Rightarrow> 'a list dec_result option" where
  "read_all 0 read d = (if 0 < Remaining d then None else Some (Ok [], d))"
| "read_all (Suc fuel) read d =
     (if 0 < Remaining d then
        (case read d of
           (Ok x, d') \<Rightarrow>
             map_option (\<lambda>r. and_then r (\<lambda>xs d. (Ok (x # xs), d))) (read_all fuel read d')
         | (Fail e, d') \<Rightarrow> Some (Fail e, d')
         | (Panic, d') \<Rightarrow> Some (Panic, d'))
      else Some (Ok [], d))"

locale ber_progress = ber_reader +
  assumes progress: "read d = (Ok a, d') \<Longrightarrow> dec_offset d < dec_offset d'"
begin

lemma read_all_returns:
  "Remaining d \<le> int fuel \<Longrightarrow> \<exists>r. read_all fuel read d = Some r"
proof (induction fuel arbitrary: d)
  case 0
  then show ?case by (simp add: Remaining_def)
next
  case (Suc fuel)
  obtain r d' where rd: "read d = (r, d')" by (cases "read d")
  show ?case
  proof (cases r)
    case (Ok x)
    have "dec_offset d < dec_offset d'" "dec_data d' = dec_data d"
      using progress [of d x d'] keeps_data [of d] rd Ok by simp_all
    then have "Remaining d' \<le> int fuel"
      using Suc.prems by (simp add: Remaining_def)
    from Suc.IH [OF this] show ?thesis
      using rd Ok by auto
  qed (use rd in auto)
qed

lemma read_all_safe: "read_all fuel read d = Some r \<Longrightarrow> safe_from d r"
proof (induction fuel arbitrary: d r)
  case 0
  then show ?case by (auto split: if_splits)
next
  case (Suc fuel)
  obtain r' d' where rd: "read d = (r', d')" by (cases "read d")
  have sf: "safe_from d (r', d')"
    using safe [of d] rd by simp
  show ?case
  proof (cases "0 < Remaining d")
    case False
    then show ?thesis using Suc.prems by auto
  next
    case True
    show ?thesis
    proof (cases r')
      case (Ok x)
      then obtain q where q: "read_all fuel read d' = Some q"
        and r: "r = and_then q (\<lambda>xs d. (Ok (x # xs), d))"
        using Suc.prems True rd by auto
      have "safe_from d (and_then (Ok x, d') (\<lambda>x d'. and_then q (\<lambda>xs d. (Ok (x # xs), d))))"
        using sf Ok Suc.IH [OF q] by (intro safe_from_and_then) auto
      then show ?thesis using r by simp
    qed (use Suc.prems True rd sf in \<open>auto simp: safe_from_pair\<close>)
  qed
qed

lemma read_all_ends: "\<exists>r. read_all (nat (Remaining d)) read d = Some r \<and> safe_from d r"
proof -
  have "Remaining d \<le> int (nat (Remaining d))"
    by simp
  then show ?thesis
    using read_all_returns read_all_safe by blast
qed

end

section \<open>Tags and lengths\<close>

lemma next_byte_eq:
  "next_byte d =
     (if at_end d then (Panic, d)
      else (Ok (dec_data d ! dec_offset d), d\<lparr>dec_offset := dec_offset d + 1\<rparr>))"
  by (auto simp: next_byte_def go_index_def at_end_def)

lemma safe_next_byte: "\<not> at_end d \<Longrightarrow> safe_from d (next_byte d)"
  by (auto simp: next_byte_eq safe_from_pair at_end_def)

lemma next_byte_progress: "next_byte d = (Ok b, d') \<Longrightarrow> dec_offset d < dec_offset d'"
  by (auto simp: next_byte_eq split: if_splits)

lemma safe_readBase128_loop: "safe_from d (readBase128_loop r d)"
proof (induction r d rule: readBase128_loop.induct)
  case (1 result d)
  show ?case
  proof (cases "at_end d")
    case True
    then show ?thesis by (simp add: readBase128_loop.simps)
  next
    case False
    then show ?thesis
      using 1 by (subst readBase128_loop.simps)
        (auto intro!: safe_from_and_then safe_next_byte simp: Let_def)
  qed
qed

lemma safe_ReadTag: "safe_from d (ReadTag d)"
  by (auto simp: ReadTag_def Let_def readBase128_def
      intro!: safe_from_and_then safe_next_byte safe_from_map_fail safe_readBase128_loop)

interpretation tag: ber_reader ReadTag
  by unfold_locales (rule safe_ReadTag)

lemma safe_readLength_loop:
  "dec_offset d + n \<le> length (dec_data d) \<Longrightarrow> safe_from d (readLength_loop s n len d)"
proof (induction n arbitrary: len d)
  case 0
  then show ?case by simp
next
  case (Suc n)
  have ne: "\<not> at_end d"
    using Suc.prems by (simp add: at_end_def)
  have "safe_from d (and_then (next_byte d) (\<lambda>b. readLength_loop s n (push_bit 8 len OR uint b)))"
  proof (rule safe_from_and_then [OF safe_next_byte [OF ne]])
    fix b d'
    assume "next_byte d = (Ok b, d')"
    then have "dec_offset d' + n \<le> length (dec_data d')"
      using Suc.prems ne by (auto simp: next_byte_eq)
    then show "safe_from d' (readLength_loop s n (push_bit 8 len OR uint b) d')"
      by (rule Suc.IH)
  qed
  then show ?case by simp
qed

lemma readLength_loop_bounds:
  "readLength_loop s n len d = (Ok l, d') \<Longrightarrow> 0 \<le> len \<Longrightarrow> len \<le> 2 ^ 32 + 255 \<Longrightarrow>
     0 \<le> l \<and> l \<le> 2 ^ 32 + 255"
proof (induction n arbitrary: len d)
  case 0
  then show ?case by simp
next
  case (Suc n)
  then obtain b :: byte and d'' where small: "len \<le> 2 ^ 24"
    and rest: "readLength_loop s n (push_bit 8 len OR uint b) d'' = (Ok l, d')"
    by (fastforce simp: and_then_Ok_iff split: if_splits)
  have "uint b < 256" "0 \<le> uint b"
    using uint_lt2p [of b] by simp_all
  with small Suc.prems(2) show ?case
    using Suc.IH [OF rest] by (simp add: push_bit_or_byte)
qed

lemma safe_ReadLength: "safe_from d (ReadLength d)"
  by (auto simp: ReadLength_def Let_def not_less
      intro!: safe_from_and_then safe_next_byte safe_readLength_loop)

interpretation len: ber_reader ReadLength
  by unfold_locales (rule safe_ReadLength)

lemma ReadLength_bounds:
  assumes "ReadLength d = (Ok l, d')"
  shows "0 \<le> l \<and> l \<le> 2 ^ 32 + 255"
proof -
  have "uint b \<le> 2 ^ 32 + 255" for b :: byte
    using uint_lt2p [of b] by simp
  then show ?thesis
    using assms by (auto simp: ReadLength_def Let_def and_then_Ok_iff
        split: if_splits dest: readLength_loop_bounds)
qed

section \<open>Values\<close>

text \<open>An outcome that keeps the contract and, when it succeeds, has consumed something.\<close>

definition advancing :: "decoder \<Rightarrow> 'a dec_result \<Rightarrow> bool" where
  "advancing d r \<longleftrightarrow>
     safe_from d r \<and> (\<forall>a. fst r = Ok a \<longrightarrow> dec_offset d < dec_offset (snd r))"

lemma advancing_and_then:
  assumes "advancing d r"
    and "\<And>a d'. r = (Ok a, d') \<Longrightarrow> dec_data d' = dec_data d \<Longrightarrow> safe_from d' (f a d')"
  shows "advancing d (and_then r f)"
proof -
  have "safe_from d (and_then r f)"
    using assms by (auto simp: advancing_def intro: safe_from_and_then)
  moreover have "dec_offset d < dec_offset (snd (and_then r f))"
    if "fst (and_then r f) = Ok b" for b
  proof (cases "(r, f)" rule: and_then.cases)
    case (1 a s g)
    then show ?thesis
      using assms(1) assms(2) [of a s] by (auto simp: advancing_def safe_from_def)
  qed (use that in auto)
  ultimately show ?thesis by (auto simp: advancing_def)
qed

lemma advancing_ReadTag: "advancing d (ReadTag d)"
  unfolding ReadTag_def Let_def
proof (split if_split, intro conjI impI)
  assume "\<not> at_end d"
  then have "advancing d (next_byte d)"
    using safe_next_byte [of d] by (auto simp: advancing_def next_byte_eq)
  then show "advancing d (and_then (next_byte d) (\<lambda>firstByte d'.
      if uint (firstByte AND 0x1F) = 0x1F
      then and_then (map_fail (\<lambda>err. DecodeError (dec_offset d)
             ''cannot read long form tag number'' (Some err)) (readBase128 d'))
             (\<lambda>number d. (Ok (uint (firstByte AND 0xC0), uint (firstByte AND 0x20), number), d))
      else (Ok (uint (firstByte AND 0xC0), uint (firstByte AND 0x20),
              uint (firstByte AND 0x1F)), d')))"
    by (rule advancing_and_then)
       (auto simp: readBase128_def
         intro!: safe_from_and_then safe_from_map_fail safe_readBase128_loop)
qed (simp add: advancing_def)

lemma ber_progressI:
  assumes "\<And>d. advancing d (read d)"
  shows "ber_progress read"
proof
  show "safe_from d (read d)" for d
    using assms [of d] by (simp add: advancing_def)
  show "dec_offset d < dec_offset d'" if "read d = (Ok a, d')" for d a d'
    using assms [of d] that by (simp add: advancing_def)
qed

lemma safe_take_value: "\<not> beyond_end d len \<Longrightarrow> safe_from d (take_value d len)"
  if "0 \<le> len"
  using that by (auto simp: take_value_def beyond_end_def safe_from_pair)

lemma safe_decodeInteger_loop:
  "dec_offset d + n \<le> length (dec_data d) \<Longrightarrow> safe_from d (decodeInteger_loop n r d)"
proof (induction n arbitrary: r d)
  case 0
  then show ?case by simp
next
  case (Suc n)
  then have ne: "\<not> at_end d"
    by (simp add: at_end_def)
  have "safe_from d'
      (decodeInteger_loop n (push_bit 8 r OR ucast b) d')" if "next_byte d = (Ok b, d')" for b d'
    using Suc.prems that ne by (intro Suc.IH) (auto simp: next_byte_eq)
  then show ?case
    using safe_next_byte [OF ne] by (auto intro: safe_from_and_then)
qed

lemma safe_decodeInteger:
  assumes "0 < len" and "\<not> beyond_end d len"
  shows "safe_from d (decodeInteger d len)"
proof -
  have ne: "\<not> at_end d"
    using assms by (simp add: at_end_def beyond_end_def)
  have "safe_from d' (decodeInteger_loop (nat (len - 1)) r d')"
    if "next_byte d = (Ok b, d')" for b r d'
    using assms that ne
    by (intro safe_decodeInteger_loop) (auto simp: next_byte_eq beyond_end_def)
  then show ?thesis
    using safe_next_byte [OF ne]
    by (auto simp: decodeInteger_def Let_def intro!: safe_from_and_then)
qed

text \<open>
  Every public read is a tag followed by a continuation that keeps the contract. What the
  continuations share: a length is non-negative, and a value is only cut out, decoded or
  stepped over after the check against the end of the data.
\<close>

lemma safe_with_length:
  assumes "\<And>l d'. ReadLength d = (Ok l, d') \<Longrightarrow> 0 \<le> l \<Longrightarrow> dec_data d' = dec_data d \<Longrightarrow>
    dec_offset d \<le> dec_offset d' \<Longrightarrow> safe_from d' (f l d')"
  shows "safe_from d (and_then (ReadLength d) f)"
proof (rule safe_from_and_then [OF safe_ReadLength])
  fix l d'
  assume rd: "ReadLength d = (Ok l, d')" and "dec_data d' = dec_data d"
  moreover have "0 \<le> l"
    using ReadLength_bounds [OF rd] by simp
  moreover have "dec_offset d \<le> dec_offset d'"
    using safe_ReadLength [of d] rd by (simp add: safe_from_pair)
  ultimately show "safe_from d' (f l d')" using assms by blast
qed

lemma safe_skip_value:
  "\<not> beyond_end d len \<Longrightarrow> safe_from d (Ok a, d\<lparr>dec_offset := dec_offset d + nat len\<rparr>)"
  by (auto simp: safe_from_pair beyond_end_def)

lemmas read_safe_intros =
  safe_with_length safe_take_value safe_decodeInteger safe_skip_value safe_next_byte
  safe_from_and_then

interpretation boolean: ber_progress ReadBoolean
  by (rule ber_progressI)
     (auto simp: ReadBoolean_def Let_def intro!: advancing_and_then advancing_ReadTag read_safe_intros)

interpretation integer: ber_progress ReadInteger
  by (rule ber_progressI)
     (auto simp: ReadInteger_def Let_def intro!: advancing_and_then advancing_ReadTag read_safe_intros)

interpretation octets: ber_progress ReadOctetString
  by (rule ber_progressI)
     (auto simp: ReadOctetString_def Let_def
       intro!: advancing_and_then advancing_ReadTag read_safe_intros)

interpretation enumerated: ber_progress ReadEnumerated
  by (rule ber_progressI)
     (auto simp: ReadEnumerated_def Let_def
       intro!: advancing_and_then advancing_ReadTag read_safe_intros)

interpretation null: ber_progress ReadNull
  by (rule ber_progressI)
     (auto simp: ReadNull_def Let_def intro!: advancing_and_then advancing_ReadTag read_safe_intros)

interpretation skip: ber_progress Skip
  by (rule ber_progressI)
     (auto simp: Skip_def Let_def intro!: advancing_and_then advancing_ReadTag read_safe_intros)

interpretation tagged: ber_progress ReadTaggedValue
  by (rule ber_progressI)
     (auto simp: ReadTaggedValue_def Let_def
       intro!: advancing_and_then advancing_ReadTag read_safe_intros)

interpretation tagged_integer: ber_progress "\<lambda>d. ReadIntegerWithTag d t"
  by (rule ber_progressI)
     (auto simp: ReadIntegerWithTag_def Let_def
       intro!: advancing_and_then advancing_ReadTag read_safe_intros)

lemma advancing_ReadRawValue: "advancing d (ReadRawValue d)"
proof -
  have "safe_from d2 (and_then (go_slice (dec_data d) (dec_offset d) (dec_offset d2 + nat l), d2)
          (\<lambda>v d'. (Ok v, d'\<lparr>dec_offset := dec_offset d2 + nat l\<rparr>)))"
    if "\<not> beyond_end d2 l" "dec_offset d \<le> dec_offset d2" "0 \<le> l" "dec_data d2 = dec_data d" for d2 l
    using that by (auto simp: safe_from_pair beyond_end_def)
  moreover have "dec_offset d \<le> dec_offset d1" if "ReadTag d = (Ok a, d1)" for a d1
    using safe_ReadTag [of d] that by (simp add: safe_from_pair)
  ultimately show ?thesis
    unfolding ReadRawValue_def Let_def
    by (intro advancing_and_then advancing_ReadTag safe_with_length) (auto intro: order_trans)
qed

interpretation raw: ber_progress ReadRawValue
  by (rule ber_progressI) (rule advancing_ReadRawValue)

interpretation peek: ber_reader PeekTag
proof
  show "safe_from d (PeekTag d)" for d
    using safe_ReadTag [of d] by (auto simp: PeekTag_def safe_from_def split: prod.splits)
qed

interpretation expect_sequence: ber_progress ExpectSequence
  by (rule ber_progressI)
     (auto simp: ExpectSequence_def Let_def
       intro!: advancing_and_then advancing_ReadTag read_safe_intros)

interpretation expect_set: ber_progress ExpectSet
  by (rule ber_progressI)
     (auto simp: ExpectSet_def Let_def
       intro!: advancing_and_then advancing_ReadTag read_safe_intros)

interpretation expect_context: ber_progress "\<lambda>d. ExpectContextTag d t"
  by (rule ber_progressI)
     (auto simp: ExpectContextTag_def Let_def
       intro!: advancing_and_then advancing_ReadTag read_safe_intros)

interpretation expect_application: ber_progress "\<lambda>d. ExpectApplicationTag d t"
  by (rule ber_progressI)
     (auto simp: ExpectApplicationTag_def Let_def
       intro!: advancing_and_then advancing_ReadTag read_safe_intros)

text \<open>What an \<^verbatim>\<open>Expect...\<close> function has checked when it returns a length.\<close>

definition content_checked :: "decoder \<Rightarrow> int dec_result \<Rightarrow> bool" where
  "content_checked d r \<longleftrightarrow>
     advancing d r \<and> (\<forall>l. fst r = Ok l \<longrightarrow> 0 \<le> l \<and> \<not> beyond_end (snd r) l)"

lemma content_checkedI:
  assumes "advancing d (expect d)"
    and "\<And>l d'. expect d = (Ok l, d') \<Longrightarrow> \<exists>d0. ReadLength d0 = (Ok l, d') \<and> \<not> beyond_end d' l"
  shows "content_checked d (expect d)"
  using assms(1) assms(2) [of _ "snd (expect d)"] ReadLength_bounds
  by (auto simp: content_checked_def prod_eq_iff)

lemma content_checked_sub_decoder:
  assumes "content_checked d r"
  shows "advancing d (and_then r (\<lambda>len d. sub_decoder d len))"
  using assms unfolding content_checked_def
  by (auto simp: sub_decoder_def intro!: advancing_and_then safe_from_and_then safe_take_value)

lemma content_checked_ExpectSequence: "content_checked d (ExpectSequence d)"
proof (rule content_checkedI)
  show "advancing d (ExpectSequence d)"
    using expect_sequence.safe [of d] expect_sequence.progress [of d]
    by (auto simp: advancing_def prod_eq_iff)
qed (auto simp: ExpectSequence_def Let_def and_then_Ok_iff split: if_splits)

interpretation sequence_contents: ber_progress ReadSequenceContents
  by (rule ber_progressI)
     (simp add: ReadSequenceContents_def content_checked_sub_decoder content_checked_ExpectSequence)

lemma content_checked_ExpectSet: "content_checked d (ExpectSet d)"
proof (rule content_checkedI)
  show "advancing d (ExpectSet d)"
    using expect_set.safe [of d] expect_set.progress [of d]
    by (auto simp: advancing_def prod_eq_iff)
qed (auto simp: ExpectSet_def Let_def and_then_Ok_iff split: if_splits)

interpretation set_contents: ber_progress ReadSetContents
  by (rule ber_progressI)
     (simp add: ReadSetContents_def content_checked_sub_decoder content_checked_ExpectSet)

lemma content_checked_ExpectContextTag: "content_checked d (ExpectContextTag d t)"
proof (rule content_checkedI)
  show "advancing d (ExpectContextTag d t)"
    using expect_context.safe [of d t] expect_context.progress [of d t]
    by (auto simp: advancing_def prod_eq_iff)
qed (auto simp: ExpectContextTag_def Let_def and_then_Ok_iff split: if_splits)

interpretation context_contents: ber_progress "\<lambda>d. ReadContextTagContents d t"
  by (rule ber_progressI)
     (simp add: ReadContextTagContents_def content_checked_sub_decoder content_checked_ExpectContextTag)

lemma content_checked_ExpectApplicationTag: "content_checked d (ExpectApplicationTag d t)"
proof (rule content_checkedI)
  show "advancing d (ExpectApplicationTag d t)"
    using expect_application.safe [of d t] expect_application.progress [of d t]
    by (auto simp: advancing_def prod_eq_iff)
qed (auto simp: ExpectApplicationTag_def Let_def and_then_Ok_iff split: if_splits)

interpretation application_contents: ber_progress "\<lambda>d. ReadApplicationTagContents d t"
  by (rule ber_progressI)
     (simp add: ReadApplicationTagContents_def content_checked_sub_decoder content_checked_ExpectApplicationTag)

end
