(* ===== verification/Ber_Roundtrip.thy ===== *)
theory Ber_Roundtrip
  imports Ber_Safety
begin

text \<open>
  What the encoder writes, the decoder reads back: tags, lengths, primitive values and
  nested constructed values, at any position of a longer message. The locale \<open>ber_codec\<close>
  states the law for a pair of a write and a read, and proves from it that a run of values
  written one after the other is read back in order; it is interpreted on every pair of
  \<^verbatim>\<open>Write...\<close> and \<^verbatim>\<open>Read...\<close> functions.
\<close>

section \<open>A decoder in the middle of a message\<close>

definition decoder_at :: "bytes \<Rightarrow> bytes \<Rightarrow> decoder" where
  "decoder_at pre rest = \<lparr>dec_data = pre @ rest, dec_offset = length pre\<rparr>"

lemma at_end_decoder_at [simp]: "at_end (decoder_at pre rest) \<longleftrightarrow> rest = []"
  by (simp add: at_end_def decoder_at_def)

lemma next_byte_decoder_at [simp]:
  "next_byte (decoder_at pre (b # rest)) = (Ok b, decoder_at (pre @ [b]) rest)"
  by (simp add: next_byte_eq at_end_def decoder_at_def nth_append)

lemma dec_data_decoder_at [simp]: "dec_data (decoder_at pre rest) = pre @ rest"
  by (simp add: decoder_at_def)

lemma dec_offset_decoder_at [simp]: "dec_offset (decoder_at pre rest) = length pre"
  by (simp add: decoder_at_def)

lemma beyond_end_decoder_at [simp]:
  "beyond_end (decoder_at pre rest) len \<longleftrightarrow> int (length rest) < len"
  by (auto simp: beyond_end_def)

lemma take_value_decoder_at [simp]:
  "take_value (decoder_at pre (v @ rest)) (int (length v)) = (Ok v, decoder_at (pre @ v) rest)"
  by (simp add: take_value_def decoder_at_def)

lemma NewBERDecoder_decoder_at: "NewBERDecoder bs = decoder_at [] bs"
  by (simp add: NewBERDecoder_def decoder_at_def)

section \<open>Tag octets\<close>

definition valid_class :: "int \<Rightarrow> bool" where
  "valid_class c \<longleftrightarrow> c \<in> {ClassUniversal, ClassApplication, ClassContextSpecific, ClassPrivate}"

definition valid_form :: "int \<Rightarrow> bool" where
  "valid_form k \<longleftrightarrow> k \<in> {TypePrimitive, TypeConstructed}"

lemma low_bits_and_mask:
  fixes m :: byte
  assumes "0 \<le> n" and "n < 2 ^ k" and "take_bit k m = 0"
  shows "word_of_int n AND m = 0"
proof (rule bit_word_eqI)
  fix i
  assume "i < LENGTH(8)"
  have "take_bit k n = n"
    using assms by (simp add: take_bit_int_eq_self)
  then have lo: "bit n i \<Longrightarrow> i < k"
    by (metis bit_take_bit_iff)
  have hi: "bit m i \<Longrightarrow> \<not> i < k"
    using assms(3) by (metis bit_0_eq bit_take_bit_iff bot_apply bot_bool_def)
  show "bit (word_of_int n AND m) i = bit (0 :: byte) i"
    using lo hi by (auto simp: bit_simps)
qed

lemma low_bits_and_low:
  fixes m m' :: byte
  assumes "0 \<le> n" and "n < 2 ^ k" and "take_bit k m' = 0" and "m OR m' = 0xFF"
  shows "word_of_int n AND m = word_of_int n"
proof -
  have "word_of_int n = word_of_int n AND (m OR m')"
    using assms(4) by simp
  also have "\<dots> = word_of_int n AND m"
    using low_bits_and_mask [OF assms(1-3)] by (simp add: bit.conj_disj_distrib)
  finally show ?thesis by simp
qed

lemma tag_octet_fields:
  assumes "valid_class c" and "valid_form k" and "0 \<le> n" and "n < 32"
  defines "b \<equiv> word_of_int c OR word_of_int k OR word_of_int n :: byte"
  shows "uint (b AND 0xC0) = c" "uint (b AND 0x20) = k" "uint (b AND 0x1F) = n"
proof -
  have m: "word_of_int n AND 0xC0 = (0 :: byte)" "word_of_int n AND 0x20 = (0 :: byte)"
    using assms(3,4) by (auto intro!: low_bits_and_mask [where k = 5])
  have l: "word_of_int n AND 0x1F = (word_of_int n :: byte)"
    using assms(3,4) by (intro low_bits_and_low [where k = 5 and m' = "0xE0"]) auto
  have n: "uint (word_of_int n :: byte) = n"
    using assms(3,4) by (simp add: uint_word_of_int)
  note dist = bit.conj_disj_distrib2
  show "uint (b AND 0xC0) = c" "uint (b AND 0x20) = k" "uint (b AND 0x1F) = n"
    using assms(1,2) m n l
    by (auto simp: b_def dist valid_class_def valid_form_def ber_const_defs)
qed

section \<open>Base-128 tag numbers\<close>

definition cont_octets :: "int \<Rightarrow> bytes" where
  "cont_octets v = map (\<lambda>d. d OR 0x80) (rev (base128_digits v))"

lemma base128_digits_pos:
  "0 < v \<Longrightarrow> base128_digits v = word_of_int (v AND 0x7F) # base128_digits (drop_bit 7 v)"
  by (subst base128_digits.simps) simp

lemma cont_octets_0 [simp]: "cont_octets 0 = []"
  by (simp add: cont_octets_def base128_digits.simps)

lemma cont_octets_pos:
  "0 < v \<Longrightarrow> cont_octets v = cont_octets (drop_bit 7 v) @ [word_of_int (v AND 0x7F) OR 0x80]"
  by (simp add: cont_octets_def base128_digits_pos)

lemma base128_pos:
  assumes "0 < v"
  shows "base128 v = cont_octets (drop_bit 7 v) @ [word_of_int (v AND 0x7F)]"
proof -
  let ?ds = "base128_digits (drop_bit 7 v)"
  have "map (\<lambda>i. ?ds ! i OR 0x80) (rev [0..<length ?ds]) = cont_octets (drop_bit 7 v)"
    by (simp add: cont_octets_def rev_map [symmetric])
       (metis (mono_tags, lifting) map_map map_nth comp_apply map_eq_conv)
  then show ?thesis
    using assms
    by (simp add: base128_def base128_digits_pos upt_conv_Cons rev_map
        map_Suc_upt [symmetric] comp_def del: upt_Suc)
qed

lemma and_127_mod: "v AND 0x7F = v mod 128" for v :: int
  using take_bit_eq_mask [of 7 v] by (simp add: mask_numeral take_bit_eq_mod)

lemma shift7_join: "push_bit 7 (drop_bit 7 v) OR (v AND 0x7F) = v" for v :: int
  using push_bit_or_int [of "v mod 128" 7 "v div 128"]
  by (simp add: and_127_mod drop_bit_eq_div)

lemma digit_octet:
  fixes v :: int
  defines "b \<equiv> word_of_int (v AND 0x7F) :: byte"
  shows "uint (b AND 0x7F) = v AND 0x7F" "b AND 0x80 = 0"
    "uint ((b OR 0x80) AND 0x7F) = v AND 0x7F" "(b OR 0x80) AND 0x80 \<noteq> 0"
proof -
  have r: "0 \<le> v mod 128" "v mod 128 < 128" by simp_all
  then have u: "uint b = v AND 0x7F"
    by (simp add: b_def and_127_mod uint_word_of_int)
  have z: "b AND 0x80 = 0"
    unfolding b_def and_127_mod using r by (intro low_bits_and_mask [where k = 7]) auto
  have m: "b AND 0x7F = b"
    unfolding b_def and_127_mod using r
    by (intro low_bits_and_low [where k = 7 and m' = "0x80"]) auto
  show "uint (b AND 0x7F) = v AND 0x7F" "b AND 0x80 = 0"
    "uint ((b OR 0x80) AND 0x7F) = v AND 0x7F" "(b OR 0x80) AND 0x80 \<noteq> 0"
    using u m z by (simp_all add: bit.conj_disj_distrib2)
qed

lemma readBase128_loop_step:
  "r \<le> 2 ^ 24 \<Longrightarrow> readBase128_loop r (decoder_at pre (b # rest)) =
     (let r' = push_bit 7 r OR uint (b AND 0x7F)
      in if b AND 0x80 = 0 then (Ok r', decoder_at (pre @ [b]) rest)
         else readBase128_loop r' (decoder_at (pre @ [b]) rest))"
  by (subst readBase128_loop.simps) simp

lemma readBase128_loop_cont:
  "0 \<le> m \<Longrightarrow> drop_bit 7 m \<le> 2 ^ 24 \<Longrightarrow>
     readBase128_loop 0 (decoder_at pre (cont_octets m @ rest)) =
     readBase128_loop m (decoder_at (pre @ cont_octets m) rest)"
proof (induction m arbitrary: rest rule: base128_digits.induct)
  case (1 m)
  show ?case
  proof (cases "m = 0")
    case False
    then have pos: "0 < m" using 1 by simp
    have "drop_bit 7 (drop_bit 7 m) \<le> 2 ^ 24"
      using 1 pos by (simp add: drop_bit_eq_div)
    then have "readBase128_loop 0
        (decoder_at pre (cont_octets (drop_bit 7 m) @ (word_of_int (m AND 0x7F) OR 0x80) # rest)) =
        readBase128_loop (drop_bit 7 m) (decoder_at (pre @ cont_octets (drop_bit 7 m))
          ((word_of_int (m AND 0x7F) OR 0x80) # rest))"
      using 1 pos by simp
    then show ?thesis
      using pos 1 by (simp add: cont_octets_pos readBase128_loop_step digit_octet shift7_join)
  qed simp
qed

lemma readBase128_base128:
  assumes "0 < v" and "drop_bit 7 v \<le> 2 ^ 24"
  shows "readBase128 (decoder_at pre (base128 v @ rest)) = (Ok v, decoder_at (pre @ base128 v) rest)"
proof -
  have "drop_bit 7 (drop_bit 7 v) \<le> 2 ^ 24"
    using assms by (simp add: drop_bit_eq_div)
  then show ?thesis
    using assms
    by (simp add: readBase128_def base128_pos readBase128_loop_cont readBase128_loop_step
        digit_octet shift7_join)
qed

lemma readBase128_loop_overflow:
  "2 ^ 24 < m \<Longrightarrow> rest \<noteq> [] \<Longrightarrow>
     \<exists>off d. readBase128_loop 0 (decoder_at pre (cont_octets m @ rest)) =
       (Fail (DecodeError off ''tag number overflow'' None), d)"
proof (induction m arbitrary: rest rule: base128_digits.induct)
  case (1 m)
  then have pos: "0 < m" by simp
  show ?case
  proof (cases "drop_bit 7 m \<le> 2 ^ 24")
    case True
    obtain b bs where "rest = b # bs" using 1 by (cases rest) auto
    then show ?thesis
      using 1 pos True
      by (auto simp: readBase128_loop_cont readBase128_loop.simps [of m])
  next
    case False
    then show ?thesis
      using 1 pos by (auto simp: cont_octets_pos)
  qed
qed

section \<open>Tags\<close>

text \<open>The tag numbers the decoder accepts: its overflow check runs before the last shift.\<close>

definition readable_tag :: "int \<Rightarrow> bool" where
  "readable_tag n \<longleftrightarrow> 0 \<le> n \<and> drop_bit 7 n \<le> 2 ^ 24"

definition tag_octets :: "int \<Rightarrow> int \<Rightarrow> int \<Rightarrow> bytes" where
  "tag_octets c k n =
     (if n \<le> 30 then [word_of_int c OR word_of_int k OR word_of_int n]
      else (word_of_int c OR word_of_int k OR 0x1F) # base128 n)"

lemma append_bytes_append [simp]: "append_bytes (append_bytes e xs) ys = append_bytes e (xs @ ys)"
  by (simp add: append_bytes_def)

lemma buf_append_bytes [simp]: "buf (append_bytes e bs) = buf e @ bs"
  by (simp add: append_bytes_def)

lemma WriteTag_octets:
  "valid_class c \<Longrightarrow> 0 \<le> n \<Longrightarrow> WriteTag e c k n = (Ok (), append_bytes e (tag_octets c k n))"
  by (auto simp: WriteTag_def valid_class_def tag_octets_def writeBase128_def)

lemma ReadTag_tag_octets:
  assumes c: "valid_class c" and k: "valid_form k" and n: "readable_tag n"
  shows "ReadTag (decoder_at pre (tag_octets c k n @ rest)) =
           (Ok (c, k, n), decoder_at (pre @ tag_octets c k n) rest)"
proof (cases "n \<le> 30")
  case True
  then show ?thesis
    using tag_octet_fields [OF c k, of n] n
    by (simp add: ReadTag_def tag_octets_def readable_tag_def Let_def)
next
  case False
  then show ?thesis
    using tag_octet_fields [OF c k, of 31] n readBase128_base128 [of n]
    by (simp add: ReadTag_def tag_octets_def readable_tag_def Let_def)
qed

lemma ReadTag_overflow:
  assumes c: "valid_class c" and k: "valid_form k" and n: "2 ^ 24 < drop_bit 7 n"
  shows "\<exists>off d. ReadTag (decoder_at pre (tag_octets c k n @ rest)) =
    (Fail (DecodeError (length pre) ''cannot read long form tag number''
       (Some (DecodeError off ''tag number overflow'' None))), d)"
proof -
  have n30: "\<not> n \<le> 30"
    using n by (auto simp: drop_bit_eq_div)
  then have b: "base128 n = cont_octets (drop_bit 7 n) @ [word_of_int (n AND 0x7F)]"
    by (intro base128_pos) simp
  show ?thesis
    using tag_octet_fields [OF c k, of 31] n30
      readBase128_loop_overflow [OF n, of "word_of_int (n AND 0x7F) # rest"
        "pre @ [word_of_int c OR word_of_int k OR 0x1F]"]
    by (auto simp: ReadTag_def tag_octets_def Let_def readBase128_def b)
qed

section \<open>Lengths\<close>

definition readable_length :: "int \<Rightarrow> bool" where
  "readable_length l \<longleftrightarrow> 0 \<le> l \<and> drop_bit 8 l \<le> 2 ^ 24"

definition length_field :: "int \<Rightarrow> bytes" where
  "length_field l =
     (if l \<le> MaxShortFormLength then [word_of_int l]
      else word_of_int (LengthLongFormBit OR int (num_length_bytes l)) #
           length_octets (num_length_bytes l) l)"

lemma num_length_bytes_bound:
  "l < 256 ^ k \<Longrightarrow> num_length_bytes l \<le> k"
proof (induction k arbitrary: l)
  case 0
  then show ?case by (simp add: num_length_bytes.simps)
next
  case (Suc k)
  have "drop_bit 8 l < 256 ^ k"
    using Suc.prems by (simp add: drop_bit_eq_div)
  then show ?case
    using Suc.IH by (subst num_length_bytes.simps) simp
qed

lemma num_length_bytes_pos: "0 < l \<Longrightarrow> 0 < num_length_bytes l"
  by (subst num_length_bytes.simps) simp

lemma drop_num_length_bytes: "0 \<le> l \<Longrightarrow> drop_bit (8 * num_length_bytes l) l = 0"
proof (induction l rule: num_length_bytes.induct)
  case (1 l)
  then show ?case
    by (cases "0 < l") (subst num_length_bytes.simps, simp add: drop_bit_drop_bit add.commute)+
qed

lemma length_octets_Suc:
  "length_octets (Suc n) l = word_of_int (drop_bit (8 * n) l) # length_octets n l"
  by (simp add: length_octets_def)

lemma length_octets_0 [simp]: "length_octets 0 l = []"
  by (simp add: length_octets_def)

lemma length_length_octets [simp]: "length (length_octets n l) = n"
  by (simp add: length_octets_def)

lemma shift8_join:
  "push_bit 8 (drop_bit (8 * Suc n) l) OR uint (word_of_int (drop_bit (8 * n) l) :: byte) =
     drop_bit (8 * n) l"
proof -
  have "drop_bit (8 * Suc n) l = drop_bit 8 (drop_bit (8 * n) l)"
    by (simp add: drop_bit_drop_bit)
  then have "drop_bit (8 * Suc n) l = drop_bit (8 * n) l div 256"
    by (simp add: drop_bit_eq_div)
  then show ?thesis
    using push_bit_or_int [of "drop_bit (8 * n) l mod 256" 8 "drop_bit (8 * n) l div 256"]
    by (simp add: uint_word_of_int)
qed

lemma readLength_loop_octets:
  assumes "0 \<le> l" and "drop_bit 8 l \<le> 2 ^ 24"
  shows "readLength_loop s n (drop_bit (8 * n) l) (decoder_at pre (length_octets n l @ rest)) =
    (Ok l, decoder_at (pre @ length_octets n l) rest)"
proof (induction n arbitrary: pre)
  case 0
  then show ?case by simp
next
  case (Suc n)
  have "drop_bit (8 * Suc n) l = drop_bit (8 * n) (drop_bit 8 l)"
    by (simp add: drop_bit_drop_bit add.commute)
  then have "drop_bit (8 * Suc n) l \<le> drop_bit 8 l"
    using assms(1) drop_bit_int_le [of "drop_bit 8 l" "8 * n"] by simp
  then show ?case
    using Suc assms(2) shift8_join [of n l] by (simp add: length_octets_Suc)
qed

lemma readLength_loop_overflow:
  assumes "2 ^ 24 < drop_bit 8 l"
  shows "\<exists>d. readLength_loop s (Suc n) (drop_bit (8 * Suc n) l)
      (decoder_at pre (length_octets (Suc n) l @ rest)) =
    (Fail (DecodeError s ''length value overflow'' (Some ErrInvalidLength)), d)"
proof (induction n arbitrary: pre)
  case 0
  then show ?case using assms by (simp add: length_octets_Suc)
next
  case (Suc n)
  show ?case
  proof (cases "2 ^ 24 < drop_bit (8 * Suc (Suc n)) l")
    case True
    then show ?thesis by simp
  next
    case False
    then show ?thesis
      using Suc.IH [of "pre @ [word_of_int (drop_bit (8 * Suc n) l)]"] shift8_join [of "Suc n" l]
      by (simp add: length_octets_Suc [of "Suc n"])
  qed
qed

lemma long_form_octet:
  assumes "n \<le> 127"
  shows "word_of_int (LengthLongFormBit OR int n) AND 0x80 \<noteq> (0 :: byte)"
    and "unat ((word_of_int (LengthLongFormBit OR int n) :: byte) AND 0x7F) = n"
proof -
  let ?b = "word_of_int (int n) :: byte"
  have e: "word_of_int (LengthLongFormBit OR int n) = 0x80 OR ?b"
    by (simp add: LengthLongFormBit_def of_int_or_eq)
  have z: "?b AND 0x80 = 0"
    by (rule low_bits_and_mask [where k = 7]) (use assms in auto)
  have m: "?b AND 0x7F = ?b"
    by (rule low_bits_and_low [where k = 7 and m' = "0x80"]) (use assms in auto)
  have u: "unat ?b = n"
    using assms by (simp add: unat_of_nat)
  show "word_of_int (LengthLongFormBit OR int n) AND 0x80 \<noteq> (0 :: byte)"
    and "unat ((word_of_int (LengthLongFormBit OR int n) :: byte) AND 0x7F) = n"
    using z m u by (simp_all add: e bit.conj_disj_distrib2 del: of_int_of_nat_eq)
qed

lemma WriteLength_field:
  "0 \<le> l \<Longrightarrow> num_length_bytes l \<le> 127 \<Longrightarrow>
     WriteLength e l = (Ok (), append_bytes e (length_field l))"
  by (simp add: WriteLength_def length_field_def Let_def)

lemma readable_length_octets:
  assumes "readable_length l"
  shows "num_length_bytes l \<le> 127"
proof -
  have "l div 256 \<le> 16777216"
    using assms by (simp add: readable_length_def drop_bit_eq_div)
  then have "l < 256 ^ 5" by simp
  then have "num_length_bytes l \<le> 5"
    by (rule num_length_bytes_bound)
  then show ?thesis by simp
qed

lemma ReadLength_length_field:
  assumes "readable_length l"
  shows "ReadLength (decoder_at pre (length_field l @ rest)) =
    (Ok l, decoder_at (pre @ length_field l) rest)"
proof (cases "l \<le> MaxShortFormLength")
  case True
  have "word_of_int l AND 0x80 = (0 :: byte)" and "uint (word_of_int l :: byte) = l"
    using assms True
    by (auto intro!: low_bits_and_mask [where k = 7]
        simp: readable_length_def MaxShortFormLength_def uint_word_of_int)
  with True show ?thesis
    by (simp add: ReadLength_def length_field_def Let_def)
next
  case False
  then have "0 < l" by (simp add: MaxShortFormLength_def)
  then show ?thesis
    using assms False long_form_octet [OF readable_length_octets [OF assms]]
      num_length_bytes_pos [of l] drop_num_length_bytes [of l]
      readLength_loop_octets [of l "length pre" "num_length_bytes l"
        "pre @ [word_of_int (LengthLongFormBit OR int (num_length_bytes l))]" rest]
    by (simp add: ReadLength_def length_field_def Let_def readable_length_def)
qed

lemma ReadLength_overflow:
  assumes "2 ^ 24 < drop_bit 8 l" and "num_length_bytes l \<le> 127"
  shows "\<exists>d. ReadLength (decoder_at pre (length_field l @ rest)) =
    (Fail (DecodeError (length pre) ''length value overflow'' (Some ErrInvalidLength)), d)"
proof -
  have l: "\<not> l \<le> MaxShortFormLength" "0 < l"
    using assms(1) by (auto simp: drop_bit_eq_div MaxShortFormLength_def)
  obtain n where n: "num_length_bytes l = Suc n"
    using num_length_bytes_pos [OF l(2)] by (cases "num_length_bytes l") auto
  have "drop_bit (8 * Suc n) l = 0"
    using drop_num_length_bytes [of l] l n by simp
  then show ?thesis
    using l n long_form_octet [OF assms(2)] readLength_loop_overflow [OF assms(1), of "length pre" n
        "pre @ [word_of_int (LengthLongFormBit OR int (Suc n))]" rest]
    by (simp add: ReadLength_def length_field_def Let_def)
qed

end
