(* ===== verification/Ber_Integer.thy ===== *)
theory Ber_Integer
  imports Ber_Roundtrip
begin

text \<open>
  The integer content octets: \<^verbatim>\<open>encodeInteger\<close> against \<^verbatim>\<open>decodeInteger\<close>. Both loops of the
  encoder keep exactly a suffix of the eight octets of the two's complement, chosen so that
  sign extension restores the octets left out.
\<close>

section \<open>Big-endian accumulation\<close>

definition dec_from :: "uint64 \<Rightarrow> bytes \<Rightarrow> uint64" where
  "dec_from r bs = foldl (\<lambda>r b. push_bit 8 r OR ucast b) r bs"

lemma dec_from_simps [simp]:
  "dec_from r [] = r"
  "dec_from r (b # bs) = dec_from (push_bit 8 r OR ucast b) bs"
  by (simp_all add: dec_from_def)

abbreviation suffix_octets :: "uint64 \<Rightarrow> nat \<Rightarrow> bytes" where
  "suffix_octets v k \<equiv> map (octet v) (rev [0..<k])"

lemma suffix_octets_Suc: "suffix_octets v (Suc k) = octet v k # suffix_octets v k"
  by simp

lemma dec_from_suffix:
  "dec_from r (suffix_octets v k) = push_bit (8 * k) r OR take_bit (8 * k) v"
proof (induction k arbitrary: r)
  case 0
  then show ?case by simp
next
  case (Suc k)
  have "push_bit (8 * k) (push_bit 8 r OR ucast (octet v k)) OR take_bit (8 * k) v =
        push_bit (8 * Suc k) r OR take_bit (8 * Suc k) v"
    by (rule bit_word_eqI) (auto simp: octet_def bit_simps ac_simps)
  with Suc show ?case by simp
qed

lemma dec_from_all: "dec_from r (suffix_octets v 8) = v"
proof -
  have "push_bit 64 r = 0" "take_bit 64 v = v"
    by (auto intro!: bit_word_eqI simp: bit_simps)
  then show ?thesis by (simp add: dec_from_suffix del: upt_Suc upt_rec_numeral)
qed

lemma dec_from_skip:
  assumes "push_bit 8 r OR ucast f = r"
  shows "k \<le> n \<Longrightarrow> (\<And>i. k \<le> i \<Longrightarrow> i < n \<Longrightarrow> octet v i = f) \<Longrightarrow>
    dec_from r (suffix_octets v n) = dec_from r (suffix_octets v k)"
proof (induction n)
  case 0
  then show ?case by simp
next
  case (Suc n)
  then show ?case
    using assms by (cases "k = Suc n") auto
qed

lemma and_0x80_byte: "b AND 0x80 = 0 \<longleftrightarrow> \<not> bit b 7" for b :: byte
  using and_exp_eq_0_iff_not_bit [of b 7] by simp

lemma and_0x80_octet: "drop_bit (j * 8) v AND 0x80 = 0 \<longleftrightarrow> octet v j AND 0x80 = 0"
  using and_exp_eq_0_iff_not_bit [of "drop_bit (j * 8) v" 7]
  by (simp add: and_0x80_byte octet_def bit_simps)

section \<open>What the two loops keep\<close>

lemma fold_append_kept:
  assumes "\<And>i bs. bs \<noteq> [] \<Longrightarrow> step i bs = bs @ [f i]"
  shows "bs \<noteq> [] \<Longrightarrow> fold step is bs = bs @ map f is"
  using assms by (induction "is" arbitrary: bs) auto

lemma neg_fold:
  "\<exists>k\<le>n. fold (neg_step v) (rev [0..<n]) [] = suffix_octets v k \<and>
     (\<forall>i. k \<le> i \<and> i < n \<longrightarrow> octet v i = 0xFF \<and> (0 < i \<longrightarrow> octet v (i - 1) AND 0x80 \<noteq> 0)) \<and>
     (0 < k \<longrightarrow> octet v (k - 1) \<noteq> 0xFF \<or> (1 < k \<and> octet v (k - 2) AND 0x80 = 0))"
proof (induction n)
  case 0
  then show ?case by simp
next
  case (Suc n)
  show ?case
  proof (cases "neg_step v n [] = []")
    case True
    then have skip: "octet v n = 0xFF" "0 < n \<longrightarrow> octet v (n - 1) AND 0x80 \<noteq> 0"
      by (auto simp: neg_step_def and_0x80_octet split: if_splits)
    obtain k where "k \<le> n" and "fold (neg_step v) (rev [0..<n]) [] = suffix_octets v k"
      and "\<forall>i. k \<le> i \<and> i < n \<longrightarrow> octet v i = 0xFF \<and> (0 < i \<longrightarrow> octet v (i - 1) AND 0x80 \<noteq> 0)"
      and "0 < k \<longrightarrow> octet v (k - 1) \<noteq> 0xFF \<or> (1 < k \<and> octet v (k - 2) AND 0x80 = 0)"
      using Suc.IH by blast
    then show ?thesis
      using True skip by (intro exI [of _ k]) (auto simp: less_Suc_eq)
  next
    case False
    then have kept: "neg_step v n [] = [octet v n]"
      and sig: "octet v n \<noteq> 0xFF \<or> (0 < n \<and> octet v (n - 1) AND 0x80 = 0)"
      by (auto simp: neg_step_def and_0x80_octet split: if_splits)
    have "fold (neg_step v) (rev [0..<n]) [octet v n] = [octet v n] @ map (octet v) (rev [0..<n])"
      by (rule fold_append_kept) (auto simp: neg_step_def)
    then show ?thesis
      using kept sig by (intro exI [of _ "Suc n"]) auto
  qed
qed

lemma pos_fold:
  "\<exists>k\<le>n. fold (pos_step v) (rev [0..<n]) [] = suffix_octets v k \<and>
     (\<forall>i. k \<le> i \<and> i < n \<longrightarrow> octet v i = 0) \<and> (0 < k \<longrightarrow> octet v (k - 1) \<noteq> 0)"
proof (induction n)
  case 0
  then show ?case by simp
next
  case (Suc n)
  show ?case
  proof (cases "octet v n = 0")
    case True
    obtain k where "k \<le> n" and "fold (pos_step v) (rev [0..<n]) [] = suffix_octets v k"
      and "\<forall>i. k \<le> i \<and> i < n \<longrightarrow> octet v i = 0" and "0 < k \<longrightarrow> octet v (k - 1) \<noteq> 0"
      using Suc.IH by blast
    then show ?thesis
      using True pos_step_def [of v n "[]"] by (intro exI [of _ k]) (auto simp: less_Suc_eq)
  next
    case False
    have "fold (pos_step v) (rev [0..<n]) [octet v n] = [octet v n] @ map (octet v) (rev [0..<n])"
      by (rule fold_append_kept) (auto simp: pos_step_def)
    then show ?thesis
      using False pos_step_def [of v n "[]"] by (intro exI [of _ "Suc n"]) auto
  qed
qed

section \<open>The content octets\<close>

lemma sign_bit: "sint (v :: uint64) < 0 \<longleftrightarrow> octet v 7 AND 0x80 \<noteq> 0"
  using bit_last_iff [of v] by (simp add: and_0x80_byte octet_def bit_simps)

lemma encodeInteger_negative:
  assumes "sint v < 0"
  obtains k where "encodeInteger v = (if k = 0 then [0xFF] else suffix_octets v k)" and "k \<le> 8"
    and "\<And>i. k \<le> i \<Longrightarrow> i < 8 \<Longrightarrow> octet v i = 0xFF"
    and "0 < k \<Longrightarrow> octet v (k - 1) AND 0x80 \<noteq> 0"
    and "1 < k \<Longrightarrow> octet v (k - 1) \<noteq> 0xFF \<or> octet v (k - 2) AND 0x80 = 0"
proof -
  obtain k where k: "k \<le> 8" "fold (neg_step v) (rev [0..<8]) [] = suffix_octets v k"
    and skip: "\<And>i. k \<le> i \<Longrightarrow> i < 8 \<Longrightarrow>
      octet v i = 0xFF \<and> (0 < i \<longrightarrow> octet v (i - 1) AND 0x80 \<noteq> 0)"
    and sig: "0 < k \<longrightarrow> octet v (k - 1) \<noteq> 0xFF \<or> (1 < k \<and> octet v (k - 2) AND 0x80 = 0)"
    using neg_fold [of 8 v] by (auto simp del: upt_rec_numeral)
  have top: "octet v (k - 1) AND 0x80 \<noteq> 0" if "0 < k"
  proof (cases "k = 8")
    case True
    then show ?thesis using assms sign_bit [of v] by simp
  next
    case False
    then show ?thesis using skip [of k] k that by simp
  qed
  have hd_k: "hd (suffix_octets v k) = octet v (k - 1)" if "0 < k"
    using that by (cases k) simp_all
  have "v \<noteq> 0" using assms by auto
  then have "encodeInteger v = (if k = 0 then [0xFF] else suffix_octets v k)"
    using assms k(2) top hd_k
    by (cases "k = 0") (simp_all add: encodeInteger_def Let_def del: upt_rec_numeral)
  then show thesis
    using that [of k] k(1) skip sig top by auto
qed

lemma encodeInteger_positive:
  assumes "0 < sint v"
  obtains k where "encodeInteger v =
      (if octet v (k - 1) AND 0x80 \<noteq> 0 then 0 # suffix_octets v k else suffix_octets v k)"
    and "0 < k" and "k \<le> 8" and "\<And>i. k \<le> i \<Longrightarrow> i < 8 \<Longrightarrow> octet v i = 0"
    and "octet v (k - 1) \<noteq> 0" and "octet v (k - 1) AND 0x80 \<noteq> 0 \<Longrightarrow> k \<le> 7"
proof -
  obtain k where k: "k \<le> 8" "fold (pos_step v) (rev [0..<8]) [] = suffix_octets v k"
    and skip: "\<And>i. k \<le> i \<Longrightarrow> i < 8 \<Longrightarrow> octet v i = 0"
    and sig: "0 < k \<longrightarrow> octet v (k - 1) \<noteq> 0"
    using pos_fold [of 8 v] by (auto simp del: upt_rec_numeral)
  have v: "v \<noteq> 0" "\<not> sint v < 0" using assms by auto
  have k0: "0 < k"
  proof (rule ccontr)
    assume "\<not> 0 < k"
    then have "dec_from 0 (suffix_octets v 8) = 0"
      using dec_from_skip [of 0 0 0 8 v] skip by (simp del: upt_rec_numeral)
    then show False using v dec_from_all [of 0 v] by simp
  qed
  have top: "octet v (k - 1) AND 0x80 \<noteq> 0 \<Longrightarrow> k \<le> 7"
    using v sign_bit [of v] k(1) by (cases "k = 8") auto
  have hd_k: "hd (suffix_octets v k) = octet v (k - 1)" "suffix_octets v k \<noteq> []"
    using k0 by (cases k; simp)+
  then have "encodeInteger v =
      (if octet v (k - 1) AND 0x80 \<noteq> 0 then 0 # suffix_octets v k else suffix_octets v k)"
    using v k(2) by (simp add: encodeInteger_def Let_def del: upt_rec_numeral)
  then show thesis
    using that [of k] k(1) k0 skip sig top by auto
qed

lemma minus_one_FF: "push_bit 8 (- 1) OR ucast (0xFF :: byte) = (- 1 :: uint64)"
  by (simp add: mask_numeral)

definition sign_start :: "bytes \<Rightarrow> uint64" where
  "sign_start bs = (if hd bs AND 0x80 \<noteq> 0 then - 1 else 0)"

lemma hd_suffix_octets: "0 < k \<Longrightarrow> hd (suffix_octets v k) = octet v (k - 1)"
  by (cases k) simp_all

lemma encodeInteger_facts:
  shows encodeInteger_length: "length (encodeInteger v) \<in> {1..8}"
    and dec_from_encodeInteger: "dec_from (sign_start (encodeInteger v)) (encodeInteger v) = v"
proof -
  consider "v = 0" | "sint v < 0" | "0 < sint v"
    by (metis linorder_neqE_linordered_idom signed_eq_0_iff)
  then have "length (encodeInteger v) \<in> {1..8} \<and>
    dec_from (sign_start (encodeInteger v)) (encodeInteger v) = v"
  proof cases
    case 1
    then show ?thesis by (simp add: encodeInteger_def sign_start_def)
  next
    case 2
    then obtain k where e: "encodeInteger v = (if k = 0 then [0xFF] else suffix_octets v k)"
      and k: "k \<le> 8" "\<And>i. k \<le> i \<Longrightarrow> i < 8 \<Longrightarrow> octet v i = 0xFF"
      and top: "0 < k \<Longrightarrow> octet v (k - 1) AND 0x80 \<noteq> 0"
      by (rule encodeInteger_negative) blast
    have d: "dec_from (- 1) (suffix_octets v k) = v"
      using dec_from_skip [OF minus_one_FF, of k 8 v] k dec_from_all [of "- 1" v]
      by (simp del: upt_rec_numeral)
    show ?thesis
    proof (cases "k = 0")
      case True
      then show ?thesis
        using e d minus_one_FF by (simp add: sign_start_def)
    next
      case False
      then show ?thesis
        using e d top k(1) by (simp add: sign_start_def hd_suffix_octets Suc_le_eq)
    qed
  next
    case 3
    then obtain k where e: "encodeInteger v =
        (if octet v (k - 1) AND 0x80 \<noteq> 0 then 0 # suffix_octets v k else suffix_octets v k)"
      and k: "0 < k" "k \<le> 8" "\<And>i. k \<le> i \<Longrightarrow> i < 8 \<Longrightarrow> octet v i = 0"
      and top: "octet v (k - 1) AND 0x80 \<noteq> 0 \<Longrightarrow> k \<le> 7"
      by (rule encodeInteger_positive) blast
    have "dec_from 0 (suffix_octets v k) = v"
      using dec_from_skip [of 0 0 k 8 v] k dec_from_all [of 0 v] by (simp del: upt_rec_numeral)
    then show ?thesis
      using e k(1,2) top by (auto simp: sign_start_def hd_suffix_octets Suc_le_eq)
  qed
  then show "length (encodeInteger v) \<in> {1..8}"
    and "dec_from (sign_start (encodeInteger v)) (encodeInteger v) = v" by blast+
qed

lemma decodeInteger_loop_octets:
  "decodeInteger_loop (length bs) r (decoder_at pre (bs @ rest)) =
     (Ok (dec_from r bs), decoder_at (pre @ bs) rest)"
  by (induction bs arbitrary: r pre) simp_all

lemma decodeInteger_octets:
  "bs \<noteq> [] \<Longrightarrow> decodeInteger (decoder_at pre (bs @ rest)) (int (length bs)) =
     (Ok (dec_from (sign_start bs) bs), decoder_at (pre @ bs) rest)"
  using decodeInteger_loop_octets [of "tl bs" _ "pre @ [hd bs]" rest]
  by (cases bs) (auto simp: decodeInteger_def Let_def sign_start_def)

lemma encodeInteger_minimal:
  assumes "encodeInteger v = b0 # b1 # bs"
  shows "\<not> (b0 = 0x00 \<and> b1 AND 0x80 = 0) \<and> \<not> (b0 = 0xFF \<and> b1 AND 0x80 \<noteq> 0)"
proof -
  have suf: "0 < k \<and> b0 = octet v (k - 1) \<and> (1 < k \<longrightarrow> b1 = octet v (k - 2)) \<and> 1 < k"
    if "suffix_octets v k = b0 # b1 # bs" for k
    using that by (cases k; cases "k - 1") auto
  consider "v = 0" | "sint v < 0" | "0 < sint v"
    by (metis linorder_neqE_linordered_idom signed_eq_0_iff)
  then show ?thesis
  proof cases
    case 1
    then show ?thesis using assms by (simp add: encodeInteger_def)
  next
    case 2
    then obtain k where e: "encodeInteger v = (if k = 0 then [0xFF] else suffix_octets v k)"
      and top: "0 < k \<Longrightarrow> octet v (k - 1) AND 0x80 \<noteq> 0"
      and sig: "1 < k \<Longrightarrow> octet v (k - 1) \<noteq> 0xFF \<or> octet v (k - 2) AND 0x80 = 0"
      by (rule encodeInteger_negative) blast
    then have "suffix_octets v k = b0 # b1 # bs"
      using assms by (simp split: if_splits)
    then show ?thesis
      using suf [of k] top sig by auto
  next
    case 3
    then obtain k where e: "encodeInteger v =
        (if octet v (k - 1) AND 0x80 \<noteq> 0 then 0 # suffix_octets v k else suffix_octets v k)"
      and k: "0 < k" "octet v (k - 1) \<noteq> 0"
      by (rule encodeInteger_positive) blast
    show ?thesis
    proof (cases "octet v (k - 1) AND 0x80 \<noteq> 0")
      case True
      then have "b0 = 0" "b1 = octet v (k - 1)"
        using assms e hd_suffix_octets [of k v] k(1) by auto
      with True show ?thesis by simp
    next
      case False
      then show ?thesis
        using assms e suf [of k] k by auto
    qed
  qed
qed

end
