(* ===== verification/Ber_Codec.thy ===== *)
theory Ber_Codec
  imports Ber_Integer
begin

text \<open>
  The codec contract and its instances. A codec is a write that appends a fixed encoding and
  a read that inverts it wherever the encoding stands; the contract gives the round trip of
  whole runs of values and unique decodability. The second half treats constructed values:
  the in-place length fix-up is the ordinary length field, so a constructed value is the
  same tag-length-value triple that the decoder's content readers take apart.
\<close>

section \<open>The contract\<close>

fun write_all :: "(encoder \<Rightarrow> 'a \<Rightarrow> unit enc_result) \<Rightarrow> encoder \<Rightarrow> 'a list \<Rightarrow> unit enc_result" where
  "write_all put e [] = (Ok (), e)"
| "write_all put e (v # vs) = and_then (put e v) (\<lambda>_ e. write_all put e vs)"

locale ber_codec = ber_progress read for read :: "decoder \<Rightarrow> 'a dec_result" +
  fixes put :: "encoder \<Rightarrow> 'a \<Rightarrow> unit enc_result"
    and enc :: "'a \<Rightarrow> bytes"
    and valid :: "'a \<Rightarrow> bool"
  assumes write_enc: "valid v \<Longrightarrow> put e v = (Ok (), append_bytes e (enc v))"
    and read_enc: "valid v \<Longrightarrow>
      read (decoder_at pre (enc v @ rest)) = (Ok v, decoder_at (pre @ enc v) rest)"
begin

lemma enc_nonempty: "valid v \<Longrightarrow> enc v \<noteq> []"
  using progress [OF read_enc [of v "[]" "[]"]] by auto

lemma write_then_read:
  assumes "valid v"
  obtains e' where "put e v = (Ok (), e')"
    and "read (decoder_at (buf e) (drop (length (buf e)) (buf e') @ rest)) =
           (Ok v, decoder_at (buf e') rest)"
  using that [OF write_enc [OF assms]] read_enc [OF assms] by simp

lemma write_all_enc:
  "list_all valid vs \<Longrightarrow> write_all put e vs = (Ok (), append_bytes e (concat (map enc vs)))"
  by (induction vs arbitrary: e) (auto simp: write_enc append_bytes_def)

lemma read_n_enc:
  "list_all valid vs \<Longrightarrow> read_n read (length vs) (decoder_at pre (concat (map enc vs) @ rest)) =
     (Ok vs, decoder_at (pre @ concat (map enc vs)) rest)"
  by (induction vs arbitrary: pre) (simp_all add: read_enc)

lemma read_all_enc:
  "list_all valid vs \<Longrightarrow> length vs \<le> fuel \<Longrightarrow>
     read_all fuel read (decoder_at pre (concat (map enc vs))) =
       Some (Ok vs, decoder_at (pre @ concat (map enc vs)) [])"
proof (induction vs arbitrary: pre fuel)
  case Nil
  then show ?case by (cases fuel) (auto simp: Remaining_def)
next
  case (Cons v vs)
  then obtain f where f: "fuel = Suc f" by (cases fuel) auto
  have "0 < Remaining (decoder_at pre (enc v @ concat (map enc vs)))"
    using Cons.prems enc_nonempty [of v] by (simp add: Remaining_def add_pos_nonneg)
  then show ?case
    using Cons f by (simp add: read_enc)
qed

lemma uniquely_decodable:
  assumes "valid v" and "valid w" and "enc v @ xs = enc w @ ys"
  shows "v = w \<and> xs = ys"
  using read_enc [OF assms(1), of "[]" xs] read_enc [OF assms(2), of "[]" ys] assms(3)
  by (simp add: decoder_at_def)

end

section \<open>Tag, length, value\<close>

definition tlv :: "int \<Rightarrow> int \<Rightarrow> int \<Rightarrow> bytes \<Rightarrow> bytes" where
  "tlv c k n content = tag_octets c k n @ length_field (int (length content)) @ content"

abbreviation fits_length :: "bytes \<Rightarrow> bool" where
  "fits_length v \<equiv> readable_length (int (length v))"

lemma readable_length_small [simp]: "l \<le> 127 \<Longrightarrow> 0 \<le> l \<Longrightarrow> readable_length l"
  by (simp add: readable_length_def drop_bit_eq_div)

lemma readable_length_iff: "readable_length l \<longleftrightarrow> 0 \<le> l \<and> l \<le> 2 ^ 32 + 255"
  by (auto simp: readable_length_def drop_bit_eq_div)

lemma readable_tag_iff: "readable_tag n \<longleftrightarrow> 0 \<le> n \<and> n \<le> 2 ^ 31 + 127"
  by (auto simp: readable_tag_def drop_bit_eq_div)

lemma valid_classes [simp]:
  "valid_class ClassUniversal" "valid_class ClassApplication"
  "valid_class ClassContextSpecific" "valid_class ClassPrivate"
  by (simp_all add: valid_class_def)

lemma valid_forms [simp]:
  "valid_form TypePrimitive" "valid_form TypeConstructed" "valid_form (constructed_flag b)"
  by (simp_all add: valid_form_def constructed_flag_def)

lemma constructed_flag_iff [simp]: "constructed_flag c = TypeConstructed \<longleftrightarrow> c"
  by (simp add: constructed_flag_def ber_type_defs)

lemma readable_tag_nonneg: "readable_tag n \<Longrightarrow> 0 \<le> n"
  by (simp add: readable_tag_def)

lemma readable_tags [simp]:
  "readable_tag TagBoolean" "readable_tag TagInteger" "readable_tag TagOctetString"
  "readable_tag TagNull" "readable_tag TagEnumerated" "readable_tag TagSequence"
  "readable_tag TagSet"
  by (simp_all add: readable_tag_iff ber_tag_defs)

lemma tags_nonneg [simp]:
  "0 \<le> TagBoolean" "0 \<le> TagInteger" "0 \<le> TagOctetString" "0 \<le> TagNull" "0 \<le> TagEnumerated"
  by (simp_all add: ber_tag_defs)

lemma WriteLength_readable:
  "readable_length l \<Longrightarrow> WriteLength e l = (Ok (), append_bytes e (length_field l))"
  using readable_length_octets [of l] by (simp add: WriteLength_field readable_length_def)

lemma encodeInteger_readable [simp]: "fits_length (encodeInteger v)"
  using encodeInteger_length [of v] by (intro readable_length_small) auto

lemmas tlv_write = WriteTag_octets WriteLength_readable tlv_def
lemmas tlv_read = ReadTag_tag_octets ReadLength_length_field tlv_def

interpretation boolean_codec: ber_codec ReadBoolean WriteBoolean
  "\<lambda>v. tlv ClassUniversal TypePrimitive TagBoolean [if v then 0xFF else 0]" "\<lambda>_. True"
  by unfold_locales (auto simp: WriteBoolean_def ReadBoolean_def tlv_write tlv_read)

lemma integer_value_read:
  "decodeInteger (decoder_at pre (encodeInteger v @ rest)) (int (length (encodeInteger v))) =
     (Ok v, decoder_at (pre @ encodeInteger v) rest)"
  using encodeInteger_length [of v]
  by (subst decodeInteger_octets) (auto simp: dec_from_encodeInteger)

lemma integer_length_checks [simp]: "encodeInteger v \<noteq> []" "\<not> 8 < length (encodeInteger v)"
  using encodeInteger_length [of v] by auto

interpretation integer_codec: ber_codec ReadInteger WriteInteger
  "\<lambda>v. tlv ClassUniversal TypePrimitive TagInteger (encodeInteger v)" "\<lambda>_. True"
  by unfold_locales
    (auto simp: WriteInteger_def ReadInteger_def Let_def tlv_write tlv_read integer_value_read)

interpretation enumerated_codec: ber_codec ReadEnumerated WriteEnumerated
  "\<lambda>v. tlv ClassUniversal TypePrimitive TagEnumerated (encodeInteger v)" "\<lambda>_. True"
  by unfold_locales
    (auto simp: WriteEnumerated_def ReadEnumerated_def Let_def tlv_write tlv_read integer_value_read)

interpretation octets_codec: ber_codec ReadOctetString WriteOctetString
  "\<lambda>v. tlv ClassUniversal TypePrimitive TagOctetString v" fits_length
  by unfold_locales (auto simp: WriteOctetString_def ReadOctetString_def tlv_write tlv_read)

interpretation null_codec: ber_codec ReadNull "\<lambda>e _. WriteNull e"
  "\<lambda>_. tlv ClassUniversal TypePrimitive TagNull []" "\<lambda>_. True"
  by unfold_locales (auto simp: WriteNull_def ReadNull_def tlv_write tlv_read)

interpretation tagged_codec: ber_codec ReadTaggedValue
  "\<lambda>e (n, c, v). WriteTaggedValue e n c v"
  "\<lambda>(n, c, v). tlv ClassContextSpecific (constructed_flag c) n v"
  "\<lambda>(n, c, v). readable_tag n \<and> fits_length v"
  by unfold_locales
    (auto simp: WriteTaggedValue_def ReadTaggedValue_def tlv_write tlv_read readable_tag_nonneg)

section \<open>Constructed values\<close>

lemma num_length_bytes_eq:
  "256 ^ k \<le> l \<Longrightarrow> l < 256 ^ Suc k \<Longrightarrow> num_length_bytes l = Suc k"
proof (induction k arbitrary: l)
  case 0
  then have "drop_bit 8 l = 0" by (simp add: drop_bit_eq_div)
  with 0 show ?case
    by (simp add: num_length_bytes.simps [of l] num_length_bytes.simps [of 0])
next
  case (Suc k)
  have "256 ^ k \<le> drop_bit 8 l" "drop_bit 8 l < 256 ^ Suc k"
    using Suc.prems by (simp_all add: drop_bit_eq_div)
  moreover have "0 < l"
    using Suc.prems(1) by (meson order_less_le_trans zero_less_numeral zero_less_power)
  ultimately show ?case
    using Suc.IH by (simp add: num_length_bytes.simps [of l])
qed

text \<open>The lengths the fix-up distinguishes, as length fields.\<close>

lemma length_field_cases:
  "l \<le> 127 \<Longrightarrow> length_field l = [word_of_int l]"
  "128 \<le> l \<Longrightarrow> l \<le> 0xFF \<Longrightarrow> length_field l = [0x81, word_of_int l]"
  "0x100 \<le> l \<Longrightarrow> l \<le> 0xFFFF \<Longrightarrow>
     length_field l = [0x82, word_of_int (drop_bit 8 l), word_of_int l]"
  "0x10000 \<le> l \<Longrightarrow> l \<le> 0xFFFFFF \<Longrightarrow>
     length_field l = [0x83, word_of_int (drop_bit 16 l), word_of_int (drop_bit 8 l), word_of_int l]"
  "0x1000000 \<le> l \<Longrightarrow> l < 0x100000000 \<Longrightarrow>
     length_field l = [0x84, word_of_int (drop_bit 24 l), word_of_int (drop_bit 16 l),
       word_of_int (drop_bit 8 l), word_of_int l]"
proof -
  have u: "[0..<3] = [0, 1, 2 :: nat]" "[0..<4] = [0, 1, 2, 3 :: nat]"
    by (simp_all add: upt_rec)
  note n = num_length_bytes_eq [of 0 l] num_length_bytes_eq [of 1 l] num_length_bytes_eq [of 2 l]
    num_length_bytes_eq [of 3 l]
  note defs = length_field_def length_octets_def MaxShortFormLength_def LengthLongFormBit_def
  show "l \<le> 127 \<Longrightarrow> length_field l = [word_of_int l]"
    by (simp add: defs)
  show "128 \<le> l \<Longrightarrow> l \<le> 0xFF \<Longrightarrow> length_field l = [0x81, word_of_int l]"
    using n by (simp add: defs)
  show "0x100 \<le> l \<Longrightarrow> l \<le> 0xFFFF \<Longrightarrow>
     length_field l = [0x82, word_of_int (drop_bit 8 l), word_of_int l]"
    using n by (simp add: defs)
  show "0x10000 \<le> l \<Longrightarrow> l \<le> 0xFFFFFF \<Longrightarrow>
     length_field l = [0x83, word_of_int (drop_bit 16 l), word_of_int (drop_bit 8 l), word_of_int l]"
    using n by (simp add: defs u)
  show "0x1000000 \<le> l \<Longrightarrow> l < 0x100000000 \<Longrightarrow>
     length_field l = [0x84, word_of_int (drop_bit 24 l), word_of_int (drop_bit 16 l),
       word_of_int (drop_bit 8 l), word_of_int l]"
    using n by (simp add: defs u)
qed

lemma fixupLength_field:
  assumes "length content < 2 ^ 32" and "buf e = xs @ [r0, r1, r2, r3] @ content"
  shows "fixupLength e (length xs) =
    (Ok (), e\<lparr>buf := xs @ length_field (int (length content)) @ content\<rparr>)"
proof -
  let ?l = "int (length content)"
  note defs = fixupLength_def Let_def assms(2) list_update_append go_copy_def
    MaxShortFormLength_def
  consider "?l \<le> 127" | "128 \<le> ?l" "?l \<le> 0xFF" | "0x100 \<le> ?l" "?l \<le> 0xFFFF"
    | "0x10000 \<le> ?l" "?l \<le> 0xFFFFFF" | "0x1000000 \<le> ?l" "?l < 0x100000000"
    using assms(1) by fastforce
  then show ?thesis
  proof cases
    case 1
    then show ?thesis by (simp add: defs length_field_cases(1))
  next
    case 2
    then show ?thesis by (simp add: defs length_field_cases(2))
  next
    case 3
    then show ?thesis by (simp add: defs length_field_cases(3))
  next
    case 4
    then show ?thesis by (simp add: defs length_field_cases(4))
  next
    case 5
    then have "take (Suc 0) content = [hd content]" by (cases content) auto
    with 5 show ?thesis by (simp add: defs length_field_cases(5))
  qed
qed

text \<open>
  Writing content between \<^verbatim>\<open>Begin...\<close> and \<^verbatim>\<open>End...\<close> produces one tag-length-value triple.
\<close>

lemma tlv_fixup:
  assumes "length content < 2 ^ 32" and "buf e' = buf e @ tag @ [0, 0, 0, 0] @ content"
  shows "fixupLength e' (length (buf e @ tag)) =
    (Ok (), append_bytes e (tag @ length_field (int (length content)) @ content))"
  using fixupLength_field [OF assms(1), of e' "buf e @ tag" 0 0 0 0] assms(2)
  by (simp add: append_bytes_def)

lemma BeginSequence_EndSequence:
  assumes "length content < 2 ^ 32" and "BeginSequence e = (pos, e1)"
  shows "EndSequence (append_bytes e1 content) pos =
    (Ok (), append_bytes e (tlv ClassUniversal TypeConstructed TagSequence content))"
proof -
  have "pos = length (buf e @ [0x30])" "buf (append_bytes e1 content) = buf e @ [0x30] @ [0, 0, 0, 0] @ content"
    using assms(2) by (auto simp: BeginSequence_def Let_def ber_const_defs)
  then show ?thesis
    using tlv_fixup [OF assms(1), of "append_bytes e1 content" e "[0x30]"]
    by (simp add: EndSequence_def tlv_def tag_octets_def ber_const_defs)
qed

lemma BeginSet_EndSet:
  assumes "length content < 2 ^ 32" and "BeginSet e = (pos, e1)"
  shows "EndSet (append_bytes e1 content) pos =
    (Ok (), append_bytes e (tlv ClassUniversal TypeConstructed TagSet content))"
proof -
  have "pos = length (buf e @ [0x31])" "buf (append_bytes e1 content) = buf e @ [0x31] @ [0, 0, 0, 0] @ content"
    using assms(2) by (auto simp: BeginSet_def Let_def ber_const_defs)
  then show ?thesis
    using tlv_fixup [OF assms(1), of "append_bytes e1 content" e "[0x31]"]
    by (simp add: EndSet_def tlv_def tag_octets_def ber_const_defs)
qed

lemma begin_tagged_fixup:
  assumes "length content < 2 ^ 32" and "begin_tagged class e num con = (pos, e1)"
  shows "fixupLength (append_bytes e1 content) pos =
    (Ok (), append_bytes e (tlv class (constructed_flag con) num content))"
proof -
  let ?t = "tag_octets class (constructed_flag con) num"
  have "pos = length (buf e @ ?t)" "buf (append_bytes e1 content) = buf e @ ?t @ [0, 0, 0, 0] @ content"
    using assms(2)
    by (auto simp: begin_tagged_def Let_def tag_octets_def writeBase128_def of_int_or_eq or.assoc)
  then show ?thesis
    using tlv_fixup [OF assms(1), of "append_bytes e1 content" e ?t]
    by (simp add: tlv_def)
qed

lemmas constructed_writes =
  BeginSequence_EndSequence BeginSet_EndSet
  begin_tagged_fixup [of _ ClassContextSpecific, folded WriteContextTag_def EndContextTag_def]
  begin_tagged_fixup [of _ ClassApplication, folded WriteApplicationTag_def EndApplicationTag_def]

text \<open>And the content readers cut exactly the content out of such a triple.\<close>

lemma sub_decoder_decoder_at [simp]:
  "sub_decoder (decoder_at pre (content @ rest)) (int (length content)) =
     (Ok (NewBERDecoder content), decoder_at (pre @ content) rest)"
  by (simp add: sub_decoder_def)

lemma contents_read:
  assumes "fits_length content"
  shows "ReadSequenceContents
      (decoder_at pre (tlv ClassUniversal TypeConstructed TagSequence content @ rest)) =
      (Ok (NewBERDecoder content),
       decoder_at (pre @ tlv ClassUniversal TypeConstructed TagSequence content) rest)"
    and "ReadSetContents
      (decoder_at pre (tlv ClassUniversal TypeConstructed TagSet content @ rest)) =
      (Ok (NewBERDecoder content),
       decoder_at (pre @ tlv ClassUniversal TypeConstructed TagSet content) rest)"
    and "valid_form k \<Longrightarrow> readable_tag n \<Longrightarrow> ReadContextTagContents
      (decoder_at pre (tlv ClassContextSpecific k n content @ rest)) n =
      (Ok (NewBERDecoder content),
       decoder_at (pre @ tlv ClassContextSpecific k n content) rest)"
    and "valid_form k \<Longrightarrow> readable_tag n \<Longrightarrow> ReadApplicationTagContents
      (decoder_at pre (tlv ClassApplication k n content @ rest)) n =
      (Ok (NewBERDecoder content), decoder_at (pre @ tlv ClassApplication k n content) rest)"
  using assms
  by (simp_all add: ReadSequenceContents_def ExpectSequence_def ReadSetContents_def ExpectSet_def
      ReadContextTagContents_def ExpectContextTag_def ReadApplicationTagContents_def
      ExpectApplicationTag_def tlv_read)

end
