(* ===== verification/Ber_Props.thy ===== *)
theory Ber_Props
  imports Ber_Codec
begin

text \<open>The properties of the BER layer, over the encoder and decoder of \<^verbatim>\<open>internal/ber\<close>.\<close>

text \<open>
  C17. Memory safety of the decoder. Whatever the bytes and the position, no read panics, changes
  the data, moves backwards or moves past the end of the data.
\<close>

theorem decoder_memory_safe:
  "safe_from d (ReadTag d) \<and> safe_from d (ReadLength d) \<and> safe_from d (ReadBoolean d) \<and>
   safe_from d (ReadInteger d) \<and> safe_from d (ReadOctetString d) \<and> safe_from d (ReadEnumerated d) \<and>
   safe_from d (ReadNull d) \<and> safe_from d (PeekTag d) \<and> safe_from d (Skip d) \<and>
   safe_from d (ReadRawValue d) \<and> safe_from d (ReadTaggedValue d) \<and> safe_from d (ReadIntegerWithTag d t) \<and>
   safe_from d (ReadSequenceContents d) \<and> safe_from d (ReadSetContents d) \<and>
   safe_from d (ReadContextTagContents d t) \<and> safe_from d (ReadApplicationTagContents d t)"
  by (intro conjI tag.safe len.safe boolean.safe integer.safe octets.safe enumerated.safe null.safe
      peek.safe skip.safe raw.safe tagged.safe tagged_integer.safe sequence_contents.safe
      set_contents.safe context_contents.safe application_contents.safe)

text \<open>
  The loops that read values until the data is used up end on every input: as many rounds as
  there are bytes left are enough, because every successful read consumes at least one.
\<close>

lemma read_loops_return:
  "(\<exists>r. read_all (nat (Remaining d)) ReadOctetString d = Some r \<and> safe_from d r) \<and>
   (\<exists>r. read_all (nat (Remaining d)) ReadInteger d = Some r \<and> safe_from d r) \<and>
   (\<exists>r. read_all (nat (Remaining d)) ReadSequenceContents d = Some r \<and> safe_from d r) \<and>
   (\<exists>r. read_all (nat (Remaining d)) ReadTaggedValue d = Some r \<and> safe_from d r) \<and>
   (\<exists>r. read_all (nat (Remaining d)) Skip d = Some r \<and> safe_from d r)"
  by (intro conjI octets.read_all_ends integer.read_all_ends sequence_contents.read_all_ends
      tagged.read_all_ends skip.read_all_ends)

text \<open>
  C19. Every 64-bit integer, negative ones included, is written in at most eight content octets
  without a redundant leading octet, and reading it back at any position gives the same integer.
\<close>

theorem integer_roundtrip_minimal:
  "\<exists>bs. WriteInteger e v = (Ok (), append_bytes e bs) \<and>
     (\<forall>pre rest. ReadInteger (decoder_at pre (bs @ rest)) = (Ok v, decoder_at (pre @ bs) rest)) \<and>
     1 \<le> length (encodeInteger v) \<and> length (encodeInteger v) \<le> 8 \<and>
     \<not> (\<exists>b0 b1 r. encodeInteger v = b0 # b1 # r \<and> (b0 = 0 \<and> b1 AND 0x80 = 0 \<or> b0 = 0xFF \<and> b1 AND 0x80 \<noteq> 0))"
proof -
  let ?bs = "tlv ClassUniversal TypePrimitive TagInteger (encodeInteger v)"
  have "\<forall>pre rest. ReadInteger (decoder_at pre (?bs @ rest)) = (Ok v, decoder_at (pre @ ?bs) rest)"
    using integer_codec.read_enc by simp
  moreover have "1 \<le> length (encodeInteger v) \<and> length (encodeInteger v) \<le> 8"
    using encodeInteger_length [of v] by auto
  moreover have "WriteInteger e v = (Ok (), append_bytes e ?bs)"
    using integer_codec.write_enc by simp
  moreover have "\<not> (\<exists>b0 b1 r. encodeInteger v = b0 # b1 # r \<and>
      (b0 = 0 \<and> b1 AND 0x80 = 0 \<or> b0 = 0xFF \<and> b1 AND 0x80 \<noteq> 0))"
    using encodeInteger_minimal by blast
  ultimately show ?thesis
    by (intro exI [of _ ?bs]) simp
qed

text \<open>
  C20. Tags and lengths. What the encoder writes is read back at any position exactly for tag
  numbers up to \<open>2^31 + 127\<close> and lengths up to \<open>2^32 + 255\<close>; above these limits the decoder reports
  an overflow.
\<close>

theorem tag_length_roundtrip:
  assumes "valid_class c" "valid_form k" "0 \<le> n" "0 \<le> l" "l < 2 ^ 63"
  shows "(\<exists>bs. WriteTag e c k n = (Ok (), append_bytes e bs) \<and>
      (\<forall>pre rest. if n \<le> 2 ^ 31 + 127
        then ReadTag (decoder_at pre (bs @ rest)) = (Ok (c, k, n), decoder_at (pre @ bs) rest)
        else \<exists>err d. ReadTag (decoder_at pre (bs @ rest)) = (Fail err, d))) \<and>
    (\<exists>bs. WriteLength e l = (Ok (), append_bytes e bs) \<and>
      (\<forall>pre rest. if l \<le> 2 ^ 32 + 255
        then ReadLength (decoder_at pre (bs @ rest)) = (Ok l, decoder_at (pre @ bs) rest)
        else \<exists>err d. ReadLength (decoder_at pre (bs @ rest)) = (Fail err, d)))"
proof (intro conjI exI)
  show "WriteTag e c k n = (Ok (), append_bytes e (tag_octets c k n))"
    by (rule WriteTag_octets [OF assms(1,3)])
  show "\<forall>pre rest. if n \<le> 2 ^ 31 + 127
      then ReadTag (decoder_at pre (tag_octets c k n @ rest)) = (Ok (c, k, n), decoder_at (pre @ tag_octets c k n) rest)
      else \<exists>err d. ReadTag (decoder_at pre (tag_octets c k n @ rest)) = (Fail err, d)"
  proof (cases "n \<le> 2 ^ 31 + 127")
    case True
    then show ?thesis
      using ReadTag_tag_octets [OF assms(1,2)] assms(3) by (simp add: readable_tag_iff)
  next
    case False
    then have "2 ^ 24 < drop_bit 7 n"
      by (simp add: drop_bit_eq_div)
    from ReadTag_overflow [OF assms(1,2) this] False show ?thesis
      by fastforce
  qed
  have "num_length_bytes l \<le> 8"
    using assms(5) by (intro num_length_bytes_bound) simp
  then have l: "num_length_bytes l \<le> 127" by simp
  then show "WriteLength e l = (Ok (), append_bytes e (length_field l))"
    by (rule WriteLength_field [OF assms(4)])
  show "\<forall>pre rest. if l \<le> 2 ^ 32 + 255
      then ReadLength (decoder_at pre (length_field l @ rest)) = (Ok l, decoder_at (pre @ length_field l) rest)
      else \<exists>err d. ReadLength (decoder_at pre (length_field l @ rest)) = (Fail err, d)"
  proof (cases "l \<le> 2 ^ 32 + 255")
    case True
    then show ?thesis
      using ReadLength_length_field [of l] assms(4) by (simp add: readable_length_iff)
  next
    case False
    then have "2 ^ 24 < drop_bit 8 l"
      by (simp add: drop_bit_eq_div)
    from ReadLength_overflow [OF this l] False show ?thesis
      by fastforce
  qed
qed

theorem tag_length_roundtrip_witness:
  "\<exists>bs. WriteTag NewBEREncoder ClassApplication TypeConstructed 1000 = (Ok (), append_bytes NewBEREncoder bs) \<and>
     ReadTag (decoder_at [] bs) = (Ok (ClassApplication, TypeConstructed, 1000), decoder_at bs [])"
proof -
  obtain bs where bs: "WriteTag NewBEREncoder ClassApplication TypeConstructed 1000 = (Ok (), append_bytes NewBEREncoder bs)"
    "\<forall>pre rest. ReadTag (decoder_at pre (bs @ rest)) =
      (Ok (ClassApplication, TypeConstructed, 1000), decoder_at (pre @ bs) rest)"
    using tag_length_roundtrip [of ClassApplication TypeConstructed 1000 5 NewBEREncoder] by auto
  then show ?thesis
    using spec [OF spec [OF bs(2), of "[]"], of "[]"] by auto
qed

text \<open>
  A run of octet strings written one after the other behind anything already in the buffer is
  read back as the same run by the read loop, and two different runs never have the same encoding.
\<close>

lemma octet_string_runs_roundtrip:
  assumes "\<forall>v \<in> set vs. length v \<le> 2 ^ 32"
  shows "\<exists>e'. write_all WriteOctetString e vs = (Ok (), e') \<and>
    read_all (length vs) ReadOctetString (decoder_at (buf e) (drop (length (buf e)) (buf e'))) =
      Some (Ok vs, decoder_at (buf e') [])"
proof -
  have "list_all fits_length vs"
    using assms by (auto simp: list_all_iff readable_length_iff)
  then show ?thesis
    using octets_codec.write_all_enc [of vs e] octets_codec.read_all_enc [of vs "length vs" "buf e"] by simp
qed

lemma octet_string_runs_example:
  "\<exists>e'. write_all WriteOctetString NewBEREncoder [[1, 2], [], [3]] = (Ok (), e') \<and>
     read_all 3 ReadOctetString (decoder_at [] (buf e')) = Some (Ok [[1, 2], [], [3]], decoder_at (buf e') [])"
  using octet_string_runs_roundtrip [of "[[1, 2], [], [3]]" NewBEREncoder]
  by (simp add: NewBEREncoder_def numeral_3_eq_3)

text \<open>
  The in-place length. A sequence, set or tagged value opened with a placeholder, filled and
  closed with the length moved in place has the same bytes as one written directly with its tag,
  its length and its content.
\<close>

definition write_direct :: "encoder \<Rightarrow> int \<Rightarrow> int \<Rightarrow> int \<Rightarrow> bytes \<Rightarrow> unit enc_result" where
  "write_direct e c k n content =
     and_then (WriteTag e c k n) (\<lambda>_ e. and_then (WriteLength e (int (length content))) (\<lambda>_ e.
       (Ok (), append_bytes e content)))"

lemma write_direct_tlv:
  assumes "valid_class c" "0 \<le> n" "length content < 2 ^ 32"
  shows "write_direct e c k n content = (Ok (), append_bytes e (tlv c k n content))"
  using assms by (simp add: write_direct_def WriteTag_octets WriteLength_readable readable_length_iff tlv_def)

lemma fixup_equals_direct:
  assumes "length content < 2 ^ 32" "0 \<le> n"
  shows "(let (pos, e1) = BeginSequence e in EndSequence (append_bytes e1 content) pos) =
      write_direct e ClassUniversal TypeConstructed TagSequence content \<and>
    (let (pos, e1) = BeginSet e in EndSet (append_bytes e1 content) pos) =
      write_direct e ClassUniversal TypeConstructed TagSet content \<and>
    (let (pos, e1) = WriteContextTag e n con in EndContextTag (append_bytes e1 content) pos) =
      write_direct e ClassContextSpecific (constructed_flag con) n content \<and>
    (let (pos, e1) = WriteApplicationTag e n con in EndApplicationTag (append_bytes e1 content) pos) =
      write_direct e ClassApplication (constructed_flag con) n content"
proof -
  have "0 \<le> TagSequence" "0 \<le> TagSet"
    by (simp_all add: ber_tag_defs)
  then show ?thesis
    using assms by (auto simp: write_direct_tlv constructed_writes [OF assms(1)] split: prod.split)
qed

lemma fixup_equals_direct_example:
  "(let (pos, e1) = BeginSequence NewBEREncoder in EndSequence (append_bytes e1 (replicate 200 7)) pos) =
     write_direct NewBEREncoder ClassUniversal TypeConstructed TagSequence (replicate 200 7)"
  using fixup_equals_direct [of "replicate 200 7" 0 NewBEREncoder True] by simp

end
