(* ===== verification/Raft_Codec.thy ===== *)
theory Raft_Codec
  imports Oba_Prelude
begin

text \<open>
  The wire and disk formats of \<^verbatim>\<open>internal/raft\<close> (log.go, rpc.go): little-endian fixed fields,
  strings behind a 16-bit length, byte slices behind a 32-bit length. Go strings are byte
  lists. A \<^verbatim>\<open>bytes.Reader\<close> is the list of bytes not yet read; a short read leaves it empty, as
  \<^verbatim>\<open>io.ReadFull\<close> does. Length conversions keep their width, so over-long fields are truncated
  exactly as in the source.
\<close>

datatype raft_error =
    ErrNotLeader
  | ErrLeaderUnknown
  | ErrNodeStopped
  | ErrLogCorrupted
  | ErrLogIndexOutOfRange
  | ErrSnapshotFailed
  | ErrRestoreFailed
  | ErrTransportClosed
  | ErrConnectFailed
  | ErrTimeout
  | ErrInvalidConfig
  | EOF
  | ErrUnexpectedEOF

type_synonym 'a reader_result = "(raft_error, 'a) outcome \<times> bytes"

section \<open>Readers\<close>

text \<open>\<^verbatim>\<open>io.ReadFull\<close> of n bytes: \<^verbatim>\<open>io.EOF\<close> only when nothing at all could be read.\<close>

definition read_full :: "nat \<Rightarrow> bytes \<Rightarrow> bytes reader_result" where
  "read_full n r =
     (if length r < n then (Fail (if r = [] then EOF else ErrUnexpectedEOF), [])
      else (Ok (take n r), drop n r))"

definition read_le :: "nat \<Rightarrow> bytes \<Rightarrow> ('a::len word) reader_result" where
  "read_le n r = and_then (read_full n r) (\<lambda>bs r. (Ok (get_le bs), r))"

definition read_byte :: "bytes \<Rightarrow> byte reader_result" where
  "read_byte r = (case r of [] \<Rightarrow> (Fail EOF, []) | b # r \<Rightarrow> (Ok b, r))"

text \<open>\<^verbatim>\<open>binary.Read\<close> into a \<^verbatim>\<open>bool\<close>: any non-zero byte is true.\<close>

definition read_bool :: "bytes \<Rightarrow> bool reader_result" where
  "read_bool r = and_then (read_byte r) (\<lambda>b r. (Ok (b \<noteq> 0), r))"

definition put_bool :: "bool \<Rightarrow> bytes" where
  "put_bool b = [if b then 1 else 0]"

text \<open>The rewriting of every reader error to \<^verbatim>\<open>ErrLogCorrupted\<close>.\<close>

definition corrupted :: "'a reader_result \<Rightarrow> 'a reader_result" where
  "corrupted = map_fail (\<lambda>_. ErrLogCorrupted)"

definition writeString :: "bytes \<Rightarrow> bytes" where
  "writeString s = put_le 2 (word_of_nat (length s) :: uint16) @ s"

definition readString :: "bytes \<Rightarrow> bytes reader_result" where
  "readString r = and_then (read_le 2 r) (\<lambda>(len :: uint16) r. read_full (unat len) r)"

definition writeBytes :: "bytes \<Rightarrow> bytes" where
  "writeBytes bs = put_le 4 (word_of_nat (length bs) :: uint32) @ bs"

definition readBytes :: "bytes \<Rightarrow> bytes reader_result" where
  "readBytes r =
     and_then (read_le 4 r) (\<lambda>(len :: uint32) r.
       if len = 0 then (Ok [], r) else read_full (unat len) r)"

fun read_times :: "nat \<Rightarrow> (bytes \<Rightarrow> 'a reader_result) \<Rightarrow> bytes \<Rightarrow> 'a list reader_result" where
  "read_times 0 rd r = (Ok [], r)"
| "read_times (Suc n) rd r =
     and_then (rd r) (\<lambda>x r. and_then (read_times n rd r) (\<lambda>xs r. (Ok (x # xs), r)))"

section \<open>Log entries\<close>

definition LogEntryCommand :: byte where "LogEntryCommand = 0"
definition LogEntryConfig :: byte where "LogEntryConfig = 1"
definition LogEntryNoop :: byte where "LogEntryNoop = 2"

record log_entry =
  e_index :: uint64
  e_term :: uint64
  e_type :: byte
  e_command :: bytes

definition LogEntry_Serialize :: "log_entry \<Rightarrow> bytes" where
  "LogEntry_Serialize e =
     put_le 8 (e_index e) @ put_le 8 (e_term e) @ [e_type e] @
     put_le 4 (word_of_nat (length (e_command e)) :: uint32) @ e_command e"

text \<open>The upper slice bound \<^verbatim>\<open>21+cmdLen\<close> is computed in 32 bits.\<close>

definition DeserializeLogEntry :: "bytes \<Rightarrow> (raft_error, log_entry) outcome" where
  "DeserializeLogEntry bs =
     (if length bs < 21 then Fail ErrLogCorrupted
      else let cmdLen = get_le (take 4 (drop 17 bs)) :: uint32 in
        if length bs < 21 + unat cmdLen then Fail ErrLogCorrupted
        else case go_slice bs 21 (unat (21 + cmdLen)) of
          Ok cmd \<Rightarrow> Ok \<lparr>e_index = get_le (take 8 bs), e_term = get_le (take 8 (drop 8 bs)),
                       e_type = bs ! 16, e_command = cmd\<rparr>
        | Fail err \<Rightarrow> Fail err
        | Panic \<Rightarrow> Panic)"

section \<open>Commands\<close>

record command =
  c_type :: byte
  c_database :: byte
  c_dn :: bytes
  c_old_dn :: bytes
  c_entry_dn :: bytes
  c_entry_data :: bytes
  c_config_data :: bytes
  c_acl_data :: bytes

definition Command_Serialize :: "command \<Rightarrow> bytes" where
  "Command_Serialize c =
     [c_type c] @ [c_database c] @ writeString (c_dn c) @ writeString (c_old_dn c) @
     writeString (c_entry_dn c) @ writeBytes (c_entry_data c) @ writeBytes (c_config_data c) @
     writeBytes (c_acl_data c)"

text \<open>
  The last two fields are optional: an error there yields a nil slice and decoding goes on
  with whatever the reader has left.
\<close>

definition readOptionalBytes :: "bytes \<Rightarrow> bytes reader_result" where
  "readOptionalBytes r =
     (case readBytes r of (Ok bs, r') \<Rightarrow> (Ok bs, r') | (Fail _, r') \<Rightarrow> (Ok [], r')
      | (Panic, r') \<Rightarrow> (Panic, r'))"

definition DeserializeCommand :: "bytes \<Rightarrow> (raft_error, command) outcome" where
  "DeserializeCommand bs =
     (if length bs < 2 then Fail ErrLogCorrupted
      else fst (
        and_then (corrupted (read_byte bs)) (\<lambda>ty r.
        and_then (corrupted (read_byte r)) (\<lambda>db r.
        and_then (corrupted (readString r)) (\<lambda>dn r.
        and_then (corrupted (readString r)) (\<lambda>oldDN r.
        and_then (corrupted (readString r)) (\<lambda>entryDN r.
        and_then (corrupted (readBytes r)) (\<lambda>entryData r.
        and_then (readOptionalBytes r) (\<lambda>configData r.
        and_then (readOptionalBytes r) (\<lambda>aclData r.
          (Ok \<lparr>c_type = ty, c_database = db, c_dn = dn, c_old_dn = oldDN, c_entry_dn = entryDN,
               c_entry_data = entryData, c_config_data = configData, c_acl_data = aclData\<rparr>, r)
        ))))))))))"

section \<open>Configuration and ACL commands\<close>

text \<open>
  The Go map \<^verbatim>\<open>Data\<close> is an association list with distinct keys, in the order in which the
  range loop visits it; assigning a key is \<^const>\<open>AList.update\<close>.
\<close>

record config_command =
  cc_section :: bytes
  cc_data :: "(bytes \<times> bytes) list"
  cc_version :: uint64

definition write_pair :: "bytes \<times> bytes \<Rightarrow> bytes" where
  "write_pair p = writeString (fst p) @ writeString (snd p)"

definition read_pair :: "bytes \<Rightarrow> (bytes \<times> bytes) reader_result" where
  "read_pair r = and_then (readString r) (\<lambda>k r. and_then (readString r) (\<lambda>v r. (Ok (k, v), r)))"

definition SerializeConfigCommand :: "config_command \<Rightarrow> bytes" where
  "SerializeConfigCommand c =
     writeString (cc_section c) @ put_le 8 (cc_version c) @
     put_le 2 (word_of_nat (length (cc_data c)) :: uint16) @ concat (map write_pair (cc_data c))"

definition DeserializeConfigCommand :: "bytes \<Rightarrow> (raft_error, config_command) outcome" where
  "DeserializeConfigCommand bs =
     (if length bs < 2 then Fail ErrLogCorrupted
      else fst (corrupted (
        and_then (readString bs) (\<lambda>section r.
        and_then (read_le 8 r) (\<lambda>version r.
        and_then (read_le 2 r) (\<lambda>(mapLen :: uint16) r.
        and_then (read_times (unat mapLen) read_pair r) (\<lambda>ps r.
          (Ok \<lparr>cc_section = section, cc_data = fold (\<lambda>(k, v). AList.update k v) ps [],
               cc_version = version\<rparr>, r))))))))"

record acl_rule_data =
  ar_target :: bytes
  ar_subject :: bytes
  ar_scope :: bytes
  ar_rights :: "bytes list"
  ar_attributes :: "bytes list"
  ar_deny :: bool

definition write_strings :: "bytes list \<Rightarrow> bytes" where
  "write_strings ss = put_le 2 (word_of_nat (length ss) :: uint16) @ concat (map writeString ss)"

definition read_strings :: "bytes \<Rightarrow> bytes list reader_result" where
  "read_strings r =
     and_then (read_le 2 r) (\<lambda>(n :: uint16) r. read_times (unat n) readString r)"

definition serializeACLRule :: "acl_rule_data \<Rightarrow> bytes" where
  "serializeACLRule rule =
     writeString (ar_target rule) @ writeString (ar_subject rule) @ writeString (ar_scope rule) @
     write_strings (ar_rights rule) @ write_strings (ar_attributes rule) @ put_bool (ar_deny rule)"

definition deserializeACLRule :: "bytes \<Rightarrow> acl_rule_data reader_result" where
  "deserializeACLRule r = corrupted (
     and_then (readString r) (\<lambda>target r.
     and_then (readString r) (\<lambda>subject r.
     and_then (readString r) (\<lambda>scope r.
     and_then (read_strings r) (\<lambda>rights r.
     and_then (read_strings r) (\<lambda>attrs r.
     and_then (read_bool r) (\<lambda>deny r.
       (Ok \<lparr>ar_target = target, ar_subject = subject, ar_scope = scope, ar_rights = rights,
            ar_attributes = attrs, ar_deny = deny\<rparr>, r))))))))"

text \<open>\<^verbatim>\<open>RuleIndex\<close> is a Go \<^verbatim>\<open>int\<close> that travels as an \<^verbatim>\<open>int32\<close>.\<close>

record acl_command =
  ac_default_policy :: bytes
  ac_rules :: "acl_rule_data list"
  ac_rule :: "acl_rule_data option"
  ac_rule_index :: int
  ac_version :: uint64

definition SerializeACLCommand :: "acl_command \<Rightarrow> bytes" where
  "SerializeACLCommand c =
     writeString (ac_default_policy c) @ put_le 8 (ac_version c) @
     put_le 4 (word_of_int (ac_rule_index c) :: uint32) @
     put_le 2 (word_of_nat (length (ac_rules c)) :: uint16) @
     concat (map serializeACLRule (ac_rules c)) @
     put_bool (ac_rule c \<noteq> None) @
     (case ac_rule c of None \<Rightarrow> [] | Some rule \<Rightarrow> serializeACLRule rule)"

definition DeserializeACLCommand :: "bytes \<Rightarrow> (raft_error, acl_command) outcome" where
  "DeserializeACLCommand bs =
     (if length bs < 2 then Fail ErrLogCorrupted
      else fst (corrupted (
        and_then (readString bs) (\<lambda>policy r.
        and_then (read_le 8 r) (\<lambda>version r.
        and_then (read_le 4 r) (\<lambda>(idx :: uint32) r.
        and_then (read_le 2 r) (\<lambda>(count :: uint16) r.
        and_then (read_times (unat count) deserializeACLRule r) (\<lambda>rules r.
        and_then (read_bool r) (\<lambda>hasRule r.
        and_then (if hasRule then and_then (deserializeACLRule r) (\<lambda>x r. (Ok (Some x), r))
                  else (Ok None, r)) (\<lambda>rule r.
          (Ok \<lparr>ac_default_policy = policy, ac_rules = rules, ac_rule = rule,
               ac_rule_index = sint idx, ac_version = version\<rparr>, r)))))))))))"

section \<open>Command constructors\<close>

definition CmdPut :: byte where "CmdPut = 0"
definition CmdDelete :: byte where "CmdDelete = 1"
definition CmdModifyDN :: byte where "CmdModifyDN = 2"
definition CmdConfigUpdate :: byte where "CmdConfigUpdate = 3"
definition CmdACLFullUpdate :: byte where "CmdACLFullUpdate = 4"
definition CmdACLAddRule :: byte where "CmdACLAddRule = 5"
definition CmdACLUpdateRule :: byte where "CmdACLUpdateRule = 6"
definition CmdACLDeleteRule :: byte where "CmdACLDeleteRule = 7"
definition CmdACLSetDefault :: byte where "CmdACLSetDefault = 8"

definition DBMain :: byte where "DBMain = 0"
definition DBLog :: byte where "DBLog = 1"

definition zero_command :: command where
  "zero_command = \<lparr>c_type = 0, c_database = 0, c_dn = [], c_old_dn = [], c_entry_dn = [],
     c_entry_data = [], c_config_data = [], c_acl_data = []\<rparr>"

definition zero_acl_command :: acl_command where
  "zero_acl_command = \<lparr>ac_default_policy = [], ac_rules = [], ac_rule = None, ac_rule_index = 0,
     ac_version = 0\<rparr>"

definition CreateConfigUpdateCommand :: "bytes \<Rightarrow> (bytes \<times> bytes) list \<Rightarrow> uint64 \<Rightarrow> command" where
  "CreateConfigUpdateCommand section kvs version =
     zero_command\<lparr>c_type := CmdConfigUpdate,
       c_config_data := SerializeConfigCommand
         \<lparr>cc_section = section, cc_data = kvs, cc_version = version\<rparr>\<rparr>"

definition CreateACLFullUpdateCommand :: "acl_rule_data list \<Rightarrow> bytes \<Rightarrow> uint64 \<Rightarrow> command" where
  "CreateACLFullUpdateCommand rules defaultPolicy version =
     zero_command\<lparr>c_type := CmdACLFullUpdate,
       c_acl_data := SerializeACLCommand
         (zero_acl_command\<lparr>ac_default_policy := defaultPolicy, ac_rules := rules,
            ac_version := version\<rparr>)\<rparr>"

definition CreateACLAddRuleCommand :: "acl_rule_data option \<Rightarrow> int \<Rightarrow> uint64 \<Rightarrow> command" where
  "CreateACLAddRuleCommand rule index version =
     zero_command\<lparr>c_type := CmdACLAddRule,
       c_acl_data := SerializeACLCommand
         (zero_acl_command\<lparr>ac_rule := rule, ac_rule_index := index, ac_version := version\<rparr>)\<rparr>"

definition CreateACLUpdateRuleCommand :: "acl_rule_data option \<Rightarrow> int \<Rightarrow> uint64 \<Rightarrow> command" where
  "CreateACLUpdateRuleCommand rule index version =
     zero_command\<lparr>c_type := CmdACLUpdateRule,
       c_acl_data := SerializeACLCommand
         (zero_acl_command\<lparr>ac_rule := rule, ac_rule_index := index, ac_version := version\<rparr>)\<rparr>"

definition CreateACLDeleteRuleCommand :: "int \<Rightarrow> uint64 \<Rightarrow> command" where
  "CreateACLDeleteRuleCommand index version =
     zero_command\<lparr>c_type := CmdACLDeleteRule,
       c_acl_data := SerializeACLCommand
         (zero_acl_command\<lparr>ac_rule_index := index, ac_version := version\<rparr>)\<rparr>"

definition CreateACLSetDefaultCommand :: "bytes \<Rightarrow> uint64 \<Rightarrow> command" where
  "CreateACLSetDefaultCommand defaultPolicy version =
     zero_command\<lparr>c_type := CmdACLSetDefault,
       c_acl_data := SerializeACLCommand
         (zero_acl_command\<lparr>ac_default_policy := defaultPolicy, ac_version := version\<rparr>)\<rparr>"

section \<open>RPC messages\<close>

record request_vote_args =
  rv_term :: uint64
  rv_candidate :: uint64
  rv_last_log_index :: uint64
  rv_last_log_term :: uint64

record request_vote_reply =
  rvr_term :: uint64
  rvr_granted :: bool

text \<open>\<^verbatim>\<open>Entries\<close> is a slice of pointers, so an element may be nil.\<close>

record append_entries_args =
  ae_term :: uint64
  ae_leader :: uint64
  ae_prev_log_index :: uint64
  ae_prev_log_term :: uint64
  ae_entries :: "log_entry option list"
  ae_leader_commit :: uint64

record append_entries_reply =
  aer_term :: uint64
  aer_success :: bool
  aer_conflict_term :: uint64
  aer_conflict_index :: uint64

record install_snapshot_args =
  is_term :: uint64
  is_leader :: uint64
  is_last_index :: uint64
  is_last_term :: uint64
  is_data :: bytes

record install_snapshot_reply =
  isr_term :: uint64

definition u64_at :: "bytes \<Rightarrow> nat \<Rightarrow> uint64" where
  "u64_at bs i = get_le (take 8 (drop i bs))"

definition RequestVoteArgs_Serialize :: "request_vote_args \<Rightarrow> bytes" where
  "RequestVoteArgs_Serialize r =
     put_le 8 (rv_term r) @ put_le 8 (rv_candidate r) @ put_le 8 (rv_last_log_index r) @
     put_le 8 (rv_last_log_term r)"

definition DeserializeRequestVoteArgs :: "bytes \<Rightarrow> (raft_error, request_vote_args) outcome" where
  "DeserializeRequestVoteArgs bs =
     (if length bs < 32 then Fail ErrLogCorrupted
      else Ok \<lparr>rv_term = u64_at bs 0, rv_candidate = u64_at bs 8, rv_last_log_index = u64_at bs 16,
               rv_last_log_term = u64_at bs 24\<rparr>)"

definition RequestVoteReply_Serialize :: "request_vote_reply \<Rightarrow> bytes" where
  "RequestVoteReply_Serialize r = put_le 8 (rvr_term r) @ put_bool (rvr_granted r)"

definition DeserializeRequestVoteReply :: "bytes \<Rightarrow> (raft_error, request_vote_reply) outcome" where
  "DeserializeRequestVoteReply bs =
     (if length bs < 9 then Fail ErrLogCorrupted
      else Ok \<lparr>rvr_term = u64_at bs 0, rvr_granted = (bs ! 8 = 1)\<rparr>)"

text \<open>Serializing a nil entry dereferences it.\<close>

fun serialize_entries :: "log_entry option list \<Rightarrow> (raft_error, bytes) outcome" where
  "serialize_entries [] = Ok []"
| "serialize_entries (None # es) = Panic"
| "serialize_entries (Some e # es) =
     (case serialize_entries es of
        Ok bs \<Rightarrow> Ok (writeBytes (LogEntry_Serialize e) @ bs)
      | r \<Rightarrow> r)"

definition AppendEntriesArgs_Serialize :: "append_entries_args \<Rightarrow> (raft_error, bytes) outcome" where
  "AppendEntriesArgs_Serialize a =
     (case serialize_entries (ae_entries a) of
        Ok bs \<Rightarrow> Ok (put_le 8 (ae_term a) @ put_le 8 (ae_leader a) @ put_le 8 (ae_prev_log_index a) @
          put_le 8 (ae_prev_log_term a) @ put_le 8 (word_of_nat (length (ae_entries a)) :: uint64) @
          put_le 8 (ae_leader_commit a) @ bs)
      | r \<Rightarrow> r)"

definition read_entry :: "bytes \<Rightarrow> log_entry option reader_result" where
  "read_entry r =
     and_then (corrupted (read_le 4 r)) (\<lambda>(entryLen :: uint32) r.
     and_then (corrupted (read_full (unat entryLen) r)) (\<lambda>entryData r.
     and_then (DeserializeLogEntry entryData, r) (\<lambda>e r. (Ok (Some e), r))))"

definition DeserializeAppendEntriesArgs :: "bytes \<Rightarrow> (raft_error, append_entries_args) outcome" where
  "DeserializeAppendEntriesArgs bs =
     (if length bs < 48 then Fail ErrLogCorrupted
      else let numEntries = u64_at bs 32 in
        if numEntries > 10000 then Fail ErrLogCorrupted
        else fst (and_then (read_times (unat numEntries) read_entry (drop 48 bs)) (\<lambda>es r.
          (Ok \<lparr>ae_term = u64_at bs 0, ae_leader = u64_at bs 8, ae_prev_log_index = u64_at bs 16,
               ae_prev_log_term = u64_at bs 24, ae_entries = es,
               ae_leader_commit = u64_at bs 40\<rparr>, r))))"

definition AppendEntriesReply_Serialize :: "append_entries_reply \<Rightarrow> bytes" where
  "AppendEntriesReply_Serialize r =
     put_le 8 (aer_term r) @ put_bool (aer_success r) @ put_le 8 (aer_conflict_term r) @
     put_le 8 (aer_conflict_index r)"

definition DeserializeAppendEntriesReply :: "bytes \<Rightarrow> (raft_error, append_entries_reply) outcome" where
  "DeserializeAppendEntriesReply bs =
     (if length bs < 25 then Fail ErrLogCorrupted
      else Ok \<lparr>aer_term = u64_at bs 0, aer_success = (bs ! 8 = 1), aer_conflict_term = u64_at bs 9,
               aer_conflict_index = u64_at bs 17\<rparr>)"

definition InstallSnapshotArgs_Serialize :: "install_snapshot_args \<Rightarrow> bytes" where
  "InstallSnapshotArgs_Serialize s =
     put_le 8 (is_term s) @ put_le 8 (is_leader s) @ put_le 8 (is_last_index s) @
     put_le 8 (is_last_term s) @ put_le 4 (word_of_nat (length (is_data s)) :: uint32) @ is_data s"

text \<open>Here too the upper slice bound \<^verbatim>\<open>36+dataLen\<close> is computed in 32 bits.\<close>

definition DeserializeInstallSnapshotArgs :: "bytes \<Rightarrow> (raft_error, install_snapshot_args) outcome" where
  "DeserializeInstallSnapshotArgs bs =
     (if length bs < 36 then Fail ErrLogCorrupted
      else let dataLen = get_le (take 4 (drop 32 bs)) :: uint32 in
        if length bs < 36 + unat dataLen then Fail ErrLogCorrupted
        else case go_slice bs 36 (unat (36 + dataLen)) of
          Ok d \<Rightarrow> Ok \<lparr>is_term = u64_at bs 0, is_leader = u64_at bs 8, is_last_index = u64_at bs 16,
                     is_last_term = u64_at bs 24, is_data = d\<rparr>
        | Fail err \<Rightarrow> Fail err
        | Panic \<Rightarrow> Panic)"

definition InstallSnapshotReply_Serialize :: "install_snapshot_reply \<Rightarrow> bytes" where
  "InstallSnapshotReply_Serialize r = put_le 8 (isr_term r)"

definition DeserializeInstallSnapshotReply :: "bytes \<Rightarrow> (raft_error, install_snapshot_reply) outcome" where
  "DeserializeInstallSnapshotReply bs =
     (if length bs < 8 then Fail ErrLogCorrupted else Ok \<lparr>isr_term = u64_at bs 0\<rparr>)"

end
