(* ===== verification/Raft_Wire.thy ===== *)
theory Raft_Wire
  imports Raft_Codec
begin

text \<open>
  Round trips and panic freedom of the formats in \<^verbatim>\<open>Raft_Codec\<close>. The locale \<open>wire_codec\<close> is the
  contract between a writer and the reader of the same field, wherever it stands in a stream; it
  is interpreted for every field of the formats, and the counted loops are proved once inside it.
\<close>

section \<open>The contract of a field\<close>

locale wire_codec =
  fixes ser :: "'a \<Rightarrow> bytes"
    and rd :: "bytes \<Rightarrow> 'a reader_result"
    and ok :: "'a \<Rightarrow> bool"
  assumes rd_ser: "ok v \<Longrightarrow> rd (ser v @ rest) = (Ok v, rest)"
begin

lemma read_times_ser:
  "\<forall>v \<in> set vs. ok v \<Longrightarrow> read_times (length vs) rd (concat (map ser vs) @ rest) = (Ok vs, rest)"
  by (induction vs) (simp_all add: rd_ser)

lemma rd_ser_end: "ok v \<Longrightarrow> rd (ser v) = (Ok v, [])"
  using rd_ser [of v "[]"] by simp

lemma ser_inject: "ok v \<Longrightarrow> ok v' \<Longrightarrow> ser v @ r = ser v' @ r' \<longleftrightarrow> v = v' \<and> r = r'"
  by (metis rd_ser outcome.inject(1) prod.inject)

end

text \<open>
  The exact contract: the reader only ever produces values the writer can carry, so the writable
  values are precisely those that survive a round trip.
\<close>

locale wire_exact = wire_codec +
  assumes rd_ok: "rd r = (Ok v, r') \<Longrightarrow> ok v"
begin

lemma roundtrip_iff: "rd (ser v @ rest) = (Ok v, rest) \<longleftrightarrow> ok v"
  using rd_ser rd_ok by blast

lemma read_times_ok: "read_times n rd r = (Ok vs, r') \<Longrightarrow> length vs = n \<and> (\<forall>v \<in> set vs. ok v)"
proof (induction n arbitrary: r vs)
  case (Suc n)
  then show ?case
    by (auto simp: and_then_Ok_iff dest: rd_ok)
qed simp

end

text \<open>A counted list of fields: the count travels as an unsigned 16-bit number.\<close>

lemma unat_of_length16: "length xs < 2 ^ 16 \<Longrightarrow> unat (word_of_nat (length xs) :: uint16) = length xs"
  by (simp add: unat_of_nat take_bit_nat_eq_self)

lemma unat_of_length32: "length xs < 2 ^ 32 \<Longrightarrow> unat (word_of_nat (length xs) :: uint32) = length xs"
  by (simp add: unat_of_nat take_bit_nat_eq_self)

lemma unat_of_length64: "length xs < 2 ^ 64 \<Longrightarrow> unat (word_of_nat (length xs) :: uint64) = length xs"
  by (simp add: unat_of_nat take_bit_nat_eq_self)

lemma read_full_append [simp]: "length bs = n \<Longrightarrow> read_full n (bs @ rest) = (Ok bs, rest)"
  by (auto simp: read_full_def)

lemma read_le_put_le [codec_simps]:
  "LENGTH('a) \<le> 8 * n \<Longrightarrow> read_le n (put_le n (w :: 'a::len word) @ rest) = (Ok w, rest)"
  by (simp add: read_le_def)

lemma read_byte_Cons [codec_simps]: "read_byte (b # r) = (Ok b, r)"
  by (simp add: read_byte_def)

lemma read_bool_put_bool [codec_simps]: "read_bool (put_bool b @ rest) = (Ok b, rest)"
  by (simp add: read_bool_def put_bool_def read_byte_def)

lemma corrupted_Ok [codec_simps]: "corrupted (Ok a, s) = (Ok a, s)"
  by (simp add: corrupted_def)

lemma corrupted_Ok_iff [codec_simps]: "corrupted m = (Ok a, s) \<longleftrightarrow> m = (Ok a, s)"
  unfolding corrupted_def by (cases m; rename_tac x y; case_tac x) auto

lemma read_full_length: "read_full n r = (Ok bs, r') \<Longrightarrow> length bs = n"
  by (auto simp: read_full_def split: if_splits)

lemma unat16_less [simp]: "unat (w :: uint16) < 65536"
  by (rule order_less_le_trans [OF unsigned_less]) simp

lemma unat32_less [simp]: "unat (w :: uint32) < 4294967296"
  by (rule order_less_le_trans [OF unsigned_less]) simp

lemma writeString_length [simp]: "length (writeString s) = 2 + length s"
  by (simp add: writeString_def)

section \<open>Interpretations\<close>

abbreviation short_string :: "bytes \<Rightarrow> bool" where
  "short_string s \<equiv> length s < 2 ^ 16"

abbreviation short_bytes :: "bytes \<Rightarrow> bool" where
  "short_bytes s \<equiv> length s < 2 ^ 32"

interpretation string_wire: wire_exact writeString readString short_string
  by unfold_locales
    (auto simp: writeString_def readString_def read_le_put_le unat_of_length16 and_then_Ok_iff
      dest: read_full_length)

interpretation bytes_wire: wire_exact writeBytes readBytes short_bytes
proof
  fix v rest
  assume "short_bytes v"
  then have n: "unat (word_of_nat (length v) :: uint32) = length v"
    by (rule unat_of_length32)
  then have "v = []" if "(word_of_nat (length v) :: uint32) = 0"
    unfolding that by simp
  with n show "readBytes (writeBytes v @ rest) = (Ok v, rest)"
    by (auto simp: writeBytes_def readBytes_def read_le_put_le)
qed (auto simp: readBytes_def and_then_Ok_iff dest!: read_full_length split: if_splits)

interpretation optional_wire: wire_exact writeBytes readOptionalBytes short_bytes
  by unfold_locales
    (auto simp: readOptionalBytes_def bytes_wire.rd_ser dest: bytes_wire.rd_ok
      split: prod.splits outcome.splits)

interpretation pair_wire: wire_exact write_pair read_pair
  "\<lambda>p. short_string (fst p) \<and> short_string (snd p)"
  by unfold_locales
    (auto simp: write_pair_def read_pair_def string_wire.rd_ser and_then_Ok_iff
      dest: string_wire.rd_ok)

definition short_strings :: "bytes list \<Rightarrow> bool" where
  "short_strings ss \<longleftrightarrow> length ss < 2 ^ 16 \<and> (\<forall>s \<in> set ss. short_string s)"

interpretation strings_wire: wire_exact write_strings read_strings short_strings
  by unfold_locales
    (auto simp: write_strings_def read_strings_def short_strings_def read_le_put_le
      unat_of_length16 string_wire.read_times_ser and_then_Ok_iff dest!: string_wire.read_times_ok)

definition short_rule :: "acl_rule_data \<Rightarrow> bool" where
  "short_rule r \<longleftrightarrow> short_string (ar_target r) \<and> short_string (ar_subject r) \<and>
     short_string (ar_scope r) \<and> short_strings (ar_rights r) \<and> short_strings (ar_attributes r)"

lemmas string_wires = string_wire.rd_ser bytes_wire.rd_ser strings_wire.rd_ser

interpretation rule_wire: wire_exact serializeACLRule deserializeACLRule short_rule
proof
  fix v rest
  show "short_rule v \<Longrightarrow> deserializeACLRule (serializeACLRule v @ rest) = (Ok v, rest)"
    by (simp add: serializeACLRule_def deserializeACLRule_def short_rule_def string_wires
        read_bool_put_bool corrupted_Ok)
next
  fix r v r'
  show "deserializeACLRule r = (Ok v, r') \<Longrightarrow> short_rule v"
    by (auto simp: deserializeACLRule_def short_rule_def corrupted_Ok_iff and_then_Ok_iff
        dest: string_wire.rd_ok strings_wire.rd_ok)
qed

section \<open>Log entries\<close>

lemma LogEntry_Serialize_length [simp]:
  "length (LogEntry_Serialize e) = 21 + length (e_command e)"
  by (simp add: LogEntry_Serialize_def)

lemma LogEntry_Serialize_fields:
  "take 8 (LogEntry_Serialize e) = put_le 8 (e_index e)"
  "take 8 (drop 8 (LogEntry_Serialize e)) = put_le 8 (e_term e)"
  "LogEntry_Serialize e ! 16 = e_type e"
  "take 4 (drop 17 (LogEntry_Serialize e)) = put_le 4 (word_of_nat (length (e_command e)) :: uint32)"
  "drop 21 (LogEntry_Serialize e) = e_command e"
  by (simp_all add: LogEntry_Serialize_def nth_append)

text \<open>The 32-bit slice bound is exact as long as it does not wrap.\<close>

lemma unat_plus_small:
  fixes w k :: uint32
  assumes "unat k + unat w < 2 ^ 32"
  shows "unat (k + w) = unat k + unat w"
  using assms by (simp add: unat_word_ariths)

lemma DeserializeLogEntry_Serialize:
  assumes "length (e_command e) < 2 ^ 32 - 21"
  shows "DeserializeLogEntry (LogEntry_Serialize e) = Ok e"
proof -
  have n: "unat (word_of_nat (length (e_command e)) :: uint32) = length (e_command e)"
    using assms by (intro unat_of_length32) simp
  then have "unat (21 + word_of_nat (length (e_command e)) :: uint32) = 21 + length (e_command e)"
    using assms by (subst unat_plus_small) simp_all
  with n show ?thesis
    by (simp add: DeserializeLogEntry_def Let_def LogEntry_Serialize_fields)
qed

lemma DeserializeLogEntry_short:
  "DeserializeLogEntry bs = Ok e \<Longrightarrow> length (e_command e) < 2 ^ 32 - 21"
proof -
  have "unat (21 + cmdLen) - 21 < 2 ^ 32 - 21" if "21 \<le> unat (21 + cmdLen)" for cmdLen :: uint32
    using that diff_less_mono [OF unat32_less [of "21 + cmdLen"], of 21] by simp
  then show "DeserializeLogEntry bs = Ok e \<Longrightarrow> length (e_command e) < 2 ^ 32 - 21"
    by (auto simp: DeserializeLogEntry_def Let_def go_slice_def split: if_splits)
qed

lemma DeserializeLogEntry_no_panic:
  assumes "length bs < 2 ^ 32"
  shows "DeserializeLogEntry bs \<noteq> Panic"
proof -
  have "unat (21 + cmdLen :: uint32) = 21 + unat cmdLen" if "21 + unat cmdLen \<le> length bs" for cmdLen
    using that assms by (intro trans [OF unat_plus_small]) simp_all
  then show ?thesis
    by (auto simp: DeserializeLogEntry_def Let_def)
qed

definition short_entry :: "log_entry option \<Rightarrow> bool" where
  "short_entry x \<longleftrightarrow> (\<exists>e. x = Some e \<and> length (e_command e) < 2 ^ 32 - 21)"

interpretation entry_wire: wire_exact "\<lambda>x. writeBytes (LogEntry_Serialize (the x))" read_entry short_entry
proof
  fix v rest
  assume "short_entry v"
  then obtain e where e: "v = Some e" "length (e_command e) < 2 ^ 32 - 21"
    by (auto simp: short_entry_def)
  have "unat (word_of_nat (length (LogEntry_Serialize e)) :: uint32) = length (LogEntry_Serialize e)"
    using e by (intro unat_of_length32) simp
  with e show "read_entry (writeBytes (LogEntry_Serialize (the v)) @ rest) = (Ok v, rest)"
    by (simp add: read_entry_def writeBytes_def read_le_put_le corrupted_Ok
        DeserializeLogEntry_Serialize del: LogEntry_Serialize_length)
next
  fix r v r'
  show "read_entry r = (Ok v, r') \<Longrightarrow> short_entry v"
    by (auto simp: read_entry_def short_entry_def and_then_Ok_iff dest: DeserializeLogEntry_short)
qed

section \<open>Commands\<close>

lemma fst_Ok_iff: "fst m = Ok a \<longleftrightarrow> (\<exists>s. m = (Ok a, s))"
  by (cases m) auto

definition short_command :: "command \<Rightarrow> bool" where
  "short_command c \<longleftrightarrow> short_string (c_dn c) \<and> short_string (c_old_dn c) \<and>
     short_string (c_entry_dn c) \<and> short_bytes (c_entry_data c) \<and> short_bytes (c_config_data c) \<and>
     short_bytes (c_acl_data c)"

lemma DeserializeCommand_Serialize:
  "short_command c \<Longrightarrow> DeserializeCommand (Command_Serialize c) = Ok c"
  by (simp add: DeserializeCommand_def Command_Serialize_def short_command_def read_byte_Cons
      corrupted_Ok string_wires optional_wire.rd_ser optional_wire.rd_ser_end)

lemma DeserializeCommand_short: "DeserializeCommand bs = Ok c \<Longrightarrow> short_command c"
  by (auto simp: DeserializeCommand_def short_command_def fst_Ok_iff and_then_Ok_iff corrupted_Ok_iff
      dest: string_wire.rd_ok bytes_wire.rd_ok optional_wire.rd_ok split: if_splits)

definition short_config :: "config_command \<Rightarrow> bool" where
  "short_config c \<longleftrightarrow> short_string (cc_section c) \<and> length (cc_data c) < 2 ^ 16 \<and>
     distinct (map fst (cc_data c)) \<and>
     (\<forall>p \<in> set (cc_data c). short_string (fst p) \<and> short_string (snd p))"

lemma update_fresh: "k \<notin> fst ` set ps \<Longrightarrow> AList.update k v ps = ps @ [(k, v)]"
  by (induction ps) auto

lemma fold_update_distinct:
  "distinct (map fst (ps @ qs)) \<Longrightarrow> fold (\<lambda>(k, v). AList.update k v) qs ps = ps @ qs"
proof (induction qs arbitrary: ps)
  case (Cons q qs)
  then show ?case
    by (cases q) (simp add: update_fresh)
qed simp

lemma DeserializeConfigCommand_Serialize:
  assumes "short_config c"
  shows "DeserializeConfigCommand (SerializeConfigCommand c) = Ok c"
proof -
  have "read_times (length (cc_data c)) read_pair (concat (map write_pair (cc_data c))) = (Ok (cc_data c), [])"
    using assms pair_wire.read_times_ser [of "cc_data c" "[]"] by (simp add: short_config_def)
  then show ?thesis
    using assms fold_update_distinct [of "[]" "cc_data c"]
    by (simp add: DeserializeConfigCommand_def SerializeConfigCommand_def short_config_def
        string_wires read_le_put_le unat_of_length16 corrupted_Ok)
qed

lemma update_subset: "set (AList.update k v ps) \<subseteq> insert (k, v) (set ps)"
  by (induction ps) auto

lemma update_length: "length (AList.update k v ps) \<le> Suc (length ps)"
  by (induction ps) auto

lemma fold_update_props:
  "set (fold (\<lambda>(k, v). AList.update k v) qs ps) \<subseteq> set ps \<union> set qs \<and>
   length (fold (\<lambda>(k, v). AList.update k v) qs ps) \<le> length ps + length qs \<and>
   (distinct (map fst ps) \<longrightarrow> distinct (map fst (fold (\<lambda>(k, v). AList.update k v) qs ps)))"
proof (induction qs arbitrary: ps)
  case (Cons q qs)
  obtain k v where q: "q = (k, v)" by (cases q)
  show ?case
    using Cons [of "AList.update k v ps"] update_subset [of k v ps] update_length [of k v ps]
      distinct_update [of ps k v]
    by (auto simp: q)
qed simp

lemma DeserializeConfigCommand_short:
  assumes "DeserializeConfigCommand bs = Ok c"
  shows "short_config c"
proof -
  obtain sec n ps r r' where
    "short_string sec" "read_times (unat (n :: uint16)) read_pair r = (Ok ps, r')"
    "cc_section c = sec" "cc_data c = fold (\<lambda>(k, v). AList.update k v) ps []"
    using assms
    by (auto simp: DeserializeConfigCommand_def fst_Ok_iff and_then_Ok_iff corrupted_Ok_iff
        dest: string_wire.rd_ok split: if_splits)
  moreover from this(2) have ps: "length ps = unat n"
    "\<And>p. p \<in> set ps \<Longrightarrow> short_string (fst p) \<and> short_string (snd p)"
    using pair_wire.read_times_ok by blast+
  moreover have "length (fold (\<lambda>(k, v). AList.update k v) ps []) < 2 ^ 16"
    using fold_update_props [of ps "[]"] ps(1)
    by (auto intro: le_less_trans [OF _ unat16_less [of n]])
  ultimately show ?thesis
    using fold_update_props [of ps "[]"] by (auto simp: short_config_def dest!: subsetD)
qed

definition short_acl :: "acl_command \<Rightarrow> bool" where
  "short_acl c \<longleftrightarrow> short_string (ac_default_policy c) \<and> length (ac_rules c) < 2 ^ 16 \<and>
     (\<forall>r \<in> set (ac_rules c). short_rule r) \<and> (\<forall>r. ac_rule c = Some r \<longrightarrow> short_rule r) \<and>
     - (2 ^ 31) \<le> ac_rule_index c \<and> ac_rule_index c < 2 ^ 31"

lemma sint_word_of_int32:
  "- (2 ^ 31) \<le> i \<Longrightarrow> i < 2 ^ 31 \<Longrightarrow> sint (word_of_int i :: uint32) = i"
  by (simp add: signed_take_bit_int_eq_self_iff sint_sbintrunc')

lemma DeserializeACLCommand_Serialize:
  assumes "short_acl c"
  shows "DeserializeACLCommand (SerializeACLCommand c) = Ok c"
  using assms
  by (cases "ac_rule c")
    (simp_all add: DeserializeACLCommand_def SerializeACLCommand_def short_acl_def string_wires
      read_le_put_le unat_of_length16 corrupted_Ok rule_wire.read_times_ser rule_wire.rd_ser_end
      read_bool_put_bool read_bool_put_bool [of _ "[]", simplified] sint_word_of_int32)

lemma sint32_bounds: "- 2147483648 \<le> sint (w :: uint32)" "sint (w :: uint32) < 2147483648"
  using sint_ge [of w] sint_less [of w] by simp_all

lemma DeserializeACLCommand_short: "DeserializeACLCommand bs = Ok c \<Longrightarrow> short_acl c"
  by (auto simp: DeserializeACLCommand_def short_acl_def fst_Ok_iff and_then_Ok_iff corrupted_Ok_iff
      sint32_bounds dest!: rule_wire.read_times_ok dest: string_wire.rd_ok rule_wire.rd_ok
      split: if_splits)

section \<open>RPC messages\<close>

lemma u64_at_skip [simp]: "length bs \<le> n \<Longrightarrow> u64_at (bs @ r) n = u64_at r (n - length bs)"
  by (simp add: u64_at_def)

lemma u64_at_put [simp]: "u64_at (put_le 8 w @ r) 0 = w" "u64_at (put_le 8 w) 0 = w"
  by (simp_all add: u64_at_def)

lemma put_bool_simps [simp]: "length (put_bool b) = 1" "put_bool b ! 0 = 1 \<longleftrightarrow> b"
  by (simp_all add: put_bool_def)

lemmas rpc_defs =
  RequestVoteArgs_Serialize_def DeserializeRequestVoteArgs_def
  RequestVoteReply_Serialize_def DeserializeRequestVoteReply_def
  AppendEntriesReply_Serialize_def DeserializeAppendEntriesReply_def
  InstallSnapshotReply_Serialize_def DeserializeInstallSnapshotReply_def

lemma fixed_rpc_roundtrips:
  "DeserializeRequestVoteArgs (RequestVoteArgs_Serialize rv) = Ok rv"
  "DeserializeRequestVoteReply (RequestVoteReply_Serialize rvr) = Ok rvr"
  "DeserializeAppendEntriesReply (AppendEntriesReply_Serialize aer) = Ok aer"
  "DeserializeInstallSnapshotReply (InstallSnapshotReply_Serialize isr) = Ok isr"
  by (simp_all add: rpc_defs nth_append)

definition short_snapshot :: "install_snapshot_args \<Rightarrow> bool" where
  "short_snapshot s \<longleftrightarrow> length (is_data s) < 2 ^ 32 - 36"

lemma DeserializeInstallSnapshotArgs_Serialize:
  assumes "short_snapshot s"
  shows "DeserializeInstallSnapshotArgs (InstallSnapshotArgs_Serialize s) = Ok s"
proof -
  have n: "unat (word_of_nat (length (is_data s)) :: uint32) = length (is_data s)"
    using assms by (intro unat_of_length32) (simp add: short_snapshot_def)
  then have "unat (36 + word_of_nat (length (is_data s)) :: uint32) = 36 + length (is_data s)"
    using assms by (subst unat_plus_small) (simp_all add: short_snapshot_def)
  with n show ?thesis
    by (simp add: DeserializeInstallSnapshotArgs_def InstallSnapshotArgs_Serialize_def Let_def)
qed

lemma DeserializeInstallSnapshotArgs_short:
  "DeserializeInstallSnapshotArgs bs = Ok s \<Longrightarrow> short_snapshot s"
proof -
  have "unat (36 + n) - 36 < 2 ^ 32 - 36" if "36 \<le> unat (36 + n)" for n :: uint32
    using that diff_less_mono [OF unat32_less [of "36 + n"], of 36] by simp
  then show "DeserializeInstallSnapshotArgs bs = Ok s \<Longrightarrow> short_snapshot s"
    by (auto simp: DeserializeInstallSnapshotArgs_def short_snapshot_def Let_def go_slice_def
        split: if_splits)
qed

lemma DeserializeInstallSnapshotArgs_no_panic:
  assumes "length bs < 2 ^ 32"
  shows "DeserializeInstallSnapshotArgs bs \<noteq> Panic"
proof -
  have "unat (36 + n :: uint32) = 36 + unat n" if "36 + unat n \<le> length bs" for n
    using that assms by (intro trans [OF unat_plus_small]) simp_all
  then show ?thesis
    by (auto simp: DeserializeInstallSnapshotArgs_def Let_def)
qed

definition short_append :: "append_entries_args \<Rightarrow> bool" where
  "short_append a \<longleftrightarrow> length (ae_entries a) \<le> 10000 \<and> (\<forall>x \<in> set (ae_entries a). short_entry x)"

lemma serialize_entries_eq:
  "serialize_entries xs =
     (if None \<in> set xs then Panic
      else Ok (concat (map (\<lambda>x. writeBytes (LogEntry_Serialize (the x))) xs)))"
  by (induction xs rule: serialize_entries.induct) simp_all

lemma serialize_entries_short:
  "\<forall>x \<in> set xs. short_entry x \<Longrightarrow>
     serialize_entries xs = Ok (concat (map (\<lambda>x. writeBytes (LogEntry_Serialize (the x))) xs))"
  by (auto simp: serialize_entries_eq short_entry_def)

lemma AppendEntriesArgs_roundtrip:
  assumes "short_append a"
  obtains bs where "AppendEntriesArgs_Serialize a = Ok bs" "DeserializeAppendEntriesArgs bs = Ok a"
proof -
  let ?es = "concat (map (\<lambda>x. writeBytes (LogEntry_Serialize (the x))) (ae_entries a))"
  have n: "unat (word_of_nat (length (ae_entries a)) :: uint64) = length (ae_entries a)"
    using assms by (intro unat_of_length64) (simp add: short_append_def)
  have le: "\<not> (10000 :: uint64) < word_of_nat (length (ae_entries a))"
    using assms by (simp add: word_less_nat_alt n short_append_def)
  have "read_times (length (ae_entries a)) read_entry ?es = (Ok (ae_entries a), [])"
    using assms entry_wire.read_times_ser [of "ae_entries a" "[]"] by (simp add: short_append_def)
  moreover have "serialize_entries (ae_entries a) = Ok ?es"
    using assms by (intro serialize_entries_short) (simp add: short_append_def)
  ultimately show ?thesis
    using that n le
    by (simp add: AppendEntriesArgs_Serialize_def DeserializeAppendEntriesArgs_def)
qed

lemma DeserializeAppendEntriesArgs_short:
  "DeserializeAppendEntriesArgs bs = Ok a \<Longrightarrow> short_append a"
  by (auto simp: DeserializeAppendEntriesArgs_def short_append_def Let_def fst_Ok_iff and_then_Ok_iff
      word_less_nat_alt not_less dest!: entry_wire.read_times_ok split: if_splits)

end
