(* ===== verification/Raft_Log.thy ===== *)
theory Raft_Log
  imports Raft_Wire
begin

text \<open>
  The replicated log of \<^verbatim>\<open>internal/raft/log.go\<close>: the in-memory slice of entry pointers (a hole is
  \<^const>\<open>None\<close>) and the append-only file behind it, kept as its bytes and the file position.
  Writes to the file succeed in the model; the source drops their errors.
\<close>

section \<open>Operations\<close>

record log_file =
  f_data :: bytes
  f_pos :: nat

record raft_log =
  l_entries :: "log_entry option list"
  l_file :: "log_file option"

definition file_write :: "bytes \<Rightarrow> log_file \<Rightarrow> log_file" where
  "file_write bs f =
     \<lparr>f_data = take (f_pos f) (f_data f) @ bs @ drop (f_pos f + length bs) (f_data f),
      f_pos = f_pos f + length bs\<rparr>"

definition initial_entry :: log_entry where
  "initial_entry = \<lparr>e_index = 0, e_term = 0, e_type = LogEntryNoop, e_command = []\<rparr>"

definition NewRaftLog :: raft_log where
  "NewRaftLog = \<lparr>l_entries = [Some initial_entry], l_file = None\<rparr>"

definition maxEntryLen :: uint32 where
  "maxEntryLen = 10 * 1024 * 1024"

text \<open>The reading loop of \<^verbatim>\<open>loadFromDisk\<close>: the map of the last entry read for each index.\<close>

type_synonym entry_map = "uint64 \<Rightarrow> log_entry option"

definition store_entry :: "log_entry \<Rightarrow> entry_map \<times> uint64 \<Rightarrow> entry_map \<times> uint64" where
  "store_entry e s =
     (if e_index e > 0
      then ((fst s)(e_index e \<mapsto> e), if e_index e > snd s then e_index e else snd s)
      else s)"

lemma read_full_shrinks: "read_full n r = (Ok bs, r') \<Longrightarrow> length r' + n = length r"
  by (auto simp: read_full_def split: if_splits)

function load_loop :: "bytes \<Rightarrow> entry_map \<times> uint64 \<Rightarrow> (entry_map \<times> uint64) reader_result" where
  "load_loop r s =
     (case read_full 4 r of
        (Fail err, r') \<Rightarrow> if err = EOF then (Ok s, r') else (Fail err, r')
      | (Panic, r') \<Rightarrow> (Panic, r')
      | (Ok lenBuf, r1) \<Rightarrow>
          let entryLen = get_le lenBuf :: uint32 in
          if entryLen = 0 \<or> entryLen > maxEntryLen then (Ok s, r1)
          else case read_full (unat entryLen) r1 of
              (Fail err, r2) \<Rightarrow> (Fail err, r2)
            | (Panic, r2) \<Rightarrow> (Panic, r2)
            | (Ok entryData, r2) \<Rightarrow>
                (case DeserializeLogEntry entryData of
                   Fail err \<Rightarrow> (Fail err, r2)
                 | Panic \<Rightarrow> (Panic, r2)
                 | Ok e \<Rightarrow> load_loop r2 (store_entry e s)))"
  by pat_completeness auto
termination
  by (relation "measure (\<lambda>(r, s). length r)") (auto dest!: read_full_shrinks [OF sym])

declare load_loop.simps [simp del]

definition put_entry :: "entry_map \<Rightarrow> nat \<Rightarrow> log_entry option list \<Rightarrow> log_entry option list" where
  "put_entry m i es =
     (case m (word_of_nat i) of
        None \<Rightarrow> es
      | Some e \<Rightarrow> (es @ replicate (Suc i - length es) None)[i := Some e])"

definition loadFromDisk :: "raft_log \<Rightarrow> (raft_error, unit) outcome \<times> raft_log" where
  "loadFromDisk l =
     (case l_file l of
        None \<Rightarrow> (Ok (), l)
      | Some f \<Rightarrow>
          (case load_loop (f_data f) (Map.empty, 0) of
             (Ok (m, maxIndex), r) \<Rightarrow>
               (Ok (), \<lparr>l_entries = fold (put_entry m) [1 ..< Suc (unat maxIndex)] (l_entries l),
                        l_file = Some (f\<lparr>f_pos := length (f_data f) - length r\<rparr>)\<rparr>)
           | (Fail err, r) \<Rightarrow> (Fail err, l)
           | (Panic, r) \<Rightarrow> (Panic, l)))"

text \<open>\<open>disk\<close> is what \<^verbatim>\<open>raft.log\<close> holds when it is opened, \<^const>\<open>None\<close> for an empty \<^verbatim>\<open>dataDir\<close>.\<close>

definition NewRaftLogWithDir :: "bytes option \<Rightarrow> (raft_error, raft_log) outcome" where
  "NewRaftLogWithDir disk =
     (case disk of
        None \<Rightarrow> Ok NewRaftLog
      | Some bs \<Rightarrow>
          (case loadFromDisk (NewRaftLog\<lparr>l_file := Some \<lparr>f_data = bs, f_pos = 0\<rparr>\<rparr>) of
             (Ok _, l) \<Rightarrow> Ok l
           | (Fail err, l) \<Rightarrow> Fail err
           | (Panic, l) \<Rightarrow> Panic))"

definition persistEntryLocked :: "log_entry \<Rightarrow> raft_log \<Rightarrow> raft_log" where
  "persistEntryLocked e l =
     (let bs = LogEntry_Serialize e in
      l\<lparr>l_file := map_option
          (\<lambda>f. file_write bs (file_write (put_le 4 (word_of_nat (length bs) :: uint32)) f)) (l_file l)\<rparr>)"

definition Log_Append :: "log_entry \<Rightarrow> raft_log \<Rightarrow> raft_log" where
  "Log_Append e l = persistEntryLocked e (l\<lparr>l_entries := l_entries l @ [Some e]\<rparr>)"

definition Log_Get :: "raft_log \<Rightarrow> uint64 \<Rightarrow> (raft_error, log_entry option) outcome" where
  "Log_Get l index =
     (if length (l_entries l) \<le> unat index then Fail ErrLogIndexOutOfRange
      else Ok (l_entries l ! unat index))"

definition LastIndex :: "raft_log \<Rightarrow> uint64" where
  "LastIndex l = word_of_int (int (length (l_entries l)) - 1)"

definition entry_term :: "log_entry option \<Rightarrow> uint64" where
  "entry_term x = (case x of None \<Rightarrow> 0 | Some e \<Rightarrow> e_term e)"

definition LastTerm :: "raft_log \<Rightarrow> uint64" where
  "LastTerm l = (if l_entries l = [] then 0 else entry_term (last (l_entries l)))"

definition GetFrom :: "raft_log \<Rightarrow> uint64 \<Rightarrow> log_entry option list" where
  "GetFrom l index = (if length (l_entries l) \<le> unat index then [] else drop (unat index) (l_entries l))"

definition TruncateFrom :: "uint64 \<Rightarrow> raft_log \<Rightarrow> raft_log" where
  "TruncateFrom index l =
     (if unat index < length (l_entries l) then l\<lparr>l_entries := take (unat index) (l_entries l)\<rparr> else l)"

definition TruncateBefore :: "uint64 \<Rightarrow> raft_log \<Rightarrow> raft_log" where
  "TruncateBefore index l =
     (if index > 0 \<and> unat index \<le> length (l_entries l)
      then l\<lparr>l_entries := drop (unat index) (l_entries l)\<rparr>
      else if unat index > length (l_entries l) then l\<lparr>l_entries := []\<rparr>
      else l)"

definition Log_Len :: "raft_log \<Rightarrow> int" where
  "Log_Len l = int (length (l_entries l))"

definition TermAt :: "raft_log \<Rightarrow> uint64 \<Rightarrow> uint64" where
  "TermAt l index =
     (if length (l_entries l) \<le> unat index then 0 else entry_term (l_entries l ! unat index))"

section \<open>What the file holds and what is read back\<close>

definition frame :: "log_entry \<Rightarrow> bytes" where
  "frame e = put_le 4 (word_of_nat (length (LogEntry_Serialize e)) :: uint32) @ LogEntry_Serialize e"

definition frames :: "log_entry list \<Rightarrow> bytes" where
  "frames es = concat (map frame es)"

definition storable :: "log_entry \<Rightarrow> bool" where
  "storable e \<longleftrightarrow> length (e_command e) + 21 \<le> 10485760"

definition file_holds :: "raft_log \<Rightarrow> log_entry list \<Rightarrow> bool" where
  "file_holds l es \<longleftrightarrow> l_file l = Some \<lparr>f_data = frames es, f_pos = length (frames es)\<rparr>"

lemma frame_length [simp]: "length (frame e) = 25 + length (e_command e)"
  by (simp add: frame_def)

lemma frame_nonempty [simp]: "frame e \<noteq> []"
  by (metis frame_length list.size(3) add_is_0 zero_neq_numeral)

lemma Log_Append_entries [simp]: "l_entries (Log_Append e l) = l_entries l @ [Some e]"
  by (simp add: Log_Append_def persistEntryLocked_def Let_def)

lemma Log_Append_file: "file_holds l es \<Longrightarrow> file_holds (Log_Append e l) (es @ [e])"
  by (simp add: file_holds_def Log_Append_def persistEntryLocked_def Let_def file_write_def frames_def
      frame_def)

lemma TruncateFrom_file [simp]: "l_file (TruncateFrom i l) = l_file l"
  by (simp add: TruncateFrom_def)

lemma storable_length:
  assumes "storable e"
  shows "unat (word_of_nat (length (LogEntry_Serialize e)) :: uint32) = length (LogEntry_Serialize e)"
  using assms by (intro unat_of_length32) (simp add: storable_def)

lemma load_loop_frame:
  assumes "storable e"
  shows "load_loop (frame e @ rest) s = load_loop rest (store_entry e s)"
proof -
  let ?n = "word_of_nat (length (LogEntry_Serialize e)) :: uint32"
  note n = storable_length [OF assms]
  have "?n \<noteq> 0"
    using n by (metis LogEntry_Serialize_length add_is_0 numeral_neq_zero unat_0)
  moreover have "\<not> maxEntryLen < ?n"
    using assms unfolding word_less_nat_alt n by (simp add: maxEntryLen_def storable_def)
  moreover have "DeserializeLogEntry (LogEntry_Serialize e) = Ok e"
    using assms by (intro DeserializeLogEntry_Serialize) (simp add: storable_def)
  ultimately show ?thesis
    by (subst load_loop.simps) (simp add: frame_def Let_def n del: LogEntry_Serialize_length)
qed

lemma load_loop_frames:
  "\<forall>e \<in> set es. storable e \<Longrightarrow> load_loop (frames es @ rest) s = load_loop rest (fold store_entry es s)"
  by (induction es arbitrary: s) (simp_all add: frames_def load_loop_frame)

lemma load_loop_Nil [simp]: "load_loop [] s = (Ok s, [])"
  by (subst load_loop.simps) (simp add: read_full_def)

text \<open>Reading back an index gives the entry written last for it.\<close>

definition last_written :: "log_entry list \<Rightarrow> uint64 \<Rightarrow> log_entry option" where
  "last_written es i = find (\<lambda>e. e_index e = i) (rev es)"

definition max_index :: "log_entry list \<Rightarrow> uint64" where
  "max_index es = fold (\<lambda>e m. max m (e_index e)) es 0"

lemma last_written_snoc:
  "last_written (es @ [e]) i = (if e_index e = i then Some e else last_written es i)"
  by (simp add: last_written_def)

lemma max_index_snoc: "max_index (es @ [e]) = max (max_index es) (e_index e)"
  by (simp add: max_index_def)

lemma fold_store_entry:
  "fold store_entry es (Map.empty, 0) = ((\<lambda>i. if i = 0 then None else last_written es i), max_index es)"
proof (induction es rule: rev_induct)
  case (snoc e es)
  then show ?case
    by (auto simp: store_entry_def last_written_snoc max_index_snoc max_def fun_eq_iff word_gt_0)
qed (auto simp: last_written_def max_index_def)

definition built :: "entry_map \<Rightarrow> nat \<Rightarrow> log_entry option list" where
  "built m n = fold (put_entry m) [1 ..< Suc n] [Some initial_entry]"

lemma built_Suc: "built m (Suc n) = put_entry m (Suc n) (built m n)"
  by (simp add: built_def)

lemma built_spec:
  "1 \<le> length (built m n) \<and> length (built m n) \<le> Suc n \<and> built m n ! 0 = Some initial_entry \<and>
   (\<forall>i. 0 < i \<longrightarrow> i \<le> n \<longrightarrow>
     (if i < length (built m n) then built m n ! i = m (word_of_nat i) else m (word_of_nat i) = None))"
proof (induction n)
  case (Suc n)
  then show ?case
    by (auto simp: built_Suc put_entry_def nth_list_update nth_append le_Suc_eq less_Suc_eq
        split: option.split)
qed (simp add: built_def)

lemma built_length: "0 < n \<Longrightarrow> m (word_of_nat n) = Some e \<Longrightarrow> length (built m n) = Suc n"
  using built_spec [of m "n - 1"] by (cases n) (auto simp: built_Suc put_entry_def)

text \<open>The log a restart reads from a file of whole frames.\<close>

definition reloaded :: "log_entry list \<Rightarrow> raft_log" where
  "reloaded es =
     \<lparr>l_entries = built (\<lambda>i. if i = 0 then None else last_written es i) (unat (max_index es)),
      l_file = Some \<lparr>f_data = frames es, f_pos = length (frames es)\<rparr>\<rparr>"

lemma NewRaftLogWithDir_frames:
  assumes "\<forall>e \<in> set es. storable e"
  shows "NewRaftLogWithDir (Some (frames es)) = Ok (reloaded es)"
proof -
  have "load_loop (frames es) (Map.empty, 0)
      = (Ok (\<lambda>i. if i = 0 then None else last_written es i, max_index es), [])"
    using load_loop_frames [OF assms, of "[]" "(Map.empty, 0)"] by (simp add: fold_store_entry)
  then show ?thesis
    by (simp add: NewRaftLogWithDir_def loadFromDisk_def NewRaftLog_def reloaded_def built_def)
qed

lemma last_written_Some: "last_written es i = Some e \<Longrightarrow> e \<in> set es \<and> e_index e = i"
  by (induction es rule: rev_induct)
    (auto simp: last_written_snoc last_written_def split: if_splits)

lemma max_index_ge: "e \<in> set es \<Longrightarrow> e_index e \<le> max_index es"
  by (induction es rule: rev_induct) (auto simp: max_index_snoc max_def dest: order_trans)

lemma max_index_attained: "max_index es = 0 \<or> (\<exists>e \<in> set es. e_index e = max_index es)"
  by (induction es rule: rev_induct) (auto simp: max_index_snoc max_def max_index_def)

lemma last_written_None_iff: "last_written es i = None \<longleftrightarrow> (\<forall>e \<in> set es. e_index e \<noteq> i)"
  by (auto simp: last_written_def find_None_iff)

lemma reloaded_length: "length (l_entries (reloaded es)) = Suc (unat (max_index es))"
proof (cases "max_index es = 0")
  case False
  then obtain e where "last_written es (max_index es) = Some e"
    using max_index_attained [of es] last_written_None_iff [of es "max_index es"] by auto
  then show ?thesis
    using False by (simp add: reloaded_def unat_gt_0 built_length)
qed (simp add: reloaded_def built_def)

lemma reloaded_nth:
  assumes "0 < i" "i \<le> unat (max_index es)"
  shows "l_entries (reloaded es) ! i = last_written es (word_of_nat i)"
proof -
  have "i < 2 ^ 64"
    using assms(2) unsigned_less [of "max_index es", where ?'a = nat] by simp
  then have "(word_of_nat i :: uint64) \<noteq> 0"
    using assms(1) by (simp add: word_of_nat_eq_0_iff nat_dvd_not_less)
  then show ?thesis
    using assms reloaded_length [of es] built_spec [of "\<lambda>i. if i = 0 then None else last_written es i" "unat (max_index es)"]
    by (simp add: reloaded_def)
qed

lemma reloaded_0: "l_entries (reloaded es) ! 0 = Some initial_entry"
  using built_spec by (simp add: reloaded_def)

section \<open>Consecutive entries\<close>

definition log_index :: "nat \<Rightarrow> uint64" where
  "log_index n = word_of_nat n"

lemma unat_log_index: "n < 2 ^ 64 \<Longrightarrow> unat (log_index n) = n"
  by (simp add: log_index_def unat_of_nat take_bit_nat_eq_self)

lemma log_index_inject: "m < 2 ^ 64 \<Longrightarrow> n < 2 ^ 64 \<Longrightarrow> log_index m = log_index n \<longleftrightarrow> m = n"
  by (metis unat_log_index)

lemma log_index_unat [simp]: "log_index (unat i) = i"
  by (simp add: log_index_def)

lemma log_index_Suc: "log_index (Suc n) = log_index n + 1"
  by (simp add: log_index_def)

definition numbered :: "log_entry list \<Rightarrow> bool" where
  "numbered es \<longleftrightarrow> length es < 2 ^ 64 \<and> (\<forall>i < length es. e_index (es ! i) = log_index (Suc i))"

lemma numbered_snoc:
  "numbered (es @ [e]) \<longleftrightarrow>
     numbered es \<and> Suc (length es) < 2 ^ 64 \<and> e_index e = log_index (Suc (length es))"
  by (auto simp: numbered_def nth_append less_Suc_eq)

lemma numbered_max_index: "numbered es \<Longrightarrow> unat (max_index es) = length es"
proof (induction es rule: rev_induct)
  case (snoc e es)
  then have "max_index es \<le> e_index e"
    by (simp add: numbered_snoc word_le_nat_alt unat_log_index)
  with snoc.prems show ?case
    by (simp add: numbered_snoc max_index_snoc max_def unat_log_index)
qed (simp add: max_index_def)

lemma numbered_last_written:
  "numbered es \<Longrightarrow> i < length es \<Longrightarrow> last_written es (log_index (Suc i)) = Some (es ! i)"
proof (induction es rule: rev_induct)
  case (snoc e es)
  have "log_index (Suc (length es)) = log_index (Suc i) \<longleftrightarrow> length es = i"
    using snoc.prems by (subst log_index_inject) (auto simp: numbered_snoc)
  with snoc show ?case
    by (auto simp: numbered_snoc last_written_snoc nth_append)
qed simp

lemma reloaded_entries:
  assumes len: "unat (max_index es) = length xs"
    and nth: "\<And>i. i < length xs \<Longrightarrow> last_written es (log_index (Suc i)) = Some (xs ! i)"
  shows "l_entries (reloaded es) = Some initial_entry # map Some xs"
proof (rule nth_equalityI)
  fix i
  assume "i < length (l_entries (reloaded es))"
  then show "l_entries (reloaded es) ! i = (Some initial_entry # map Some xs) ! i"
    using reloaded_nth [of i es] nth [of "i - 1"] len
    by (cases i) (simp_all add: reloaded_0 reloaded_length log_index_def)
qed (simp add: reloaded_length len)

lemma reload_numbered: "numbered es \<Longrightarrow> l_entries (reloaded es) = Some initial_entry # map Some es"
  by (rule reloaded_entries) (simp_all add: numbered_max_index numbered_last_written)

lemma reload_overwritten:
  assumes "numbered es" "j < length es" "e_index e = log_index (Suc j)"
  shows "l_entries (reloaded (es @ [e])) = Some initial_entry # map Some (es[j := e])"
proof (rule reloaded_entries)
  have "length es < 2 ^ 64"
    using assms(1) by (simp add: numbered_def)
  then have inj: "log_index (Suc j) = log_index (Suc i) \<longleftrightarrow> j = i" if "i < length es" for i
    using that assms(2) by (subst log_index_inject) auto
  have "e_index e \<le> max_index es"
    using assms \<open>length es < 2 ^ 64\<close>
    by (simp add: word_le_nat_alt numbered_max_index unat_log_index Suc_leI)
  then show "unat (max_index (es @ [e])) = length (es[j := e])"
    using assms(1) by (simp add: max_index_snoc max_def numbered_max_index)
  show "last_written (es @ [e]) (log_index (Suc i)) = Some (es[j := e] ! i)"
    if "i < length (es[j := e])" for i
    using that assms inj by (auto simp: last_written_snoc numbered_last_written)
qed

lemma reloaded_Nil: "reloaded [] = \<lparr>l_entries = [Some initial_entry], l_file = Some \<lparr>f_data = [], f_pos = 0\<rparr>\<rparr>"
  by (simp add: reloaded_def max_index_def built_def frames_def)

lemma appended_log:
  "file_holds l es \<Longrightarrow> file_holds (fold Log_Append es' l) (es @ es') \<and>
     l_entries (fold Log_Append es' l) = l_entries l @ map Some es'"
proof (induction es' arbitrary: l es)
  case (Cons e es')
  show ?case
    using Cons.IH [OF Log_Append_file [OF Cons.prems, of e]] by simp
qed simp

section \<open>A torn last frame\<close>

lemma load_loop_torn:
  assumes "storable e" "0 < n" "n < length (frame e)"
  shows "\<exists>r. load_loop (take n (frame e)) s = (Fail (if n = 4 then EOF else ErrUnexpectedEOF), r)"
proof (cases "n < 4")
  case True
  then show ?thesis
    using assms by (subst load_loop.simps) (auto simp: read_full_def)
next
  case False
  let ?len = "word_of_nat (length (LogEntry_Serialize e)) :: uint32"
  let ?part = "take (n - 4) (LogEntry_Serialize e)"
  note len = storable_length [OF assms(1)]
  have frame: "take n (frame e) = put_le 4 ?len @ ?part"
    using False by (simp add: frame_def)
  have "?len \<noteq> 0"
    using len by (metis LogEntry_Serialize_length add_is_0 numeral_neq_zero unat_0)
  moreover have "\<not> maxEntryLen < ?len"
    using assms(1) unfolding word_less_nat_alt len by (simp add: maxEntryLen_def storable_def)
  moreover have "read_full (length (LogEntry_Serialize e)) ?part
      = (Fail (if n = 4 then EOF else ErrUnexpectedEOF), [])"
    using assms(3) False LogEntry_Serialize_length [of e]
    by (auto simp: read_full_def simp del: LogEntry_Serialize_length)
  ultimately show ?thesis
    unfolding frame
    by (subst load_loop.simps) (simp add: Let_def len del: LogEntry_Serialize_length)
qed

end
