(* ===== verification/Raft_Node.thy ===== *)
theory Raft_Node
  imports Raft_Log
begin

text \<open>
  The node of \<^verbatim>\<open>internal/raft\<close>: its state (state.go) and its handlers, election, replication and
  apply code (node.go, apply_result.go). One \<open>node\<close> record holds \<^verbatim>\<open>Node\<close> and the \<^verbatim>\<open>NodeState\<close> it
  owns; every critical section of the source is one function on it. The files \<^verbatim>\<open>term.dat\<close> and
  \<^verbatim>\<open>last_applied.dat\<close> are their contents. Timers, log messages and channels carry no state that
  the handlers read, so a timer reset leaves the node as it is and a proposal's result channel is
  the list of the errors sent on it.
\<close>

section \<open>State\<close>

datatype node_role = StateFollower | StateCandidate | StateLeader

definition StateString :: "node_role \<Rightarrow> string" where
  "StateString r = (case r of StateFollower \<Rightarrow> ''follower'' | StateCandidate \<Rightarrow> ''candidate''
     | StateLeader \<Rightarrow> ''leader'')"

record peer =
  p_id :: uint64
  p_addr :: bytes

text \<open>Durations are nanoseconds.\<close>

record node_config =
  cfg_id :: uint64
  cfg_addr :: bytes
  cfg_peers :: "peer list"
  cfg_election_timeout :: int
  cfg_heartbeat_timeout :: int
  cfg_data_dir :: bytes

definition DefaultNodeConfig :: node_config where
  "DefaultNodeConfig = \<lparr>cfg_id = 0, cfg_addr = [], cfg_peers = [],
     cfg_election_timeout = 150000000, cfg_heartbeat_timeout = 50000000, cfg_data_dir = []\<rparr>"

definition Validate :: "node_config \<Rightarrow> raft_error option" where
  "Validate c =
     (if cfg_id c = 0 then Some ErrInvalidConfig
      else if cfg_addr c = [] then Some ErrInvalidConfig
      else if cfg_election_timeout c \<le> 0 then Some ErrInvalidConfig
      else if cfg_heartbeat_timeout c \<le> 0 then Some ErrInvalidConfig
      else if cfg_heartbeat_timeout c \<ge> cfg_election_timeout c then Some ErrInvalidConfig
      else None)"

text \<open>Errors of the state machine: \<^verbatim>\<open>errors.As\<close> walks the chain of wrapped errors.\<close>

datatype apply_result =
    ApplyResultApplied
  | ApplyResultIdempotent
  | ApplyResultRejectConflict
  | ApplyResultFatal

datatype go_error =
    RaftError raft_error
  | OtherError bytes
  | WrappedError bytes go_error
  | ApplyResultError apply_result "go_error option"

fun errors_As_apply_result :: "go_error \<Rightarrow> apply_result option" where
  "errors_As_apply_result (RaftError _) = None"
| "errors_As_apply_result (OtherError _) = None"
| "errors_As_apply_result (WrappedError _ e) = errors_As_apply_result e"
| "errors_As_apply_result (ApplyResultError r _) = Some r"

definition ApplyResultFromError :: "go_error option \<Rightarrow> apply_result" where
  "ApplyResultFromError err =
     (case err of
        None \<Rightarrow> ApplyResultApplied
      | Some e \<Rightarrow>
          (case errors_As_apply_result e of Some r \<Rightarrow> r | None \<Rightarrow> ApplyResultFatal))"

definition proposalErrorForApplyResult :: "apply_result \<Rightarrow> go_error option \<Rightarrow> go_error option" where
  "proposalErrorForApplyResult result err = (if result = ApplyResultRejectConflict then err else None)"

text \<open>
  \<open>n_results\<close> records, in order, what was sent on the result channels of tracked proposals:
  the log index under which the proposal was tracked, its command and the error, if any.
\<close>

record node =
  n_id :: uint64
  n_peers :: "uint64 list"
  currentTerm :: uint64
  votedFor :: uint64
  log :: raft_log
  role :: node_role
  commitIndex :: uint64
  lastApplied :: uint64
  nextIndex :: "(uint64 \<times> uint64) list"
  matchIndex :: "(uint64 \<times> uint64) list"
  leaderID :: uint64
  dataDir :: bytes
  term_dat :: "bytes option"
  last_applied_dat :: "bytes option"
  pendingProposals :: "(uint64 \<times> command) list"
  n_results :: "(uint64 \<times> command \<times> go_error option) list"

definition map_get :: "(uint64 \<times> uint64) list \<Rightarrow> uint64 \<Rightarrow> uint64" where
  "map_get m k = (case map_of m k of None \<Rightarrow> 0 | Some v \<Rightarrow> v)"

definition persistTermAndVote :: "node \<Rightarrow> node" where
  "persistTermAndVote n =
     (if dataDir n = [] then n
      else n\<lparr>term_dat := Some (put_le 8 (currentTerm n) @ put_le 8 (votedFor n))\<rparr>)"

definition SetCurrentTerm :: "uint64 \<Rightarrow> node \<Rightarrow> node" where
  "SetCurrentTerm t n = persistTermAndVote (n\<lparr>currentTerm := t\<rparr>)"

definition SetVotedFor :: "uint64 \<Rightarrow> node \<Rightarrow> node" where
  "SetVotedFor c n = persistTermAndVote (n\<lparr>votedFor := c\<rparr>)"

definition persistLastApplied :: "node \<Rightarrow> node" where
  "persistLastApplied n =
     (if dataDir n = [] then n else n\<lparr>last_applied_dat := Some (put_le 8 (lastApplied n))\<rparr>)"

definition SetLastApplied :: "uint64 \<Rightarrow> node \<Rightarrow> node" where
  "SetLastApplied i n = persistLastApplied (n\<lparr>lastApplied := i\<rparr>)"

definition LoadLastApplied :: "node \<Rightarrow> node" where
  "LoadLastApplied n =
     (if dataDir n = [] then n
      else case last_applied_dat n of
          None \<Rightarrow> n
        | Some bs \<Rightarrow> if length bs \<ge> 8 then n\<lparr>lastApplied := u64_at bs 0\<rparr> else n)"

definition SetNextIndex :: "uint64 \<Rightarrow> uint64 \<Rightarrow> node \<Rightarrow> node" where
  "SetNextIndex p i n = n\<lparr>nextIndex := AList.update p i (nextIndex n)\<rparr>"

definition SetMatchIndex :: "uint64 \<Rightarrow> uint64 \<Rightarrow> node \<Rightarrow> node" where
  "SetMatchIndex p i n = n\<lparr>matchIndex := AList.update p i (matchIndex n)\<rparr>"

definition InitLeaderState :: "uint64 list \<Rightarrow> node \<Rightarrow> node" where
  "InitLeaderState peers n =
     (let lastIndex = LastIndex (log n) in
      fold (\<lambda>p n. SetMatchIndex p 0 (SetNextIndex p (lastIndex + 1) n)) peers n)"

definition BecomeFollower :: "uint64 \<Rightarrow> node \<Rightarrow> node" where
  "BecomeFollower term n = n\<lparr>role := StateFollower, currentTerm := term, votedFor := 0\<rparr>"

definition BecomeCandidate :: "node \<Rightarrow> node" where
  "BecomeCandidate n = n\<lparr>role := StateCandidate, currentTerm := currentTerm n + 1, leaderID := 0\<rparr>"

definition BecomeLeader :: "node \<Rightarrow> node" where
  "BecomeLeader n = n\<lparr>role := StateLeader, leaderID := n_id n\<rparr>"

definition AppendEntry :: "log_entry \<Rightarrow> node \<Rightarrow> node" where
  "AppendEntry e n = n\<lparr>log := Log_Append e (log n)\<rparr>"

text \<open>Loading after a restart: \<open>n\<close> carries the files of the data directory.\<close>

definition loadPersistedState :: "node \<Rightarrow> node" where
  "loadPersistedState n =
     (if dataDir n = [] then n
      else
        let n = (case term_dat n of
                   Some bs \<Rightarrow> if length bs \<ge> 16
                     then n\<lparr>currentTerm := u64_at bs 0, votedFor := u64_at bs 8\<rparr> else n
                 | None \<Rightarrow> n);
            n = n\<lparr>commitIndex := LastIndex (log n)\<rparr>
        in case last_applied_dat n of
             Some bs \<Rightarrow> if length bs \<ge> 8
               then let la = u64_at bs 0 in
                 n\<lparr>lastApplied := (if la > commitIndex n then commitIndex n else la)\<rparr>
               else n\<lparr>lastApplied := commitIndex n\<rparr>
           | None \<Rightarrow> n\<lparr>lastApplied := commitIndex n\<rparr>)"

record node_disk =
  d_log :: bytes
  d_term :: "bytes option"
  d_last_applied :: "bytes option"

definition zero_node :: "uint64 \<Rightarrow> uint64 list \<Rightarrow> node" where
  "zero_node i peers =
     \<lparr>n_id = i, n_peers = peers, currentTerm = 0, votedFor = 0, log = NewRaftLog,
      role = StateFollower, commitIndex = 0, lastApplied = 0, nextIndex = [], matchIndex = [],
      leaderID = 0, dataDir = [], term_dat = None, last_applied_dat = None, pendingProposals = [],
      n_results = []\<rparr>"

definition NewNodeStateWithDir :: "bytes \<Rightarrow> node_disk \<Rightarrow> node \<Rightarrow> (raft_error, node) outcome" where
  "NewNodeStateWithDir dir disk n =
     (case NewRaftLogWithDir (if dir = [] then None else Some (d_log disk)) of
        Ok l \<Rightarrow> Ok (loadPersistedState (n\<lparr>log := l, dataDir := dir, term_dat := d_term disk,
                    last_applied_dat := d_last_applied disk\<rparr>))
      | Fail err \<Rightarrow> Fail err
      | Panic \<Rightarrow> Panic)"

definition NewNode :: "node_config \<Rightarrow> node_disk \<Rightarrow> (raft_error, node) outcome" where
  "NewNode cfg disk =
     (case Validate cfg of
        Some err \<Rightarrow> Fail err
      | None \<Rightarrow>
          let n = zero_node (cfg_id cfg) (remdups (filter (\<lambda>p. p \<noteq> cfg_id cfg) (map p_id (cfg_peers cfg))))
          in if cfg_data_dir cfg \<noteq> [] then NewNodeStateWithDir (cfg_data_dir cfg) disk n else Ok n)"

section \<open>RequestVote\<close>

definition log_up_to_date :: "request_vote_args \<Rightarrow> node \<Rightarrow> bool" where
  "log_up_to_date args n \<longleftrightarrow>
     rv_last_log_term args > LastTerm (log n) \<or>
     (rv_last_log_term args = LastTerm (log n) \<and> rv_last_log_index args \<ge> LastIndex (log n))"

definition on_request_vote :: "request_vote_args \<Rightarrow> node \<Rightarrow> request_vote_reply \<times> node" where
  "on_request_vote args n =
     (if rv_term args < currentTerm n then (\<lparr>rvr_term = currentTerm n, rvr_granted = False\<rparr>, n)
      else
        let n = (if rv_term args > currentTerm n then BecomeFollower (rv_term args) n else n);
            reply = \<lparr>rvr_term = currentTerm n, rvr_granted = False\<rparr>
        in if (votedFor n = 0 \<or> votedFor n = rv_candidate args) \<and> log_up_to_date args n
           then (reply\<lparr>rvr_granted := True\<rparr>, SetVotedFor (rv_candidate args) n)
           else (reply, n))"

definition handleRequestVote :: "bytes \<Rightarrow> node \<Rightarrow> (raft_error, bytes) outcome \<times> node" where
  "handleRequestVote bs n =
     (case DeserializeRequestVoteArgs bs of
        Ok args \<Rightarrow> (let (reply, n') = on_request_vote args n in (Ok (RequestVoteReply_Serialize reply), n'))
      | Fail _ \<Rightarrow> (Ok (RequestVoteReply_Serialize \<lparr>rvr_term = currentTerm n, rvr_granted = False\<rparr>), n)
      | Panic \<Rightarrow> (Panic, n))"

section \<open>AppendEntries\<close>

text \<open>The search for the first index of the conflicting term, downwards from \<^verbatim>\<open>PrevLogIndex\<close>.\<close>

fun find_conflict :: "raft_log \<Rightarrow> uint64 \<Rightarrow> nat \<Rightarrow> uint64" where
  "find_conflict l ct 0 = 0"
| "find_conflict l ct (Suc k) =
     (if TermAt l (log_index (Suc k)) \<noteq> ct then log_index (Suc k) + 1
      else if k = 0 then 1
      else find_conflict l ct k)"

definition store_received :: "uint64 \<Rightarrow> log_entry \<Rightarrow> node \<Rightarrow> node" where
  "store_received idx e n =
     (if idx \<le> LastIndex (log n)
      then if TermAt (log n) idx \<noteq> e_term e
           then AppendEntry e (n\<lparr>log := TruncateFrom idx (log n)\<rparr>)
           else n
      else AppendEntry e n)"

text \<open>The loop over the received entries; decoded entries are never nil.\<close>

fun append_received :: "uint64 \<Rightarrow> log_entry option list \<Rightarrow> node \<Rightarrow> (raft_error, unit) outcome \<times> node" where
  "append_received idx [] n = (Ok (), n)"
| "append_received idx (None # es) n = (Panic, n)"
| "append_received idx (Some e # es) n = append_received (idx + 1) es (store_received idx e n)"

definition advance_commit :: "uint64 \<Rightarrow> node \<Rightarrow> node" where
  "advance_commit leaderCommit n =
     (if leaderCommit > commitIndex n
      then n\<lparr>commitIndex := (if LastIndex (log n) < leaderCommit then LastIndex (log n) else leaderCommit)\<rparr>
      else n)"

definition follow_leader :: "append_entries_args \<Rightarrow> node \<Rightarrow> node" where
  "follow_leader args n =
     (let n = (if ae_term args > currentTerm n then BecomeFollower (ae_term args) n
               else if role n = StateCandidate then BecomeFollower (ae_term args) n
               else n)
      in n\<lparr>leaderID := ae_leader args\<rparr>)"

definition on_append_entries ::
  "append_entries_args \<Rightarrow> node \<Rightarrow> (raft_error, append_entries_reply) outcome \<times> node" where
  "on_append_entries args n =
     (let reply = \<lparr>aer_term = currentTerm n, aer_success = False, aer_conflict_term = 0,
                   aer_conflict_index = 0\<rparr> in
      if ae_term args < currentTerm n then (Ok reply, n)
      else
        let n = follow_leader args n;
            reply = reply\<lparr>aer_term := ae_term args\<rparr>;
            prev = ae_prev_log_index args
        in if prev > 0 \<and> prev > LastIndex (log n)
           then (Ok (reply\<lparr>aer_conflict_index := LastIndex (log n) + 1\<rparr>), n)
           else if prev > 0 \<and> TermAt (log n) prev \<noteq> ae_prev_log_term args
           then (Ok (reply\<lparr>aer_conflict_term := TermAt (log n) prev,
                     aer_conflict_index := find_conflict (log n) (TermAt (log n) prev) (unat prev)\<rparr>), n)
           else and_then (append_received (prev + 1) (ae_entries args) n) (\<lambda>_ n.
             (Ok (reply\<lparr>aer_success := True\<rparr>), advance_commit (ae_leader_commit args) n)))"

definition handleAppendEntries :: "bytes \<Rightarrow> node \<Rightarrow> (raft_error, bytes) outcome \<times> node" where
  "handleAppendEntries bs n =
     (case DeserializeAppendEntriesArgs bs of
        Ok args \<Rightarrow> and_then (on_append_entries args n) (\<lambda>reply n. (Ok (AppendEntriesReply_Serialize reply), n))
      | Fail _ \<Rightarrow> (Ok (AppendEntriesReply_Serialize
          \<lparr>aer_term = currentTerm n, aer_success = False, aer_conflict_term = 0, aer_conflict_index = 0\<rparr>), n)
      | Panic \<Rightarrow> (Panic, n))"

section \<open>InstallSnapshot\<close>

text \<open>
  The state machine is an interface: \<open>restore\<close> and \<open>apply\<close> are its methods on a machine state, and
  the machine may be nil. The handlers carry the node and the machine side by side.
\<close>

type_synonym 'm machine = "'m option"

definition on_install_snapshot ::
  "(bytes \<Rightarrow> 'm \<Rightarrow> go_error option \<times> 'm) \<Rightarrow> install_snapshot_args \<Rightarrow> node \<times> 'm machine
    \<Rightarrow> install_snapshot_reply \<times> node \<times> 'm machine" where
  "on_install_snapshot restore args s =
     (let (n, sm) = s in
      if is_term args < currentTerm n then (\<lparr>isr_term = currentTerm n\<rparr>, n, sm)
      else
        let n = (if is_term args > currentTerm n then BecomeFollower (is_term args) n else n);
            reply = \<lparr>isr_term = currentTerm n\<rparr>;
            n = n\<lparr>leaderID := is_leader args\<rparr>;
            (err, sm) = (case sm of
                None \<Rightarrow> (None, None)
              | Some m \<Rightarrow> (let (err, m') = restore (is_data args) m in (err, Some m')))
        in if err \<noteq> None then (reply, n, sm)
           else
             let n = n\<lparr>commitIndex := is_last_index args\<rparr>;
                 n = SetLastApplied (is_last_index args) n;
                 n = n\<lparr>log := TruncateBefore (is_last_index args + 1) (log n)\<rparr>
             in (reply, n, sm))"

definition handleInstallSnapshot ::
  "(bytes \<Rightarrow> 'm \<Rightarrow> go_error option \<times> 'm) \<Rightarrow> bytes \<Rightarrow> node \<times> 'm machine
    \<Rightarrow> (raft_error, bytes) outcome \<times> node \<times> 'm machine" where
  "handleInstallSnapshot restore bs s =
     (case DeserializeInstallSnapshotArgs bs of
        Ok args \<Rightarrow>
          (let (reply, s') = on_install_snapshot restore args s in (Ok (InstallSnapshotReply_Serialize reply), s'))
      | Fail _ \<Rightarrow> (Ok (InstallSnapshotReply_Serialize \<lparr>isr_term = currentTerm (fst s)\<rparr>), s)
      | Panic \<Rightarrow> (Panic, s))"

definition RPCRequestVote :: byte where "RPCRequestVote = 0"
definition RPCAppendEntries :: byte where "RPCAppendEntries = 2"
definition RPCInstallSnapshot :: byte where "RPCInstallSnapshot = 4"

definition handleRPC ::
  "(bytes \<Rightarrow> 'm \<Rightarrow> go_error option \<times> 'm) \<Rightarrow> byte \<Rightarrow> bytes \<Rightarrow> node \<times> 'm machine
    \<Rightarrow> (raft_error, bytes) outcome \<times> node \<times> 'm machine" where
  "handleRPC restore msgType bs s =
     (if msgType = RPCRequestVote then (let (r, n) = handleRequestVote bs (fst s) in (r, n, snd s))
      else if msgType = RPCAppendEntries then (let (r, n) = handleAppendEntries bs (fst s) in (r, n, snd s))
      else if msgType = RPCInstallSnapshot then handleInstallSnapshot restore bs s
      else (Ok [], s))"

section \<open>Elections\<close>

text \<open>A fired election timer, in \<^verbatim>\<open>runFollower\<close> and \<^verbatim>\<open>runCandidate\<close>.\<close>

definition start_election :: "node \<Rightarrow> node" where
  "start_election n = SetVotedFor (n_id n) (BecomeCandidate n)"

definition becomeLeader :: "node \<Rightarrow> node" where
  "becomeLeader n =
     (let n = InitLeaderState (n_peers n) (BecomeLeader n) in
      AppendEntry \<lparr>e_index = LastIndex (log n) + 1, e_term = currentTerm n, e_type = LogEntryNoop,
                   e_command = []\<rparr> n)"

definition vote_request :: "node \<Rightarrow> request_vote_args" where
  "vote_request n = \<lparr>rv_term = currentTerm n, rv_candidate = n_id n,
     rv_last_log_index = LastIndex (log n), rv_last_log_term = LastTerm (log n)\<rparr>"

definition votesNeeded :: "node \<Rightarrow> nat" where
  "votesNeeded n = (length (n_peers n) + 1) div 2 + 1"

text \<open>The goroutine of one vote request: it compares with the term the election started in.\<close>

definition on_vote_reply :: "uint64 \<Rightarrow> request_vote_reply \<Rightarrow> node \<Rightarrow> bool \<times> node" where
  "on_vote_reply term reply n =
     (if rvr_term reply > term then (False, BecomeFollower (rvr_term reply) n)
      else (rvr_granted reply, n))"

text \<open>One receive from \<^verbatim>\<open>voteCh\<close>, with \<open>votes\<close> the count so far; \<^const>\<open>None\<close> ends the election.\<close>

definition count_vote :: "bool \<Rightarrow> nat \<Rightarrow> node \<Rightarrow> nat option \<times> node" where
  "count_vote granted votes n =
     (if role n \<noteq> StateCandidate then (None, n)
      else if granted
      then if votes + 1 \<ge> votesNeeded n then (None, becomeLeader n) else (Some (votes + 1), n)
      else (Some votes, n))"

section \<open>Replication and commitment\<close>

definition replicate_args :: "uint64 \<Rightarrow> node \<Rightarrow> append_entries_args option" where
  "replicate_args p n =
     (if role n \<noteq> StateLeader then None
      else let next = map_get (nextIndex n) p in
        Some \<lparr>ae_term = currentTerm n, ae_leader = n_id n, ae_prev_log_index = next - 1,
              ae_prev_log_term = TermAt (log n) (next - 1), ae_entries = GetFrom (log n) next,
              ae_leader_commit = commitIndex n\<rparr>)"

definition replicated_count :: "node \<Rightarrow> uint64 \<Rightarrow> nat" where
  "replicated_count n idx = 1 + length (filter (\<lambda>(p, m). m \<ge> idx) (matchIndex n))"

definition commit_allowed :: "node \<Rightarrow> uint64 \<Rightarrow> bool" where
  "commit_allowed n idx \<longleftrightarrow>
     TermAt (log n) idx = currentTerm n \<and>
     (n_peers n = [] \<or> replicated_count n idx > (length (n_peers n) + 1) div 2)"

fun find_commit :: "node \<Rightarrow> nat \<Rightarrow> uint64 option" where
  "find_commit n 0 = None"
| "find_commit n (Suc k) =
     (if \<not> log_index (Suc k) > commitIndex n then None
      else if commit_allowed n (log_index (Suc k)) then Some (log_index (Suc k))
      else find_commit n k)"

definition updateCommitIndex :: "node \<Rightarrow> node" where
  "updateCommitIndex n =
     (case find_commit n (unat (LastIndex (log n))) of
        None \<Rightarrow> n
      | Some idx \<Rightarrow> n\<lparr>commitIndex := idx\<rparr>)"

text \<open>The rest of \<^verbatim>\<open>replicateTo\<close>, given the \<open>next\<close> and the number of entries that were sent.\<close>

definition on_append_reply :: "uint64 \<Rightarrow> uint64 \<Rightarrow> nat \<Rightarrow> append_entries_reply \<Rightarrow> node \<Rightarrow> node" where
  "on_append_reply p next count reply n =
     (if aer_term reply > currentTerm n then BecomeFollower (aer_term reply) n
      else if aer_success reply
      then updateCommitIndex
        (SetMatchIndex p (next + word_of_nat count - 1) (SetNextIndex p (next + word_of_nat count) n))
      else if aer_conflict_term reply > 0 then SetNextIndex p (aer_conflict_index reply) n
      else if map_get (nextIndex n) p > 1 then SetNextIndex p (map_get (nextIndex n) p - 1) n
      else n)"

definition snapshot_args :: "bytes \<Rightarrow> node \<Rightarrow> install_snapshot_args" where
  "snapshot_args snap n =
     \<lparr>is_term = currentTerm n, is_leader = n_id n, is_last_index = commitIndex n,
      is_last_term = TermAt (log n) (commitIndex n), is_data = snap\<rparr>"

definition on_snapshot_reply ::
  "uint64 \<Rightarrow> install_snapshot_args \<Rightarrow> install_snapshot_reply \<Rightarrow> node \<Rightarrow> node" where
  "on_snapshot_reply p args reply n =
     (if isr_term reply > currentTerm n then BecomeFollower (isr_term reply) n
      else SetMatchIndex p (is_last_index args) (SetNextIndex p (is_last_index args + 1) n))"

section \<open>Proposals and the apply loop\<close>

definition command_entry :: "command \<Rightarrow> node \<Rightarrow> log_entry" where
  "command_entry cmd n = \<lparr>e_index = LastIndex (log n) + 1, e_term = currentTerm n,
     e_type = LogEntryCommand, e_command = Command_Serialize cmd\<rparr>"

definition appendCommand :: "command \<Rightarrow> node \<Rightarrow> node" where
  "appendCommand cmd n =
     (if role n \<noteq> StateLeader then n
      else updateCommitIndex (AppendEntry (command_entry cmd n) n))"

definition appendCommandAndTrack :: "command \<Rightarrow> node \<Rightarrow> uint64 \<times> node" where
  "appendCommandAndTrack cmd n =
     (if role n \<noteq> StateLeader then (0, n)
      else
        let e = command_entry cmd n;
            n = AppendEntry e n;
            n = n\<lparr>pendingProposals := AList.update (e_index e) cmd (pendingProposals n)\<rparr>
        in (e_index e, updateCommitIndex n))"

definition notifyProposalApplied :: "uint64 \<Rightarrow> go_error option \<Rightarrow> node \<Rightarrow> node" where
  "notifyProposalApplied index err n =
     (case map_of (pendingProposals n) index of
        None \<Rightarrow> n
      | Some cmd \<Rightarrow> n\<lparr>n_results := n_results n @ [(index, cmd, err)],
                      pendingProposals := AList.delete index (pendingProposals n)\<rparr>)"

definition cancelPendingProposals :: "raft_error \<Rightarrow> node \<Rightarrow> node" where
  "cancelPendingProposals err n =
     n\<lparr>n_results := n_results n @ map (\<lambda>(i, c). (i, c, Some (RaftError err))) (pendingProposals n),
       pendingProposals := []\<rparr>"

definition apply_entry ::
  "(command \<Rightarrow> 'm \<Rightarrow> go_error option \<times> 'm) \<Rightarrow> log_entry \<Rightarrow> 'm machine
    \<Rightarrow> (raft_error, apply_result \<times> go_error option) outcome \<times> 'm machine" where
  "apply_entry apply e sm =
     (case sm of
        None \<Rightarrow> (Ok (ApplyResultApplied, None), sm)
      | Some m \<Rightarrow>
          if e_type e \<noteq> LogEntryCommand then (Ok (ApplyResultApplied, None), sm)
          else case DeserializeCommand (e_command e) of
              Fail err \<Rightarrow> (Ok (ApplyResultFatal, Some (RaftError err)), sm)
            | Panic \<Rightarrow> (Panic, sm)
            | Ok cmd \<Rightarrow>
                (let (err, m') = apply cmd m in (Ok (ApplyResultFromError err, err), Some m')))"

lemma unat_step:
  fixes la commit :: uint64
  assumes "la < commit"
  shows "unat (la + 1) = Suc (unat la)"
proof -
  have "unat commit < 18446744073709551616"
    by (rule order_less_le_trans [OF unsigned_less]) simp
  with assms have "unat la + 1 < 18446744073709551616"
    by (simp add: word_less_nat_alt)
  then show ?thesis
    by (simp add: unat_word_ariths)
qed

lemma unat_below_step: "la < commit \<Longrightarrow> unat commit - unat (la + 1) < unat commit - unat (la :: uint64)"
  by (simp add: unat_step word_less_nat_alt)

text \<open>The inner loop of \<^verbatim>\<open>applyLoop\<close>, with \<open>commit\<close> and \<open>la\<close> its local copies.\<close>

function apply_committed ::
  "(command \<Rightarrow> 'm \<Rightarrow> go_error option \<times> 'm) \<Rightarrow> uint64 \<Rightarrow> uint64 \<Rightarrow> node \<times> 'm machine
    \<Rightarrow> (raft_error, unit) outcome \<times> node \<times> 'm machine" where
  "apply_committed apply commit la s =
     (if la < commit
      then case Log_Get (log (fst s)) (la + 1) of
          Fail _ \<Rightarrow> (Ok (), s)
        | Panic \<Rightarrow> (Panic, s)
        | Ok None \<Rightarrow> (Panic, s)
        | Ok (Some e) \<Rightarrow>
            (case apply_entry apply e (snd s) of
               (Fail _, sm) \<Rightarrow> (Ok (), fst s, sm)
             | (Panic, sm) \<Rightarrow> (Panic, fst s, sm)
             | (Ok (result, err), sm) \<Rightarrow>
                 if result = ApplyResultFatal
                 then (Ok (), notifyProposalApplied (la + 1) err (fst s), sm)
                 else apply_committed apply commit (la + 1)
                   (notifyProposalApplied (la + 1) (proposalErrorForApplyResult result err)
                      (SetLastApplied (la + 1) (fst s)), sm))
      else (Ok (), s))"
  by pat_completeness auto
termination
  by (relation "measure (\<lambda>(apply, commit, la, s). unat commit - unat la)") (simp_all add: unat_below_step)

declare apply_committed.simps [simp del]

definition applyLoop_pass ::
  "(command \<Rightarrow> 'm \<Rightarrow> go_error option \<times> 'm) \<Rightarrow> node \<times> 'm machine
    \<Rightarrow> (raft_error, unit) outcome \<times> node \<times> 'm machine" where
  "applyLoop_pass apply s = apply_committed apply (commitIndex (fst s)) (lastApplied (fst s)) s"

end
