(* ===== verification/Raft_Handlers.thy ===== *)
theory Raft_Handlers
  imports Raft_Node
begin

text \<open>
  What the handlers of \<^verbatim>\<open>Raft_Node\<close> do to one node: terms and votes, the log after AppendEntries,
  the commit index, the conflict search and the apply loop.
\<close>

section \<open>Terms and votes\<close>

lemmas state_defs =
  SetVotedFor_def SetCurrentTerm_def persistTermAndVote_def SetLastApplied_def persistLastApplied_def
  BecomeFollower_def BecomeCandidate_def BecomeLeader_def AppendEntry_def SetNextIndex_def
  SetMatchIndex_def

lemma SetVotedFor_simps [simp]:
  "currentTerm (SetVotedFor c n) = currentTerm n" "votedFor (SetVotedFor c n) = c"
  "log (SetVotedFor c n) = log n" "role (SetVotedFor c n) = role n" "n_id (SetVotedFor c n) = n_id n"
  "n_peers (SetVotedFor c n) = n_peers n" "dataDir (SetVotedFor c n) = dataDir n"
  "commitIndex (SetVotedFor c n) = commitIndex n" "lastApplied (SetVotedFor c n) = lastApplied n"
  by (simp_all add: state_defs)

lemma SetLastApplied_simps [simp]:
  "currentTerm (SetLastApplied i n) = currentTerm n" "votedFor (SetLastApplied i n) = votedFor n"
  "log (SetLastApplied i n) = log n" "role (SetLastApplied i n) = role n" "n_id (SetLastApplied i n) = n_id n"
  "n_peers (SetLastApplied i n) = n_peers n" "dataDir (SetLastApplied i n) = dataDir n"
  "commitIndex (SetLastApplied i n) = commitIndex n" "lastApplied (SetLastApplied i n) = i"
  "pendingProposals (SetLastApplied i n) = pendingProposals n" "n_results (SetLastApplied i n) = n_results n"
  by (simp_all add: state_defs)

lemma AppendEntry_simps [simp]:
  "currentTerm (AppendEntry e n) = currentTerm n" "votedFor (AppendEntry e n) = votedFor n"
  "log (AppendEntry e n) = Log_Append e (log n)" "role (AppendEntry e n) = role n"
  "n_id (AppendEntry e n) = n_id n" "n_peers (AppendEntry e n) = n_peers n"
  "commitIndex (AppendEntry e n) = commitIndex n" "lastApplied (AppendEntry e n) = lastApplied n"
  "dataDir (AppendEntry e n) = dataDir n" "term_dat (AppendEntry e n) = term_dat n"
  by (simp_all add: state_defs)

lemma store_received_simps [simp]:
  "currentTerm (store_received i e n) = currentTerm n" "votedFor (store_received i e n) = votedFor n"
  "role (store_received i e n) = role n" "n_id (store_received i e n) = n_id n"
  "n_peers (store_received i e n) = n_peers n" "commitIndex (store_received i e n) = commitIndex n"
  "dataDir (store_received i e n) = dataDir n" "term_dat (store_received i e n) = term_dat n"
  by (simp_all add: store_received_def)

lemma append_received_frame:
  "append_received i es n = (r, n') \<Longrightarrow>
     currentTerm n' = currentTerm n \<and> votedFor n' = votedFor n \<and> role n' = role n \<and> n_id n' = n_id n \<and>
     n_peers n' = n_peers n \<and> commitIndex n' = commitIndex n \<and> dataDir n' = dataDir n \<and>
     term_dat n' = term_dat n"
  by (induction i es n arbitrary: n' rule: append_received.induct) auto

lemma advance_commit_simps [simp]:
  "currentTerm (advance_commit c n) = currentTerm n" "votedFor (advance_commit c n) = votedFor n"
  "role (advance_commit c n) = role n" "n_id (advance_commit c n) = n_id n"
  "n_peers (advance_commit c n) = n_peers n" "log (advance_commit c n) = log n"
  "dataDir (advance_commit c n) = dataDir n" "term_dat (advance_commit c n) = term_dat n"
  by (simp_all add: advance_commit_def)

lemma follow_leader_simps [simp]:
  "log (follow_leader args n) = log n" "n_id (follow_leader args n) = n_id n"
  "n_peers (follow_leader args n) = n_peers n" "commitIndex (follow_leader args n) = commitIndex n"
  "dataDir (follow_leader args n) = dataDir n" "term_dat (follow_leader args n) = term_dat n"
  by (simp_all add: follow_leader_def Let_def BecomeFollower_def)

text \<open>Outside its log and commit index, AppendEntries does what \<^const>\<open>follow_leader\<close> does.\<close>

lemma on_append_entries_frame:
  assumes "on_append_entries args n = (r, n')"
  shows "if ae_term args < currentTerm n then n' = n
         else currentTerm n' = currentTerm (follow_leader args n) \<and>
              votedFor n' = votedFor (follow_leader args n) \<and> role n' = role (follow_leader args n) \<and>
              n_id n' = n_id n \<and> n_peers n' = n_peers n \<and> dataDir n' = dataDir n \<and>
              term_dat n' = term_dat n"
proof -
  obtain r1 n1 where ar: "append_received (ae_prev_log_index args + 1) (ae_entries args)
      (follow_leader args n) = (r1, n1)"
    by fastforce
  show ?thesis
    using assms append_received_frame [OF ar]
    by (cases r1) (auto simp: on_append_entries_def Let_def ar split: if_splits)
qed

lemma on_request_vote_term:
  "on_request_vote args n = (reply, n') \<Longrightarrow>
     currentTerm n' = max (currentTerm n) (rv_term args) \<and> rvr_term reply = currentTerm n'"
  by (auto simp: on_request_vote_def Let_def BecomeFollower_def max_def split: if_splits)

lemma on_append_entries_term:
  assumes "on_append_entries args n = (r, n')"
  shows "currentTerm n' = max (currentTerm n) (ae_term args)"
  using on_append_entries_frame [OF assms]
  by (auto simp: follow_leader_def Let_def BecomeFollower_def max_def split: if_splits)

lemma on_request_vote_granted:
  assumes "on_request_vote args n = (reply, n')" "rvr_granted reply"
  shows "currentTerm n' = rv_term args" "votedFor n' = rv_candidate args"
    "currentTerm n = rv_term args \<Longrightarrow> votedFor n \<noteq> 0 \<Longrightarrow> votedFor n = rv_candidate args"
    "log_up_to_date args n"
    "dataDir n \<noteq> [] \<Longrightarrow> term_dat n' = Some (put_le 8 (rv_term args) @ put_le 8 (rv_candidate args))"
  using assms
  by (auto simp: on_request_vote_def Let_def state_defs log_up_to_date_def split: if_splits)

section \<open>The log after AppendEntries\<close>

text \<open>
  Reference: entries are compared position by position with the stored ones; the first position
  whose term differs, or the end of the log, is where the rest of the received entries goes.
\<close>

fun merge_entries :: "log_entry option list \<Rightarrow> nat \<Rightarrow> log_entry list \<Rightarrow> log_entry option list" where
  "merge_entries old k [] = old"
| "merge_entries old k (e # es) =
     (if k < length old \<and> entry_term (old ! k) = e_term e then merge_entries old (Suc k) es
      else take k old @ map Some (e # es))"

lemma LastIndex_unat:
  "l_entries l \<noteq> [] \<Longrightarrow> length (l_entries l) \<le> 2 ^ 64 \<Longrightarrow> unat (LastIndex l) = length (l_entries l) - 1"
proof -
  assume a: "l_entries l \<noteq> []" "length (l_entries l) \<le> 2 ^ 64"
  then obtain k where k: "length (l_entries l) = Suc k" "k < 2 ^ 64"
    by (cases "length (l_entries l)") auto
  then have "LastIndex l = log_index k"
    by (simp add: LastIndex_def log_index_def)
  with k show "unat (LastIndex l) = length (l_entries l) - 1"
    by (simp add: unat_log_index)
qed

lemma store_received_entries:
  assumes "l_entries (log n) \<noteq> []" "length (l_entries (log n)) < 2 ^ 64" "0 < k"
    "k \<le> length (l_entries (log n))"
  shows "l_entries (log (store_received (log_index k) e n)) =
    (if k < length (l_entries (log n)) \<and> entry_term (l_entries (log n) ! k) = e_term e
     then l_entries (log n) else take k (l_entries (log n)) @ [Some e])"
proof -
  have k: "unat (log_index k) = k"
    using assms by (simp add: unat_log_index)
  have "log_index k \<le> LastIndex (log n) \<longleftrightarrow> k < length (l_entries (log n))"
    using assms by (auto simp: word_le_nat_alt k LastIndex_unat)
  then show ?thesis
    using assms by (auto simp: store_received_def TermAt_def TruncateFrom_def k)
qed

lemma merge_appended: "merge_entries (xs @ ys) (length xs + length ys) es = xs @ ys @ map Some es"
  by (cases es) simp_all

lemma append_received_merge:
  assumes "l_entries (log n) \<noteq> []" "0 < k" "k \<le> length (l_entries (log n))"
    "length (l_entries (log n)) + length es < 2 ^ 64"
  shows "\<exists>n'. append_received (log_index k) (map Some es) n = (Ok (), n') \<and>
    l_entries (log n') = merge_entries (l_entries (log n)) k es"
  using assms
proof (induction es arbitrary: k n)
  case (Cons e es)
  let ?n1 = "store_received (log_index k) e n"
  have n1: "l_entries (log ?n1) =
    (if k < length (l_entries (log n)) \<and> entry_term (l_entries (log n) ! k) = e_term e
     then l_entries (log n) else take k (l_entries (log n)) @ [Some e])"
    using Cons.prems by (intro store_received_entries) auto
  have "\<exists>n'. append_received (log_index (Suc k)) (map Some es) ?n1 = (Ok (), n') \<and>
      l_entries (log n') = merge_entries (l_entries (log ?n1)) (Suc k) es"
    using Cons.prems by (intro Cons.IH) (auto simp: n1 split: if_splits)
  moreover have "merge_entries (take k (l_entries (log n)) @ [Some e]) (Suc k) es
      = take k (l_entries (log n)) @ Some e # map Some es"
    using Cons.prems merge_appended [of "take k (l_entries (log n))" "[Some e]" es] by simp
  ultimately show ?case
    by (auto simp: n1 log_index_Suc)
qed simp

lemma merge_length: "k \<le> length old \<Longrightarrow> k + length es \<le> length (merge_entries old k es)"
  by (induction old k es rule: merge_entries.induct) (auto simp: min_def)

lemma merge_length_le: "k \<le> length old \<Longrightarrow> length (merge_entries old k es) \<le> length old + length es"
  by (induction old k es rule: merge_entries.induct) (auto simp: min_def)

lemma merge_prefix: "j \<le> k \<Longrightarrow> k \<le> length old \<Longrightarrow> take j (merge_entries old k es) = take j old"
  by (induction old k es rule: merge_entries.induct) (auto simp: min_def)

text \<open>As long as the stored terms agree below \<open>c\<close>, nothing below \<open>c\<close> is touched.\<close>

lemma merge_agreeing_prefix:
  assumes "k \<le> length old" "c \<le> length old"
    and "\<And>j. j < length es \<Longrightarrow> k + j < c \<Longrightarrow> entry_term (old ! (k + j)) = e_term (es ! j)"
  shows "c \<le> length (merge_entries old k es) \<and> take c (merge_entries old k es) = take c old"
  using assms
proof (induction old k es rule: merge_entries.induct)
  case (2 old k e es)
  have tail: "j < length es \<Longrightarrow> Suc k + j < c \<Longrightarrow> entry_term (old ! (Suc k + j)) = e_term (es ! j)" for j
    using 2(4) [of "Suc j"] by simp
  show ?case
  proof (cases "k < length old \<and> entry_term (old ! k) = e_term e")
    case True
    then show ?thesis using 2 tail by simp
  next
    case False
    then have "c \<le> k"
      using 2(3) 2(4) [of 0] by fastforce
    with False show ?thesis using 2(2) by (auto simp: min_def)
  qed
qed simp

lemma merge_terms:
  "k \<le> length old \<Longrightarrow> i < length es \<Longrightarrow> entry_term (merge_entries old k es ! (k + i)) = e_term (es ! i)"
proof (induction old k es arbitrary: i rule: merge_entries.induct)
  case (2 old k e es)
  show ?case
  proof (cases "k < length old \<and> entry_term (old ! k) = e_term e")
    case True
    then have "merge_entries old (Suc k) es ! k = old ! k"
      using merge_prefix [of "Suc k" "Suc k" old es] nth_take [of k "Suc k"] by (metis Suc_leI lessI order_refl)
    with True 2 show ?thesis
      by (cases i) auto
  next
    case False
    with 2(2,3) show ?thesis
      by (auto simp: nth_append entry_term_def nth_Cons' min_def)
  qed
qed simp

lemma merge_no_conflict:
  "k \<le> length old \<Longrightarrow> (\<And>j. j < length es \<Longrightarrow> k + j < length old \<Longrightarrow> entry_term (old ! (k + j)) = e_term (es ! j)) \<Longrightarrow>
     merge_entries old k es = old @ map Some (drop (length old - k) es)"
proof (induction old k es rule: merge_entries.induct)
  case (2 old k e es)
  have tail: "j < length es \<Longrightarrow> Suc k + j < length old \<Longrightarrow> entry_term (old ! (Suc k + j)) = e_term (es ! j)" for j
    using 2(3) [of "Suc j"] by simp
  show ?case
  proof (cases "k < length old")
    case True
    then have "length old - k = Suc (length old - Suc k)" by simp
    with True 2 tail show ?thesis using 2(3) [of 0] by simp
  qed (use 2(2) in simp)
qed simp

lemma merge_idem: "k \<le> length old \<Longrightarrow> merge_entries (merge_entries old k es) k es = merge_entries old k es"
proof -
  assume k: "k \<le> length old"
  let ?new = "merge_entries old k es"
  have len: "k + length es \<le> length ?new"
    by (rule merge_length [OF k])
  have "merge_entries ?new k es = ?new @ map Some (drop (length ?new - k) es)"
    using len by (intro merge_no_conflict) (simp_all add: merge_terms [OF k])
  then show ?thesis
    using len by simp
qed

definition prev_matches :: "append_entries_args \<Rightarrow> node \<Rightarrow> bool" where
  "prev_matches args n \<longleftrightarrow> ae_prev_log_index args = 0 \<or>
     unat (ae_prev_log_index args) < length (l_entries (log n)) \<and>
     TermAt (log n) (ae_prev_log_index args) = ae_prev_log_term args"

lemma on_append_entries_accepts:
  assumes "currentTerm n \<le> ae_term args" "prev_matches args n" "ae_entries args = map Some es"
    "l_entries (log n) \<noteq> []" "length (l_entries (log n)) + length es < 2 ^ 64"
  shows "\<exists>n'. on_append_entries args n =
      (Ok \<lparr>aer_term = ae_term args, aer_success = True, aer_conflict_term = 0, aer_conflict_index = 0\<rparr>, n') \<and>
    l_entries (log n') = merge_entries (l_entries (log n)) (Suc (unat (ae_prev_log_index args))) es \<and>
    commitIndex n' = (if commitIndex n < ae_leader_commit args
      then min (LastIndex (log n')) (ae_leader_commit args) else commitIndex n)"
proof -
  let ?p = "ae_prev_log_index args" and ?n = "follow_leader args n"
  have p: "unat ?p < length (l_entries (log n))"
    using assms(2,4) by (auto simp: prev_matches_def)
  have le: "?p \<le> LastIndex (log n)"
    using p assms(4,5) by (simp add: word_le_nat_alt LastIndex_unat)
  have "\<exists>n'. append_received (log_index (Suc (unat ?p))) (map Some es) ?n = (Ok (), n') \<and>
      l_entries (log n') = merge_entries (l_entries (log ?n)) (Suc (unat ?p)) es"
    using p assms by (intro append_received_merge) auto
  then obtain n1 where n1: "append_received (?p + 1) (map Some es) ?n = (Ok (), n1)"
    "l_entries (log n1) = merge_entries (l_entries (log n)) (Suc (unat ?p)) es"
    by (auto simp: log_index_Suc)
  have "\<not> (0 < ?p \<and> TermAt (log n) ?p \<noteq> ae_prev_log_term args)"
    using assms(2) by (auto simp: prev_matches_def)
  moreover have "commitIndex n1 = commitIndex n"
    using append_received_frame [OF n1(1)] by simp
  ultimately show ?thesis
    using assms(1,3) le n1
    by (auto simp: on_append_entries_def Let_def advance_commit_def min_def)
qed

text \<open>The conflict index is the first index of the run of the conflicting term.\<close>

lemma find_conflict_run:
  "0 < k \<Longrightarrow> TermAt l (log_index k) = ct \<Longrightarrow>
     \<exists>j. find_conflict l ct k = log_index j \<and> 0 < j \<and> j \<le> k \<and>
       (\<forall>i. j \<le> i \<longrightarrow> i \<le> k \<longrightarrow> TermAt l (log_index i) = ct) \<and>
       (j = 1 \<or> TermAt l (log_index (j - 1)) \<noteq> ct)"
proof (induction k)
  case (Suc k)
  show ?case
  proof (cases "k = 0")
    case True
    with Suc.prems show ?thesis
      by (intro exI [of _ 1]) (auto simp: log_index_def le_Suc_eq)
  next
    case k: False
    show ?thesis
    proof (cases "TermAt l (log_index k) = ct")
      case True
      with Suc k obtain j where j: "find_conflict l ct k = log_index j" "0 < j" "j \<le> k"
        "\<forall>i. j \<le> i \<longrightarrow> i \<le> k \<longrightarrow> TermAt l (log_index i) = ct"
        "j = 1 \<or> TermAt l (log_index (j - 1)) \<noteq> ct"
        by auto
      with k Suc.prems show ?thesis
        by (intro exI [of _ j]) (auto simp: le_Suc_eq)
    next
      case False
      then have "find_conflict l ct k = log_index (Suc k)"
        using k by (cases k) (simp_all add: log_index_Suc)
      with False k Suc.prems show ?thesis
        by (intro exI [of _ "Suc k"]) (auto simp: le_Suc_eq)
    qed
  qed
qed simp

text \<open>The two ways in which a current message is rejected.\<close>

lemma rejected_reply:
  assumes "on_append_entries args n = (Ok reply, n')" "\<not> aer_success reply"
  shows "ae_term args < currentTerm n \<or>
    0 < ae_prev_log_index args \<and> aer_term reply = ae_term args \<and>
      (aer_conflict_term reply = 0 \<or>
       aer_conflict_index reply = find_conflict (log n) (TermAt (log n) (ae_prev_log_index args)) (unat (ae_prev_log_index args)) )"
proof -
  obtain r1 n1 where "append_received (ae_prev_log_index args + 1) (ae_entries args) (follow_leader args n) = (r1, n1)"
    by fastforce
  then show ?thesis
    using assms by (cases r1) (auto simp: on_append_entries_def Let_def split: if_splits)
qed

lemma word_prev:
  fixes x :: uint64
  assumes "0 < x" "0 < x - 1"
  shows "x - 1 < x" "1 < x" "unat (x - 1) < unat x"
proof -
  have "unat (x - 1) = unat x - 1"
    using assms(1) by (intro unat_minus_one) auto
  then show "x - 1 < x" "1 < x" "unat (x - 1) < unat x"
    using assms by (auto simp: word_less_nat_alt)
qed

section \<open>Commitment\<close>

lemma log_index_mono: "j \<le> k \<Longrightarrow> k < 2 ^ 64 \<Longrightarrow> log_index j \<le> log_index k"
  by (simp add: word_le_nat_alt unat_log_index)

lemma find_commit_Some:
  "find_commit n k = Some i \<Longrightarrow>
     commitIndex n < i \<and> commit_allowed n i \<and>
     (\<exists>j \<le> k. i = log_index j \<and> (\<forall>j'. j < j' \<longrightarrow> j' \<le> k \<longrightarrow> \<not> commit_allowed n (log_index j')))"
proof (induction k)
  case (Suc k)
  show ?case
  proof (cases "commit_allowed n (log_index (Suc k))")
    case True
    with Suc.prems show ?thesis
      by (auto split: if_splits intro!: exI [of _ "Suc k"])
  next
    case False
    with Suc obtain j where "commitIndex n < i" "commit_allowed n i" "j \<le> k" "i = log_index j"
      "\<forall>j'. j < j' \<longrightarrow> j' \<le> k \<longrightarrow> \<not> commit_allowed n (log_index j')"
      by (auto split: if_splits)
    with False show ?thesis
      by (intro conjI exI [of _ j]) (auto simp: le_Suc_eq)
  qed
qed simp

lemma find_commit_None:
  "find_commit n k = None \<Longrightarrow> k < 2 ^ 64 \<Longrightarrow> j \<le> k \<Longrightarrow> commitIndex n < log_index j \<Longrightarrow>
     \<not> commit_allowed n (log_index j)"
proof (induction k)
  case 0
  then show ?case by (simp add: log_index_def)
next
  case (Suc k)
  have "commitIndex n < log_index (Suc k)"
    using Suc.prems log_index_mono [of j "Suc k"] by (meson less_le_trans)
  with Suc show ?case
    by (cases "j = Suc k") (auto split: if_splits)
qed

lemma uint64_less [simp]: "unat (w :: uint64) < 18446744073709551616"
  by (rule order_less_le_trans [OF unsigned_less]) simp

lemma updateCommitIndex_simps [simp]:
  "log (updateCommitIndex n) = log n" "currentTerm (updateCommitIndex n) = currentTerm n"
  "votedFor (updateCommitIndex n) = votedFor n" "role (updateCommitIndex n) = role n"
  "n_id (updateCommitIndex n) = n_id n" "n_peers (updateCommitIndex n) = n_peers n"
  "dataDir (updateCommitIndex n) = dataDir n" "term_dat (updateCommitIndex n) = term_dat n"
  by (simp_all add: updateCommitIndex_def split: option.split)

lemma updateCommitIndex_greatest:
  "if commitIndex (updateCommitIndex n) = commitIndex n
   then \<forall>i. commitIndex n < i \<longrightarrow> i \<le> LastIndex (log n) \<longrightarrow> \<not> commit_allowed n i
   else commitIndex n < commitIndex (updateCommitIndex n) \<and>
        commitIndex (updateCommitIndex n) \<le> LastIndex (log n) \<and>
        commit_allowed n (commitIndex (updateCommitIndex n)) \<and>
        (\<forall>i. commitIndex (updateCommitIndex n) < i \<longrightarrow> i \<le> LastIndex (log n) \<longrightarrow> \<not> commit_allowed n i)"
proof (cases "find_commit n (unat (LastIndex (log n)))")
  case None
  have "\<not> commit_allowed n i" if "commitIndex n < i" "i \<le> LastIndex (log n)" for i
    using find_commit_None [OF None, of "unat i"] that by (simp add: word_le_nat_alt)
  with None show ?thesis
    by (simp add: updateCommitIndex_def)
next
  case (Some i)
  then obtain j where j: "commitIndex n < i" "commit_allowed n i" "j \<le> unat (LastIndex (log n))" "i = log_index j"
    "\<And>j'. j < j' \<Longrightarrow> j' \<le> unat (LastIndex (log n)) \<Longrightarrow> \<not> commit_allowed n (log_index j')"
    by (auto dest: find_commit_Some)
  have uj: "unat i = j"
    using j(3,4) le_less_trans [OF j(3) uint64_less] by (simp add: unat_log_index)
  have "\<not> commit_allowed n i'" if "i < i'" "i' \<le> LastIndex (log n)" for i'
    using j(5) [of "unat i'"] that uj by (simp add: word_le_nat_alt word_less_nat_alt)
  with Some j uj show ?thesis
    by (auto simp: updateCommitIndex_def word_le_nat_alt)
qed

section \<open>The apply loop\<close>

text \<open>Reference: run the entries in order; the first fatal one ends the run uncounted.\<close>

fun run_entries ::
  "(command \<Rightarrow> 'm \<Rightarrow> go_error option \<times> 'm) \<Rightarrow> log_entry list \<Rightarrow> 'm machine \<Rightarrow> nat \<times> 'm machine" where
  "run_entries apply [] sm = (0, sm)"
| "run_entries apply (e # es) sm =
     (case apply_entry apply e sm of
        (Ok (result, err), sm') \<Rightarrow>
          if result = ApplyResultFatal then (0, sm')
          else (let (k, sm'') = run_entries apply es sm' in (Suc k, sm''))
      | (_, sm') \<Rightarrow> (0, sm'))"

lemma run_entries_le: "fst (run_entries f es sm) \<le> length es"
  by (induction f es sm rule: run_entries.induct)
    (auto split: prod.splits outcome.splits)

lemma and_then_no_panic:
  "fst m \<noteq> Panic \<Longrightarrow> (\<And>a s. fst (f a s) \<noteq> Panic) \<Longrightarrow> fst (and_then m f) \<noteq> Panic"
  by (cases "(m, f)" rule: and_then.cases) auto

lemma corrupted_no_panic [simp]: "fst (corrupted m) = Panic \<longleftrightarrow> fst m = Panic"
  unfolding corrupted_def by (cases m; rename_tac x y; case_tac x) auto

lemma readers_no_panic [simp]:
  "fst (read_full k r) \<noteq> Panic" "fst (read_byte r) \<noteq> Panic"
  by (simp_all add: read_full_def read_byte_def split: list.split)

lemma read_le_no_panic [simp]: "fst (read_le k r) \<noteq> Panic"
  unfolding read_le_def by (rule and_then_no_panic) simp_all

lemma field_readers_no_panic [simp]:
  "fst (readString r) \<noteq> Panic" "fst (readBytes r) \<noteq> Panic"
  unfolding readString_def readBytes_def by (rule and_then_no_panic, simp_all)+

lemma readOptionalBytes_no_panic [simp]: "fst (readOptionalBytes r) \<noteq> Panic"
  using field_readers_no_panic(2) [of r]
  by (cases "readBytes r"; cases "fst (readBytes r)") (auto simp: readOptionalBytes_def)

lemma DeserializeCommand_no_panic [simp]: "DeserializeCommand bs \<noteq> Panic"
  unfolding DeserializeCommand_def by (simp, intro impI and_then_no_panic) simp_all

lemma apply_entry_Ok: "\<exists>result err sm'. apply_entry f e sm = (Ok (result, err), sm')"
  by (auto simp: apply_entry_def split: option.split outcome.split prod.split)

lemma notifyProposalApplied_simps [simp]:
  "log (notifyProposalApplied i err n) = log n"
  "lastApplied (notifyProposalApplied i err n) = lastApplied n"
  "commitIndex (notifyProposalApplied i err n) = commitIndex n"
  by (simp_all add: notifyProposalApplied_def split: option.split)

definition committed_segment :: "node \<Rightarrow> nat \<Rightarrow> nat \<Rightarrow> log_entry list" where
  "committed_segment n a c = map the (take (c - a) (drop (Suc a) (l_entries (log n))))"

lemma committed_segment_Cons:
  "a < c \<Longrightarrow> c < length (l_entries (log n)) \<Longrightarrow>
     committed_segment n a c = the (l_entries (log n) ! Suc a) # committed_segment n (Suc a) c"
  by (simp add: committed_segment_def Cons_nth_drop_Suc [symmetric] take_Cons' Suc_diff_Suc [symmetric])

lemma apply_committed_run:
  assumes "la \<le> commit" "lastApplied n = la" "unat commit < length (l_entries (log n))"
    "None \<notin> set (l_entries (log n))"
  shows "\<exists>n'. apply_committed f commit la (n, sm)
        = (Ok (), n', snd (run_entries f (committed_segment n (unat la) (unat commit)) sm)) \<and>
      log n' = log n \<and> commitIndex n' = commitIndex n \<and>
      unat (lastApplied n') = unat la + fst (run_entries f (committed_segment n (unat la) (unat commit)) sm)"
  using assms
proof (induction "unat commit - unat la" arbitrary: la n sm)
  case 0
  then have "la = commit"
    by (simp add: word_le_nat_alt word_unat_eq_iff)
  with 0 show ?case
    by (subst apply_committed.simps) (simp add: committed_segment_def)
next
  case (Suc d)
  have less: "la < commit"
    using Suc.hyps(2) by (simp add: word_less_nat_alt)
  note step = unat_step [OF less]
  define e where "e = the (l_entries (log n) ! unat (la + 1))"
  have idx: "unat (la + 1) < length (l_entries (log n))"
    using less Suc.prems(3) step by (simp add: word_less_nat_alt)
  then have get: "Log_Get (log n) (la + 1) = Ok (Some e)"
    using Suc.prems(4) nth_mem [OF idx] by (cases "l_entries (log n) ! unat (la + 1)") (auto simp: Log_Get_def e_def)
  obtain result err sm1 where ap: "apply_entry f e sm = (Ok (result, err), sm1)"
    using apply_entry_Ok by blast
  have seg: "committed_segment n (unat la) (unat commit) = e # committed_segment n (unat (la + 1)) (unat commit)"
    using less Suc.prems(3) step by (subst committed_segment_Cons) (simp_all add: word_less_nat_alt e_def)
  show ?case
  proof (cases "result = ApplyResultFatal")
    case True
    then show ?thesis
      using Suc.prems(2) by (subst apply_committed.simps) (simp add: less get ap seg)
  next
    case False
    let ?n1 = "notifyProposalApplied (la + 1) (proposalErrorForApplyResult result err) (SetLastApplied (la + 1) n)"
    have "la + 1 \<le> commit"
      using less by (simp add: word_le_nat_alt word_less_nat_alt step)
    moreover have "d = unat commit - unat (la + 1)"
      using Suc.hyps(2) step by simp
    moreover have "committed_segment ?n1 = committed_segment n"
      by (simp add: committed_segment_def fun_eq_iff)
    moreover obtain k sm2 where
      "run_entries f (committed_segment n (unat (la + 1)) (unat commit)) sm1 = (k, sm2)"
      by fastforce
    moreover have "apply_committed f commit la (n, sm) = apply_committed f commit (la + 1) (?n1, sm1)"
      using False by (subst apply_committed.simps) (simp add: less get ap)
    ultimately show ?thesis
      using False Suc.hyps(1) [of "la + 1" ?n1 sm1] Suc.prems(3,4) by (auto simp: ap seg step)
  qed
qed

end
