(* ===== verification/Election_Spec.thy ===== *)
theory Election_Spec
  imports Main
begin

text \<open>
  An abstract voting protocol, the contract of leader election: voters with a term, a vote, a role
  and a durable record, and two histories, the ballots cast and the elections won. The steps say
  when a vote may be cast, withdrawn, counted and recovered. The locale \<open>quorum_system\<close> is what the
  safety argument needs of the winning sets.
\<close>

datatype vrole = Follower | Candidate | Leader

record ('n, 't) voter =
  vt_term :: 't
  vt_vote :: "'n option"
  vt_role :: vrole
  vt_saved :: "('t \<times> 'n option) option"

record ('n, 't) ledger =
  voters :: "'n \<Rightarrow> ('n, 't) voter"
  ballots :: "('t \<times> 'n \<times> 'n) set"
  won :: "('t \<times> 'n) set"

definition save_vote :: "('n, 't) voter \<Rightarrow> ('n, 't) voter" where
  "save_vote s = s\<lparr>vt_saved := map_option (\<lambda>_. (vt_term s, vt_vote s)) (vt_saved s)\<rparr>"

text \<open>
  A vote is withdrawn (\<open>concede\<close>) only by a candidate whose term already has a winner; a voter
  without a durable record does not recover.
\<close>

inductive vote_step :: "'n set set \<Rightarrow> ('n, 't::linorder) ledger \<Rightarrow> ('n, 't) ledger \<Rightarrow> bool"
  for Q :: "'n set set" where
  advance: "vt_term (voters s v) < t \<Longrightarrow>
    vote_step Q s (s\<lparr>voters := (voters s)(v := (voters s v)\<lparr>vt_term := t, vt_vote := None, vt_role := Follower\<rparr>)\<rparr>)"
| concede: "vt_role (voters s v) = Candidate \<Longrightarrow> (vt_term (voters s v), l) \<in> won s \<Longrightarrow>
    vote_step Q s (s\<lparr>voters := (voters s)(v := (voters s v)\<lparr>vt_vote := None, vt_role := Follower\<rparr>)\<rparr>)"
| cast: "vt_vote (voters s v) \<in> {None, Some w} \<Longrightarrow>
    vote_step Q s (s\<lparr>voters := (voters s)(v := save_vote ((voters s v)\<lparr>vt_vote := Some w\<rparr>)),
      ballots := insert (vt_term (voters s v), v, w) (ballots s)\<rparr>)"
| stand: "vt_role (voters s v) \<noteq> Leader \<Longrightarrow> vt_term (voters s v) < t \<Longrightarrow>
    vote_step Q s (s\<lparr>voters := (voters s)(v := save_vote
        ((voters s v)\<lparr>vt_term := t, vt_vote := Some v, vt_role := Candidate\<rparr>)),
      ballots := insert (t, v, v) (ballots s)\<rparr>)"
| win: "vt_role (voters s v) = Candidate \<Longrightarrow> q \<in> Q \<Longrightarrow>
    (\<And>p. p \<in> q \<Longrightarrow> (vt_term (voters s v), p, v) \<in> ballots s) \<Longrightarrow>
    vote_step Q s (s\<lparr>voters := (voters s)(v := (voters s v)\<lparr>vt_role := Leader\<rparr>),
      won := insert (vt_term (voters s v), v) (won s)\<rparr>)"
| recover: "vt_saved (voters s v) = Some (t, w) \<Longrightarrow>
    vote_step Q s (s\<lparr>voters := (voters s)(v := (voters s v)\<lparr>vt_term := t, vt_vote := w, vt_role := Follower\<rparr>)\<rparr>)"

definition fresh_ledger :: "('n, 't) ledger \<Rightarrow> bool" where
  "fresh_ledger s \<longleftrightarrow> ballots s = {} \<and> won s = {} \<and> (\<forall>v. vt_role (voters s v) = Follower)"

section \<open>Invariant\<close>

text \<open>A voter is locked when everything it can still do in term \<open>t\<close> favours \<open>l\<close>.\<close>

definition locked :: "('n, 't) ledger \<Rightarrow> 't \<Rightarrow> 'n \<Rightarrow> 'n \<Rightarrow> bool" where
  "locked s t l p \<longleftrightarrow> (t, p, l) \<in> ballots s \<and> (\<forall>w. (t, p, w) \<in> ballots s \<longrightarrow> w = l) \<and>
     (vt_term (voters s p) = t \<longrightarrow> vt_vote (voters s p) = Some l \<and> vt_role (voters s p) \<noteq> Candidate) \<and>
     (\<forall>x. vt_saved (voters s p) = Some (t, x) \<longrightarrow> x = Some l)"

definition single_vote :: "('n, 't) ledger \<Rightarrow> 't \<Rightarrow> 'n \<Rightarrow> 'n \<Rightarrow> bool" where
  "single_vote s t v w \<longleftrightarrow> (\<forall>w'. (t, v, w') \<in> ballots s \<longrightarrow> w' = w) \<and>
     (vt_term (voters s v) = t \<longrightarrow> vt_vote (voters s v) = Some w) \<and>
     (\<forall>x. vt_saved (voters s v) = Some (t, x) \<longrightarrow> x = Some w)"

definition ballots_past :: "('n, 't::linorder) ledger \<Rightarrow> bool" where
  "ballots_past s \<longleftrightarrow> (\<forall>t v w. (t, v, w) \<in> ballots s \<longrightarrow> t \<le> vt_term (voters s v) \<and>
     (\<forall>u x. vt_saved (voters s v) = Some (u, x) \<longrightarrow> t \<le> u))"

definition unwon :: "('n, 't) ledger \<Rightarrow> 't \<Rightarrow> bool" where
  "unwon s t \<longleftrightarrow> (\<forall>l. (t, l) \<notin> won s)"

definition open_single :: "('n, 't) ledger \<Rightarrow> bool" where
  "open_single s \<longleftrightarrow> (\<forall>t v w. (t, v, w) \<in> ballots s \<longrightarrow> unwon s t \<longrightarrow> single_vote s t v w)"

definition won_locked :: "'n set set \<Rightarrow> ('n, 't) ledger \<Rightarrow> bool" where
  "won_locked Q s \<longleftrightarrow> (\<forall>t l. (t, l) \<in> won s \<longrightarrow> (\<exists>q \<in> Q. \<forall>p \<in> q. locked s t l p))"

definition roles_ok :: "('n, 't) ledger \<Rightarrow> bool" where
  "roles_ok s \<longleftrightarrow> (\<forall>v. (vt_role (voters s v) = Candidate \<longrightarrow> vt_vote (voters s v) = Some v) \<and>
     (vt_role (voters s v) = Leader \<longrightarrow> (vt_term (voters s v), v) \<in> won s))"

definition ledger_inv :: "'n set set \<Rightarrow> ('n, 't::linorder) ledger \<Rightarrow> bool" where
  "ledger_inv Q s \<longleftrightarrow> ballots_past s \<and> open_single s \<and> won_locked Q s \<and> roles_ok s"

lemmas ledger_defs = ballots_past_def open_single_def won_locked_def roles_ok_def single_vote_def
  locked_def save_vote_def

lemma fresh_ledger_inv: "fresh_ledger s \<Longrightarrow> ledger_inv Q s"
  by (auto simp: fresh_ledger_def ledger_inv_def ledger_defs)

lemma roles_ok_step:
  assumes "vote_step Q s s'" "roles_ok s"
  shows "roles_ok s'"
  using assms by cases (auto simp: roles_ok_def save_vote_def)

lemma ballots_pastD:
  assumes "ballots_past s" "(t, v, w) \<in> ballots s"
  shows "t \<le> vt_term (voters s v)" "vt_saved (voters s v) = Some (u, x) \<Longrightarrow> t \<le> u"
  using assms unfolding ballots_past_def by blast+

lemma ballots_past_step:
  assumes "vote_step Q s s'" "ballots_past s"
  shows "ballots_past s'"
  using assms(1)
proof cases
  case (advance v t)
  then show ?thesis
    using assms(2) by (fastforce simp: ballots_past_def)
next
  case (stand v t)
  then show ?thesis
    using assms(2) by (fastforce simp: ballots_past_def save_vote_def)
qed (use assms(2) in \<open>auto simp: ballots_past_def save_vote_def\<close>)

lemma unwon_simps [simp]:
  "unwon (s\<lparr>voters := f\<rparr>) t = unwon s t" "unwon (s\<lparr>voters := f, ballots := b\<rparr>) t = unwon s t"
  "unwon (s\<lparr>voters := f, won := insert (u, v) (won s)\<rparr>) t \<longleftrightarrow> t \<noteq> u \<and> unwon s t"
  by (auto simp: unwon_def)

lemma open_singleD:
  assumes "open_single s" "(t, v, w) \<in> ballots s" "unwon s t"
  shows "(t, v, w') \<in> ballots s \<Longrightarrow> w' = w" "vt_term (voters s v) = t \<Longrightarrow> vt_vote (voters s v) = Some w"
    "vt_saved (voters s v) = Some (t, x) \<Longrightarrow> x = Some w"
  using assms unfolding open_single_def single_vote_def by blast+

lemma open_singleI:
  assumes "\<And>t v w w'. (t, v, w) \<in> ballots s \<Longrightarrow> unwon s t \<Longrightarrow> (t, v, w') \<in> ballots s \<Longrightarrow> w' = w"
    "\<And>v w. (vt_term (voters s v), v, w) \<in> ballots s \<Longrightarrow> unwon s (vt_term (voters s v)) \<Longrightarrow>
       vt_vote (voters s v) = Some w"
    "\<And>t v w x. vt_saved (voters s v) = Some (t, x) \<Longrightarrow> (t, v, w) \<in> ballots s \<Longrightarrow> unwon s t \<Longrightarrow> x = Some w"
  shows "open_single s"
  using assms unfolding open_single_def single_vote_def by blast

lemma open_single_step:
  assumes "vote_step Q s s'" "ballots_past s" "open_single s"
  shows "open_single s'"
  using assms(1)
proof cases
  case (advance v t)
  have "(t, v, w) \<notin> ballots s" for w
    using advance(2) ballots_pastD(1) [OF assms(2), of t v w] by auto
  then show ?thesis
    unfolding advance(1) by (intro open_singleI) (auto dest: open_singleD [OF assms(3)] split: if_splits)
next
  case (concede v l)
  then have "\<not> unwon s (vt_term (voters s v))"
    by (auto simp: unwon_def)
  then show ?thesis
    unfolding concede(1) by (intro open_singleI) (auto dest: open_singleD [OF assms(3)] split: if_splits)
next
  case (cast v w)
  have "w' = w" if "(vt_term (voters s v), v, w') \<in> ballots s" "unwon s (vt_term (voters s v))" for w'
    using cast(2) open_singleD(2) [OF assms(3) that] by auto
  then show ?thesis
    unfolding cast(1)
    by (intro open_singleI) (auto simp: save_vote_def dest: open_singleD [OF assms(3)] split: if_splits)
next
  case (stand v t)
  have "(t, v, w) \<notin> ballots s" for w
    using stand(3) ballots_pastD(1) [OF assms(2), of t v w] by auto
  then show ?thesis
    unfolding stand(1)
    by (intro open_singleI) (auto simp: save_vote_def dest: open_singleD [OF assms(3)] split: if_splits)
next
  case (win v q)
  then show ?thesis
    unfolding win(1) by (intro open_singleI) (auto dest: open_singleD [OF assms(3)] split: if_splits)
next
  case (recover v t w)
  then show ?thesis
    unfolding recover(1) by (intro open_singleI) (auto dest: open_singleD [OF assms(3)] split: if_splits)
qed

lemma lockedI:
  assumes "(t, p, l) \<in> ballots s" "\<And>w. (t, p, w) \<in> ballots s \<Longrightarrow> w = l"
    "vt_term (voters s p) = t \<Longrightarrow> vt_vote (voters s p) = Some l"
    "vt_term (voters s p) = t \<Longrightarrow> vt_role (voters s p) \<noteq> Candidate"
    "\<And>x. vt_saved (voters s p) = Some (t, x) \<Longrightarrow> x = Some l"
  shows "locked s t l p"
  using assms unfolding locked_def by blast

lemma lockedD:
  assumes "locked s t l p"
  shows "(t, p, l) \<in> ballots s" "(t, p, w) \<in> ballots s \<Longrightarrow> w = l"
    "vt_term (voters s p) = t \<Longrightarrow> vt_vote (voters s p) = Some l"
    "vt_term (voters s p) = t \<Longrightarrow> vt_role (voters s p) \<noteq> Candidate"
    "vt_saved (voters s p) = Some (t, x) \<Longrightarrow> x = Some l"
  using assms unfolding locked_def by blast+

lemma locked_update:
  assumes "locked s t l p" "voters s' = (voters s)(v := voters s' v)" "ballots s \<subseteq> ballots s'"
    "\<And>w. (t, p, w) \<in> ballots s' \<Longrightarrow> (t, p, w) \<in> ballots s \<or> w = l"
    "p = v \<Longrightarrow> vt_term (voters s' v) = t \<Longrightarrow> vt_vote (voters s' v) = Some l \<and> vt_role (voters s' v) \<noteq> Candidate"
    "\<And>y. p = v \<Longrightarrow> vt_saved (voters s' v) = Some (t, y) \<Longrightarrow> y = Some l"
  shows "locked s' t l p"
proof (rule lockedI)
  have same: "voters s' p = voters s p" if "p \<noteq> v"
    using that fun_cong [OF assms(2), of p] by simp
  show "(t, p, l) \<in> ballots s'"
    using assms(3) lockedD(1) [OF assms(1)] by blast
  show "w = l" if "(t, p, w) \<in> ballots s'" for w
    using assms(4) [OF that] lockedD(2) [OF assms(1)] by blast
  show "vt_vote (voters s' p) = Some l" if "vt_term (voters s' p) = t"
    using that assms(5) same lockedD(3) [OF assms(1)] by (cases "p = v") simp_all
  show "vt_role (voters s' p) \<noteq> Candidate" if "vt_term (voters s' p) = t"
    using that assms(5) same lockedD(4) [OF assms(1)] by (cases "p = v") simp_all
  show "x = Some l" if "vt_saved (voters s' p) = Some (t, x)" for x
    using that assms(6) [of x] same lockedD(5) [OF assms(1), of x] by (cases "p = v") simp_all
qed

text \<open>Once locked, a voter stays locked.\<close>

lemma locked_step:
  assumes "vote_step Q s s'" "ballots_past s" "locked s t l p"
  shows "locked s' t l p"
proof -
  note past = ballots_pastD(1) [OF assms(2) lockedD(1) [OF assms(3)]]
  note keep = lockedD(3-5) [OF assms(3)]
  from assms(1) show ?thesis
  proof cases
    case (advance v u)
    show ?thesis
      by (rule locked_update [OF assms(3), of _ v]) (use advance past keep(3) in \<open>auto simp: advance(1)\<close>)
  next
    case (concede v m)
    show ?thesis
      by (rule locked_update [OF assms(3), of _ v]) (use concede keep(2,3) in \<open>auto simp: concede(1)\<close>)
  next
    case (cast v w)
    show ?thesis
      by (rule locked_update [OF assms(3), of _ v])
        (use cast keep in \<open>auto simp: cast(1) save_vote_def\<close>)
  next
    case (stand v u)
    show ?thesis
      by (rule locked_update [OF assms(3), of _ v]) (use stand past in \<open>auto simp: stand(1) save_vote_def\<close>)
  next
    case (win v q)
    show ?thesis
      by (rule locked_update [OF assms(3), of _ v]) (use win keep in \<open>auto simp: win(1)\<close>)
  next
    case (recover v u w)
    show ?thesis
      by (rule locked_update [OF assms(3), of _ v]) (use recover keep(3) in \<open>auto simp: recover(1)\<close>)
  qed
qed

section \<open>Safety over intersecting quorums\<close>

locale quorum_system =
  fixes Q :: "'n set set"
  assumes intersect: "q \<in> Q \<Longrightarrow> q' \<in> Q \<Longrightarrow> \<exists>p. p \<in> q \<and> p \<in> q'"
begin

lemma same_winner:
  assumes "won_locked Q s" "(t, l) \<in> won s" "q \<in> Q" "\<And>p. p \<in> q \<Longrightarrow> (t, p, v) \<in> ballots s"
  shows "v = l"
proof -
  obtain q' where q': "q' \<in> Q" "\<forall>p \<in> q'. locked s t l p"
    using assms(1,2) unfolding won_locked_def by blast
  obtain p where p: "p \<in> q" "p \<in> q'"
    using intersect [OF assms(3) q'(1)] by blast
  show ?thesis
    by (rule lockedD(2) [OF bspec [OF q'(2) p(2)] assms(4) [OF p(1)]])
qed

lemma won_locked_step:
  assumes "vote_step Q s s'" "ledger_inv Q s"
  shows "won_locked Q s'"
proof -
  have inv: "ballots_past s" "open_single s" "won_locked Q s" "roles_ok s"
    using assms(2) by (auto simp: ledger_inv_def)
  have old: "\<exists>q \<in> Q. \<forall>p \<in> q. locked s' t l p" if "(t, l) \<in> won s" for t l
    using that inv(1,3) locked_step [OF assms(1)] unfolding won_locked_def by meson
  from assms(1) show ?thesis
  proof cases
    case (win v q)
    let ?t = "vt_term (voters s v)"
    have "\<exists>q \<in> Q. \<forall>p \<in> q. locked s' ?t v p"
    proof (cases "unwon s ?t")
      case True
      have "vt_role (voters s p) \<noteq> Candidate" if "p \<in> q" "vt_term (voters s p) = ?t" "p \<noteq> v" for p
        using that inv(4) open_singleD(2) [OF inv(2) win(4) [OF that(1)] True] by (auto simp: roles_ok_def)
      then have "locked s' ?t v p" if "p \<in> q" for p
        using that win(4) open_singleD [OF inv(2) win(4) [OF that] True] unfolding win(1)
        by (intro lockedI) (auto split: if_splits)
      with win(3) show ?thesis by blast
    next
      case False
      then obtain l where "(?t, l) \<in> won s"
        by (auto simp: unwon_def)
      with same_winner [OF inv(3) this win(3,4)] old show ?thesis by blast
    qed
    with old show ?thesis
      unfolding won_locked_def win(1) by auto
  qed (use old in \<open>auto simp: won_locked_def\<close>)
qed

lemma ledger_inv_step: "vote_step Q s s' \<Longrightarrow> ledger_inv Q s \<Longrightarrow> ledger_inv Q s'"
  using won_locked_step [of s s'] ballots_past_step [of Q s s'] open_single_step [of Q s s']
    roles_ok_step [of Q s s']
  by (auto simp: ledger_inv_def)

lemma ledger_inv_steps: "(vote_step Q)\<^sup>*\<^sup>* s s' \<Longrightarrow> ledger_inv Q s \<Longrightarrow> ledger_inv Q s'"
  by (induction rule: rtranclp_induct) (auto intro: ledger_inv_step)

lemma one_winner:
  assumes "ledger_inv Q s" "(t, l) \<in> won s" "(t, l') \<in> won s"
  shows "l = l'"
proof -
  obtain q where "q \<in> Q" "\<forall>p \<in> q. locked s t l p"
    using assms(1,2) unfolding ledger_inv_def won_locked_def by blast
  moreover have "won_locked Q s"
    using assms(1) by (simp add: ledger_inv_def)
  ultimately show ?thesis
    using assms(3) by (intro same_winner [of s t l' q l]) (simp_all add: lockedD(1))
qed

lemma one_leader:
  assumes "ledger_inv Q s" "vt_role (voters s a) = Leader" "vt_role (voters s b) = Leader"
    "vt_term (voters s a) = vt_term (voters s b)"
  shows "a = b"
proof (rule one_winner [OF assms(1)])
  show "(vt_term (voters s a), a) \<in> won s"
    using assms(1,2) unfolding ledger_inv_def roles_ok_def by blast
  show "(vt_term (voters s a), b) \<in> won s"
    using assms(1,3) unfolding assms(4) ledger_inv_def roles_ok_def by blast
qed

end

section \<open>Majorities\<close>

definition majorities :: "'n set \<Rightarrow> 'n set set" where
  "majorities ids = {q. finite ids \<and> q \<subseteq> ids \<and> card ids < 2 * card q}"

interpretation majority: quorum_system "majorities ids" for ids :: "'n set"
proof
  fix q q'
  assume q: "q \<in> majorities ids" "q' \<in> majorities ids"
  then have fin: "finite q" "finite q'" and sub: "card (q \<union> q') \<le> card ids"
    by (auto simp: majorities_def intro: finite_subset card_mono)
  show "\<exists>p. p \<in> q \<and> p \<in> q'"
  proof (rule ccontr)
    assume "\<nexists>p. p \<in> q \<and> p \<in> q'"
    then have "card (q \<union> q') = card q + card q'"
      using fin by (intro card_Un_disjoint) auto
    with sub q show False
      by (auto simp: majorities_def)
  qed
qed

end
