(* ===== verification/Raft_Election.thy ===== *)
theory Raft_Election
  imports Raft_Handlers Election_Spec
begin

text \<open>
  A cluster of the nodes of \<^verbatim>\<open>Raft_Node\<close> exchanging vote and append messages. One step is one
  handler, one timer, one goroutine continuation or one restart, run to completion. Messages may be
  delayed, reordered, duplicated and lost. Every message carries what the sender's goroutine
  remembers: a vote reply the term its election started in, an append reply the index and number of
  entries sent. \<open>c_ballots\<close> and \<open>c_won\<close> are histories: no handler reads them.
\<close>

section \<open>The cluster\<close>

datatype message =
    VoteReq uint64 request_vote_args
  | VoteRep uint64 uint64 uint64 request_vote_reply
  | VoteGrant uint64 uint64 uint64
  | AppReq uint64 append_entries_args
  | AppRep uint64 uint64 uint64 nat append_entries_reply

text \<open>\<open>c_campaign\<close>: the running \<^verbatim>\<open>runCandidate\<close>, its term and the peers whose votes it counted.\<close>

record cluster =
  c_nodes :: "uint64 \<Rightarrow> node"
  c_campaign :: "uint64 \<Rightarrow> (uint64 \<times> uint64 list) option"
  c_net :: "message set"
  c_ballots :: "(uint64 \<times> uint64 \<times> uint64) set"
  c_won :: "(uint64 \<times> uint64) set"

definition set_node :: "uint64 \<Rightarrow> node \<Rightarrow> cluster \<Rightarrow> cluster" where
  "set_node i n c = c\<lparr>c_nodes := (c_nodes c)(i := n)\<rparr>"

definition disk_of :: "node \<Rightarrow> node_disk" where
  "disk_of n = \<lparr>d_log = (case l_file (log n) of None \<Rightarrow> [] | Some f \<Rightarrow> f_data f), d_term = term_dat n,
     d_last_applied = last_applied_dat n\<rparr>"

text \<open>The messages a goroutine of node \<open>i\<close> is waiting for; a crash of \<open>i\<close> loses them.\<close>

fun awaited_by :: "uint64 \<Rightarrow> message \<Rightarrow> bool" where
  "awaited_by i (VoteRep v j t reply) \<longleftrightarrow> i = j"
| "awaited_by i (VoteGrant v j t) \<longleftrightarrow> i = j"
| "awaited_by i (AppRep p j next count reply) \<longleftrightarrow> i = j"
| "awaited_by i _ \<longleftrightarrow> False"

text \<open>
  The vote-reply goroutine steps down to the term of the reply when that is above the term its
  election started in, whatever the current term is. \<open>stale_step_down\<close> is the case in which the
  node has already reached that term: its term moves backwards, or its vote in the current term is
  forgotten. Steps with \<open>fresh\<close> set leave that case out; without it they are
  the steps of the program.
\<close>

definition stale_step_down :: "uint64 \<Rightarrow> request_vote_reply \<Rightarrow> node \<Rightarrow> bool" where
  "stale_step_down t reply n \<longleftrightarrow> rvr_term reply > t \<and> rvr_term reply \<le> currentTerm n"

inductive raft_step :: "bool \<Rightarrow> uint64 set \<Rightarrow> cluster \<Rightarrow> cluster \<Rightarrow> bool"
  for fresh :: bool and ids :: "uint64 set" where
  election_timeout: "i \<in> ids \<Longrightarrow> n = c_nodes c i \<Longrightarrow> role n \<noteq> StateLeader \<Longrightarrow> currentTerm n < - 1 \<Longrightarrow>
    n' = start_election n \<Longrightarrow>
    raft_step fresh ids c ((set_node i n' c)\<lparr>c_campaign := (c_campaign c)(i := None),
      c_ballots := insert (currentTerm n', i, i) (c_ballots c)\<rparr>)"
| campaign: "i \<in> ids \<Longrightarrow> n = c_nodes c i \<Longrightarrow> role n = StateCandidate \<Longrightarrow> n_peers n \<noteq> [] \<Longrightarrow>
    raft_step fresh ids c (c\<lparr>c_campaign := (c_campaign c)(i := Some (currentTerm n, [])),
      c_net := c_net c \<union> (\<lambda>p. VoteReq p (vote_request n)) ` set (n_peers n)\<rparr>)"
| campaign_alone: "i \<in> ids \<Longrightarrow> n = c_nodes c i \<Longrightarrow> role n = StateCandidate \<Longrightarrow> n_peers n = [] \<Longrightarrow>
    raft_step fresh ids c ((set_node i (becomeLeader n) c)\<lparr>c_won := insert (currentTerm n, i) (c_won c)\<rparr>)"
| request_vote: "VoteReq i args \<in> c_net c \<Longrightarrow> on_request_vote args (c_nodes c i) = (reply, n') \<Longrightarrow>
    raft_step fresh ids c ((set_node i n' c)\<lparr>
      c_net := insert (VoteRep i (rv_candidate args) (rv_term args) reply) (c_net c),
      c_ballots := (if rvr_granted reply then insert (rv_term args, i, rv_candidate args) (c_ballots c)
                    else c_ballots c)\<rparr>)"
| vote_reply: "VoteRep v i t reply \<in> c_net c \<Longrightarrow> n = c_nodes c i \<Longrightarrow>
    (fresh \<Longrightarrow> \<not> stale_step_down t reply n) \<Longrightarrow> on_vote_reply t reply n = (granted, n') \<Longrightarrow>
    raft_step fresh ids c ((set_node i n' c)\<lparr>
      c_net := (if granted then insert (VoteGrant v i t) (c_net c) else c_net c)\<rparr>)"
| vote_count: "VoteGrant v i t \<in> c_net c \<Longrightarrow> c_campaign c i = Some (t, vs) \<Longrightarrow> v \<notin> set vs \<Longrightarrow>
    n = c_nodes c i \<Longrightarrow> count_vote True (1 + length vs) n = (counted, n') \<Longrightarrow>
    raft_step fresh ids c ((set_node i n' c)\<lparr>
      c_campaign := (c_campaign c)(i := map_option (\<lambda>_. (t, v # vs)) counted),
      c_won := (if role n = StateCandidate \<and> role n' = StateLeader
                then insert (currentTerm n', i) (c_won c) else c_won c)\<rparr>)"
| send_append: "i \<in> ids \<Longrightarrow> p \<in> set (n_peers (c_nodes c i)) \<Longrightarrow> replicate_args p (c_nodes c i) = Some args \<Longrightarrow>
    raft_step fresh ids c (c\<lparr>c_net := insert (AppReq p args) (c_net c)\<rparr>)"
| append_entries: "AppReq i args \<in> c_net c \<Longrightarrow> on_append_entries args (c_nodes c i) = (Ok reply, n') \<Longrightarrow>
    raft_step fresh ids c ((set_node i n' c)\<lparr>
      c_net := insert (AppRep i (ae_leader args) (ae_prev_log_index args + 1) (length (ae_entries args)) reply)
        (c_net c)\<rparr>)"
| append_reply: "AppRep p i next count reply \<in> c_net c \<Longrightarrow>
    raft_step fresh ids c (set_node i (on_append_reply p next count reply (c_nodes c i)) c)"
| propose: "i \<in> ids \<Longrightarrow>
    raft_step fresh ids c (set_node i (snd (appendCommandAndTrack cmd (c_nodes c i))) c)"
| restart: "i \<in> ids \<Longrightarrow> n = c_nodes c i \<Longrightarrow> dataDir n \<noteq> [] \<Longrightarrow>
    NewNodeStateWithDir (dataDir n) (disk_of n) (zero_node i (n_peers n)) = Ok n' \<Longrightarrow>
    raft_step fresh ids c ((set_node i n' c)\<lparr>c_campaign := (c_campaign c)(i := None),
      c_net := {m \<in> c_net c. \<not> awaited_by i m}\<rparr>)"

definition initial_cluster :: "uint64 set \<Rightarrow> cluster \<Rightarrow> bool" where
  "initial_cluster ids c \<longleftrightarrow> finite ids \<and> 0 \<notin> ids \<and> c_net c = {} \<and> c_ballots c = {} \<and> c_won c = {} \<and>
     (\<forall>i. c_campaign c i = None \<and> role (c_nodes c i) = StateFollower) \<and>
     (\<forall>i \<in> ids. n_id (c_nodes c i) = i \<and> distinct (n_peers (c_nodes c i)) \<and>
        set (n_peers (c_nodes c i)) = ids - {i} \<and> term_dat (c_nodes c i) = None \<and>
        currentTerm (c_nodes c i) = 0 \<and> votedFor (c_nodes c i) = 0)"

section \<open>The ledger of a cluster\<close>

definition vrole_of :: "node_role \<Rightarrow> vrole" where
  "vrole_of r = (case r of StateFollower \<Rightarrow> Follower | StateCandidate \<Rightarrow> Candidate | StateLeader \<Rightarrow> Leader)"

definition vote_of :: "uint64 \<Rightarrow> uint64 option" where
  "vote_of w = (if w = 0 then None else Some w)"

definition saved_of :: "node \<Rightarrow> (uint64 \<times> uint64 option) option" where
  "saved_of n =
     (if dataDir n = [] then None
      else Some (case term_dat n of
          None \<Rightarrow> (0, None)
        | Some bs \<Rightarrow> if length bs \<ge> 16 then (u64_at bs 0, vote_of (u64_at bs 8)) else (0, None)))"

definition voter_of :: "node \<Rightarrow> (uint64, uint64) voter" where
  "voter_of n = \<lparr>vt_term = currentTerm n, vt_vote = vote_of (votedFor n), vt_role = vrole_of (role n),
     vt_saved = saved_of n\<rparr>"

definition ledger_of :: "cluster \<Rightarrow> (uint64, uint64) ledger" where
  "ledger_of c = \<lparr>voters = (\<lambda>i. voter_of (c_nodes c i)), ballots = c_ballots c, won = c_won c\<rparr>"

lemma vrole_of_simps [simp]:
  "vrole_of StateFollower = Follower" "vrole_of StateCandidate = Candidate" "vrole_of StateLeader = Leader"
  "vrole_of r = Candidate \<longleftrightarrow> r = StateCandidate" "vrole_of r = Leader \<longleftrightarrow> r = StateLeader"
  by (simp_all add: vrole_of_def split: node_role.split)

lemma voter_of_BecomeFollower:
  "voter_of (BecomeFollower t n) = (voter_of n)\<lparr>vt_term := t, vt_vote := None, vt_role := Follower\<rparr>"
  by (simp add: voter_of_def BecomeFollower_def vote_of_def saved_of_def)

lemma voter_of_SetVotedFor:
  "w \<noteq> 0 \<Longrightarrow> voter_of (SetVotedFor w n) = save_vote ((voter_of n)\<lparr>vt_vote := Some w\<rparr>)"
  by (simp add: voter_of_def state_defs vote_of_def saved_of_def save_vote_def)

lemma voter_of_start_election:
  "n_id n \<noteq> 0 \<Longrightarrow> voter_of (start_election n) =
     save_vote ((voter_of n)\<lparr>vt_term := currentTerm n + 1, vt_vote := Some (n_id n), vt_role := Candidate\<rparr>)"
  by (simp add: voter_of_def start_election_def state_defs vote_of_def saved_of_def save_vote_def)

lemma voter_of_cong:
  "currentTerm n' = currentTerm n \<Longrightarrow> votedFor n' = votedFor n \<Longrightarrow> role n' = role n \<Longrightarrow>
     dataDir n' = dataDir n \<Longrightarrow> term_dat n' = term_dat n \<Longrightarrow> voter_of n' = voter_of n"
  by (simp add: voter_of_def saved_of_def)

lemma SetIndex_simps [simp]:
  "currentTerm (SetNextIndex p i n) = currentTerm n" "votedFor (SetNextIndex p i n) = votedFor n"
  "role (SetNextIndex p i n) = role n" "dataDir (SetNextIndex p i n) = dataDir n"
  "term_dat (SetNextIndex p i n) = term_dat n" "n_id (SetNextIndex p i n) = n_id n"
  "n_peers (SetNextIndex p i n) = n_peers n" "log (SetNextIndex p i n) = log n"
  "currentTerm (SetMatchIndex p i n) = currentTerm n" "votedFor (SetMatchIndex p i n) = votedFor n"
  "role (SetMatchIndex p i n) = role n" "dataDir (SetMatchIndex p i n) = dataDir n"
  "term_dat (SetMatchIndex p i n) = term_dat n" "n_id (SetMatchIndex p i n) = n_id n"
  "n_peers (SetMatchIndex p i n) = n_peers n" "log (SetMatchIndex p i n) = log n"
  by (simp_all add: SetNextIndex_def SetMatchIndex_def)

lemma InitLeaderState_frame:
  "currentTerm (InitLeaderState ps n) = currentTerm n \<and> votedFor (InitLeaderState ps n) = votedFor n \<and>
   role (InitLeaderState ps n) = role n \<and> dataDir (InitLeaderState ps n) = dataDir n \<and>
   term_dat (InitLeaderState ps n) = term_dat n \<and> n_id (InitLeaderState ps n) = n_id n \<and>
   n_peers (InitLeaderState ps n) = n_peers n \<and> log (InitLeaderState ps n) = log n"
proof -
  have "currentTerm (fold (\<lambda>p n. SetMatchIndex p 0 (SetNextIndex p k n)) ps n) = currentTerm n \<and>
    votedFor (fold (\<lambda>p n. SetMatchIndex p 0 (SetNextIndex p k n)) ps n) = votedFor n \<and>
    role (fold (\<lambda>p n. SetMatchIndex p 0 (SetNextIndex p k n)) ps n) = role n \<and>
    dataDir (fold (\<lambda>p n. SetMatchIndex p 0 (SetNextIndex p k n)) ps n) = dataDir n \<and>
    term_dat (fold (\<lambda>p n. SetMatchIndex p 0 (SetNextIndex p k n)) ps n) = term_dat n \<and>
    n_id (fold (\<lambda>p n. SetMatchIndex p 0 (SetNextIndex p k n)) ps n) = n_id n \<and>
    n_peers (fold (\<lambda>p n. SetMatchIndex p 0 (SetNextIndex p k n)) ps n) = n_peers n \<and>
    log (fold (\<lambda>p n. SetMatchIndex p 0 (SetNextIndex p k n)) ps n) = log n" for k
    by (induction ps arbitrary: n) simp_all
  then show ?thesis
    by (simp add: InitLeaderState_def Let_def)
qed

lemma becomeLeader_simps [simp]:
  "currentTerm (becomeLeader n) = currentTerm n" "votedFor (becomeLeader n) = votedFor n"
  "role (becomeLeader n) = StateLeader" "dataDir (becomeLeader n) = dataDir n"
  "term_dat (becomeLeader n) = term_dat n" "n_id (becomeLeader n) = n_id n"
  "n_peers (becomeLeader n) = n_peers n"
  by (simp_all add: becomeLeader_def Let_def InitLeaderState_frame BecomeLeader_def)

lemma voter_of_becomeLeader: "voter_of (becomeLeader n) = (voter_of n)\<lparr>vt_role := Leader\<rparr>"
  by (simp add: voter_of_def saved_of_def)

lemma restart_frame:
  assumes "NewNodeStateWithDir (dataDir n) (disk_of n) (zero_node i ps) = Ok n'" "dataDir n \<noteq> []"
  shows "n_id n' = i" "n_peers n' = ps" "role n' = StateFollower"
    "\<exists>t w. saved_of n = Some (t, w) \<and> voter_of n' = (voter_of n)\<lparr>vt_term := t, vt_vote := w, vt_role := Follower\<rparr>"
proof -
  obtain l where n': "n' = loadPersistedState ((zero_node i ps)\<lparr>log := l, dataDir := dataDir n,
      term_dat := term_dat n, last_applied_dat := last_applied_dat n\<rparr>)"
    using assms by (auto simp: NewNodeStateWithDir_def disk_of_def split: outcome.splits)
  show "n_id n' = i" "n_peers n' = ps" "role n' = StateFollower"
    unfolding n' using assms(2)
    by (auto simp: loadPersistedState_def zero_node_def Let_def split: option.split)
  show "\<exists>t w. saved_of n = Some (t, w) \<and> voter_of n' = (voter_of n)\<lparr>vt_term := t, vt_vote := w, vt_role := Follower\<rparr>"
    unfolding n' using assms(2)
    by (auto simp: loadPersistedState_def zero_node_def Let_def saved_of_def voter_of_def vote_of_def
        split: option.split)
qed

section \<open>What messages and campaigns stand for\<close>

fun msg_ok :: "uint64 set \<Rightarrow> (uint64 \<times> uint64 \<times> uint64) set \<Rightarrow> (uint64 \<times> uint64) set \<Rightarrow> message \<Rightarrow> bool" where
  "msg_ok ids bs ws (VoteReq j args) \<longleftrightarrow> j \<in> ids \<and> rv_candidate args \<in> ids - {j}"
| "msg_ok ids bs ws (VoteRep v i t reply) \<longleftrightarrow> i \<in> ids \<and> v \<in> ids - {i} \<and> (rvr_granted reply \<longrightarrow> (t, v, i) \<in> bs)"
| "msg_ok ids bs ws (VoteGrant v i t) \<longleftrightarrow> i \<in> ids \<and> v \<in> ids - {i} \<and> (t, v, i) \<in> bs"
| "msg_ok ids bs ws (AppReq j args) \<longleftrightarrow> j \<in> ids \<and> ae_leader args \<in> ids \<and> (\<exists>l. (ae_term args, l) \<in> ws)"
| "msg_ok ids bs ws (AppRep p i next count reply) \<longleftrightarrow> i \<in> ids"

lemma msg_ok_mono: "msg_ok ids bs ws m \<Longrightarrow> bs \<subseteq> bs' \<Longrightarrow> ws \<subseteq> ws' \<Longrightarrow> msg_ok ids bs' ws' m"
  by (cases m) auto

definition node_ok :: "uint64 set \<Rightarrow> uint64 \<Rightarrow> node \<Rightarrow> bool" where
  "node_ok ids i n \<longleftrightarrow> n_id n = i \<and> distinct (n_peers n) \<and> set (n_peers n) = ids - {i}"

definition campaign_ok :: "uint64 set \<Rightarrow> (uint64 \<times> uint64 \<times> uint64) set \<Rightarrow> uint64 \<Rightarrow> node \<Rightarrow> uint64 \<times> uint64 list \<Rightarrow> bool" where
  "campaign_ok ids bs i n r \<longleftrightarrow> i \<in> ids \<and> distinct (snd r) \<and> set (snd r) \<subseteq> ids - {i} \<and>
     (\<forall>v \<in> set (snd r). (fst r, v, i) \<in> bs) \<and> (role n = StateCandidate \<longrightarrow> currentTerm n = fst r)"

definition cluster_ok :: "uint64 set \<Rightarrow> cluster \<Rightarrow> bool" where
  "cluster_ok ids c \<longleftrightarrow> finite ids \<and> 0 \<notin> ids \<and> (\<forall>i \<in> ids. node_ok ids i (c_nodes c i)) \<and>
     (\<forall>m \<in> c_net c. msg_ok ids (c_ballots c) (c_won c) m) \<and>
     (\<forall>i r. c_campaign c i = Some r \<longrightarrow> campaign_ok ids (c_ballots c) i (c_nodes c i) r) \<and>
     (\<forall>i \<in> ids. role (c_nodes c i) = StateCandidate \<longrightarrow> (currentTerm (c_nodes c i), i, i) \<in> c_ballots c)"

lemma cluster_okD:
  assumes "cluster_ok ids c"
  shows "finite ids" "0 \<notin> ids" "i \<in> ids \<Longrightarrow> node_ok ids i (c_nodes c i)"
    "m \<in> c_net c \<Longrightarrow> msg_ok ids (c_ballots c) (c_won c) m"
    "c_campaign c i = Some r \<Longrightarrow> campaign_ok ids (c_ballots c) i (c_nodes c i) r"
    "i \<in> ids \<Longrightarrow> role (c_nodes c i) = StateCandidate \<Longrightarrow> (currentTerm (c_nodes c i), i, i) \<in> c_ballots c"
  using assms unfolding cluster_ok_def by blast+

text \<open>A handler neither changes who a node is nor turns it into a candidate.\<close>

definition handled :: "node \<Rightarrow> node \<Rightarrow> bool" where
  "handled n n' \<longleftrightarrow> n_id n' = n_id n \<and> n_peers n' = n_peers n \<and>
     (role n' = StateCandidate \<longrightarrow> role n = StateCandidate \<and> currentTerm n' = currentTerm n)"

lemma cluster_ok_update:
  assumes ok: "cluster_ok ids c"
    and nodes: "c_nodes c' = (c_nodes c)(i := n')" "handled (c_nodes c i) n'"
    and grow: "c_ballots c \<subseteq> c_ballots c'" "c_won c \<subseteq> c_won c'"
    and net: "\<And>m. m \<in> c_net c' \<Longrightarrow> m \<in> c_net c \<or> msg_ok ids (c_ballots c') (c_won c') m"
    and camp: "\<And>j r. c_campaign c' j = Some r \<Longrightarrow>
      c_campaign c j = Some r \<or> campaign_ok ids (c_ballots c') j (c_nodes c' j) r"
  shows "cluster_ok ids c'"
proof -
  have "node_ok ids j (c_nodes c' j)" if "j \<in> ids" for j
    using cluster_okD(3) [OF ok that] nodes by (cases "j = i") (simp_all add: node_ok_def handled_def)
  moreover have "msg_ok ids (c_ballots c') (c_won c') m" if "m \<in> c_net c'" for m
    using net [OF that] cluster_okD(4) [OF ok] msg_ok_mono [OF _ grow] by blast
  moreover have "campaign_ok ids (c_ballots c') j (c_nodes c' j) r" if "c_campaign c' j = Some r" for j r
    using camp [OF that] cluster_okD(5) [OF ok, of j r] nodes grow(1)
    by (auto simp: campaign_ok_def handled_def)
  moreover have "(currentTerm (c_nodes c' j), j, j) \<in> c_ballots c'"
    if "j \<in> ids" "role (c_nodes c' j) = StateCandidate" for j
    using that cluster_okD(6) [OF ok that(1)] nodes grow(1) by (auto simp: handled_def split: if_splits)
  ultimately show ?thesis
    using cluster_okD(1,2) [OF ok] by (simp add: cluster_ok_def)
qed

section \<open>Every step is a run of the voting protocol\<close>

text \<open>\<open>simulated\<close>: the step keeps the cluster in order and its ledger follows the protocol.\<close>

definition simulated :: "uint64 set \<Rightarrow> cluster \<Rightarrow> cluster \<Rightarrow> bool" where
  "simulated ids c c' \<longleftrightarrow> cluster_ok ids c' \<and> (vote_step (majorities ids))\<^sup>*\<^sup>* (ledger_of c) (ledger_of c')"

lemma ledger_of_simps [simp]:
  "voters (ledger_of c) i = voter_of (c_nodes c i)" "ballots (ledger_of c) = c_ballots c"
  "won (ledger_of c) = c_won c"
  by (simp_all add: ledger_of_def)

lemma voter_of_simps [simp]:
  "vt_term (voter_of n) = currentTerm n" "vt_vote (voter_of n) = vote_of (votedFor n)"
  "vt_role (voter_of n) = vrole_of (role n)" "vt_saved (voter_of n) = saved_of n"
  by (simp_all add: voter_of_def)

lemma ledger_of_update:
  "c_nodes c' = (c_nodes c)(i := n') \<Longrightarrow>
     ledger_of c' = (ledger_of c)\<lparr>voters := (voters (ledger_of c))(i := voter_of n'),
       ballots := c_ballots c', won := c_won c'\<rparr>"
  by (auto simp: ledger_of_def)

text \<open>A node whose voter is unchanged, one that moves to a higher term, one that concedes.\<close>

lemma ledger_same:
  assumes "c_nodes c' = (c_nodes c)(i := n')" "voter_of n' = voter_of (c_nodes c i)"
    "c_ballots c' = c_ballots c" "c_won c' = c_won c"
  shows "ledger_of c' = ledger_of c"
  using assms by (auto simp: ledger_of_def)

lemma ledger_upd_simps [simp]:
  "(ledger_of c)\<lparr>voters := f, ballots := c_ballots c, won := c_won c\<rparr> = (ledger_of c)\<lparr>voters := f\<rparr>"
  "(ledger_of c)\<lparr>voters := f, ballots := b, won := c_won c\<rparr> = (ledger_of c)\<lparr>voters := f, ballots := b\<rparr>"
  "(ledger_of c)\<lparr>voters := f, ballots := c_ballots c, won := w\<rparr> = (ledger_of c)\<lparr>voters := f, won := w\<rparr>"
  by (simp_all add: ledger_of_def)

lemma ledger_advance:
  assumes "c_nodes c' = (c_nodes c)(i := n')" "currentTerm (c_nodes c i) < t"
    "voter_of n' = (voter_of (c_nodes c i))\<lparr>vt_term := t, vt_vote := None, vt_role := Follower\<rparr>"
    "c_ballots c' = c_ballots c" "c_won c' = c_won c"
  shows "vote_step Q (ledger_of c) (ledger_of c')"
  using vote_step.advance [of "ledger_of c" i t Q] assms ledger_of_update [OF assms(1)] by simp

lemma ledger_concede:
  assumes "c_nodes c' = (c_nodes c)(i := n')" "role (c_nodes c i) = StateCandidate"
    "(currentTerm (c_nodes c i), l) \<in> c_won c"
    "voter_of n' = (voter_of (c_nodes c i))\<lparr>vt_vote := None, vt_role := Follower\<rparr>"
    "c_ballots c' = c_ballots c" "c_won c' = c_won c"
  shows "vote_step Q (ledger_of c) (ledger_of c')"
  using vote_step.concede [of "ledger_of c" i l Q] assms ledger_of_update [OF assms(1)] by simp

lemma ledger_cast:
  assumes "c_nodes c' = (c_nodes c)(i := SetVotedFor w (c_nodes c i))" "w \<noteq> 0"
    "votedFor (c_nodes c i) = 0 \<or> votedFor (c_nodes c i) = w"
    "c_ballots c' = insert (currentTerm (c_nodes c i), i, w) (c_ballots c)" "c_won c' = c_won c"
  shows "vote_step Q (ledger_of c) (ledger_of c')"
  using vote_step.cast [of "ledger_of c" i w Q] assms ledger_of_update [OF assms(1)]
  by (auto simp: voter_of_SetVotedFor vote_of_def)

lemma ledger_stand:
  assumes "c_nodes c' = (c_nodes c)(i := start_election (c_nodes c i))" "n_id (c_nodes c i) = i" "i \<noteq> 0"
    "role (c_nodes c i) \<noteq> StateLeader" "currentTerm (c_nodes c i) < currentTerm (c_nodes c i) + 1"
    "c_ballots c' = insert (currentTerm (c_nodes c i) + 1, i, i) (c_ballots c)" "c_won c' = c_won c"
  shows "vote_step Q (ledger_of c) (ledger_of c')"
  using vote_step.stand [of "ledger_of c" i "currentTerm (c_nodes c i) + 1" Q] assms
    ledger_of_update [OF assms(1)]
  by (simp add: voter_of_start_election)

lemma ledger_win:
  assumes "c_nodes c' = (c_nodes c)(i := becomeLeader (c_nodes c i))" "role (c_nodes c i) = StateCandidate"
    "q \<in> Q" "\<And>p. p \<in> q \<Longrightarrow> (currentTerm (c_nodes c i), p, i) \<in> c_ballots c"
    "c_ballots c' = c_ballots c" "c_won c' = insert (currentTerm (c_nodes c i), i) (c_won c)"
  shows "vote_step Q (ledger_of c) (ledger_of c')"
  using vote_step.win [of "ledger_of c" i q Q] assms ledger_of_update [OF assms(1)]
  by (simp add: voter_of_becomeLeader)

lemma ledger_recover:
  assumes "c_nodes c' = (c_nodes c)(i := n')" "saved_of (c_nodes c i) = Some (t, w)"
    "voter_of n' = (voter_of (c_nodes c i))\<lparr>vt_term := t, vt_vote := w, vt_role := Follower\<rparr>"
    "c_ballots c' = c_ballots c" "c_won c' = c_won c"
  shows "vote_step Q (ledger_of c) (ledger_of c')"
  using vote_step.recover [of "ledger_of c" i t w Q] assms ledger_of_update [OF assms(1)] by simp

lemma handled_same:
  assumes "voter_of n' = voter_of n" "n_id n' = n_id n" "n_peers n' = n_peers n"
  shows "handled n n'"
  using arg_cong [OF assms(1), of vt_role] arg_cong [OF assms(1), of vt_term] assms(2,3)
  by (auto simp: handled_def) (metis vrole_of_simps(2,4))

lemma handled_not_candidate:
  assumes "vt_role (voter_of n') \<noteq> Candidate" "n_id n' = n_id n" "n_peers n' = n_peers n"
  shows "handled n n'"
  using assms by (simp add: handled_def)

text \<open>A handler that only steps down: the shape of every handler outside elections.\<close>

lemma simulated_handler:
  assumes ok: "cluster_ok ids c"
    and c': "c_nodes c' = (c_nodes c)(i := n')" "c_ballots c' = c_ballots c" "c_won c' = c_won c"
    and id: "n_id n' = n_id (c_nodes c i)" "n_peers n' = n_peers (c_nodes c i)"
    and vt: "voter_of n' = voter_of (c_nodes c i) \<or>
      (\<exists>t. currentTerm (c_nodes c i) < t \<and>
        voter_of n' = (voter_of (c_nodes c i))\<lparr>vt_term := t, vt_vote := None, vt_role := Follower\<rparr>)"
    and net: "\<And>m. m \<in> c_net c' \<Longrightarrow> m \<in> c_net c \<or> msg_ok ids (c_ballots c) (c_won c) m"
    and camp: "\<And>j. c_campaign c' j = None \<or> c_campaign c' j = c_campaign c j"
  shows "simulated ids c c'"
proof -
  have "handled (c_nodes c i) n'"
    using vt
  proof (elim disjE exE conjE)
    fix t
    assume "voter_of n' = (voter_of (c_nodes c i))\<lparr>vt_term := t, vt_vote := None, vt_role := Follower\<rparr>"
    then show ?thesis
      by (intro handled_not_candidate id) (simp del: voter_of_simps)
  qed (intro handled_same id)
  moreover have "c_campaign c j = Some r" if "c_campaign c' j = Some r" for j r
    using camp [of j] that by auto
  ultimately have "cluster_ok ids c'"
    using net by (intro cluster_ok_update [OF ok c'(1)]) (simp_all add: c')
  moreover have "(vote_step (majorities ids))\<^sup>*\<^sup>* (ledger_of c) (ledger_of c')"
    using vt ledger_same [OF c'(1) _ c'(2,3)] ledger_advance [OF c'(1) _ _ c'(2,3)]
    by (metis r_into_rtranclp rtranclp.rtrancl_refl)
  ultimately show ?thesis
    by (simp add: simulated_def)
qed

lemma word_less_Suc: "t < - 1 \<Longrightarrow> t < t + 1" for t :: uint64
  using unat_step [of t "- 1"] by (simp add: word_less_nat_alt)

lemma timeout_simulated:
  assumes ok: "cluster_ok ids c" and i: "i \<in> ids" "role (c_nodes c i) \<noteq> StateLeader"
    "currentTerm (c_nodes c i) < - 1"
  shows "simulated ids c ((set_node i (start_election (c_nodes c i)) c)\<lparr>c_campaign := (c_campaign c)(i := None),
      c_ballots := insert (currentTerm (start_election (c_nodes c i)), i, i) (c_ballots c)\<rparr>)"
    (is "simulated ids c ?c'")
proof -
  let ?n = "c_nodes c i"
  have n: "n_id ?n = i" "i \<noteq> 0"
    using cluster_okD(2,3) [OF ok] i(1) by (auto simp: node_ok_def)
  have st: "currentTerm (start_election ?n) = currentTerm ?n + 1" "n_id (start_election ?n) = n_id ?n"
    "n_peers (start_election ?n) = n_peers ?n"
    by (simp_all add: start_election_def BecomeCandidate_def)
  have "vote_step (majorities ids) (ledger_of c) (ledger_of ?c')"
    by (rule ledger_stand [where i = i]) (use i n word_less_Suc st in \<open>simp_all add: set_node_def\<close>)
  moreover have "cluster_ok ids ?c'"
    unfolding cluster_ok_def
  proof (intro conjI ballI allI impI)
    show "finite ids" "0 \<notin> ids" by (fact cluster_okD(1,2) [OF ok])+
  next
    fix j assume "j \<in> ids"
    then show "node_ok ids j (c_nodes ?c' j)"
      using cluster_okD(3) [OF ok] st by (auto simp: node_ok_def set_node_def)
  next
    fix m assume "m \<in> c_net ?c'"
    then show "msg_ok ids (c_ballots ?c') (c_won ?c') m"
      by (intro msg_ok_mono [OF cluster_okD(4) [OF ok]]) (auto simp: set_node_def)
  next
    fix j r assume "c_campaign ?c' j = Some r"
    then show "campaign_ok ids (c_ballots ?c') j (c_nodes ?c' j) r"
      using cluster_okD(5) [OF ok, of j r] by (auto simp: campaign_ok_def set_node_def split: if_splits)
  next
    fix j assume "j \<in> ids" "role (c_nodes ?c' j) = StateCandidate"
    then show "(currentTerm (c_nodes ?c' j), j, j) \<in> c_ballots ?c'"
      using cluster_okD(6) [OF ok, of j] by (auto simp: set_node_def)
  qed
  ultimately show ?thesis
    by (auto simp: simulated_def)
qed

lemma win_simulated:
  assumes ok: "cluster_ok ids c" and i: "i \<in> ids" "role (c_nodes c i) = StateCandidate"
    and q: "q \<in> majorities ids" "\<And>p. p \<in> q \<Longrightarrow> (currentTerm (c_nodes c i), p, i) \<in> c_ballots c"
    and c': "c_nodes c' = (c_nodes c)(i := becomeLeader (c_nodes c i))" "c_ballots c' = c_ballots c"
      "c_won c' = insert (currentTerm (c_nodes c i), i) (c_won c)" "c_net c' = c_net c"
    and camp: "\<And>j. c_campaign c' j = None \<or> c_campaign c' j = c_campaign c j"
  shows "simulated ids c c'"
proof -
  have "vote_step (majorities ids) (ledger_of c) (ledger_of c')"
    by (rule ledger_win [OF c'(1) i(2) q c'(2,3)])
  moreover have "c_campaign c j = Some r" if "c_campaign c' j = Some r" for j r
    using camp [of j] that by auto
  then have "cluster_ok ids c'"
    by (intro cluster_ok_update [OF ok c'(1)]) (auto simp: c' handled_def)
  ultimately show ?thesis
    by (auto simp: simulated_def)
qed

lemma on_request_vote_cases:
  assumes "on_request_vote args n = (reply, n')"
  obtains (low) "n' = n" "\<not> rvr_granted reply"
  | (raised) "currentTerm n < rv_term args" "n' = BecomeFollower (rv_term args) n" "\<not> rvr_granted reply"
  | (granted) "rv_term args = currentTerm n" "n' = SetVotedFor (rv_candidate args) n" "rvr_granted reply"
      "votedFor n = 0 \<or> votedFor n = rv_candidate args"
  | (raised_granted) "currentTerm n < rv_term args" "rvr_granted reply"
      "n' = SetVotedFor (rv_candidate args) (BecomeFollower (rv_term args) n)"
  using assms
  by (cases "rv_term args < currentTerm n"; cases "currentTerm n < rv_term args")
    (auto simp: on_request_vote_def Let_def split: if_splits)

lemma request_vote_simulated:
  assumes ok: "cluster_ok ids c" and m: "VoteReq i args \<in> c_net c"
    and h: "on_request_vote args (c_nodes c i) = (reply, n')"
  shows "simulated ids c ((set_node i n' c)\<lparr>
      c_net := insert (VoteRep i (rv_candidate args) (rv_term args) reply) (c_net c),
      c_ballots := (if rvr_granted reply then insert (rv_term args, i, rv_candidate args) (c_ballots c)
                    else c_ballots c)\<rparr>)" (is "simulated ids c ?c'")
proof -
  let ?n = "c_nodes c i" and ?w = "rv_candidate args" and ?t = "rv_term args"
  have ids: "i \<in> ids" "?w \<in> ids" "?w \<noteq> i" "?w \<noteq> 0"
    using cluster_okD(2) [OF ok] cluster_okD(4) [OF ok m] by auto
  note [simp] = set_node_def
  show ?thesis
    using h
  proof (cases rule: on_request_vote_cases)
    case low
    then show ?thesis
      using ids by (intro simulated_handler [OF ok, of _ i ?n]) auto
  next
    case raised
    then show ?thesis
      using ids
      by (intro simulated_handler [OF ok, of _ i n']) (auto simp: voter_of_BecomeFollower, auto simp: BecomeFollower_def)
  next
    case granted
    have "vote_step (majorities ids) (ledger_of c) (ledger_of ?c')"
      by (rule ledger_cast [of _ _ i ?w]) (use granted ids in auto)
    moreover have "cluster_ok ids ?c'"
      by (rule cluster_ok_update [OF ok, of _ i n']) (use granted ids in \<open>auto simp: handled_def\<close>)
    ultimately show ?thesis
      by (auto simp: simulated_def)
  next
    case raised_granted
    let ?c1 = "set_node i (BecomeFollower ?t ?n) c"
    have "vote_step (majorities ids) (ledger_of c) (ledger_of ?c1)"
      by (rule ledger_advance [of _ _ i _ ?t]) (use raised_granted in \<open>auto simp: voter_of_BecomeFollower\<close>)
    moreover have "vote_step (majorities ids) (ledger_of ?c1) (ledger_of ?c')"
      by (rule ledger_cast [of _ _ i ?w]) (use raised_granted ids in \<open>auto simp: BecomeFollower_def\<close>)
    moreover have "cluster_ok ids ?c'"
      by (rule cluster_ok_update [OF ok, of _ i n'])
        (use raised_granted ids in \<open>auto simp: handled_def BecomeFollower_def\<close>)
    ultimately show ?thesis
      by (auto simp: simulated_def)
  qed
qed

lemma vote_reply_simulated:
  assumes ok: "cluster_ok ids c" and m: "VoteRep v i t reply \<in> c_net c"
    and fresh: "\<not> stale_step_down t reply (c_nodes c i)"
    and h: "on_vote_reply t reply (c_nodes c i) = (granted, n')"
  shows "simulated ids c ((set_node i n' c)\<lparr>
      c_net := (if granted then insert (VoteGrant v i t) (c_net c) else c_net c)\<rparr>)" (is "simulated ids c ?c'")
proof -
  have m': "i \<in> ids" "v \<in> ids - {i}" "rvr_granted reply \<Longrightarrow> (t, v, i) \<in> c_ballots c"
    using cluster_okD(4) [OF ok m] by auto
  show ?thesis
  proof (cases "t < rvr_term reply")
    case True
    with h fresh have "n' = BecomeFollower (rvr_term reply) (c_nodes c i)" "\<not> granted"
      "currentTerm (c_nodes c i) < rvr_term reply"
      by (auto simp: on_vote_reply_def stale_step_down_def)
    then show ?thesis
      by (intro simulated_handler [OF ok, of _ i n'])
        (auto simp: set_node_def voter_of_BecomeFollower, auto simp: BecomeFollower_def)
  next
    case False
    with h have "n' = c_nodes c i" "granted = rvr_granted reply"
      by (auto simp: on_vote_reply_def)
    with m' show ?thesis
      by (intro simulated_handler [OF ok, of _ i n']) (auto simp: set_node_def split: if_splits)
  qed
qed

text \<open>The votes a campaign needs, its own included, are a majority.\<close>

lemma counted_majority:
  assumes "node_ok ids i n" "finite ids" "i \<in> ids" "distinct vs" "set vs \<subseteq> ids - {i}"
    "votesNeeded n \<le> 1 + length vs"
  shows "insert i (set vs) \<in> majorities ids"
proof -
  have "length (n_peers n) = card (ids - {i})"
    using assms(1) distinct_card [of "n_peers n"] by (simp add: node_ok_def)
  then have "length (n_peers n) + 1 = card ids"
    using assms(2,3) by (metis card_Suc_Diff1 Suc_eq_plus1)
  moreover have "card (insert i (set vs)) = 1 + length vs"
    using assms(4,5) distinct_card [of vs] by (subst card_insert_disjoint) auto
  ultimately show ?thesis
    using assms(2,3,5,6) by (auto simp: majorities_def votesNeeded_def)
qed

lemma vote_count_simulated:
  assumes ok: "cluster_ok ids c" and m: "VoteGrant v i t \<in> c_net c" "c_campaign c i = Some (t, vs)" "v \<notin> set vs"
    and h: "count_vote True (1 + length vs) (c_nodes c i) = (counted, n')"
  shows "simulated ids c ((set_node i n' c)\<lparr>
      c_campaign := (c_campaign c)(i := map_option (\<lambda>_. (t, v # vs)) counted),
      c_won := (if role (c_nodes c i) = StateCandidate \<and> role n' = StateLeader
                then insert (currentTerm n', i) (c_won c) else c_won c)\<rparr>)" (is "simulated ids c ?c'")
proof -
  let ?n = "c_nodes c i"
  note [simp] = set_node_def
  have v: "v \<in> ids - {i}" "(t, v, i) \<in> c_ballots c" and i: "i \<in> ids"
    using cluster_okD(4) [OF ok m(1)] by auto
  have camp: "campaign_ok ids (c_ballots c) i ?n (t, vs)"
    by (rule cluster_okD(5) [OF ok m(2)])
  consider (over) "role ?n \<noteq> StateCandidate" "n' = ?n" "counted = None"
    | (more) "role ?n = StateCandidate" "n' = ?n" "counted = Some (2 + length vs)"
    | (won) "role ?n = StateCandidate" "n' = becomeLeader ?n" "counted = None" "votesNeeded ?n \<le> 2 + length vs"
    using h by (auto simp: count_vote_def split: if_splits)
  then show ?thesis
  proof cases
    case over
    then show ?thesis
      by (intro simulated_handler [OF ok, of _ i ?n]) auto
  next
    case more
    have "cluster_ok ids ?c'"
      by (rule cluster_ok_update [OF ok, of _ i ?n])
        (use more v m(3) camp in \<open>auto simp: handled_def campaign_ok_def split: if_splits\<close>)
    moreover have "ledger_of ?c' = ledger_of c"
      by (rule ledger_same [of _ _ i ?n]) (use more in auto)
    ultimately show ?thesis
      by (simp add: simulated_def)
  next
    case won
    have "insert i (set (v # vs)) \<in> majorities ids"
      by (rule counted_majority [OF cluster_okD(3) [OF ok i]])
        (use cluster_okD(1) [OF ok] i won v m(3) camp in \<open>auto simp: campaign_ok_def\<close>)
    moreover have "(currentTerm ?n, p, i) \<in> c_ballots c" if "p \<in> insert i (set (v # vs))" for p
      using that v camp won(1) cluster_okD(6) [OF ok i won(1)] by (auto simp: campaign_ok_def)
    ultimately show ?thesis
      using won by (intro win_simulated [OF ok i won(1)]) auto
  qed
qed

lemma campaign_alone_simulated:
  assumes ok: "cluster_ok ids c" and i: "i \<in> ids" "role (c_nodes c i) = StateCandidate" "n_peers (c_nodes c i) = []"
  shows "simulated ids c ((set_node i (becomeLeader (c_nodes c i)) c)\<lparr>
    c_won := insert (currentTerm (c_nodes c i), i) (c_won c)\<rparr>)"
proof (rule win_simulated [OF ok i(1,2)])
  show "insert i (set []) \<in> majorities ids"
    by (rule counted_majority [OF cluster_okD(3) [OF ok i(1)]])
      (use cluster_okD(1) [OF ok] i in \<open>auto simp: votesNeeded_def\<close>)
qed (use cluster_okD(6) [OF ok i(1,2)] in \<open>auto simp: set_node_def\<close>)

lemma append_entries_simulated:
  assumes ok: "cluster_ok ids c" and m: "AppReq i args \<in> c_net c"
    and h: "on_append_entries args (c_nodes c i) = (Ok reply, n')"
  shows "simulated ids c ((set_node i n' c)\<lparr>
      c_net := insert (AppRep i (ae_leader args) (ae_prev_log_index args + 1) (length (ae_entries args)) reply)
        (c_net c)\<rparr>)" (is "simulated ids c ?c'")
proof -
  let ?n = "c_nodes c i"
  note [simp] = set_node_def
  obtain l where m': "i \<in> ids" "ae_leader args \<in> ids" "(ae_term args, l) \<in> c_won c"
    using cluster_okD(4) [OF ok m] by auto
  note fr = on_append_entries_frame [OF h]
  have static: "n_id n' = n_id ?n" "n_peers n' = n_peers ?n"
    using fr by (auto split: if_splits)
  have vt: "voter_of n' = (if ae_term args < currentTerm ?n then voter_of ?n else voter_of (follow_leader args ?n))"
    using fr by (auto intro!: voter_of_cong split: if_splits)
  have follow: "voter_of (follow_leader args ?n) =
      (if currentTerm ?n < ae_term args \<or> role ?n = StateCandidate
       then (voter_of ?n)\<lparr>vt_term := ae_term args, vt_vote := None, vt_role := Follower\<rparr> else voter_of ?n)"
    by (auto simp: follow_leader_def Let_def BecomeFollower_def voter_of_def saved_of_def vote_of_def)
  show ?thesis
  proof (cases "ae_term args = currentTerm ?n \<and> role ?n = StateCandidate")
    case True
    then have vt': "voter_of n' = (voter_of ?n)\<lparr>vt_vote := None, vt_role := Follower\<rparr>"
      unfolding vt follow by (simp add: voter_of_def)
    have "vote_step (majorities ids) (ledger_of c) (ledger_of ?c')"
      by (rule ledger_concede [of _ _ i n' l]) (use True m' vt' in auto)
    moreover have "handled ?n n'"
      by (intro handled_not_candidate static) (simp add: vt' del: voter_of_simps)
    then have "cluster_ok ids ?c'"
      by (intro cluster_ok_update [OF ok, of _ i n']) (use m' in auto)
    ultimately show ?thesis
      by (auto simp: simulated_def)
  next
    case False
    then have "voter_of n' = voter_of ?n \<or> (\<exists>t. currentTerm ?n < t \<and>
        voter_of n' = (voter_of ?n)\<lparr>vt_term := t, vt_vote := None, vt_role := Follower\<rparr>)"
      unfolding vt follow using less_linear [of "ae_term args" "currentTerm ?n"] by auto
    then show ?thesis
      using m' static by (intro simulated_handler [OF ok, of _ i n']) auto
  qed
qed

lemma append_reply_simulated:
  assumes "cluster_ok ids c"
  shows "simulated ids c (set_node i (on_append_reply p next count reply (c_nodes c i)) c)"
proof (cases "currentTerm (c_nodes c i) < aer_term reply")
  case True
  then show ?thesis
    by (intro simulated_handler [OF assms, of _ i "BecomeFollower (aer_term reply) (c_nodes c i)"])
      (auto simp: set_node_def on_append_reply_def voter_of_BecomeFollower, auto simp: BecomeFollower_def)
next
  case False
  let ?n' = "on_append_reply p next count reply (c_nodes c i)"
  have "voter_of ?n' = voter_of (c_nodes c i)" "n_id ?n' = n_id (c_nodes c i)" "n_peers ?n' = n_peers (c_nodes c i)"
    using False by (auto simp: on_append_reply_def intro!: voter_of_cong)
  then show ?thesis
    by (intro simulated_handler [OF assms, of _ i ?n']) (auto simp: set_node_def)
qed

lemma propose_simulated:
  assumes "cluster_ok ids c"
  shows "simulated ids c (set_node i (snd (appendCommandAndTrack cmd (c_nodes c i))) c)"
proof -
  let ?n' = "snd (appendCommandAndTrack cmd (c_nodes c i))"
  have "voter_of ?n' = voter_of (c_nodes c i)" "n_id ?n' = n_id (c_nodes c i)" "n_peers ?n' = n_peers (c_nodes c i)"
    by (auto simp: appendCommandAndTrack_def Let_def intro!: voter_of_cong)
  then show ?thesis
    by (intro simulated_handler [OF assms, of _ i ?n']) (auto simp: set_node_def)
qed

lemma restart_simulated:
  assumes ok: "cluster_ok ids c" and i: "i \<in> ids" "dataDir (c_nodes c i) \<noteq> []"
    and h: "NewNodeStateWithDir (dataDir (c_nodes c i)) (disk_of (c_nodes c i))
      (zero_node i (n_peers (c_nodes c i))) = Ok n'"
  shows "simulated ids c ((set_node i n' c)\<lparr>c_campaign := (c_campaign c)(i := None),
      c_net := {m \<in> c_net c. \<not> awaited_by i m}\<rparr>)" (is "simulated ids c ?c'")
proof -
  note fr = restart_frame [OF h i(2)]
  obtain t w where tw: "saved_of (c_nodes c i) = Some (t, w)"
    "voter_of n' = (voter_of (c_nodes c i))\<lparr>vt_term := t, vt_vote := w, vt_role := Follower\<rparr>"
    using fr(4) by blast
  have "vote_step (majorities ids) (ledger_of c) (ledger_of ?c')"
    by (rule ledger_recover [of _ _ i n' t w]) (use tw in \<open>auto simp: set_node_def\<close>)
  moreover have "n_id n' = n_id (c_nodes c i)"
    using fr(1) cluster_okD(3) [OF ok i(1)] by (simp add: node_ok_def)
  then have "cluster_ok ids ?c'"
    by (intro cluster_ok_update [OF ok, of _ i n'])
      (use fr in \<open>auto simp: set_node_def handled_def split: if_splits\<close>)
  ultimately show ?thesis
    by (auto simp: simulated_def)
qed

lemma send_append_simulated:
  assumes ok: "cluster_ok ids c" and inv: "ledger_inv (majorities ids) (ledger_of c)"
    and i: "i \<in> ids" "p \<in> set (n_peers (c_nodes c i))" "replicate_args p (c_nodes c i) = Some args"
  shows "simulated ids c (c\<lparr>c_net := insert (AppReq p args) (c_net c)\<rparr>)"
proof (rule simulated_handler [OF ok, of _ i "c_nodes c i"])
  have lead: "role (c_nodes c i) = StateLeader" "ae_term args = currentTerm (c_nodes c i)"
    "ae_leader args = n_id (c_nodes c i)"
    using i(3) by (auto simp: replicate_args_def Let_def split: if_splits)
  then have "vt_role (voters (ledger_of c) i) = Leader"
    by simp
  then have "(vt_term (voters (ledger_of c) i), i) \<in> won (ledger_of c)"
    using inv unfolding ledger_inv_def roles_ok_def by blast
  then have "msg_ok ids (c_ballots c) (c_won c) (AppReq p args)"
    using lead i cluster_okD(3) [OF ok i(1)] by (auto simp: node_ok_def)
  then show "m \<in> c_net c \<or> msg_ok ids (c_ballots c) (c_won c) m"
    if "m \<in> c_net (c\<lparr>c_net := insert (AppReq p args) (c_net c)\<rparr>)" for m
    using that by auto
qed auto

lemma campaign_simulated:
  assumes ok: "cluster_ok ids c" and i: "i \<in> ids" "role (c_nodes c i) = StateCandidate"
  shows "simulated ids c (c\<lparr>c_campaign := (c_campaign c)(i := Some (currentTerm (c_nodes c i), [])),
      c_net := c_net c \<union> (\<lambda>p. VoteReq p (vote_request (c_nodes c i))) ` set (n_peers (c_nodes c i))\<rparr>)"
    (is "simulated ids c ?c'")
proof -
  have n: "n_id (c_nodes c i) = i" "set (n_peers (c_nodes c i)) = ids - {i}"
    using cluster_okD(3) [OF ok i(1)] by (simp_all add: node_ok_def)
  have "cluster_ok ids ?c'"
  proof (rule cluster_ok_update [OF ok, of _ i "c_nodes c i"])
    show "m \<in> c_net c \<or> msg_ok ids (c_ballots ?c') (c_won ?c') m" if "m \<in> c_net ?c'" for m
    proof -
      have "m \<in> c_net c \<or> m \<in> (\<lambda>p. VoteReq p (vote_request (c_nodes c i))) ` set (n_peers (c_nodes c i))"
        using that by simp
      then show ?thesis
      proof
        assume "m \<in> (\<lambda>p. VoteReq p (vote_request (c_nodes c i))) ` set (n_peers (c_nodes c i))"
        then obtain p where "m = VoteReq p (vote_request (c_nodes c i))" "p \<in> ids - {i}"
          unfolding n(2) by (rule imageE)
        then show ?thesis
          using i(1) n(1) by (auto simp: vote_request_def)
      qed simp
    qed
    show "c_campaign c j = Some r \<or> campaign_ok ids (c_ballots ?c') j (c_nodes ?c' j) r"
      if "c_campaign ?c' j = Some r" for j r
    proof (cases "j = i")
      case True
      with that have "r = (currentTerm (c_nodes c i), [])" by simp
      with True i(1) show ?thesis by (simp add: campaign_ok_def)
    next
      case False
      with that show ?thesis by simp
    qed
  qed (simp_all add: handled_def)
  moreover have "ledger_of ?c' = ledger_of c"
    by (simp add: ledger_of_def)
  ultimately show ?thesis
    by (simp add: simulated_def)
qed

theorem raft_step_simulated:
  assumes "raft_step True ids c c'" "cluster_ok ids c" "ledger_inv (majorities ids) (ledger_of c)"
  shows "simulated ids c c'"
  using assms(1)
proof cases
  case (election_timeout i n n')
  then show ?thesis using timeout_simulated [OF assms(2)] by simp
next
  case (campaign i n)
  then show ?thesis using campaign_simulated [OF assms(2)] by simp
next
  case (campaign_alone i n)
  then show ?thesis using campaign_alone_simulated [OF assms(2)] by simp
next
  case (request_vote i args reply n')
  then show ?thesis using request_vote_simulated [OF assms(2)] by simp
next
  case (vote_reply v i t reply n granted n')
  then show ?thesis using vote_reply_simulated [OF assms(2)] by simp
next
  case (vote_count v i t vs n counted n')
  then show ?thesis using vote_count_simulated [OF assms(2)] by simp
next
  case (send_append i p args)
  then show ?thesis using send_append_simulated [OF assms(2,3)] by simp
next
  case (append_entries i args reply n')
  then show ?thesis using append_entries_simulated [OF assms(2)] by simp
next
  case (append_reply p i "next" count reply)
  then show ?thesis using append_reply_simulated [OF assms(2)] by simp
next
  case (propose i cmd)
  then show ?thesis using propose_simulated [OF assms(2)] by simp
next
  case (restart i n n')
  then show ?thesis using restart_simulated [OF assms(2)] by simp
qed

lemma initial_cluster_ok:
  assumes "initial_cluster ids c"
  shows "cluster_ok ids c" "ledger_inv (majorities ids) (ledger_of c)"
proof -
  show "cluster_ok ids c"
    using assms by (auto simp: initial_cluster_def cluster_ok_def node_ok_def)
  have "fresh_ledger (ledger_of c)"
    using assms by (simp add: initial_cluster_def fresh_ledger_def)
  then show "ledger_inv (majorities ids) (ledger_of c)"
    by (rule fresh_ledger_inv)
qed

lemma raft_steps_inv:
  assumes "(raft_step True ids)\<^sup>*\<^sup>* c c'" "initial_cluster ids c"
  shows "cluster_ok ids c' \<and> ledger_inv (majorities ids) (ledger_of c')"
  using assms(1)
proof induction
  case base
  then show ?case using initial_cluster_ok [OF assms(2)] by simp
next
  case (step c1 c2)
  then have "simulated ids c1 c2"
    using raft_step_simulated by blast
  with step.IH show ?case
    unfolding simulated_def using majority.ledger_inv_steps by blast
qed

end
