(* ===== verification/Raft_Trace.thy ===== *)
theory Raft_Trace
  imports Raft_Election
begin

text \<open>
  A run of a three-node cluster, step by step: node 1 is elected in term 2; then node 2 handles the
  reply to a vote request of its own, long finished election and forgets its vote; node 3 is
  elected in term 2 as well.
\<close>

section \<open>The nodes along the run\<close>

definition "node_a0 = zero_node 1 [2, 3]"
definition "node_b0 = zero_node 2 [1, 3]"
definition "node_c0 = zero_node 3 [1, 2]"
definition "node_a1 = start_election node_a0"
definition "node_a2 = start_election node_a1"
definition "node_a3 = becomeLeader node_a2"
definition "node_b1 = start_election node_b0"
definition "node_c1 = start_election node_c0"
definition "node_c2 = start_election node_c1"
definition "node_c3 = becomeLeader node_c2"
definition "node_b2 = snd (on_request_vote (vote_request node_a2) node_b1)"
definition "node_b3 = BecomeFollower 2 node_b2"
definition "node_b4 = snd (on_request_vote (vote_request node_c2) node_b3)"

definition reply_stale :: request_vote_reply where "reply_stale = \<lparr>rvr_term = 2, rvr_granted = False\<rparr>"
definition reply_yes :: request_vote_reply where "reply_yes = \<lparr>rvr_term = 2, rvr_granted = True\<rparr>"

lemmas early_defs = node_a0_def node_b0_def node_c0_def node_a1_def node_a2_def node_b1_def
  node_c1_def node_c2_def

lemmas op_defs = start_election_def state_defs zero_node_def vote_request_def LastIndex_def LastTerm_def
  NewRaftLog_def initial_entry_def entry_term_def

lemma early_nodes:
  "role node_b0 = StateFollower" "currentTerm node_b0 = 0"
  "role node_b1 = StateCandidate" "currentTerm node_b1 = 1" "n_peers node_b1 = [1, 3]"
  "role node_c0 = StateFollower" "currentTerm node_c0 = 0" "role node_c1 = StateCandidate"
  "currentTerm node_c1 = 1" "role node_c2 = StateCandidate" "currentTerm node_c2 = 2"
  "n_peers node_c2 = [1, 2]" "role node_a0 = StateFollower" "currentTerm node_a0 = 0"
  "role node_a1 = StateCandidate" "currentTerm node_a1 = 1" "role node_a2 = StateCandidate"
  "currentTerm node_a2 = 2" "n_peers node_a2 = [2, 3]"
  by (simp_all add: early_defs op_defs)

lemma vote_requests:
  "vote_request node_b1 = \<lparr>rv_term = 1, rv_candidate = 2, rv_last_log_index = 0, rv_last_log_term = 0\<rparr>"
  "vote_request node_a2 = \<lparr>rv_term = 2, rv_candidate = 1, rv_last_log_index = 0, rv_last_log_term = 0\<rparr>"
  "vote_request node_c2 = \<lparr>rv_term = 2, rv_candidate = 3, rv_last_log_index = 0, rv_last_log_term = 0\<rparr>"
  by (simp_all add: early_defs op_defs)

lemma request_fields:
  "rv_candidate (vote_request node_b1) = 2" "rv_term (vote_request node_b1) = 1"
  "rv_candidate (vote_request node_a2) = 1" "rv_term (vote_request node_a2) = 2"
  "rv_candidate (vote_request node_c2) = 3" "rv_term (vote_request node_c2) = 2"
  by (simp_all add: vote_requests)

lemma answers:
  "on_request_vote (vote_request node_b1) node_c2 = (reply_stale, node_c2)"
  "on_request_vote (vote_request node_a2) node_b1 = (reply_yes, node_b2)"
  "on_request_vote (vote_request node_c2) node_b3 = (reply_yes, node_b4)"
  "currentTerm node_b2 = 2"
  unfolding vote_requests node_b2_def node_b3_def node_b4_def
  by (simp_all add: on_request_vote_def Let_def log_up_to_date_def early_defs op_defs reply_stale_def
      reply_yes_def)

lemma replies:
  "on_vote_reply 2 reply_yes n = (True, n)" "on_vote_reply 1 reply_stale node_b2 = (False, node_b3)"
  by (simp_all add: on_vote_reply_def reply_yes_def reply_stale_def node_b3_def)

lemma counts:
  "count_vote True (Suc 0) node_a2 = (None, node_a3)" "count_vote True (Suc 0) node_c2 = (None, node_c3)"
  by (simp_all add: count_vote_def early_nodes votesNeeded_def node_a3_def node_c3_def)

lemma leaders:
  "role node_a3 = StateLeader" "role node_c3 = StateLeader" "currentTerm node_a3 = 2" "currentTerm node_c3 = 2"
  by (simp_all add: node_a3_def node_c3_def early_nodes)

section \<open>The run\<close>

definition trace_ids :: "uint64 set" where "trace_ids = {1, 2, 3}"

definition cl0 :: cluster where
  "cl0 = \<lparr>c_nodes = (\<lambda>i. if i = 1 then node_a0 else if i = 2 then node_b0 else if i = 3 then node_c0
     else zero_node i []), c_campaign = (\<lambda>_. None), c_net = {}, c_ballots = {}, c_won = {}\<rparr>"

lemma cl0_initial: "initial_cluster trace_ids cl0"
  by (auto simp: initial_cluster_def trace_ids_def cl0_def early_defs zero_node_def)

text \<open>A station of a run: the nodes, their campaigns, and messages that are on the net.\<close>

definition station ::
  "bool \<Rightarrow> uint64 set \<Rightarrow> cluster \<Rightarrow> (uint64 \<Rightarrow> node) \<Rightarrow> (uint64 \<Rightarrow> (uint64 \<times> uint64 list) option)
    \<Rightarrow> message set \<Rightarrow> bool" where
  "station fresh ids c0 f k ms \<longleftrightarrow>
     (\<exists>c. (raft_step fresh ids)\<^sup>*\<^sup>* c0 c \<and> c_nodes c = f \<and> c_campaign c = k \<and> ms \<subseteq> c_net c)"

lemma stationI:
  assumes "(raft_step fresh ids)\<^sup>*\<^sup>* c0 c" "raft_step fresh ids c c'" "c_nodes c' = f'" "c_campaign c' = k'"
    "ms' \<subseteq> c_net c'"
  shows "station fresh ids c0 f' k' ms'"
  unfolding station_def using assms rtranclp.rtrancl_into_rtrancl by metis

lemma station_timeout:
  assumes "station fresh ids c0 f k ms" "i \<in> ids" "role (f i) \<noteq> StateLeader" "currentTerm (f i) < - 1"
  shows "station fresh ids c0 (f(i := start_election (f i))) (k(i := None)) ms"
proof -
  obtain c where c: "(raft_step fresh ids)\<^sup>*\<^sup>* c0 c" "c_nodes c = f" "c_campaign c = k" "ms \<subseteq> c_net c"
    using assms(1) by (auto simp: station_def)
  show ?thesis
    by (rule stationI [OF c(1) raft_step.election_timeout [OF assms(2) refl _ _ refl]])
      (use assms(3,4) c in \<open>simp_all add: set_node_def\<close>)
qed

lemma station_campaign:
  assumes "station fresh ids c0 f k ms" "i \<in> ids" "role (f i) = StateCandidate" "n_peers (f i) \<noteq> []"
  shows "station fresh ids c0 f (k(i := Some (currentTerm (f i), [])))
    (ms \<union> (\<lambda>p. VoteReq p (vote_request (f i))) ` set (n_peers (f i)))"
proof -
  obtain c where c: "(raft_step fresh ids)\<^sup>*\<^sup>* c0 c" "c_nodes c = f" "c_campaign c = k" "ms \<subseteq> c_net c"
    using assms(1) by (auto simp: station_def)
  show ?thesis
    by (rule stationI [OF c(1) raft_step.campaign [OF assms(2) refl]])
      (use assms(3,4) c in \<open>auto simp: set_node_def\<close>)
qed

lemma station_request:
  assumes "station fresh ids c0 f k ms" "VoteReq i args \<in> ms" "on_request_vote args (f i) = (reply, n')"
  shows "station fresh ids c0 (f(i := n')) k (insert (VoteRep i (rv_candidate args) (rv_term args) reply) ms)"
proof -
  obtain c where c: "(raft_step fresh ids)\<^sup>*\<^sup>* c0 c" "c_nodes c = f" "c_campaign c = k" "ms \<subseteq> c_net c"
    using assms(1) by (auto simp: station_def)
  show ?thesis
    by (rule stationI [OF c(1) raft_step.request_vote [of i args _ reply n']])
      (use assms(2,3) c in \<open>auto simp: set_node_def\<close>)
qed

lemma station_reply:
  assumes "station fresh ids c0 f k ms" "VoteRep v i t reply \<in> ms" "fresh \<Longrightarrow> \<not> stale_step_down t reply (f i)"
    "on_vote_reply t reply (f i) = (granted, n')"
  shows "station fresh ids c0 (f(i := n')) k (if granted then insert (VoteGrant v i t) ms else ms)"
proof -
  obtain c where c: "(raft_step fresh ids)\<^sup>*\<^sup>* c0 c" "c_nodes c = f" "c_campaign c = k" "ms \<subseteq> c_net c"
    using assms(1) by (auto simp: station_def)
  show ?thesis
    by (rule stationI [OF c(1) raft_step.vote_reply [of v i t reply _ "f i" _ granted n']])
      (use assms(2-4) c in \<open>auto simp: set_node_def\<close>)
qed

lemma station_count:
  assumes "station fresh ids c0 f k ms" "VoteGrant v i t \<in> ms" "k i = Some (t, vs)" "v \<notin> set vs"
    "count_vote True (1 + length vs) (f i) = (None, n')"
  shows "station fresh ids c0 (f(i := n')) (k(i := None)) ms"
proof -
  obtain c where c: "(raft_step fresh ids)\<^sup>*\<^sup>* c0 c" "c_nodes c = f" "c_campaign c = k" "ms \<subseteq> c_net c"
    using assms(1) by (auto simp: station_def)
  show ?thesis
    by (rule stationI [OF c(1) raft_step.vote_count [of v i t _ vs "f i" None n']])
      (use assms(2-5) c in \<open>auto simp: set_node_def\<close>)
qed

section \<open>Node 1 is elected\<close>

definition nodes3 :: "node \<Rightarrow> node \<Rightarrow> node \<Rightarrow> uint64 \<Rightarrow> node" where
  "nodes3 a b c = (\<lambda>i. if i = 1 then a else if i = 2 then b else if i = 3 then c else zero_node i [])"

lemma nodes3_simps [simp]:
  "nodes3 a b c 1 = a" "nodes3 a b c 2 = b" "nodes3 a b c 3 = c"
  "(nodes3 a b c)(1 := a') = nodes3 a' b c" "(nodes3 a b c)(2 := b') = nodes3 a b' c"
  "(nodes3 a b c)(3 := c') = nodes3 a b c'"
  by (auto simp: nodes3_def)

lemma trace_ids_mem [simp]: "1 \<in> trace_ids" "2 \<in> trace_ids" "3 \<in> trace_ids"
  by (simp_all add: trace_ids_def)

lemma run_start: "station fresh trace_ids cl0 (nodes3 node_a0 node_b0 node_c0) (\<lambda>_. None) {}"
  unfolding station_def by (rule exI [of _ cl0]) (simp add: cl0_def nodes3_def)

lemma small_terms [simp]: "(0 :: uint64) < - 1" "(1 :: uint64) < - 1"
  by code_simp+

lemma run_b_stands: "station fresh trace_ids cl0 (nodes3 node_a0 node_b1 node_c0) (\<lambda>_. None) {}"
  using station_timeout [OF run_start, of 2 fresh] by (simp add: early_nodes node_b1_def [symmetric])

lemma run_b_campaign:
  "station fresh trace_ids cl0 (nodes3 node_a0 node_b1 node_c0) [2 \<mapsto> (1, [])]
    {VoteReq 1 (vote_request node_b1), VoteReq 3 (vote_request node_b1)}"
  using station_campaign [OF run_b_stands, of 2 fresh] by (simp add: early_nodes)

lemma run_c_stands:
  "station fresh trace_ids cl0 (nodes3 node_a0 node_b1 node_c2) [2 \<mapsto> (1, [])]
    {VoteReq 1 (vote_request node_b1), VoteReq 3 (vote_request node_b1)}"
proof -
  have "station fresh trace_ids cl0 (nodes3 node_a0 node_b1 node_c1) [2 \<mapsto> (1, [])]
    {VoteReq 1 (vote_request node_b1), VoteReq 3 (vote_request node_b1)}"
    using station_timeout [OF run_b_campaign, of 3 fresh]
    by (simp add: early_nodes node_c1_def [symmetric] fun_upd_idem)
  from station_timeout [OF this, of 3] show ?thesis
    by (simp add: early_nodes node_c2_def [symmetric] fun_upd_idem)
qed

text \<open>Node 3, in term 2, turns the request of node 2 down; the reply stays on the net.\<close>

lemma run_stale_reply:
  "station fresh trace_ids cl0 (nodes3 node_a0 node_b1 node_c2) [2 \<mapsto> (1, [])] {VoteRep 3 2 1 reply_stale}"
  using station_request [OF run_c_stands, of 3 "vote_request node_b1" reply_stale node_c2 fresh]
  by (auto simp: answers request_fields station_def)

lemma run_a_campaign:
  "station fresh trace_ids cl0 (nodes3 node_a2 node_b1 node_c2) [2 \<mapsto> (1, []), 1 \<mapsto> (2, [])]
    {VoteRep 3 2 1 reply_stale, VoteReq 2 (vote_request node_a2)}"
proof -
  have "station fresh trace_ids cl0 (nodes3 node_a1 node_b1 node_c2) [2 \<mapsto> (1, [])] {VoteRep 3 2 1 reply_stale}"
    using station_timeout [OF run_stale_reply, of 1 fresh]
    by (simp add: early_nodes node_a1_def [symmetric] fun_upd_idem)
  from station_timeout [OF this, of 1]
  have "station fresh trace_ids cl0 (nodes3 node_a2 node_b1 node_c2) [2 \<mapsto> (1, [])] {VoteRep 3 2 1 reply_stale}"
    by (simp add: early_nodes node_a2_def [symmetric] fun_upd_idem)
  from station_campaign [OF this, of 1] show ?thesis
    by (auto simp: early_nodes station_def)
qed

lemma run_b_votes:
  "station fresh trace_ids cl0 (nodes3 node_a2 node_b2 node_c2) [2 \<mapsto> (1, []), 1 \<mapsto> (2, [])]
    {VoteRep 3 2 1 reply_stale, VoteRep 2 1 2 reply_yes}"
  using station_request [OF run_a_campaign, of 2 "vote_request node_a2" reply_yes node_b2 fresh]
  by (auto simp: answers request_fields station_def)

lemma run_a_elected:
  "station fresh trace_ids cl0 (nodes3 node_a3 node_b2 node_c2) [2 \<mapsto> (1, [])]
    {VoteRep 3 2 1 reply_stale}"
proof -
  have "station fresh trace_ids cl0 (nodes3 node_a2 node_b2 node_c2) [2 \<mapsto> (1, []), 1 \<mapsto> (2, [])]
    {VoteGrant 2 1 2, VoteRep 3 2 1 reply_stale, VoteRep 2 1 2 reply_yes}"
    using station_reply [OF run_b_votes, of 2 1 2 reply_yes fresh True node_a2]
    by (simp add: replies) (simp add: stale_step_down_def reply_yes_def)
  from station_count [OF this, of 2 1 2 "[]" node_a3] show ?thesis
    by (auto simp: counts station_def fun_upd_idem)
qed

section \<open>Node 3 is elected in the same term\<close>

lemma run_b_forgets:
  "station False trace_ids cl0 (nodes3 node_a3 node_b3 node_c2) [2 \<mapsto> (1, [])] {}"
  using station_reply [OF run_a_elected, of 3 2 1 reply_stale False False node_b3]
  by (auto simp: replies station_def)

lemma run_c_elected: "\<exists>k. station False trace_ids cl0 (nodes3 node_a3 node_b4 node_c3) k {}"
proof -
  have "station False trace_ids cl0 (nodes3 node_a3 node_b3 node_c2) [2 \<mapsto> (1, []), 3 \<mapsto> (2, [])]
    {VoteReq 2 (vote_request node_c2)}"
    using station_campaign [OF run_b_forgets, of 3] by (auto simp: early_nodes station_def)
  from station_request [OF this, of 2 "vote_request node_c2" reply_yes node_b4]
  have "station False trace_ids cl0 (nodes3 node_a3 node_b4 node_c2) [2 \<mapsto> (1, []), 3 \<mapsto> (2, [])]
    {VoteRep 2 3 2 reply_yes}"
    by (auto simp: answers request_fields station_def)
  from station_reply [OF this, of 2 3 2 reply_yes True node_c2]
  have "station False trace_ids cl0 (nodes3 node_a3 node_b4 node_c2) [2 \<mapsto> (1, []), 3 \<mapsto> (2, [])]
    {VoteGrant 2 3 2}"
    by (auto simp: replies station_def)
  from station_count [OF this, of 2 3 2 "[]" node_c3] show ?thesis
    by (auto simp: counts station_def)
qed

end
