(* ===== verification/Raft_Props.thy ===== *)
theory Raft_Props
  imports Raft_Trace
begin

text \<open>
  The properties of the replication layer, over the definitions of \<^verbatim>\<open>Raft_Codec\<close>, \<^verbatim>\<open>Raft_Log\<close>,
  \<^verbatim>\<open>Raft_Node\<close> and \<^verbatim>\<open>Raft_Election\<close>.
\<close>

section \<open>Elections\<close>

text \<open>
  C1. Election safety. In every run of a cluster, with messages delayed, duplicated, reordered and
  lost and nodes restarting from their files, two leaders of the same term are the same node, as
  long as no vote reply makes a node step down to a term it has already reached.
\<close>

theorem election_safety:
  assumes "initial_cluster ids c" "(raft_step True ids)\<^sup>*\<^sup>* c c'"
    "role (c_nodes c' a) = StateLeader" "role (c_nodes c' b) = StateLeader"
    "currentTerm (c_nodes c' a) = currentTerm (c_nodes c' b)"
  shows "a = b"
proof (rule majority.one_leader)
  show "ledger_inv (majorities ids) (ledger_of c')"
    using raft_steps_inv [OF assms(2,1)] by blast
qed (use assms in simp_all)

theorem election_safety_witness:
  "\<exists>c'. (raft_step True trace_ids)\<^sup>*\<^sup>* cl0 c' \<and> role (c_nodes c' 1) = StateLeader \<and>
     currentTerm (c_nodes c' 1) = 2 \<and>
     {b. role (c_nodes c' b) = StateLeader \<and> currentTerm (c_nodes c' b) = 2} = {1}"
proof -
  obtain c' where c': "(raft_step True trace_ids)\<^sup>*\<^sup>* cl0 c'" "c_nodes c' = nodes3 node_a3 node_b2 node_c2"
    using run_a_elected [of True] by (auto simp: station_def)
  have "role (c_nodes c' 1) = StateLeader" "currentTerm (c_nodes c' 1) = 2"
    by (simp_all add: c'(2) leaders)
  moreover from this have "{b. role (c_nodes c' b) = StateLeader \<and> currentTerm (c_nodes c' b) = 2} = {1}"
    using election_safety [OF cl0_initial c'(1), of 1] by auto
  ultimately show ?thesis
    using c'(1) by blast
qed

text \<open>
  C2. The restriction in C1 is needed. The goroutine that handles a vote reply compares the reply
  with the term in which its election started, not with the current term. A three-node cluster
  reaches two different leaders of term 2.
\<close>

theorem stale_vote_reply_elects_two_leaders:
  "\<exists>c c'. initial_cluster {1, 2, 3} c \<and> (raft_step False {1, 2, 3})\<^sup>*\<^sup>* c c' \<and>
     role (c_nodes c' 1) = StateLeader \<and> role (c_nodes c' 3) = StateLeader \<and>
     currentTerm (c_nodes c' 1) = currentTerm (c_nodes c' 3)"
proof -
  obtain k where "station False trace_ids cl0 (nodes3 node_a3 node_b4 node_c3) k {}"
    using run_c_elected by blast
  then obtain c' where "(raft_step False trace_ids)\<^sup>*\<^sup>* cl0 c'" "c_nodes c' = nodes3 node_a3 node_b4 node_c3"
    by (auto simp: station_def)
  then show ?thesis
    using cl0_initial by (intro exI [of _ cl0] exI [of _ c']) (simp add: leaders trace_ids_def)
qed



section \<open>Votes\<close>

text \<open>
  C4. A granted vote survives a crash: the node that starts again from the files the voter left has
  the term and the vote it answered with. A vote is only granted when none was given in that term or
  the same one, to a candidate whose log is at least as up to date.
\<close>

theorem granted_vote_is_durable:
  assumes "on_request_vote args n = (reply, n')" "rvr_granted reply" "dataDir n \<noteq> []"
    "NewNodeStateWithDir (dataDir n') (disk_of n') (zero_node i ps) = Ok m"
  shows "currentTerm m = rv_term args \<and> votedFor m = rv_candidate args \<and>
    (currentTerm n = rv_term args \<longrightarrow> votedFor n \<in> {0, rv_candidate args}) \<and> log_up_to_date args n"
proof -
  note g = on_request_vote_granted [OF assms(1,2)]
  have dir: "dataDir n' \<noteq> []"
    using assms(1,3) by (auto simp: on_request_vote_def Let_def BecomeFollower_def split: if_splits)
  have "currentTerm m = rv_term args \<and> votedFor m = rv_candidate args"
    using assms(4) dir g(5) [OF assms(3)]
    by (auto simp: NewNodeStateWithDir_def disk_of_def loadPersistedState_def Let_def split: outcome.splits option.splits)
  then show ?thesis
    using g(3,4) by auto
qed

definition sample_voter :: node where
  "sample_voter = (zero_node 2 [1, 3])\<lparr>dataDir := [47], log := NewRaftLog\<lparr>l_file := Some \<lparr>f_data = [], f_pos = 0\<rparr>\<rparr>\<rparr>"

definition sample_request :: request_vote_args where
  "sample_request = \<lparr>rv_term = 5, rv_candidate = 1, rv_last_log_index = 0, rv_last_log_term = 0\<rparr>"

theorem granted_vote_is_durable_witness:
  "\<exists>m. NewNodeStateWithDir [47] (disk_of (snd (on_request_vote sample_request sample_voter))) (zero_node 2 [1, 3]) = Ok m \<and>
     currentTerm m = 5 \<and> votedFor m = 1"
proof -
  let ?r = "fst (on_request_vote sample_request sample_voter)"
  let ?n = "snd (on_request_vote sample_request sample_voter)"
  have ev: "rvr_granted ?r" "dataDir ?n = [47]" "dataDir sample_voter \<noteq> []"
    "f_data (the (l_file (log ?n))) = []" "l_file (log ?n) \<noteq> None"
    by (simp_all add: sample_request_def sample_voter_def on_request_vote_def Let_def log_up_to_date_def op_defs)
  then have "d_log (disk_of ?n) = frames []"
    by (auto simp: disk_of_def frames_def)
  then obtain m where m: "NewNodeStateWithDir [47] (disk_of ?n) (zero_node 2 [1, 3]) = Ok m"
    using NewRaftLogWithDir_frames [of "[]"] by (simp add: NewNodeStateWithDir_def)
  with granted_vote_is_durable [of sample_request sample_voter ?r ?n 2 "[1, 3]" m] ev show ?thesis
    by (simp add: sample_request_def)
qed

section \<open>Log replication\<close>

text \<open>
  C5. An AppendEntries message of a current leader whose previous entry matches is accepted, and the
  log afterwards is the old one merged with the received entries: everything up to the previous
  entry is kept, the terms at the received positions are the received ones, and delivering the same
  message again leaves the log as it is.
\<close>

theorem append_entries_merges:
  assumes "currentTerm n \<le> ae_term args" "prev_matches args n" "ae_entries args = map Some es"
    "l_entries (log n) \<noteq> []" "length (l_entries (log n)) + length es < 2 ^ 63"
  defines "k \<equiv> Suc (unat (ae_prev_log_index args))"
  shows "\<exists>reply n'. on_append_entries args n = (Ok reply, n') \<and> aer_success reply \<and>
    l_entries (log n') = merge_entries (l_entries (log n)) k es \<and>
    take k (l_entries (log n')) = take k (l_entries (log n)) \<and>
    (\<forall>i < length es. entry_term (l_entries (log n') ! (k + i)) = e_term (es ! i)) \<and>
    merge_entries (l_entries (log n')) k es = l_entries (log n')"
proof -
  have k: "k \<le> length (l_entries (log n))"
    using assms(2,4) by (cases "l_entries (log n)") (auto simp: prev_matches_def k_def)
  have "length (l_entries (log n)) + length es < 2 ^ 64"
    using assms(5) by simp
  then obtain n' where n': "on_append_entries args n =
      (Ok \<lparr>aer_term = ae_term args, aer_success = True, aer_conflict_term = 0, aer_conflict_index = 0\<rparr>, n')"
    "l_entries (log n') = merge_entries (l_entries (log n)) k es"
    using on_append_entries_accepts [OF assms(1-4)] unfolding k_def by blast
  then show ?thesis
    using merge_prefix [OF order_refl k] merge_terms [OF k] merge_idem [OF k] by auto
qed

definition entry_of :: "uint64 \<Rightarrow> uint64 \<Rightarrow> log_entry" where
  "entry_of i t = \<lparr>e_index = i, e_term = t, e_type = LogEntryNoop, e_command = []\<rparr>"

definition sample_follower :: node where
  "sample_follower = (zero_node 2 [1, 3])\<lparr>currentTerm := 2, commitIndex := 1,
     log := \<lparr>l_entries = [Some initial_entry, Some (entry_of 1 1), Some (entry_of 2 1), Some (entry_of 3 1)], l_file = None\<rparr>\<rparr>"

definition sample_append :: append_entries_args where
  "sample_append = \<lparr>ae_term = 3, ae_leader = 1, ae_prev_log_index = 1, ae_prev_log_term = 1,
     ae_entries = map Some [entry_of 2 3], ae_leader_commit = 2\<rparr>"

lemma sample_append_ok:
  "currentTerm sample_follower \<le> ae_term sample_append" "prev_matches sample_append sample_follower"
  "ae_entries sample_append = map Some [entry_of 2 3]" "l_entries (log sample_follower) \<noteq> []"
  "length (l_entries (log sample_follower)) + length [entry_of 2 3] < 2 ^ 63"
  by (simp_all add: sample_append_def sample_follower_def prev_matches_def TermAt_def entry_term_def entry_of_def)

theorem append_entries_merges_witness:
  "\<exists>reply n'. on_append_entries sample_append sample_follower = (Ok reply, n') \<and> aer_success reply \<and>
     l_entries (log n') = [Some initial_entry, Some (entry_of 1 1), Some (entry_of 2 3)]"
  using append_entries_merges [OF sample_append_ok]
  by (auto simp: sample_append_def sample_follower_def entry_term_def entry_of_def)

text \<open>
  C6. Accepting entries never touches the committed prefix and never moves the commit index back, as
  long as the received entries agree in term with the stored committed ones.
\<close>

theorem append_entries_keeps_committed:
  assumes "currentTerm n \<le> ae_term args" "prev_matches args n" "ae_entries args = map Some es"
    "unat (commitIndex n) < length (l_entries (log n))" "length (l_entries (log n)) + length es < 2 ^ 63"
    "\<forall>j < length es. Suc (unat (ae_prev_log_index args)) + j \<le> unat (commitIndex n) \<longrightarrow>
       entry_term (l_entries (log n) ! (Suc (unat (ae_prev_log_index args)) + j)) = e_term (es ! j)"
    "on_append_entries args n = (Ok reply, n')"
  shows "take (Suc (unat (commitIndex n))) (l_entries (log n')) = take (Suc (unat (commitIndex n))) (l_entries (log n)) \<and>
    commitIndex n \<le> commitIndex n' \<and> unat (commitIndex n') < length (l_entries (log n'))"
proof -
  let ?k = "Suc (unat (ae_prev_log_index args))" and ?c = "Suc (unat (commitIndex n))"
  have ne: "l_entries (log n) \<noteq> []" and len64: "length (l_entries (log n)) + length es < 2 ^ 64"
    using assms(4,5) by auto
  have k: "?k \<le> length (l_entries (log n))"
    using assms(2) ne by (cases "l_entries (log n)") (auto simp: prev_matches_def)
  have n': "l_entries (log n') = merge_entries (l_entries (log n)) ?k es"
    "commitIndex n' = (if commitIndex n < ae_leader_commit args
      then min (LastIndex (log n')) (ae_leader_commit args) else commitIndex n)"
    using on_append_entries_accepts [OF assms(1-3) ne len64] assms(7) by auto
  have pre: "?c \<le> length (l_entries (log n'))" "take ?c (l_entries (log n')) = take ?c (l_entries (log n))"
    unfolding n'(1) using merge_agreeing_prefix [OF k, of ?c es] assms(4,6) by auto
  have "length (l_entries (log n')) \<le> 2 ^ 64"
    unfolding n'(1) using merge_length_le [OF k, of es] len64 by simp
  then have "unat (LastIndex (log n')) = length (l_entries (log n')) - 1"
    using pre(1) by (intro LastIndex_unat) auto
  then show ?thesis
    using pre unfolding n'(2) by (auto simp: min_def word_le_nat_alt word_less_nat_alt)
qed

theorem append_entries_keeps_committed_witness:
  "\<exists>reply n'. on_append_entries sample_append sample_follower = (Ok reply, n') \<and>
     take 2 (l_entries (log n')) = [Some initial_entry, Some (entry_of 1 1)] \<and> 1 \<le> commitIndex n'"
proof -
  obtain reply n' where h: "on_append_entries sample_append sample_follower = (Ok reply, n')"
    using on_append_entries_accepts [OF sample_append_ok(1-4)] by (auto simp: sample_follower_def)
  have "unat (commitIndex sample_follower) < length (l_entries (log sample_follower))"
    "\<forall>j < length [entry_of 2 3]. Suc (unat (ae_prev_log_index sample_append)) + j \<le> unat (commitIndex sample_follower) \<longrightarrow>
       entry_term (l_entries (log sample_follower) ! (Suc (unat (ae_prev_log_index sample_append)) + j)) = e_term ([entry_of 2 3] ! j)"
    by (simp_all add: sample_follower_def sample_append_def)
  from append_entries_keeps_committed [OF sample_append_ok(1-3) this(1) sample_append_ok(5) this(2) h] h show ?thesis
    by (auto simp: sample_follower_def numeral_2_eq_2)
qed


definition sample_leader :: node where
  "sample_leader = (zero_node 1 [2, 3])\<lparr>currentTerm := 2, role := StateLeader, matchIndex := [(2, 2), (3, 0)],
     nextIndex := [(2, 3), (3, 4)],
     log := \<lparr>l_entries = [Some initial_entry, Some (entry_of 1 1), Some (entry_of 2 2), Some (entry_of 3 2)], l_file = None\<rparr>\<rparr>"


text \<open>
  When a follower rejects entries because of a conflicting term, the conflict index it answers
  with is the first index of the run of that term that ends at the previous entry.
\<close>

lemma conflict_index_starts_the_run:
  assumes "currentTerm n \<le> ae_term args" "0 < ae_prev_log_index args" "ae_prev_log_index args \<le> LastIndex (log n)"
    "TermAt (log n) (ae_prev_log_index args) \<noteq> ae_prev_log_term args"
  shows "\<exists>reply n' j. on_append_entries args n = (Ok reply, n') \<and> \<not> aer_success reply \<and> log n' = log n \<and>
    aer_conflict_term reply = TermAt (log n) (ae_prev_log_index args) \<and>
    aer_conflict_index reply = log_index j \<and> 0 < j \<and> j \<le> unat (ae_prev_log_index args) \<and>
    (\<forall>i. j \<le> i \<and> i \<le> unat (ae_prev_log_index args) \<longrightarrow> TermAt (log n) (log_index i) = aer_conflict_term reply) \<and>
    (j = 1 \<or> TermAt (log n) (log_index (j - 1)) \<noteq> aer_conflict_term reply)"
proof -
  let ?p = "ae_prev_log_index args" and ?t = "TermAt (log n) (ae_prev_log_index args)"
  obtain j where j: "find_conflict (log n) ?t (unat ?p) = log_index j" "0 < j" "j \<le> unat ?p"
    "\<forall>i. j \<le> i \<longrightarrow> i \<le> unat ?p \<longrightarrow> TermAt (log n) (log_index i) = ?t"
    "j = 1 \<or> TermAt (log n) (log_index (j - 1)) \<noteq> ?t"
    using find_conflict_run [of "unat ?p" "log n" ?t] assms(2) by (auto simp: unat_gt_0 word_gt_0)
  have "on_append_entries args n = (Ok \<lparr>aer_term = ae_term args, aer_success = False, aer_conflict_term = ?t,
      aer_conflict_index = log_index j\<rparr>, follow_leader args n)"
    using assms by (auto simp: on_append_entries_def Let_def j(1))
  then show ?thesis
    using j(2-5) by auto
qed

definition sample_conflict :: append_entries_args where
  "sample_conflict = \<lparr>ae_term = 3, ae_leader = 1, ae_prev_log_index = 3, ae_prev_log_term = 2,
     ae_entries = [], ae_leader_commit = 0\<rparr>"

lemma conflict_index_starts_the_run_example:
  "\<exists>reply n' j. on_append_entries sample_conflict sample_follower = (Ok reply, n') \<and> \<not> aer_success reply \<and>
     aer_conflict_term reply = 1 \<and> aer_conflict_index reply = log_index j \<and> 0 < j \<and> j \<le> 3"
proof -
  have "currentTerm sample_follower \<le> ae_term sample_conflict" "0 < ae_prev_log_index sample_conflict"
    "ae_prev_log_index sample_conflict \<le> LastIndex (log sample_follower)"
    "TermAt (log sample_follower) (ae_prev_log_index sample_conflict) \<noteq> ae_prev_log_term sample_conflict"
    by (simp_all add: sample_conflict_def sample_follower_def LastIndex_def TermAt_def entry_term_def entry_of_def)
  from conflict_index_starts_the_run [OF this] show ?thesis
    by (auto simp: sample_conflict_def sample_follower_def TermAt_def entry_term_def entry_of_def)
qed

section \<open>The apply loop\<close>

text \<open>
  C9. One pass of the apply loop hands the committed, not yet applied entries to the state machine
  in index order, each exactly once, and stops before counting the first fatal one: it computes the
  reference run, and \<^verbatim>\<open>lastApplied\<close> advances by the number of entries the run counted.
\<close>

theorem apply_pass_runs_committed:
  assumes "lastApplied n \<le> commitIndex n" "unat (commitIndex n) < length (l_entries (log n))"
    "None \<notin> set (l_entries (log n))"
    "run_entries f (committed_segment n (unat (lastApplied n)) (unat (commitIndex n))) sm = (k, sm')"
  shows "\<exists>n'. applyLoop_pass f (n, sm) = (Ok (), n', sm') \<and> log n' = log n \<and>
    unat (lastApplied n') = unat (lastApplied n) + k \<and> lastApplied n' \<le> commitIndex n'"
proof -
  obtain n' where n': "applyLoop_pass f (n, sm) = (Ok (), n', sm')" "log n' = log n" "commitIndex n' = commitIndex n"
    "unat (lastApplied n') = unat (lastApplied n) + k"
    using apply_committed_run [OF assms(1) refl assms(2,3), of f sm] assms(4)
    by (auto simp: applyLoop_pass_def)
  have "k \<le> unat (commitIndex n) - unat (lastApplied n)"
    using run_entries_le [of f "committed_segment n (unat (lastApplied n)) (unat (commitIndex n))" sm] assms(2,4)
    by (simp add: committed_segment_def)
  then have "lastApplied n' \<le> commitIndex n'"
    using n'(3,4) assms(1) by (simp add: word_le_nat_alt)
  with n' show ?thesis by blast
qed

definition sample_applier :: node where
  "sample_applier = sample_follower\<lparr>commitIndex := 3\<rparr>"

theorem apply_pass_runs_committed_witness:
  "\<exists>n'. applyLoop_pass (\<lambda>cmd m. (None, m + 1)) (sample_applier, Some (0 :: nat)) = (Ok (), n', Some 0) \<and>
     lastApplied n' = 3"
proof -
  have h: "lastApplied sample_applier \<le> commitIndex sample_applier"
    "unat (commitIndex sample_applier) < length (l_entries (log sample_applier))"
    "None \<notin> set (l_entries (log sample_applier))"
    "run_entries (\<lambda>cmd m. (None, m + 1)) (committed_segment sample_applier (unat (lastApplied sample_applier))
       (unat (commitIndex sample_applier))) (Some (0 :: nat)) = (3, Some 0)"
    by (simp_all add: sample_applier_def sample_follower_def zero_node_def committed_segment_def apply_entry_def
        entry_of_def LogEntryNoop_def LogEntryCommand_def)
  from apply_pass_runs_committed [OF h] show ?thesis
    by (auto simp: sample_applier_def sample_follower_def zero_node_def word_unat_eq_iff)
qed

text \<open>
  State machine safety. Two nodes that agree on the committed entries they have not applied yet
  and on their state machines have the same state machine after a pass, whatever the machine's
  \<^verbatim>\<open>Apply\<close> does.
\<close>

lemma replicas_apply_the_same:
  assumes "lastApplied n1 \<le> commitIndex n1" "unat (commitIndex n1) < length (l_entries (log n1))"
    "None \<notin> set (l_entries (log n1))"
    and "lastApplied n2 = lastApplied n1" "commitIndex n2 = commitIndex n1"
    "unat (commitIndex n2) < length (l_entries (log n2))" "None \<notin> set (l_entries (log n2))"
    and "\<And>i. unat (lastApplied n1) < i \<Longrightarrow> i \<le> unat (commitIndex n1) \<Longrightarrow> l_entries (log n1) ! i = l_entries (log n2) ! i"
  shows "snd (snd (applyLoop_pass f (n1, sm))) = snd (snd (applyLoop_pass f (n2, sm)))"
proof -
  let ?a = "unat (lastApplied n1)" and ?c = "unat (commitIndex n1)"
  have "take (?c - ?a) (drop (Suc ?a) (l_entries (log n1))) = take (?c - ?a) (drop (Suc ?a) (l_entries (log n2)))"
    using assms(2,5,6,8) by (intro nth_equalityI) auto
  then have "committed_segment n1 ?a ?c = committed_segment n2 ?a ?c"
    by (simp add: committed_segment_def)
  then show ?thesis
    using apply_committed_run [OF assms(1) refl assms(2,3), of f sm] assms(1)
      apply_committed_run [of "lastApplied n2" "commitIndex n2" n2 f sm] assms(4-7)
    by (auto simp: applyLoop_pass_def)
qed

lemma replicas_apply_the_same_example:
  "snd (snd (applyLoop_pass (\<lambda>cmd m. (None, m + 1)) (sample_applier, Some (0 :: nat)))) =
   snd (snd (applyLoop_pass (\<lambda>cmd m. (None, m + 1)) (sample_applier\<lparr>n_id := 3\<rparr>, Some 0)))"
  by (rule replicas_apply_the_same)
    (simp_all add: sample_applier_def sample_follower_def zero_node_def)

section \<open>Progress of replication\<close>

text \<open>
  Backtracking makes progress. When a follower in the leader's term or below rejects the
  entries a leader sends, the leader's handling of that answer lowers the next index of the
  follower, which is at least 1, and keeps it at least 1, so that after finitely many rounds the logs match.
\<close>

lemma rejection_lowers_next_index:
  assumes "replicate_args p l = Some args" "0 < map_get (nextIndex l) p" "currentTerm f \<le> currentTerm l"
    "on_append_entries args f = (Ok reply, f')" "\<not> aer_success reply"
  defines "l' \<equiv> on_append_reply p (map_get (nextIndex l) p) (length (ae_entries args)) reply l"
  shows "map_get (nextIndex l') p < map_get (nextIndex l) p \<and> 0 < map_get (nextIndex l') p"
proof -
  let ?next = "map_get (nextIndex l) p" and ?prev = "ae_prev_log_index args"
  have args: "ae_term args = currentTerm l" "?prev = ?next - 1"
    using assms(1) by (auto simp: replicate_args_def Let_def split: if_splits)
  have get: "map_get (nextIndex (SetNextIndex p i n)) p = i" for i n
    by (simp add: map_get_def SetNextIndex_def update_conv')
  consider (short) "0 < ?prev" "aer_term reply = currentTerm l" "aer_conflict_term reply = 0"
    | (conflict) "0 < ?prev" "aer_term reply = currentTerm l"
        "aer_conflict_index reply = find_conflict (log f) (TermAt (log f) ?prev) (unat ?prev)"
    using rejected_reply [OF assms(4,5)] assms(3) args(1) by auto
  then show ?thesis
  proof cases
    case short
    then show ?thesis
      using args(2) get word_prev [OF assms(2)] assms(5) by (auto simp: l'_def on_append_reply_def)
  next
    case conflict
    obtain j where j: "aer_conflict_index reply = log_index j" "0 < j" "j \<le> unat ?prev"
      using find_conflict_run [of "unat ?prev" "log f" "TermAt (log f) ?prev"] conflict by (auto simp: unat_gt_0 word_gt_0)
    have uj: "unat (log_index j) = j"
      by (rule unat_log_index) (use j(3) le_less_trans [OF _ uint64_less] in auto)
    have "log_index j < ?next" "0 < log_index j"
      using j word_prev [OF assms(2)] conflict(1) args(2) uj by (auto simp: word_less_nat_alt)
    then show ?thesis
      using conflict j(1) args(2) get word_prev [OF assms(2)] assms(5) by (auto simp: l'_def on_append_reply_def)
  qed
qed

lemma rejection_lowers_next_index_example:
  "\<exists>args reply f'. replicate_args 3 sample_leader = Some args \<and> on_append_entries args sample_voter = (Ok reply, f') \<and>
     map_get (nextIndex (on_append_reply 3 4 (length (ae_entries args)) reply sample_leader)) 3 < 4"
proof -
  obtain args where args: "replicate_args 3 sample_leader = Some args" "ae_term args = 2" "ae_prev_log_index args = 3"
    by (simp add: replicate_args_def sample_leader_def map_get_def zero_node_def)
  obtain reply f' where h: "on_append_entries args sample_voter = (Ok reply, f')" "\<not> aer_success reply"
    using args(2,3) by (simp add: on_append_entries_def Let_def sample_voter_def zero_node_def LastIndex_def NewRaftLog_def)
  have "currentTerm sample_voter \<le> currentTerm sample_leader" "map_get (nextIndex sample_leader) 3 = 4"
    by (simp_all add: sample_voter_def sample_leader_def zero_node_def map_get_def)
  with rejection_lowers_next_index [OF args(1) _ _ h] args(1) h(1) show ?thesis
    by auto
qed

section \<open>Durability of the log\<close>


lemma sample_numbered: "numbered [entry_of 1 1, entry_of 2 1, entry_of 3 1]"
  by (auto simp: numbered_def entry_of_def log_index_def less_Suc_eq numeral_3_eq_3)


text \<open>
  C13. Truncation is not durable. A follower that truncates its log at a conflict and appends the
  leader's entry there has, in memory, nothing behind that entry; after a restart the truncated
  entries behind it are back.
\<close>

theorem truncated_tail_returns_on_restart:
  assumes "numbered es" "\<forall>e \<in> set es. storable e" "storable e" "j < length es" "e_index e = log_index (Suc j)"
  defines "l \<equiv> fold Log_Append es (reloaded [])"
  defines "l' \<equiv> Log_Append e (TruncateFrom (log_index (Suc j)) l)"
  shows "l_entries l' = Some initial_entry # map Some (take j es @ [e]) \<and>
    (\<exists>r. NewRaftLogWithDir (map_option f_data (l_file l')) = Ok r \<and>
      l_entries r = Some initial_entry # map Some (es[j := e]))"
proof -
  have l: "file_holds l es" "l_entries l = Some initial_entry # map Some es"
    unfolding l_def using appended_log [of "reloaded []" "[]" es] by (simp_all add: file_holds_def reloaded_Nil frames_def)
  have "unat (log_index (Suc j)) = Suc j"
    using assms(1,4) by (intro unat_log_index) (auto simp: numbered_def)
  then have "l_entries l' = Some initial_entry # map Some (take j es @ [e])"
    using assms(4) by (simp add: l'_def TruncateFrom_def l(2) take_map)
  moreover have "file_holds l' (es @ [e])"
    unfolding l'_def using l(1) by (intro Log_Append_file) (simp add: file_holds_def)
  then have fd: "map_option f_data (l_file l') = Some (frames (es @ [e]))"
    by (simp add: file_holds_def)
  moreover have "NewRaftLogWithDir (Some (frames (es @ [e]))) = Ok (reloaded (es @ [e]))"
    using assms(2,3) by (intro NewRaftLogWithDir_frames) auto
  ultimately show ?thesis
    unfolding fd using reload_overwritten [OF assms(1,4,5)] by simp
qed

theorem truncated_tail_returns_on_restart_witness:
  "let l = fold Log_Append [entry_of 1 1, entry_of 2 1, entry_of 3 1] (reloaded []);
       l' = Log_Append (entry_of 2 2) (TruncateFrom (log_index 2) l)
   in l_entries l' = [Some initial_entry, Some (entry_of 1 1), Some (entry_of 2 2)] \<and>
      (\<exists>r. NewRaftLogWithDir (map_option f_data (l_file l')) = Ok r \<and>
        l_entries r = [Some initial_entry, Some (entry_of 1 1), Some (entry_of 2 2), Some (entry_of 3 1)])"
  using truncated_tail_returns_on_restart [OF sample_numbered, of "entry_of 2 2" 1]
  by (simp add: storable_def entry_of_def log_index_def Let_def numeral_2_eq_2)

text \<open>
  C14. A crash in the middle of an append leaves a file that does not load: with any proper,
  non-empty part of a frame at its end the log refuses to open, although all earlier entries are
  intact.
\<close>

theorem torn_append_blocks_restart:
  assumes "\<forall>e \<in> set es. storable e" "storable e" "0 < k" "k < length (frame e)"
  shows "NewRaftLogWithDir (Some (frames es @ take k (frame e))) = Fail (if k = 4 then EOF else ErrUnexpectedEOF)"
proof -
  obtain r where "load_loop (take k (frame e)) (fold store_entry es (Map.empty, 0))
      = (Fail (if k = 4 then EOF else ErrUnexpectedEOF), r)"
    using load_loop_torn [OF assms(2-4)] by blast
  then show ?thesis
    using load_loop_frames [OF assms(1), of "take k (frame e)" "(Map.empty, 0)"]
    by (simp add: NewRaftLogWithDir_def loadFromDisk_def)
qed

theorem torn_append_blocks_restart_witness:
  "NewRaftLogWithDir (Some (frames [entry_of 1 1] @ take 10 (frame (entry_of 2 1)))) = Fail ErrUnexpectedEOF"
  using torn_append_blocks_restart [of "[entry_of 1 1]" "entry_of 2 1" 10] by (simp add: storable_def entry_of_def)

section \<open>Formats\<close>


text \<open>
  C16. RPC messages: the fixed-size messages always survive the wire; an AppendEntries message does
  exactly when it has at most 10000 entries, none of them nil and each below 4 GiB, and a snapshot
  exactly when it is below 4 GiB.
\<close>

theorem rpc_roundtrip_iff:
  "DeserializeRequestVoteArgs (RequestVoteArgs_Serialize rv) = Ok rv \<and>
   DeserializeRequestVoteReply (RequestVoteReply_Serialize rvr) = Ok rvr \<and>
   DeserializeAppendEntriesReply (AppendEntriesReply_Serialize aer) = Ok aer \<and>
   DeserializeInstallSnapshotReply (InstallSnapshotReply_Serialize isr) = Ok isr \<and>
   ((\<exists>bs. AppendEntriesArgs_Serialize ae = Ok bs \<and> DeserializeAppendEntriesArgs bs = Ok ae) \<longleftrightarrow> short_append ae) \<and>
   (DeserializeInstallSnapshotArgs (InstallSnapshotArgs_Serialize is) = Ok is \<longleftrightarrow> short_snapshot is)"
  using fixed_rpc_roundtrips AppendEntriesArgs_roundtrip DeserializeAppendEntriesArgs_short
    DeserializeInstallSnapshotArgs_Serialize DeserializeInstallSnapshotArgs_short
  by metis

end
