(* ===== verification/Go_Strings.thy ===== *)
theory Go_Strings
  imports Oba_Prelude "HOL-Library.Sublist"
begin

text \<open>
  The functions of Go's \<^verbatim>\<open>strings\<close> package that the sources use, on byte strings. Their
  ASCII paths are written out. What Go computes beyond ASCII depends on the Unicode tables,
  which are a parameter: a \<open>unicode\<close> record holds the operations that consult them
  (\<^verbatim>\<open>Map(unicode.ToLower, s)\<close>, the Unicode part of \<^verbatim>\<open>EqualFold\<close>, \<^verbatim>\<open>TrimFunc\<close> and
  \<^verbatim>\<open>TrimRightFunc\<close> with \<^verbatim>\<open>unicode.IsSpace\<close>, and \<^verbatim>\<open>strconv.Quote\<close> of a string that is not ASCII).
\<close>

section \<open>Literals and characters\<close>

definition lit :: "string \<Rightarrow> bytes" where
  "lit s = map of_char s"

abbreviation comma :: byte where "comma \<equiv> 44"

lemma lit_Nil [simp]: "lit [] = []"
  by (simp add: lit_def)

lemma lit_Cons: "lit (c # s) = of_char c # lit s"
  by (simp add: lit_def)

lemma of_char_byte_inj: "(of_char c :: byte) = of_char d \<longleftrightarrow> c = d"
proof
  assume eq: "(of_char c :: byte) = of_char d"
  have "unat (of_char c :: byte) = of_char c" for c
  proof -
    have "(of_char c :: byte) = of_nat (of_char c)" by (simp add: of_nat_of_char)
    moreover have "of_char c < (256 :: nat)"
      using of_char_mod_256 [of c, where 'a = nat] by (metis mod_less_divisor zero_less_numeral)
    ultimately show ?thesis by (simp add: unat_of_nat take_bit_nat_eq_self)
  qed
  with eq have "(of_char c :: nat) = of_char d" by metis
  then show "c = d" by simp
qed simp

lemma lit_eq_iff [simp]: "lit s = lit t \<longleftrightarrow> s = t"
  unfolding lit_def
  by (rule inj_map_eq_map) (simp add: inj_def of_char_byte_inj)

lemma lit_empty_iff [simp]: "lit s = [] \<longleftrightarrow> s = []" "[] = lit s \<longleftrightarrow> s = []"
  by (auto simp: lit_def)

section \<open>Case and white space\<close>

record unicode =
  map_to_lower :: "bytes \<Rightarrow> bytes"
  fold_equal :: "bytes \<Rightarrow> bytes \<Rightarrow> bool"
  trim_space :: "bytes \<Rightarrow> bytes"
  trim_space_right :: "bytes \<Rightarrow> bytes"
  quote_wide :: "bytes \<Rightarrow> bytes"

text \<open>Tables without any character beyond ASCII, for concrete evaluations.\<close>

definition plain_unicode :: unicode where
  "plain_unicode =
     \<lparr>map_to_lower = (\<lambda>s. s), fold_equal = (=), trim_space = (\<lambda>s. s), trim_space_right = (\<lambda>s. s),
      quote_wide = (\<lambda>s. [34] @ s @ [34])\<rparr>"

definition is_ascii :: "byte \<Rightarrow> bool" where
  "is_ascii b \<longleftrightarrow> b < 0x80"

definition lower_byte :: "byte \<Rightarrow> byte" where
  "lower_byte b = (if 65 \<le> b \<and> b \<le> 90 then b + 32 else b)"

definition ToLower :: "unicode \<Rightarrow> bytes \<Rightarrow> bytes" where
  "ToLower U s = (if list_all is_ascii s then map lower_byte s else map_to_lower U s)"

fun EqualFold :: "unicode \<Rightarrow> bytes \<Rightarrow> bytes \<Rightarrow> bool" where
  "EqualFold U (a # s) (b # t) =
     (if is_ascii a \<and> is_ascii b
      then lower_byte a = lower_byte b \<and> EqualFold U s t
      else fold_equal U (a # s) (b # t))"
| "EqualFold U s t \<longleftrightarrow> s = [] \<and> t = []"

definition ascii_space :: "byte \<Rightarrow> bool" where
  "ascii_space b \<longleftrightarrow> b = 9 \<or> b = 10 \<or> b = 11 \<or> b = 12 \<or> b = 13 \<or> b = 32"

text \<open>The second loop of \<^verbatim>\<open>TrimSpace\<close>, on the reversed string.\<close>

fun trim_end :: "unicode \<Rightarrow> bytes \<Rightarrow> bytes" where
  "trim_end U [] = []"
| "trim_end U (b # r) =
     (if \<not> is_ascii b then trim_space_right U (rev (b # r))
      else if ascii_space b then trim_end U r
      else rev (b # r))"

fun TrimSpace :: "unicode \<Rightarrow> bytes \<Rightarrow> bytes" where
  "TrimSpace U [] = []"
| "TrimSpace U (b # s) =
     (if \<not> is_ascii b then trim_space U (b # s)
      else if ascii_space b then TrimSpace U s
      else trim_end U (rev (b # s)))"

section \<open>Searching and cutting\<close>

definition HasPrefix :: "bytes \<Rightarrow> bytes \<Rightarrow> bool" where
  "HasPrefix s p \<longleftrightarrow> length p \<le> length s \<and> take (length p) s = p"

definition HasSuffix :: "bytes \<Rightarrow> bytes \<Rightarrow> bool" where
  "HasSuffix s p \<longleftrightarrow> length p \<le> length s \<and> drop (length s - length p) s = p"

definition TrimPrefix :: "bytes \<Rightarrow> bytes \<Rightarrow> bytes" where
  "TrimPrefix s p = (if HasPrefix s p then drop (length p) s else s)"

definition TrimSuffix :: "bytes \<Rightarrow> bytes \<Rightarrow> bytes" where
  "TrimSuffix s p = (if HasSuffix s p then take (length s - length p) s else s)"

text \<open>The position of the first occurrence; \<open>None\<close> is Go's \<open>-1\<close>.\<close>

fun Index :: "bytes \<Rightarrow> bytes \<Rightarrow> nat option" where
  "Index [] p = (if p = [] then Some 0 else None)"
| "Index (b # s) p =
     (if HasPrefix (b # s) p then Some 0 else map_option Suc (Index s p))"

definition Contains :: "bytes \<Rightarrow> bytes \<Rightarrow> bool" where
  "Contains s p \<longleftrightarrow> Index s p \<noteq> None"

text \<open>\<^verbatim>\<open>Split\<close> by a separator of one byte, and \<^verbatim>\<open>SplitN\<close> with \<open>n = 2\<close>.\<close>

fun Split :: "byte \<Rightarrow> bytes \<Rightarrow> bytes list" where
  "Split c [] = [[]]"
| "Split c (b # s) =
     (if b = c then [] # Split c s
      else (b # hd (Split c s)) # tl (Split c s))"

definition SplitN2 :: "byte \<Rightarrow> bytes \<Rightarrow> bytes list" where
  "SplitN2 c s =
     (case Index s [c] of None \<Rightarrow> [s] | Some i \<Rightarrow> [take i s, drop (Suc i) s])"

fun Join :: "bytes list \<Rightarrow> bytes \<Rightarrow> bytes" where
  "Join [] sep = []"
| "Join [x] sep = x"
| "Join (x # y # xs) sep = x @ sep @ Join (y # xs) sep"

text \<open>\<^verbatim>\<open>TrimLeft\<close>, \<^verbatim>\<open>TrimRight\<close> and \<^verbatim>\<open>Trim\<close> with a cutset of ASCII bytes.\<close>

definition TrimLeft :: "bytes \<Rightarrow> bytes \<Rightarrow> bytes" where
  "TrimLeft s cutset = dropWhile (\<lambda>b. b \<in> set cutset) s"

definition TrimRight :: "bytes \<Rightarrow> bytes \<Rightarrow> bytes" where
  "TrimRight s cutset = rev (dropWhile (\<lambda>b. b \<in> set cutset) (rev s))"

definition Trim :: "bytes \<Rightarrow> bytes \<Rightarrow> bytes" where
  "Trim s cutset = TrimRight (TrimLeft s cutset) cutset"

section \<open>Conversions\<close>

text \<open>\<^verbatim>\<open>strconv.Atoi\<close>: an optional sign and decimal digits within 64 bits.\<close>

definition is_digit :: "byte \<Rightarrow> bool" where
  "is_digit b \<longleftrightarrow> 48 \<le> b \<and> b \<le> 57"

definition digits_value :: "bytes \<Rightarrow> int" where
  "digits_value ds = foldl (\<lambda>n d. 10 * n + (uint d - 48)) 0 ds"

definition Atoi :: "bytes \<Rightarrow> int option" where
  "Atoi s =
     (let neg = (s \<noteq> [] \<and> hd s = 45);
          ds = (if s \<noteq> [] \<and> (hd s = 45 \<or> hd s = 43) then tl s else s);
          v = (if neg then - digits_value ds else digits_value ds)
      in if ds \<noteq> [] \<and> list_all is_digit ds \<and> - (2 ^ 63) \<le> v \<and> v < 2 ^ 63 then Some v else None)"

text \<open>\<^verbatim>\<open>strconv.Quote\<close>, the verb \<^verbatim>\<open>%q\<close>.\<close>

definition hex_digit :: "byte \<Rightarrow> byte" where
  "hex_digit n = (if n < 10 then n + 48 else n + 87)"

definition quote_byte :: "byte \<Rightarrow> bytes" where
  "quote_byte b =
     (if b = 34 \<or> b = 92 then [92, b]
      else if 32 \<le> b \<and> b < 127 then [b]
      else if b = 7 then lit [CHR 0x5C, CHR ''a''] else if b = 8 then lit [CHR 0x5C, CHR ''b'']
      else if b = 12 then lit [CHR 0x5C, CHR ''f''] else if b = 10 then lit [CHR 0x5C, CHR ''n'']
      else if b = 13 then lit [CHR 0x5C, CHR ''r''] else if b = 9 then lit [CHR 0x5C, CHR ''t'']
      else if b = 11 then lit [CHR 0x5C, CHR ''v'']
      else lit [CHR 0x5C, CHR ''x''] @ [hex_digit (drop_bit 4 b), hex_digit (b AND 15)])"

definition Quote :: "unicode \<Rightarrow> bytes \<Rightarrow> bytes" where
  "Quote U s =
     (if list_all is_ascii s then [34] @ concat (map quote_byte s) @ [34] else quote_wide U s)"

section \<open>Lemmas\<close>

lemma HasPrefix_iff: "HasPrefix s p \<longleftrightarrow> (\<exists>t. s = p @ t)"
  unfolding HasPrefix_def by (metis append_eq_conv_conj append_take_drop_id length_append le_add1)

lemma HasSuffix_iff: "HasSuffix s p \<longleftrightarrow> (\<exists>t. s = t @ p)"
proof
  assume "HasSuffix s p"
  then have "s = take (length s - length p) s @ p"
    unfolding HasSuffix_def by (metis append_take_drop_id)
  then show "\<exists>t. s = t @ p" ..
qed (auto simp: HasSuffix_def)

lemma HasSuffix_append [simp]: "HasSuffix (t @ p) p"
  by (auto simp: HasSuffix_iff)

lemma HasPrefix_append [simp]: "HasPrefix (p @ t) p"
  by (auto simp: HasPrefix_iff)

lemma TrimSuffix_append [simp]: "TrimSuffix (t @ p) p = t"
  by (simp add: TrimSuffix_def)

lemma TrimPrefix_append [simp]: "TrimPrefix (p @ t) p = t"
  by (simp add: TrimPrefix_def)

lemma Contains_byte [simp]: "Contains s [c] \<longleftrightarrow> c \<in> set s"
  unfolding Contains_def by (induction s) (auto simp: HasPrefix_def)

lemma Index_byte:
  "c \<notin> set x \<Longrightarrow> Index (x @ c # y) [c] = Some (length x)"
  by (induction x) (auto simp: HasPrefix_def)

lemma SplitN2_append [simp]: "c \<notin> set x \<Longrightarrow> SplitN2 c (x @ c # y) = [x, y]"
  by (simp add: SplitN2_def Index_byte)

lemma Split_not_Nil [simp]: "Split c s \<noteq> []"
  by (cases s) auto

lemma Split_no_sep: "x \<in> set (Split c s) \<Longrightarrow> c \<notin> set x"
proof (induction s arbitrary: x)
  case (Cons b s)
  have "hd (Split c s) \<in> set (Split c s)" by simp
  then show ?case
    using Cons list.set_sel(2) [OF Split_not_Nil] by (fastforce split: if_splits)
qed simp

lemma Split_single: "c \<notin> set x \<Longrightarrow> Split c x = [x]"
  by (induction x) auto

lemma Split_append: "Split c (x @ c # y) = Split c x @ Split c y"
  by (induction x) auto

lemma Join_Cons: "xs \<noteq> [] \<Longrightarrow> Join (x # xs) sep = x @ sep @ Join xs sep"
  by (cases xs) auto

lemma Join_append:
  "xs \<noteq> [] \<Longrightarrow> ys \<noteq> [] \<Longrightarrow> Join (xs @ ys) sep = Join xs sep @ sep @ Join ys sep"
proof (induction xs)
  case (Cons x xs)
  then show ?case by (cases "xs = []") (simp_all add: Join_Cons)
qed simp

lemma Join_Cons_byte: "Join ((b # x) # xs) sep = b # Join (x # xs) sep"
  by (cases xs) auto

lemma Join_Split [simp]: "Join (Split c s) [c] = s"
proof (induction s)
  case (Cons b s)
  then show ?case
    by (cases "Split c s") (auto simp: Join_Cons Join_Cons_byte neq_Nil_conv)
qed simp

lemma Split_inject: "Split c s = Split c t \<longleftrightarrow> s = t"
  by (metis Join_Split)

lemma Split_Join:
  "xs \<noteq> [] \<Longrightarrow> \<forall>x\<in>set xs. c \<notin> set x \<Longrightarrow> Split c (Join xs [c]) = xs"
proof (induction xs)
  case (Cons x xs)
  then show ?case
    by (cases "xs = []") (simp_all add: Split_single Join_Cons Split_append)
qed simp

lemma ToLower_lit: "list_all is_ascii s \<Longrightarrow> ToLower U s = map lower_byte s"
  by (simp add: ToLower_def)

lemma lower_byte_idem [simp]: "lower_byte (lower_byte b) = lower_byte b"
  by (simp add: lower_byte_def word_le_nat_alt unat_word_ariths)

lemma EqualFold_refl_ascii: "list_all is_ascii s \<Longrightarrow> EqualFold U s s"
  by (induction s) auto

lemma EqualFold_ascii:
  "list_all is_ascii s \<Longrightarrow> list_all is_ascii t \<Longrightarrow>
     EqualFold U s t \<longleftrightarrow> map lower_byte s = map lower_byte t"
  by (induction U s t rule: EqualFold.induct) auto

end
