(* ===== verification/Acl.thy ===== *)
theory Acl
  imports Go_Strings
begin

text \<open>
  Access control (\<^verbatim>\<open>internal/acl\<close>: \<^verbatim>\<open>types.go\<close>, \<^verbatim>\<open>matcher.go\<close>, \<^verbatim>\<open>evaluator.go\<close>,
  \<^verbatim>\<open>validate.go\<close>): rules, the matching of targets and subjects, the evaluation of the rule
  list and the filtering of attributes. Rules are pointers in the code, so a rule list holds
  options and a nil rule is a panic where the code dereferences it. Attribute maps are
  association lists.
\<close>

named_theorems acl_simps \<open>evaluation of access rules\<close>

section \<open>Types\<close>

type_synonym right = "64 word"

definition Read :: right where "Read = 1"
definition Write :: right where "Write = push_bit 1 1"
definition Add :: right where "Add = push_bit 2 1"
definition Delete :: right where "Delete = push_bit 3 1"
definition Search :: right where "Search = push_bit 4 1"
definition Compare :: right where "Compare = push_bit 5 1"
definition All_rights :: right where
  "All_rights = Read OR Write OR Add OR Delete OR Search OR Compare"

lemmas right_defs = Read_def Write_def Add_def Delete_def Search_def Compare_def All_rights_def

definition Right_String :: "right \<Rightarrow> bytes" where
  "Right_String r =
     (if r = Read then lit ''read'' else if r = Write then lit ''write''
      else if r = Add then lit ''add'' else if r = Delete then lit ''delete''
      else if r = Search then lit ''search'' else if r = Compare then lit ''compare''
      else if r = All_rights then lit ''all'' else lit ''unknown'')"

definition Has :: "right \<Rightarrow> right \<Rightarrow> bool" where
  "Has r other \<longleftrightarrow> r AND other \<noteq> 0"

type_synonym scope = int

definition ScopeBase :: scope where "ScopeBase = 0"
definition ScopeOne :: scope where "ScopeOne = 1"
definition ScopeSubtree :: scope where "ScopeSubtree = 2"

lemmas scope_defs = ScopeBase_def ScopeOne_def ScopeSubtree_def

definition Scope_String :: "scope \<Rightarrow> bytes" where
  "Scope_String s =
     (if s = ScopeBase then lit ''base'' else if s = ScopeOne then lit ''one''
      else if s = ScopeSubtree then lit ''subtree'' else lit ''unknown'')"

record acl =
  a_target :: bytes
  a_scope :: scope
  a_subject :: bytes
  a_rights :: right
  a_attributes :: "bytes list"
  a_deny :: bool

definition NewACL :: "bytes \<Rightarrow> bytes \<Rightarrow> right \<Rightarrow> acl" where
  "NewACL target subject rights =
     \<lparr>a_target = target, a_scope = ScopeSubtree, a_subject = subject, a_rights = rights,
      a_attributes = [], a_deny = False\<rparr>"

definition WithScope :: "scope \<Rightarrow> acl \<Rightarrow> acl" where
  "WithScope s a = a\<lparr>a_scope := s\<rparr>"

definition WithAttributes :: "bytes list \<Rightarrow> acl \<Rightarrow> acl" where
  "WithAttributes attrs a = a\<lparr>a_attributes := attrs\<rparr>"

definition WithDeny :: "bool \<Rightarrow> acl \<Rightarrow> acl" where
  "WithDeny d a = a\<lparr>a_deny := d\<rparr>"

definition AppliesToAttribute :: "acl \<Rightarrow> bytes \<Rightarrow> bool" where
  "AppliesToAttribute a attr \<longleftrightarrow>
     a_attributes a = [] \<or> (\<exists>allowed \<in> set (a_attributes a). allowed = attr \<or> allowed = lit ''*'')"

record acl_config =
  default_policy :: bytes
  rules :: "acl option list"

definition NewConfig :: acl_config where
  "NewConfig = \<lparr>default_policy = lit ''deny'', rules = []\<rparr>"

definition Config_AddRule :: "acl option \<Rightarrow> acl_config \<Rightarrow> acl_config" where
  "Config_AddRule r c = c\<lparr>rules := rules c @ [r]\<rparr>"

definition Config_SetDefaultPolicy :: "bytes \<Rightarrow> acl_config \<Rightarrow> acl_config" where
  "Config_SetDefaultPolicy p c = c\<lparr>default_policy := p\<rparr>"

definition IsDefaultAllow :: "acl_config \<Rightarrow> bool" where
  "IsDefaultAllow c \<longleftrightarrow> default_policy c = lit ''allow''"

record access_context =
  bindDN :: bytes
  targetDN :: bytes
  operation :: right
  x_attributes :: "bytes list"

definition NewAccessContext :: "bytes \<Rightarrow> bytes \<Rightarrow> right \<Rightarrow> access_context" where
  "NewAccessContext bind target op =
     \<lparr>bindDN = bind, targetDN = target, operation = op, x_attributes = []\<rparr>"

definition IsAnonymous :: "access_context \<Rightarrow> bool" where
  "IsAnonymous c \<longleftrightarrow> bindDN c = []"

definition IsSelf :: "access_context \<Rightarrow> bool" where
  "IsSelf c \<longleftrightarrow> bindDN c \<noteq> [] \<and> bindDN c = targetDN c"

section \<open>Matcher\<close>

definition isImmediateChild :: "bytes \<Rightarrow> bytes \<Rightarrow> bool" where
  "isImmediateChild parent target =
     (if parent = [] \<or> target = [] then False
      else if \<not> HasSuffix target parent then False
      else let pre = TrimSuffix target parent in
        if pre = [] then False
        else let pre = TrimSuffix pre (lit '','') in
          if pre = [] then False
          else \<not> Contains pre (lit '',''))"

definition isSubtreeMatch :: "bytes \<Rightarrow> bytes \<Rightarrow> bool" where
  "isSubtreeMatch base target =
     (if base = [] then True
      else if target = [] then False
      else if target = base then True
      else HasSuffix target (lit '','' @ base))"

definition MatchesTarget :: "unicode \<Rightarrow> acl \<Rightarrow> bytes \<Rightarrow> bool" where
  "MatchesTarget U rule target_dn =
     (let ruleTarget = ToLower U (a_target rule);
          target = ToLower U target_dn
      in if ruleTarget = lit ''*'' then True
         else if a_scope rule = ScopeBase then target = ruleTarget
         else if a_scope rule = ScopeOne then isImmediateChild ruleTarget target
         else if a_scope rule = ScopeSubtree then isSubtreeMatch ruleTarget target
         else False)"

definition MatchesSubject :: "unicode \<Rightarrow> acl \<Rightarrow> bytes \<Rightarrow> bytes \<Rightarrow> bool" where
  "MatchesSubject U rule bind_dn target_dn =
     (let subject = ToLower U (a_subject rule);
          bind = ToLower U bind_dn
      in if subject = lit ''anonymous'' then bind_dn = []
         else if subject = lit ''authenticated'' then bind_dn \<noteq> []
         else if subject = lit ''self'' then bind_dn \<noteq> [] \<and> EqualFold U bind_dn target_dn
         else if subject = lit ''*'' then True
         else bind = subject)"

definition ParseDN :: "unicode \<Rightarrow> bytes \<Rightarrow> bytes list" where
  "ParseDN U dn =
     (if dn = [] then []
      else filter (\<lambda>p. p \<noteq> []) (map (TrimSpace U) (Split comma dn)))"

definition GetParentDN :: "bytes \<Rightarrow> bytes" where
  "GetParentDN dn =
     (if dn = [] then []
      else case Index dn (lit '','') of None \<Rightarrow> [] | Some idx \<Rightarrow> drop (Suc idx) dn)"

definition NormalizeDN :: "unicode \<Rightarrow> bytes \<Rightarrow> bytes" where
  "NormalizeDN U dn =
     (if dn = [] then []
      else Join (map (\<lambda>p. ToLower U (TrimSpace U p)) (ParseDN U dn)) (lit '',''))"

text \<open>One turn of the loop of \<^verbatim>\<open>MatchesPattern\<close>; \<open>False\<close> is its \<^verbatim>\<open>return false\<close>.\<close>

definition matches_part :: "bytes \<Rightarrow> bytes \<Rightarrow> bool" where
  "matches_part p d =
     (if p = lit ''*'' then True
      else if HasSuffix p (lit ''=*'')
      then let dnAttr = SplitN2 61 d
           in \<not> (length dnAttr < 2 \<or> hd dnAttr \<noteq> TrimSuffix p (lit ''=*''))
      else p = d)"

definition MatchesPattern :: "unicode \<Rightarrow> bytes \<Rightarrow> bytes \<Rightarrow> bool" where
  "MatchesPattern U pattern dn =
     (if pattern = lit ''*'' then True
      else let patternParts = ParseDN U (ToLower U pattern);
               dnParts = ParseDN U (ToLower U dn)
           in length patternParts = length dnParts \<and> list_all2 matches_part patternParts dnParts)"

section \<open>Evaluator\<close>

datatype acl_error =
    ErrNilConfig | ErrNilRule | ErrMissingTarget | ErrMissingSubject | ErrMissingRights
  | ErrInvalidPolicy bytes | ErrInvalidRight bytes | ErrInvalidScope bytes | ErrInvalidVersion bytes
  | ErrScopeRange int | ErrIndexOutOfRange int | ErrNoFilePath | ErrFileNotFound
  | ErrRule nat acl_error

record acl_entry =
  en_dn :: bytes
  en_attributes :: "(bytes \<times> bytes list) list"

definition NewEntry :: "bytes \<Rightarrow> acl_entry" where
  "NewEntry dn = \<lparr>en_dn = dn, en_attributes = []\<rparr>"

definition SetAttribute :: "bytes \<Rightarrow> bytes list \<Rightarrow> acl_entry \<Rightarrow> acl_entry" where
  "SetAttribute name values e = e\<lparr>en_attributes := AList.update name values (en_attributes e)\<rparr>"

definition GetAttribute :: "bytes \<Rightarrow> acl_entry \<Rightarrow> bytes list" where
  "GetAttribute name e = (case map_of (en_attributes e) name of None \<Rightarrow> [] | Some vs \<Rightarrow> vs)"

definition HasAttribute :: "bytes \<Rightarrow> acl_entry \<Rightarrow> bool" where
  "HasAttribute name e \<longleftrightarrow> map_of (en_attributes e) name \<noteq> None"

definition NewEvaluator :: "acl_config option \<Rightarrow> acl_config" where
  "NewEvaluator c = (case c of None \<Rightarrow> NewConfig | Some c \<Rightarrow> c)"

text \<open>The loop over the rules: the first rule for which no \<^verbatim>\<open>continue\<close> is taken decides.\<close>

fun check_rules :: "bool \<Rightarrow> (acl \<Rightarrow> bool) \<Rightarrow> acl option list \<Rightarrow> (acl_error, bool) outcome" where
  "check_rules dflt applies [] = Ok dflt"
| "check_rules dflt applies (None # rs) = Panic"
| "check_rules dflt applies (Some r # rs) =
     (if applies r then Ok (\<not> a_deny r) else check_rules dflt applies rs)"

definition rule_applies :: "unicode \<Rightarrow> access_context \<Rightarrow> acl \<Rightarrow> bool" where
  "rule_applies U ctx r \<longleftrightarrow>
     MatchesTarget U r (targetDN ctx) \<and>
     MatchesSubject U r (bindDN ctx) (targetDN ctx) \<and>
     Has (a_rights r) (operation ctx)"

definition attribute_rule_applies :: "unicode \<Rightarrow> access_context \<Rightarrow> bytes \<Rightarrow> acl \<Rightarrow> bool" where
  "attribute_rule_applies U ctx attr r \<longleftrightarrow>
     MatchesTarget U r (targetDN ctx) \<and>
     MatchesSubject U r (bindDN ctx) (targetDN ctx) \<and>
     AppliesToAttribute r attr \<and>
     Has (a_rights r) (operation ctx)"

definition CheckAccess :: "unicode \<Rightarrow> acl_config \<Rightarrow> access_context option \<Rightarrow> (acl_error, bool) outcome" where
  "CheckAccess U c ctx =
     (case ctx of
        None \<Rightarrow> Ok (IsDefaultAllow c)
      | Some ctx \<Rightarrow> check_rules (IsDefaultAllow c) (rule_applies U ctx) (rules c))"

definition CheckAttributeAccess ::
  "unicode \<Rightarrow> acl_config \<Rightarrow> access_context option \<Rightarrow> bytes \<Rightarrow> (acl_error, bool) outcome" where
  "CheckAttributeAccess U c ctx attr =
     (case ctx of
        None \<Rightarrow> Ok (IsDefaultAllow c)
      | Some ctx \<Rightarrow> check_rules (IsDefaultAllow c) (attribute_rule_applies U ctx attr) (rules c))"

text \<open>The loops that keep the elements a check admits; a panic of the check ends them.\<close>

fun keep_if :: "('a \<Rightarrow> (acl_error, bool) outcome) \<Rightarrow> 'a list \<Rightarrow> (acl_error, 'a list) outcome" where
  "keep_if ok [] = Ok []"
| "keep_if ok (x # xs) =
     (case ok x of
        Ok b \<Rightarrow> (case keep_if ok xs of
                   Ok ys \<Rightarrow> Ok (if b then x # ys else ys) | Fail e \<Rightarrow> Fail e | Panic \<Rightarrow> Panic)
      | Fail e \<Rightarrow> Fail e
      | Panic \<Rightarrow> Panic)"

definition FilterAttributes ::
  "unicode \<Rightarrow> acl_config \<Rightarrow> access_context option \<Rightarrow> acl_entry option \<Rightarrow> (acl_error, acl_entry option) outcome" where
  "FilterAttributes U c ctx entry =
     (case entry of
        None \<Rightarrow> Ok None
      | Some e \<Rightarrow>
          (case ctx of
             None \<Rightarrow> Ok (Some (if IsDefaultAllow c then e else NewEntry (en_dn e)))
           | Some ctx \<Rightarrow>
               let readCtx = NewAccessContext (bindDN ctx) (en_dn e) Read in
               (case keep_if (\<lambda>(name, vs). CheckAttributeAccess U c (Some readCtx) name) (en_attributes e) of
                  Ok m \<Rightarrow> Ok (Some ((NewEntry (en_dn e))\<lparr>en_attributes := m\<rparr>))
                | Fail err \<Rightarrow> Fail err
                | Panic \<Rightarrow> Panic)))"

definition FilterAttributeList ::
  "unicode \<Rightarrow> acl_config \<Rightarrow> access_context option \<Rightarrow> bytes list \<Rightarrow> (acl_error, bytes list) outcome" where
  "FilterAttributeList U c ctx attrs =
     (case ctx of
        None \<Rightarrow> Ok (if IsDefaultAllow c then attrs else [])
      | Some ctx \<Rightarrow>
          let readCtx = NewAccessContext (bindDN ctx) (targetDN ctx) Read in
          keep_if (CheckAttributeAccess U c (Some readCtx)) attrs)"

definition CanRead :: "unicode \<Rightarrow> acl_config \<Rightarrow> bytes \<Rightarrow> bytes \<Rightarrow> (acl_error, bool) outcome" where
  "CanRead U c bind target = CheckAccess U c (Some (NewAccessContext bind target Read))"

definition CanWrite :: "unicode \<Rightarrow> acl_config \<Rightarrow> bytes \<Rightarrow> bytes \<Rightarrow> (acl_error, bool) outcome" where
  "CanWrite U c bind target = CheckAccess U c (Some (NewAccessContext bind target Write))"

definition CanAdd :: "unicode \<Rightarrow> acl_config \<Rightarrow> bytes \<Rightarrow> bytes \<Rightarrow> (acl_error, bool) outcome" where
  "CanAdd U c bind target = CheckAccess U c (Some (NewAccessContext bind target Add))"

definition CanDelete :: "unicode \<Rightarrow> acl_config \<Rightarrow> bytes \<Rightarrow> bytes \<Rightarrow> (acl_error, bool) outcome" where
  "CanDelete U c bind target = CheckAccess U c (Some (NewAccessContext bind target Delete))"

definition CanSearch :: "unicode \<Rightarrow> acl_config \<Rightarrow> bytes \<Rightarrow> bytes \<Rightarrow> (acl_error, bool) outcome" where
  "CanSearch U c bind target = CheckAccess U c (Some (NewAccessContext bind target Search))"

definition CanCompare :: "unicode \<Rightarrow> acl_config \<Rightarrow> bytes \<Rightarrow> bytes \<Rightarrow> (acl_error, bool) outcome" where
  "CanCompare U c bind target = CheckAccess U c (Some (NewAccessContext bind target Compare))"

section \<open>Validation\<close>

definition rule_errors :: "acl option \<Rightarrow> acl_error list" where
  "rule_errors rule =
     (case rule of
        None \<Rightarrow> [ErrNilRule]
      | Some r \<Rightarrow>
          (if a_target r = [] then [ErrMissingTarget] else []) @
          (if a_subject r = [] then [ErrMissingSubject] else []) @
          (if a_rights r = 0 then [ErrMissingRights] else []) @
          (if a_scope r < ScopeBase \<or> a_scope r > ScopeSubtree then [ErrScopeRange (a_scope r)] else []))"

definition ValidateConfig :: "acl_config option \<Rightarrow> acl_error list" where
  "ValidateConfig config =
     (case config of
        None \<Rightarrow> [ErrNilConfig]
      | Some c \<Rightarrow>
          (if default_policy c \<noteq> [] \<and> default_policy c \<noteq> lit ''allow'' \<and> default_policy c \<noteq> lit ''deny''
           then [ErrInvalidPolicy (default_policy c)] else []) @
          concat (map (\<lambda>(i, r). map (ErrRule i) (rule_errors r)) (List.enumerate 0 (rules c))))"

end
