(* ===== verification/Acl_Loader.thy ===== *)
theory Acl_Loader
  imports Acl
begin

text \<open>
  The ACL file (\<^verbatim>\<open>internal/acl/loader.go\<close>): substitution of environment variables, the
  line-by-line reader of the YAML subset, and the conversion into a configuration. The
  environment is the parameter \<open>env\<close>; an unset variable is the empty string, as
  \<^verbatim>\<open>os.Getenv\<close> has it.
\<close>

section \<open>Environment variables\<close>

definition env_value :: "(bytes \<Rightarrow> bytes) \<Rightarrow> bytes \<Rightarrow> bytes" where
  "env_value env content =
     (case Index content (lit '':-'') of
        Some idx \<Rightarrow>
          (let varName = take idx content; defaultVal = drop (idx + 2) content
           in if env varName \<noteq> [] then env varName else defaultVal)
      | None \<Rightarrow> env content)"

text \<open>
  The leftmost matches of \<^verbatim>\<open>${([^}]+)}\<close>: a dollar sign and a brace, then at least one byte up
  to the next closing brace.
\<close>

function substituteEnvVars :: "(bytes \<Rightarrow> bytes) \<Rightarrow> bytes \<Rightarrow> bytes" where
  "substituteEnvVars env s =
     (case s of
        [] \<Rightarrow> []
      | b # rest \<Rightarrow>
          if HasPrefix s (lit ''${'')
          then let content = takeWhile (\<lambda>c. c \<noteq> 125) (tl rest);
                   after = dropWhile (\<lambda>c. c \<noteq> 125) (tl rest)
               in if content \<noteq> [] \<and> after \<noteq> []
                  then env_value env content @ substituteEnvVars env (tl after)
                  else b # substituteEnvVars env rest
          else b # substituteEnvVars env rest)"
  by pat_completeness auto
termination
  by (relation "measure (\<lambda>(env, s). length s)")
    (auto simp: HasPrefix_def less_Suc_eq_le le_diff_conv
      intro: order_trans [OF length_dropWhile_le] le_SucI)

declare substituteEnvVars.simps [simp del]

section \<open>The reader\<close>

record file_rule =
  f_target :: bytes
  f_subject :: bytes
  f_scope :: bytes
  f_rights :: "bytes list"
  f_attributes :: "bytes list"
  f_deny :: bool

record file_config =
  f_version :: int
  f_default_policy :: bytes
  f_rules :: "file_rule list"

definition empty_rule :: file_rule where
  "empty_rule = \<lparr>f_target = [], f_subject = [], f_scope = [], f_rights = [], f_attributes = [], f_deny = False\<rparr>"

definition quotes :: bytes where "quotes = [34, 39]"

text \<open>The elements of an inline array \<^verbatim>\<open>[a, b]\<close>.\<close>

definition inline_items :: "unicode \<Rightarrow> bytes \<Rightarrow> bytes list" where
  "inline_items U val =
     filter (\<lambda>r. r \<noteq> []) (map (\<lambda>r. Trim (TrimSpace U r) quotes)
       (Split comma (take (length val - 2) (drop 1 val))))"

definition is_inline :: "bytes \<Rightarrow> bool" where
  "is_inline val \<longleftrightarrow> HasPrefix val (lit ''['') \<and> HasSuffix val (lit '']'')"

text \<open>The rule and the flags \<open>inAttributes\<close> and \<open>inRights\<close> after a \<open>key: value\<close> line.\<close>

definition parseRuleKeyValue :: "unicode \<Rightarrow> bytes \<Rightarrow> file_rule \<Rightarrow> file_rule \<times> bool \<times> bool" where
  "parseRuleKeyValue U line rule =
     (case SplitN2 58 line of
        [k, v] \<Rightarrow>
          (let key = TrimSpace U k; val = Trim (TrimSpace U v) quotes in
           if key = lit ''target'' then (rule\<lparr>f_target := val\<rparr>, False, False)
           else if key = lit ''subject'' then (rule\<lparr>f_subject := val\<rparr>, False, False)
           else if key = lit ''scope'' then (rule\<lparr>f_scope := val\<rparr>, False, False)
           else if key = lit ''deny''
           then (rule\<lparr>f_deny := (val = lit ''true'' \<or> val = lit ''yes'')\<rparr>, False, False)
           else if key = lit ''rights''
           then if is_inline val
                then (rule\<lparr>f_rights := f_rights rule @ inline_items U val\<rparr>, False, False)
                else (rule, False, True)
           else if key = lit ''attributes''
           then if is_inline val
                then (rule\<lparr>f_attributes := f_attributes rule @ inline_items U val\<rparr>, False, False)
                else (rule, True, False)
           else (rule, False, False))
      | _ \<Rightarrow> (rule, False, False))"

record reader_state =
  r_fc :: file_config
  r_current :: "file_rule option"
  r_in_rules :: bool
  r_in_attributes :: bool
  r_in_rights :: bool
  r_rule_indent :: nat

definition save_current :: "reader_state \<Rightarrow> reader_state" where
  "save_current st =
     (case r_current st of
        None \<Rightarrow> st
      | Some r \<Rightarrow> st\<lparr>r_fc := (r_fc st)\<lparr>f_rules := f_rules (r_fc st) @ [r]\<rparr>\<rparr>)"

definition with_key_value :: "unicode \<Rightarrow> bytes \<Rightarrow> file_rule \<Rightarrow> reader_state \<Rightarrow> reader_state" where
  "with_key_value U line rule st =
     (let (rule', ia, ir) = parseRuleKeyValue U line rule
      in st\<lparr>r_current := Some rule', r_in_attributes := ia, r_in_rights := ir\<rparr>)"

text \<open>A line at indentation zero.\<close>

definition read_top_level :: "unicode \<Rightarrow> bytes \<Rightarrow> reader_state \<Rightarrow> (acl_error, reader_state) outcome" where
  "read_top_level U trimmed st =
     (let st = st\<lparr>r_in_rules := False, r_in_attributes := False, r_in_rights := False\<rparr> in
      if HasPrefix trimmed (lit ''version:'')
      then let val = TrimSpace U (TrimPrefix trimmed (lit ''version:'')) in
           (case Atoi val of
              None \<Rightarrow> Fail (ErrInvalidVersion val)
            | Some v \<Rightarrow> Ok (st\<lparr>r_fc := (r_fc st)\<lparr>f_version := v\<rparr>\<rparr>))
      else if HasPrefix trimmed (lit ''defaultPolicy:'')
      then let val = Trim (TrimSpace U (TrimPrefix trimmed (lit ''defaultPolicy:''))) quotes
           in Ok (st\<lparr>r_fc := (r_fc st)\<lparr>f_default_policy := val\<rparr>\<rparr>)
      else if trimmed = lit ''rules:'' then Ok (st\<lparr>r_in_rules := True\<rparr>)
      else Ok st)"

text \<open>An indented line inside the rules section.\<close>

definition read_rule_line :: "unicode \<Rightarrow> bytes \<Rightarrow> nat \<Rightarrow> reader_state \<Rightarrow> reader_state" where
  "read_rule_line U trimmed indent st =
     (if HasPrefix trimmed (lit ''- '') \<and> indent \<le> 2
      then let rest = TrimPrefix trimmed (lit ''- '');
               st = (save_current st)\<lparr>r_current := Some empty_rule, r_in_attributes := False,
                      r_in_rights := False, r_rule_indent := indent\<rparr>
           in if Contains rest (lit '':'') \<and> \<not> HasPrefix rest (lit ''['')
              then with_key_value U rest empty_rule st
              else st
      else case r_current st of
          None \<Rightarrow> st
        | Some rule \<Rightarrow>
            if HasPrefix trimmed (lit ''- '') \<and> indent > r_rule_indent st
            then let val = Trim (TrimSpace U (TrimPrefix trimmed (lit ''- ''))) quotes
                 in if r_in_attributes st
                    then st\<lparr>r_current := Some (rule\<lparr>f_attributes := f_attributes rule @ [val]\<rparr>)\<rparr>
                    else if r_in_rights st
                    then st\<lparr>r_current := Some (rule\<lparr>f_rights := f_rights rule @ [val]\<rparr>)\<rparr>
                    else st
            else if Contains trimmed (lit '':'') \<and> \<not> HasPrefix trimmed (lit ''- '')
            then with_key_value U trimmed rule st
            else st)"

definition read_line :: "unicode \<Rightarrow> bytes \<Rightarrow> reader_state \<Rightarrow> (acl_error, reader_state) outcome" where
  "read_line U line st =
     (let trimmed = TrimSpace U line in
      if trimmed = [] \<or> HasPrefix trimmed (lit ''#'') then Ok st
      else let indent = length line - length (TrimLeft line [32, 9]) in
        if indent = 0 then read_top_level U trimmed st
        else if r_in_rules st then Ok (read_rule_line U trimmed indent st)
        else Ok st)"

fun read_lines :: "unicode \<Rightarrow> bytes list \<Rightarrow> reader_state \<Rightarrow> (acl_error, reader_state) outcome" where
  "read_lines U [] st = Ok st"
| "read_lines U (l # ls) st =
     (case read_line U l st of Ok st' \<Rightarrow> read_lines U ls st' | Fail e \<Rightarrow> Fail e | Panic \<Rightarrow> Panic)"

definition initial_reader :: reader_state where
  "initial_reader =
     \<lparr>r_fc = \<lparr>f_version = 1, f_default_policy = lit ''deny'', f_rules = []\<rparr>, r_current = None,
      r_in_rules = False, r_in_attributes = False, r_in_rights = False, r_rule_indent = 0\<rparr>"

definition parseACLYAMLToFileConfig :: "unicode \<Rightarrow> bytes \<Rightarrow> (acl_error, file_config) outcome" where
  "parseACLYAMLToFileConfig U data =
     (case read_lines U (Split 10 data) initial_reader of
        Ok st \<Rightarrow> Ok (r_fc (save_current st)) | Fail e \<Rightarrow> Fail e | Panic \<Rightarrow> Panic)"

section \<open>Conversion\<close>

definition right_named :: "bytes \<Rightarrow> right option" where
  "right_named n =
     (if n = lit ''read'' then Some Read else if n = lit ''write'' then Some Write
      else if n = lit ''add'' then Some Add else if n = lit ''delete'' then Some Delete
      else if n = lit ''search'' then Some Search else if n = lit ''compare'' then Some Compare
      else if n = lit ''all'' then Some All_rights else None)"

fun parse_rights :: "unicode \<Rightarrow> bytes list \<Rightarrow> right \<Rightarrow> (acl_error, right) outcome" where
  "parse_rights U [] acc = Ok acc"
| "parse_rights U (r # rs) acc =
     (case right_named (ToLower U (TrimSpace U r)) of
        Some f \<Rightarrow> parse_rights U rs (acc OR f)
      | None \<Rightarrow> Fail (ErrInvalidRight r))"

definition ParseRights :: "unicode \<Rightarrow> bytes list \<Rightarrow> (acl_error, right) outcome" where
  "ParseRights U rs = parse_rights U rs 0"

definition ParseScope :: "unicode \<Rightarrow> bytes \<Rightarrow> (acl_error, scope) outcome" where
  "ParseScope U s =
     (let n = ToLower U (TrimSpace U s) in
      if n = lit ''base'' then Ok ScopeBase
      else if n = lit ''one'' \<or> n = lit ''onelevel'' then Ok ScopeOne
      else if n = lit ''sub'' \<or> n = lit ''subtree'' \<or> n = [] then Ok ScopeSubtree
      else Fail (ErrInvalidScope s))"

definition convertRule :: "unicode \<Rightarrow> file_rule \<Rightarrow> nat \<Rightarrow> (acl_error, acl) outcome" where
  "convertRule U r index =
     (if f_target r = [] then Fail (ErrRule index ErrMissingTarget)
      else if f_subject r = [] then Fail (ErrRule index ErrMissingSubject)
      else if f_rights r = [] then Fail (ErrRule index ErrMissingRights)
      else case ParseRights U (f_rights r) of
          Fail e \<Rightarrow> Fail (ErrRule index e)
        | Panic \<Rightarrow> Panic
        | Ok rights \<Rightarrow>
            let acl = NewACL (f_target r) (f_subject r) rights;
                finish = (\<lambda>acl. WithDeny (f_deny r)
                  (if f_attributes r \<noteq> [] then WithAttributes (f_attributes r) acl else acl))
            in if f_scope r \<noteq> []
               then case ParseScope U (f_scope r) of
                   Fail e \<Rightarrow> Fail (ErrRule index e)
                 | Panic \<Rightarrow> Panic
                 | Ok s \<Rightarrow> Ok (finish (WithScope s acl))
               else Ok (finish acl))"

fun convert_rules :: "unicode \<Rightarrow> file_rule list \<Rightarrow> nat \<Rightarrow> acl_config \<Rightarrow> (acl_error, acl_config) outcome" where
  "convert_rules U [] i c = Ok c"
| "convert_rules U (r # rs) i c =
     (case convertRule U r i of
        Ok a \<Rightarrow> convert_rules U rs (Suc i) (Config_AddRule (Some a) c)
      | Fail e \<Rightarrow> Fail e
      | Panic \<Rightarrow> Panic)"

definition convertFileConfig :: "unicode \<Rightarrow> file_config \<Rightarrow> (acl_error, acl_config) outcome" where
  "convertFileConfig U fc =
     (if f_version fc < 1 then Fail (ErrInvalidVersion [])
      else let policy = ToLower U (f_default_policy fc) in
        if policy \<noteq> lit ''allow'' \<and> policy \<noteq> lit ''deny'' \<and> policy \<noteq> []
        then Fail (ErrInvalidPolicy (f_default_policy fc))
        else convert_rules U (f_rules fc) 0
          (if policy \<noteq> [] then Config_SetDefaultPolicy policy NewConfig else NewConfig))"

definition ParseACLYAML :: "unicode \<Rightarrow> (bytes \<Rightarrow> bytes) \<Rightarrow> bytes \<Rightarrow> (acl_error, acl_config) outcome" where
  "ParseACLYAML U env data =
     (case parseACLYAMLToFileConfig U (substituteEnvVars env data) of
        Ok fc \<Rightarrow> convertFileConfig U fc | Fail e \<Rightarrow> Fail e | Panic \<Rightarrow> Panic)"

text \<open>\<open>files\<close> is the content of the files that exist.\<close>

definition LoadFromFile ::
  "unicode \<Rightarrow> (bytes \<Rightarrow> bytes) \<Rightarrow> (bytes \<Rightarrow> bytes option) \<Rightarrow> bytes \<Rightarrow> (acl_error, acl_config) outcome" where
  "LoadFromFile U env files path =
     (case files path of None \<Rightarrow> Fail ErrFileNotFound | Some data \<Rightarrow> ParseACLYAML U env data)"

end
