(* ===== verification/Acl_Manager.thy ===== *)
theory Acl_Manager
  imports Acl_Loader Raft_Codec
begin

text \<open>
  The ACL manager (\<^verbatim>\<open>internal/acl/manager.go\<close>) and the conversions of the REST API
  (\<^verbatim>\<open>internal/rest/acl_handlers.go\<close>). The evaluator of a manager always points to the
  manager's configuration, which every operation changes in place, so one field stands for
  both. Time stamps and log messages are left out. The snapshot operations are given on the
  snapshot structure; its JSON text is not modelled.
\<close>

section \<open>Manager state\<close>

record manager =
  m_config :: acl_config
  m_file :: bytes
  m_reloads :: uint64
  m_last_error :: "acl_error option"
  m_version :: uint64

record manager_config =
  mc_file :: bytes
  mc_embedded :: "acl_config option"

definition NewManager ::
  "unicode \<Rightarrow> (bytes \<Rightarrow> bytes) \<Rightarrow> (bytes \<Rightarrow> bytes option) \<Rightarrow> manager_config option \<Rightarrow> (acl_error, manager) outcome" where
  "NewManager U env files cfg =
     (let cfg = (case cfg of None \<Rightarrow> \<lparr>mc_file = [], mc_embedded = None\<rparr> | Some c \<Rightarrow> c);
          m = (\<lambda>c. \<lparr>m_config = c, m_file = mc_file cfg, m_reloads = 0, m_last_error = None, m_version = 0\<rparr>)
      in if mc_file cfg \<noteq> []
         then case LoadFromFile U env files (mc_file cfg) of
             Ok c \<Rightarrow> Ok (m c) | Fail e \<Rightarrow> Fail e | Panic \<Rightarrow> Panic
         else case mc_embedded cfg of
             Some c \<Rightarrow> Ok (m c)
           | None \<Rightarrow> Ok (m NewConfig))"

definition Reload ::
  "unicode \<Rightarrow> (bytes \<Rightarrow> bytes) \<Rightarrow> (bytes \<Rightarrow> bytes option) \<Rightarrow> manager \<Rightarrow> (acl_error, unit) outcome \<times> manager" where
  "Reload U env files m =
     (if m_file m = [] then (Fail ErrNoFilePath, m)
      else case LoadFromFile U env files (m_file m) of
          Fail e \<Rightarrow> (Fail e, m\<lparr>m_last_error := Some e\<rparr>)
        | Panic \<Rightarrow> (Panic, m)
        | Ok newConfig \<Rightarrow>
            (case ValidateConfig (Some newConfig) of
               e # _ \<Rightarrow> (Fail e, m\<lparr>m_last_error := Some e\<rparr>)
             | [] \<Rightarrow> (Ok (), m\<lparr>m_config := newConfig, m_last_error := None, m_reloads := m_reloads m + 1\<rparr>)))"

definition set_rules :: "acl option list \<Rightarrow> manager \<Rightarrow> manager" where
  "set_rules rs m = m\<lparr>m_config := (m_config m)\<lparr>rules := rs\<rparr>\<rparr>"

definition insert_rule :: "acl option \<Rightarrow> int \<Rightarrow> acl option list \<Rightarrow> acl option list" where
  "insert_rule r index rs =
     (if index < 0 \<or> index \<ge> int (length rs) then rs @ [r]
      else take (nat index) rs @ [r] @ drop (nat index) rs)"

definition remove_rule :: "int \<Rightarrow> acl option list \<Rightarrow> acl option list" where
  "remove_rule index rs = take (nat index) rs @ drop (nat index + 1) rs"

definition ValidateRule :: "acl option \<Rightarrow> acl_error option" where
  "ValidateRule rule =
     (case rule of
        None \<Rightarrow> Some ErrNilRule
      | Some r \<Rightarrow>
          if a_target r = [] then Some ErrMissingTarget
          else if a_subject r = [] then Some ErrMissingSubject
          else if a_rights r = 0 then Some ErrMissingRights
          else None)"

definition AddRule :: "acl option \<Rightarrow> int \<Rightarrow> manager \<Rightarrow> (acl_error, unit) outcome \<times> manager" where
  "AddRule rule index m =
     (case rule of
        None \<Rightarrow> (Fail ErrNilRule, m)
      | Some r \<Rightarrow>
          if a_target r = [] then (Fail ErrMissingTarget, m)
          else if a_subject r = [] then (Fail ErrMissingSubject, m)
          else if a_rights r = 0 then (Fail ErrMissingRights, m)
          else (Ok (), set_rules (insert_rule rule index (rules (m_config m))) m))"

definition UpdateRule :: "int \<Rightarrow> acl option \<Rightarrow> manager \<Rightarrow> (acl_error, unit) outcome \<times> manager" where
  "UpdateRule index rule m =
     (case rule of
        None \<Rightarrow> (Fail ErrNilRule, m)
      | Some r \<Rightarrow>
          if a_target r = [] then (Fail ErrMissingTarget, m)
          else if a_subject r = [] then (Fail ErrMissingSubject, m)
          else if a_rights r = 0 then (Fail ErrMissingRights, m)
          else if index < 0 \<or> index \<ge> int (length (rules (m_config m))) then (Fail (ErrIndexOutOfRange index), m)
          else (Ok (), set_rules ((rules (m_config m)) [nat index := rule]) m))"

definition DeleteRule :: "int \<Rightarrow> manager \<Rightarrow> (acl_error, unit) outcome \<times> manager" where
  "DeleteRule index m =
     (if index < 0 \<or> index \<ge> int (length (rules (m_config m))) then (Fail (ErrIndexOutOfRange index), m)
      else (Ok (), set_rules (remove_rule index (rules (m_config m))) m))"

definition SetDefaultPolicy :: "unicode \<Rightarrow> bytes \<Rightarrow> manager \<Rightarrow> (acl_error, unit) outcome \<times> manager" where
  "SetDefaultPolicy U policy m =
     (let policy = ToLower U policy in
      if policy \<noteq> lit ''allow'' \<and> policy \<noteq> lit ''deny'' then (Fail (ErrInvalidPolicy policy), m)
      else (Ok (), m\<lparr>m_config := Config_SetDefaultPolicy policy (m_config m)\<rparr>))"

definition GetRule :: "int \<Rightarrow> manager \<Rightarrow> (acl_error, acl option) outcome" where
  "GetRule index m =
     (if index < 0 \<or> index \<ge> int (length (rules (m_config m))) then Fail (ErrIndexOutOfRange index)
      else Ok (rules (m_config m) ! nat index))"

section \<open>Saving\<close>

definition rightsToStrings :: "right \<Rightarrow> bytes list" where
  "rightsToStrings r =
     (if r = All_rights then [lit ''all'']
      else (if Has r Read then [lit ''read''] else []) @
           (if Has r Write then [lit ''write''] else []) @
           (if Has r Add then [lit ''add''] else []) @
           (if Has r Delete then [lit ''delete''] else []) @
           (if Has r Search then [lit ''search''] else []) @
           (if Has r Compare then [lit ''compare''] else []))"

definition nl :: bytes where "nl = [10]"

definition rule_lines :: "unicode \<Rightarrow> acl \<Rightarrow> bytes" where
  "rule_lines U rule =
     lit ''  - target: '' @ Quote U (a_target rule) @ nl @
     lit ''    subject: '' @ Quote U (a_subject rule) @ nl @
     lit ''    scope: '' @ Scope_String (a_scope rule) @ nl @
     lit ''    rights:'' @ nl @
     concat (map (\<lambda>r. lit ''      - '' @ r @ nl) (rightsToStrings (a_rights rule))) @
     (if a_attributes rule \<noteq> []
      then lit ''    attributes:'' @ nl @
           concat (map (\<lambda>a. lit ''      - '' @ Quote U a @ nl) (a_attributes rule))
      else []) @
     (if a_deny rule then lit ''    deny: true'' @ nl else [])"

fun rules_lines :: "unicode \<Rightarrow> acl option list \<Rightarrow> (acl_error, bytes) outcome" where
  "rules_lines U [] = Ok []"
| "rules_lines U (None # rs) = Panic"
| "rules_lines U (Some r # rs) =
     (case rules_lines U rs of Ok t \<Rightarrow> Ok (rule_lines U r @ t) | Fail e \<Rightarrow> Fail e | Panic \<Rightarrow> Panic)"

definition configToYAML :: "unicode \<Rightarrow> acl_config \<Rightarrow> (acl_error, bytes) outcome" where
  "configToYAML U c =
     (case rules_lines U (rules c) of
        Ok t \<Rightarrow> Ok (lit ''version: 1'' @ nl @ lit ''defaultPolicy: '' @ default_policy c @ nl @
                     lit ''rules:'' @ nl @ t)
      | Fail e \<Rightarrow> Fail e
      | Panic \<Rightarrow> Panic)"

text \<open>The files after \<^verbatim>\<open>SaveToFile\<close>, when the write succeeds.\<close>

definition SaveToFile ::
  "unicode \<Rightarrow> manager \<Rightarrow> (bytes \<Rightarrow> bytes option) \<Rightarrow> (acl_error, unit) outcome \<times> (bytes \<Rightarrow> bytes option)" where
  "SaveToFile U m files =
     (if m_file m = [] then (Fail ErrNoFilePath, files)
      else case configToYAML U (m_config m) of
          Ok data \<Rightarrow> (Ok (), files(m_file m \<mapsto> data))
        | Fail e \<Rightarrow> (Fail e, files)
        | Panic \<Rightarrow> (Panic, files))"

section \<open>Replication\<close>

text \<open>The rights named in a replicated rule; \<^verbatim>\<open>all\<close> assigns instead of adding.\<close>

fun rule_rights :: "unicode \<Rightarrow> bytes list \<Rightarrow> right \<Rightarrow> (acl_error, right) outcome" where
  "rule_rights U [] acc = Ok acc"
| "rule_rights U (r # rs) acc =
     (let n = ToLower U r in
      if n = lit ''all'' then rule_rights U rs All_rights
      else case right_named n of
          Some f \<Rightarrow> rule_rights U rs (acc OR f)
        | None \<Rightarrow> Fail (ErrInvalidRight r))"

definition rule_scope :: "unicode \<Rightarrow> bytes \<Rightarrow> (acl_error, scope) outcome" where
  "rule_scope U s =
     (let n = ToLower U s in
      if n = lit ''base'' \<or> n = [] then Ok ScopeBase
      else if n = lit ''one'' \<or> n = lit ''onelevel'' then Ok ScopeOne
      else if n = lit ''sub'' \<or> n = lit ''subtree'' then Ok ScopeSubtree
      else Fail (ErrInvalidScope s))"

definition ruleDataToACL :: "unicode \<Rightarrow> acl_rule_data \<Rightarrow> (acl_error, acl) outcome" where
  "ruleDataToACL U d =
     (case rule_scope U (ar_scope d) of
        Fail e \<Rightarrow> Fail e
      | Panic \<Rightarrow> Panic
      | Ok s \<Rightarrow>
          (case rule_rights U (ar_rights d) 0 of
             Fail e \<Rightarrow> Fail e
           | Panic \<Rightarrow> Panic
           | Ok r \<Rightarrow> Ok \<lparr>a_target = ar_target d, a_scope = s, a_subject = ar_subject d, a_rights = r,
                         a_attributes = ar_attributes d, a_deny = ar_deny d\<rparr>))"

definition aclToRuleData :: "acl \<Rightarrow> acl_rule_data" where
  "aclToRuleData r =
     \<lparr>ar_target = a_target r, ar_subject = a_subject r, ar_scope = Scope_String (a_scope r),
      ar_rights = rightsToStrings (a_rights r), ar_attributes = a_attributes r, ar_deny = a_deny r\<rparr>"

fun convert_data :: "unicode \<Rightarrow> nat \<Rightarrow> acl_rule_data list \<Rightarrow> (acl_error, acl option list) outcome" where
  "convert_data U i [] = Ok []"
| "convert_data U i (d # ds) =
     (case ruleDataToACL U d of
        Fail e \<Rightarrow> Fail (ErrRule i e)
      | Panic \<Rightarrow> Panic
      | Ok r \<Rightarrow> (case convert_data U (Suc i) ds of
                   Ok rs \<Rightarrow> Ok (Some r # rs) | Fail e \<Rightarrow> Fail e | Panic \<Rightarrow> Panic))"

definition ApplyFullConfigFromRaft ::
  "unicode \<Rightarrow> acl_rule_data list \<Rightarrow> bytes \<Rightarrow> manager \<Rightarrow> (acl_error, unit) outcome \<times> manager" where
  "ApplyFullConfigFromRaft U ds policy m =
     (case convert_data U 0 ds of
        Fail e \<Rightarrow> (Fail e, m)
      | Panic \<Rightarrow> (Panic, m)
      | Ok rs \<Rightarrow> (Ok (), m\<lparr>m_config := \<lparr>default_policy = policy, rules = rs\<rparr>,
                          m_reloads := m_reloads m + 1, m_version := m_version m + 1\<rparr>))"

definition AddRuleFromRaft ::
  "unicode \<Rightarrow> acl_rule_data option \<Rightarrow> int \<Rightarrow> manager \<Rightarrow> (acl_error, unit) outcome \<times> manager" where
  "AddRuleFromRaft U d index m =
     (case d of
        None \<Rightarrow> (Fail ErrNilRule, m)
      | Some d \<Rightarrow>
          (case ruleDataToACL U d of
             Fail e \<Rightarrow> (Fail e, m)
           | Panic \<Rightarrow> (Panic, m)
           | Ok r \<Rightarrow>
               (Ok (), (set_rules (insert_rule (Some r) index (rules (m_config m))) m)
                         \<lparr>m_version := m_version m + 1\<rparr>)))"

definition UpdateRuleFromRaft ::
  "unicode \<Rightarrow> acl_rule_data option \<Rightarrow> int \<Rightarrow> manager \<Rightarrow> (acl_error, unit) outcome \<times> manager" where
  "UpdateRuleFromRaft U d index m =
     (case d of
        None \<Rightarrow> (Fail ErrNilRule, m)
      | Some d \<Rightarrow>
          (case ruleDataToACL U d of
             Fail e \<Rightarrow> (Fail e, m)
           | Panic \<Rightarrow> (Panic, m)
           | Ok r \<Rightarrow>
               if index < 0 \<or> index \<ge> int (length (rules (m_config m))) then (Fail (ErrIndexOutOfRange index), m)
               else (Ok (), (set_rules ((rules (m_config m)) [nat index := Some r]) m)
                              \<lparr>m_version := m_version m + 1\<rparr>)))"

definition DeleteRuleFromRaft :: "int \<Rightarrow> manager \<Rightarrow> (acl_error, unit) outcome \<times> manager" where
  "DeleteRuleFromRaft index m =
     (if index < 0 \<or> index \<ge> int (length (rules (m_config m))) then (Ok (), m)
      else (Ok (), (set_rules (remove_rule index (rules (m_config m))) m)\<lparr>m_version := m_version m + 1\<rparr>))"

definition SetDefaultPolicyFromRaft :: "unicode \<Rightarrow> bytes \<Rightarrow> manager \<Rightarrow> (acl_error, unit) outcome \<times> manager" where
  "SetDefaultPolicyFromRaft U policy m =
     (let policy = ToLower U policy in
      if policy \<noteq> lit ''allow'' \<and> policy \<noteq> lit ''deny'' then (Fail (ErrInvalidPolicy policy), m)
      else (Ok (), m\<lparr>m_config := Config_SetDefaultPolicy policy (m_config m), m_version := m_version m + 1\<rparr>))"

fun to_rule_data :: "acl option list \<Rightarrow> (acl_error, acl_rule_data list) outcome" where
  "to_rule_data [] = Ok []"
| "to_rule_data (None # rs) = Panic"
| "to_rule_data (Some r # rs) =
     (case to_rule_data rs of Ok ds \<Rightarrow> Ok (aclToRuleData r # ds) | Fail e \<Rightarrow> Fail e | Panic \<Rightarrow> Panic)"

definition ToRuleDataSlice :: "manager \<Rightarrow> (acl_error, acl_rule_data list) outcome" where
  "ToRuleDataSlice m = to_rule_data (rules (m_config m))"

record acl_snapshot =
  sn_version :: uint64
  sn_policy :: bytes
  sn_rules :: "acl_rule_data list"

definition GetACLSnapshot :: "manager \<Rightarrow> (acl_error, acl_snapshot) outcome" where
  "GetACLSnapshot m =
     (case to_rule_data (rules (m_config m)) of
        Ok ds \<Rightarrow> Ok \<lparr>sn_version = m_version m, sn_policy = default_policy (m_config m), sn_rules = ds\<rparr>
      | Fail e \<Rightarrow> Fail e
      | Panic \<Rightarrow> Panic)"

definition RestoreACLSnapshot :: "unicode \<Rightarrow> acl_snapshot \<Rightarrow> manager \<Rightarrow> (acl_error, unit) outcome \<times> manager" where
  "RestoreACLSnapshot U s m =
     (case convert_data U 0 (sn_rules s) of
        Fail e \<Rightarrow> (Fail e, m)
      | Panic \<Rightarrow> (Panic, m)
      | Ok rs \<Rightarrow> (Ok (), m\<lparr>m_config := \<lparr>default_policy = sn_policy s, rules = rs\<rparr>, m_version := sn_version s\<rparr>))"

section \<open>The REST conversions\<close>

record acl_rule_json =
  j_target :: bytes
  j_subject :: bytes
  j_scope :: bytes
  j_rights :: "bytes list"
  j_attributes :: "bytes list"
  j_deny :: bool

definition jsonToACLRule :: "unicode \<Rightarrow> acl_rule_json \<Rightarrow> (acl_error, acl) outcome" where
  "jsonToACLRule U j =
     (case ParseRights U (j_rights j) of
        Fail e \<Rightarrow> Fail e
      | Panic \<Rightarrow> Panic
      | Ok rights \<Rightarrow>
          let rule = NewACL (j_target j) (j_subject j) rights;
              finish = (\<lambda>rule. WithDeny (j_deny j)
                (if j_attributes j \<noteq> [] then WithAttributes (j_attributes j) rule else rule))
          in if j_scope j \<noteq> []
             then case ParseScope U (j_scope j) of
                 Fail e \<Rightarrow> Fail e
               | Panic \<Rightarrow> Panic
               | Ok s \<Rightarrow> Ok (finish (WithScope s rule))
             else Ok (finish rule))"

definition aclRuleToJSON :: "acl \<Rightarrow> acl_rule_json" where
  "aclRuleToJSON r =
     \<lparr>j_target = a_target r, j_subject = a_subject r, j_scope = Scope_String (a_scope r),
      j_rights = rightsToStrings (a_rights r), j_attributes = a_attributes r, j_deny = a_deny r\<rparr>"

definition aclRuleToRaftData :: "acl_rule_json \<Rightarrow> acl_rule_data" where
  "aclRuleToRaftData j =
     \<lparr>ar_target = j_target j, ar_subject = j_subject j, ar_scope = j_scope j,
      ar_rights = j_rights j, ar_attributes = j_attributes j, ar_deny = j_deny j\<rparr>"

end
