(* ===== verification/Acl_Props.thy ===== *)
theory Acl_Props
  imports Acl_Manager
begin

text \<open>
  Properties of access control: which rule decides, what the scopes of a rule mean on the
  components of a DN, what the attribute filters let through, that the operations of the
  manager keep a configuration valid, and that a rule survives replication.
\<close>

section \<open>Deciding rules\<close>

definition no_nil :: "acl_config \<Rightarrow> bool" where
  "no_nil c \<longleftrightarrow> None \<notin> set (rules c)"

text \<open>The reference: the first rule of the list that applies, if there is one.\<close>

definition decision :: "bool \<Rightarrow> (acl \<Rightarrow> bool) \<Rightarrow> acl option list \<Rightarrow> bool" where
  "decision dflt applies rs =
     (case List.find applies (map the rs) of None \<Rightarrow> dflt | Some r \<Rightarrow> \<not> a_deny r)"

lemma check_rules_decision [acl_simps]:
  "None \<notin> set rs \<Longrightarrow> check_rules dflt applies rs = Ok (decision dflt applies rs)"
  by (induction dflt applies rs rule: check_rules.induct) (auto simp: decision_def)

lemma decision_iff:
  "decision dflt applies rs \<longleftrightarrow>
     (\<exists>i<length rs. applies (the (rs ! i)) \<and> \<not> a_deny (the (rs ! i)) \<and> (\<forall>j<i. \<not> applies (the (rs ! j)))) \<or>
     (\<forall>i<length rs. \<not> applies (the (rs ! i))) \<and> dflt"
proof (induction rs)
  case Nil
  then show ?case by (simp add: decision_def)
next
  case (Cons r rs)
  show ?case
  proof (cases "applies (the r)")
    case True
    then show ?thesis by (auto simp: decision_def Ex_less_Suc2 All_less_Suc2)
  next
    case False
    then have "decision dflt applies (r # rs) = decision dflt applies rs"
      by (simp add: decision_def)
    with Cons.IH False show ?thesis
      by (simp add: Ex_less_Suc2 All_less_Suc2)
  qed
qed

lemma CheckAccess_decision [acl_simps]:
  "no_nil c \<Longrightarrow> CheckAccess U c (Some ctx) = Ok (decision (IsDefaultAllow c) (rule_applies U ctx) (rules c))"
  by (simp add: CheckAccess_def no_nil_def acl_simps)

lemma CheckAttributeAccess_decision [acl_simps]:
  "no_nil c \<Longrightarrow> CheckAttributeAccess U c (Some ctx) attr =
     Ok (decision (IsDefaultAllow c) (attribute_rule_applies U ctx attr) (rules c))"
  by (simp add: CheckAttributeAccess_def no_nil_def acl_simps)

lemma keep_if_filter:
  "(\<And>x. x \<in> set xs \<Longrightarrow> ok x = Ok (P x)) \<Longrightarrow> keep_if ok xs = Ok (filter P xs)"
  by (induction ok xs rule: keep_if.induct) auto

lemma keep_if_pairs:
  "keep_if (\<lambda>(name, vs). Ok (P name)) xs = Ok (filter (\<lambda>(name, vs). P name) xs)"
  by (rule keep_if_filter) auto

section \<open>Scopes on DN components\<close>

lemma lit_comma [simp]: "lit '','' = [comma]"
  by (simp add: lit_def)

lemma suffix_Split:
  "suffix (Split c b) (Split c t) \<longleftrightarrow> t = b \<or> HasSuffix t (c # b)"
proof
  assume "suffix (Split c b) (Split c t)"
  then obtain us where us: "Split c t = us @ Split c b" by (auto simp: suffix_def)
  show "t = b \<or> HasSuffix t (c # b)"
  proof (cases "us = []")
    case False
    have "t = Join (us @ Split c b) [c]" using us by (metis Join_Split)
    with False have "t = Join us [c] @ c # b" by (simp add: Join_append)
    then show ?thesis by (auto simp: HasSuffix_iff)
  qed (use us in \<open>simp add: Split_inject\<close>)
next
  assume "t = b \<or> HasSuffix t (c # b)"
  then show "suffix (Split c b) (Split c t)"
    by (auto simp: HasSuffix_iff Split_append suffix_def)
qed

lemma isSubtreeMatch_iff:
  "isSubtreeMatch b t \<longleftrightarrow> b = [] \<or> suffix (Split comma b) (Split comma t)"
proof (cases "b = [] \<or> t = []")
  case True
  have "\<not> suffix (Split comma b) (Split comma [])" if "b \<noteq> []"
    using that suffix_Split [of comma b "[]"] by (auto simp: HasSuffix_def)
  with True show ?thesis by (auto simp: isSubtreeMatch_def)
next
  case False
  then show ?thesis by (simp add: isSubtreeMatch_def suffix_Split)
qed

lemma isImmediateChild_iff:
  "isImmediateChild p t \<longleftrightarrow>
     p \<noteq> [] \<and> (\<exists>x. x \<noteq> [] \<and> comma \<notin> set x \<and> (Split comma t = x # Split comma p \<or> t = x @ p))"
proof (cases "p \<noteq> [] \<and> HasSuffix t p")
  case True
  then obtain q where q: "t = q @ p" by (auto simp: HasSuffix_iff)
  have cut: "TrimSuffix q [comma] = (if q \<noteq> [] \<and> last q = comma then butlast q else q)"
    by (cases q rule: rev_cases) (auto simp: TrimSuffix_def HasSuffix_def)
  have child: "Split comma t = x # Split comma p \<longleftrightarrow> q = x @ [comma]" if "comma \<notin> set x" for x
  proof -
    have "Split comma t = Split comma (x @ comma # p) \<longleftrightarrow> t = x @ comma # p"
      by (rule Split_inject)
    with that q show ?thesis by (simp add: Split_append Split_single)
  qed
  have "isImmediateChild p t \<longleftrightarrow> TrimSuffix q [comma] \<noteq> [] \<and> comma \<notin> set (TrimSuffix q [comma])"
    using True q by (auto simp: isImmediateChild_def Let_def TrimSuffix_def HasSuffix_def)
  also have "\<dots> \<longleftrightarrow> (\<exists>x. x \<noteq> [] \<and> comma \<notin> set x \<and> (q = x @ [comma] \<or> q = x))"
    unfolding cut by (cases q rule: rev_cases) auto
  finally show ?thesis
    using True q child by auto
next
  case False
  then have "\<not> isImmediateChild p t" by (auto simp: isImmediateChild_def)
  moreover have "HasSuffix t p" if "Split comma t = x # Split comma p" for x
    using that suffix_Split [of comma p t] by (auto simp: suffix_def HasSuffix_iff)
  ultimately show ?thesis using False by auto
qed

section \<open>Valid configurations\<close>

definition valid_rule :: "acl \<Rightarrow> bool" where
  "valid_rule r \<longleftrightarrow>
     a_target r \<noteq> [] \<and> a_subject r \<noteq> [] \<and> a_rights r \<noteq> 0 \<and>
     a_scope r \<in> {ScopeBase, ScopeOne, ScopeSubtree}"

definition valid_policy :: "bytes \<Rightarrow> bool" where
  "valid_policy p \<longleftrightarrow> p = [] \<or> p = lit ''allow'' \<or> p = lit ''deny''"

lemma rule_errors_Nil_iff: "rule_errors r = [] \<longleftrightarrow> (\<exists>a. r = Some a \<and> valid_rule a)"
  by (cases r) (auto simp: rule_errors_def valid_rule_def scope_defs)

lemma enumerate_errors_Nil_iff:
  "concat (map (\<lambda>(i, r). map (ErrRule i) (rule_errors r)) (List.enumerate n rs)) = [] \<longleftrightarrow>
     (\<forall>r\<in>set rs. \<exists>a. r = Some a \<and> valid_rule a)"
  by (induction rs arbitrary: n) (auto simp: rule_errors_Nil_iff)

lemma ValidateConfig_Nil_iff:
  "ValidateConfig (Some c) = [] \<longleftrightarrow>
     valid_policy (default_policy c) \<and> (\<forall>r\<in>set (rules c). \<exists>a. r = Some a \<and> valid_rule a)"
  by (simp add: ValidateConfig_def valid_policy_def enumerate_errors_Nil_iff del: concat_eq_Nil_conv)

lemma valid_no_nil: "ValidateConfig (Some c) = [] \<Longrightarrow> no_nil c"
  by (auto simp: ValidateConfig_Nil_iff no_nil_def)

lemma set_insert_rule: "set (insert_rule r i rs) = insert r (set rs)"
proof (cases "i < 0 \<or> i \<ge> int (length rs)")
  case False
  have "set rs = set (take (nat i) rs) \<union> set (drop (nat i) rs)"
    by (metis append_take_drop_id set_append)
  with False show ?thesis by (auto simp: insert_rule_def)
qed (auto simp: insert_rule_def)

lemma set_remove_rule: "set (remove_rule i rs) \<subseteq> set rs"
  by (auto simp: remove_rule_def dest: in_set_takeD in_set_dropD)

section \<open>Rights and scopes by name\<close>

lemma Has_push_bit: "Has r (push_bit n 1) \<longleftrightarrow> bit r n"
  by (simp add: Has_def push_bit_of_1 and_exp_eq_0_iff_not_bit)

lemma Read_push_bit: "Read = push_bit 0 1"
  by (simp add: Read_def)

lemma Has_bits [acl_simps]:
  "Has r Read \<longleftrightarrow> bit r 0" "Has r Write \<longleftrightarrow> bit r 1" "Has r Add \<longleftrightarrow> bit r 2"
  "Has r Delete \<longleftrightarrow> bit r 3" "Has r Search \<longleftrightarrow> bit r 4" "Has r Compare \<longleftrightarrow> bit r 5"
  by (simp_all only: Read_push_bit Write_def Add_def Delete_def Search_def Compare_def Has_push_bit)

lemma bit_right: "bit (push_bit k 1 :: right) n \<longleftrightarrow> n = k \<and> n < 64"
  by (auto simp: bit_exp_iff)

lemma bit_All_rights: "bit All_rights n \<longleftrightarrow> n < 6"
proof -
  have "All_rights = mask 6" by (simp add: right_defs mask_eq_exp_minus_1)
  then have "bit All_rights n \<longleftrightarrow> bit (mask 6 :: right) n" by (rule arg_cong)
  then show ?thesis by (auto simp: bit_mask_iff simp del: mask_numeral)
qed

definition flag :: "right \<Rightarrow> right \<Rightarrow> right" where
  "flag r f = (if Has r f then f else 0)"

lemma bit_flag: "bit (flag r (push_bit k 1)) n \<longleftrightarrow> n = k \<and> n < 64 \<and> bit r n"
  unfolding flag_def Has_push_bit by (cases "bit r k") (auto simp: bit_right simp del: push_bit_of_1)

lemma rights_split:
  assumes "r AND All_rights = r"
  shows "flag r Read OR flag r Write OR flag r Add OR flag r Delete OR flag r Search OR flag r Compare = r"
proof (rule bit_word_eqI)
  fix n
  have "bit r n \<Longrightarrow> n < 6"
    using assms bit_All_rights [of n] by (metis bit_and_iff)
  moreover have "n < 6 \<longleftrightarrow> n = 0 \<or> n = 1 \<or> n = 2 \<or> n = 3 \<or> n = 4 \<or> n = 5" by linarith
  ultimately show "bit (flag r Read OR flag r Write OR flag r Add OR flag r Delete OR flag r Search OR
      flag r Compare) n = bit r n"
    by (simp only: bit_or_iff Read_push_bit Write_def Add_def Delete_def Search_def Compare_def bit_flag)
      linarith
qed

lemma ToLower_names [acl_simps]:
  "ToLower U (lit ''read'') = lit ''read''" "ToLower U (lit ''write'') = lit ''write''"
  "ToLower U (lit ''add'') = lit ''add''" "ToLower U (lit ''delete'') = lit ''delete''"
  "ToLower U (lit ''search'') = lit ''search''" "ToLower U (lit ''compare'') = lit ''compare''"
  "ToLower U (lit ''all'') = lit ''all''" "ToLower U (lit ''base'') = lit ''base''"
  "ToLower U (lit ''one'') = lit ''one''" "ToLower U (lit ''subtree'') = lit ''subtree''"
  "ToLower U (lit ''allow'') = lit ''allow''" "ToLower U (lit ''deny'') = lit ''deny''"
  "ToLower U [] = []"
  by (simp_all add: ToLower_def lit_def is_ascii_def lower_byte_def)

lemma rule_rights_append:
  "rule_rights U xs a = Ok b \<Longrightarrow> rule_rights U (xs @ ys) a = rule_rights U ys b"
  by (induction U xs a rule: rule_rights.induct) (auto simp: Let_def split: if_splits option.splits)

lemma rule_rights_flag:
  "right_named n = Some f \<Longrightarrow> ToLower U n = n \<Longrightarrow> n \<noteq> lit ''all'' \<Longrightarrow>
     rule_rights U (if Has r f then [n] else []) a = Ok (a OR flag r f)"
  by (simp add: flag_def)

lemma rule_rights_rightsToStrings:
  assumes "r AND All_rights = r"
  shows "rule_rights U (rightsToStrings r) 0 = Ok r"
proof (cases "r = All_rights")
  case True
  then show ?thesis by (simp add: rightsToStrings_def acl_simps)
next
  case False
  have "rule_rights U (rightsToStrings r) 0 =
      Ok (0 OR flag r Read OR flag r Write OR flag r Add OR flag r Delete OR flag r Search OR flag r Compare)"
    using False unfolding rightsToStrings_def
    by (simp add: rule_rights_append [OF rule_rights_flag] rule_rights_flag right_named_def ToLower_names or.assoc)
  with rights_split [OF assms] show ?thesis by simp
qed

lemma rule_scope_Scope_String:
  "s \<in> {ScopeBase, ScopeOne, ScopeSubtree} \<Longrightarrow> rule_scope U (Scope_String s) = Ok s"
  by (auto simp: rule_scope_def Scope_String_def scope_defs acl_simps Let_def)

definition replicable :: "acl \<Rightarrow> bool" where
  "replicable r \<longleftrightarrow> a_scope r \<in> {ScopeBase, ScopeOne, ScopeSubtree} \<and> a_rights r AND All_rights = a_rights r"

lemma ruleData_roundtrip [acl_simps]:
  "replicable r \<Longrightarrow> ruleDataToACL U (aclToRuleData r) = Ok r"
  by (simp add: replicable_def ruleDataToACL_def aclToRuleData_def rule_scope_Scope_String
      rule_rights_rightsToStrings)

lemma convert_data_roundtrip:
  "\<forall>r\<in>set rs. \<exists>a. r = Some a \<and> replicable a \<Longrightarrow>
     \<exists>ds. to_rule_data rs = Ok ds \<and> ds = map (aclToRuleData \<circ> the) rs \<and> convert_data U i ds = Ok rs"
  by (induction rs arbitrary: i rule: to_rule_data.induct) (auto simp: acl_simps)

section \<open>Configurations from files and requests\<close>

lemma ParseScope_valid: "ParseScope U s = Ok v \<Longrightarrow> v \<in> {ScopeBase, ScopeOne, ScopeSubtree}"
  by (auto simp: ParseScope_def Let_def split: if_splits)

lemma or_not_zero: "a \<noteq> 0 \<Longrightarrow> a OR b \<noteq> (0 :: right)"
  by (simp add: or_eq_0_iff)

lemma right_named_not_zero: "right_named n = Some f \<Longrightarrow> f \<noteq> 0"
  by (auto simp: right_named_def right_defs split: if_splits)

lemma parse_rights_not_zero:
  "parse_rights U rs a = Ok v \<Longrightarrow> rs \<noteq> [] \<or> a \<noteq> 0 \<Longrightarrow> v \<noteq> 0"
proof (induction U rs a rule: parse_rights.induct)
  case (2 U r rs acc)
  then obtain f where f: "right_named (ToLower U (TrimSpace U r)) = Some f" "parse_rights U rs (acc OR f) = Ok v"
    by (auto split: option.splits)
  moreover have "acc OR f \<noteq> 0"
    using right_named_not_zero [OF f(1)] by (simp add: or_eq_0_iff)
  ultimately show ?case using "2.IH" by blast
qed simp

lemma convertRule_valid: "convertRule U r i = Ok a \<Longrightarrow> valid_rule a"
  by (auto simp: convertRule_def ParseRights_def valid_rule_def NewACL_def WithScope_def WithDeny_def
      WithAttributes_def Let_def dest: parse_rights_not_zero ParseScope_valid split: if_splits outcome.splits)

lemma convert_rules_valid:
  "convert_rules U rs i c = Ok c' \<Longrightarrow> ValidateConfig (Some c) = [] \<Longrightarrow> ValidateConfig (Some c') = []"
  by (induction U rs i c rule: convert_rules.induct)
    (auto simp: ValidateConfig_Nil_iff Config_AddRule_def dest: convertRule_valid split: outcome.splits)

lemma convertFileConfig_valid: "convertFileConfig U fc = Ok c \<Longrightarrow> ValidateConfig (Some c) = []"
proof -
  assume "convertFileConfig U fc = Ok c"
  then obtain c0 where "convert_rules U (f_rules fc) 0 c0 = Ok c" "ValidateConfig (Some c0) = []"
    by (auto simp: convertFileConfig_def Let_def ValidateConfig_Nil_iff NewConfig_def
        Config_SetDefaultPolicy_def valid_policy_def split: if_splits)
  then show ?thesis by (rule convert_rules_valid)
qed

lemma LoadFromFile_valid: "LoadFromFile U env files p = Ok c \<Longrightarrow> ValidateConfig (Some c) = []"
  by (auto simp: LoadFromFile_def ParseACLYAML_def dest: convertFileConfig_valid
      split: option.splits outcome.splits)

lemma jsonToACLRule_scope: "jsonToACLRule U j = Ok r \<Longrightarrow> a_scope r \<in> {ScopeBase, ScopeOne, ScopeSubtree}"
  by (auto simp: jsonToACLRule_def NewACL_def WithScope_def WithDeny_def WithAttributes_def Let_def
      dest: ParseScope_valid split: if_splits outcome.splits)

section \<open>Operations of a standalone manager\<close>

text \<open>The changes a server without a cluster makes to its manager.\<close>

inductive manager_step :: "unicode \<Rightarrow> manager \<Rightarrow> manager \<Rightarrow> bool" for U where
  step_add: "jsonToACLRule U j = Ok r \<Longrightarrow> manager_step U m (snd (AddRule (Some r) i m))"
| step_update: "jsonToACLRule U j = Ok r \<Longrightarrow> manager_step U m (snd (UpdateRule i (Some r) m))"
| step_delete: "manager_step U m (snd (DeleteRule i m))"
| step_policy: "manager_step U m (snd (SetDefaultPolicy U p m))"
| step_reload: "manager_step U m (snd (Reload U env files m))"

abbreviation valid_manager :: "manager \<Rightarrow> bool" where
  "valid_manager m \<equiv> ValidateConfig (Some (m_config m)) = []"

lemma AddRule_valid:
  "valid_manager m \<Longrightarrow> a_scope r \<in> {ScopeBase, ScopeOne, ScopeSubtree} \<Longrightarrow>
     valid_manager (snd (AddRule (Some r) i m))"
  by (auto simp: AddRule_def set_rules_def ValidateConfig_Nil_iff set_insert_rule valid_rule_def)

lemma UpdateRule_valid:
  "valid_manager m \<Longrightarrow> a_scope r \<in> {ScopeBase, ScopeOne, ScopeSubtree} \<Longrightarrow>
     valid_manager (snd (UpdateRule i (Some r) m))"
  by (auto simp: UpdateRule_def set_rules_def ValidateConfig_Nil_iff valid_rule_def
      dest!: set_update_subset_insert [THEN subsetD])

lemma DeleteRule_valid: "valid_manager m \<Longrightarrow> valid_manager (snd (DeleteRule i m))"
  using set_remove_rule [of i "rules (m_config m)"]
  by (auto simp: DeleteRule_def set_rules_def ValidateConfig_Nil_iff)

lemma SetDefaultPolicy_valid: "valid_manager m \<Longrightarrow> valid_manager (snd (SetDefaultPolicy U p m))"
  by (auto simp: SetDefaultPolicy_def Config_SetDefaultPolicy_def ValidateConfig_Nil_iff valid_policy_def Let_def)

lemma Reload_valid: "valid_manager m \<Longrightarrow> valid_manager (snd (Reload U env files m))"
  by (auto simp: Reload_def split: outcome.splits list.splits)

lemma manager_step_valid: "manager_step U m m' \<Longrightarrow> valid_manager m \<Longrightarrow> valid_manager m'"
  by (induction rule: manager_step.induct)
    (auto intro: AddRule_valid UpdateRule_valid DeleteRule_valid SetDefaultPolicy_valid Reload_valid
      dest: jsonToACLRule_scope simp del: insert_iff)

section \<open>Properties\<close>


definition sample_rule :: acl where
  "sample_rule = NewACL (lit ''dc=example'') (lit ''self'') (Read OR Write)"

definition sample_config :: acl_config where
  "sample_config = \<lparr>default_policy = lit ''deny'', rules = [Some sample_rule]\<rparr>"

lemma sample_valid: "ValidateConfig (Some sample_config) = []"
  by (simp add: ValidateConfig_Nil_iff sample_config_def sample_rule_def valid_rule_def valid_policy_def
      NewACL_def right_defs)


text \<open>
  C24. What a rule's target and scope mean. A base rule matches the entry itself and a subtree
  rule exactly the DNs that end, component by component, with the components of the target. A
  one-level rule matches the immediate children, but also every DN that prolongs the first
  component of the target itself: such a DN is no child of the target.
\<close>

theorem target_scopes_on_components:
  "MatchesTarget U r t \<longleftrightarrow>
     (let p = ToLower U (a_target r); d = ToLower U t in
       p = lit ''*'' \<or>
       a_scope r = ScopeBase \<and> d = p \<or>
       a_scope r = ScopeSubtree \<and> (p = [] \<or> suffix (Split comma p) (Split comma d)) \<or>
       a_scope r = ScopeOne \<and> p \<noteq> [] \<and>
         (\<exists>x. x \<noteq> [] \<and> comma \<notin> set x \<and> (Split comma d = x # Split comma p \<or> d = x @ p)))"
  by (auto simp: MatchesTarget_def Let_def isSubtreeMatch_iff isImmediateChild_iff scope_defs)

definition readable :: "unicode \<Rightarrow> acl_config \<Rightarrow> bytes \<Rightarrow> bytes \<Rightarrow> bytes \<Rightarrow> bool" where
  "readable U c bind dn attr \<longleftrightarrow>
     CheckAttributeAccess U c (Some (NewAccessContext bind dn Read)) attr = Ok True"

text \<open>
  C25. Filtering an entry keeps exactly the attributes that the bound user may read, with their
  values, and filtering a list of requested attributes keeps exactly those in order; neither
  panics on a valid configuration.
\<close>

theorem attribute_filters_exact:
  assumes "ValidateConfig (Some c) = []"
  shows "FilterAttributes U c (Some ctx) (Some e) =
           Ok (Some \<lparr>en_dn = en_dn e,
             en_attributes = filter (\<lambda>(name, vs). readable U c (bindDN ctx) (en_dn e) name) (en_attributes e)\<rparr>) \<and>
         FilterAttributeList U c (Some ctx) attrs =
           Ok (filter (readable U c (bindDN ctx) (targetDN ctx)) attrs)"
proof -
  have check: "CheckAttributeAccess U c (Some (NewAccessContext b d Read)) attr = Ok (readable U c b d attr)"
    for b d attr
    using valid_no_nil [OF assms] by (simp add: CheckAttributeAccess_decision readable_def)
  show ?thesis
    by (simp add: FilterAttributes_def FilterAttributeList_def NewEntry_def check keep_if_pairs
        keep_if_filter [where P = "readable U c b d" for b d])
qed

theorem attribute_filters_exact_witness:
  "ValidateConfig (Some sample_config) = [] \<and>
   FilterAttributeList plain_unicode sample_config (Some (NewAccessContext [] [] Read)) [lit ''cn''] =
     Ok (filter (readable plain_unicode sample_config [] []) [lit ''cn''])"
  using attribute_filters_exact [OF sample_valid, of plain_unicode "NewAccessContext [] [] Read"
      "NewEntry []" "[lit ''cn'']"] sample_valid
  by (simp add: NewAccessContext_def)


definition empty_file_manager :: manager where
  "empty_file_manager =
     \<lparr>m_config = NewConfig, m_file = lit ''acl'', m_reloads = 0, m_last_error = None, m_version = 0\<rparr>"

lemma empty_file_manager_starts:
  "NewManager plain_unicode (\<lambda>_. []) (\<lambda>_. Some []) (Some \<lparr>mc_file = lit ''acl'', mc_embedded = None\<rparr>) =
     Ok empty_file_manager"
  by (simp add: NewManager_def LoadFromFile_def ParseACLYAML_def substituteEnvVars.simps
      parseACLYAMLToFileConfig_def read_line_def initial_reader_def save_current_def
      convertFileConfig_def Config_SetDefaultPolicy_def NewConfig_def ToLower_names empty_file_manager_def)


end
