(* ===== verification/Acl_Yaml.thy ===== *)
theory Acl_Yaml
  imports Acl_Props
begin

text \<open>
  What the reader of \<^verbatim>\<open>loader.go\<close> makes of the text that \<^verbatim>\<open>SaveToFile\<close> writes. Strings are
  written with \<^verbatim>\<open>%q\<close>, which escapes, and read by cutting the quotes off, which does not
  unescape: \<open>escape\<close> is what a string becomes on the way.
\<close>

section \<open>Strings that can be saved\<close>

definition printable :: "bytes \<Rightarrow> bool" where
  "printable s \<longleftrightarrow> list_all (\<lambda>b. 32 \<le> b \<and> b < 127 \<and> b \<noteq> 34 \<and> b \<noteq> 36 \<and> b \<noteq> 39) s"

definition escape :: "bytes \<Rightarrow> bytes" where
  "escape s = concat (map quote_byte s)"

lemma printable_simps [simp]:
  "printable []"
  "printable (b # s) \<longleftrightarrow> 32 \<le> b \<and> b < 127 \<and> b \<noteq> 34 \<and> b \<noteq> 36 \<and> b \<noteq> 39 \<and> printable s"
  by (auto simp: printable_def)

lemma printable_iff:
  "printable s \<longleftrightarrow> (\<forall>b\<in>set s. 32 \<le> b \<and> b < 127 \<and> b \<noteq> 34 \<and> b \<noteq> 36 \<and> b \<noteq> 39)"
  by (simp add: printable_def list_all_iff)

lemma escape_simps [simp]:
  "escape [] = []"
  "escape (b # s) = quote_byte b @ escape s"
  by (simp_all add: escape_def)

lemma quote_printable:
  "32 \<le> b \<Longrightarrow> b < 127 \<Longrightarrow> b \<noteq> 34 \<Longrightarrow> quote_byte b = (if b = 92 then [92, 92] else [b])"
  by (simp add: quote_byte_def)

lemma printable_escape [simp]: "printable s \<Longrightarrow> printable (escape s)"
  by (induction s) (simp_all add: quote_printable)

lemma escape_id_iff: "printable s \<Longrightarrow> escape s = s \<longleftrightarrow> 92 \<notin> set s"
proof (induction s)
  case (Cons b s)
  have "length s \<le> length (escape s)" if "printable s" for s
    using that by (induction s) (simp_all add: quote_printable)
  then have "s \<noteq> 92 # escape s"
    using Cons.prems impossible_Cons [of s "escape s" 92] by auto
  with Cons show ?case
    by (auto simp: quote_printable)
qed simp

lemma printable_ascii: "printable s \<Longrightarrow> list_all is_ascii s"
  by (induction s) (auto simp: is_ascii_def intro: order_less_trans [of _ 127])

lemma Quote_printable: "printable s \<Longrightarrow> Quote U s = 34 # escape s @ [34]"
  by (simp add: Quote_def printable_ascii escape_def)

lemma printable_no_newline: "printable s \<Longrightarrow> 10 \<notin> set s"
  by (auto simp: printable_iff)

lemma printable_no_dollar: "printable s \<Longrightarrow> 36 \<notin> set s"
  by (auto simp: printable_iff)

section \<open>Lines\<close>

lemma substitute_no_dollar: "36 \<notin> set s \<Longrightarrow> substituteEnvVars env s = s"
proof (induction s)
  case (Cons b s)
  then have "\<not> HasPrefix (b # s) (lit ''${'')"
    by (auto simp: HasPrefix_def lit_def)
  with Cons show ?case by (subst substituteEnvVars.simps) simp
qed (simp add: substituteEnvVars.simps)

lemma Split_lines:
  "\<forall>l\<in>set ls. 10 \<notin> set l \<Longrightarrow> Split 10 (concat (map (\<lambda>l. l @ nl) ls)) = ls @ [[]]"
  by (induction ls) (simp_all add: nl_def Split_append Split_single)

lemma read_lines_append:
  "read_lines U (xs @ ys) st =
     (case read_lines U xs st of Ok st' \<Rightarrow> read_lines U ys st' | Fail e \<Rightarrow> Fail e | Panic \<Rightarrow> Panic)"
  by (induction U xs st rule: read_lines.induct) (auto split: outcome.splits)

lemma trim_end_last:
  "s \<noteq> [] \<Longrightarrow> is_ascii (last s) \<Longrightarrow> \<not> ascii_space (last s) \<Longrightarrow> trim_end U (rev s) = s"
  by (cases s rule: rev_cases) auto

lemma TrimSpace_core:
  assumes "s \<noteq> []" "is_ascii (hd s)" "\<not> ascii_space (hd s)" "is_ascii (last s)" "\<not> ascii_space (last s)"
  shows "TrimSpace U s = s"
proof -
  have "trim_end U (rev s) = s" using assms by (intro trim_end_last)
  with assms show ?thesis by (cases s) (simp_all del: rev.simps)
qed

lemma TrimSpace_indent [simp]: "TrimSpace U (32 # s) = TrimSpace U s"
  by (simp add: is_ascii_def ascii_space_def)

lemma Trim_quoted: "printable s \<Longrightarrow> Trim (34 # s @ [34]) quotes = s"
proof -
  assume p: "printable s"
  have "dropWhile (\<lambda>b. b \<in> set quotes) (s @ [34]) = (if s = [] then [] else s @ [34])"
    using p by (cases s) (auto simp: quotes_def)
  moreover have "dropWhile (\<lambda>b. b \<in> set quotes) (rev s) = rev s"
    using p by (cases s rule: rev_cases) (auto simp: quotes_def printable_iff)
  ultimately show ?thesis
    by (auto simp: Trim_def TrimLeft_def TrimRight_def quotes_def)
qed

section \<open>The lines of a rule\<close>

definition rule_yaml :: "unicode \<Rightarrow> acl \<Rightarrow> bytes list" where
  "rule_yaml U r =
     [lit ''  - target: '' @ Quote U (a_target r), lit ''    subject: '' @ Quote U (a_subject r),
      lit ''    scope: '' @ Scope_String (a_scope r), lit ''    rights:''] @
     map (\<lambda>n. lit ''      - '' @ n) (rightsToStrings (a_rights r)) @
     (if a_attributes r \<noteq> []
      then lit ''    attributes:'' # map (\<lambda>a. lit ''      - '' @ Quote U a) (a_attributes r) else []) @
     (if a_deny r then [lit ''    deny: true''] else [])"

lemma rule_lines_yaml: "rule_lines U r = concat (map (\<lambda>l. l @ nl) (rule_yaml U r))"
  by (simp add: rule_lines_def rule_yaml_def comp_def)

lemma dropWhile_replicate: "\<not> P (hd xs) \<Longrightarrow> xs \<noteq> [] \<Longrightarrow> P x \<Longrightarrow> dropWhile P (replicate k x @ xs) = xs"
  by (induction k) (auto simp: dropWhile_eq_self_iff)

lemma TrimSpace_replicate: "TrimSpace U (replicate k 32 @ s) = TrimSpace U s"
  by (induction k) (simp_all add: is_ascii_def ascii_space_def)

lemma read_indented:
  assumes "core \<noteq> []" "is_ascii (hd core)" "\<not> ascii_space (hd core)" "is_ascii (last core)"
    "\<not> ascii_space (last core)" "hd core \<noteq> 35" "0 < k" "r_in_rules st"
  shows "read_line U (replicate k 32 @ core) st = Ok (read_rule_line U core k st)"
proof -
  have "TrimLeft (replicate k 32 @ core) [32, 9] = core"
    using assms by (auto simp: TrimLeft_def ascii_space_def intro!: dropWhile_replicate)
  moreover have "\<not> HasPrefix core (lit ''#'')"
    using assms(1,6) by (cases core) (auto simp: HasPrefix_def lit_def)
  ultimately show ?thesis
    using assms by (simp add: read_line_def TrimSpace_replicate TrimSpace_core Let_def)
qed

lemma key_value_line:
  assumes "58 \<notin> set key" "TrimSpace U key = key" "val \<noteq> []"
    "is_ascii (hd val)" "\<not> ascii_space (hd val)" "is_ascii (last val)" "\<not> ascii_space (last val)"
  shows "parseRuleKeyValue U (key @ 58 # 32 # val) rule =
    (let v = Trim val quotes in
      if key = lit ''target'' then (rule\<lparr>f_target := v\<rparr>, False, False)
      else if key = lit ''subject'' then (rule\<lparr>f_subject := v\<rparr>, False, False)
      else if key = lit ''scope'' then (rule\<lparr>f_scope := v\<rparr>, False, False)
      else if key = lit ''deny'' then (rule\<lparr>f_deny := (v = lit ''true'' \<or> v = lit ''yes'')\<rparr>, False, False)
      else if key = lit ''rights''
      then if is_inline v then (rule\<lparr>f_rights := f_rights rule @ inline_items U v\<rparr>, False, False)
           else (rule, False, True)
      else if key = lit ''attributes''
      then if is_inline v then (rule\<lparr>f_attributes := f_attributes rule @ inline_items U v\<rparr>, False, False)
           else (rule, True, False)
      else (rule, False, False))"
  using assms by (simp add: parseRuleKeyValue_def TrimSpace_core Let_def del: TrimSpace.simps)

lemma TrimSpace_keys:
  "TrimSpace U (lit ''target'') = lit ''target''" "TrimSpace U (lit ''subject'') = lit ''subject''"
  "TrimSpace U (lit ''scope'') = lit ''scope''" "TrimSpace U (lit ''rights'') = lit ''rights''"
  "TrimSpace U (lit ''attributes'') = lit ''attributes''" "TrimSpace U (lit ''deny'') = lit ''deny''"
  by (simp_all add: lit_def is_ascii_def ascii_space_def)

definition start_rule :: "bytes \<Rightarrow> reader_state \<Rightarrow> reader_state" where
  "start_rule t st = (save_current st)\<lparr>r_current := Some (empty_rule\<lparr>f_target := t\<rparr>), r_in_attributes := False,
     r_in_rights := False, r_rule_indent := 2\<rparr>"

lemma save_current_in_rules [simp]: "r_in_rules (save_current st) = r_in_rules st"
  by (simp add: save_current_def split: option.splits)

lemma read_rule_start:
  assumes "58 \<in> set rest" "rest \<noteq> []" "hd rest \<noteq> 91"
  shows "read_rule_line U (lit ''- '' @ rest) 2 st =
    with_key_value U rest empty_rule ((save_current st)\<lparr>r_current := Some empty_rule, r_in_attributes := False,
      r_in_rights := False, r_rule_indent := 2\<rparr>)"
proof -
  have "Contains rest (lit '':'')" "\<not> HasPrefix rest (lit ''['')"
    using assms by (simp add: lit_def, cases rest) (auto simp: HasPrefix_def lit_def)
  then show ?thesis by (simp add: read_rule_line_def Let_def)
qed

lemma read_rule_key:
  assumes "58 \<in> set core" "core \<noteq> []" "hd core \<noteq> 45" "r_current st = Some rule"
  shows "read_rule_line U core k st = with_key_value U core rule st"
proof -
  have "Contains core (lit '':'')" "\<not> HasPrefix core (lit ''- '')"
    using assms by (simp add: lit_def, cases core) (auto simp: HasPrefix_def lit_def)
  with assms(4) show ?thesis by (simp add: read_rule_line_def)
qed

lemma read_rule_item:
  assumes "2 < k" "r_current st = Some rule" "r_rule_indent st = 2"
  shows "read_rule_line U (lit ''- '' @ item) k st =
    (let val = Trim (TrimSpace U item) quotes
     in if r_in_attributes st
        then st\<lparr>r_current := Some (rule\<lparr>f_attributes := f_attributes rule @ [val]\<rparr>)\<rparr>
        else if r_in_rights st
        then st\<lparr>r_current := Some (rule\<lparr>f_rights := f_rights rule @ [val]\<rparr>)\<rparr>
        else st)"
  using assms by (simp add: read_rule_line_def)

lemma read_target_line:
  assumes "printable t" "r_in_rules st"
  shows "read_line U (lit ''  - target: '' @ Quote U t) st = Ok (start_rule (escape t) st)"
proof -
  let ?val = "34 # escape t @ [34]"
  let ?rest = "lit ''target'' @ 58 # 32 # ?val"
  have line: "lit ''  - target: '' @ Quote U t = replicate 2 32 @ (lit ''- '' @ ?rest)"
    using assms by (simp add: Quote_printable lit_def eval_nat_numeral)
  have "read_line U (replicate 2 32 @ (lit ''- '' @ ?rest)) st = Ok (read_rule_line U (lit ''- '' @ ?rest) 2 st)"
    by (rule read_indented) (use assms in \<open>simp_all add: lit_def is_ascii_def ascii_space_def\<close>)
  moreover have "parseRuleKeyValue U ?rest empty_rule = (empty_rule\<lparr>f_target := escape t\<rparr>, False, False)"
    using assms by (subst key_value_line)
      (simp_all add: TrimSpace_keys Trim_quoted is_ascii_def ascii_space_def, simp add: lit_def)
  moreover have "hd ?rest \<noteq> 91" by (simp add: lit_def)
  ultimately show ?thesis
    unfolding line by (subst (asm) read_rule_start) (simp_all add: with_key_value_def start_rule_def)
qed

text \<open>A line \<open>key: value\<close> of a rule that has been started.\<close>

lemma read_key_line:
  assumes key: "58 \<notin> set key" "TrimSpace U key = key" "key \<noteq> []" "hd key \<noteq> 45" "hd key \<noteq> 35"
      "is_ascii (hd key)" "\<not> ascii_space (hd key)"
    and val: "val \<noteq> []" "is_ascii (hd val)" "\<not> ascii_space (hd val)" "is_ascii (last val)" "\<not> ascii_space (last val)"
    and st: "r_in_rules st" "r_current st = Some rule"
    and parse: "parseRuleKeyValue U (key @ 58 # 32 # val) rule = (rule', ia, ir)"
  shows "read_line U (replicate 4 32 @ key @ 58 # 32 # val) st =
    Ok (st\<lparr>r_current := Some rule', r_in_attributes := ia, r_in_rights := ir\<rparr>)"
proof -
  have "read_line U (replicate 4 32 @ (key @ 58 # 32 # val)) st = Ok (read_rule_line U (key @ 58 # 32 # val) 4 st)"
    by (rule read_indented) (use key val st in simp_all)
  also have "read_rule_line U (key @ 58 # 32 # val) 4 st = with_key_value U (key @ 58 # 32 # val) rule st"
    by (rule read_rule_key) (use key st in simp_all)
  finally show ?thesis by (simp add: with_key_value_def parse)
qed

lemma read_subject_line:
  assumes "printable s" "r_in_rules st" "r_current st = Some rule"
  shows "read_line U (lit ''    subject: '' @ Quote U s) st =
    Ok (st\<lparr>r_current := Some (rule\<lparr>f_subject := escape s\<rparr>), r_in_attributes := False, r_in_rights := False\<rparr>)"
proof -
  let ?val = "34 # escape s @ [34]"
  have line: "lit ''    subject: '' @ Quote U s = replicate 4 32 @ lit ''subject'' @ 58 # 32 # ?val"
    using assms by (simp add: Quote_printable lit_def eval_nat_numeral)
  have keys: "58 \<notin> set (lit ''subject'')" by (simp add: lit_def)
  have "parseRuleKeyValue U (lit ''subject'' @ 58 # 32 # ?val) rule = (rule\<lparr>f_subject := escape s\<rparr>, False, False)"
    using assms keys by (subst key_value_line)
      (simp_all add: TrimSpace_keys Trim_quoted is_ascii_def ascii_space_def)
  then show ?thesis
    unfolding line using keys assms
    by (subst read_key_line) (simp_all add: TrimSpace_keys, simp_all add: lit_def is_ascii_def ascii_space_def)
qed

lemma Trim_plain: "s \<noteq> [] \<Longrightarrow> hd s \<notin> set quotes \<Longrightarrow> last s \<notin> set quotes \<Longrightarrow> Trim s quotes = s"
proof -
  assume "s \<noteq> []" "hd s \<notin> set quotes" "last s \<notin> set quotes"
  then have "dropWhile (\<lambda>b. b \<in> set quotes) s = s" "dropWhile (\<lambda>b. b \<in> set quotes) (rev s) = rev s"
    by (simp_all add: dropWhile_eq_self_iff hd_rev)
  then show ?thesis by (simp add: Trim_def TrimLeft_def TrimRight_def)
qed

text \<open>A value written without quotes: it starts and ends with a letter.\<close>

definition word_like :: "bytes \<Rightarrow> bool" where
  "word_like s \<longleftrightarrow> s \<noteq> [] \<and> 97 \<le> hd s \<and> hd s \<le> 122 \<and> 97 \<le> last s \<and> last s \<le> 122"

lemma word_likeD:
  assumes "word_like s"
  shows "s \<noteq> []" "is_ascii (hd s)" "\<not> ascii_space (hd s)" "is_ascii (last s)" "\<not> ascii_space (last s)"
    "Trim s quotes = s" "hd s \<noteq> 45" "hd s \<noteq> 35"
proof -
  have "97 \<le> b \<and> b \<le> 122 \<Longrightarrow> is_ascii b \<and> \<not> ascii_space b \<and> b \<notin> set quotes \<and> b \<noteq> 45 \<and> b \<noteq> 35" for b
    by (auto simp: is_ascii_def ascii_space_def quotes_def intro: order_le_less_trans)
  with assms show "s \<noteq> []" "is_ascii (hd s)" "\<not> ascii_space (hd s)" "is_ascii (last s)"
    "\<not> ascii_space (last s)" "Trim s quotes = s" "hd s \<noteq> 45" "hd s \<noteq> 35"
    by (auto simp: word_like_def intro!: Trim_plain)
qed

lemma TrimSpace_word: "word_like s \<Longrightarrow> TrimSpace U s = s"
  by (rule TrimSpace_core) (auto dest: word_likeD)

lemma word_like_names:
  "word_like (lit ''read'')" "word_like (lit ''write'')" "word_like (lit ''add'')" "word_like (lit ''delete'')"
  "word_like (lit ''search'')" "word_like (lit ''compare'')" "word_like (lit ''all'')" "word_like (lit ''base'')"
  "word_like (lit ''one'')" "word_like (lit ''subtree'')" "word_like (lit ''unknown'')" "word_like (lit ''allow'')"
  "word_like (lit ''deny'')" "word_like (lit ''true'')" "word_like (lit ''rights'')" "word_like (lit ''attributes'')"
  "word_like (lit ''scope'')"
  by (simp_all add: word_like_def lit_def)

lemma word_like_Scope_String: "word_like (Scope_String s)"
  by (simp add: Scope_String_def word_like_names)

lemma word_like_rights: "n \<in> set (rightsToStrings r) \<Longrightarrow> word_like n"
  by (auto simp: rightsToStrings_def word_like_names split: if_splits)

lemma read_word_line:
  assumes "58 \<notin> set key" "word_like key" "word_like val" "r_in_rules st" "r_current st = Some rule"
    "key = lit ''scope'' \<and> rule' = rule\<lparr>f_scope := val\<rparr> \<or>
     key = lit ''deny'' \<and> rule' = rule\<lparr>f_deny := (val = lit ''true'' \<or> val = lit ''yes'')\<rparr>"
  shows "read_line U (replicate 4 32 @ key @ 58 # 32 # val) st =
    Ok (st\<lparr>r_current := Some rule', r_in_attributes := False, r_in_rights := False\<rparr>)"
proof (rule read_key_line [OF assms(1)])
  show "parseRuleKeyValue U (key @ 58 # 32 # val) rule = (rule', False, False)"
    using assms by (subst key_value_line) (auto simp: TrimSpace_word word_likeD)
qed (use assms in \<open>simp_all add: word_likeD TrimSpace_word\<close>)

lemma read_flag_line:
  assumes "58 \<notin> set key" "word_like key" "r_in_rules st" "r_current st = Some rule"
    "key = lit ''rights'' \<and> \<not> ia \<and> ir \<or> key = lit ''attributes'' \<and> ia \<and> \<not> ir"
  shows "read_line U (replicate 4 32 @ key @ [58]) st =
    Ok (st\<lparr>r_in_attributes := ia, r_in_rights := ir\<rparr>)"
proof -
  have "read_line U (replicate 4 32 @ (key @ [58])) st = Ok (read_rule_line U (key @ [58]) 4 st)"
    by (rule read_indented) (use assms in \<open>simp_all add: word_likeD is_ascii_def ascii_space_def\<close>,
      use word_likeD(2,3) in \<open>simp_all add: is_ascii_def ascii_space_def\<close>)
  also have "read_rule_line U (key @ [58]) 4 st = with_key_value U (key @ [58]) rule st"
    by (rule read_rule_key) (use assms word_likeD(1,7) in simp_all)
  also have "parseRuleKeyValue U (key @ [58]) rule = (rule, ia, ir)"
    using assms SplitN2_append [of 58 key "[]"]
    by (auto simp: parseRuleKeyValue_def TrimSpace_word is_inline_def HasPrefix_def Trim_def TrimLeft_def
        TrimRight_def)
  ultimately show ?thesis using assms(4) by (simp add: with_key_value_def)
qed

lemma read_item_line:
  assumes "item \<noteq> []" "is_ascii (hd item)" "\<not> ascii_space (hd item)" "is_ascii (last item)"
    "\<not> ascii_space (last item)" "r_in_rules st" "r_current st = Some rule" "r_rule_indent st = 2"
  shows "read_line U (lit ''      - '' @ item) st =
    Ok (let val = Trim item quotes
        in if r_in_attributes st
           then st\<lparr>r_current := Some (rule\<lparr>f_attributes := f_attributes rule @ [val]\<rparr>)\<rparr>
           else if r_in_rights st
           then st\<lparr>r_current := Some (rule\<lparr>f_rights := f_rights rule @ [val]\<rparr>)\<rparr>
           else st)"
proof -
  have line: "lit ''      - '' @ item = replicate 6 32 @ (lit ''- '' @ item)"
    by (simp add: lit_def eval_nat_numeral)
  have "read_line U (replicate 6 32 @ (lit ''- '' @ item)) st = Ok (read_rule_line U (lit ''- '' @ item) 6 st)"
    by (rule read_indented) (use assms in \<open>simp_all add: lit_def is_ascii_def ascii_space_def\<close>)
  with assms show ?thesis
    unfolding line by (simp add: read_rule_item TrimSpace_core)
qed

definition file_rule_of :: "acl \<Rightarrow> file_rule" where
  "file_rule_of r =
     \<lparr>f_target = escape (a_target r), f_subject = escape (a_subject r), f_scope = Scope_String (a_scope r),
      f_rights = rightsToStrings (a_rights r), f_attributes = map escape (a_attributes r), f_deny = a_deny r\<rparr>"

lemma read_rights_items:
  "\<forall>n\<in>set ns. word_like n \<Longrightarrow> r_in_rules st \<Longrightarrow> r_current st = Some rule \<Longrightarrow> r_rule_indent st = 2 \<Longrightarrow>
   r_in_rights st \<Longrightarrow> \<not> r_in_attributes st \<Longrightarrow>
   read_lines U (map (\<lambda>n. lit ''      - '' @ n) ns) st =
     Ok (st\<lparr>r_current := Some (rule\<lparr>f_rights := f_rights rule @ ns\<rparr>)\<rparr>)"
proof (induction ns arbitrary: st rule)
  case (Cons n ns)
  then have "read_line U (lit ''      - '' @ n) st =
      Ok (st\<lparr>r_current := Some (rule\<lparr>f_rights := f_rights rule @ [n]\<rparr>)\<rparr>)"
    by (subst read_item_line) (simp_all add: word_likeD)
  with Cons show ?case by simp
qed simp

lemma read_attribute_items:
  "\<forall>a\<in>set as. printable a \<Longrightarrow> r_in_rules st \<Longrightarrow> r_current st = Some rule \<Longrightarrow> r_rule_indent st = 2 \<Longrightarrow>
   r_in_attributes st \<Longrightarrow>
   read_lines U (map (\<lambda>a. lit ''      - '' @ Quote U a) as) st =
     Ok (st\<lparr>r_current := Some (rule\<lparr>f_attributes := f_attributes rule @ map escape as\<rparr>)\<rparr>)"
proof (induction as arbitrary: st rule)
  case (Cons a as)
  then have "read_line U (lit ''      - '' @ Quote U a) st =
      Ok (st\<lparr>r_current := Some (rule\<lparr>f_attributes := f_attributes rule @ [escape a]\<rparr>)\<rparr>)"
    by (subst read_item_line) (simp_all add: Quote_printable Trim_quoted is_ascii_def ascii_space_def)
  with Cons show ?case by simp
qed simp

definition savable_rule :: "acl \<Rightarrow> bool" where
  "savable_rule r \<longleftrightarrow> valid_rule r \<and> replicable r \<and> printable (a_target r) \<and> printable (a_subject r) \<and>
     (\<forall>a\<in>set (a_attributes r). printable a)"

lemma line_forms:
  "lit ''    scope: '' @ v = replicate 4 32 @ lit ''scope'' @ 58 # 32 # v"
  "lit ''    rights:'' = replicate 4 32 @ lit ''rights'' @ [58]"
  "lit ''    attributes:'' = replicate 4 32 @ lit ''attributes'' @ [58]"
  "lit ''    deny: true'' = replicate 4 32 @ lit ''deny'' @ 58 # 32 # lit ''true''"
  by (simp_all add: lit_def eval_nat_numeral)

lemma keys_no_colon:
  "58 \<notin> set (lit ''scope'')" "58 \<notin> set (lit ''rights'')" "58 \<notin> set (lit ''attributes'')"
  "58 \<notin> set (lit ''deny'')"
  by (simp_all add: lit_def)

lemma read_rule_head:
  assumes "savable_rule r" "r_in_rules st"
  shows "read_lines U [lit ''  - target: '' @ Quote U (a_target r), lit ''    subject: '' @ Quote U (a_subject r),
      lit ''    scope: '' @ Scope_String (a_scope r), lit ''    rights:''] st =
    Ok ((start_rule (escape (a_target r)) st)\<lparr>r_current := Some (empty_rule\<lparr>f_target := escape (a_target r),
      f_subject := escape (a_subject r), f_scope := Scope_String (a_scope r)\<rparr>),
      r_in_attributes := False, r_in_rights := True\<rparr>)"
proof -
  define st1 where "st1 = start_rule (escape (a_target r)) st"
  have st1: "r_in_rules st1" "r_current st1 = Some (empty_rule\<lparr>f_target := escape (a_target r)\<rparr>)"
    using assms by (simp_all add: st1_def start_rule_def)
  let ?u = "\<lambda>rule ir. st1\<lparr>r_current := Some rule, r_in_attributes := False, r_in_rights := ir\<rparr>"
  let ?r2 = "empty_rule\<lparr>f_target := escape (a_target r), f_subject := escape (a_subject r)\<rparr>"
  let ?r3 = "?r2\<lparr>f_scope := Scope_String (a_scope r)\<rparr>"
  have l2: "read_line U (lit ''    subject: '' @ Quote U (a_subject r)) st1 = Ok (?u ?r2 False)"
    using assms st1 by (subst read_subject_line) (simp_all add: savable_rule_def)
  have l3: "read_line U (lit ''    scope: '' @ Scope_String (a_scope r)) (?u ?r2 False) = Ok (?u ?r3 False)"
    unfolding line_forms using st1
    by (subst read_word_line) (auto simp: word_like_Scope_String word_like_names keys_no_colon)
  have l4: "read_line U (lit ''    rights:'') (?u ?r3 False) = Ok (?u ?r3 True)"
    unfolding line_forms using st1
    by (subst read_flag_line) (auto simp: word_like_names keys_no_colon)
  show ?thesis
    using assms by (simp add: read_target_line savable_rule_def st1_def [symmetric] l2 l3 l4)
qed

lemma read_rule_attributes:
  assumes "\<forall>a\<in>set as. printable a" "r_in_rules st" "r_current st = Some rule" "r_rule_indent st = 2"
    "f_attributes rule = []"
  shows "\<exists>ia ir. read_lines U (if as \<noteq> []
      then lit ''    attributes:'' # map (\<lambda>a. lit ''      - '' @ Quote U a) as else []) st =
    Ok (st\<lparr>r_current := Some (rule\<lparr>f_attributes := map escape as\<rparr>), r_in_attributes := ia, r_in_rights := ir\<rparr>)"
proof (cases "as = []")
  case True
  have "rule\<lparr>f_attributes := []\<rparr> = rule" using assms(5) by simp
  with True assms(3) show ?thesis
    by (intro exI [of _ "r_in_attributes st"] exI [of _ "r_in_rights st"]) simp
next
  case False
  have "read_line U (lit ''    attributes:'') st = Ok (st\<lparr>r_in_attributes := True, r_in_rights := False\<rparr>)"
    unfolding line_forms using assms
    by (subst read_flag_line) (auto simp: word_like_names keys_no_colon)
  with False assms show ?thesis
    by (intro exI [of _ True] exI [of _ False]) (simp add: read_attribute_items)
qed

lemma read_rule_deny:
  assumes "r_in_rules st" "r_current st = Some rule" "\<not> f_deny rule"
  shows "\<exists>ia ir. read_lines U (if d then [lit ''    deny: true''] else []) st =
    Ok (st\<lparr>r_current := Some (rule\<lparr>f_deny := d\<rparr>), r_in_attributes := ia, r_in_rights := ir\<rparr>)"
proof (cases d)
  case True
  have "read_line U (lit ''    deny: true'') st =
      Ok (st\<lparr>r_current := Some (rule\<lparr>f_deny := True\<rparr>), r_in_attributes := False, r_in_rights := False\<rparr>)"
    unfolding line_forms using assms
    by (subst read_word_line) (auto simp: word_like_names keys_no_colon)
  with True show ?thesis by auto
next
  case False
  have "rule\<lparr>f_deny := False\<rparr> = rule" using assms(3) by simp
  with False assms(2) show ?thesis
    by (intro exI [of _ "r_in_attributes st"] exI [of _ "r_in_rights st"]) simp
qed

text \<open>The reader after the lines of one rule.\<close>

lemma read_rule_yaml:
  assumes "savable_rule r" "r_in_rules st"
  shows "\<exists>ia ir. read_lines U (rule_yaml U r) st =
    Ok ((start_rule (escape (a_target r)) st)
      \<lparr>r_current := Some (file_rule_of r), r_in_attributes := ia, r_in_rights := ir\<rparr>)"
proof -
  let ?st1 = "start_rule (escape (a_target r)) st"
  let ?u = "\<lambda>rule ia ir. ?st1\<lparr>r_current := Some rule, r_in_attributes := ia, r_in_rights := ir\<rparr>"
  let ?r4 = "(empty_rule\<lparr>f_target := escape (a_target r), f_subject := escape (a_subject r),
      f_scope := Scope_String (a_scope r), f_rights := rightsToStrings (a_rights r)\<rparr>)"
  let ?r5 = "?r4\<lparr>f_attributes := map escape (a_attributes r)\<rparr>"
  have st1: "r_in_rules ?st1" "r_rule_indent ?st1 = 2"
    using assms by (simp_all add: start_rule_def)
  have rights: "read_lines U (map (\<lambda>n. lit ''      - '' @ n) (rightsToStrings (a_rights r)))
      (?u (empty_rule\<lparr>f_target := escape (a_target r), f_subject := escape (a_subject r),
        f_scope := Scope_String (a_scope r)\<rparr>) False True) = Ok (?u ?r4 False True)"
    using st1 by (subst read_rights_items) (auto simp: word_like_rights empty_rule_def)
  obtain ia ir where attrs: "read_lines U (if a_attributes r \<noteq> []
      then lit ''    attributes:'' # map (\<lambda>a. lit ''      - '' @ Quote U a) (a_attributes r) else [])
      (?u ?r4 False True) = Ok (?u ?r5 ia ir)"
    using read_rule_attributes [of "a_attributes r" "?u ?r4 False True" ?r4 U] st1 assms
    by (auto simp: savable_rule_def empty_rule_def)
  obtain ia' ir' where "read_lines U (if a_deny r then [lit ''    deny: true''] else []) (?u ?r5 ia ir) =
      Ok (?u (file_rule_of r) ia' ir')"
    using read_rule_deny [of "?u ?r5 ia ir" ?r5 U "a_deny r"] st1
    by (auto simp: file_rule_of_def empty_rule_def)
  with read_rule_head [OF assms] rights attrs show ?thesis
    by (auto simp: rule_yaml_def read_lines_append simp del: append_Cons append_Nil read_lines.simps)
qed

section \<open>The whole file\<close>

definition yaml_of :: "unicode \<Rightarrow> acl_config \<Rightarrow> bytes list" where
  "yaml_of U c = [lit ''version: 1'', lit ''defaultPolicy: '' @ default_policy c, lit ''rules:''] @
     concat (map (rule_yaml U \<circ> the) (rules c))"

definition savable :: "acl_config \<Rightarrow> bool" where
  "savable c \<longleftrightarrow> default_policy c \<in> {lit ''allow'', lit ''deny''} \<and>
     (\<forall>r\<in>set (rules c). \<exists>a. r = Some a \<and> savable_rule a)"

lemma configToYAML_lines:
  assumes "savable c"
  shows "configToYAML U c = Ok (concat (map (\<lambda>l. l @ nl) (yaml_of U c)))"
proof -
  have "rules_lines U rs = Ok (concat (map (\<lambda>l. l @ nl) (concat (map (rule_yaml U \<circ> the) rs))))"
    if "\<forall>r\<in>set rs. \<exists>a. r = Some a \<and> savable_rule a" for rs
    using that by (induction U rs rule: rules_lines.induct) (auto simp: rule_lines_yaml)
  with assms show ?thesis by (simp add: configToYAML_def yaml_of_def savable_def)
qed

text \<open>No line holds a newline or a dollar sign.\<close>

definition clean :: "bytes \<Rightarrow> bool" where
  "clean l \<longleftrightarrow> 10 \<notin> set l \<and> 36 \<notin> set l"

lemma clean_append [simp]: "clean (a @ b) \<longleftrightarrow> clean a \<and> clean b"
  by (auto simp: clean_def)

lemma lits_clean [simp]:
  "clean (lit ''  - target: '')" "clean (lit ''    subject: '')" "clean (lit ''    scope: '')"
  "clean (lit ''    rights:'')" "clean (lit ''      - '')" "clean (lit ''    attributes:'')"
  "clean (lit ''    deny: true'')" "clean (lit ''version: 1'')" "clean (lit ''defaultPolicy: '')"
  "clean (lit ''rules:'')" "clean (lit ''allow'')" "clean (lit ''deny'')"
  by (simp_all add: lit_def clean_def)

lemma names_clean: "n \<in> set (rightsToStrings r) \<Longrightarrow> clean n" "clean (Scope_String s)"
  by (auto simp: rightsToStrings_def Scope_String_def lit_def clean_def split: if_splits)

lemma Quote_clean: "printable s \<Longrightarrow> clean (Quote U s)"
  using printable_no_newline [of "escape s"] printable_no_dollar [of "escape s"]
  by (simp add: Quote_printable clean_def)

lemma rule_yaml_clean: "savable_rule r \<Longrightarrow> l \<in> set (rule_yaml U r) \<Longrightarrow> clean l"
  unfolding rule_yaml_def savable_rule_def
  by (auto simp: Quote_clean names_clean split: if_splits)

lemma yaml_clean:
  assumes "savable c" "l \<in> set (yaml_of U c)"
  shows "clean l"
proof -
  have "savable_rule (the x)" if "x \<in> set (rules c)" for x
    using assms(1) that by (auto simp: savable_def)
  then have "l \<in> set (concat (map (rule_yaml U \<circ> the) (rules c))) \<Longrightarrow> clean l"
    by (auto dest: rule_yaml_clean)
  with assms show ?thesis
    by (auto simp: yaml_of_def savable_def simp del: set_concat)
qed

lemma read_rules_yaml:
  assumes "\<forall>r\<in>set rs. \<exists>a. r = Some a \<and> savable_rule a" "r_in_rules st"
  shows "\<exists>st'. read_lines U (concat (map (rule_yaml U \<circ> the) rs)) st = Ok st' \<and>
    r_fc (save_current st') = (r_fc (save_current st))
      \<lparr>f_rules := f_rules (r_fc (save_current st)) @ map (file_rule_of \<circ> the) rs\<rparr>"
  using assms
proof (induction rs arbitrary: st)
  case (Cons x rs)
  then obtain r where r: "x = Some r" "savable_rule r" by auto
  with Cons.prems obtain ia ir where step: "read_lines U (rule_yaml U r) st =
      Ok ((start_rule (escape (a_target r)) st)
        \<lparr>r_current := Some (file_rule_of r), r_in_attributes := ia, r_in_rights := ir\<rparr>)" (is "_ = Ok ?st1")
    using read_rule_yaml by blast
  have "r_in_rules ?st1" "r_fc (save_current ?st1) = (r_fc (save_current st))
      \<lparr>f_rules := f_rules (r_fc (save_current st)) @ [file_rule_of r]\<rparr>"
    using Cons.prems by (simp_all add: start_rule_def save_current_def split: option.splits)
  with Cons.IH [of ?st1] Cons.prems r step show ?case
    by (auto simp: read_lines_append)
qed auto

lemma read_header:
  assumes "p \<in> {lit ''allow'', lit ''deny''}"
  shows "read_lines U [lit ''version: 1'', lit ''defaultPolicy: '' @ p, lit ''rules:''] initial_reader =
    Ok (initial_reader\<lparr>r_fc := \<lparr>f_version = 1, f_default_policy = p, f_rules = []\<rparr>, r_in_rules := True\<rparr>)"
proof -
  have top: "read_line U l st = read_top_level U l st"
    if "l \<noteq> []" "is_ascii (hd l)" "\<not> ascii_space (hd l)" "is_ascii (last l)" "\<not> ascii_space (last l)" "hd l \<noteq> 35"
    for l st
  proof -
    have "TrimLeft l [32, 9] = l"
      using that by (auto simp: TrimLeft_def dropWhile_eq_self_iff ascii_space_def)
    moreover have "\<not> HasPrefix l (lit ''#'')"
      using that(1,6) by (cases l) (auto simp: HasPrefix_def lit_def)
    ultimately show ?thesis using that by (simp add: read_line_def TrimSpace_core)
  qed
  have "read_line U (lit ''version: 1'') st = Ok (st\<lparr>r_in_rules := False, r_in_attributes := False,
      r_in_rights := False, r_fc := (r_fc st)\<lparr>f_version := 1\<rparr>\<rparr>)" for st
    by (subst top) (simp_all add: read_top_level_def HasPrefix_def TrimPrefix_def Atoi_def is_digit_def
        digits_value_def lit_def is_ascii_def ascii_space_def)
  moreover have "read_line U (lit ''rules:'') st = Ok (st\<lparr>r_in_rules := True, r_in_attributes := False,
      r_in_rights := False\<rparr>)" for st
    by (subst top) (simp_all add: read_top_level_def HasPrefix_def lit_def is_ascii_def ascii_space_def)
  moreover have "read_line U (lit ''defaultPolicy: '' @ p) st = Ok (st\<lparr>r_in_rules := False,
      r_in_attributes := False, r_in_rights := False, r_fc := (r_fc st)\<lparr>f_default_policy := p\<rparr>\<rparr>)" for st
    using assms
    by (subst top) (auto simp: read_top_level_def HasPrefix_def TrimPrefix_def Trim_def TrimLeft_def
        TrimRight_def quotes_def lit_def is_ascii_def ascii_space_def)
  ultimately show ?thesis by (simp add: initial_reader_def)
qed

definition escape_rule :: "acl \<Rightarrow> acl" where
  "escape_rule r = r\<lparr>a_target := escape (a_target r), a_subject := escape (a_subject r),
     a_attributes := map escape (a_attributes r)\<rparr>"

definition escape_config :: "acl_config \<Rightarrow> acl_config" where
  "escape_config c = c\<lparr>rules := map (map_option escape_rule) (rules c)\<rparr>"

lemma parse_rights_append:
  "parse_rights U xs a = Ok b \<Longrightarrow> parse_rights U (xs @ ys) a = parse_rights U ys b"
  by (induction U xs a rule: parse_rights.induct) (auto split: option.splits)

lemma parse_rights_flag:
  "right_named n = Some f \<Longrightarrow> ToLower U n = n \<Longrightarrow> word_like n \<Longrightarrow>
     parse_rights U (if Has r f then [n] else []) a = Ok (a OR flag r f)"
  by (simp add: flag_def TrimSpace_word)

lemma ParseRights_rightsToStrings:
  assumes "r AND All_rights = r"
  shows "ParseRights U (rightsToStrings r) = Ok r"
proof (cases "r = All_rights")
  case True
  then show ?thesis
    by (simp add: ParseRights_def rightsToStrings_def ToLower_names TrimSpace_word word_like_names right_named_def)
next
  case False
  have "ParseRights U (rightsToStrings r) =
      Ok (0 OR flag r Read OR flag r Write OR flag r Add OR flag r Delete OR flag r Search OR flag r Compare)"
    using False unfolding rightsToStrings_def ParseRights_def
    by (simp add: parse_rights_append [OF parse_rights_flag] parse_rights_flag right_named_def ToLower_names
        word_like_names or.assoc)
  with rights_split [OF assms] show ?thesis by simp
qed

lemma ParseScope_Scope_String:
  "s \<in> {ScopeBase, ScopeOne, ScopeSubtree} \<Longrightarrow> ParseScope U (Scope_String s) = Ok s"
  by (auto simp: ParseScope_def Scope_String_def TrimSpace_word word_like_names ToLower_names scope_defs Let_def)

lemma escape_empty_iff: "printable s \<Longrightarrow> escape s = [] \<longleftrightarrow> s = []"
  by (cases s) (auto simp: quote_printable)

lemma convertRule_file_rule_of:
  assumes "savable_rule r"
  shows "convertRule U (file_rule_of r) i = Ok (escape_rule r)"
proof -
  have rights: "ParseRights U (rightsToStrings (a_rights r)) = Ok (a_rights r)"
    using assms by (simp add: savable_rule_def replicable_def ParseRights_rightsToStrings)
  then have "rightsToStrings (a_rights r) \<noteq> []"
    using assms by (auto simp: ParseRights_def savable_rule_def valid_rule_def)
  moreover have "Scope_String (a_scope r) \<noteq> []" using word_likeD(1) [OF word_like_Scope_String] .
  ultimately show ?thesis
    using assms rights
    by (simp add: convertRule_def file_rule_of_def savable_rule_def valid_rule_def replicable_def
        escape_empty_iff ParseScope_Scope_String NewACL_def WithScope_def WithDeny_def WithAttributes_def
        escape_rule_def Let_def)
qed

lemma convert_rules_file_rules:
  "\<forall>r\<in>set rs. \<exists>a. r = Some a \<and> savable_rule a \<Longrightarrow>
     convert_rules U (map (file_rule_of \<circ> the) rs) i c =
       Ok (c\<lparr>rules := rules c @ map (map_option escape_rule) rs\<rparr>)"
  by (induction rs arbitrary: i c) (auto simp: convertRule_file_rule_of Config_AddRule_def)

lemma load_saved:
  assumes "savable c"
  shows "ParseACLYAML U env (concat (map (\<lambda>l. l @ nl) (yaml_of U c))) = Ok (escape_config c)"
proof -
  let ?data = "concat (map (\<lambda>l. l @ nl) (yaml_of U c))"
  have "36 \<notin> set ?data" "Split 10 ?data = yaml_of U c @ [[]]"
    using yaml_clean [OF assms] by (auto simp: clean_def nl_def intro!: Split_lines [unfolded nl_def])
  then have subst: "substituteEnvVars env ?data = ?data" "Split 10 ?data = yaml_of U c @ [[]]"
    by (simp_all add: substitute_no_dollar)
  define st0 where "st0 = initial_reader\<lparr>r_fc := \<lparr>f_version = 1, f_default_policy = default_policy c,
      f_rules = []\<rparr>, r_in_rules := True\<rparr>"
  obtain st where st: "read_lines U (concat (map (rule_yaml U \<circ> the) (rules c))) st0 = Ok st"
      "r_fc (save_current st) = (r_fc (save_current st0))
        \<lparr>f_rules := f_rules (r_fc (save_current st0)) @ map (file_rule_of \<circ> the) (rules c)\<rparr>"
    using read_rules_yaml [of "rules c" st0 U] assms by (auto simp: savable_def st0_def)
  have "read_lines U (yaml_of U c @ [[]]) initial_reader = Ok st"
    using assms st(1) by (simp add: yaml_of_def read_lines_append read_header savable_def st0_def [symmetric]
        read_line_def del: append_Cons append_Nil read_lines.simps(2)) (simp add: read_line_def)
  moreover have "ToLower U (default_policy c) = default_policy c" "valid_policy (default_policy c)" "default_policy c \<noteq> []"
    using assms by (auto simp: savable_def ToLower_names valid_policy_def)
  ultimately show ?thesis
    using st(2) subst assms
    by (auto simp: ParseACLYAML_def parseACLYAMLToFileConfig_def convertFileConfig_def st0_def initial_reader_def
        save_current_def convert_rules_file_rules savable_def escape_config_def Config_SetDefaultPolicy_def
        NewConfig_def valid_policy_def)
qed

definition no_backslash :: "acl \<Rightarrow> bool" where
  "no_backslash r \<longleftrightarrow>
     92 \<notin> set (a_target r) \<and> 92 \<notin> set (a_subject r) \<and> (\<forall>a\<in>set (a_attributes r). 92 \<notin> set a)"

lemma map_fixed_iff: "map f xs = xs \<longleftrightarrow> (\<forall>x\<in>set xs. f x = x)"
  by (induction xs) auto

lemma escape_rule_id_iff: "savable_rule r \<Longrightarrow> escape_rule r = r \<longleftrightarrow> no_backslash r"
proof -
  assume r: "savable_rule r"
  have "escape_rule r = r \<longleftrightarrow>
      escape (a_target r) = a_target r \<and> escape (a_subject r) = a_subject r \<and> map escape (a_attributes r) = a_attributes r"
    by (cases r) (simp add: escape_rule_def)
  with r show ?thesis
    by (auto simp: map_fixed_iff escape_id_iff savable_rule_def no_backslash_def)
qed

lemma escape_config_id_iff:
  assumes "savable c"
  shows "escape_config c = c \<longleftrightarrow> (\<forall>r\<in>set (rules c). no_backslash (the r))"
proof -
  have "escape_config c = c \<longleftrightarrow> map (map_option escape_rule) (rules c) = rules c"
    by (cases c) (simp add: escape_config_def)
  also have "\<dots> \<longleftrightarrow> (\<forall>r\<in>set (rules c). no_backslash (the r))"
    unfolding map_fixed_iff using assms escape_rule_id_iff by (fastforce simp: savable_def)
  finally show ?thesis .
qed

lemma escape_config_valid: "savable c \<Longrightarrow> ValidateConfig (Some (escape_config c)) = []"
  unfolding ValidateConfig_Nil_iff savable_def escape_config_def
  by (fastforce simp: valid_policy_def escape_rule_def savable_rule_def valid_rule_def escape_empty_iff)


definition comma_rule :: acl where
  "comma_rule = NewACL [99, 110, 61, 97, 92, 44, 98] (lit ''self'') Read"

definition comma_manager :: manager where
  "comma_manager = empty_file_manager\<lparr>m_config := \<lparr>default_policy = lit ''deny'', rules = [Some comma_rule]\<rparr>\<rparr>"


end
