(* ===== verification/Raft_Machine.thy ===== *)
theory Raft_Machine
  imports Raft_Handlers Acl_Manager
begin

text \<open>
  The state machine behind the Raft log (\<^verbatim>\<open>internal/raft/statemachine.go\<close>): the entry format, the
  application of commands to the storage engines, to the configuration and to the ACL manager,
  and snapshots. The storage engine and the two appliers are Go interfaces: an engine is a
  record of operations on an abstract state, an applier likewise.
\<close>

section \<open>Entries\<close>

record entry =
  s_dn :: bytes
  s_attributes :: "(bytes \<times> bytes list) list"

definition serialize_value :: "bytes \<Rightarrow> bytes" where
  "serialize_value v = put_le 4 (word_of_nat (length v) :: uint32) @ v"

definition serialize_attribute :: "bytes \<times> bytes list \<Rightarrow> bytes" where
  "serialize_attribute a =
     put_le 2 (word_of_nat (length (fst a)) :: uint16) @ fst a @
     put_le 2 (word_of_nat (length (snd a)) :: uint16) @ concat (map serialize_value (snd a))"

definition serializeEntry :: "entry \<Rightarrow> bytes" where
  "serializeEntry e =
     put_le 2 (word_of_nat (length (s_dn e)) :: uint16) @ s_dn e @
     put_le 2 (word_of_nat (length (s_attributes e)) :: uint16) @
     concat (map serialize_attribute (s_attributes e))"

definition read_value :: "bytes \<Rightarrow> bytes reader_result" where
  "read_value r = and_then (read_le 4 r) (\<lambda>(n :: uint32) r. read_full (unat n) r)"

definition read_attribute :: "bytes \<Rightarrow> (bytes \<times> bytes list) reader_result" where
  "read_attribute r =
     and_then (read_le 2 r) (\<lambda>(nameLen :: uint16) r.
     and_then (read_full (unat nameLen) r) (\<lambda>name r.
     and_then (read_le 2 r) (\<lambda>(valueCount :: uint16) r.
     and_then (read_times (unat valueCount) read_value r) (\<lambda>values r.
       (Ok (name, values), r)))))"

definition deserializeEntry :: "bytes \<Rightarrow> (raft_error, entry) outcome" where
  "deserializeEntry data =
     (if data = [] then Fail ErrLogCorrupted
      else fst (corrupted (
        and_then (read_le 2 data) (\<lambda>(dnLen :: uint16) r.
        and_then (read_full (unat dnLen) r) (\<lambda>dn r.
        and_then (read_le 2 r) (\<lambda>(attrCount :: uint16) r.
        and_then (read_times (unat attrCount) read_attribute r) (\<lambda>attrs r.
          (Ok \<lparr>s_dn = dn, s_attributes = fold (\<lambda>(k, v). AList.update k v) attrs []\<rparr>, r))))))))"

definition entriesEqual :: "entry \<Rightarrow> entry \<Rightarrow> bool" where
  "entriesEqual a b \<longleftrightarrow>
     s_dn a = s_dn b \<and> length (s_attributes a) = length (s_attributes b) \<and>
     (\<forall>(k, aVals) \<in> set (s_attributes a). map_of (s_attributes b) k = Some aVals)"

section \<open>Errors\<close>

definition ErrUIDNotUnique :: go_error where "ErrUIDNotUnique = OtherError (lit ''uid attribute must be unique'')"
definition ErrEntryExists :: go_error where "ErrEntryExists = OtherError (lit ''entry already exists'')"
definition ErrEntryNotFound :: go_error where "ErrEntryNotFound = OtherError (lit ''entry not found'')"
definition ErrVersionDeleted :: go_error where "ErrVersionDeleted = OtherError (lit ''version has been deleted'')"
definition ErrWriteConflict :: go_error where "ErrWriteConflict = OtherError (lit ''write conflict detected'')"
definition ErrTooManyNodes :: go_error where "ErrTooManyNodes = OtherError (lit ''too many nodes'')"

text \<open>\<^verbatim>\<open>errors.Is\<close> along the chain of wrapped errors; \<^verbatim>\<open>ApplyResultError\<close> unwraps to its cause.\<close>

fun error_is :: "go_error \<Rightarrow> go_error \<Rightarrow> bool" where
  "error_is (WrappedError m e) t \<longleftrightarrow> WrappedError m e = t \<or> error_is e t"
| "error_is (ApplyResultError r (Some e)) t \<longleftrightarrow> ApplyResultError r (Some e) = t \<or> error_is e t"
| "error_is e t \<longleftrightarrow> e = t"

definition classifyPutApplyError :: "go_error option \<Rightarrow> go_error option" where
  "classifyPutApplyError err =
     (case err of
        None \<Rightarrow> None
      | Some e \<Rightarrow>
          if error_is e ErrUIDNotUnique \<or> error_is e ErrEntryExists \<or> error_is e ErrWriteConflict \<or>
             error_is e ErrTooManyNodes
          then Some (ApplyResultError ApplyResultRejectConflict (Some e))
          else Some e)"

definition classifyDeleteApplyError :: "go_error option \<Rightarrow> go_error option" where
  "classifyDeleteApplyError err =
     (case err of
        None \<Rightarrow> None
      | Some e \<Rightarrow>
          if error_is e ErrEntryNotFound \<or> error_is e ErrVersionDeleted
          then Some (ApplyResultError ApplyResultIdempotent (Some e))
          else if error_is e ErrWriteConflict
          then Some (ApplyResultError ApplyResultRejectConflict (Some e))
          else Some e)"

section \<open>Interfaces\<close>

text \<open>
  \<^verbatim>\<open>storage.StorageEngine\<close> on a state \<open>'e\<close> with transactions \<open>'t\<close>. \<open>eng_all\<close> is the iteration of
  \<^verbatim>\<open>SearchByDN(tx, "", ScopeSubtree)\<close>: the entries and the iterator's error.
\<close>

record ('e, 't) engine =
  eng_begin :: "'e \<Rightarrow> go_error option \<times> 't \<times> 'e"
  eng_commit :: "'t \<Rightarrow> 'e \<Rightarrow> go_error option \<times> 'e"
  eng_rollback :: "'t \<Rightarrow> 'e \<Rightarrow> 'e"
  eng_get :: "'t \<Rightarrow> bytes \<Rightarrow> 'e \<Rightarrow> entry option \<times> 'e"
  eng_put :: "'t \<Rightarrow> entry \<Rightarrow> 'e \<Rightarrow> go_error option \<times> 'e"
  eng_delete :: "'t \<Rightarrow> bytes \<Rightarrow> 'e \<Rightarrow> go_error option \<times> 'e"
  eng_all :: "'t \<Rightarrow> 'e \<Rightarrow> entry list \<times> go_error option \<times> 'e"

record 'c config_applier =
  cfg_apply :: "bytes \<Rightarrow> (bytes \<times> bytes) list \<Rightarrow> 'c \<Rightarrow> go_error option \<times> 'c"
  cfg_snapshot :: "'c \<Rightarrow> go_error option \<times> bytes"
  cfg_restore :: "bytes \<Rightarrow> 'c \<Rightarrow> go_error option \<times> 'c"

record 'a acl_applier =
  acl_full :: "acl_rule_data list \<Rightarrow> bytes \<Rightarrow> 'a \<Rightarrow> go_error option \<times> 'a"
  acl_add :: "acl_rule_data option \<Rightarrow> int \<Rightarrow> 'a \<Rightarrow> go_error option \<times> 'a"
  acl_update :: "acl_rule_data option \<Rightarrow> int \<Rightarrow> 'a \<Rightarrow> go_error option \<times> 'a"
  acl_delete :: "int \<Rightarrow> 'a \<Rightarrow> go_error option \<times> 'a"
  acl_default :: "bytes \<Rightarrow> 'a \<Rightarrow> go_error option \<times> 'a"
  acl_snap :: "'a \<Rightarrow> go_error option \<times> bytes"
  acl_restore :: "bytes \<Rightarrow> 'a \<Rightarrow> go_error option \<times> 'a"

record ('e, 'c, 'a) oba_machine =
  sm_main :: 'e
  sm_log :: "'e option"
  sm_config :: "'c option"
  sm_acl :: "'a option"

section \<open>Applying a command\<close>

text \<open>The put of \<^verbatim>\<open>CmdPut\<close>: an entry that is there already is not written again.\<close>

definition apply_put ::
  "('e, 't) engine \<Rightarrow> command \<Rightarrow> 't \<Rightarrow> entry \<Rightarrow> 'e \<Rightarrow> go_error option \<times> 'e" where
  "apply_put E cmd tx entry s =
     (let (found, s) = (if c_database cmd = DBLog then eng_get E tx (s_dn entry) s else (None, s))
      in if found \<noteq> None then (Some (ApplyResultError ApplyResultIdempotent None), s)
      else let (existing, s) = eng_get E tx (s_dn entry) s
        in if (\<exists>x \<in> set_option existing. entriesEqual x entry)
           then (Some (ApplyResultError ApplyResultIdempotent None), s)
           else let (err, s) = eng_put E tx entry s in (classifyPutApplyError err, s))"

text \<open>The operations of one command inside the transaction: the error that makes it roll back.\<close>

definition apply_in_tx ::
  "unicode \<Rightarrow> ('e, 't) engine \<Rightarrow> command \<Rightarrow> 't \<Rightarrow> 'e \<Rightarrow> go_error option \<times> 'e" where
  "apply_in_tx U E cmd tx s =
     (if c_type cmd = CmdPut
      then case deserializeEntry (c_entry_data cmd) of
          Ok entry \<Rightarrow> apply_put E cmd tx entry s
        | Fail err \<Rightarrow> (Some (RaftError err), s)
        | Panic \<Rightarrow> (None, s)
      else if c_type cmd = CmdDelete
      then if c_database cmd = DBLog then (Some (ApplyResultError ApplyResultIdempotent None), s)
           else let (err, s) = eng_delete E tx (c_dn cmd) s in (classifyDeleteApplyError err, s)
      else if c_type cmd = CmdModifyDN
      then let (err, s) = eng_delete E tx (ToLower U (TrimSpace U (c_old_dn cmd))) s;
               deleteErr = classifyDeleteApplyError err
           in if ApplyResultFromError deleteErr = ApplyResultFatal then (deleteErr, s)
              else (case deserializeEntry (c_entry_data cmd) of
                  Ok entry \<Rightarrow> (let (err, s) = eng_put E tx entry s in (classifyPutApplyError err, s))
                | Fail err \<Rightarrow> (Some (RaftError err), s)
                | Panic \<Rightarrow> (None, s))
      else (None, s))"

definition applyLDAPCommand ::
  "unicode \<Rightarrow> ('e, 't) engine \<Rightarrow> command \<Rightarrow> 'e \<Rightarrow> go_error option \<times> 'e" where
  "applyLDAPCommand U E cmd s =
     (case eng_begin E s of
        (Some err, tx, s) \<Rightarrow> (Some err, s)
      | (None, tx, s) \<Rightarrow>
          (case apply_in_tx U E cmd tx s of
             (Some err, s) \<Rightarrow> (Some err, eng_rollback E tx s)
           | (None, s) \<Rightarrow> eng_commit E tx s))"

definition applyConfigCommand :: "'c config_applier \<Rightarrow> command \<Rightarrow> 'c \<Rightarrow> go_error option \<times> 'c" where
  "applyConfigCommand C cmd c =
     (case DeserializeConfigCommand (c_config_data cmd) of
        Ok cc \<Rightarrow> cfg_apply C (cc_section cc) (cc_data cc) c
      | Fail err \<Rightarrow> (Some (WrappedError [] (RaftError err)), c)
      | Panic \<Rightarrow> (None, c))"

definition applyACLCommand :: "'a acl_applier \<Rightarrow> command \<Rightarrow> 'a \<Rightarrow> go_error option \<times> 'a" where
  "applyACLCommand A cmd a =
     (case DeserializeACLCommand (c_acl_data cmd) of
        Fail err \<Rightarrow> (Some (WrappedError [] (RaftError err)), a)
      | Panic \<Rightarrow> (None, a)
      | Ok ac \<Rightarrow>
          if c_type cmd = CmdACLFullUpdate then acl_full A (ac_rules ac) (ac_default_policy ac) a
          else if c_type cmd = CmdACLAddRule then acl_add A (ac_rule ac) (ac_rule_index ac) a
          else if c_type cmd = CmdACLUpdateRule then acl_update A (ac_rule ac) (ac_rule_index ac) a
          else if c_type cmd = CmdACLDeleteRule then acl_delete A (ac_rule_index ac) a
          else if c_type cmd = CmdACLSetDefault then acl_default A (ac_default_policy ac) a
          else (None, a))"

definition Apply ::
  "unicode \<Rightarrow> ('e, 't) engine \<Rightarrow> 'c config_applier \<Rightarrow> 'a acl_applier \<Rightarrow> command \<Rightarrow> ('e, 'c, 'a) oba_machine
    \<Rightarrow> go_error option \<times> ('e, 'c, 'a) oba_machine" where
  "Apply U E C A cmd sm =
     (if c_type cmd \<in> {CmdPut, CmdDelete, CmdModifyDN}
      then if c_database cmd = DBLog
           then case sm_log sm of
               None \<Rightarrow> (None, sm)
             | Some s \<Rightarrow> (let (err, s) = applyLDAPCommand U E cmd s in (err, sm\<lparr>sm_log := Some s\<rparr>))
           else let (err, s) = applyLDAPCommand U E cmd (sm_main sm) in (err, sm\<lparr>sm_main := s\<rparr>)
      else if c_type cmd = CmdConfigUpdate
      then case sm_config sm of
          None \<Rightarrow> (None, sm)
        | Some c \<Rightarrow> (let (err, c) = applyConfigCommand C cmd c in (err, sm\<lparr>sm_config := Some c\<rparr>))
      else if c_type cmd \<in> {CmdACLFullUpdate, CmdACLAddRule, CmdACLUpdateRule, CmdACLDeleteRule, CmdACLSetDefault}
      then case sm_acl sm of
          None \<Rightarrow> (None, sm)
        | Some a \<Rightarrow> (let (err, a) = applyACLCommand A cmd a in (err, sm\<lparr>sm_acl := Some a\<rparr>))
      else (Some (OtherError (lit ''unknown command type'')), sm))"

section \<open>Snapshots\<close>

definition put_block :: "bytes \<Rightarrow> bytes" where
  "put_block bs = put_le 4 (word_of_nat (length bs) :: uint32) @ bs"

definition snapshotEngine :: "('e, 't) engine \<Rightarrow> 'e \<Rightarrow> go_error option \<times> bytes \<times> 'e" where
  "snapshotEngine E s =
     (case eng_begin E s of
        (Some err, tx, s) \<Rightarrow> (Some err, [], s)
      | (None, tx, s) \<Rightarrow>
          (case eng_all E tx s of
             (entries, Some err, s) \<Rightarrow> (Some err, [], eng_rollback E tx s)
           | (entries, None, s) \<Rightarrow>
               (None, put_le 4 (word_of_nat (length entries) :: uint32) @
                  concat (map (put_block \<circ> serializeEntry) entries), eng_rollback E tx s)))"

definition Snapshot ::
  "('e, 't) engine \<Rightarrow> 'c config_applier \<Rightarrow> 'a acl_applier \<Rightarrow> ('e, 'c, 'a) oba_machine
    \<Rightarrow> go_error option \<times> bytes \<times> ('e, 'c, 'a) oba_machine" where
  "Snapshot E C A sm =
     (case snapshotEngine E (sm_main sm) of
        (Some err, _, s) \<Rightarrow> (Some err, [], sm\<lparr>sm_main := s\<rparr>)
      | (None, mainData, s) \<Rightarrow>
          let sm = sm\<lparr>sm_main := s\<rparr>;
              (logErr, logData, sm) =
                (case sm_log sm of
                   None \<Rightarrow> (None, [], sm)
                 | Some l \<Rightarrow> (let (err, d, l) = snapshotEngine E l in (err, d, sm\<lparr>sm_log := Some l\<rparr>)))
          in if logErr \<noteq> None then (logErr, [], sm)
          else let (cfgErr, cfgData) = (case sm_config sm of None \<Rightarrow> (None, []) | Some c \<Rightarrow> cfg_snapshot C c)
          in if cfgErr \<noteq> None then (cfgErr, [], sm)
          else let (aclErr, aclData) = (case sm_acl sm of None \<Rightarrow> (None, []) | Some a \<Rightarrow> acl_snap A a)
          in if aclErr \<noteq> None then (aclErr, [], sm)
          else (None, [2] @ put_block mainData @ put_block logData @ put_block cfgData @ put_block aclData, sm))"

text \<open>The deletions before a restore; their errors are ignored.\<close>

fun delete_all :: "('e, 't) engine \<Rightarrow> bytes list \<Rightarrow> 'e \<Rightarrow> 'e" where
  "delete_all E [] s = s"
| "delete_all E (dn # dns) s =
     (case eng_begin E s of
        (Some err, tx, s) \<Rightarrow> delete_all E dns s
      | (None, tx, s) \<Rightarrow> delete_all E dns (snd (eng_commit E tx (snd (eng_delete E tx dn s)))))"

fun put_all :: "('e, 't) engine \<Rightarrow> nat \<Rightarrow> bytes \<Rightarrow> 'e \<Rightarrow> go_error option \<times> 'e" where
  "put_all E 0 r s = (None, s)"
| "put_all E (Suc n) r s =
     (case and_then (read_le 4 r) (\<lambda>(entryLen :: uint32) r. read_full (unat entryLen) r) of
        (Fail err, _) \<Rightarrow> (Some (RaftError err), s)
      | (Panic, _) \<Rightarrow> (None, s)
      | (Ok entryData, r) \<Rightarrow>
          (case deserializeEntry entryData of
             Fail err \<Rightarrow> (Some (RaftError err), s)
           | Panic \<Rightarrow> (None, s)
           | Ok entry \<Rightarrow>
               (case eng_begin E s of
                  (Some err, tx, s) \<Rightarrow> (Some err, s)
                | (None, tx, s) \<Rightarrow>
                    (case eng_put E tx entry s of
                       (Some err, s) \<Rightarrow> (Some err, eng_rollback E tx s)
                     | (None, s) \<Rightarrow>
                         (case eng_commit E tx s of
                            (Some err, s) \<Rightarrow> (Some err, s)
                          | (None, s) \<Rightarrow> put_all E n r s)))))"

definition restoreEngine :: "('e, 't) engine \<Rightarrow> bytes \<Rightarrow> 'e \<Rightarrow> go_error option \<times> 'e" where
  "restoreEngine E data s =
     (case read_le 4 data of
        (Fail err, _) \<Rightarrow> (Some (RaftError err), s)
      | (Panic, _) \<Rightarrow> (None, s)
      | (Ok (count :: uint32), r) \<Rightarrow>
          (case eng_begin E s of
             (Some err, tx, s) \<Rightarrow> (Some err, s)
           | (None, tx, s) \<Rightarrow>
               let (entries, _, s) = eng_all E tx s;
                   s = eng_rollback E tx s
               in put_all E (unat count) r (delete_all E (rev (map s_dn entries)) s)))"

text \<open>
  One block of a snapshot: its length, and its bytes only when the part exists and the length
  is positive. The outer error is the return of \<^verbatim>\<open>Restore\<close>; \<open>short\<close> is what it returns when not
  even the length can be read.
\<close>

definition restore_block ::
  "go_error option option \<Rightarrow> (bytes \<Rightarrow> 's \<Rightarrow> go_error option \<times> 's) \<Rightarrow> bytes \<Rightarrow> 's option
    \<Rightarrow> (go_error option, bytes) outcome \<times> 's option" where
  "restore_block short restore r s =
     (case read_le 4 r of
        (Fail err, _) \<Rightarrow> (Fail (case short of None \<Rightarrow> Some (RaftError err) | Some e \<Rightarrow> e), s)
      | (Panic, _) \<Rightarrow> (Panic, s)
      | (Ok (len :: uint32), r) \<Rightarrow>
          (case s of
             None \<Rightarrow> (Ok r, s)
           | Some x \<Rightarrow>
               if len = 0 then (Ok r, s)
               else (case read_full (unat len) r of
                  (Fail err, _) \<Rightarrow> (Fail (Some (RaftError err)), s)
                | (Panic, _) \<Rightarrow> (Panic, s)
                | (Ok data, r) \<Rightarrow>
                    (case restore data x of
                       (Some err, x) \<Rightarrow> (Fail (Some err), Some x)
                     | (None, x) \<Rightarrow> (Ok r, Some x)))))"

definition Restore ::
  "('e, 't) engine \<Rightarrow> 'c config_applier \<Rightarrow> 'a acl_applier \<Rightarrow> bytes \<Rightarrow> ('e, 'c, 'a) oba_machine
    \<Rightarrow> go_error option \<times> ('e, 'c, 'a) oba_machine" where
  "Restore E C A data sm =
     (case data of
        [] \<Rightarrow> (None, sm)
      | version # r \<Rightarrow>
          (case restore_block None (restoreEngine E) r (Some (sm_main sm)) of
             (Fail e, s) \<Rightarrow> (e, sm\<lparr>sm_main := the s\<rparr>)
           | (Panic, s) \<Rightarrow> (None, sm)
           | (Ok r, s) \<Rightarrow>
               let sm = sm\<lparr>sm_main := the s\<rparr> in
               (case restore_block (Some None) (restoreEngine E) r (sm_log sm) of
                  (Fail e, l) \<Rightarrow> (e, sm\<lparr>sm_log := l\<rparr>)
                | (Panic, l) \<Rightarrow> (None, sm)
                | (Ok r, l) \<Rightarrow>
                    let sm = sm\<lparr>sm_log := l\<rparr> in
                    if version < 2 then (None, sm)
                    else (case restore_block (Some None) (cfg_restore C) r (sm_config sm) of
                       (Fail e, c) \<Rightarrow> (e, sm\<lparr>sm_config := c\<rparr>)
                     | (Panic, c) \<Rightarrow> (None, sm)
                     | (Ok r, c) \<Rightarrow>
                         let sm = sm\<lparr>sm_config := c\<rparr> in
                         (case restore_block (Some None) (acl_restore A) r (sm_acl sm) of
                            (Fail e, a) \<Rightarrow> (e, sm\<lparr>sm_acl := a\<rparr>)
                          | (Panic, a) \<Rightarrow> (None, sm)
                          | (Ok r, a) \<Rightarrow> (None, sm\<lparr>sm_acl := a\<rparr>))))))"

section \<open>Commands for entries\<close>

definition CreatePutCommandForDB :: "entry \<Rightarrow> byte \<Rightarrow> command" where
  "CreatePutCommandForDB e db =
     zero_command\<lparr>c_type := CmdPut, c_database := db, c_dn := s_dn e, c_entry_dn := s_dn e,
       c_entry_data := serializeEntry e\<rparr>"

definition CreateDeleteCommandForDB :: "bytes \<Rightarrow> byte \<Rightarrow> command" where
  "CreateDeleteCommandForDB dn db = zero_command\<lparr>c_type := CmdDelete, c_database := db, c_dn := dn\<rparr>"

definition CreateModifyDNCommandForDB :: "bytes \<Rightarrow> entry \<Rightarrow> byte \<Rightarrow> command" where
  "CreateModifyDNCommandForDB old e db =
     zero_command\<lparr>c_type := CmdModifyDN, c_database := db, c_dn := s_dn e, c_old_dn := old,
       c_entry_dn := s_dn e, c_entry_data := serializeEntry e\<rparr>"

section \<open>The ACL manager as applier\<close>

text \<open>
  The manager of \<^verbatim>\<open>internal/acl\<close> implements the applier interface. Its errors carry no apply
  result; \<open>enc\<close> and \<open>dec\<close> are the JSON text of a snapshot.
\<close>

definition acl_result :: "(acl_error, unit) outcome \<times> manager \<Rightarrow> go_error option \<times> manager" where
  "acl_result r =
     (case r of
        (Ok _, m) \<Rightarrow> (None, m)
      | (Fail e, m) \<Rightarrow> (Some (OtherError (lit ''acl'')), m)
      | (Panic, m) \<Rightarrow> (None, m))"

definition manager_applier ::
  "unicode \<Rightarrow> (acl_snapshot \<Rightarrow> bytes) \<Rightarrow> (bytes \<Rightarrow> acl_snapshot option) \<Rightarrow> manager acl_applier" where
  "manager_applier U enc dec =
     \<lparr>acl_full = (\<lambda>ds p m. acl_result (ApplyFullConfigFromRaft U ds p m)),
      acl_add = (\<lambda>d i m. acl_result (AddRuleFromRaft U d i m)),
      acl_update = (\<lambda>d i m. acl_result (UpdateRuleFromRaft U d i m)),
      acl_delete = (\<lambda>i m. acl_result (DeleteRuleFromRaft i m)),
      acl_default = (\<lambda>p m. acl_result (SetDefaultPolicyFromRaft U p m)),
      acl_snap = (\<lambda>m. case GetACLSnapshot m of Ok s \<Rightarrow> (None, enc s) | _ \<Rightarrow> (None, [])),
      acl_restore = (\<lambda>bs m. case dec bs of
        None \<Rightarrow> (Some (WrappedError [] (OtherError (lit ''json''))), m)
      | Some s \<Rightarrow> acl_result (RestoreACLSnapshot U s m))\<rparr>"

end
