(* ===== verification/Rest_Acl.thy ===== *)
theory Rest_Acl
  imports Raft_Machine
begin

text \<open>
  The handlers of the REST API that change access control (\<^verbatim>\<open>internal/rest/acl_handlers.go\<close>). A
  handler gets the decoded body (\<open>None\<close> when it is no valid JSON), the manager, and the cluster
  backend: \<open>None\<close> outside a cluster, otherwise whether this node is the leader. It returns the
  status code, the rule shown in the reply, the command it proposed and the manager. The
  parameter \<open>propose\<close> says whether a proposal succeeds.
\<close>

record acl_response =
  status :: nat
  shown :: "acl_rule_json option"
  proposed :: "command option"
  managed :: "manager option"

definition respond :: "nat \<Rightarrow> manager option \<Rightarrow> acl_response" where
  "respond code m = \<lparr>status = code, shown = None, proposed = None, managed = m\<rparr>"

text \<open>The part shared by all handlers in cluster mode: only a leader proposes.\<close>

definition propose_acl ::
  "bool \<Rightarrow> (command \<Rightarrow> bool) \<Rightarrow> command \<Rightarrow> nat \<Rightarrow> acl_rule_json option \<Rightarrow> manager option \<Rightarrow> acl_response" where
  "propose_acl leader propose cmd code rule m =
     (if \<not> leader then respond 503 m
      else if propose cmd then \<lparr>status = code, shown = rule, proposed = Some cmd, managed = m\<rparr>
      else (respond 500 m)\<lparr>proposed := Some cmd\<rparr>)"

definition HandleAddACLRule ::
  "unicode \<Rightarrow> bool option \<Rightarrow> (command \<Rightarrow> bool) \<Rightarrow> (acl_rule_json \<times> int) option \<Rightarrow> manager option \<Rightarrow> acl_response" where
  "HandleAddACLRule U cluster propose body mgr =
     (case mgr of
        None \<Rightarrow> respond 503 mgr
      | Some m \<Rightarrow>
          (case body of
             None \<Rightarrow> respond 400 mgr
           | Some (j, index) \<Rightarrow>
               (case jsonToACLRule U j of
                  Ok rule \<Rightarrow>
                    (case cluster of
                       Some leader \<Rightarrow>
                         propose_acl leader propose
                           (CreateACLAddRuleCommand (Some (aclRuleToRaftData j)) index (m_version m + 1))
                           201 (Some (aclRuleToJSON rule)) mgr
                     | None \<Rightarrow>
                         (case AddRule (Some rule) index m of
                            (Ok _, m') \<Rightarrow> (respond 201 (Some m'))\<lparr>shown := Some (aclRuleToJSON rule)\<rparr>
                          | (_, m') \<Rightarrow> respond 400 (Some m')))
                | _ \<Rightarrow> respond 400 mgr)))"

text \<open>The index of the path is \<open>None\<close> when it is no number.\<close>

definition HandleUpdateACLRule ::
  "unicode \<Rightarrow> bool option \<Rightarrow> (command \<Rightarrow> bool) \<Rightarrow> int option \<Rightarrow> acl_rule_json option \<Rightarrow> manager option \<Rightarrow> acl_response" where
  "HandleUpdateACLRule U cluster propose path body mgr =
     (case mgr of
        None \<Rightarrow> respond 503 mgr
      | Some m \<Rightarrow>
          (case (path, body) of
             (Some index, Some j) \<Rightarrow>
               (case jsonToACLRule U j of
                  Ok rule \<Rightarrow>
                    (case cluster of
                       Some leader \<Rightarrow>
                         propose_acl leader propose
                           (CreateACLUpdateRuleCommand (Some (aclRuleToRaftData j)) index (m_version m + 1))
                           200 (Some (aclRuleToJSON rule)) mgr
                     | None \<Rightarrow>
                         (case UpdateRule index (Some rule) m of
                            (Ok _, m') \<Rightarrow> (respond 200 (Some m'))\<lparr>shown := Some (aclRuleToJSON rule)\<rparr>
                          | (_, m') \<Rightarrow> respond 400 (Some m')))
                | _ \<Rightarrow> respond 400 mgr)
           | _ \<Rightarrow> respond 400 mgr))"

definition HandleDeleteACLRule ::
  "bool option \<Rightarrow> (command \<Rightarrow> bool) \<Rightarrow> int option \<Rightarrow> manager option \<Rightarrow> acl_response" where
  "HandleDeleteACLRule cluster propose path mgr =
     (case mgr of
        None \<Rightarrow> respond 503 mgr
      | Some m \<Rightarrow>
          (case path of
             None \<Rightarrow> respond 400 mgr
           | Some index \<Rightarrow>
               (case cluster of
                  Some leader \<Rightarrow>
                    propose_acl leader propose (CreateACLDeleteRuleCommand index (m_version m + 1)) 200 None mgr
                | None \<Rightarrow>
                    (case DeleteRule index m of
                       (Ok _, m') \<Rightarrow> respond 200 (Some m')
                     | (_, m') \<Rightarrow> respond 404 (Some m')))))"

definition HandleSetDefaultPolicy ::
  "unicode \<Rightarrow> bool option \<Rightarrow> (command \<Rightarrow> bool) \<Rightarrow> bytes option \<Rightarrow> manager option \<Rightarrow> acl_response" where
  "HandleSetDefaultPolicy U cluster propose body mgr =
     (case mgr of
        None \<Rightarrow> respond 503 mgr
      | Some m \<Rightarrow>
          (case body of
             None \<Rightarrow> respond 400 mgr
           | Some policy \<Rightarrow>
               (case cluster of
                  Some leader \<Rightarrow>
                    propose_acl leader propose (CreateACLSetDefaultCommand policy (m_version m + 1)) 200 None mgr
                | None \<Rightarrow>
                    (case SetDefaultPolicy U policy m of
                       (Ok _, m') \<Rightarrow> respond 200 (Some m')
                     | (_, m') \<Rightarrow> respond 400 (Some m')))))"

end
