(* ===== verification/Machine_Props.thy ===== *)
theory Machine_Props
  imports Rest_Acl Acl_Props
begin

text \<open>
  Properties that span the REST handlers, the Raft log, the state machine and the ACL manager:
  the entry format, the replication of an access control configuration, and two commands that
  the API accepts and the state machine treats differently from what the API promised.
\<close>

section \<open>The entry format\<close>

interpretation value_wire: wire_exact serialize_value read_value short_bytes
  by unfold_locales
    (auto simp: serialize_value_def read_value_def read_le_put_le unat_of_length32 and_then_Ok_iff
      dest: read_full_length)

definition short_attribute :: "bytes \<times> bytes list \<Rightarrow> bool" where
  "short_attribute a \<longleftrightarrow> short_string (fst a) \<and> length (snd a) < 2 ^ 16 \<and> (\<forall>v\<in>set (snd a). short_bytes v)"

interpretation attribute_wire: wire_exact serialize_attribute read_attribute short_attribute
proof
  fix a rest
  show "short_attribute a \<Longrightarrow> read_attribute (serialize_attribute a @ rest) = (Ok a, rest)"
    by (simp add: serialize_attribute_def read_attribute_def short_attribute_def read_le_put_le
        unat_of_length16 value_wire.read_times_ser)
next
  fix r a r'
  show "read_attribute r = (Ok a, r') \<Longrightarrow> short_attribute a"
    by (auto simp: read_attribute_def short_attribute_def and_then_Ok_iff
        dest!: read_full_length value_wire.read_times_ok)
qed

definition storable_entry :: "entry \<Rightarrow> bool" where
  "storable_entry e \<longleftrightarrow> short_string (s_dn e) \<and> length (s_attributes e) < 2 ^ 16 \<and>
     distinct (map fst (s_attributes e)) \<and> (\<forall>a\<in>set (s_attributes e). short_attribute a)"

lemma serializeEntry_not_Nil [simp]: "serializeEntry e \<noteq> []"
  by (simp add: serializeEntry_def put_le_def)

lemma deserializeEntry_serialize:
  assumes "storable_entry e"
  shows "deserializeEntry (serializeEntry e) = Ok e"
proof -
  have "read_times (length (s_attributes e)) read_attribute (concat (map serialize_attribute (s_attributes e))) =
      (Ok (s_attributes e), [])"
    using assms attribute_wire.read_times_ser [of "s_attributes e" "[]"] by (simp add: storable_entry_def)
  then have "fst (corrupted (and_then (read_le 2 (serializeEntry e)) (\<lambda>(dnLen :: uint16) r.
      and_then (read_full (unat dnLen) r) (\<lambda>dn r. and_then (read_le 2 r) (\<lambda>(attrCount :: uint16) r.
      and_then (read_times (unat attrCount) read_attribute r) (\<lambda>attrs r.
        (Ok \<lparr>s_dn = dn, s_attributes = fold (\<lambda>(k, v). AList.update k v) attrs []\<rparr>, r))))))) = Ok e"
    using assms fold_update_distinct [of "[]" "s_attributes e"]
    by (simp add: serializeEntry_def storable_entry_def read_le_put_le unat_of_length16 corrupted_Ok)
  then show ?thesis by (simp add: deserializeEntry_def)
qed

lemma deserializeEntry_storable:
  assumes "deserializeEntry bs = Ok e"
  shows "storable_entry e"
proof -
  obtain dn n ps r r' where e: "e = \<lparr>s_dn = dn, s_attributes = fold (\<lambda>(k, v). AList.update k v) ps []\<rparr>"
      "short_string dn" "read_times (unat (n :: uint16)) read_attribute r = (Ok ps, r')"
    using assms
    by (auto simp: deserializeEntry_def fst_Ok_iff and_then_Ok_iff corrupted_Ok_iff
        dest!: read_full_length split: if_splits)
  then have ps: "length ps = unat n" "\<forall>p\<in>set ps. short_attribute p"
    using attribute_wire.read_times_ok by blast+
  moreover have "length (fold (\<lambda>(k, v). AList.update k v) ps []) < 2 ^ 16"
    using fold_update_props [of ps "[]"] ps(1)
    by (auto intro: le_less_trans [OF _ unat16_less [of n]])
  ultimately show ?thesis
    using e(2) fold_update_props [of ps "[]"] by (auto simp: e(1) storable_entry_def)
qed

text \<open>
  C28. An entry proposed to the cluster is the entry every node stores: the put command and the
  entry in it survive the log exactly when the DN and the attribute names are shorter than 64
  KiB, there are fewer than 65536 attributes and values of each, and each value is below 4 GiB.
\<close>

theorem replicated_entry_roundtrip:
  assumes "short_bytes (serializeEntry e)"
  shows "(\<exists>cmd. DeserializeCommand (Command_Serialize (CreatePutCommandForDB e db)) = Ok cmd \<and>
            c_type cmd = CmdPut \<and> c_database cmd = db \<and> deserializeEntry (c_entry_data cmd) = Ok e) \<longleftrightarrow>
         storable_entry e"
proof
  assume "storable_entry e"
  moreover from this assms have "short_command (CreatePutCommandForDB e db)"
    by (simp add: short_command_def CreatePutCommandForDB_def zero_command_def storable_entry_def)
  ultimately show "\<exists>cmd. DeserializeCommand (Command_Serialize (CreatePutCommandForDB e db)) = Ok cmd \<and>
      c_type cmd = CmdPut \<and> c_database cmd = db \<and> deserializeEntry (c_entry_data cmd) = Ok e"
    by (simp add: DeserializeCommand_Serialize deserializeEntry_serialize)
      (simp add: CreatePutCommandForDB_def deserializeEntry_serialize)
qed (auto dest: deserializeEntry_storable)

theorem replicated_entry_roundtrip_witness:
  "short_bytes (serializeEntry \<lparr>s_dn = lit ''dc=x'', s_attributes = [(lit ''dc'', [lit ''x''])]\<rparr>) \<and>
   (\<exists>cmd. DeserializeCommand (Command_Serialize
       (CreatePutCommandForDB \<lparr>s_dn = lit ''dc=x'', s_attributes = [(lit ''dc'', [lit ''x''])]\<rparr> DBMain)) = Ok cmd \<and>
     deserializeEntry (c_entry_data cmd) = Ok \<lparr>s_dn = lit ''dc=x'', s_attributes = [(lit ''dc'', [lit ''x''])]\<rparr>)"
proof -
  let ?e = "\<lparr>s_dn = lit ''dc=x'', s_attributes = [(lit ''dc'', [lit ''x''])]\<rparr>"
  have "short_bytes (serializeEntry ?e)" "storable_entry ?e"
    by (simp_all add: serializeEntry_def serialize_attribute_def serialize_value_def storable_entry_def
        short_attribute_def lit_def)
  with replicated_entry_roundtrip [of ?e DBMain] show ?thesis by blast
qed

section \<open>Replicated access control\<close>

text \<open>The log entry that carries a command.\<close>

definition command_log_entry :: "uint64 \<Rightarrow> uint64 \<Rightarrow> command \<Rightarrow> log_entry" where
  "command_log_entry index term cmd =
     \<lparr>e_index = index, e_term = term, e_type = LogEntryCommand, e_command = Command_Serialize cmd\<rparr>"

lemma apply_command_entry:
  "short_command cmd \<Longrightarrow> apply_entry f (command_log_entry i t cmd) (Some m) =
     (Ok (ApplyResultFromError (fst (f cmd m)), fst (f cmd m)), Some (snd (f cmd m)))"
  by (simp add: apply_entry_def command_log_entry_def DeserializeCommand_Serialize split: prod.splits)

lemmas command_codes = CmdPut_def CmdDelete_def CmdModifyDN_def CmdConfigUpdate_def CmdACLFullUpdate_def
  CmdACLAddRule_def CmdACLUpdateRule_def CmdACLDeleteRule_def CmdACLSetDefault_def

lemma Apply_ACL:
  assumes "c_type cmd \<in> {CmdACLFullUpdate, CmdACLAddRule, CmdACLUpdateRule, CmdACLDeleteRule, CmdACLSetDefault}"
    and "sm_acl sm = Some a"
  shows "Apply U E C A cmd sm =
    (fst (applyACLCommand A cmd a), sm\<lparr>sm_acl := Some (snd (applyACLCommand A cmd a))\<rparr>)"
  using assms by (auto simp: Apply_def command_codes split: prod.splits)

text \<open>
  C29. Replicating a whole access control configuration makes every node decide as the
  proposer: when the command of \<^verbatim>\<open>ProposeACLFullUpdate\<close>, built from the proposer's rules, is applied
  from the log, the node's configuration is the proposer's configuration, whatever it was
  before, and its version has grown by one.
\<close>

theorem acl_update_is_replicated:
  assumes rules: "\<forall>r\<in>set (rules (m_config m)). \<exists>a. r = Some a \<and> replicable a"
    and data: "ToRuleDataSlice m = Ok ds"
    and cmd: "cmd = CreateACLFullUpdateCommand ds (default_policy (m_config m)) v"
    and short: "short_command cmd"
      "short_acl (zero_acl_command\<lparr>ac_default_policy := default_policy (m_config m), ac_rules := ds, ac_version := v\<rparr>)"
    and acl: "sm_acl sm = Some m'"
  shows "apply_entry (Apply U E C (manager_applier U enc dec)) (command_log_entry i t cmd) (Some sm) =
    (Ok (ApplyResultApplied, None),
     Some (sm\<lparr>sm_acl := Some (m'\<lparr>m_config := m_config m, m_reloads := m_reloads m' + 1,
       m_version := m_version m' + 1\<rparr>)\<rparr>))"
proof -
  let ?ac = "zero_acl_command\<lparr>ac_default_policy := default_policy (m_config m), ac_rules := ds, ac_version := v\<rparr>"
  have conv: "convert_data U 0 ds = Ok (rules (m_config m))"
    using convert_data_roundtrip [OF rules, of U 0] data by (auto simp: ToRuleDataSlice_def)
  have "DeserializeACLCommand (c_acl_data cmd) = Ok ?ac"
    using DeserializeACLCommand_Serialize [OF short(2)] by (simp add: cmd CreateACLFullUpdateCommand_def)
  moreover have "c_type cmd = CmdACLFullUpdate"
    by (simp add: cmd CreateACLFullUpdateCommand_def)
  ultimately have "applyACLCommand (manager_applier U enc dec) cmd m' =
      (None, m'\<lparr>m_config := m_config m, m_reloads := m_reloads m' + 1, m_version := m_version m' + 1\<rparr>)"
    by (simp add: applyACLCommand_def manager_applier_def ApplyFullConfigFromRaft_def conv acl_result_def
        zero_acl_command_def)
  with \<open>c_type cmd = CmdACLFullUpdate\<close> acl show ?thesis
    by (simp add: apply_command_entry [OF short(1)] Apply_ACL ApplyResultFromError_def)
qed

definition idle_engine :: "(unit, unit) engine" where
  "idle_engine =
     \<lparr>eng_begin = (\<lambda>s. (None, (), s)), eng_commit = (\<lambda>t s. (None, s)), eng_rollback = (\<lambda>t s. s),
      eng_get = (\<lambda>t d s. (None, s)), eng_put = (\<lambda>t e s. (None, s)), eng_delete = (\<lambda>t d s. (None, s)),
      eng_all = (\<lambda>t s. ([], None, s))\<rparr>"

definition idle_config :: "unit config_applier" where
  "idle_config =
     \<lparr>cfg_apply = (\<lambda>s d c. (None, c)), cfg_snapshot = (\<lambda>c. (None, [])), cfg_restore = (\<lambda>b c. (None, c))\<rparr>"

definition idle_machine :: "manager \<Rightarrow> (unit, unit, manager) oba_machine" where
  "idle_machine m = \<lparr>sm_main = (), sm_log = None, sm_config = None, sm_acl = Some m\<rparr>"

definition sample_manager :: manager where
  "sample_manager = empty_file_manager\<lparr>m_config := sample_config\<rparr>"

definition sample_data :: acl_rule_data where
  "sample_data =
     \<lparr>ar_target = lit ''dc=example'', ar_subject = lit ''self'', ar_scope = lit ''subtree'',
      ar_rights = [lit ''read'', lit ''write''], ar_attributes = [], ar_deny = False\<rparr>"

lemma sample_replicable: "replicable sample_rule" "aclToRuleData sample_rule = sample_data"
  by (simp_all add: replicable_def sample_rule_def NewACL_def right_defs aclToRuleData_def sample_data_def
      Scope_String_def scope_defs rightsToStrings_def Has_def)

lemma sample_short:
  "short_acl (zero_acl_command\<lparr>ac_default_policy := lit ''deny'', ac_rules := [sample_data], ac_version := v\<rparr>)"
  "short_command (CreateACLFullUpdateCommand [sample_data] (lit ''deny'') v)"
  by (simp_all add: short_acl_def zero_acl_command_def short_rule_def short_strings_def sample_data_def lit_def
      short_command_def CreateACLFullUpdateCommand_def zero_command_def SerializeACLCommand_def
      serializeACLRule_def writeString_def write_strings_def put_bool_def)

theorem acl_update_is_replicated_witness:
  "snd (apply_entry (Apply plain_unicode idle_engine idle_config (manager_applier plain_unicode (\<lambda>_. []) (\<lambda>_. None)))
     (command_log_entry 1 1 (CreateACLFullUpdateCommand [sample_data] (lit ''deny'') 1))
     (Some (idle_machine empty_file_manager))) =
   Some (idle_machine (empty_file_manager\<lparr>m_config := sample_config, m_reloads := 1, m_version := 1\<rparr>))"
proof -
  have "\<forall>r\<in>set (rules (m_config sample_manager)). \<exists>a. r = Some a \<and> replicable a"
      "ToRuleDataSlice sample_manager = Ok [sample_data]" "default_policy (m_config sample_manager) = lit ''deny''"
    using sample_replicable by (simp_all add: sample_manager_def sample_config_def ToRuleDataSlice_def)
  then show ?thesis
    using sample_short
    by (subst acl_update_is_replicated [where m = sample_manager and m' = empty_file_manager and v = 1 and
          ds = "[sample_data]"])
      (simp_all add: idle_machine_def empty_file_manager_def sample_manager_def)
qed

section \<open>A rule without a scope\<close>

lemma ParseRights_rule_rights:
  assumes "\<forall>n\<in>set ns. TrimSpace U n = n" and "parse_rights U ns acc = Ok r"
  shows "\<exists>r'. rule_rights U ns acc' = Ok r'"
  using assms
proof (induction U ns acc arbitrary: acc' rule: parse_rights.induct)
  case (2 U n ns acc)
  then show ?case by (fastforce simp: Let_def split: option.splits if_splits)
qed simp

text \<open>
  C30. In a cluster, a rule that is added without a scope is not the rule the API confirms. The
  reply shows a subtree rule, which is also what a server outside a cluster would add, but the
  command that was proposed makes every node add a base rule.
\<close>

theorem scopeless_rule_differs_in_cluster:
  assumes scope: "j_scope j = []" and named: "\<forall>n\<in>set (j_rights j). TrimSpace U n = n"
    and parsed: "ParseRights U (j_rights j) = Ok rights"
    and filled: "j_target j \<noteq> []" "j_subject j \<noteq> []" "rights \<noteq> 0"
    and cmd: "cmd = CreateACLAddRuleCommand (Some (aclRuleToRaftData j)) index (m_version m + 1)"
    and short: "short_command cmd"
      "short_acl (zero_acl_command\<lparr>ac_rule := Some (aclRuleToRaftData j), ac_rule_index := index,
         ac_version := m_version m + 1\<rparr>)"
    and acl: "sm_acl sm = Some m'"
  shows "HandleAddACLRule U (Some True) (\<lambda>_. True) (Some (j, index)) (Some m) =
      \<lparr>status = 201, shown = Some (aclRuleToJSON (WithDeny (j_deny j) (WithAttributes (j_attributes j)
         (NewACL (j_target j) (j_subject j) rights)))), proposed = Some cmd, managed = Some m\<rparr> \<and>
    (\<exists>r sm'. apply_entry (Apply U E C (manager_applier U enc dec)) (command_log_entry i t cmd) (Some sm) =
        (Ok (ApplyResultApplied, None), Some sm') \<and>
      map_option (rules \<circ> m_config) (sm_acl sm') = Some (insert_rule (Some r) index (rules (m_config m'))) \<and>
      a_target r = j_target j \<and> a_scope r = ScopeBase) \<and>
    (\<exists>r. map_option (rules \<circ> m_config) (managed (HandleAddACLRule U None (\<lambda>_. True) (Some (j, index)) (Some m'))) =
        Some (insert_rule (Some r) index (rules (m_config m'))) \<and>
      a_target r = j_target j \<and> a_scope r = ScopeSubtree)"
proof -
  let ?ac = "zero_acl_command\<lparr>ac_rule := Some (aclRuleToRaftData j), ac_rule_index := index,
      ac_version := m_version m + 1\<rparr>"
  let ?rule = "WithDeny (j_deny j) (WithAttributes (j_attributes j) (NewACL (j_target j) (j_subject j) rights))"
  have json: "jsonToACLRule U j = Ok ?rule"
    using scope parsed by (cases "j_attributes j") (simp_all add: jsonToACLRule_def NewACL_def WithAttributes_def)
  obtain r' where r': "rule_rights U (j_rights j) 0 = Ok r'"
    using ParseRights_rule_rights [OF named] parsed unfolding ParseRights_def by blast
  let ?r = "\<lparr>a_target = j_target j, a_scope = ScopeBase, a_subject = j_subject j, a_rights = r',
      a_attributes = j_attributes j, a_deny = j_deny j\<rparr>"
  have "ruleDataToACL U (aclRuleToRaftData j) = Ok ?r"
    using scope r' by (simp add: ruleDataToACL_def aclRuleToRaftData_def rule_scope_def ToLower_names)
  moreover have "DeserializeACLCommand (c_acl_data cmd) = Ok ?ac"
    using DeserializeACLCommand_Serialize [OF short(2)] by (simp add: cmd CreateACLAddRuleCommand_def)
  moreover have ty: "c_type cmd = CmdACLAddRule"
    by (simp add: cmd CreateACLAddRuleCommand_def)
  ultimately have "applyACLCommand (manager_applier U enc dec) cmd m' =
      (None, (set_rules (insert_rule (Some ?r) index (rules (m_config m'))) m')\<lparr>m_version := m_version m' + 1\<rparr>)"
    by (simp add: applyACLCommand_def manager_applier_def AddRuleFromRaft_def acl_result_def
        zero_acl_command_def command_codes)
  then have cluster: "\<exists>r sm'. apply_entry (Apply U E C (manager_applier U enc dec)) (command_log_entry i t cmd) (Some sm) =
        (Ok (ApplyResultApplied, None), Some sm') \<and>
      map_option (rules \<circ> m_config) (sm_acl sm') = Some (insert_rule (Some r) index (rules (m_config m'))) \<and>
      a_target r = j_target j \<and> a_scope r = ScopeBase"
    using ty acl
    by (intro exI [of _ ?r])
      (simp add: apply_command_entry [OF short(1)] Apply_ACL ApplyResultFromError_def set_rules_def)
  have alone: "\<exists>r. map_option (rules \<circ> m_config) (managed (HandleAddACLRule U None (\<lambda>_. True) (Some (j, index)) (Some m'))) =
        Some (insert_rule (Some r) index (rules (m_config m'))) \<and> a_target r = j_target j \<and> a_scope r = ScopeSubtree"
    using filled by (intro exI [of _ ?rule])
      (simp add: HandleAddACLRule_def json AddRule_def respond_def set_rules_def WithDeny_def WithAttributes_def NewACL_def)
  show ?thesis
    using cluster alone by (simp add: HandleAddACLRule_def json propose_acl_def cmd)
qed

definition scopeless_request :: acl_rule_json where
  "scopeless_request =
     \<lparr>j_target = lit ''dc=x'', j_subject = lit ''*'', j_scope = [], j_rights = [lit ''read''],
      j_attributes = [], j_deny = True\<rparr>"

theorem scopeless_rule_differs_in_cluster_witness:
  "proposed (HandleAddACLRule plain_unicode (Some True) (\<lambda>_. True) (Some (scopeless_request, 0)) (Some empty_file_manager)) =
     Some (CreateACLAddRuleCommand (Some (aclRuleToRaftData scopeless_request)) 0 1) \<and>
   (\<exists>r sm'. apply_entry (Apply plain_unicode idle_engine idle_config
        (manager_applier plain_unicode (\<lambda>_. []) (\<lambda>_. None)))
        (command_log_entry 1 1 (CreateACLAddRuleCommand (Some (aclRuleToRaftData scopeless_request)) 0 1))
        (Some (idle_machine empty_file_manager)) = (Ok (ApplyResultApplied, None), Some sm') \<and>
      map_option (rules \<circ> m_config) (sm_acl sm') = Some [Some r] \<and> a_scope r = ScopeBase)"
proof -
  have "j_scope scopeless_request = []" "\<forall>n\<in>set (j_rights scopeless_request). TrimSpace plain_unicode n = n"
      "ParseRights plain_unicode (j_rights scopeless_request) = Ok Read"
      "j_target scopeless_request \<noteq> []" "j_subject scopeless_request \<noteq> []" "Read \<noteq> 0"
    by (simp_all add: scopeless_request_def ParseRights_def right_named_def ToLower_names Read_def)
      (simp_all add: lit_def is_ascii_def ascii_space_def ToLower_def lower_byte_def)
  moreover have "short_command (CreateACLAddRuleCommand (Some (aclRuleToRaftData scopeless_request)) 0
        (m_version empty_file_manager + 1))"
      "short_acl (zero_acl_command\<lparr>ac_rule := Some (aclRuleToRaftData scopeless_request), ac_rule_index := 0,
         ac_version := m_version empty_file_manager + 1\<rparr>)"
    by (simp_all add: short_command_def CreateACLAddRuleCommand_def zero_command_def short_acl_def
        zero_acl_command_def short_rule_def short_strings_def aclRuleToRaftData_def scopeless_request_def lit_def
        SerializeACLCommand_def serializeACLRule_def writeString_def write_strings_def put_bool_def)
  moreover have "sm_acl (idle_machine empty_file_manager) = Some empty_file_manager"
    by (simp add: idle_machine_def)
  ultimately show ?thesis
    using scopeless_rule_differs_in_cluster [where U = plain_unicode and j = scopeless_request and rights = Read
        and index = 0 and m = empty_file_manager and m' = empty_file_manager and i = 1 and t = 1
        and sm = "idle_machine empty_file_manager" and E = idle_engine and C = idle_config
        and enc = "\<lambda>_. []" and dec = "\<lambda>_. None", OF _ _ _ _ _ _ refl]
    by (auto simp: insert_rule_def empty_file_manager_def NewConfig_def)
qed

section \<open>A command that cannot be applied\<close>

definition passes ::
  "(command \<Rightarrow> 'm \<Rightarrow> go_error option \<times> 'm) \<Rightarrow> nat \<Rightarrow> node \<times> 'm machine \<Rightarrow> node \<times> 'm machine" where
  "passes f k s = ((\<lambda>s. snd (applyLoop_pass f s)) ^^ k) s"

lemma fatal_pass:
  assumes "lastApplied n < commitIndex n" "unat (lastApplied n + 1) < length (l_entries (log n))"
    "l_entries (log n) ! unat (lastApplied n + 1) = Some e"
    "apply_entry f e sm = (Ok (ApplyResultFatal, err), sm)"
  shows "applyLoop_pass f (n, sm) = (Ok (), notifyProposalApplied (lastApplied n + 1) err n, sm)"
  using assms by (simp add: applyLoop_pass_def apply_committed.simps Log_Get_def)

text \<open>
  C31. A default policy that is neither allow nor deny stops a cluster. Outside a cluster the
  request is refused with 400; in a cluster the leader proposes it unchecked, and a node whose
  next committed entry is this command never gets past it: after any number of passes of the
  apply loop, \<^verbatim>\<open>lastApplied\<close> and the state machine are as they were.
\<close>

theorem invalid_policy_stops_apply_loop:
  assumes policy: "ToLower U p \<noteq> lit ''allow''" "ToLower U p \<noteq> lit ''deny''"
    and cmd: "cmd = CreateACLSetDefaultCommand p (m_version m + 1)"
    and short: "short_string p" "short_command cmd"
    and acl: "sm_acl sm = Some m'"
    and behind: "lastApplied n < commitIndex n" "unat (lastApplied n + 1) < length (l_entries (log n))"
    and entry: "l_entries (log n) ! unat (lastApplied n + 1) = Some (command_log_entry i t cmd)"
  shows "status (HandleSetDefaultPolicy U None propose (Some p) (Some m)) = 400 \<and>
    proposed (HandleSetDefaultPolicy U (Some True) propose (Some p) (Some m)) = Some cmd \<and>
    lastApplied (fst (passes (Apply U E C (manager_applier U enc dec)) k (n, Some sm))) = lastApplied n \<and>
    snd (passes (Apply U E C (manager_applier U enc dec)) k (n, Some sm)) = Some sm"
proof -
  let ?f = "Apply U E C (manager_applier U enc dec)"
  let ?ac = "zero_acl_command\<lparr>ac_default_policy := p, ac_version := m_version m + 1\<rparr>"
  have "DeserializeACLCommand (c_acl_data cmd) = Ok ?ac"
    using DeserializeACLCommand_Serialize [of ?ac] short
    by (simp add: cmd CreateACLSetDefaultCommand_def short_acl_def zero_acl_command_def)
  moreover have ty: "c_type cmd = CmdACLSetDefault"
    by (simp add: cmd CreateACLSetDefaultCommand_def)
  ultimately have "applyACLCommand (manager_applier U enc dec) cmd m' = (Some (OtherError (lit ''acl'')), m')"
    using policy by (simp add: applyACLCommand_def manager_applier_def SetDefaultPolicyFromRaft_def acl_result_def
        zero_acl_command_def command_codes)
  moreover have "sm\<lparr>sm_acl := Some m'\<rparr> = sm" using acl by simp
  ultimately have fatal: "apply_entry ?f (command_log_entry i t cmd) (Some sm) =
      (Ok (ApplyResultFatal, Some (OtherError (lit ''acl''))), Some sm)"
    using ty acl by (simp add: apply_command_entry [OF short(2)] Apply_ACL ApplyResultFromError_def)
  have "lastApplied (fst (passes ?f k (n, Some sm))) = lastApplied n \<and>
      commitIndex (fst (passes ?f k (n, Some sm))) = commitIndex n \<and>
      log (fst (passes ?f k (n, Some sm))) = log n \<and> snd (passes ?f k (n, Some sm)) = Some sm" for k
  proof (induction k)
    case (Suc k)
    obtain n' where n': "passes ?f k (n, Some sm) = (n', Some sm)"
      using Suc.IH by (cases "passes ?f k (n, Some sm)") auto
    with Suc.IH behind entry fatal have "applyLoop_pass ?f (n', Some sm) =
        (Ok (), notifyProposalApplied (lastApplied n' + 1) (Some (OtherError (lit ''acl''))) n', Some sm)"
      by (intro fatal_pass) simp_all
    with Suc.IH n' show ?case by (simp add: passes_def)
  qed (simp add: passes_def)
  with policy show ?thesis
    by (simp add: HandleSetDefaultPolicy_def SetDefaultPolicy_def respond_def propose_acl_def cmd)
qed

definition stuck_command :: command where
  "stuck_command = CreateACLSetDefaultCommand (lit ''maybe'') 1"

definition stuck_node :: node where
  "stuck_node = (zero_node 1 [])\<lparr>log := (log (zero_node 1 []))\<lparr>l_entries := [None, Some (command_log_entry 1 1 stuck_command)]\<rparr>,
     commitIndex := 1, lastApplied := 0\<rparr>"

theorem invalid_policy_stops_apply_loop_witness:
  "proposed (HandleSetDefaultPolicy plain_unicode (Some True) (\<lambda>_. True) (Some (lit ''maybe'')) (Some empty_file_manager)) =
     Some stuck_command \<and>
   lastApplied (fst (passes (Apply plain_unicode idle_engine idle_config
     (manager_applier plain_unicode (\<lambda>_. []) (\<lambda>_. None))) 1000 (stuck_node, Some (idle_machine empty_file_manager)))) = 0"
proof -
  have "ToLower plain_unicode (lit ''maybe'') = lit ''maybe''"
    by (simp add: ToLower_def lit_def is_ascii_def lower_byte_def)
  moreover have "stuck_command = CreateACLSetDefaultCommand (lit ''maybe'') (m_version empty_file_manager + 1)"
      "short_string (lit ''maybe'')" "short_command stuck_command"
      "sm_acl (idle_machine empty_file_manager) = Some empty_file_manager"
      "lastApplied stuck_node < commitIndex stuck_node"
      "unat (lastApplied stuck_node + 1) < length (l_entries (log stuck_node))"
      "l_entries (log stuck_node) ! unat (lastApplied stuck_node + 1) = Some (command_log_entry 1 1 stuck_command)"
      "lastApplied stuck_node = 0"
    by (simp_all add: stuck_command_def stuck_node_def empty_file_manager_def idle_machine_def short_command_def
        CreateACLSetDefaultCommand_def zero_command_def SerializeACLCommand_def zero_acl_command_def
        writeString_def put_bool_def lit_def)
  ultimately show ?thesis
    using invalid_policy_stops_apply_loop [where U = plain_unicode and p = "lit ''maybe''" and m = empty_file_manager
        and cmd = stuck_command and sm = "idle_machine empty_file_manager" and m' = empty_file_manager
        and n = stuck_node and i = 1 and t = 1 and E = idle_engine and C = idle_config and enc = "\<lambda>_. []"
        and dec = "\<lambda>_. None" and k = 1000 and propose = "\<lambda>_. True"]
    by simp
qed

end
