(* ===== verification/Radix_Dn.thy ===== *)
theory Radix_Dn
  imports Go_Strings
begin

text \<open>
  Distinguished names of the storage engine (\<^verbatim>\<open>internal/storage/radix/dn.go\<close>): splitting at
  commas that are not escaped, normalization of each component, and the comparison functions.
\<close>

datatype dn_error = ErrEmptyDN | ErrInvalidDN | ErrInvalidRDN | ErrEmptyRDNComponent

text \<open>The component that ends here, unless it is empty.\<close>

definition end_component :: "unicode \<Rightarrow> bytes \<Rightarrow> bytes list" where
  "end_component U current = (let comp = TrimSpace U current in if comp \<noteq> [] then [comp] else [])"

text \<open>The loop of \<^verbatim>\<open>splitDN\<close> with its variables \<open>current\<close> and \<open>escaped\<close>.\<close>

fun split_loop :: "unicode \<Rightarrow> bytes \<Rightarrow> bytes \<Rightarrow> bool \<Rightarrow> bytes list" where
  "split_loop U [] current escaped = end_component U current"
| "split_loop U (c # s) current escaped =
     (if escaped then split_loop U s (current @ [c]) False
      else if c = 92 then split_loop U s (current @ [c]) True
      else if c = comma then end_component U current @ split_loop U s [] False
      else split_loop U s (current @ [c]) False)"

definition splitDN :: "unicode \<Rightarrow> bytes \<Rightarrow> bytes list" where
  "splitDN U dn = split_loop U dn [] False"

definition normalizeRDN :: "unicode \<Rightarrow> bytes \<Rightarrow> (dn_error, bytes) outcome" where
  "normalizeRDN U rdn =
     (let rdn = TrimSpace U rdn in
      if rdn = [] then Fail ErrEmptyRDNComponent
      else case Index rdn (lit ''='') of
          None \<Rightarrow> Fail ErrInvalidRDN
        | Some eqIdx \<Rightarrow>
            let attrType = TrimSpace U (take eqIdx rdn);
                attrValue = TrimSpace U (drop (eqIdx + 1) rdn)
            in if attrType = [] then Fail ErrInvalidRDN
               else Ok (ToLower U attrType @ lit ''='' @ attrValue))"

fun normalize_all :: "unicode \<Rightarrow> bytes list \<Rightarrow> (dn_error, bytes list) outcome" where
  "normalize_all U [] = Ok []"
| "normalize_all U (c # cs) =
     (case normalizeRDN U c of
        Fail e \<Rightarrow> Fail e
      | Panic \<Rightarrow> Panic
      | Ok n \<Rightarrow> (case normalize_all U cs of Ok ns \<Rightarrow> Ok (n # ns) | Fail e \<Rightarrow> Fail e | Panic \<Rightarrow> Panic))"

definition ParseDNForward :: "unicode \<Rightarrow> bytes \<Rightarrow> (dn_error, bytes list) outcome" where
  "ParseDNForward U dn =
     (if dn = [] then Fail ErrEmptyDN
      else let dn = TrimSpace U dn in
        if dn = [] then Fail ErrEmptyDN
        else let components = splitDN U dn in
          if components = [] then Fail ErrInvalidDN else normalize_all U components)"

text \<open>\<^verbatim>\<open>ParseDN\<close> puts the components in reverse order, the root first.\<close>

definition Radix_ParseDN :: "unicode \<Rightarrow> bytes \<Rightarrow> (dn_error, bytes list) outcome" where
  "Radix_ParseDN U dn =
     (if dn = [] then Fail ErrEmptyDN
      else let dn = TrimSpace U dn in
        if dn = [] then Fail ErrEmptyDN
        else let components = splitDN U dn in
          if components = [] then Fail ErrInvalidDN
          else case normalize_all U components of
              Ok ns \<Rightarrow> Ok (rev ns) | Fail e \<Rightarrow> Fail e | Panic \<Rightarrow> Panic)"

definition JoinDN :: "bytes list \<Rightarrow> bytes" where
  "JoinDN components = Join components [comma]"

definition JoinDNReverse :: "bytes list \<Rightarrow> bytes" where
  "JoinDNReverse components = (if components = [] then [] else Join (rev components) [comma])"

definition Radix_GetParentDN :: "unicode \<Rightarrow> bytes \<Rightarrow> (dn_error, bytes) outcome" where
  "Radix_GetParentDN U dn =
     (case ParseDNForward U dn of
        Ok cs \<Rightarrow> if length cs \<le> 1 then Ok [] else Ok (JoinDN (tl cs))
      | Fail e \<Rightarrow> Fail e
      | Panic \<Rightarrow> Panic)"

definition GetRDN :: "unicode \<Rightarrow> bytes \<Rightarrow> (dn_error, bytes) outcome" where
  "GetRDN U dn =
     (case ParseDNForward U dn of
        Ok cs \<Rightarrow> if cs = [] then Fail ErrInvalidDN else Ok (hd cs)
      | Fail e \<Rightarrow> Fail e
      | Panic \<Rightarrow> Panic)"

text \<open>The parsing of two DNs; the first error is returned.\<close>

definition parse_both ::
  "unicode \<Rightarrow> bytes \<Rightarrow> bytes \<Rightarrow> (bytes list \<Rightarrow> bytes list \<Rightarrow> bool) \<Rightarrow> (dn_error, bool) outcome" where
  "parse_both U a b P =
     (case Radix_ParseDN U a of
        Fail e \<Rightarrow> Fail e
      | Panic \<Rightarrow> Panic
      | Ok x \<Rightarrow> (case Radix_ParseDN U b of Ok y \<Rightarrow> Ok (P x y) | Fail e \<Rightarrow> Fail e | Panic \<Rightarrow> Panic))"

definition IsDescendantOf :: "unicode \<Rightarrow> bytes \<Rightarrow> bytes \<Rightarrow> (dn_error, bool) outcome" where
  "IsDescendantOf U child parent =
     parse_both U child parent (\<lambda>c p. length p < length c \<and> list_all2 (EqualFold U) (take (length p) c) p)"

definition IsDirectChildOf :: "unicode \<Rightarrow> bytes \<Rightarrow> bytes \<Rightarrow> (dn_error, bool) outcome" where
  "IsDirectChildOf U child parent =
     parse_both U child parent (\<lambda>c p. length c = length p + 1 \<and> list_all2 (EqualFold U) (take (length p) c) p)"

definition Radix_NormalizeDN :: "unicode \<Rightarrow> bytes \<Rightarrow> (dn_error, bytes) outcome" where
  "Radix_NormalizeDN U dn =
     (case ParseDNForward U dn of Ok cs \<Rightarrow> Ok (JoinDN cs) | Fail e \<Rightarrow> Fail e | Panic \<Rightarrow> Panic)"

definition CompareDN :: "unicode \<Rightarrow> bytes \<Rightarrow> bytes \<Rightarrow> (dn_error, bool) outcome" where
  "CompareDN U a b =
     (case Radix_NormalizeDN U a of
        Fail e \<Rightarrow> Fail e
      | Panic \<Rightarrow> Panic
      | Ok x \<Rightarrow> (case Radix_NormalizeDN U b of
                   Ok y \<Rightarrow> Ok (EqualFold U x y) | Fail e \<Rightarrow> Fail e | Panic \<Rightarrow> Panic))"

definition DNDepth :: "unicode \<Rightarrow> bytes \<Rightarrow> (dn_error, nat) outcome" where
  "DNDepth U dn =
     (case Radix_ParseDN U dn of Ok cs \<Rightarrow> Ok (length cs) | Fail e \<Rightarrow> Fail e | Panic \<Rightarrow> Panic)"

lemma normalizeRDN_not_Nil: "normalizeRDN U c = Ok n \<Longrightarrow> n \<noteq> []"
  by (auto simp: normalizeRDN_def Let_def split: option.splits if_splits)

lemma normalize_all_Ok:
  "normalize_all U xs = Ok ys \<Longrightarrow> length ys = length xs \<and> [] \<notin> set ys"
proof (induction xs arbitrary: ys)
  case (Cons x xs)
  then show ?case
    using normalizeRDN_not_Nil [of U x] by (fastforce split: outcome.splits)
qed simp

lemma Radix_ParseDN_components:
  assumes "Radix_ParseDN U dn = Ok cs"
  shows "cs \<noteq> []" "[] \<notin> set cs"
  using assms by (auto simp: Radix_ParseDN_def Let_def dest!: normalize_all_Ok split: if_splits outcome.splits)

end
