(* ===== verification/Radix_Tree.thy ===== *)
theory Radix_Tree
  imports Radix_Dn
begin

text \<open>
  The DN tree of the storage engine (\<^verbatim>\<open>node.go\<close>, \<^verbatim>\<open>tree.go\<close>, \<^verbatim>\<open>operations.go\<close> of
  \<^verbatim>\<open>internal/storage/radix\<close>). A node owns its children by key; the map by first byte points to one
  child per byte, which is given here by its key. Parent pointers are the path of the recursion.
  A Go map is an association list, visited in its order. Writing the root to its page is left
  out: the operations are those of the tree in memory.
\<close>

section \<open>Nodes\<close>

type_synonym location = "uint64 \<times> uint16"

datatype rnode =
  RNode (r_key: bytes) (r_first: "(byte \<times> bytes) list") (r_kids: "(bytes \<times> rnode) list")
    (r_entry: "location option") (r_count: uint32)

definition RNewNode :: "bytes \<Rightarrow> rnode" where
  "RNewNode key = RNode key [] [] None 0"

definition NewRootNode :: rnode where
  "NewRootNode = RNode [] [] [] None 0"

definition NewEntryNode :: "bytes \<Rightarrow> location \<Rightarrow> rnode" where
  "NewEntryNode key loc = RNode key [] [] (Some loc) 1"

definition SetEntry :: "location \<Rightarrow> rnode \<Rightarrow> rnode" where
  "SetEntry loc n =
     RNode (r_key n) (r_first n) (r_kids n) (Some loc)
       (if r_entry n = None then r_count n + 1 else r_count n)"

definition ClearEntry :: "rnode \<Rightarrow> rnode" where
  "ClearEntry n =
     RNode (r_key n) (r_first n) (r_kids n) None (if r_entry n = None then r_count n else r_count n - 1)"

definition updateSubtreeCount :: "rnode \<Rightarrow> rnode" where
  "updateSubtreeCount n =
     RNode (r_key n) (r_first n) (r_kids n) (r_entry n)
       ((if r_entry n = None then 0 else 1) + sum_list (map (r_count \<circ> snd) (r_kids n)))"

definition AddChild :: "rnode \<Rightarrow> rnode \<Rightarrow> rnode" where
  "AddChild child n =
     (if r_key child = [] then n
      else let fb = hd (r_key child);
               first = (case map_of (r_first n) fb of
                   Some k \<Rightarrow> if k \<noteq> r_key child then r_first n else AList.update fb (r_key child) (r_first n)
                 | None \<Rightarrow> AList.update fb (r_key child) (r_first n))
           in updateSubtreeCount (RNode (r_key n) first (AList.update (r_key child) child (r_kids n))
                (r_entry n) (r_count n)))"

definition RemoveChild :: "bytes \<Rightarrow> rnode \<Rightarrow> rnode" where
  "RemoveChild key n =
     (if key = [] \<or> map_of (r_kids n) key = None then n
      else let kids = AList.delete key (r_kids n);
               fb = hd key;
               first = (if map_of (r_first n) fb = Some key
                 then (case filter (\<lambda>k. k \<noteq> [] \<and> hd k = fb) (map fst kids) of
                         k # _ \<Rightarrow> AList.update fb k (AList.delete fb (r_first n))
                       | [] \<Rightarrow> AList.delete fb (r_first n))
                 else r_first n)
           in updateSubtreeCount (RNode (r_key n) first kids (r_entry n) (r_count n)))"

definition GetChild :: "bytes \<Rightarrow> rnode \<Rightarrow> rnode option" where
  "GetChild key n = (if key = [] then None else map_of (r_kids n) key)"

definition IsLeaf :: "rnode \<Rightarrow> bool" where
  "IsLeaf n \<longleftrightarrow> (if r_kids n \<noteq> [] then False else r_first n = [])"

definition ChildCount :: "rnode \<Rightarrow> nat" where
  "ChildCount n = (if r_kids n \<noteq> [] then length (r_kids n) else length (r_first n))"

definition GetChildKeys :: "rnode \<Rightarrow> bytes list" where
  "GetChildKeys n = (if r_kids n \<noteq> [] then map fst (r_kids n) else map snd (r_first n))"

text \<open>One ancestor in \<^verbatim>\<open>PropagateSubtreeCountChange\<close>, for a change of 1 and of -1.\<close>

definition count_up :: "rnode \<Rightarrow> rnode" where
  "count_up n = RNode (r_key n) (r_first n) (r_kids n) (r_entry n) (r_count n + 1)"

definition count_down :: "rnode \<Rightarrow> rnode" where
  "count_down n =
     RNode (r_key n) (r_first n) (r_kids n) (r_entry n) (if r_count n \<ge> 1 then r_count n - 1 else r_count n)"

text \<open>The node with a child that was changed in place.\<close>

definition with_child :: "bytes \<Rightarrow> rnode \<Rightarrow> rnode \<Rightarrow> rnode" where
  "with_child key child n =
     RNode (r_key n) (r_first n) (if key = [] then r_kids n else AList.update key child (r_kids n))
       (r_entry n) (r_count n)"

section \<open>Operations on a path\<close>

datatype radix_error =
    RadixEntryExists
  | RadixEntryNotFound
  | RadixDN dn_error

fun find_at :: "bytes list \<Rightarrow> rnode \<Rightarrow> rnode option" where
  "find_at [] n = Some n"
| "find_at (c # cs) n = (case GetChild c n of None \<Rightarrow> None | Some ch \<Rightarrow> find_at cs ch)"

text \<open>
  \<^verbatim>\<open>traverseToNode\<close> with creation, followed by \<^verbatim>\<open>SetEntry\<close> and the propagation of the count to the
  ancestors. A child with an empty key would not be attached to its parent.
\<close>

fun insert_at :: "bytes list \<Rightarrow> location \<Rightarrow> rnode \<Rightarrow> radix_error option \<times> rnode" where
  "insert_at [] loc n =
     (if r_entry n \<noteq> None then (Some RadixEntryExists, n) else (None, SetEntry loc n))"
| "insert_at (c # cs) loc n =
     (case GetChild c n of
        Some ch \<Rightarrow>
          (case insert_at cs loc ch of
             (Some err, _) \<Rightarrow> (Some err, n)
           | (None, ch') \<Rightarrow> (None, count_up (with_child c ch' n)))
      | None \<Rightarrow>
          (case insert_at cs loc (RNewNode c) of
             (Some err, _) \<Rightarrow> (Some err, n)
           | (None, ch') \<Rightarrow>
               (None, if c = [] then n else count_up (with_child c ch' (AddChild (RNewNode c) n)))))"

text \<open>
  \<^verbatim>\<open>ClearEntry\<close>, the propagation of the count and \<^verbatim>\<open>cleanupEmptyNodes\<close> on the way up.
\<close>

fun delete_at :: "bytes list \<Rightarrow> rnode \<Rightarrow> radix_error option \<times> rnode" where
  "delete_at [] n = (if r_entry n = None then (Some RadixEntryNotFound, n) else (None, ClearEntry n))"
| "delete_at (c # cs) n =
     (case GetChild c n of
        None \<Rightarrow> (Some RadixEntryNotFound, n)
      | Some ch \<Rightarrow>
          (case delete_at cs ch of
             (Some err, _) \<Rightarrow> (Some err, n)
           | (None, ch') \<Rightarrow>
               let n' = count_down (with_child c ch' n)
               in if r_entry ch' \<noteq> None \<or> r_first ch' \<noteq> [] then (None, n')
                  else (None, RemoveChild c n')))"

fun update_at :: "bytes list \<Rightarrow> location \<Rightarrow> rnode \<Rightarrow> radix_error option \<times> rnode" where
  "update_at [] loc n =
     (if r_entry n = None then (Some RadixEntryNotFound, n)
      else (None, RNode (r_key n) (r_first n) (r_kids n) (Some loc) (r_count n)))"
| "update_at (c # cs) loc n =
     (case GetChild c n of
        None \<Rightarrow> (Some RadixEntryNotFound, n)
      | Some ch \<Rightarrow>
          (case update_at cs loc ch of
             (Some err, _) \<Rightarrow> (Some err, n)
           | (None, ch') \<Rightarrow> (None, with_child c ch' n)))"

text \<open>The entries of a subtree with their paths, in the order of \<^verbatim>\<open>iterateNode\<close>.\<close>

function iterate_node :: "bytes list \<Rightarrow> rnode \<Rightarrow> (bytes list \<times> location) list" where
  "iterate_node path n =
     (case r_entry n of None \<Rightarrow> [] | Some loc \<Rightarrow> [(path, loc)]) @
     concat (map (\<lambda>(k, ch). iterate_node (path @ [r_key ch]) ch) (r_kids n))"
  by pat_completeness auto
termination
proof (relation "measure (size \<circ> snd)")
  fix n :: rnode and x k ch
  assume "x \<in> set (r_kids n)" "(k, ch) = x"
  then have "size ch < Suc (size_list (size_prod (\<lambda>_. 0) size) (r_kids n))"
    by (intro le_imp_less_Suc) (auto intro: size_list_estimation')
  then show "((path @ [r_key ch], ch), path, n) \<in> measure (size \<circ> snd)" for path
    by (cases n) simp
qed simp

declare iterate_node.simps [simp del]

text \<open>The entries strictly below a node, in the order of \<^verbatim>\<open>collectDescendants\<close>.\<close>

function collectDescendants :: "bytes list \<Rightarrow> rnode \<Rightarrow> bytes list" where
  "collectDescendants path n =
     concat (map (\<lambda>(k, ch). (if r_entry ch \<noteq> None then [JoinDNReverse (path @ [r_key ch])] else []) @
       collectDescendants (path @ [r_key ch]) ch) (r_kids n))"
  by pat_completeness auto
termination
proof (relation "measure (size \<circ> snd)")
  fix n :: rnode and x k ch
  assume "x \<in> set (r_kids n)" "(k, ch) = x"
  then have "size ch < Suc (size_list (size_prod (\<lambda>_. 0) size) (r_kids n))"
    by (intro le_imp_less_Suc) (auto intro: size_list_estimation')
  then show "((path @ [r_key ch], ch), path, n) \<in> measure (size \<circ> snd)" for path
    by (cases n) simp
qed simp

declare collectDescendants.simps [simp del]

section \<open>The tree\<close>

definition on_path ::
  "unicode \<Rightarrow> bytes \<Rightarrow> (bytes list \<Rightarrow> rnode \<Rightarrow> radix_error option \<times> rnode) \<Rightarrow> rnode \<Rightarrow> radix_error option \<times> rnode" where
  "on_path U dn f root =
     (case Radix_ParseDN U dn of
        Ok cs \<Rightarrow> f cs root | Fail e \<Rightarrow> (Some (RadixDN e), root) | Panic \<Rightarrow> (None, root))"

definition Radix_Insert :: "unicode \<Rightarrow> bytes \<Rightarrow> location \<Rightarrow> rnode \<Rightarrow> radix_error option \<times> rnode" where
  "Radix_Insert U dn loc root = on_path U dn (\<lambda>cs. insert_at cs loc) root"

definition Radix_Delete :: "unicode \<Rightarrow> bytes \<Rightarrow> rnode \<Rightarrow> radix_error option \<times> rnode" where
  "Radix_Delete U dn root = on_path U dn delete_at root"

definition Radix_Update :: "unicode \<Rightarrow> bytes \<Rightarrow> location \<Rightarrow> rnode \<Rightarrow> radix_error option \<times> rnode" where
  "Radix_Update U dn loc root = on_path U dn (\<lambda>cs. update_at cs loc) root"

definition Radix_Lookup :: "unicode \<Rightarrow> bytes \<Rightarrow> rnode \<Rightarrow> location option" where
  "Radix_Lookup U dn root =
     (case Radix_ParseDN U dn of
        Ok cs \<Rightarrow> (case find_at cs root of None \<Rightarrow> None | Some n \<Rightarrow> r_entry n)
      | _ \<Rightarrow> None)"

definition GetSubtreeCount :: "unicode \<Rightarrow> bytes \<Rightarrow> rnode \<Rightarrow> (dn_error, uint32) outcome" where
  "GetSubtreeCount U dn root =
     (case Radix_ParseDN U dn of
        Ok cs \<Rightarrow> Ok (case find_at cs root of None \<Rightarrow> 0 | Some n \<Rightarrow> r_count n)
      | Fail e \<Rightarrow> Fail e
      | Panic \<Rightarrow> Panic)"

definition GetChildren :: "unicode \<Rightarrow> bytes \<Rightarrow> rnode \<Rightarrow> (dn_error, bytes list) outcome" where
  "GetChildren U dn root =
     (case Radix_ParseDN U dn of
        Ok cs \<Rightarrow> Ok (case find_at cs root of
            None \<Rightarrow> []
          | Some n \<Rightarrow> map (\<lambda>(k, ch). JoinDNReverse (cs @ [r_key ch]))
              (filter (\<lambda>(k, ch). r_entry ch \<noteq> None) (r_kids n)))
      | Fail e \<Rightarrow> Fail e
      | Panic \<Rightarrow> Panic)"

definition IterateSubtree :: "unicode \<Rightarrow> bytes \<Rightarrow> rnode \<Rightarrow> (dn_error, (bytes \<times> location) list) outcome" where
  "IterateSubtree U base root =
     (if base = [] then Ok (map (\<lambda>(p, loc). (JoinDNReverse p, loc)) (iterate_node [] root))
      else case Radix_ParseDN U base of
          Ok cs \<Rightarrow> Ok (case find_at cs root of
              None \<Rightarrow> []
            | Some n \<Rightarrow> map (\<lambda>(p, loc). (JoinDNReverse p, loc)) (iterate_node cs n))
        | Fail e \<Rightarrow> Fail e
        | Panic \<Rightarrow> Panic)"

definition Radix_Exists :: "unicode \<Rightarrow> bytes \<Rightarrow> rnode \<Rightarrow> bool" where
  "Radix_Exists U dn root \<longleftrightarrow> Radix_Lookup U dn root \<noteq> None"

definition GetAllChildren :: "unicode \<Rightarrow> bytes \<Rightarrow> rnode \<Rightarrow> (dn_error, bytes list) outcome" where
  "GetAllChildren U dn root =
     (case Radix_ParseDN U dn of
        Ok cs \<Rightarrow> Ok (case find_at cs root of None \<Rightarrow> [] | Some n \<Rightarrow> collectDescendants cs n)
      | Fail e \<Rightarrow> Fail e
      | Panic \<Rightarrow> Panic)"

text \<open>The entries that the callback of \<^verbatim>\<open>IterateOneLevelChildren\<close> is called with.\<close>

definition one_level :: "bytes list \<Rightarrow> rnode \<Rightarrow> (bytes list \<times> location) list" where
  "one_level cs n =
     concat (map (\<lambda>(k, ch). case r_entry ch of None \<Rightarrow> [] | Some loc \<Rightarrow> [(cs @ [r_key ch], loc)]) (r_kids n))"

definition IterateOneLevelChildren ::
  "unicode \<Rightarrow> bytes \<Rightarrow> rnode \<Rightarrow> (dn_error, (bytes \<times> location) list) outcome" where
  "IterateOneLevelChildren U base root =
     (if base = [] then Ok (map (\<lambda>(p, loc). (JoinDNReverse p, loc)) (one_level [] root))
      else case Radix_ParseDN U base of
          Ok cs \<Rightarrow> Ok (case find_at cs root of
              None \<Rightarrow> []
            | Some n \<Rightarrow> map (\<lambda>(p, loc). (JoinDNReverse p, loc)) (one_level cs n))
        | Fail e \<Rightarrow> Fail e
        | Panic \<Rightarrow> Panic)"

definition Radix_GetParent :: "unicode \<Rightarrow> bytes \<Rightarrow> (dn_error, bytes) outcome" where
  "Radix_GetParent U dn =
     (case Radix_ParseDN U dn of
        Ok cs \<Rightarrow> if length cs \<le> 1 then Ok [] else Ok (JoinDNReverse (butlast cs))
      | Fail e \<Rightarrow> Fail e
      | Panic \<Rightarrow> Panic)"

definition HasChildren :: "unicode \<Rightarrow> bytes \<Rightarrow> rnode \<Rightarrow> (dn_error, bool) outcome" where
  "HasChildren U dn root =
     (case Radix_ParseDN U dn of
        Ok cs \<Rightarrow> Ok (case find_at cs root of
            None \<Rightarrow> False
          | Some n \<Rightarrow> if r_kids n \<noteq> [] then True else r_first n \<noteq> [])
      | Fail e \<Rightarrow> Fail e
      | Panic \<Rightarrow> Panic)"

definition EntryCount :: "rnode \<Rightarrow> uint32" where
  "EntryCount root = r_count root"

end
