(* ===== verification/Radix_Props.thy ===== *)
theory Radix_Props
  imports Radix_Tree "HOL-Library.Sublist"
begin

text \<open>
  The DN tree as a finite map from paths to locations: the well-formedness of a tree, the laws of
  lookup, insertion and deletion, the entry count, and the enumeration of a subtree.
\<close>

section \<open>Well-formed trees\<close>

function num :: "rnode \<Rightarrow> nat" where
  "num n = (if r_entry n = None then 0 else 1) + sum_list (map (\<lambda>(k, ch). num ch) (r_kids n))"
  by pat_completeness auto
termination
proof (relation "measure size")
  fix n :: rnode and x k ch
  assume "x \<in> set (r_kids n)" "(k, ch) = x"
  then have "size ch < Suc (size_list (size_prod (\<lambda>_. 0) size) (r_kids n))"
    by (intro le_imp_less_Suc) (auto intro: size_list_estimation')
  then show "(ch, n) \<in> measure size"
    by (cases n) simp
qed simp

declare num.simps [simp del]

definition empty_node :: "rnode \<Rightarrow> bool" where
  "empty_node n \<longleftrightarrow> r_entry n = None \<and> r_kids n = []"

definition first_ok :: "(byte \<times> bytes) list \<Rightarrow> (bytes \<times> rnode) list \<Rightarrow> bool" where
  "first_ok first kids \<longleftrightarrow>
     (\<forall>fb k. map_of first fb = Some k \<longrightarrow> k \<in> fst ` set kids \<and> hd k = fb) \<and>
     (\<forall>k \<in> fst ` set kids. map_of first (hd k) \<noteq> None)"

definition local_ok :: "rnode \<Rightarrow> bool" where
  "local_ok n \<longleftrightarrow>
     distinct (map fst (r_kids n)) \<and> [] \<notin> fst ` set (r_kids n) \<and>
     (\<forall>(k, ch) \<in> set (r_kids n). r_key ch = k \<and> \<not> empty_node ch) \<and>
     first_ok (r_first n) (r_kids n) \<and> r_count n = of_nat (num n)"

inductive wf_node :: "rnode \<Rightarrow> bool" where
  "local_ok n \<Longrightarrow> (\<And>ch. ch \<in> snd ` set (r_kids n) \<Longrightarrow> wf_node ch) \<Longrightarrow> wf_node n"

inductive_simps wf_node_simp: "wf_node n"

lemma wf_nodeD: "wf_node n \<Longrightarrow> local_ok n" "wf_node n \<Longrightarrow> (k, ch) \<in> set (r_kids n) \<Longrightarrow> wf_node ch"
  by (force simp: wf_node_simp [of n])+

lemma first_ok_empty: "first_ok first kids \<Longrightarrow> first = [] \<longleftrightarrow> kids = []"
proof (cases first)
  case (Cons x xs)
  assume "first_ok first kids"
  then have "snd x \<in> fst ` set kids"
    unfolding first_ok_def Cons by (metis map_of.simps(2) prod.collapse fun_upd_same)
  with Cons show ?thesis by auto
qed (cases kids; auto simp: first_ok_def)

lemma wf_NewRootNode: "wf_node NewRootNode"
  by (subst wf_node_simp) (simp add: NewRootNode_def local_ok_def first_ok_def num.simps)

section \<open>Lookup\<close>

definition lookup :: "bytes list \<Rightarrow> rnode \<Rightarrow> location option" where
  "lookup p n = (case find_at p n of None \<Rightarrow> None | Some m \<Rightarrow> r_entry m)"

lemma lookup_simps [simp]:
  "lookup [] n = r_entry n"
  "lookup (c # cs) n = (case GetChild c n of None \<Rightarrow> None | Some ch \<Rightarrow> lookup cs ch)"
  by (auto simp: lookup_def split: option.splits)

lemma find_at_append:
  "find_at (p @ q) n = (case find_at p n of None \<Rightarrow> None | Some m \<Rightarrow> find_at q m)"
  by (induction p arbitrary: n) (auto split: option.splits)

lemma lookup_append: "lookup (p @ q) n = (case find_at p n of None \<Rightarrow> None | Some m \<Rightarrow> lookup q m)"
  by (simp add: lookup_def find_at_append split: option.splits)

lemma lookup_empty: "r_entry n = None \<Longrightarrow> r_kids n = [] \<Longrightarrow> lookup p n = None"
  by (cases p) (simp_all add: GetChild_def)

lemma GetChild_simps [simp]:
  "GetChild k (count_up n) = GetChild k n" "GetChild k (count_down n) = GetChild k n"
  "c \<noteq> [] \<Longrightarrow> GetChild k (with_child c ch n) = (if k = c then Some ch else GetChild k n)"
  "c \<noteq> [] \<Longrightarrow> GetChild k (AddChild (RNewNode c) n) = (if k = c then Some (RNewNode c) else GetChild k n)"
  "GetChild k (RNewNode c) = None"
  by (auto simp: GetChild_def count_up_def count_down_def with_child_def AddChild_def updateSubtreeCount_def
      RNewNode_def update_conv' Let_def)

lemma r_entry_simps [simp]:
  "r_entry (count_up n) = r_entry n" "r_entry (count_down n) = r_entry n"
  "r_entry (with_child c ch n) = r_entry n" "r_entry (AddChild ch n) = r_entry n"
  "r_entry (RemoveChild c n) = r_entry n" "r_entry (updateSubtreeCount n) = r_entry n" "r_entry (RNewNode c) = None"
  by (simp_all add: count_up_def count_down_def with_child_def AddChild_def updateSubtreeCount_def
      RemoveChild_def RNewNode_def Let_def)

lemma GetChild_RemoveChild:
  "distinct (map fst (r_kids n)) \<Longrightarrow>
     GetChild k (RemoveChild c n) = (if k = c then None else GetChild k n)"
  by (auto simp: GetChild_def RemoveChild_def updateSubtreeCount_def Let_def delete_conv' split: if_splits)

lemma update_twice [simp]: "AList.update c x (AList.update c y kids) = AList.update c x kids"
  by (induction kids) auto

lemma r_kids_simps [simp]:
  "r_kids (count_up n) = r_kids n" "r_kids (count_down n) = r_kids n" "r_kids (RNewNode c) = []"
  "c \<noteq> [] \<Longrightarrow> r_kids (with_child c ch n) = AList.update c ch (r_kids n)"
  "c \<noteq> [] \<Longrightarrow> r_kids (AddChild (RNewNode c) n) = AList.update c (RNewNode c) (r_kids n)"
  by (simp_all add: count_up_def count_down_def with_child_def AddChild_def updateSubtreeCount_def
      RNewNode_def Let_def)

lemma lookup_RNewNode [simp]: "lookup p (RNewNode c) = None"
  by (rule lookup_empty) (simp_all add: RNewNode_def)

lemma insert_at_lookup:
  "insert_at p loc n = (None, n') \<Longrightarrow> [] \<notin> set p \<Longrightarrow> lookup q n' = (if q = p then Some loc else lookup q n)"
proof (induction p arbitrary: n n' q)
  case Nil
  then show ?case by (cases q) (auto simp: SetEntry_def GetChild_def split: if_splits)
next
  case (Cons c p)
  then show ?case
    by (cases q) (auto split: option.splits prod.splits if_splits)
qed

lemma insert_at_error:
  "fst (insert_at p loc n) = (if lookup p n = None then None else Some RadixEntryExists)"
  "fst (insert_at p loc n) \<noteq> None \<Longrightarrow> snd (insert_at p loc n) = n"
proof (induction p arbitrary: n)
  case Nil
  { case 1 then show ?case by simp }
  { case 2 then show ?case by (auto split: if_splits) }
next
  case (Cons c p)
  { case 1 show ?case
      using Cons.IH(1) [of "RNewNode c"] Cons.IH(1) [of "the (GetChild c n)"]
      by (auto split: option.splits prod.splits if_splits) }
  { case 2 then show ?case by (auto split: option.splits prod.splits if_splits) }
qed

section \<open>Insertion keeps trees well-formed\<close>

lemma num_sum: "num n = (if r_entry n = None then 0 else 1) + sum_list (map (num \<circ> snd) (r_kids n))"
  by (subst num.simps) (simp add: case_prod_unfold comp_def)

lemma sum_update:
  fixes f :: "rnode \<Rightarrow> 'a :: ab_group_add"
  assumes "distinct (map fst kids)"
  shows "sum_list (map (f \<circ> snd) (AList.update c ch' kids)) =
    sum_list (map (f \<circ> snd) kids) + f ch' - (case map_of kids c of None \<Rightarrow> 0 | Some ch \<Rightarrow> f ch)"
  using assms by (induction kids) (auto simp: algebra_simps split: option.splits)

lemma sum_update_nat:
  assumes "distinct (map fst kids)"
  shows "sum_list (map (num \<circ> snd) (AList.update c ch' kids)) + (case map_of kids c of None \<Rightarrow> 0 | Some ch \<Rightarrow> num ch) =
    sum_list (map (num \<circ> snd) kids) + num ch'"
  using assms by (induction kids) (auto split: option.splits)

lemma num_child_le: "(k, ch) \<in> set (r_kids n) \<Longrightarrow> num ch \<le> num n"
proof -
  assume "(k, ch) \<in> set (r_kids n)"
  then have "num ch \<in> set (map (num \<circ> snd) (r_kids n))" by force
  then have "num ch \<le> sum_list (map (num \<circ> snd) (r_kids n))" by (rule member_le_sum_list) simp
  then show ?thesis by (simp add: num_sum [of n])
qed

lemma set_update: "set (AList.update c ch kids) \<subseteq> insert (c, ch) (set kids)"
  by (induction kids) auto

lemma set_update_distinct:
  "distinct (map fst kids) \<Longrightarrow> set (AList.update c ch kids) = insert (c, ch) {p \<in> set kids. fst p \<noteq> c}"
  by (induction kids) (auto simp: image_iff)

lemma keys_update: "fst ` set (AList.update c ch kids) = insert c (fst ` set kids)"
  using dom_update [of c ch kids] by (simp add: dom_map_of_conv_image_fst)

lemma map_of_set: "distinct (map fst kids) \<Longrightarrow> map_of kids k = Some v \<longleftrightarrow> (k, v) \<in> set kids"
  by simp

text \<open>Replacing or adding one child.\<close>

lemma wf_with_kids:
  assumes "local_ok n" "\<And>k ch. (k, ch) \<in> set (r_kids n) \<Longrightarrow> wf_node ch"
    and kid: "c \<noteq> []" "r_key ch' = c" "\<not> empty_node ch'" "wf_node ch'"
    and first: "first_ok first (AList.update c ch' (r_kids n))"
    and num: "num' = of_nat (num (RNode key first (AList.update c ch' (r_kids n)) e num'))"
  shows "wf_node (RNode key first (AList.update c ch' (r_kids n)) e num')"
proof (rule wf_node.intros)
  have d: "distinct (map fst (AList.update c ch' (r_kids n)))"
    using assms(1) by (simp add: local_ok_def distinct_update)
  show "local_ok (RNode key first (AList.update c ch' (r_kids n)) e num')"
    using assms d set_update [of c ch' "r_kids n"]
    by (auto simp: local_ok_def keys_update)
  show "wf_node ch" if "ch \<in> snd ` set (r_kids (RNode key first (AList.update c ch' (r_kids n)) e num'))" for ch
    using that assms(2) kid(4) set_update [of c ch' "r_kids n"] by auto
qed

lemma insert_at_num:
  "insert_at p loc n = (None, n') \<Longrightarrow> wf_node n \<Longrightarrow> [] \<notin> set p \<Longrightarrow> num n' = Suc (num n)"
proof (induction p arbitrary: n n')
  case Nil
  then show ?case by (auto simp: SetEntry_def num_sum split: if_splits)
next
  case (Cons c p)
  have d: "distinct (map fst (r_kids n))" using wf_nodeD(1) [OF Cons.prems(2)] by (simp add: local_ok_def)
  show ?case
  proof (cases "GetChild c n")
    case None
    then obtain ch' where ch': "insert_at p loc (RNewNode c) = (None, ch')"
        "n' = count_up (with_child c ch' (AddChild (RNewNode c) n))"
      using Cons.prems by (auto split: prod.splits option.splits)
    have "wf_node (RNewNode c)"
      by (subst wf_node_simp) (simp add: RNewNode_def local_ok_def first_ok_def num.simps)
    then have "num ch' = Suc (num (RNewNode c))" using Cons ch'(1) by auto
    moreover have "num (RNewNode c) = 0" by (simp add: RNewNode_def num.simps)
    moreover have "map_of (r_kids n) c = None" using None Cons.prems by (auto simp: GetChild_def split: if_splits)
    moreover have "c \<noteq> []" using Cons.prems(3) by auto
    ultimately show ?thesis
      using sum_update_nat [OF d, of c ch'] unfolding ch'(2) num_sum [of n] num_sum [of "count_up _"] by simp
  next
    case (Some ch)
    then obtain ch' where ch': "insert_at p loc ch = (None, ch')" "n' = count_up (with_child c ch' n)"
      using Cons.prems by (auto split: prod.splits option.splits)
    have "map_of (r_kids n) c = Some ch" using Some by (simp add: GetChild_def split: if_splits)
    moreover from this have "wf_node ch" using wf_nodeD(2) [OF Cons.prems(2)] map_of_SomeD by metis
    then have "num ch' = Suc (num ch)" using Cons ch'(1) by auto
    ultimately show ?thesis
      using sum_update_nat [OF d, of c ch'] Cons.prems(3)
      unfolding ch'(2) num_sum [of n] num_sum [of "count_up _"] by auto
  qed
qed

lemma r_key_simps [simp]:
  "r_key (count_up n) = r_key n" "r_key (count_down n) = r_key n" "r_key (with_child c ch n) = r_key n"
  "r_key (AddChild ch n) = r_key n" "r_key (RemoveChild c n) = r_key n" "r_key (RNewNode c) = c"
  by (simp_all add: count_up_def count_down_def with_child_def AddChild_def updateSubtreeCount_def
      RemoveChild_def RNewNode_def Let_def)

lemma r_first_simps [simp]:
  "r_first (count_up n) = r_first n" "r_first (count_down n) = r_first n" "r_first (with_child c ch n) = r_first n"
  by (simp_all add: count_up_def count_down_def with_child_def)

lemma r_count_simps [simp]:
  "r_count (count_up n) = r_count n + 1" "r_count (with_child c ch n) = r_count n" "r_count (RNewNode c) = 0"
  by (simp_all add: count_up_def with_child_def RNewNode_def)

lemma sum_of_nat: "sum_list (map (of_nat \<circ> f) xs) = of_nat (sum_list (map f xs))"
  by (induction xs) simp_all

lemma count_sum:
  assumes "wf_node n"
  shows "(if r_entry n = None then 0 else 1) + sum_list (map (r_count \<circ> snd) (r_kids n)) = of_nat (num n)"
proof -
  have eq: "map (r_count \<circ> snd) (r_kids n) = map (of_nat \<circ> (num \<circ> snd)) (r_kids n)"
    using wf_nodeD(1) [OF wf_nodeD(2) [OF assms]] by (auto simp: local_ok_def)
  have "sum_list (map (r_count \<circ> snd) (r_kids n)) = of_nat (sum_list (map (num \<circ> snd) (r_kids n)))"
    unfolding eq by (rule sum_of_nat)
  then show ?thesis by (simp add: num_sum [of n])
qed

lemma r_count_AddChild:
  assumes "wf_node n" "c \<noteq> []" "map_of (r_kids n) c = None"
  shows "r_count (AddChild (RNewNode c) n) = r_count n"
proof -
  have d: "distinct (map fst (r_kids n))" and r: "r_count n = of_nat (num n)"
    using wf_nodeD(1) [OF assms(1)] by (simp_all add: local_ok_def)
  have "r_count (AddChild (RNewNode c) n) =
      (if r_entry n = None then 0 else 1) + sum_list (map (r_count \<circ> snd) (AList.update c (RNewNode c) (r_kids n)))"
    using assms(2) by (simp add: AddChild_def updateSubtreeCount_def Let_def RNewNode_def)
  then show ?thesis
    using sum_update [OF d, of r_count c "RNewNode c"] assms(3) count_sum [OF assms(1)] r by simp
qed

lemma map_of_first_AddChild:
  "c \<noteq> [] \<Longrightarrow> map_of (r_first (AddChild (RNewNode c) n)) fb =
     (if map_of (r_first n) fb = None \<and> fb = hd c then Some c else map_of (r_first n) fb)"
  by (simp add: AddChild_def updateSubtreeCount_def RNewNode_def Let_def update_conv' split: option.split)

lemma first_ok_AddChild:
  assumes "first_ok (r_first n) (r_kids n)" "c \<noteq> []"
  shows "first_ok (r_first (AddChild (RNewNode c) n)) (AList.update c ch' (r_kids n))"
  unfolding first_ok_def map_of_first_AddChild [OF assms(2)] keys_update
proof (intro conjI allI ballI impI)
  fix fb k
  assume "(if map_of (r_first n) fb = None \<and> fb = hd c then Some c else map_of (r_first n) fb) = Some k"
  then show "k \<in> insert c (fst ` set (r_kids n))" "hd k = fb"
    using assms(1) unfolding first_ok_def by (metis insertI1 insertI2 option.inject)+
next
  fix k
  assume "k \<in> insert c (fst ` set (r_kids n))"
  then show "(if map_of (r_first n) (hd k) = None \<and> hd k = hd c then Some c else map_of (r_first n) (hd k)) \<noteq> None"
    using assms(1) unfolding first_ok_def by (cases "k = c") auto
qed

lemma insert_at_wf:
  "insert_at p loc n = (None, n') \<Longrightarrow> wf_node n \<Longrightarrow> [] \<notin> set p \<Longrightarrow>
     wf_node n' \<and> \<not> empty_node n' \<and> r_key n' = r_key n"
proof (induction p arbitrary: n n')
  case Nil
  then have n': "n' = RNode (r_key n) (r_first n) (r_kids n) (Some loc) (r_count n + 1)" "r_entry n = None"
    by (auto simp: SetEntry_def split: if_splits)
  moreover have "num n' = Suc (num n)" using insert_at_num [OF Nil.prems] .
  ultimately show ?case
    using wf_nodeD(1) [OF Nil.prems(2)] wf_nodeD(2) [OF Nil.prems(2)]
    by (subst wf_node_simp) (auto simp: local_ok_def empty_node_def)
next
  case (Cons c p)
  have c: "c \<noteq> []" using Cons.prems(3) by auto
  have local: "local_ok n" and kids: "\<And>k ch. (k, ch) \<in> set (r_kids n) \<Longrightarrow> wf_node ch"
    using wf_nodeD [OF Cons.prems(2)] by auto
  have num: "num n' = Suc (num n)" using insert_at_num [OF Cons.prems] .
  show ?case
  proof (cases "GetChild c n")
    case None
    then obtain ch' where ch': "insert_at p loc (RNewNode c) = (None, ch')"
        "n' = count_up (with_child c ch' (AddChild (RNewNode c) n))"
      using Cons.prems c by (auto split: prod.splits option.splits)
    have "wf_node (RNewNode c)"
      by (subst wf_node_simp) (simp add: RNewNode_def local_ok_def first_ok_def num.simps)
    then have ok: "wf_node ch' \<and> \<not> empty_node ch' \<and> r_key ch' = c" using Cons ch'(1) by auto
    have eq: "n' = RNode (r_key n) (r_first (AddChild (RNewNode c) n)) (AList.update c ch' (r_kids n)) (r_entry n) (r_count n + 1)"
      using r_count_AddChild [OF Cons.prems(2) c] None c unfolding ch'(2)
      by (intro rnode.expand) (simp add: GetChild_def)
    have cnt: "r_count n + 1 = of_nat (num (RNode (r_key n) (r_first (AddChild (RNewNode c) n))
        (AList.update c ch' (r_kids n)) (r_entry n) (r_count n + 1)))"
      using num local unfolding eq by (simp add: local_ok_def)
    have "first_ok (r_first n) (r_kids n)" using local by (simp add: local_ok_def)
    then have "wf_node n'"
      unfolding eq using ok c by (intro wf_with_kids [OF local kids] first_ok_AddChild cnt) simp_all
    with c show ?thesis by (simp add: ch'(2) empty_node_def update_nonempty)
  next
    case (Some ch)
    then obtain ch' where ch': "insert_at p loc ch = (None, ch')" "n' = count_up (with_child c ch' n)"
      using Cons.prems c by (auto split: prod.splits option.splits)
    have mem: "(c, ch) \<in> set (r_kids n)" using Some by (auto simp: GetChild_def split: if_splits dest: map_of_SomeD)
    then have ok: "wf_node ch' \<and> \<not> empty_node ch' \<and> r_key ch' = c"
      using Cons.IH [OF ch'(1) kids] Cons.prems local by (auto simp: local_ok_def)
    have eq: "n' = RNode (r_key n) (r_first n) (AList.update c ch' (r_kids n)) (r_entry n) (r_count n + 1)"
      using c unfolding ch'(2) by (intro rnode.expand) simp
    have cnt: "r_count n + 1 = of_nat (num (RNode (r_key n) (r_first n) (AList.update c ch' (r_kids n)) (r_entry n)
        (r_count n + 1)))"
      using num local unfolding eq by (simp add: local_ok_def)
    have keys: "fst ` set (AList.update c ch' (r_kids n)) = fst ` set (r_kids n)"
      using mem by (force simp: keys_update)
    have "first_ok (r_first n) (AList.update c ch' (r_kids n))"
      using local by (simp add: local_ok_def first_ok_def keys)
    then have "wf_node n'"
      unfolding eq using ok c by (intro wf_with_kids [OF local kids] cnt) simp_all
    with c show ?thesis by (simp add: ch'(2) empty_node_def update_nonempty)
  qed
qed

section \<open>Deletion\<close>

lemma delete_at_error:
  "fst (delete_at p n) = (if lookup p n = None then Some RadixEntryNotFound else None)"
  "fst (delete_at p n) \<noteq> None \<Longrightarrow> snd (delete_at p n) = n"
proof (induction p arbitrary: n)
  case Nil
  { case 1 then show ?case by simp }
  { case 2 then show ?case by (auto split: if_splits) }
next
  case (Cons c p)
  { case 1 show ?case
      using Cons.IH(1) [of "the (GetChild c n)"]
      by (auto simp: Let_def split: option.splits prod.splits if_splits) }
  { case 2 then show ?case by (auto simp: Let_def split: option.splits prod.splits if_splits) }
qed

lemma sum_delete:
  "distinct (map fst kids) \<Longrightarrow> map_of kids c = Some ch \<Longrightarrow>
     sum_list (map (num \<circ> snd) (AList.delete c kids)) + num ch = sum_list (map (num \<circ> snd) kids)"
proof (induction kids)
  case (Cons x kids)
  have "fst x = c \<Longrightarrow> AList.delete c kids = kids" using Cons.prems(1) by (auto simp: delete_id image_iff)
  with Cons show ?case by (auto split: if_splits)
qed simp

lemma delete_update: "AList.delete c (AList.update c x kids) = AList.delete c kids"
  by (induction kids) auto

lemma set_delete: "set (AList.delete c kids) = {p \<in> set kids. fst p \<noteq> c}"
  by (induction kids) auto

text \<open>The map by first byte after the removal of a child.\<close>

definition first_after :: "bytes \<Rightarrow> (byte \<times> bytes) list \<Rightarrow> (bytes \<times> rnode) list \<Rightarrow> (byte \<times> bytes) list" where
  "first_after c first kids =
     (if map_of first (hd c) = Some c
      then (case filter (\<lambda>k. k \<noteq> [] \<and> hd k = hd c) (map fst kids) of
              k # _ \<Rightarrow> AList.update (hd c) k (AList.delete (hd c) first)
            | [] \<Rightarrow> AList.delete (hd c) first)
      else first)"

lemma first_after_other: "fb \<noteq> hd c \<Longrightarrow> map_of (first_after c first kids) fb = map_of first fb"
  by (simp add: first_after_def update_conv' delete_conv' split: list.split)

lemma first_after_keep: "map_of first (hd c) \<noteq> Some c \<Longrightarrow> first_after c first kids = first"
  by (simp add: first_after_def)

lemma first_after_same:
  "map_of first (hd c) = Some c \<Longrightarrow>
     map_of (first_after c first kids) (hd c) =
       (case filter (\<lambda>k. k \<noteq> [] \<and> hd k = hd c) (map fst kids) of k # _ \<Rightarrow> Some k | [] \<Rightarrow> None)"
  by (simp add: first_after_def update_conv' delete_conv' split: list.split)

lemma first_after_ok:
  assumes "first_ok first kids" "[] \<notin> fst ` set kids"
  shows "first_ok (first_after c first (AList.delete c kids)) (AList.delete c kids)"
proof -
  let ?kids = "AList.delete c kids" and ?first = "first_after c first (AList.delete c kids)"
  have keys: "fst ` set ?kids = fst ` set kids - {c}" by (auto simp: set_delete)
  have same: "\<exists>k. map_of ?first (hd c) = Some k \<and> k \<in> fst ` set ?kids \<and> hd k = hd c"
    if "map_of first (hd c) = Some c" "k' \<in> fst ` set ?kids" "hd k' = hd c" for k'
  proof -
    let ?ks = "filter (\<lambda>k. k \<noteq> [] \<and> hd k = hd c) (map fst ?kids)"
    have "k' \<noteq> []" using that(2) assms(2) keys by (metis DiffD1)
    with that have "k' \<in> set ?ks" by simp
    then obtain k ks where ks: "?ks = k # ks" by (cases ?ks) auto
    have "k \<in> set ?ks" unfolding ks by simp
    then have "k \<in> fst ` set ?kids" "hd k = hd c" by (simp_all only: set_filter list.set_map mem_Collect_eq)
    moreover have "map_of ?first (hd c) = Some k"
      unfolding first_after_same [OF that(1)] ks by simp
    ultimately show ?thesis by blast
  qed
  have none: "map_of ?first (hd c) = None \<or> (\<exists>k. map_of ?first (hd c) = Some k \<and> k \<in> fst ` set ?kids \<and> hd k = hd c)"
    if "map_of first (hd c) = Some c"
  proof (cases "filter (\<lambda>k. k \<noteq> [] \<and> hd k = hd c) (map fst ?kids)")
    case (Cons k ks)
    have "k \<in> set (filter (\<lambda>k. k \<noteq> [] \<and> hd k = hd c) (map fst ?kids))" unfolding Cons by simp
    then have "k \<in> fst ` set ?kids" "hd k = hd c" by (simp_all only: set_filter list.set_map mem_Collect_eq)
    moreover have "map_of ?first (hd c) = Some k"
      unfolding first_after_same [OF that] Cons by simp
    ultimately show ?thesis by blast
  qed (simp add: first_after_same [OF that])
  show ?thesis
    unfolding first_ok_def
  proof (intro conjI allI ballI impI)
    fix fb k
    assume k: "map_of ?first fb = Some k"
    have "k \<in> fst ` set ?kids \<and> hd k = fb"
    proof (cases "fb = hd c \<and> map_of first (hd c) = Some c")
      case True
      with none k show ?thesis by auto
    next
      case False
      then have "map_of first fb = Some k" using k first_after_other by (auto simp: first_after_def)
      with False assms(1) keys show ?thesis by (auto simp: first_ok_def)
    qed
    then show "k \<in> fst ` set ?kids" "hd k = fb" by auto
  next
    fix k
    assume k: "k \<in> fst ` set ?kids"
    then have "map_of first (hd k) \<noteq> None" using assms(1) keys by (auto simp: first_ok_def)
    moreover have "map_of ?first (hd k) \<noteq> None" if "hd k = hd c" "map_of first (hd c) = Some c"
      using same [OF that(2) k that(1)] that(1) by auto
    ultimately show "map_of ?first (hd k) \<noteq> None"
      by (cases "hd k = hd c"; cases "map_of first (hd c) = Some c")
        (simp_all add: first_after_other first_after_keep)
  qed
qed

lemma RemoveChild_eq:
  "c \<noteq> [] \<Longrightarrow> map_of (r_kids n) c \<noteq> None \<Longrightarrow>
     RemoveChild c n = updateSubtreeCount (RNode (r_key n) (first_after c (r_first n) (AList.delete c (r_kids n)))
       (AList.delete c (r_kids n)) (r_entry n) (r_count n))"
  by (auto simp: RemoveChild_def first_after_def Let_def)

lemma wf_RNode:
  assumes "distinct (map fst kids)" "[] \<notin> fst ` set kids"
    "\<And>k ch. (k, ch) \<in> set kids \<Longrightarrow> r_key ch = k \<and> \<not> empty_node ch \<and> wf_node ch"
    "first_ok first kids"
    "cnt = (if e = None then 0 else 1) + sum_list (map (r_count \<circ> snd) kids)"
  shows "wf_node (RNode key first kids e cnt)"
proof (rule wf_node.intros)
  have eq: "map (r_count \<circ> snd) kids = map (of_nat \<circ> (num \<circ> snd)) kids"
    using wf_nodeD(1) assms(3) by (fastforce simp: local_ok_def)
  have "sum_list (map (r_count \<circ> snd) kids) = of_nat (sum_list (map (num \<circ> snd) kids))"
    unfolding eq by (rule sum_of_nat)
  then have "cnt = of_nat (num (RNode key first kids e cnt))"
    by (simp add: assms(5) num_sum [of "RNode _ _ _ _ _"])
  with assms show "local_ok (RNode key first kids e cnt)"
    unfolding local_ok_def by auto
  show "wf_node ch" if "ch \<in> snd ` set (r_kids (RNode key first kids e cnt))" for ch
    using that assms(3) by auto
qed

lemma wf_RemoveChild:
  assumes "local_ok n" "\<And>k ch. (k, ch) \<in> set (r_kids n) \<Longrightarrow> k \<noteq> c \<Longrightarrow> wf_node ch"
    and "c \<noteq> []" "map_of (r_kids m) c \<noteq> None" "AList.delete c (r_kids m) = AList.delete c (r_kids n)"
    "r_first m = r_first n"
  shows "wf_node (RemoveChild c m)"
  unfolding RemoveChild_eq [OF assms(3,4)] updateSubtreeCount_def assms(5,6) rnode.sel
proof (rule wf_RNode)
  have local: "distinct (map fst (r_kids n))" "[] \<notin> fst ` set (r_kids n)" "first_ok (r_first n) (r_kids n)"
      "\<forall>(k, ch) \<in> set (r_kids n). r_key ch = k \<and> \<not> empty_node ch"
    using assms(1) by (simp_all add: local_ok_def)
  show "distinct (map fst (AList.delete c (r_kids n)))" using local(1) by (rule distinct_delete)
  show "[] \<notin> fst ` set (AList.delete c (r_kids n))" using local(2) by (auto simp: set_delete)
  show "first_ok (first_after c (r_first n) (AList.delete c (r_kids n))) (AList.delete c (r_kids n))"
    using local by (intro first_after_ok)
  fix k ch
  assume "(k, ch) \<in> set (AList.delete c (r_kids n))"
  with local(4) assms(2) show "r_key ch = k \<and> \<not> empty_node ch \<and> wf_node ch"
    by (auto simp: set_delete)
qed simp

lemma not_empty_iff: "wf_node n \<Longrightarrow> \<not> empty_node n \<longleftrightarrow> r_entry n \<noteq> None \<or> r_first n \<noteq> []"
  using first_ok_empty [of "r_first n" "r_kids n"] wf_nodeD(1) [of n]
  by (auto simp: empty_node_def local_ok_def)

lemma count_down_count:
  assumes "wf_node n" "0 < num n" "num n < 2 ^ 32"
  shows "r_count (count_down n) = of_nat (num n - 1)"
proof -
  have r: "r_count n = of_nat (num n)" using wf_nodeD(1) [OF assms(1)] by (simp add: local_ok_def)
  have "unat (of_nat (num n) :: uint32) = num n"
    using assms(3) by (simp add: unat_of_nat take_bit_nat_eq_self)
  then have "1 \<le> r_count n" using assms(2) r by (simp add: word_le_nat_alt)
  with r assms(2) show ?thesis by (simp add: count_down_def)
qed

lemma delete_at_wf:
  "delete_at p n = (None, n') \<Longrightarrow> wf_node n \<Longrightarrow> num n < 2 ^ 32 \<Longrightarrow> [] \<notin> set p \<Longrightarrow>
     wf_node n' \<and> r_key n' = r_key n \<and> Suc (num n') = num n"
proof (induction p arbitrary: n n')
  case Nil
  then have n': "n' = RNode (r_key n) (r_first n) (r_kids n) None (r_count n - 1)" "r_entry n \<noteq> None"
    by (auto simp: ClearEntry_def split: if_splits)
  have num: "num n = Suc (num n')" using n'(2) unfolding n'(1) num_sum [of n] num_sum [of "RNode _ _ _ _ _"] by simp
  have local: "local_ok n" using wf_nodeD(1) [OF Nil.prems(2)] .
  then have "r_count n - 1 = of_nat (num n')" using num by (simp add: local_ok_def)
  with local have "local_ok n'" unfolding local_ok_def by (simp add: n'(1))
  moreover have "wf_node ch" if "ch \<in> snd ` set (r_kids n')" for ch
    using that wf_nodeD(2) [OF Nil.prems(2)] by (auto simp: n'(1))
  ultimately have "wf_node n'" by (rule wf_node.intros)
  with num show ?case by (simp add: n'(1))
next
  case (Cons c p)
  have c: "c \<noteq> []" using Cons.prems(4) by auto
  have local: "local_ok n" and kids: "\<And>k ch. (k, ch) \<in> set (r_kids n) \<Longrightarrow> wf_node ch"
    using wf_nodeD [OF Cons.prems(2)] by auto
  then have d: "distinct (map fst (r_kids n))" by (simp add: local_ok_def)
  obtain ch ch' where ch: "GetChild c n = Some ch" "delete_at p ch = (None, ch')"
    using Cons.prems(1) by (auto simp: Let_def split: option.splits prod.splits)
  have mem: "map_of (r_kids n) c = Some ch" "(c, ch) \<in> set (r_kids n)"
    using ch(1) c by (auto simp: GetChild_def dest: map_of_SomeD)
  have ok: "wf_node ch'" "r_key ch' = c" "Suc (num ch') = num ch"
    using Cons.IH [OF ch(2) kids [OF mem(2)]] num_child_le [OF mem(2)] Cons.prems(3,4) local mem(2)
    by (auto simp: local_ok_def)
  have num: "sum_list (map (num \<circ> snd) (AList.update c ch' (r_kids n))) + num ch =
      sum_list (map (num \<circ> snd) (r_kids n)) + num ch'"
    using sum_update_nat [OF d, of c ch'] mem(1) by simp
  show ?case
  proof (cases "empty_node ch'")
    case False
    then have n': "n' = count_down (with_child c ch' n)"
      using Cons.prems(1) ch not_empty_iff [OF ok(1)] by (auto simp: Let_def split: if_splits)
    have s: "Suc (num n') = num n" using num ok(3) c by (simp add: n' num_sum [of n] num_sum [of "count_down _"])
    then have pos: "0 < num n" by simp
    have "r_count n' = r_count (count_down n)" by (simp add: n' count_down_def with_child_def)
    also have "\<dots> = of_nat (num n - 1)" by (rule count_down_count [OF Cons.prems(2) pos Cons.prems(3)])
    finally have "r_count n' = of_nat (num n - 1)" .
    then have cnt: "r_count n' = of_nat (num n')" using s by (metis diff_Suc_1)
    have eq: "n' = RNode (r_key n) (r_first n) (AList.update c ch' (r_kids n)) (r_entry n) (r_count n')"
      using c by (intro rnode.expand) (simp add: n')
    have "fst ` set (AList.update c ch' (r_kids n)) = fst ` set (r_kids n)"
      using mem(2) by (force simp: keys_update)
    then have first: "first_ok (r_first n) (AList.update c ch' (r_kids n))"
      using local by (simp add: local_ok_def first_ok_def)
    have cnt': "r_count n' = of_nat (num (RNode (r_key n) (r_first n) (AList.update c ch' (r_kids n))
        (r_entry n) (r_count n')))"
      unfolding eq [symmetric] by (rule cnt)
    have "wf_node n'"
      by (subst eq, rule wf_with_kids [OF local kids c ok(2) False ok(1) first cnt'])
    with s show ?thesis by (simp add: n')
  next
    case True
    then have n': "n' = RemoveChild c (count_down (with_child c ch' n))"
      using Cons.prems(1) ch not_empty_iff [OF ok(1)] by (auto simp: Let_def split: if_splits)
    have "num ch' = 0" using True by (simp add: empty_node_def num_sum)
    moreover have "r_kids n' = AList.delete c (r_kids n)" "r_entry n' = r_entry n" "r_key n' = r_key n"
      using c by (simp_all add: n' RemoveChild_eq updateSubtreeCount_def delete_update update_conv')
    ultimately have "Suc (num n') = num n"
      using sum_delete [OF d mem(1)] ok(3) num_sum [of n] num_sum [of n'] by simp
    moreover have "wf_node n'"
      unfolding n' using c
      by (intro wf_RemoveChild [OF local kids c]) (simp_all add: delete_update update_conv')
    ultimately show ?thesis using \<open>r_key n' = r_key n\<close> by simp
  qed
qed

lemma delete_at_lookup:
  "delete_at p n = (None, n') \<Longrightarrow> wf_node n \<Longrightarrow> num n < 2 ^ 32 \<Longrightarrow> [] \<notin> set p \<Longrightarrow>
     lookup q n' = (if q = p then None else lookup q n)"
proof (induction p arbitrary: n n' q)
  case Nil
  then show ?case by (cases q) (auto simp: ClearEntry_def GetChild_def split: if_splits)
next
  case (Cons c p)
  have c: "c \<noteq> []" using Cons.prems(4) by auto
  have local: "local_ok n" by (rule wf_nodeD(1) [OF Cons.prems(2)])
  obtain ch ch' where ch: "GetChild c n = Some ch" "delete_at p ch = (None, ch')"
    using Cons.prems(1) by (auto simp: Let_def split: option.splits prod.splits)
  have mem: "(c, ch) \<in> set (r_kids n)"
    using ch(1) c by (auto simp: GetChild_def dest: map_of_SomeD)
  have wf: "wf_node ch" "num ch < 2 ^ 32" "[] \<notin> set p"
    using wf_nodeD(2) [OF Cons.prems(2) mem] num_child_le [OF mem] Cons.prems(3,4) by auto
  have IH: "lookup r ch' = (if r = p then None else lookup r ch)" for r by (rule Cons.IH [OF ch(2) wf])
  have wf': "wf_node ch'" using delete_at_wf [OF ch(2) wf] by simp
  have kid: "(case GetChild k n' of None \<Rightarrow> None | Some m \<Rightarrow> lookup r m) =
      (if k = c then lookup r ch' else case GetChild k n of None \<Rightarrow> None | Some m \<Rightarrow> lookup r m)" for k r
  proof (cases "empty_node ch'")
    case True
    then have "n' = RemoveChild c (count_down (with_child c ch' n))"
      using Cons.prems(1) ch not_empty_iff [OF wf'] by (auto simp: Let_def split: if_splits)
    moreover have "distinct (map fst (r_kids (count_down (with_child c ch' n))))"
      using local c by (simp add: local_ok_def distinct_update)
    ultimately have "GetChild k n' = (if k = c then None else GetChild k n)"
      using c by (simp add: GetChild_RemoveChild)
    moreover have "lookup r ch' = None" using True by (simp add: empty_node_def lookup_empty)
    ultimately show ?thesis by simp
  next
    case False
    then have "n' = count_down (with_child c ch' n)"
      using Cons.prems(1) ch not_empty_iff [OF wf'] by (auto simp: Let_def split: if_splits)
    with c show ?thesis by simp
  qed
  have "r_entry n' = r_entry n"
    using Cons.prems(1) ch by (auto simp: Let_def split: if_splits)
  then show ?case by (cases q) (auto simp: kid IH ch(1))
qed

section \<open>Update\<close>

lemma update_at_error:
  "fst (update_at p loc n) = (if lookup p n = None then Some RadixEntryNotFound else None)"
  "fst (update_at p loc n) \<noteq> None \<Longrightarrow> snd (update_at p loc n) = n"
proof (induction p arbitrary: n)
  case (Cons c p)
  { case 1 show ?case
      using Cons.IH(1) [of "the (GetChild c n)"] by (auto split: option.splits prod.splits if_splits) }
  { case 2 then show ?case by (auto split: option.splits prod.splits if_splits) }
qed (auto split: if_splits)

lemma update_at_lookup:
  "update_at p loc n = (None, n') \<Longrightarrow> [] \<notin> set p \<Longrightarrow> lookup q n' = (if q = p then Some loc else lookup q n)"
proof (induction p arbitrary: n n' q)
  case Nil
  then show ?case by (cases q) (auto simp: GetChild_def split: if_splits)
next
  case (Cons c p)
  then show ?case
    by (cases q) (auto split: option.splits prod.splits if_splits)
qed

lemma update_at_wf:
  "update_at p loc n = (None, n') \<Longrightarrow> wf_node n \<Longrightarrow> [] \<notin> set p \<Longrightarrow>
     wf_node n' \<and> r_key n' = r_key n \<and> num n' = num n \<and> \<not> empty_node n'"
proof (induction p arbitrary: n n')
  case Nil
  then have n': "n' = RNode (r_key n) (r_first n) (r_kids n) (Some loc) (r_count n)" "r_entry n \<noteq> None"
    by (auto split: if_splits)
  have num: "num n' = num n" using n'(2) by (simp add: n'(1) num_sum [of n] num_sum [of "RNode _ _ _ _ _"])
  have "local_ok n'" using wf_nodeD(1) [OF Nil.prems(2)] num unfolding local_ok_def by (simp add: n'(1))
  moreover have "wf_node ch" if "ch \<in> snd ` set (r_kids n')" for ch
    using that wf_nodeD(2) [OF Nil.prems(2)] by (auto simp: n'(1))
  ultimately have "wf_node n'" by (rule wf_node.intros)
  with num show ?case by (simp add: n'(1) empty_node_def)
next
  case (Cons c p)
  have c: "c \<noteq> []" using Cons.prems(3) by auto
  have local: "local_ok n" and kids: "\<And>k ch. (k, ch) \<in> set (r_kids n) \<Longrightarrow> wf_node ch"
    using wf_nodeD [OF Cons.prems(2)] by auto
  obtain ch ch' where ch: "GetChild c n = Some ch" "update_at p loc ch = (None, ch')" "n' = with_child c ch' n"
    using Cons.prems(1) by (auto split: option.splits prod.splits)
  have mem: "map_of (r_kids n) c = Some ch" "(c, ch) \<in> set (r_kids n)"
    using ch(1) c by (auto simp: GetChild_def dest: map_of_SomeD)
  have ok: "wf_node ch'" "r_key ch' = c" "num ch' = num ch" "\<not> empty_node ch'"
    using Cons.IH [OF ch(2) kids [OF mem(2)]] Cons.prems(3) local mem(2) by (auto simp: local_ok_def)
  have num: "num n' = num n"
    using sum_update_nat [of "r_kids n" c ch'] local mem(1) ok(3) c
    by (simp add: ch(3) num_sum [of n] num_sum [of "with_child _ _ _"] local_ok_def)
  have eq: "n' = RNode (r_key n) (r_first n) (AList.update c ch' (r_kids n)) (r_entry n) (r_count n)"
    using c by (simp add: ch(3) with_child_def)
  have "fst ` set (AList.update c ch' (r_kids n)) = fst ` set (r_kids n)"
    using mem(2) by (force simp: keys_update)
  then have first: "first_ok (r_first n) (AList.update c ch' (r_kids n))"
    using local by (simp add: local_ok_def first_ok_def)
  have cnt: "r_count n = of_nat (num (RNode (r_key n) (r_first n) (AList.update c ch' (r_kids n))
      (r_entry n) (r_count n)))"
    unfolding eq [symmetric] num using local by (simp add: local_ok_def)
  have "wf_node n'"
    by (subst eq, rule wf_with_kids [OF local kids c ok(2) ok(4) ok(1) first cnt])
  with num show ?case by (simp add: eq empty_node_def update_nonempty)
qed

end
