(* ===== verification/Radix_Index.thy ===== *)
theory Radix_Index
  imports Radix_Props
begin

text \<open>
  The DN tree as an index: the enumeration of a subtree, the contract of an index of paths with
  its refinement of a finite map, and the properties of the tree under any sequence of operations.
\<close>

section \<open>Enumeration\<close>

lemma GetChild_kid:
  assumes "local_ok n" "(k, ch) \<in> set (r_kids n)"
  shows "GetChild k n = Some ch" "r_key ch = k" "\<not> empty_node ch"
proof -
  have "distinct (map fst (r_kids n))" "[] \<notin> fst ` set (r_kids n)" using assms(1) by (simp_all add: local_ok_def)
  moreover have "k \<in> fst ` set (r_kids n)" using assms(2) by (rule image_eqI [rotated]) simp
  ultimately have "k \<noteq> []" by metis
  with \<open>distinct (map fst (r_kids n))\<close> show "GetChild k n = Some ch" using assms(2) by (simp add: GetChild_def)
  show "r_key ch = k" "\<not> empty_node ch" using assms by (auto simp: local_ok_def)
qed

lemma iterate_node_set:
  "wf_node n \<Longrightarrow> set (iterate_node p n) = {(p @ q, loc) | q loc. lookup q n = Some loc}"
proof (induction p n rule: iterate_node.induct)
  case (1 p n)
  have local: "local_ok n" by (rule wf_nodeD(1) [OF 1(2)])
  then have d: "distinct (map fst (r_kids n))" and ne: "[] \<notin> fst ` set (r_kids n)" by (simp_all add: local_ok_def)
  note key = GetChild_kid(2) [OF local]
  have kid: "set (iterate_node (p @ [k]) ch) = {(p @ k # q, loc) | q loc. lookup q ch = Some loc}"
    if "(k, ch) \<in> set (r_kids n)" for k ch
    using 1(1) [OF that refl wf_nodeD(2) [OF 1(2) that]] key [OF that] by simp
  have get: "GetChild k n = Some ch \<longleftrightarrow> (k, ch) \<in> set (r_kids n)" for k ch
    using d ne by (force simp: GetChild_def)
  have "set (iterate_node p n) =
      {(p, loc) | loc. r_entry n = Some loc} \<union>
      (\<Union>(k, ch) \<in> set (r_kids n). set (iterate_node (p @ [k]) ch))"
    by (subst iterate_node.simps) (auto simp: key split: option.splits)
  also have "\<dots> = {(p, loc) | loc. r_entry n = Some loc} \<union>
      (\<Union>(k, ch) \<in> set (r_kids n). {(p @ k # q, loc) | q loc. lookup q ch = Some loc})"
    using kid by auto
  also have "\<dots> = {(p @ q, loc) | q loc. lookup q n = Some loc}"
  proof (intro set_eqI iffI)
    fix x
    assume "x \<in> {(p @ q, loc) | q loc. lookup q n = Some loc}"
    then obtain q loc where x: "x = (p @ q, loc)" "lookup q n = Some loc" by auto
    show "x \<in> {(p, loc) | loc. r_entry n = Some loc} \<union>
        (\<Union>(k, ch) \<in> set (r_kids n). {(p @ k # q, loc) | q loc. lookup q ch = Some loc})"
    proof (cases q)
      case (Cons k r)
      then obtain ch where "(k, ch) \<in> set (r_kids n)" "lookup r ch = Some loc"
        using x(2) get by (auto split: option.splits)
      then show ?thesis unfolding x(1) Cons by blast
    qed (use x in simp)
  qed (auto simp: get [symmetric] intro: exI [of _ "[]"] exI [of _ "_ # _"])
  finally show ?case .
qed

lemma iterate_node_length: "length (iterate_node p n) = num n"
proof (induction p n rule: iterate_node.induct)
  case (1 p n)
  then have "map (length \<circ> (\<lambda>(k, ch). iterate_node (p @ [r_key ch]) ch)) (r_kids n) = map (num \<circ> snd) (r_kids n)"
    by (auto intro!: map_cong)
  then have "sum_list (map (length \<circ> (\<lambda>(k, ch). iterate_node (p @ [r_key ch]) ch)) (r_kids n)) =
      sum_list (map (num \<circ> snd) (r_kids n))" by (rule arg_cong)
  then show ?case
    by (subst iterate_node.simps) (simp add: num_sum [of n] length_concat split: option.splits)
qed

lemma distinct_concat_map:
  "distinct xs \<Longrightarrow> (\<And>x. x \<in> set xs \<Longrightarrow> distinct (f x)) \<Longrightarrow>
     (\<And>x y z. x \<in> set xs \<Longrightarrow> y \<in> set xs \<Longrightarrow> z \<in> set (f x) \<Longrightarrow> z \<in> set (f y) \<Longrightarrow> x = y) \<Longrightarrow>
     distinct (concat (map f xs))"
proof (induction xs)
  case (Cons a xs)
  have "distinct (concat (map f xs))" by (rule Cons.IH) (use Cons.prems in auto)
  moreover have "set (f a) \<inter> set (concat (map f xs)) = {}" using Cons.prems(1) Cons.prems(3) [of a] by auto
  ultimately show ?case using Cons.prems(2) by simp
qed simp

lemma iterate_node_paths:
  assumes "wf_node n"
  shows "fst ` set (iterate_node p n) = {p @ q | q. lookup q n \<noteq> None}"
proof (intro set_eqI iffI)
  fix x
  assume "x \<in> {p @ q | q. lookup q n \<noteq> None}"
  then obtain q loc where "x = p @ q" "lookup q n = Some loc" by auto
  then have "(x, loc) \<in> set (iterate_node p n)" unfolding iterate_node_set [OF assms] by blast
  then show "x \<in> fst ` set (iterate_node p n)" by (rule image_eqI [rotated]) simp
qed (auto simp: iterate_node_set [OF assms])

lemma iterate_node_distinct: "wf_node n \<Longrightarrow> distinct (map fst (iterate_node p n))"
proof (induction p n rule: iterate_node.induct)
  case (1 p n)
  have local: "local_ok n" by (rule wf_nodeD(1) [OF 1(2)])
  let ?sub = "\<lambda>x. map fst (iterate_node (p @ [r_key (snd x)]) (snd x))"
  have kid: "distinct (?sub x)" "set (?sub x) = {p @ fst x # q | q. lookup q (snd x) \<noteq> None}"
    if "x \<in> set (r_kids n)" for x
  proof -
    obtain k ch where x: "x = (k, ch)" by (cases x)
    with that have mem: "(k, ch) \<in> set (r_kids n)" by simp
    show "distinct (?sub x)" using 1(1) [OF mem refl wf_nodeD(2) [OF 1(2) mem]] x by simp
    have "r_key ch = k" by (rule GetChild_kid(2) [OF local mem])
    then show "set (?sub x) = {p @ fst x # q | q. lookup q (snd x) \<noteq> None}"
      using iterate_node_paths [OF wf_nodeD(2) [OF 1(2) mem], of "p @ [k]"] x by simp
  qed
  have d: "distinct (map fst (r_kids n))" using local by (simp add: local_ok_def)
  then have ds: "distinct (r_kids n)" "inj_on fst (set (r_kids n))" by (simp_all add: distinct_map)
  have "distinct (concat (map ?sub (r_kids n)))"
  proof (rule distinct_concat_map [OF ds(1) kid(1)])
    fix x y z
    assume xy: "x \<in> set (r_kids n)" "y \<in> set (r_kids n)" and z: "z \<in> set (?sub x)" "z \<in> set (?sub y)"
    then have "fst x = fst y" using kid(2) [OF xy(1)] kid(2) [OF xy(2)] by auto
    then show "x = y" using inj_onD [OF ds(2)] xy by blast
  qed
  moreover have "p \<notin> set (?sub x)" if "x \<in> set (r_kids n)" for x unfolding kid(2) [OF that] by simp
  then have "p \<notin> set (concat (map ?sub (r_kids n)))" by auto
  moreover have "map fst (iterate_node p n) =
      (case r_entry n of None \<Rightarrow> [] | Some loc \<Rightarrow> [p]) @ concat (map ?sub (r_kids n))"
    by (subst iterate_node.simps) (simp add: map_concat comp_def case_prod_unfold split: option.split)
  ultimately show ?case by (simp split: option.splits)
qed

lemma one_level_set:
  assumes "wf_node n"
  shows "set (one_level cs n) = {(cs @ [k], loc) | k loc. lookup [k] n = Some loc}"
proof -
  have local: "local_ok n" by (rule wf_nodeD(1) [OF assms])
  have "GetChild k n = Some ch \<longleftrightarrow> (k, ch) \<in> set (r_kids n)" for k ch
  proof
    assume "GetChild k n = Some ch"
    then show "(k, ch) \<in> set (r_kids n)" by (auto simp: GetChild_def split: if_splits dest: map_of_SomeD)
  qed (rule GetChild_kid(1) [OF local])
  moreover have "lookup [k] n = Some loc \<longleftrightarrow> (\<exists>ch. GetChild k n = Some ch \<and> r_entry ch = Some loc)" for k loc
    by (cases "GetChild k n") simp_all
  ultimately have look: "lookup [k] n = Some loc \<longleftrightarrow> (\<exists>ch. (k, ch) \<in> set (r_kids n) \<and> r_entry ch = Some loc)"
    for k loc by simp
  show ?thesis
  proof (intro set_eqI iffI)
    fix x
    assume "x \<in> set (one_level cs n)"
    then obtain k ch where kid: "(k, ch) \<in> set (r_kids n)"
        "x \<in> set (case r_entry ch of None \<Rightarrow> [] | Some loc \<Rightarrow> [(cs @ [r_key ch], loc)])"
      by (auto simp: one_level_def)
    then obtain loc where "r_entry ch = Some loc" "x = (cs @ [k], loc)"
      using GetChild_kid(2) [OF local kid(1)] by (cases "r_entry ch") auto
    with kid(1) show "x \<in> {(cs @ [k], loc) | k loc. lookup [k] n = Some loc}" unfolding look by blast
  next
    fix x
    assume "x \<in> {(cs @ [k], loc) | k loc. lookup [k] n = Some loc}"
    then obtain k ch loc where x: "x = (cs @ [k], loc)" and kid: "(k, ch) \<in> set (r_kids n)" "r_entry ch = Some loc"
      unfolding look by blast
    have "x \<in> set (case (k, ch) of (k, ch) \<Rightarrow> case r_entry ch of None \<Rightarrow> [] | Some loc \<Rightarrow> [(cs @ [r_key ch], loc)])"
      using x kid(2) GetChild_kid(2) [OF local kid(1)] by simp
    with kid(1) show "x \<in> set (one_level cs n)" unfolding one_level_def set_concat set_map by blast
  qed
qed

section \<open>The contract of an index\<close>

text \<open>An operation on the index, with the DN as the client gives it.\<close>

datatype index_op =
    OpInsert (op_dn: bytes) location
  | OpDelete (op_dn: bytes)
  | OpUpdate (op_dn: bytes) location

text \<open>What the operations promise: a finite map from paths to locations.\<close>

type_synonym path_map = "bytes list \<Rightarrow> location option"

definition map_insert :: "bytes list \<Rightarrow> location \<Rightarrow> path_map \<Rightarrow> radix_error option \<times> path_map" where
  "map_insert p loc m = (if m p = None then (None, m(p := Some loc)) else (Some RadixEntryExists, m))"

definition map_delete :: "bytes list \<Rightarrow> path_map \<Rightarrow> radix_error option \<times> path_map" where
  "map_delete p m = (if m p = None then (Some RadixEntryNotFound, m) else (None, m(p := None)))"

definition map_update :: "bytes list \<Rightarrow> location \<Rightarrow> path_map \<Rightarrow> radix_error option \<times> path_map" where
  "map_update p loc m = (if m p = None then (Some RadixEntryNotFound, m) else (None, m(p := Some loc)))"

text \<open>One operation and a sequence of them, over given insert, delete and update routines.\<close>

definition index_step ::
  "unicode \<Rightarrow> (bytes list \<Rightarrow> location \<Rightarrow> 't \<Rightarrow> radix_error option \<times> 't) \<Rightarrow>
     (bytes list \<Rightarrow> 't \<Rightarrow> radix_error option \<times> 't) \<Rightarrow>
     (bytes list \<Rightarrow> location \<Rightarrow> 't \<Rightarrow> radix_error option \<times> 't) \<Rightarrow>
     index_op \<Rightarrow> 't \<Rightarrow> radix_error option \<times> 't" where
  "index_step U ins del upd op t =
     (case Radix_ParseDN U (op_dn op) of
        Ok cs \<Rightarrow> (case op of OpInsert _ loc \<Rightarrow> ins cs loc t | OpDelete _ \<Rightarrow> del cs t | OpUpdate _ loc \<Rightarrow> upd cs loc t)
      | Fail e \<Rightarrow> (Some (RadixDN e), t)
      | Panic \<Rightarrow> (None, t))"

fun run_steps :: "('op \<Rightarrow> 't \<Rightarrow> 'r \<times> 't) \<Rightarrow> 'op list \<Rightarrow> 't \<Rightarrow> 'r list \<times> 't" where
  "run_steps f [] t = ([], t)"
| "run_steps f (op # ops) t = (let (r, t') = f op t; (rs, t'') = run_steps f ops t' in (r # rs, t''))"

locale path_index =
  fixes ok :: "'t \<Rightarrow> bool" and entries :: "'t \<Rightarrow> nat" and capacity :: nat
    and look :: "'t \<Rightarrow> path_map"
    and ins :: "bytes list \<Rightarrow> location \<Rightarrow> 't \<Rightarrow> radix_error option \<times> 't"
    and del :: "bytes list \<Rightarrow> 't \<Rightarrow> radix_error option \<times> 't"
    and upd :: "bytes list \<Rightarrow> location \<Rightarrow> 't \<Rightarrow> radix_error option \<times> 't"
  assumes ins_law: "ok t \<Longrightarrow> [] \<notin> set p \<Longrightarrow> ins p loc t = (e, t') \<Longrightarrow>
      ok t' \<and> map_insert p loc (look t) = (e, look t') \<and> entries t' \<le> Suc (entries t)"
    and del_law: "ok t \<Longrightarrow> [] \<notin> set p \<Longrightarrow> entries t < capacity \<Longrightarrow> del p t = (e, t') \<Longrightarrow>
      ok t' \<and> map_delete p (look t) = (e, look t') \<and> entries t' \<le> entries t"
    and upd_law: "ok t \<Longrightarrow> [] \<notin> set p \<Longrightarrow> upd p loc t = (e, t') \<Longrightarrow>
      ok t' \<and> map_update p loc (look t) = (e, look t') \<and> entries t' = entries t"
begin

lemma step_refines:
  assumes "ok t" "entries t < capacity" "index_step U ins del upd op t = (e, t')"
  shows "ok t' \<and> index_step U map_insert map_delete map_update op (look t) = (e, look t') \<and>
    entries t' \<le> Suc (entries t)"
proof (cases "Radix_ParseDN U (op_dn op)")
  case (Ok cs)
  note p = Radix_ParseDN_components(2) [OF Ok]
  show ?thesis
  proof (cases op)
    case (OpInsert dn loc)
    then show ?thesis using assms(3) Ok ins_law [OF assms(1) p] by (simp add: index_step_def)
  next
    case (OpDelete dn)
    then show ?thesis using assms(3) Ok del_law [OF assms(1) p assms(2)] by (auto simp: index_step_def intro: le_SucI)
  next
    case (OpUpdate dn loc)
    then show ?thesis using assms(3) Ok upd_law [OF assms(1) p] by (simp add: index_step_def)
  qed
qed (use assms in \<open>auto simp: index_step_def\<close>)

lemma run_refines:
  "ok t \<Longrightarrow> entries t + length ops < capacity \<Longrightarrow> run_steps (index_step U ins del upd) ops t = (rs, t') \<Longrightarrow>
     ok t' \<and> run_steps (index_step U map_insert map_delete map_update) ops (look t) = (rs, look t') \<and>
     entries t' \<le> entries t + length ops"
proof (induction ops arbitrary: t rs)
  case (Cons op ops)
  obtain e u where u: "index_step U ins del upd op t = (e, u)" by fastforce
  obtain rs' where rs: "run_steps (index_step U ins del upd) ops u = (rs', t')" "rs = e # rs'"
    using Cons.prems(3) u by (auto split: prod.splits)
  have s: "ok u \<and> index_step U map_insert map_delete map_update op (look t) = (e, look u) \<and>
      entries u \<le> Suc (entries t)"
    using step_refines [OF Cons.prems(1) _ u] Cons.prems(2) by simp
  with Cons.IH [OF _ _ rs(1)] Cons.prems(2) have
    "ok t' \<and> run_steps (index_step U map_insert map_delete map_update) ops (look u) = (rs', look t') \<and>
     entries t' \<le> entries u + length ops" by simp
  with s rs(2) show ?case by simp
qed simp

end

section \<open>The tree meets the contract\<close>

lemma insert_at_law:
  assumes "wf_node t" "[] \<notin> set p" "insert_at p loc t = (e, t')"
  shows "wf_node t' \<and> map_insert p loc (\<lambda>q. lookup q t) = (e, \<lambda>q. lookup q t') \<and> num t' \<le> Suc (num t)"
proof (cases e)
  case None
  with assms(3) have i: "insert_at p loc t = (None, t')" by simp
  have "lookup p t = None" using insert_at_error(1) [of p loc t] i by (simp split: if_splits)
  then show ?thesis
    using insert_at_wf [OF i assms(1,2)] insert_at_num [OF i assms(1,2)] insert_at_lookup [OF i assms(2)] None
    by (auto simp: map_insert_def)
next
  case (Some err)
  then show ?thesis
    using insert_at_error [of p loc t] assms by (auto simp: map_insert_def split: if_splits)
qed

lemma delete_at_law:
  assumes "wf_node t" "[] \<notin> set p" "num t < 2 ^ 32" "delete_at p t = (e, t')"
  shows "wf_node t' \<and> map_delete p (\<lambda>q. lookup q t) = (e, \<lambda>q. lookup q t') \<and> num t' \<le> num t"
proof (cases e)
  case None
  with assms(4) have d: "delete_at p t = (None, t')" by simp
  have "lookup p t \<noteq> None" using delete_at_error(1) [of p t] d by (simp split: if_splits)
  then show ?thesis
    using delete_at_wf [OF d assms(1,3,2)] delete_at_lookup [OF d assms(1,3,2)] None
    by (auto simp: map_delete_def)
next
  case (Some err)
  then show ?thesis
    using delete_at_error [of p t] assms by (auto simp: map_delete_def split: if_splits)
qed

lemma update_at_law:
  assumes "wf_node t" "[] \<notin> set p" "update_at p loc t = (e, t')"
  shows "wf_node t' \<and> map_update p loc (\<lambda>q. lookup q t) = (e, \<lambda>q. lookup q t') \<and> num t' = num t"
proof (cases e)
  case None
  with assms(3) have u: "update_at p loc t = (None, t')" by simp
  have "lookup p t \<noteq> None" using update_at_error(1) [of p loc t] u by (simp split: if_splits)
  then show ?thesis
    using update_at_wf [OF u assms(1,2)] update_at_lookup [OF u assms(2)] None
    by (auto simp: map_update_def)
next
  case (Some err)
  then show ?thesis
    using update_at_error [of p loc t] assms by (auto simp: map_update_def split: if_splits)
qed

interpretation radix: path_index wf_node num "2 ^ 32" "\<lambda>t p. lookup p t" insert_at delete_at update_at
proof unfold_locales
  show "wf_node t' \<and> map_insert p loc (\<lambda>p. lookup p t) = (e, \<lambda>p. lookup p t') \<and> num t' \<le> Suc (num t)"
    if "wf_node t" "[] \<notin> set p" "insert_at p loc t = (e, t')" for t p loc e t'
    by (rule insert_at_law [OF that])
  show "wf_node t' \<and> map_delete p (\<lambda>p. lookup p t) = (e, \<lambda>p. lookup p t') \<and> num t' \<le> num t"
    if "wf_node t" "[] \<notin> set p" "num t < 2 ^ 32" "delete_at p t = (e, t')" for t p e t'
    by (rule delete_at_law [OF that])
  show "wf_node t' \<and> map_update p loc (\<lambda>p. lookup p t) = (e, \<lambda>p. lookup p t') \<and> num t' = num t"
    if "wf_node t" "[] \<notin> set p" "update_at p loc t = (e, t')" for t p loc e t'
    by (rule update_at_law [OF that])
qed

lemma Radix_ParseDN_no_Panic: "Radix_ParseDN U dn \<noteq> Panic"
proof -
  have "normalizeRDN U c \<noteq> Panic" for c by (simp add: normalizeRDN_def Let_def split: option.split)
  then have "normalize_all U cs \<noteq> Panic" for cs by (induction cs) (auto split: outcome.split)
  then show ?thesis by (auto simp: Radix_ParseDN_def Let_def split: outcome.split)
qed

text \<open>The operations of the tree, and a sequence of them on a tree that starts empty.\<close>

fun tree_step :: "unicode \<Rightarrow> index_op \<Rightarrow> rnode \<Rightarrow> radix_error option \<times> rnode" where
  "tree_step U (OpInsert dn loc) t = Radix_Insert U dn loc t"
| "tree_step U (OpDelete dn) t = Radix_Delete U dn t"
| "tree_step U (OpUpdate dn loc) t = Radix_Update U dn loc t"

lemma tree_step_eq: "tree_step U = index_step U insert_at delete_at update_at"
proof (intro ext)
  show "tree_step U op t = index_step U insert_at delete_at update_at op t" for op t
    by (cases op) (simp_all add: index_step_def Radix_Insert_def Radix_Delete_def Radix_Update_def on_path_def
        split: outcome.split)
qed

text \<open>The entries below a path, read from the node that the path leads to.\<close>

lemma subtree_node:
  assumes "wf_node t" "find_at cs t = Some n"
  shows "wf_node n"
  using assms
proof (induction cs arbitrary: t)
  case (Cons c cs)
  then obtain ch where ch: "GetChild c t = Some ch" "find_at cs ch = Some n" by (auto split: option.splits)
  then have "(c, ch) \<in> set (r_kids t)" by (auto simp: GetChild_def split: if_splits dest: map_of_SomeD)
  with Cons ch(2) show ?case using wf_nodeD(2) by blast
qed simp

lemma find_at_num: "find_at cs t = Some n \<Longrightarrow> num n \<le> num t"
proof (induction cs arbitrary: t)
  case (Cons c cs)
  then obtain ch where ch: "GetChild c t = Some ch" "find_at cs ch = Some n" by (auto split: option.splits)
  then have "(c, ch) \<in> set (r_kids t)" by (auto simp: GetChild_def split: if_splits dest: map_of_SomeD)
  from num_child_le [OF this] Cons.IH [OF ch(2)] show ?case by simp
qed simp

lemma subtree_lookup:
  "find_at cs t = Some n \<Longrightarrow> {(cs @ q, loc) | q loc. lookup q n = Some loc} = {(p, loc). prefix cs p \<and> lookup p t = Some loc}"
  by (auto simp: lookup_append elim!: prefixE)

lemma level_lookup:
  "find_at cs t = Some n \<Longrightarrow> {(cs @ [k], loc) | k loc. lookup [k] n = Some loc} = {(cs @ [k], loc) | k loc. lookup (cs @ [k]) t = Some loc}"
  by (simp add: lookup_append del: lookup_simps)

lemma subtree_missing: "find_at cs t = None \<Longrightarrow> {(p, loc). prefix cs p \<and> lookup p t = Some loc} = {}"
  by (auto simp: lookup_append elim!: prefixE)

lemma wf_node_has_entry: "wf_node n \<Longrightarrow> \<not> empty_node n \<Longrightarrow> \<exists>q. lookup q n \<noteq> None"
proof (induction n rule: wf_node.induct)
  case (1 n)
  show ?case
  proof (cases "r_entry n")
    case (Some e)
    then show ?thesis by (intro exI [of _ "[]"]) simp
  next
    case None
    with 1(4) obtain k ch where kid: "(k, ch) \<in> set (r_kids n)" by (cases "r_kids n") (auto simp: empty_node_def)
    then have "ch \<in> snd ` set (r_kids n)" by (rule image_eqI [rotated]) simp
    then obtain q where "lookup q ch \<noteq> None" using 1(3) GetChild_kid(3) [OF 1(1) kid] by blast
    with GetChild_kid(1) [OF 1(1) kid] show ?thesis by (intro exI [of _ "k # q"]) simp
  qed
qed

lemma has_kids_iff:
  assumes "wf_node n"
  shows "r_kids n \<noteq> [] \<longleftrightarrow> (\<exists>q. q \<noteq> [] \<and> lookup q n \<noteq> None)"
proof
  assume "r_kids n \<noteq> []"
  then obtain k ch where kid: "(k, ch) \<in> set (r_kids n)" by (cases "r_kids n") auto
  have local: "local_ok n" by (rule wf_nodeD(1) [OF assms])
  obtain q where "lookup q ch \<noteq> None"
    using wf_node_has_entry [OF wf_nodeD(2) [OF assms kid] GetChild_kid(3) [OF local kid]] by blast
  with GetChild_kid(1) [OF local kid] show "\<exists>q. q \<noteq> [] \<and> lookup q n \<noteq> None" by (intro exI [of _ "k # q"]) simp
next
  assume "\<exists>q. q \<noteq> [] \<and> lookup q n \<noteq> None"
  then obtain c q where "lookup (c # q) n \<noteq> None" by (metis list.exhaust)
  then have "GetChild c n \<noteq> None" by (cases "GetChild c n") simp_all
  then have "map_of (r_kids n) c \<noteq> None" by (simp add: GetChild_def split: if_splits)
  then show "r_kids n \<noteq> []" by auto
qed

lemma strict_subtree:
  assumes "wf_node t"
  shows "(case find_at cs t of None \<Rightarrow> False | Some n \<Rightarrow> if r_kids n \<noteq> [] then True else r_first n \<noteq> []) \<longleftrightarrow>
    (\<exists>p. strict_prefix cs p \<and> lookup p t \<noteq> None)"
proof (cases "find_at cs t")
  case None
  then show ?thesis by (auto simp: lookup_append elim!: strict_prefixE')
next
  case (Some n)
  have wf: "wf_node n" by (rule subtree_node [OF assms Some])
  then have "first_ok (r_first n) (r_kids n)" using wf_nodeD(1) by (simp add: local_ok_def)
  then have "r_first n \<noteq> [] \<longleftrightarrow> r_kids n \<noteq> []" by (simp add: first_ok_empty)
  moreover have "(\<exists>p. strict_prefix cs p \<and> lookup p t \<noteq> None) \<longleftrightarrow> (\<exists>q. q \<noteq> [] \<and> lookup q n \<noteq> None)"
    unfolding strict_prefix_def prefix_def by (auto simp: lookup_append Some)
  ultimately show ?thesis using has_kids_iff [OF wf] Some by simp
qed

lemma one_level_lists:
  assumes "wf_node t" "Radix_ParseDN U base = Ok cs"
  shows "\<exists>ls. IterateOneLevelChildren U base t = Ok (map (\<lambda>(p, loc). (JoinDNReverse p, loc)) ls) \<and>
    set ls = {(cs @ [k], loc) | k loc. lookup (cs @ [k]) t = Some loc}"
proof -
  have base: "base \<noteq> []" using assms(2) by (auto simp: Radix_ParseDN_def)
  show ?thesis
  proof (cases "find_at cs t")
    case None
    then show ?thesis
      using assms(2) base by (intro exI [of _ "[]"]) (simp add: IterateOneLevelChildren_def lookup_append)
  next
    case (Some n)
    then show ?thesis
      using assms(2) base one_level_set [OF subtree_node [OF assms(1) Some], of cs] level_lookup [OF Some]
      by (intro exI [of _ "one_level cs n"]) (simp add: IterateOneLevelChildren_def)
  qed
qed

section \<open>Properties\<close>

text \<open>
  C32. The DN tree implements a finite map. Any sequence of fewer than \<open>2 ^ 32\<close> insertions,
  deletions and updates by DN, run on an empty tree, returns the same results and errors as the
  sequence run on the empty map from component paths to locations, and afterwards a lookup in the
  tree gives what that map holds.
\<close>

theorem tree_refines_map:
  assumes "length ops < 2 ^ 32" and "run_steps (tree_step U) ops NewRootNode = (rs, t)"
  shows "run_steps (index_step U map_insert map_delete map_update) ops Map.empty = (rs, \<lambda>p. lookup p t) \<and>
    (\<forall>dn cs. Radix_ParseDN U dn = Ok cs \<longrightarrow> Radix_Lookup U dn t = lookup cs t)"
proof -
  have empty: "(\<lambda>p. lookup p NewRootNode) = Map.empty"
    by (intro ext lookup_empty) (simp_all add: NewRootNode_def)
  have "num NewRootNode = 0" by (simp add: NewRootNode_def num.simps)
  then have "run_steps (index_step U map_insert map_delete map_update) ops (\<lambda>p. lookup p NewRootNode) = (rs, \<lambda>p. lookup p t)"
    using radix.run_refines [OF wf_NewRootNode, of ops U rs t] assms unfolding tree_step_eq by simp
  then show ?thesis unfolding empty by (simp add: Radix_Lookup_def lookup_def)
qed

theorem tree_refines_map_witness:
  "let ops = [OpInsert (lit ''DC=com'') (1, 2), OpInsert (lit ''cn=a,dc=com'') (3, 4), OpInsert (lit ''dc=com'') (5, 6),
       OpDelete (lit ''dc=com'')];
     (rs, t) = run_steps (tree_step plain_unicode) ops NewRootNode
   in rs = [None, None, Some RadixEntryExists, None] \<and>
     run_steps (index_step plain_unicode map_insert map_delete map_update) ops Map.empty = (rs, \<lambda>p. lookup p t)"
proof -
  let ?ops = "[OpInsert (lit ''DC=com'') (1, 2), OpInsert (lit ''cn=a,dc=com'') (3, 4), OpInsert (lit ''dc=com'') (5, 6),
       OpDelete (lit ''dc=com'')]"
  obtain rs t where run: "run_steps (tree_step plain_unicode) ?ops NewRootNode = (rs, t)" by fastforce
  have "fst (run_steps (tree_step plain_unicode) ?ops NewRootNode) = [None, None, Some RadixEntryExists, None]"
    by code_simp
  with run tree_refines_map [OF _ run] show ?thesis by simp
qed

text \<open>
  C33. After any such sequence, \<open>IterateSubtree\<close> on a valid base lists exactly the entries at or
  below the base, each once; \<open>GetSubtreeCount\<close> is the length of that list, which fits its 32 bits;
  \<open>IterateOneLevelChildren\<close> lists the entries one component below the base, and
  \<open>HasChildren\<close> holds exactly when some entry lies strictly below the base.
\<close>

theorem subtree_is_enumerated:
  assumes "length ops < 2 ^ 32" and "run_steps (tree_step U) ops NewRootNode = (rs, t)"
    and "Radix_ParseDN U base = Ok cs"
  shows "\<exists>ps. IterateSubtree U base t = Ok (map (\<lambda>(p, loc). (JoinDNReverse p, loc)) ps) \<and>
    distinct (map fst ps) \<and> set ps = {(p, loc). prefix cs p \<and> lookup p t = Some loc} \<and>
    length ps < 2 ^ 32 \<and> GetSubtreeCount U base t = Ok (of_nat (length ps)) \<and>
    HasChildren U base t = Ok (\<exists>p. strict_prefix cs p \<and> lookup p t \<noteq> None) \<and>
    (\<exists>ls. IterateOneLevelChildren U base t = Ok (map (\<lambda>(p, loc). (JoinDNReverse p, loc)) ls) \<and>
       set ls = {(cs @ [k], loc) | k loc. lookup (cs @ [k]) t = Some loc})"
proof -
  have "num NewRootNode = 0" by (simp add: NewRootNode_def num.simps)
  then have t: "wf_node t" "num t < 2 ^ 32"
    using radix.run_refines [OF wf_NewRootNode, of ops U rs t] assms(1,2) unfolding tree_step_eq by auto
  have base: "base \<noteq> []" using assms(3) by (auto simp: Radix_ParseDN_def)
  have kids: "HasChildren U base t = Ok (\<exists>p. strict_prefix cs p \<and> lookup p t \<noteq> None)"
    unfolding HasChildren_def assms(3) outcome.case strict_subtree [OF t(1)] ..
  have level: "\<exists>ls. IterateOneLevelChildren U base t = Ok (map (\<lambda>(p, loc). (JoinDNReverse p, loc)) ls) \<and>
      set ls = {(cs @ [k], loc) | k loc. lookup (cs @ [k]) t = Some loc}"
    by (rule one_level_lists [OF t(1) assms(3)])
  show ?thesis
  proof (cases "find_at cs t")
    case None
    then show ?thesis
      using assms(3) base kids level subtree_missing [OF None]
      by (intro exI [of _ "[]"]) (simp add: IterateSubtree_def GetSubtreeCount_def)
  next
    case (Some n)
    have wf: "wf_node n" by (rule subtree_node [OF t(1) Some])
    have "length (iterate_node cs n) \<le> num t"
      using find_at_num [OF Some] by (simp add: iterate_node_length)
    moreover have "r_count n = of_nat (length (iterate_node cs n))"
      using wf_nodeD(1) [OF wf] by (simp add: iterate_node_length local_ok_def)
    ultimately show ?thesis
      using assms(3) base kids level Some t(2) iterate_node_distinct [OF wf] iterate_node_set [OF wf]
        subtree_lookup [OF Some]
      by (intro exI [of _ "iterate_node cs n"]) (simp add: IterateSubtree_def GetSubtreeCount_def)
  qed
qed

theorem subtree_is_enumerated_witness:
  "let t = snd (run_steps (tree_step plain_unicode)
       [OpInsert (lit ''dc=com'') (1, 2), OpInsert (lit ''cn=a,dc=com'') (3, 4)] NewRootNode)
   in HasChildren plain_unicode (lit ''dc=com'') t = Ok True \<and>
     (\<exists>ps. distinct (map fst ps) \<and>
        set ps = {(p, loc). prefix [lit ''dc=com''] p \<and> lookup p t = Some loc} \<and>
        GetSubtreeCount plain_unicode (lit ''dc=com'') t = Ok (of_nat (length ps)))"
proof -
  let ?run = "run_steps (tree_step plain_unicode)
    [OpInsert (lit ''dc=com'') (1, 2), OpInsert (lit ''cn=a,dc=com'') (3, 4)] NewRootNode"
  have base: "Radix_ParseDN plain_unicode (lit ''dc=com'') = Ok [lit ''dc=com'']" by code_simp
  have "HasChildren plain_unicode (lit ''dc=com'') (snd ?run) = Ok True" by code_simp
  moreover have "length [OpInsert (lit ''dc=com'') (1, 2), OpInsert (lit ''cn=a,dc=com'') (3, 4)] < (2 ^ 32 :: nat)"
    by simp
  from subtree_is_enumerated [OF this prod.collapse [symmetric] base]
  have "\<exists>ps. distinct (map fst ps) \<and>
      set ps = {(p, loc). prefix [lit ''dc=com''] p \<and> lookup p (snd ?run) = Some loc} \<and>
      GetSubtreeCount plain_unicode (lit ''dc=com'') (snd ?run) = Ok (of_nat (length ps))" by blast
  ultimately show ?thesis unfolding Let_def by (rule conjI)
qed

end
