(* ===== verification/Page_Store.thy ===== *)
theory Page_Store
  imports Oba_Prelude
begin

text \<open>
  Pages, the free list and the page manager of the data file (\<^verbatim>\<open>page.go\<close>, \<^verbatim>\<open>header.go\<close>,
  \<^verbatim>\<open>freelist.go\<close>, \<^verbatim>\<open>manager.go\<close> of \<^verbatim>\<open>internal/storage\<close>). The file is a number of pages with the
  images written so far; a page that was never written reads as zeros. The page size is the
  constant of \<^verbatim>\<open>page.go\<close>, writes to the file succeed, and the reserved bytes of the header are zero.
\<close>

section \<open>Checksums\<close>

text \<open>\<^verbatim>\<open>crc32.ChecksumIEEE\<close>: the reflected polynomial, one bit at a time.\<close>

fun crc_bits :: "nat \<Rightarrow> uint32 \<Rightarrow> uint32" where
  "crc_bits 0 c = c"
| "crc_bits (Suc n) c = crc_bits n (if odd c then drop_bit 1 c XOR 0xEDB88320 else drop_bit 1 c)"

definition crc32 :: "bytes \<Rightarrow> uint32" where
  "crc32 bs = NOT (foldl (\<lambda>c b. crc_bits 8 (c XOR ucast b)) (NOT 0) bs)"

section \<open>Pages\<close>

abbreviation PageSize :: nat where "PageSize \<equiv> 4096"
abbreviation PageHeaderSize :: nat where "PageHeaderSize \<equiv> 16"

type_synonym page_type = byte

definition PageTypeFree :: page_type where "PageTypeFree = 0"
definition PageTypeData :: page_type where "PageTypeData = 1"

record page_header =
  ph_id :: uint64
  ph_type :: page_type
  ph_flags :: byte
  ph_items :: uint16
  ph_free :: uint16
  ph_checksum :: uint16

record page =
  p_header :: page_header
  p_data :: bytes

datatype pm_error =
    ErrInvalidPageSize
  | ErrInvalidChecksum
  | ErrInvalidMagic
  | ErrUnsupportedVersion
  | ErrHeaderChecksum
  | ErrInvalidHeaderSize
  | ErrInvalidPageID
  | ErrPageOutOfRange
  | ErrPageAlreadyFree
  | ErrCannotFreeHeader
  | ErrFileClosed
  | PageManagerReadOnly
  | IncompletePageRead

definition PageHeader_Serialize :: "page_header \<Rightarrow> bytes" where
  "PageHeader_Serialize h =
     put_le 8 (ph_id h) @ [ph_type h, ph_flags h] @ put_le 2 (ph_items h) @ put_le 2 (ph_free h) @
     put_le 2 (ph_checksum h)"

definition PageHeader_Deserialize :: "bytes \<Rightarrow> (pm_error, page_header) outcome" where
  "PageHeader_Deserialize buf =
     (if length buf < PageHeaderSize then Fail ErrInvalidPageSize
      else Ok \<lparr>ph_id = get_le (take 8 buf), ph_type = buf ! 8, ph_flags = buf ! 9,
             ph_items = get_le (take 2 (drop 10 buf)), ph_free = get_le (take 2 (drop 12 buf)),
             ph_checksum = get_le (take 2 (drop 14 buf))\<rparr>)"

definition NewPage :: "uint64 \<Rightarrow> page_type \<Rightarrow> page" where
  "NewPage pageID pageType =
     \<lparr>p_header = \<lparr>ph_id = pageID, ph_type = pageType, ph_flags = 0, ph_items = 0,
        ph_free = of_nat (PageSize - PageHeaderSize), ph_checksum = 0\<rparr>,
      p_data = replicate (PageSize - PageHeaderSize) 0\<rparr>"

definition CalculateChecksum :: "page \<Rightarrow> uint16" where
  "CalculateChecksum p = ucast (crc32 (p_data p) AND 0xFFFF)"

definition ValidateChecksum :: "page \<Rightarrow> bool" where
  "ValidateChecksum p \<longleftrightarrow> ph_checksum (p_header p) = CalculateChecksum p"

definition Page_Serialize :: "page \<Rightarrow> bytes" where
  "Page_Serialize p =
     PageHeader_Serialize (p_header p \<lparr>ph_checksum := CalculateChecksum p\<rparr>) @
     go_copy (replicate (PageSize - PageHeaderSize) 0) 0 (p_data p)"

definition Page_Deserialize :: "bytes \<Rightarrow> (pm_error, page) outcome" where
  "Page_Deserialize buf =
     (if length buf < PageSize then Fail ErrInvalidPageSize
      else case PageHeader_Deserialize (take PageHeaderSize buf) of
          Ok h \<Rightarrow> Ok \<lparr>p_header = h, p_data = take (PageSize - PageHeaderSize) (drop PageHeaderSize buf)\<rparr>
        | Fail e \<Rightarrow> Fail e
        | Panic \<Rightarrow> Panic)"

definition Page_DeserializeAndValidate :: "bytes \<Rightarrow> (pm_error, page) outcome" where
  "Page_DeserializeAndValidate buf =
     (case Page_Deserialize buf of
        Ok p \<Rightarrow> if ValidateChecksum p then Ok p else Fail ErrInvalidChecksum
      | Fail e \<Rightarrow> Fail e
      | Panic \<Rightarrow> Panic)"

definition SetDirty :: "page_header \<Rightarrow> page_header" where
  "SetDirty h = h \<lparr>ph_flags := or (ph_flags h) 1\<rparr>"

definition ClearDirty :: "page_header \<Rightarrow> page_header" where
  "ClearDirty h = h \<lparr>ph_flags := and (ph_flags h) (not 1)\<rparr>"

definition SetPinned :: "page_header \<Rightarrow> page_header" where
  "SetPinned h = h \<lparr>ph_flags := or (ph_flags h) 2\<rparr>"

definition ClearPinned :: "page_header \<Rightarrow> page_header" where
  "ClearPinned h = h \<lparr>ph_flags := and (ph_flags h) (not 2)\<rparr>"

definition SetLeaf :: "page_header \<Rightarrow> page_header" where
  "SetLeaf h = h \<lparr>ph_flags := or (ph_flags h) 4\<rparr>"

definition Page_Reset :: "page_type \<Rightarrow> page \<Rightarrow> page" where
  "Page_Reset t p =
     p \<lparr>p_header := (p_header p) \<lparr>ph_type := t, ph_flags := 0, ph_items := 0,
          ph_free := of_nat (PageSize - PageHeaderSize), ph_checksum := 0\<rparr>,
        p_data := replicate (length (p_data p)) 0\<rparr>"

section \<open>The file header\<close>

record file_header =
  fh_magic :: bytes
  fh_version :: uint32
  fh_page_size :: uint32
  fh_total :: uint64
  fh_free_head :: uint64
  fh_dn_index :: uint64
  fh_data_root :: uint64
  fh_checksum :: uint32

definition Magic :: bytes where "Magic = [79, 66, 65, 0]"

definition NewFileHeader :: file_header where
  "NewFileHeader = \<lparr>fh_magic = Magic, fh_version = 1, fh_page_size = of_nat PageSize, fh_total = 1,
     fh_free_head = 0, fh_dn_index = 0, fh_data_root = 0, fh_checksum = 0\<rparr>"

text \<open>The 44 bytes before the checksum.\<close>

definition header_fields :: "file_header \<Rightarrow> bytes" where
  "header_fields h =
     fh_magic h @ put_le 4 (fh_version h) @ put_le 4 (fh_page_size h) @ put_le 8 (fh_total h) @
     put_le 8 (fh_free_head h) @ put_le 8 (fh_dn_index h) @ put_le 8 (fh_data_root h)"

definition FileHeader_Serialize :: "file_header \<Rightarrow> bytes" where
  "FileHeader_Serialize h =
     header_fields h @ put_le 4 (crc32 (header_fields h)) @ replicate (PageSize - 48) 0"

definition FileHeader_Deserialize :: "bytes \<Rightarrow> (pm_error, file_header) outcome" where
  "FileHeader_Deserialize buf =
     (if length buf < PageSize then Fail ErrInvalidHeaderSize
      else Ok \<lparr>fh_magic = take 4 buf, fh_version = get_le (take 4 (drop 4 buf)),
             fh_page_size = get_le (take 4 (drop 8 buf)), fh_total = get_le (take 8 (drop 12 buf)),
             fh_free_head = get_le (take 8 (drop 20 buf)), fh_dn_index = get_le (take 8 (drop 28 buf)),
             fh_data_root = get_le (take 8 (drop 36 buf)), fh_checksum = get_le (take 4 (drop 44 buf))\<rparr>)"

definition FileHeader_Validate :: "file_header \<Rightarrow> pm_error option" where
  "FileHeader_Validate h =
     (if fh_magic h \<noteq> Magic then Some ErrInvalidMagic
      else if fh_version h > 1 \<or> fh_version h = 0 then Some ErrUnsupportedVersion
      else if fh_checksum h \<noteq> crc32 (header_fields h) then Some ErrHeaderChecksum
      else None)"

section \<open>The free list\<close>

abbreviation MaxFreeListEntriesPerPage :: nat where "MaxFreeListEntriesPerPage \<equiv> 509"

record free_list =
  fl_head :: uint64
  fl_count :: uint64
  fl_pages :: "uint64 list"

definition NewFreeList :: free_list where
  "NewFreeList = \<lparr>fl_head = 0, fl_count = 0, fl_pages = []\<rparr>"

definition FreeList_Push :: "uint64 \<Rightarrow> free_list \<Rightarrow> free_list" where
  "FreeList_Push p fl = fl \<lparr>fl_pages := fl_pages fl @ [p], fl_count := fl_count fl + 1\<rparr>"

definition FreeList_Pop :: "free_list \<Rightarrow> uint64 option \<times> free_list" where
  "FreeList_Pop fl =
     (if fl_pages fl = [] then (None, fl)
      else (Some (last (fl_pages fl)), fl \<lparr>fl_pages := butlast (fl_pages fl), fl_count := fl_count fl - 1\<rparr>))"

definition FreeList_Contains :: "uint64 \<Rightarrow> free_list \<Rightarrow> bool" where
  "FreeList_Contains p fl \<longleftrightarrow> p \<in> set (fl_pages fl)"

definition FreeList_Remove :: "uint64 \<Rightarrow> free_list \<Rightarrow> bool \<times> free_list" where
  "FreeList_Remove p fl =
     (if p \<in> set (fl_pages fl) then
        (True, fl \<lparr>fl_pages := butlast ((fl_pages fl)[length (takeWhile (\<lambda>q. q \<noteq> p) (fl_pages fl)) := last (fl_pages fl)]),
                   fl_count := fl_count fl - 1\<rparr>)
      else (False, fl))"

definition FreeList_Clear :: "free_list \<Rightarrow> free_list" where
  "FreeList_Clear fl = fl \<lparr>fl_pages := [], fl_count := 0, fl_head := 0\<rparr>"

definition SerializeToPage :: "page \<Rightarrow> nat \<Rightarrow> free_list \<Rightarrow> page \<times> nat \<times> bool" where
  "SerializeToPage p startIdx fl =
     (if length (fl_pages fl) \<le> startIdx then (p, startIdx, False)
      else let entries = take MaxFreeListEntriesPerPage (drop startIdx (fl_pages fl));
               nextIdx = startIdx + length entries
           in (p \<lparr>p_data := go_copy (replicate (length (p_data p)) 0) 8 (concat (map (put_le 8) entries)),
                  p_header := (p_header p) \<lparr>ph_items := of_nat (length entries), ph_type := PageTypeFree\<rparr>\<rparr>,
               nextIdx, nextIdx < length (fl_pages fl)))"

definition GetNextPageID :: "page \<Rightarrow> uint64" where
  "GetNextPageID p = (if length (p_data p) < 8 then 0 else get_le (take 8 (p_data p)))"

text \<open>The page IDs stored in a page of the list, which end at its item count; a zero is skipped.\<close>

definition free_entries :: "page \<Rightarrow> uint64 list" where
  "free_entries p =
     filter (\<lambda>i. i \<noteq> 0)
       (map (\<lambda>i. get_le (take 8 (drop (8 + i * 8) (p_data p))))
         (filter (\<lambda>i. 8 + i * 8 + 8 \<le> length (p_data p))
           [0..<min (unat (ph_items (p_header p))) MaxFreeListEntriesPerPage]))"

definition LoadFromPages :: "page list \<Rightarrow> free_list \<Rightarrow> free_list" where
  "LoadFromPages pages fl =
     fold FreeList_Push (concat (map free_entries pages)) (fl \<lparr>fl_pages := [], fl_count := 0\<rparr>)"

section \<open>The page manager\<close>

text \<open>The data file: its length in pages and the images written.\<close>

record data_file =
  f_pages :: nat
  f_images :: "(nat \<times> bytes) list"

definition page_file_read :: "nat \<Rightarrow> data_file \<Rightarrow> bytes" where
  "page_file_read i f =
     (if i < f_pages f then case map_of (f_images f) i of Some b \<Rightarrow> b | None \<Rightarrow> replicate PageSize 0 else [])"

definition page_file_write :: "nat \<Rightarrow> bytes \<Rightarrow> data_file \<Rightarrow> data_file" where
  "page_file_write i b f = \<lparr>f_pages = max (f_pages f) (Suc i), f_images = AList.update i b (f_images f)\<rparr>"

definition page_file_truncate :: "nat \<Rightarrow> data_file \<Rightarrow> data_file" where
  "page_file_truncate n f = \<lparr>f_pages = n, f_images = filter (\<lambda>(i, b). i < n) (f_images f)\<rparr>"

record page_manager =
  pm_file :: data_file
  pm_header :: file_header
  pm_total :: uint64
  pm_free :: free_list
  pm_readonly :: bool
  pm_closed :: bool

definition readPageInternal :: "uint64 \<Rightarrow> page_manager \<Rightarrow> (pm_error, page) outcome" where
  "readPageInternal pid pm =
     (if pid = 0 then Fail ErrInvalidPageID
      else if pm_total pm \<le> pid then Fail ErrPageOutOfRange
      else let buf = page_file_read (unat pid) (pm_file pm) in
        if length buf < PageSize then Fail IncompletePageRead else Page_Deserialize buf)"

definition ReadPage :: "uint64 \<Rightarrow> page_manager \<Rightarrow> (pm_error, page) outcome" where
  "ReadPage pid pm = (if pm_closed pm then Fail ErrFileClosed else readPageInternal pid pm)"

definition PM_ReadPages :: "uint64 list \<Rightarrow> page_manager \<Rightarrow> (pm_error, page option list) outcome" where
  "PM_ReadPages ids pm =
     (if pm_closed pm then Fail ErrFileClosed
      else Ok (map (\<lambda>i. if i = 0 then None else case readPageInternal i pm of Ok p \<Rightarrow> Some p | _ \<Rightarrow> None) ids))"

definition writePageInternal :: "page \<Rightarrow> page_manager \<Rightarrow> (pm_error, unit) outcome \<times> page_manager" where
  "writePageInternal p pm =
     (let pid = ph_id (p_header p) in
      if pid = 0 then (Fail ErrInvalidPageID, pm)
      else if pm_total pm \<le> pid then (Fail ErrPageOutOfRange, pm)
      else (Ok (), pm \<lparr>pm_file := page_file_write (unat pid) (Page_Serialize p) (pm_file pm)\<rparr>))"

definition WritePage :: "page \<Rightarrow> page_manager \<Rightarrow> (pm_error, unit) outcome \<times> page_manager" where
  "WritePage p pm =
     (if pm_closed pm then (Fail ErrFileClosed, pm)
      else if pm_readonly pm then (Fail PageManagerReadOnly, pm)
      else writePageInternal p pm)"

text \<open>\<^verbatim>\<open>growFileLocked(1)\<close>: at least eight pages, all but the first put on the free list.\<close>

definition growFileLocked :: "page_manager \<Rightarrow> page_manager" where
  "growFileLocked pm =
     (let oldTotal = pm_total pm; newTotal = oldTotal + 8 in
      pm \<lparr>pm_file := page_file_truncate (unat newTotal) (pm_file pm),
          pm_total := newTotal, pm_header := pm_header pm \<lparr>fh_total := newTotal\<rparr>,
          pm_free := fold (\<lambda>i. FreeList_Push (of_nat i)) [unat oldTotal + 1..<unat newTotal] (pm_free pm)\<rparr>)"

definition AllocatePage :: "page_type \<Rightarrow> page_manager \<Rightarrow> (pm_error, uint64) outcome \<times> page_manager" where
  "AllocatePage t pm =
     (if pm_closed pm then (Fail ErrFileClosed, pm)
      else if pm_readonly pm then (Fail PageManagerReadOnly, pm)
      else case FreeList_Pop (pm_free pm) of
          (Some pid, fl) \<Rightarrow>
            (case writePageInternal (NewPage pid t) (pm \<lparr>pm_free := fl\<rparr>) of
               (Ok _, pm') \<Rightarrow> (Ok pid, pm')
             | (Fail e, pm') \<Rightarrow> (Fail e, pm' \<lparr>pm_free := FreeList_Push pid (pm_free pm')\<rparr>)
             | (Panic, pm') \<Rightarrow> (Panic, pm'))
        | (None, _) \<Rightarrow>
            (let pid = pm_total pm in
             case writePageInternal (NewPage pid t) (growFileLocked pm) of
               (Ok _, pm') \<Rightarrow> (Ok pid, pm')
             | (Fail e, pm') \<Rightarrow> (Fail e, pm')
             | (Panic, pm') \<Rightarrow> (Panic, pm')))"

definition FreePage :: "uint64 \<Rightarrow> page_manager \<Rightarrow> (pm_error, unit) outcome \<times> page_manager" where
  "FreePage pid pm =
     (if pm_closed pm then (Fail ErrFileClosed, pm)
      else if pm_readonly pm then (Fail PageManagerReadOnly, pm)
      else if pid = 0 then (Fail ErrCannotFreeHeader, pm)
      else if pm_total pm \<le> pid then (Fail ErrPageOutOfRange, pm)
      else if FreeList_Contains pid (pm_free pm) then (Fail ErrPageAlreadyFree, pm)
      else case writePageInternal (NewPage pid PageTypeFree) pm of
          (Ok _, pm') \<Rightarrow> (Ok (), pm' \<lparr>pm_free := FreeList_Push pid (pm_free pm')\<rparr>)
        | (Fail e, pm') \<Rightarrow> (Fail e, pm')
        | (Panic, pm') \<Rightarrow> (Panic, pm'))"

section \<open>Saving and opening\<close>

definition saveHeaderLocked :: "page_manager \<Rightarrow> page_manager" where
  "saveHeaderLocked pm =
     (let h = pm_header pm \<lparr>fh_total := pm_total pm\<rparr> in
      pm \<lparr>pm_header := h, pm_file := page_file_write 0 (FileHeader_Serialize h) (pm_file pm)\<rparr>)"

text \<open>One page of the saved free list: the ID of the next one and up to 509 entries.\<close>

definition free_list_page :: "uint64 \<Rightarrow> uint64 list \<Rightarrow> uint64 \<Rightarrow> page" where
  "free_list_page pid entries nxt =
     (let p = NewPage pid PageTypeFree in
      p \<lparr>p_header := p_header p \<lparr>ph_items := of_nat (length entries)\<rparr>,
         p_data := go_copy (p_data p) 0 (put_le 8 nxt @ concat (map (put_le 8) entries))\<rparr>)"

fun save_free_pages ::
  "nat \<Rightarrow> uint64 \<Rightarrow> uint64 list \<Rightarrow> uint64 \<Rightarrow> page_manager \<Rightarrow> (pm_error, uint64) outcome \<times> page_manager" where
  "save_free_pages 0 start free prev pm = (Ok prev, pm)"
| "save_free_pages (Suc i) start free prev pm =
     (let pid = start + of_nat i in
      case writePageInternal (free_list_page pid (take 509 (drop (i * 509) free)) prev) pm of
        (Ok _, pm') \<Rightarrow> save_free_pages i start free pid pm'
      | (Fail e, pm') \<Rightarrow> (Fail e, pm')
      | (Panic, pm') \<Rightarrow> (Panic, pm'))"

definition saveFreeListLocked :: "page_manager \<Rightarrow> (pm_error, unit) outcome \<times> page_manager" where
  "saveFreeListLocked pm =
     (let free = fl_pages (pm_free pm) in
      if free = [] then (Ok (), pm \<lparr>pm_header := pm_header pm \<lparr>fh_free_head := 0\<rparr>\<rparr>)
      else let n = (length free + MaxFreeListEntriesPerPage - 1) div MaxFreeListEntriesPerPage;
               start = pm_total pm;
               newTotal = start + of_nat n;
               pm1 = pm \<lparr>pm_file := page_file_truncate (unat newTotal) (pm_file pm), pm_total := newTotal,
                         pm_header := pm_header pm \<lparr>fh_total := newTotal\<rparr>\<rparr>
           in case save_free_pages n start free 0 pm1 of
               (Ok first, pm2) \<Rightarrow> (Ok (), pm2 \<lparr>pm_header := pm_header pm2 \<lparr>fh_free_head := first\<rparr>,
                                         pm_free := pm_free pm2 \<lparr>fl_head := first\<rparr>\<rparr>)
             | (Fail e, pm2) \<Rightarrow> (Fail e, pm2)
             | (Panic, pm2) \<Rightarrow> (Panic, pm2))"

definition PM_Close :: "page_manager \<Rightarrow> (pm_error, unit) outcome \<times> page_manager" where
  "PM_Close pm =
     (if pm_closed pm then (Fail ErrFileClosed, pm)
      else let pm = pm \<lparr>pm_closed := True\<rparr> in
        if pm_readonly pm then (Ok (), pm)
        else case saveFreeListLocked pm of
            (Ok _, pm') \<Rightarrow> (Ok (), saveHeaderLocked pm')
          | (Fail e, pm') \<Rightarrow> (Fail e, pm')
          | (Panic, pm') \<Rightarrow> (Panic, pm'))"

definition PM_Sync :: "page_manager \<Rightarrow> (pm_error, unit) outcome \<times> page_manager" where
  "PM_Sync pm =
     (if pm_closed pm then (Fail ErrFileClosed, pm)
      else (Ok (), if pm_readonly pm then pm else saveHeaderLocked pm))"

definition PM_UpdateHeader :: "file_header \<Rightarrow> page_manager \<Rightarrow> (pm_error, unit) outcome \<times> page_manager" where
  "PM_UpdateHeader h pm =
     (if pm_closed pm then (Fail ErrFileClosed, pm)
      else (Ok (), saveHeaderLocked (pm \<lparr>pm_header := (pm_header pm)
          \<lparr>fh_dn_index := fh_dn_index h, fh_data_root := fh_data_root h\<rparr>\<rparr>)))"

definition initializeNew :: "nat \<Rightarrow> page_manager" where
  "initializeNew initialPages =
     (let n = max 1 initialPages;
          h = NewFileHeader \<lparr>fh_total := of_nat n\<rparr>
      in \<lparr>pm_file = page_file_truncate n (page_file_write 0 (FileHeader_Serialize h) \<lparr>f_pages = 0, f_images = []\<rparr>),
          pm_header = h, pm_total = of_nat n,
          pm_free = fold (\<lambda>i. FreeList_Push (of_nat i)) [1..<n] NewFreeList,
          pm_readonly = False, pm_closed = False\<rparr>)"

text \<open>
  The chain of pages of the saved free list. The first argument bounds the pages read; a chain
  longer than the file has a cycle, on which the loop of \<^verbatim>\<open>loadFreeList\<close> does not return.
\<close>

fun free_list_chain :: "nat \<Rightarrow> uint64 \<Rightarrow> page_manager \<Rightarrow> (pm_error, page list) outcome option" where
  "free_list_chain fuel pid pm =
     (if pid = 0 then Some (Ok [])
      else case fuel of
          0 \<Rightarrow> None
        | Suc fuel' \<Rightarrow>
            (case readPageInternal pid pm of
               Ok p \<Rightarrow> (case free_list_chain fuel' (GetNextPageID p) pm of
                   Some (Ok ps) \<Rightarrow> Some (Ok (p # ps)) | r \<Rightarrow> r)
             | Fail e \<Rightarrow> Some (Fail e)
             | Panic \<Rightarrow> Some Panic))"

declare free_list_chain.simps [simp del]

definition loadFreeList :: "page_manager \<Rightarrow> (pm_error, page_manager) outcome option" where
  "loadFreeList pm =
     (let first = fh_free_head (pm_header pm) in
      if first = 0 then Some (Ok (pm \<lparr>pm_free := NewFreeList\<rparr>))
      else case free_list_chain (f_pages (pm_file pm)) first pm of
          Some (Ok ps) \<Rightarrow> Some (Ok (pm \<lparr>pm_free := LoadFromPages ps (NewFreeList \<lparr>fl_head := first\<rparr>)\<rparr>))
        | Some (Fail e) \<Rightarrow> Some (Fail e)
        | Some Panic \<Rightarrow> Some Panic
        | None \<Rightarrow> None)"

text \<open>\<^verbatim>\<open>OpenPageManager\<close> on an existing file, for writing.\<close>

definition loadExisting :: "data_file \<Rightarrow> (pm_error, page_manager) outcome option" where
  "loadExisting f =
     (case FileHeader_Deserialize (page_file_read 0 f) of
        Ok h \<Rightarrow>
          (case FileHeader_Validate h of
             Some e \<Rightarrow> Some (Fail e)
           | None \<Rightarrow> loadFreeList \<lparr>pm_file = f, pm_header = h, pm_total = fh_total h, pm_free = NewFreeList,
                       pm_readonly = False, pm_closed = False\<rparr>)
      | Fail e \<Rightarrow> Some (Fail e)
      | Panic \<Rightarrow> Some Panic)"

end
