(* ===== verification/Page_Props.thy ===== *)
theory Page_Props
  imports Page_Store
begin

text \<open>
  The page manager hands out pages that are not in use, keeps the contents of the pages in use,
  and restores its free list when the file was closed; after a crash it does not.
\<close>

section \<open>Images of pages\<close>

lemma length_PageHeader_Serialize [simp]: "length (PageHeader_Serialize h) = 16"
  by (simp add: PageHeader_Serialize_def)

lemma nth_append_skip: "length xs \<le> i \<Longrightarrow> (xs @ ys) ! i = ys ! (i - length xs)"
  by (simp add: nth_append)

lemma PageHeader_roundtrip: "PageHeader_Deserialize (PageHeader_Serialize h) = Ok h"
  unfolding PageHeader_Deserialize_def PageHeader_Serialize_def
  by (simp add: nth_append_skip)

lemma length_Page_Serialize [simp]: "length (Page_Serialize p) = 4096"
  by (simp add: Page_Serialize_def)

text \<open>A page as it comes back from its image.\<close>

definition stored :: "page \<Rightarrow> page" where
  "stored p = p \<lparr>p_header := p_header p \<lparr>ph_checksum := CalculateChecksum p\<rparr>\<rparr>"

lemma Page_roundtrip:
  assumes "length (p_data p) = 4080"
  shows "Page_Deserialize (Page_Serialize p) = Ok (stored p)"
proof -
  have "go_copy (replicate 4080 0) 0 (p_data p) = p_data p"
    using assms by (simp add: go_copy_within)
  then show ?thesis
    using assms by (simp add: Page_Deserialize_def Page_Serialize_def PageHeader_roundtrip stored_def)
qed

lemma length_NewPage [simp]: "length (p_data (NewPage i t)) = 4080" "ph_id (p_header (NewPage i t)) = i"
  by (simp_all add: NewPage_def)

lemma length_FileHeader_Serialize [simp]: "length (fh_magic h) = 4 \<Longrightarrow> length (FileHeader_Serialize h) = 4096"
  by (simp add: FileHeader_Serialize_def header_fields_def)

section \<open>Reading and writing\<close>

definition file_ok :: "data_file \<Rightarrow> bool" where
  "file_ok f \<longleftrightarrow> (\<forall>(i, b) \<in> set (f_images f). i < f_pages f \<and> length b = 4096)"

lemma page_file_read_write: "j < f_pages f \<Longrightarrow> page_file_read i (page_file_write j b f) = (if i = j then b else page_file_read i f)"
  by (auto simp: page_file_read_def page_file_write_def update_conv' max_def)

lemma length_file_read: "file_ok f \<Longrightarrow> i < f_pages f \<Longrightarrow> length (page_file_read i f) = 4096"
  by (auto simp: file_ok_def page_file_read_def split: option.split dest: map_of_SomeD)

lemma alist_update_subset: "set (AList.update j b xs) \<subseteq> insert (j, b) (set xs)"
  by (induction xs) auto

lemma file_ok_write: "file_ok f \<Longrightarrow> length b = 4096 \<Longrightarrow> file_ok (page_file_write j b f)"
  using alist_update_subset [of j b "f_images f"] by (fastforce simp: file_ok_def page_file_write_def)

lemma map_of_filter_key: "map_of (filter (\<lambda>(i, b). P i) xs) i = (if P i then map_of xs i else None)"
  by (induction xs) auto

lemma page_file_truncate_laws:
  assumes "file_ok f"
  shows "file_ok (page_file_truncate n f)"
    "i < n \<Longrightarrow> page_file_read i (page_file_truncate n f) = (if i < f_pages f then page_file_read i f else replicate 4096 0)"
proof -
  show "file_ok (page_file_truncate n f)" using assms(1) by (auto simp: file_ok_def page_file_truncate_def)
  have "map_of (f_images f) i = None" if "\<not> i < f_pages f"
    using assms(1) that by (fastforce simp: file_ok_def map_of_eq_None_iff)
  then show "page_file_read i (page_file_truncate n f) = (if i < f_pages f then page_file_read i f else replicate 4096 0)" if "i < n"
    using that by (auto simp: page_file_read_def page_file_truncate_def map_of_filter_key)
qed

text \<open>The invariant of a page manager.\<close>

definition pm_ok :: "page_manager \<Rightarrow> bool" where
  "pm_ok pm \<longleftrightarrow>
     0 < pm_total pm \<and> unat (pm_total pm) \<le> f_pages (pm_file pm) \<and> file_ok (pm_file pm) \<and>
     distinct (fl_pages (pm_free pm)) \<and> (\<forall>p \<in> set (fl_pages (pm_free pm)). 0 < p \<and> p < pm_total pm)"

text \<open>The runs of an open manager, with the set of pages handed out and not given back.\<close>

inductive pm_run :: "uint64 set \<Rightarrow> page_manager \<Rightarrow> bool" where
  new: "n < 2 ^ 64 \<Longrightarrow> pm_run {} (initializeNew n)"
| alloc: "pm_run U pm \<Longrightarrow> unat (pm_total pm) + 8 < 2 ^ 64 \<Longrightarrow> AllocatePage t pm = (Ok p, pm') \<Longrightarrow>
    pm_run (insert p U) pm'"
| free: "pm_run U pm \<Longrightarrow> FreePage p pm = (Ok (), pm') \<Longrightarrow> pm_run (U - {p}) pm'"
| store: "pm_run U pm \<Longrightarrow> WritePage pg pm = (Ok (), pm') \<Longrightarrow> pm_run U pm'"

lemma write_laws:
  assumes "pm_ok pm" "0 < i" "i < pm_total pm" "ph_id (p_header pg) = i"
  shows "writePageInternal pg pm = (Ok (), pm \<lparr>pm_file := page_file_write (unat i) (Page_Serialize pg) (pm_file pm)\<rparr>)"
    "pm_ok (pm \<lparr>pm_file := page_file_write (unat i) (Page_Serialize pg) (pm_file pm)\<rparr>)"
    "readPageInternal q (pm \<lparr>pm_file := page_file_write (unat i) (Page_Serialize pg) (pm_file pm)\<rparr>) =
       (if q = i then Page_Deserialize (Page_Serialize pg) else readPageInternal q pm)"
proof -
  have i: "i \<noteq> 0" "\<not> pm_total pm \<le> i" using assms(2,3) by auto
  have "unat i < unat (pm_total pm)" using assms(3) by (simp add: word_less_nat_alt)
  then have lt: "unat i < f_pages (pm_file pm)" using assms(1) by (simp add: pm_ok_def)
  show "writePageInternal pg pm = (Ok (), pm \<lparr>pm_file := page_file_write (unat i) (Page_Serialize pg) (pm_file pm)\<rparr>)"
    using i by (simp add: writePageInternal_def assms(4))
  show "pm_ok (pm \<lparr>pm_file := page_file_write (unat i) (Page_Serialize pg) (pm_file pm)\<rparr>)"
    using assms(1) lt by (simp add: pm_ok_def file_ok_write) (simp add: page_file_write_def)
  show "readPageInternal q (pm \<lparr>pm_file := page_file_write (unat i) (Page_Serialize pg) (pm_file pm)\<rparr>) =
      (if q = i then Page_Deserialize (Page_Serialize pg) else readPageInternal q pm)"
    using i lt by (auto simp: readPageInternal_def page_file_read_write dest: word_unat_eq_iff [THEN iffD2])
qed

lemma pop_laws:
  assumes "pm_ok pm" "fl_pages (pm_free pm) \<noteq> []"
  shows "FreeList_Pop (pm_free pm) = (Some (last (fl_pages (pm_free pm))), snd (FreeList_Pop (pm_free pm)))"
    "0 < last (fl_pages (pm_free pm))" "last (fl_pages (pm_free pm)) < pm_total pm"
    "pm_ok (pm \<lparr>pm_free := snd (FreeList_Pop (pm_free pm))\<rparr>)"
    "set (fl_pages (snd (FreeList_Pop (pm_free pm)))) = set (fl_pages (pm_free pm)) - {last (fl_pages (pm_free pm))}"
proof -
  let ?ps = "fl_pages (pm_free pm)"
  have d: "distinct (butlast ?ps @ [last ?ps])" using assms by (simp add: pm_ok_def)
  have d': "distinct (butlast ?ps)" "last ?ps \<notin> set (butlast ?ps)" using d unfolding distinct_append by auto
  have ps: "set ?ps = insert (last ?ps) (set (butlast ?ps))"
    using arg_cong [OF append_butlast_last_id [OF assms(2)], of set] by simp
  show "FreeList_Pop (pm_free pm) = (Some (last ?ps), snd (FreeList_Pop (pm_free pm)))"
    using assms(2) by (simp add: FreeList_Pop_def)
  show "0 < last ?ps" "last ?ps < pm_total pm" using assms last_in_set [OF assms(2)] by (auto simp: pm_ok_def)
  show "pm_ok (pm \<lparr>pm_free := snd (FreeList_Pop (pm_free pm))\<rparr>)"
    using assms d' by (auto simp: pm_ok_def FreeList_Pop_def dest!: in_set_butlastD)
  show "set (fl_pages (snd (FreeList_Pop (pm_free pm)))) = set ?ps - {last ?ps}"
    using assms(2) d' unfolding ps by (simp add: FreeList_Pop_def)
qed

lemma fold_push: "fl_pages (fold (\<lambda>i. FreeList_Push (of_nat i)) is fl) = fl_pages fl @ map of_nat is"
  by (induction "is" arbitrary: fl) (simp_all add: FreeList_Push_def)

lemma grow_laws:
  assumes "pm_ok pm" "unat (pm_total pm) + 8 < 2 ^ 64"
  shows "pm_ok (growFileLocked pm)" "pm_total (growFileLocked pm) = pm_total pm + 8"
    "pm_total pm < pm_total pm + 8"
    "q \<in> set (fl_pages (pm_free (growFileLocked pm))) \<Longrightarrow> q \<in> set (fl_pages (pm_free pm)) \<or> pm_total pm < q"
    "q < pm_total pm \<Longrightarrow> readPageInternal q (growFileLocked pm) = readPageInternal q pm"
proof -
  define n where "n = unat (pm_total pm + 8)"
  have n: "n = unat (pm_total pm) + 8"
    using assms(2) unfolding n_def by (subst unat_add_lem [THEN iffD1]) simp_all
  have new: "unat (of_nat n' :: uint64) = n'" if "n' < n" for n'
    using that n assms(2) by (simp add: unat_of_nat take_bit_nat_eq_self)
  show lt: "pm_total pm < pm_total pm + 8" unfolding word_less_nat_alt n_def [symmetric] n by simp
  show "pm_total (growFileLocked pm) = pm_total pm + 8" by (simp add: growFileLocked_def Let_def)
  have free: "fl_pages (pm_free (growFileLocked pm)) = fl_pages (pm_free pm) @ map of_nat [unat (pm_total pm) + 1..<n]"
    unfolding growFileLocked_def Let_def n_def [symmetric] by (simp add: fold_push)
  have above: "pm_total pm < of_nat i" "(of_nat i :: uint64) < pm_total pm + 8" if "unat (pm_total pm) < i" "i < n" for i
    using that new [OF that(2)] unfolding word_less_nat_alt n_def [symmetric] by simp_all
  have "inj_on (of_nat :: nat \<Rightarrow> uint64) {unat (pm_total pm) + 1..<n}"
    by (rule inj_onI) (metis atLeastLessThan_iff new)
  then have "distinct (map (of_nat :: nat \<Rightarrow> uint64) [unat (pm_total pm) + 1..<n])" by (simp add: distinct_map)
  moreover have "set (fl_pages (pm_free pm)) \<inter> of_nat ` {unat (pm_total pm) + 1..<n} = {}"
    using assms(1) above(1) by (auto simp: pm_ok_def Suc_le_eq) (metis order_less_asym)
  ultimately have d: "distinct (fl_pages (pm_free (growFileLocked pm)))"
    using assms(1) unfolding free by (simp add: pm_ok_def)
  have range: "0 < p \<and> p < pm_total pm + 8" if "p \<in> set (fl_pages (pm_free (growFileLocked pm)))" for p
    using that assms(1) above lt unfolding free pm_ok_def by (force intro: less_trans)
  have fields: "pm_file (growFileLocked pm) = page_file_truncate n (pm_file pm)" "pm_total (growFileLocked pm) = pm_total pm + 8"
    by (simp_all add: growFileLocked_def Let_def n_def)
  have "unat (pm_total pm + 8) \<le> f_pages (page_file_truncate n (pm_file pm))" by (simp add: page_file_truncate_def n_def)
  then show "pm_ok (growFileLocked pm)"
    using assms(1) d range lt page_file_truncate_laws(1) [of "pm_file pm" n] unfolding pm_ok_def fields
    by (auto intro: less_trans)
  show "q \<in> set (fl_pages (pm_free pm)) \<or> pm_total pm < q" if "q \<in> set (fl_pages (pm_free (growFileLocked pm)))"
    using that above unfolding free by auto
  show "readPageInternal q (growFileLocked pm) = readPageInternal q pm" if "q < pm_total pm"
  proof -
    have "unat q < unat (pm_total pm)" using that by (simp add: word_less_nat_alt)
    then have "page_file_read (unat q) (page_file_truncate n (pm_file pm)) = page_file_read (unat q) (pm_file pm)"
      using assms(1) page_file_truncate_laws(2) [of "pm_file pm" "unat q" n] n by (simp add: pm_ok_def)
    moreover have "\<not> pm_total pm \<le> q" "\<not> pm_total pm + 8 \<le> q" using that lt by auto
    ultimately show ?thesis
      unfolding readPageInternal_def growFileLocked_def Let_def n_def [symmetric] by simp
  qed
qed

text \<open>
  What an allocation does to a well-formed manager: the page is fresh, reads as new, and the
  other pages below the old total that are not free are as before.
\<close>

lemma alloc_laws:
  assumes ok: "pm_ok pm" and "\<not> pm_closed pm" "\<not> pm_readonly pm" "unat (pm_total pm) + 8 < 2 ^ 64"
  obtains p pm' where "AllocatePage t pm = (Ok p, pm')" "pm_ok pm'" "\<not> pm_closed pm'" "\<not> pm_readonly pm'"
    "p \<in> set (fl_pages (pm_free pm)) \<or> p = pm_total pm" "0 < p" "p < pm_total pm'" "pm_total pm \<le> pm_total pm'"
    "p \<notin> set (fl_pages (pm_free pm'))"
    "\<And>q. q < pm_total pm \<Longrightarrow> q \<in> set (fl_pages (pm_free pm')) \<Longrightarrow> q \<in> set (fl_pages (pm_free pm))"
    "ReadPage p pm' = Ok (stored (NewPage p t))"
    "\<And>q. q < pm_total pm \<Longrightarrow> q \<noteq> p \<Longrightarrow> ReadPage q pm' = ReadPage q pm"
    "unat (pm_total pm') \<le> unat (pm_total pm) + 8"
proof (cases "fl_pages (pm_free pm) = []")
  case False
  obtain fl where fl: "FreeList_Pop (pm_free pm) = (Some (last (fl_pages (pm_free pm))), fl)"
    using pop_laws(1) [OF ok False] by blast
  let ?p = "last (fl_pages (pm_free pm))" and ?pm = "pm \<lparr>pm_free := fl\<rparr>"
  let ?pm' = "?pm \<lparr>pm_file := page_file_write (unat ?p) (Page_Serialize (NewPage ?p t)) (pm_file ?pm)\<rparr>"
  note pop = pop_laws(2-5) [OF ok False, unfolded fl snd_conv]
  have p: "?p < pm_total ?pm" using pop(2) by simp
  note w = write_laws [OF pop(3) pop(1) p length_NewPage(2) [of _ t]]
  have a: "AllocatePage t pm = (Ok ?p, ?pm')"
    using assms(2,3) by (simp add: AllocatePage_def fl w(1))
  show thesis
  proof (rule that [OF a w(2)])
    show "ReadPage ?p ?pm' = Ok (stored (NewPage ?p t))"
      using assms(2) w(3) [of ?p] by (simp add: ReadPage_def Page_roundtrip)
    show "ReadPage q ?pm' = ReadPage q pm" if "q \<noteq> ?p" for q
      using that w(3) [of q] by (simp add: ReadPage_def readPageInternal_def)
  qed (use assms(2,3) pop False in \<open>auto\<close>)
next
  case True
  let ?p = "pm_total pm" and ?pm = "growFileLocked pm"
  let ?pm' = "?pm \<lparr>pm_file := page_file_write (unat ?p) (Page_Serialize (NewPage ?p t)) (pm_file ?pm)\<rparr>"
  note grow = grow_laws [OF ok assms(4)]
  have p: "0 < ?p" "?p < pm_total ?pm" using ok grow(2,3) by (simp_all add: pm_ok_def)
  have flags: "\<not> pm_closed ?pm" "\<not> pm_readonly ?pm" using assms(2,3) by (simp_all add: growFileLocked_def Let_def)
  note w = write_laws [OF grow(1) p length_NewPage(2) [of _ t]]
  have a: "AllocatePage t pm = (Ok ?p, ?pm')"
    using assms(2,3) w(1) True by (simp add: AllocatePage_def FreeList_Pop_def Let_def)
  have free: "q \<in> set (fl_pages (pm_free ?pm)) \<Longrightarrow> ?p < q" for q using grow(4) [of q] True by simp
  show thesis
  proof (rule that [OF a w(2)])
    show "ReadPage ?p ?pm' = Ok (stored (NewPage ?p t))"
      using flags w(3) [of ?p] by (simp add: ReadPage_def Page_roundtrip)
    show "ReadPage q ?pm' = ReadPage q pm" if "q < ?p" "q \<noteq> ?p" for q
      using that w(3) [of q] grow(5) [of q] flags assms(2) by (simp add: ReadPage_def)
    show "q \<in> set (fl_pages (pm_free pm))" if "q < ?p" "q \<in> set (fl_pages (pm_free ?pm'))" for q
      using that free [of q] by auto
    show "unat (pm_total ?pm') \<le> unat ?p + 8" using grow(2) by (simp add: unat_word_ariths)
  qed (use flags p grow(2,3) free in \<open>auto\<close>)
qed

definition run_ok :: "uint64 set \<Rightarrow> page_manager \<Rightarrow> bool" where
  "run_ok U pm \<longleftrightarrow> pm_ok pm \<and> \<not> pm_closed pm \<and> \<not> pm_readonly pm \<and>
     (\<forall>p \<in> U. 0 < p \<and> p < pm_total pm \<and> p \<notin> set (fl_pages (pm_free pm)))"

lemma run_ok_new:
  assumes "n < 2 ^ 64"
  shows "run_ok {} (initializeNew n)"
proof -
  define m where "m = max 1 n"
  have m: "0 < m" "m < 2 ^ 64" using assms by (auto simp: m_def)
  have un: "unat (of_nat i :: uint64) = i" if "i \<le> m" for i
    using that m(2) by (simp add: unat_of_nat take_bit_nat_eq_self)
  have free: "fl_pages (pm_free (initializeNew n)) = map of_nat [1..<m]"
    unfolding initializeNew_def Let_def m_def [symmetric] by (simp add: fold_push NewFreeList_def)
  have fields: "pm_total (initializeNew n) = of_nat m" "f_pages (pm_file (initializeNew n)) = m"
    "\<not> pm_closed (initializeNew n)" "\<not> pm_readonly (initializeNew n)"
    unfolding initializeNew_def Let_def m_def [symmetric] by (simp_all add: page_file_truncate_def)
  have "inj_on (of_nat :: nat \<Rightarrow> uint64) {1..<m}" by (rule inj_onI) (metis atLeastLessThan_iff less_imp_le un)
  moreover have "file_ok (pm_file (initializeNew n))"
    unfolding initializeNew_def Let_def
    by (simp add: file_ok_def NewFileHeader_def Magic_def page_file_truncate_def page_file_write_def)
  moreover have "0 < (of_nat i :: uint64) \<and> (of_nat i :: uint64) < of_nat m" if "0 < i" "i < m" for i
    using that un [of i] un [of m] by (simp add: word_less_nat_alt)
  ultimately show ?thesis
    using fields un [of m] m(1) unfolding run_ok_def pm_ok_def free
    by (auto simp: distinct_map word_less_nat_alt)
qed

lemma run_ok_write:
  assumes "run_ok U pm" "WritePage pg pm = (Ok (), pm')"
  shows "run_ok U pm'"
proof -
  let ?i = "ph_id (p_header pg)"
  have ok: "pm_ok pm" "\<not> pm_closed pm" "\<not> pm_readonly pm" using assms(1) by (simp_all add: run_ok_def)
  then have w: "writePageInternal pg pm = (Ok (), pm')" using assms(2) by (simp add: WritePage_def)
  then have "0 < ?i" "?i < pm_total pm" by (auto simp: writePageInternal_def Let_def word_neq_0_conv split: if_splits)
  from write_laws [OF ok(1) this refl] w assms(1) show ?thesis by (auto simp: run_ok_def)
qed

lemma run_ok_free:
  assumes "run_ok U pm" "FreePage p pm = (Ok (), pm')"
  shows "run_ok (U - {p}) pm'"
proof -
  have ok: "pm_ok pm" "\<not> pm_closed pm" "\<not> pm_readonly pm" using assms(1) by (simp_all add: run_ok_def)
  then have p: "0 < p" "p < pm_total pm" "p \<notin> set (fl_pages (pm_free pm))"
    using assms(2) by (auto simp: FreePage_def FreeList_Contains_def word_neq_0_conv split: if_splits)
  note w = write_laws [OF ok(1) p(1,2) length_NewPage(2) [of _ PageTypeFree]]
  from w(1) have pm': "pm' = (let pm1 = pm \<lparr>pm_file := page_file_write (unat p) (Page_Serialize (NewPage p PageTypeFree)) (pm_file pm)\<rparr>
      in pm1 \<lparr>pm_free := FreeList_Push p (pm_free pm1)\<rparr>)"
    using assms(2) ok p by (auto simp: FreePage_def split: if_splits)
  show ?thesis
    using w(2) assms(1) p unfolding pm' Let_def by (auto simp: run_ok_def pm_ok_def FreeList_Push_def)
qed

lemma run_ok_alloc:
  assumes "run_ok U pm" "unat (pm_total pm) + 8 < 2 ^ 64" "AllocatePage t pm = (Ok p, pm')"
  shows "run_ok (insert p U) pm'"
proof -
  have ok: "pm_ok pm" "\<not> pm_closed pm" "\<not> pm_readonly pm"
    and U: "\<And>q. q \<in> U \<Longrightarrow> 0 < q \<and> q < pm_total pm \<and> q \<notin> set (fl_pages (pm_free pm))"
    using assms(1) by (auto simp: run_ok_def)
  obtain p1 pm1 where a: "AllocatePage t pm = (Ok p1, pm1)" "pm_ok pm1" "\<not> pm_closed pm1" "\<not> pm_readonly pm1"
    "0 < p1" "p1 < pm_total pm1" "pm_total pm \<le> pm_total pm1" "p1 \<notin> set (fl_pages (pm_free pm1))"
    "\<And>q. q < pm_total pm \<Longrightarrow> q \<in> set (fl_pages (pm_free pm1)) \<Longrightarrow> q \<in> set (fl_pages (pm_free pm))"
    by (rule alloc_laws [OF ok assms(2), of t]) blast
  have eq: "p1 = p" "pm1 = pm'" using a(1) assms(3) by simp_all
  have "0 < q \<and> q < pm_total pm1 \<and> q \<notin> set (fl_pages (pm_free pm1))" if "q \<in> U" for q
    using U [OF that] a(7) a(9) [of q] by (auto intro: less_le_trans)
  with a show ?thesis unfolding run_ok_def eq by simp
qed

lemma pm_run_ok: "pm_run U pm \<Longrightarrow> run_ok U pm"
  by (induction rule: pm_run.induct) (auto intro: run_ok_new run_ok_alloc run_ok_free run_ok_write)

text \<open>
  C34. In every run of an open page manager, allocation succeeds and hands out a page that is not
  the header and not in use by anyone; the page reads back as a new page of its type, and every
  page in use reads as before the allocation.
\<close>

theorem allocation_is_exclusive:
  assumes "pm_run U pm" and "unat (pm_total pm) + 8 < 2 ^ 64"
  shows "\<exists>p pm'. AllocatePage t pm = (Ok p, pm') \<and> p \<notin> U \<and> p \<noteq> 0 \<and>
    ReadPage p pm' = Ok (stored (NewPage p t)) \<and> (\<forall>q \<in> U. ReadPage q pm' = ReadPage q pm)"
proof -
  have run: "run_ok U pm" by (rule pm_run_ok [OF assms(1)])
  then have ok: "pm_ok pm" "\<not> pm_closed pm" "\<not> pm_readonly pm" by (simp_all add: run_ok_def)
  obtain p pm' where a: "AllocatePage t pm = (Ok p, pm')" "p \<in> set (fl_pages (pm_free pm)) \<or> p = pm_total pm" "0 < p"
    "ReadPage p pm' = Ok (stored (NewPage p t))"
    "\<And>q. q < pm_total pm \<Longrightarrow> q \<noteq> p \<Longrightarrow> ReadPage q pm' = ReadPage q pm"
    by (rule alloc_laws [OF ok assms(2), of t]) blast
  have U: "q < pm_total pm \<and> q \<noteq> p" if "q \<in> U" for q using run that a(2) by (auto simp: run_ok_def)
  then have "p \<notin> U" by blast
  with a U show ?thesis by (intro exI [of _ p] exI [of _ pm']) auto
qed

theorem allocation_is_exclusive_witness:
  "\<exists>p pm'. AllocatePage PageTypeData (initializeNew 16) = (Ok p, pm') \<and> p \<noteq> 0 \<and>
    ReadPage p pm' = Ok (stored (NewPage p PageTypeData))"
proof -
  have run: "pm_run {} (initializeNew 16)" by (rule pm_run.new) simp
  have "unat (pm_total (initializeNew 16)) + 8 < 2 ^ 64" by (simp add: initializeNew_def Let_def)
  from allocation_is_exclusive [OF run this, of PageTypeData] show ?thesis by blast
qed

end
