(* ===== verification/Page_Reopen.thy ===== *)
theory Page_Reopen
  imports Page_Props
begin

text \<open>
  Closing and reopening the page manager: the free list survives a close, and a page allocated
  after it is handed out again after a crash, even when the file was synced.
\<close>

section \<open>The file header\<close>

lemma FileHeader_roundtrip:
  assumes "fh_magic h = Magic"
  shows "FileHeader_Deserialize (FileHeader_Serialize h) = Ok (h \<lparr>fh_checksum := crc32 (header_fields h)\<rparr>)"
proof -
  have m: "length (fh_magic h) = 4" using assms by (simp add: Magic_def)
  have fields: "take 4 (FileHeader_Serialize h) = fh_magic h"
    "take 4 (drop 4 (FileHeader_Serialize h)) = put_le 4 (fh_version h)"
    "take 4 (drop 8 (FileHeader_Serialize h)) = put_le 4 (fh_page_size h)"
    "take 8 (drop 12 (FileHeader_Serialize h)) = put_le 8 (fh_total h)"
    "take 8 (drop 20 (FileHeader_Serialize h)) = put_le 8 (fh_free_head h)"
    "take 8 (drop 28 (FileHeader_Serialize h)) = put_le 8 (fh_dn_index h)"
    "take 8 (drop 36 (FileHeader_Serialize h)) = put_le 8 (fh_data_root h)"
    "take 4 (drop 44 (FileHeader_Serialize h)) = put_le 4 (crc32 (header_fields h))"
    using m by (simp_all add: FileHeader_Serialize_def header_fields_def)
  show ?thesis
    using length_FileHeader_Serialize [OF m]
    by (simp add: FileHeader_Deserialize_def fields del: length_FileHeader_Serialize)
qed

lemma FileHeader_valid:
  "fh_magic h = Magic \<Longrightarrow> fh_version h = 1 \<Longrightarrow> fh_checksum h = crc32 (header_fields h) \<Longrightarrow> FileHeader_Validate h = None"
  by (simp add: FileHeader_Validate_def)

lemma header_fields_checksum [simp]: "header_fields (h \<lparr>fh_checksum := c\<rparr>) = header_fields h"
  by (simp add: header_fields_def)

section \<open>The saved free list\<close>

abbreviation chunk :: "nat \<Rightarrow> 'a list \<Rightarrow> 'a list" where
  "chunk i xs \<equiv> take 509 (drop (i * 509) xs)"

lemma concat_chunks: "concat (map (\<lambda>i. chunk i xs) [0..<n]) = take (n * 509) xs"
proof (induction n)
  case (Suc n)
  have "take (Suc n * 509) xs = take (n * 509) xs @ take 509 (drop (n * 509) xs)"
    by (simp add: take_add [symmetric] add.commute)
  with Suc show ?case by simp
qed simp

lemma drop_concat_le8:
  "i < length es \<Longrightarrow> take 8 (drop (i * 8) (concat (map (put_le 8) es) @ ys)) = put_le 8 (es ! i)"
proof (induction es arbitrary: i)
  case (Cons e es)
  then show ?case by (cases i) auto
qed simp

lemma drop_put8: "drop (8 + n) (put_le 8 w @ xs) = drop n xs"
  by simp

lemma data_free_list_page:
  assumes "length es \<le> 509"
  shows "p_data (free_list_page pid es nxt) =
    put_le 8 nxt @ concat (map (put_le 8) es) @ replicate (4072 - 8 * length es) 0"
proof -
  have len: "length (concat (map (put_le 8) es)) = 8 * length es" by (induction es) simp_all
  show ?thesis
    using assms by (simp add: free_list_page_def Let_def NewPage_def go_copy_within len)
qed

lemma free_list_page_laws:
  assumes "length es \<le> 509" "0 \<notin> set es"
  shows "length (p_data (free_list_page pid es nxt)) = 4080" "ph_id (p_header (free_list_page pid es nxt)) = pid"
    "GetNextPageID (stored (free_list_page pid es nxt)) = nxt"
    "free_entries (stored (free_list_page pid es nxt)) = es"
proof -
  let ?p = "free_list_page pid es nxt"
  have len: "length (concat (map (put_le 8) es)) = 8 * length es" by (induction es) simp_all
  show l: "length (p_data ?p) = 4080" using assms(1) by (simp add: data_free_list_page len)
  show "ph_id (p_header ?p) = pid" by (simp add: free_list_page_def Let_def)
  show "GetNextPageID (stored ?p) = nxt"
    using l assms(1) by (simp add: GetNextPageID_def stored_def data_free_list_page)
  have items: "unat (ph_items (p_header ?p)) = length es"
    using assms(1) by (simp add: free_list_page_def Let_def unat_of_nat take_bit_nat_eq_self)
  have entry: "get_le (take 8 (drop (8 + i * 8) (p_data ?p))) = es ! i" if "i < length es" for i
    unfolding data_free_list_page [OF assms(1)] drop_put8 drop_concat_le8 [OF that] by simp
  have all: "filter (\<lambda>i. 8 + i * 8 + 8 \<le> 4080) [0..<length es] = [0..<length es]"
    using assms(1) by (intro filter_True) auto
  have "map (\<lambda>i. get_le (take 8 (drop (8 + i * 8) (p_data ?p)))) [0..<length es] = es"
    by (rule nth_equalityI) (simp_all add: entry)
  then show "free_entries (stored ?p) = es"
    using assms l all by (auto simp: free_entries_def stored_def items min_absorb1 filter_id_conv)
qed

text \<open>What the saved pages read as: page \<open>i\<close> holds chunk \<open>i\<close> and points to the next one.\<close>

lemma save_free_pages_laws:
  assumes "pm_ok pm" "0 < start" "unat start + n \<le> unat (pm_total pm)" "0 \<notin> set free"
  shows "\<exists>f. save_free_pages n start free prev pm = (Ok (if n = 0 then prev else start), pm \<lparr>pm_file := f\<rparr>) \<and>
    pm_ok (pm \<lparr>pm_file := f\<rparr>) \<and>
    (\<forall>q. readPageInternal q (pm \<lparr>pm_file := f\<rparr>) =
       (if start \<le> q \<and> unat q < unat start + n
        then let i = unat q - unat start
             in Ok (stored (free_list_page q (chunk i free) (if Suc i = n then prev else q + 1)))
        else readPageInternal q pm))"
  using assms
proof (induction n arbitrary: prev pm)
  case 0
  then show ?case by (intro exI [of _ "pm_file pm"]) (auto simp: word_le_nat_alt)
next
  case (Suc n)
  let ?p = "start + of_nat n"
  let ?pg = "free_list_page ?p (chunk n free) prev"
  let ?f = "page_file_write (unat ?p) (Page_Serialize ?pg) (pm_file pm)"
  have up: "unat ?p = unat start + n"
    using Suc.prems(3) unsigned_less [of "pm_total pm", where 'a = nat]
    by (subst unat_add_lem [THEN iffD1]) (simp_all add: unat_of_nat take_bit_nat_eq_self)
  then have p: "0 < ?p" "?p < pm_total pm" using Suc.prems(2,3) by (simp_all add: word_less_nat_alt)
  note laws = free_list_page_laws [of "chunk n free" ?p prev]
  have es: "length (chunk n free) \<le> 509" "0 \<notin> set (chunk n free)"
    using Suc.prems(4) by (auto dest: in_set_takeD in_set_dropD)
  note w = write_laws [OF Suc.prems(1) p, of ?pg]
  have pg: "ph_id (p_header ?pg) = ?p" "Page_Deserialize (Page_Serialize ?pg) = Ok (stored ?pg)"
    using laws(1,2) [OF es] by (simp_all add: Page_roundtrip)
  obtain f where f: "save_free_pages n start free ?p (pm \<lparr>pm_file := ?f\<rparr>) =
        (Ok (if n = 0 then ?p else start), pm \<lparr>pm_file := f\<rparr>)"
      "pm_ok (pm \<lparr>pm_file := f\<rparr>)"
      "\<And>q. readPageInternal q (pm \<lparr>pm_file := f\<rparr>) =
       (if start \<le> q \<and> unat q < unat start + n
        then let i = unat q - unat start
             in Ok (stored (free_list_page q (chunk i free) (if Suc i = n then ?p else q + 1)))
        else readPageInternal q (pm \<lparr>pm_file := ?f\<rparr>))"
    using Suc.IH [of "pm \<lparr>pm_file := ?f\<rparr>" ?p] w(2) [OF pg(1)] Suc.prems(2-4) by auto
  have run: "save_free_pages (Suc n) start free prev pm = (Ok start, pm \<lparr>pm_file := f\<rparr>)"
    using f(1) w(1) [OF pg(1)] by (simp add: Let_def split: if_splits)
  show ?case
  proof (intro exI [of _ f] conjI allI)
    fix q
    have here: "unat q = unat start + n \<longleftrightarrow> q = ?p" using up by (metis word_unat_eq_iff)
    consider "q = ?p" | "start \<le> q" "unat q < unat start + n" | "\<not> (start \<le> q \<and> unat q < unat start + Suc n)" "q \<noteq> ?p"
      using here up by (fastforce simp: word_le_nat_alt)
    then show "readPageInternal q (pm \<lparr>pm_file := f\<rparr>) =
       (if start \<le> q \<and> unat q < unat start + Suc n
        then let i = unat q - unat start
             in Ok (stored (free_list_page q (chunk i free) (if Suc i = Suc n then prev else q + 1)))
        else readPageInternal q pm)"
    proof cases
      case 1
      then show ?thesis using f(3) [of q] w(3) [OF pg(1), of q] pg(2) up by (simp add: Let_def word_le_nat_alt)
    next
      case 2
      have "q + 1 = ?p" if "Suc (unat q - unat start) = n"
      proof -
        have "unat q + 1 = unat start + n" using 2 that by (simp add: word_le_nat_alt)
        then have "(of_nat (unat q + 1) :: uint64) = of_nat (unat start + n)" by (rule arg_cong)
        then show ?thesis by (simp add: add.commute)
      qed
      with 2 show ?thesis using f(3) [of q] by (auto simp: Let_def word_le_nat_alt)
    next
      case 3
      then show ?thesis using f(3) [of q] w(3) [OF pg(1), of q] by auto
    qed
  qed (use run f(2) in simp_all)
qed

lemma chain_reads:
  assumes read: "\<And>q. start \<le> q \<Longrightarrow> unat q < unat start + n \<Longrightarrow> readPageInternal q pm =
      Ok (stored (free_list_page q (chunk (unat q - unat start) free) (if Suc (unat q - unat start) = n then 0 else q + 1)))"
    and "0 < start" "unat start + n < 2 ^ 64" "0 \<notin> set free"
  shows "i \<le> n \<Longrightarrow> fuel \<ge> n - i \<Longrightarrow>
    \<exists>ps. free_list_chain fuel (if i = n then 0 else start + of_nat i) pm = Some (Ok ps) \<and>
      concat (map free_entries ps) = concat (map (\<lambda>j. chunk j free) [i..<n])"
proof (induction "n - i" arbitrary: i fuel)
  case 0
  then show ?case by (intro exI [of _ "[]"]) (simp add: free_list_chain.simps)
next
  case (Suc m)
  let ?q = "start + of_nat i"
  obtain fuel' where fuel: "fuel = Suc fuel'" using Suc.hyps(2) Suc.prems(2) by (cases fuel) auto
  have i: "i < n" and m: "m = n - Suc i" using Suc.hyps(2) by simp_all
  have uq: "unat ?q = unat start + i"
    using assms(3) i by (subst unat_add_lem [THEN iffD1]) (simp_all add: unat_of_nat take_bit_nat_eq_self)
  then have q: "start \<le> ?q" "unat ?q < unat start + n" "?q \<noteq> 0"
    using assms(2) i by (auto simp: word_le_nat_alt unat_gt_0)
  let ?pg = "free_list_page ?q (chunk i free) (if Suc i = n then 0 else ?q + 1)"
  have pg: "readPageInternal ?q pm = Ok (stored ?pg)" using read [OF q(1,2)] uq by simp
  have es: "length (chunk i free) \<le> 509" "0 \<notin> set (chunk i free)"
    using assms(4) by (auto dest: in_set_takeD in_set_dropD)
  note laws = free_list_page_laws(3,4) [OF es, of ?q "if Suc i = n then 0 else ?q + 1"]
  have "n - Suc i \<le> fuel'" using Suc.prems(2) i unfolding fuel by linarith
  then obtain ps where ps: "free_list_chain fuel' (if Suc i = n then 0 else start + of_nat (Suc i)) pm = Some (Ok ps)"
      "concat (map free_entries ps) = concat (map (\<lambda>j. chunk j free) [Suc i..<n])"
    using Suc.hyps(1) [OF m, of fuel'] i by auto
  have nxt: "(if Suc i = n then 0 else ?q + 1) = (if Suc i = n then 0 else start + of_nat (Suc i))"
    by (simp add: add.assoc add.commute)
  have "free_list_chain fuel ?q pm = Some (Ok (stored ?pg # ps))"
    using q(3) pg laws(1) ps(1) unfolding fuel nxt by (subst free_list_chain.simps) simp
  moreover have "[i..<n] = i # [Suc i..<n]" using i by (rule upt_conv_Cons)
  ultimately show ?case using i laws(2) ps(2) by (intro exI [of _ "stored ?pg # ps"]) simp
qed

lemma fold_push_pages: "fl_pages (fold FreeList_Push ps fl) = fl_pages fl @ ps"
  by (induction ps arbitrary: fl) (simp_all add: FreeList_Push_def)

text \<open>A file that holds a free list in the \<open>n\<close> pages from \<open>start\<close> on.\<close>

definition saved_list :: "data_file \<Rightarrow> uint64 \<Rightarrow> nat \<Rightarrow> uint64 list \<Rightarrow> bool" where
  "saved_list f start n free \<longleftrightarrow>
     0 < start \<and> 0 < n \<and> unat start + n < 2 ^ 64 \<and> 0 \<notin> set free \<and> length free \<le> n * 509 \<and>
     unat start + n \<le> f_pages f \<and>
     (\<forall>q. start \<le> q \<and> unat q < unat start + n \<longrightarrow>
        \<not> length (page_file_read (unat q) f) < 4096 \<and>
        Page_Deserialize (page_file_read (unat q) f) = Ok (stored (free_list_page q (chunk (unat q - unat start) free)
          (if Suc (unat q - unat start) = n then 0 else q + 1))))"

text \<open>A file whose header is valid and names such a list.\<close>

definition saved_file :: "data_file \<Rightarrow> file_header \<Rightarrow> nat \<Rightarrow> uint64 list \<Rightarrow> bool" where
  "saved_file f h n free \<longleftrightarrow>
     page_file_read 0 f = FileHeader_Serialize h \<and> fh_magic h = Magic \<and> fh_version h = 1 \<and>
     unat (fh_free_head h) + n \<le> unat (fh_total h) \<and> saved_list f (fh_free_head h) n free"

lemma loadExisting_saved:
  assumes "saved_file f h n free"
  shows "\<exists>pm. loadExisting f = Some (Ok pm) \<and> pm_file pm = f \<and> pm_total pm = fh_total h \<and>
    fl_pages (pm_free pm) = free \<and> pm_header pm = h \<lparr>fh_checksum := crc32 (header_fields h)\<rparr> \<and>
    \<not> pm_closed pm \<and> \<not> pm_readonly pm"
proof -
  let ?h = "h \<lparr>fh_checksum := crc32 (header_fields h)\<rparr>" and ?start = "fh_free_head h"
  let ?pm = "\<lparr>pm_file = f, pm_header = ?h, pm_total = fh_total ?h, pm_free = NewFreeList, pm_readonly = False, pm_closed = False\<rparr>"
  have h: "page_file_read 0 f = FileHeader_Serialize h" "fh_magic h = Magic" "fh_version h = 1"
    "unat ?start + n \<le> unat (fh_total h)" and l: "saved_list f ?start n free"
    using assms by (simp_all add: saved_file_def)
  have "readPageInternal q ?pm = Ok (stored (free_list_page q (chunk (unat q - unat ?start) free)
      (if Suc (unat q - unat ?start) = n then 0 else q + 1)))"
    if "?start \<le> q" "unat q < unat ?start + n" for q
  proof -
    have "q \<noteq> 0" "\<not> fh_total h \<le> q" using that l h(4) by (auto simp: saved_list_def word_le_nat_alt word_less_nat_alt)
    then show ?thesis using that l by (simp add: readPageInternal_def saved_list_def)
  qed
  moreover have n: "0 < ?start" "0 < n" "unat ?start + n < 2 ^ 64" "0 \<notin> set free" "length free \<le> n * 509" "n \<le> f_pages f"
    using l by (auto simp: saved_list_def)
  ultimately obtain ps where ps: "free_list_chain (f_pages f) ?start ?pm = Some (Ok ps)"
      "concat (map free_entries ps) = concat (map (\<lambda>j. chunk j free) [0..<n])"
    using chain_reads [of ?start n ?pm free 0 "f_pages f"] by auto
  then have free: "concat (map free_entries ps) = free" using n(5) by (simp add: concat_chunks)
  have "loadExisting f = loadFreeList ?pm"
    using FileHeader_roundtrip [OF h(2)] FileHeader_valid [of ?h] h by (simp add: loadExisting_def)
  also have "\<dots> = Some (Ok (?pm \<lparr>pm_free := LoadFromPages ps (NewFreeList \<lparr>fl_head := ?start\<rparr>)\<rparr>))"
    using n(1) ps(1) by (simp add: loadFreeList_def Let_def word_gt_0)
  finally show ?thesis
    by (intro exI [of _ "?pm \<lparr>pm_free := LoadFromPages ps (NewFreeList \<lparr>fl_head := ?start\<rparr>)\<rparr>"])
      (simp add: LoadFromPages_def fold_push_pages free)
qed

lemma saved_file_write:
  assumes "saved_file f h n free" "0 < i" "i < fh_free_head h"
  shows "saved_file (page_file_write (unat i) b f) h n free"
proof -
  have i: "unat i \<noteq> 0" "unat i < unat (fh_free_head h)" using assms(2,3) by (simp_all add: word_less_nat_alt unat_gt_0)
  have "unat i < f_pages f" using assms(1) i by (auto simp: saved_file_def saved_list_def)
  then have "page_file_read (unat q) (page_file_write (unat i) b f) = page_file_read (unat q) f" if "fh_free_head h \<le> q" for q
    using i that by (simp add: page_file_read_write word_le_nat_alt)
  moreover have "page_file_read 0 (page_file_write (unat i) b f) = page_file_read 0 f"
    using i \<open>unat i < f_pages f\<close> by (simp add: page_file_read_write)
  moreover have "f_pages (page_file_write (unat i) b f) = f_pages f" using \<open>unat i < f_pages f\<close> by (simp add: page_file_write_def)
  ultimately show ?thesis using assms(1) by (auto simp: saved_file_def saved_list_def)
qed

lemma saved_file_header:
  assumes "saved_list f (fh_free_head h) n free" "fh_magic h = Magic" "fh_version h = 1"
    "unat (fh_free_head h) + n \<le> unat (fh_total h)"
  shows "saved_file (page_file_write 0 (FileHeader_Serialize h) f) h n free"
proof -
  have f: "0 < f_pages f" using assms(1) by (auto simp: saved_list_def)
  have "page_file_read (unat q) (page_file_write 0 b f) = page_file_read (unat q) f" if "fh_free_head h \<le> q" for q b
    using that assms(1) f by (auto simp: page_file_read_write saved_list_def word_le_nat_alt word_less_nat_alt)
  moreover have "f_pages (page_file_write 0 b f) = f_pages f" for b using f by (simp add: page_file_write_def)
  ultimately show ?thesis using assms f by (auto simp: saved_file_def saved_list_def page_file_read_write)
qed

section \<open>Closing\<close>

lemma readPageInternal_cong:
  "q < pm_total a \<Longrightarrow> q < pm_total b \<Longrightarrow> page_file_read (unat q) (pm_file a) = page_file_read (unat q) (pm_file b) \<Longrightarrow>
     readPageInternal q a = readPageInternal q b"
  by (simp add: readPageInternal_def not_le [symmetric])

lemma readPageInternal_Ok:
  "readPageInternal q pm = Ok p \<Longrightarrow>
     \<not> length (page_file_read (unat q) (pm_file pm)) < 4096 \<and> Page_Deserialize (page_file_read (unat q) (pm_file pm)) = Ok p"
  by (simp add: readPageInternal_def Let_def split: if_splits)

lemma close_laws:
  assumes ok: "pm_ok pm" "\<not> pm_closed pm" "\<not> pm_readonly pm" "fh_magic (pm_header pm) = Magic" "fh_version (pm_header pm) = 1"
    and free: "fl_pages (pm_free pm) \<noteq> []" and room: "unat (pm_total pm) + length (fl_pages (pm_free pm)) < 2 ^ 64"
  shows "\<exists>pm' h n. PM_Close pm = (Ok (), pm') \<and> saved_file (pm_file pm') h n (fl_pages (pm_free pm)) \<and>
    fh_free_head h = pm_total pm \<and> pm_total pm \<le> fh_total h \<and> file_ok (pm_file pm') \<and>
    unat (fh_total h) \<le> f_pages (pm_file pm') \<and>
    (\<forall>q pmx. 0 < q \<and> q < pm_total pm \<and> pm_file pmx = pm_file pm' \<and> pm_total pm \<le> pm_total pmx \<longrightarrow>
       readPageInternal q pmx = readPageInternal q pm)"
proof -
  let ?free = "fl_pages (pm_free pm)" and ?start = "pm_total pm"
  define n where "n = (length ?free + 509 - 1) div 509"
  have n: "0 < n" "length ?free \<le> n * 509" "n \<le> length ?free"
    using free unfolding n_def by (cases ?free; simp)+
  let ?new = "?start + of_nat n"
  let ?pm1 = "pm \<lparr>pm_closed := True, pm_file := page_file_truncate (unat ?new) (pm_file pm), pm_total := ?new,
      pm_header := pm_header pm \<lparr>fh_total := ?new\<rparr>\<rparr>"
  have new: "unat ?new = unat ?start + n"
    using n(3) room by (subst unat_add_lem [THEN iffD1]) (simp_all add: unat_of_nat take_bit_nat_eq_self)
  then have le: "?start \<le> ?new" by (simp add: word_le_nat_alt)
  have start: "0 < ?start" and nz: "0 \<notin> set ?free" using ok(1) by (auto simp: pm_ok_def)
  have f1: "f_pages (page_file_truncate (unat ?new) (pm_file pm)) = unat ?new" by (simp add: page_file_truncate_def)
  have ok1: "pm_ok ?pm1"
    using ok(1) le start f1 page_file_truncate_laws(1) [of "pm_file pm"] by (auto simp: pm_ok_def intro: less_le_trans)
  obtain f where f: "save_free_pages n ?start ?free 0 ?pm1 = (Ok ?start, ?pm1 \<lparr>pm_file := f\<rparr>)"
    "pm_ok (?pm1 \<lparr>pm_file := f\<rparr>)"
    "\<And>q. readPageInternal q (?pm1 \<lparr>pm_file := f\<rparr>) =
       (if ?start \<le> q \<and> unat q < unat ?start + n
        then let i = unat q - unat ?start
             in Ok (stored (free_list_page q (chunk i ?free) (if Suc i = n then 0 else q + 1)))
        else readPageInternal q ?pm1)"
    using save_free_pages_laws [OF ok1 start _ nz, of n 0] new n(1) by auto
  let ?h = "pm_header pm \<lparr>fh_free_head := ?start, fh_total := ?new\<rparr>"
  let ?f = "page_file_write 0 (FileHeader_Serialize ?h) f"
  have fp: "unat ?new \<le> f_pages f" "file_ok f" using f(2) by (simp_all add: pm_ok_def)
  have "saved_list f ?start n ?free"
    unfolding saved_list_def
  proof (intro conjI allI impI)
    fix q
    assume q: "?start \<le> q \<and> unat q < unat ?start + n"
    show "\<not> length (page_file_read (unat q) f) < 4096"
      "Page_Deserialize (page_file_read (unat q) f) = Ok (stored (free_list_page q (chunk (unat q - unat ?start) ?free)
          (if Suc (unat q - unat ?start) = n then 0 else q + 1)))"
      using f(3) [of q] q readPageInternal_Ok [of q "?pm1 \<lparr>pm_file := f\<rparr>"] by (simp_all add: Let_def)
  qed (use start n room nz fp new in simp_all)
  then have saved: "saved_file ?f ?h n ?free"
    using ok(4,5) new by (intro saved_file_header) simp_all
  have "PM_Close pm = (Ok (), saveHeaderLocked (?pm1 \<lparr>pm_file := f, pm_header := ?h,
      pm_free := pm_free pm \<lparr>fl_head := ?start\<rparr>\<rparr>))"
    using ok(2,3) free f(1) by (simp add: PM_Close_def saveFreeListLocked_def saveHeaderLocked_def Let_def n_def)
  moreover have "readPageInternal q pmx = readPageInternal q pm"
    if "0 < q" "q < ?start" "pm_file pmx = ?f" "?start \<le> pm_total pmx" for q pmx
  proof -
    have q: "unat q \<noteq> 0" "q < ?new" "q < pm_total pmx" "unat q < unat ?new" "\<not> ?start \<le> q"
      using that le by (auto simp: unat_gt_0 word_less_nat_alt word_le_nat_alt)
    then have "page_file_read (unat q) ?f = page_file_read (unat q) f" using fp(1) by (simp add: page_file_read_write)
    then have "readPageInternal q pmx = readPageInternal q (?pm1 \<lparr>pm_file := f\<rparr>)"
      using q that(3) by (intro readPageInternal_cong) simp_all
    also have "\<dots> = readPageInternal q ?pm1" using f(3) [of q] q(5) by simp
    also have "\<dots> = readPageInternal q pm"
      using q that ok(1) page_file_truncate_laws(2) [of "pm_file pm" "unat q" "unat ?new"]
      by (intro readPageInternal_cong) (auto simp: pm_ok_def word_less_nat_alt)
    finally show ?thesis .
  qed
  moreover have "file_ok ?f" "unat ?new \<le> f_pages ?f"
    using fp ok(4) by (simp_all add: file_ok_write Magic_def) (simp add: page_file_write_def)
  ultimately show ?thesis
    using saved le
    by (intro exI [of _ "saveHeaderLocked (?pm1 \<lparr>pm_file := f, pm_header := ?h, pm_free := pm_free pm \<lparr>fl_head := ?start\<rparr>\<rparr>)"]
        exI [of _ ?h] exI [of _ n]) (simp add: saveHeaderLocked_def Let_def)
qed

section \<open>The property\<close>

lemma pm_run_header:
  "pm_run U pm \<Longrightarrow> fh_magic (pm_header pm) = Magic \<and> fh_version (pm_header pm) = 1"
proof (induction rule: pm_run.induct)
  case (new n)
  then show ?case by (simp add: initializeNew_def Let_def NewFileHeader_def)
next
  case (alloc U pm t p pm')
  have "pm_header pm' = pm_header pm \<or> pm_header pm' = pm_header (growFileLocked pm)"
    using alloc.hyps(3)
    by (auto simp: AllocatePage_def writePageInternal_def Let_def split: if_splits prod.splits option.splits outcome.splits)
  then show ?case using alloc.IH by (auto simp: growFileLocked_def Let_def)
next
  case (free U pm p pm')
  then show ?case by (auto simp: FreePage_def writePageInternal_def Let_def split: if_splits)
next
  case (store U pm pg pm')
  then show ?case by (auto simp: WritePage_def writePageInternal_def Let_def split: if_splits)
qed

text \<open>A page allocated after opening leaves the saved list in the file, and so does a sync.\<close>

lemma crash_reopens_old_list:
  assumes "saved_file f h n free" "loadExisting f = Some (Ok pm1)" "free \<noteq> []"
    and "\<forall>p \<in> set free. 0 < p \<and> p < fh_free_head h"
    and "fl_pages (pm_free pm1) = free" "pm_file pm1 = f" "pm_total pm1 = fh_total h" "\<not> pm_closed pm1" "\<not> pm_readonly pm1"
    "pm_header pm1 = h \<lparr>fh_checksum := crc32 (header_fields h)\<rparr>"
  shows "\<exists>pm2. AllocatePage t pm1 = (Ok (last free), pm2) \<and>
    (\<forall>pg pm3 pm4. ph_id (p_header pg) = last free \<and> WritePage pg pm2 = (Ok (), pm3) \<and> PM_Sync pm3 = (Ok (), pm4) \<longrightarrow>
       saved_file (pm_file pm4) (h \<lparr>fh_checksum := crc32 (header_fields h)\<rparr>) n free)"
proof -
  let ?p = "last free" and ?h = "h \<lparr>fh_checksum := crc32 (header_fields h)\<rparr>"
  let ?pm2 = "pm1 \<lparr>pm_free := snd (FreeList_Pop (pm_free pm1)), pm_file := page_file_write (unat ?p) (Page_Serialize (NewPage ?p t)) f\<rparr>"
  have p: "0 < ?p" "?p < fh_free_head h" using assms(3,4) last_in_set by auto
  have le: "fh_free_head h \<le> fh_total h" using assms(1) by (auto simp: saved_file_def word_le_nat_alt)
  then have pt: "?p \<noteq> 0" "\<not> fh_total h \<le> ?p" using p by auto
  have "AllocatePage t pm1 = (Ok ?p, ?pm2)"
    using assms(3-) pt by (simp add: AllocatePage_def FreeList_Pop_def writePageInternal_def Let_def)
  moreover have "saved_file (pm_file pm4) ?h n free"
    if pg: "ph_id (p_header pg) = ?p" and w: "WritePage pg ?pm2 = (Ok (), pm3)" and s: "PM_Sync pm3 = (Ok (), pm4)" for pg pm3 pm4
  proof -
    let ?f3 = "page_file_write (unat ?p) (Page_Serialize pg) (pm_file ?pm2)"
    have pm3: "pm3 = ?pm2 \<lparr>pm_file := ?f3\<rparr>"
      using w pg pt assms(7-9) by (simp add: WritePage_def writePageInternal_def Let_def)
    have "saved_file ?f3 h n free"
      unfolding page_manager.select_convs page_manager.update_convs
      using saved_file_write [OF saved_file_write [OF assms(1) p] p] by simp
    then have l: "saved_list ?f3 (fh_free_head h) n free" "unat (fh_free_head h) + n \<le> unat (fh_total h)"
      "fh_magic h = Magic" "fh_version h = 1" by (simp_all add: saved_file_def)
    have "pm_file pm4 = page_file_write 0 (FileHeader_Serialize ?h) ?f3"
      using s assms(7-10) unfolding pm3 by (auto simp: PM_Sync_def saveHeaderLocked_def Let_def)
    with saved_file_header [of ?f3 ?h n free] l show ?thesis by simp
  qed
  ultimately show ?thesis by blast
qed

text \<open>
  C35. Closing the manager of any run and opening its file again restores the free list and every
  page in use. A page allocated after that, written and synced, is still in the free list of the
  file: when the process ends without a close, the next one is given the same page again although
  it holds data, because only \<^verbatim>\<open>Close\<close> writes the free list.
\<close>

theorem crash_hands_out_live_page:
  assumes "pm_run U pm" and "fl_pages (pm_free pm) \<noteq> []"
    and "unat (pm_total pm) + length (fl_pages (pm_free pm)) < 2 ^ 64"
  shows "\<exists>pm0 pm1 p pm2. PM_Close pm = (Ok (), pm0) \<and> loadExisting (pm_file pm0) = Some (Ok pm1) \<and>
    fl_pages (pm_free pm1) = fl_pages (pm_free pm) \<and> (\<forall>q \<in> U. ReadPage q pm1 = ReadPage q pm) \<and>
    AllocatePage t pm1 = (Ok p, pm2) \<and>
    (\<forall>pg pm3 pm4. ph_id (p_header pg) = p \<and> WritePage pg pm2 = (Ok (), pm3) \<and> PM_Sync pm3 = (Ok (), pm4) \<longrightarrow>
       (\<exists>pm5 pm6. loadExisting (pm_file pm4) = Some (Ok pm5) \<and> AllocatePage t pm5 = (Ok p, pm6)))"
proof -
  have run: "run_ok U pm" by (rule pm_run_ok [OF assms(1)])
  then have ok: "pm_ok pm" "\<not> pm_closed pm" "\<not> pm_readonly pm" by (simp_all add: run_ok_def)
  obtain pm0 h n where c: "PM_Close pm = (Ok (), pm0)" "saved_file (pm_file pm0) h n (fl_pages (pm_free pm))"
    "fh_free_head h = pm_total pm" "pm_total pm \<le> fh_total h"
    "\<forall>q pmx. 0 < q \<and> q < pm_total pm \<and> pm_file pmx = pm_file pm0 \<and> pm_total pm \<le> pm_total pmx \<longrightarrow>
       readPageInternal q pmx = readPageInternal q pm"
    using close_laws [OF ok _ _ assms(2,3)] pm_run_header [OF assms(1)] by blast
  let ?free = "fl_pages (pm_free pm)"
  obtain pm1 where l: "loadExisting (pm_file pm0) = Some (Ok pm1)" "pm_file pm1 = pm_file pm0" "pm_total pm1 = fh_total h"
    "fl_pages (pm_free pm1) = ?free" "pm_header pm1 = h \<lparr>fh_checksum := crc32 (header_fields h)\<rparr>"
    "\<not> pm_closed pm1" "\<not> pm_readonly pm1"
    using loadExisting_saved [OF c(2)] by blast
  have "ReadPage q pm1 = ReadPage q pm" if "q \<in> U" for q
  proof -
    have "0 < q" "q < pm_total pm" using that run by (simp_all add: run_ok_def)
    with c(4,5) l(2,3,6) ok(2) show ?thesis by (simp add: ReadPage_def)
  qed
  moreover have fr: "\<forall>p \<in> set ?free. 0 < p \<and> p < fh_free_head h" using ok(1) c(3) by (simp add: pm_ok_def)
  moreover obtain pm2 where a: "AllocatePage t pm1 = (Ok (last ?free), pm2)"
    "\<And>pg pm3 pm4. ph_id (p_header pg) = last ?free \<Longrightarrow> WritePage pg pm2 = (Ok (), pm3) \<Longrightarrow> PM_Sync pm3 = (Ok (), pm4) \<Longrightarrow>
       saved_file (pm_file pm4) (h \<lparr>fh_checksum := crc32 (header_fields h)\<rparr>) n ?free"
    using crash_reopens_old_list [OF c(2) l(1) assms(2) fr l(4,2,3,6,7,5), of t] by blast
  moreover have "\<exists>pm5 pm6. loadExisting (pm_file pm4) = Some (Ok pm5) \<and> AllocatePage t pm5 = (Ok (last ?free), pm6)"
    if sv: "saved_file (pm_file pm4) (h \<lparr>fh_checksum := crc32 (header_fields h)\<rparr>) n ?free" for pm4
  proof -
    obtain pm5 where l5: "loadExisting (pm_file pm4) = Some (Ok pm5)" "pm_file pm5 = pm_file pm4" "pm_total pm5 = fh_total h"
      "fl_pages (pm_free pm5) = ?free" "\<not> pm_closed pm5" "\<not> pm_readonly pm5"
      using loadExisting_saved [OF sv] by auto
    have "last ?free \<noteq> 0" "\<not> fh_total h \<le> last ?free"
      using fr last_in_set [OF assms(2)] c(3,4) by auto
    then have "fst (AllocatePage t pm5) = Ok (last ?free)"
      using l5 assms(2) by (simp add: AllocatePage_def FreeList_Pop_def writePageInternal_def Let_def)
    with l5(1) show ?thesis by (metis prod.collapse)
  qed
  ultimately show ?thesis using c(1) l(1,4) by blast
qed

theorem crash_hands_out_live_page_witness:
  "\<exists>pm0 pm1 p pm2. PM_Close (initializeNew 16) = (Ok (), pm0) \<and> loadExisting (pm_file pm0) = Some (Ok pm1) \<and>
    AllocatePage PageTypeData pm1 = (Ok p, pm2) \<and>
    (\<forall>pg pm3 pm4. ph_id (p_header pg) = p \<and> WritePage pg pm2 = (Ok (), pm3) \<and> PM_Sync pm3 = (Ok (), pm4) \<longrightarrow>
       (\<exists>pm5 pm6. loadExisting (pm_file pm4) = Some (Ok pm5) \<and> AllocatePage PageTypeData pm5 = (Ok p, pm6)))"
proof -
  have run: "pm_run {} (initializeNew 16)" by (rule pm_run.new) simp
  have "fl_pages (pm_free (initializeNew 16)) \<noteq> []"
    "unat (pm_total (initializeNew 16)) + length (fl_pages (pm_free (initializeNew 16))) < 2 ^ 64"
    by (simp_all add: initializeNew_def Let_def fold_push NewFreeList_def)
  from crash_hands_out_live_page [OF run this, of PageTypeData] show ?thesis by blast
qed

end
