(* ===== verification/Mvcc.thy ===== *)
theory Mvcc
  imports Radix_Tree
begin

text \<open>
  Transactions and versions of the storage engine (\<^verbatim>\<open>internal/storage/tx\<close> and \<^verbatim>\<open>version.go\<close>,
  \<^verbatim>\<open>cache.go\<close>, \<^verbatim>\<open>store.go\<close> of \<^verbatim>\<open>internal/storage/mvcc\<close>). Versions are shared objects that commits
  change in place, so they live in a heap: a version is named by its position, and the chain of an
  entry follows the links to the previous version, which always lead to older positions. Log
  records are kept as a list; writing them succeeds.
\<close>

section \<open>Transactions\<close>

datatype tx_state = TxActive | TxCommitted | TxAborted

record transaction =
  t_id :: uint64
  t_state :: tx_state
  t_start_lsn :: uint64
  t_writes :: "uint64 list"
  t_snapshot :: uint64

datatype tx_error = ErrTxNotFound | ErrTxNotActive | ErrWriteConflict | ErrNilTransaction

datatype wal_kind = WALBegin | WALCommit | WALAbort

text \<open>The manager, with every transaction begun so far by its ID and the IDs of the active ones.\<close>

record tx_manager =
  tm_next :: uint64
  tm_txns :: "(uint64 \<times> transaction) list"
  tm_active :: "uint64 list"
  tm_wal :: "(uint64 \<times> wal_kind) list"

definition NewTransaction :: "uint64 \<Rightarrow> uint64 \<Rightarrow> transaction" where
  "NewTransaction i lsn = \<lparr>t_id = i, t_state = TxActive, t_start_lsn = lsn, t_writes = [], t_snapshot = i\<rparr>"

definition NewTxManager :: tx_manager where
  "NewTxManager = \<lparr>tm_next = 1, tm_txns = [], tm_active = [], tm_wal = []\<rparr>"

definition TxManager_Begin :: "tx_manager \<Rightarrow> uint64 \<times> tx_manager" where
  "TxManager_Begin tm =
     (let txID = tm_next tm in
      (txID, tm \<lparr>tm_next := txID + 1,
                 tm_txns := AList.update txID (NewTransaction txID (of_nat (length (tm_wal tm)))) (tm_txns tm),
                 tm_wal := tm_wal tm @ [(txID, WALBegin)],
                 tm_active := txID # tm_active tm\<rparr>))"

definition AddToWriteSet :: "uint64 \<Rightarrow> transaction \<Rightarrow> transaction" where
  "AddToWriteSet p t = (if p \<in> set (t_writes t) then t else t \<lparr>t_writes := t_writes t @ [p]\<rparr>)"

definition validateWriteSet :: "transaction \<Rightarrow> tx_manager \<Rightarrow> tx_error option" where
  "validateWriteSet t tm =
     (if \<exists>other \<in> set (tm_active tm). other \<noteq> t_id t \<and>
           (case map_of (tm_txns tm) other of
              Some u \<Rightarrow> \<exists>p \<in> set (t_writes t). p \<in> set (t_writes u) | None \<Rightarrow> False)
      then Some ErrWriteConflict else None)"

definition TxManager_Commit :: "uint64 \<Rightarrow> tx_manager \<Rightarrow> tx_error option \<times> tx_manager" where
  "TxManager_Commit i tm =
     (case map_of (tm_txns tm) i of
        None \<Rightarrow> (Some ErrNilTransaction, tm)
      | Some t \<Rightarrow>
          if t_state t \<noteq> TxActive then (Some ErrTxNotActive, tm)
          else if i \<notin> set (tm_active tm) then (Some ErrTxNotFound, tm)
          else case validateWriteSet t tm of
              Some e \<Rightarrow> (Some e, tm)
            | None \<Rightarrow> (None, tm \<lparr>tm_wal := tm_wal tm @ [(i, WALCommit)],
                                tm_txns := AList.update i (t \<lparr>t_state := TxCommitted\<rparr>) (tm_txns tm),
                                tm_active := filter (\<lambda>j. j \<noteq> i) (tm_active tm)\<rparr>))"

definition TxManager_Rollback :: "uint64 \<Rightarrow> tx_manager \<Rightarrow> tx_error option \<times> tx_manager" where
  "TxManager_Rollback i tm =
     (case map_of (tm_txns tm) i of
        None \<Rightarrow> (Some ErrNilTransaction, tm)
      | Some t \<Rightarrow>
          if t_state t \<noteq> TxActive then (Some ErrTxNotActive, tm)
          else if i \<notin> set (tm_active tm) then (Some ErrTxNotFound, tm)
          else (None, tm \<lparr>tm_wal := tm_wal tm @ [(i, WALAbort)],
                          tm_txns := AList.update i (t \<lparr>t_writes := [], t_state := TxAborted\<rparr>) (tm_txns tm),
                          tm_active := filter (\<lambda>j. j \<noteq> i) (tm_active tm)\<rparr>))"

section \<open>Versions\<close>

record version =
  v_tx :: uint64
  v_commit :: uint64
  v_data :: bytes
  v_prev :: "nat option"
  v_loc :: location
  v_deleted :: bool

definition NewVersion :: "uint64 \<Rightarrow> bytes \<Rightarrow> location \<Rightarrow> version" where
  "NewVersion tx data loc =
     \<lparr>v_tx = tx, v_commit = 0, v_data = data, v_prev = None, v_loc = loc, v_deleted = False\<rparr>"

definition NewCommittedVersion :: "bytes \<Rightarrow> location \<Rightarrow> version" where
  "NewCommittedVersion data loc =
     \<lparr>v_tx = 0, v_commit = 1, v_data = data, v_prev = None, v_loc = loc, v_deleted = False\<rparr>"

definition NewDeletedVersion :: "uint64 \<Rightarrow> location \<Rightarrow> version" where
  "NewDeletedVersion tx loc =
     \<lparr>v_tx = tx, v_commit = 0, v_data = [], v_prev = None, v_loc = loc, v_deleted = True\<rparr>"

definition IsVisibleTo :: "uint64 \<Rightarrow> uint64 \<Rightarrow> version \<Rightarrow> bool" where
  "IsVisibleTo snapshot activeTxID v =
     (if v_commit v = 0 then v_tx v = activeTxID else v_commit v \<le> snapshot)"

section \<open>The entry cache\<close>

text \<open>Entries by DN in the order of the LRU list, the most recently used first.\<close>

type_synonym entry_cache = "(bytes \<times> nat) list"

abbreviation DefaultCacheSize :: nat where "DefaultCacheSize \<equiv> 10000"

definition Cache_Get :: "bytes \<Rightarrow> entry_cache \<Rightarrow> nat option \<times> entry_cache" where
  "Cache_Get dn c =
     (case map_of c dn of
        None \<Rightarrow> (None, c)
      | Some v \<Rightarrow> (Some v, (dn, v) # AList.delete dn c))"

definition Cache_Put :: "bytes \<Rightarrow> nat \<Rightarrow> entry_cache \<Rightarrow> entry_cache" where
  "Cache_Put dn v c =
     (if map_of c dn \<noteq> None then (dn, v) # AList.delete dn c
      else (dn, v) # (if length c \<ge> DefaultCacheSize then butlast c else c))"

definition Cache_Delete :: "bytes \<Rightarrow> entry_cache \<Rightarrow> entry_cache" where
  "Cache_Delete dn c = AList.delete dn c"

section \<open>The version store\<close>

record version_store =
  vs_heap :: "version list"
  vs_latest :: "(bytes \<times> nat) list"
  vs_cache :: entry_cache
  vs_writers :: "(bytes \<times> uint64) list"

datatype mvcc_error =
    VersionNotFound
  | VersionDeleted
  | VersionConflict
  | TransactionAborted

definition NewVersionStore :: version_store where
  "NewVersionStore = \<lparr>vs_heap = [], vs_latest = [], vs_cache = [], vs_writers = []\<rparr>"

text \<open>The chain of a version: the version itself, then its predecessors.\<close>

function chain :: "version list \<Rightarrow> nat \<Rightarrow> nat list" where
  "chain h i =
     i # (case v_prev (h ! i) of
            None \<Rightarrow> []
          | Some p \<Rightarrow> if p < i then chain h p else [])"
  by pat_completeness auto
termination by (relation "measure snd") auto

declare chain.simps [simp del]

definition alloc_version :: "version \<Rightarrow> version_store \<Rightarrow> nat \<times> version_store" where
  "alloc_version v vs = (length (vs_heap vs), vs \<lparr>vs_heap := vs_heap vs @ [v]\<rparr>)"

text \<open>The answer to a reader for the version it may see.\<close>

definition seen :: "version \<Rightarrow> (mvcc_error, version) outcome" where
  "seen v = (if v_deleted v then Fail VersionDeleted else Ok v)"

definition load_visible ::
  "(bytes \<Rightarrow> (bytes \<times> location) option) \<Rightarrow> bytes \<Rightarrow> uint64 \<Rightarrow> uint64 \<Rightarrow> version_store \<Rightarrow>
     (mvcc_error, version) outcome \<times> version_store" where
  "load_visible loader dn snapshot txID vs =
     (case loader dn of
        None \<Rightarrow> (Fail VersionNotFound, vs)
      | Some (data, loc) \<Rightarrow>
          let v = NewCommittedVersion data loc;
              (i, vs1) = alloc_version v vs;
              vs2 = vs1 \<lparr>vs_cache := Cache_Put dn i (vs_cache vs1)\<rparr>
          in if IsVisibleTo snapshot txID v then (seen v, vs2) else (Fail VersionNotFound, vs2))"

definition cached_visible ::
  "(bytes \<Rightarrow> (bytes \<times> location) option) \<Rightarrow> bytes \<Rightarrow> uint64 \<Rightarrow> uint64 \<Rightarrow> version_store \<Rightarrow>
     (mvcc_error, version) outcome \<times> version_store" where
  "cached_visible loader dn snapshot txID vs =
     (case Cache_Get dn (vs_cache vs) of
        (None, c) \<Rightarrow> load_visible loader dn snapshot txID vs
      | (Some i, c) \<Rightarrow>
          let vs1 = vs \<lparr>vs_cache := c\<rparr>; v = vs_heap vs ! i
          in if IsVisibleTo snapshot txID v then (seen v, vs1)
             else load_visible loader dn snapshot txID vs1)"

definition GetVisibleForTx ::
  "(bytes \<Rightarrow> (bytes \<times> location) option) \<Rightarrow> bytes \<Rightarrow> uint64 \<Rightarrow> uint64 \<Rightarrow> version_store \<Rightarrow>
     (mvcc_error, version) outcome \<times> version_store" where
  "GetVisibleForTx loader dn snapshot txID vs =
     (case map_of (vs_latest vs) dn of
        None \<Rightarrow> cached_visible loader dn snapshot txID vs
      | Some r \<Rightarrow>
          (case find (\<lambda>i. IsVisibleTo snapshot txID (vs_heap vs ! i)) (chain (vs_heap vs) r) of
             Some i \<Rightarrow> (seen (vs_heap vs ! i), vs)
           | None \<Rightarrow> cached_visible loader dn snapshot txID vs))"

definition clearActiveWriter :: "bytes \<Rightarrow> uint64 \<Rightarrow> version_store \<Rightarrow> version_store" where
  "clearActiveWriter dn txID vs =
     (if map_of (vs_writers vs) dn = Some txID then vs \<lparr>vs_writers := AList.delete dn (vs_writers vs)\<rparr> else vs)"

text \<open>The version to link to: in memory, else in the cache, else loaded from disk.\<close>

definition find_previous ::
  "(bytes \<Rightarrow> (bytes \<times> location) option) \<Rightarrow> bytes \<Rightarrow> version_store \<Rightarrow> nat option \<times> version_store" where
  "find_previous loader dn vs =
     (case map_of (vs_latest vs) dn of
        Some r \<Rightarrow> (Some r, vs)
      | None \<Rightarrow>
          (case Cache_Get dn (vs_cache vs) of
             (Some i, c) \<Rightarrow> (Some i, vs \<lparr>vs_cache := c\<rparr>)
           | (None, c) \<Rightarrow>
               (case loader dn of
                  Some (data, loc) \<Rightarrow>
                    let (i, vs1) = alloc_version (NewCommittedVersion data loc) vs in (Some i, vs1)
                | None \<Rightarrow> (None, vs))))"

text \<open>The part of \<^verbatim>\<open>CreateVersionWithLocation\<close> after the conflict check and the allocation.\<close>

definition link_version ::
  "(bytes \<Rightarrow> (bytes \<times> location) option) \<Rightarrow> uint64 \<Rightarrow> bytes \<Rightarrow> bytes \<Rightarrow> location \<Rightarrow> version_store \<Rightarrow> version_store" where
  "link_version loader txID dn data loc vs =
     (let (prev, vs1) = find_previous loader dn vs;
          (i, vs2) = alloc_version (NewVersion txID data loc \<lparr>v_prev := prev\<rparr>) vs1
      in vs2 \<lparr>vs_latest := AList.update dn i (vs_latest vs2), vs_cache := Cache_Put dn i (vs_cache vs2)\<rparr>)"

definition write_conflict :: "bytes \<Rightarrow> uint64 \<Rightarrow> version_store \<Rightarrow> bool" where
  "write_conflict dn txID vs = (case map_of (vs_writers vs) dn of Some w \<Rightarrow> w \<noteq> txID | None \<Rightarrow> False)"

text \<open>\<^verbatim>\<open>DeleteVersion\<close> for an active transaction; the page of the result goes to its write set.\<close>

definition DeleteVersion ::
  "(bytes \<Rightarrow> (bytes \<times> location) option) \<Rightarrow> uint64 \<Rightarrow> bytes \<Rightarrow> version_store \<Rightarrow>
     (mvcc_error, location) outcome \<times> version_store" where
  "DeleteVersion loader txID dn vs =
     (case find_previous loader dn vs of
        (None, vs1) \<Rightarrow> (Fail VersionNotFound, vs1)
      | (Some r, vs1) \<Rightarrow>
          if write_conflict dn txID vs1 then (Fail VersionConflict, vs1)
          else let loc = v_loc (vs_heap vs1 ! r);
                   (i, vs2) = alloc_version (NewDeletedVersion txID loc \<lparr>v_prev := map_of (vs_latest vs1) dn\<rparr>) vs1
               in (Ok loc, vs2 \<lparr>vs_latest := AList.update dn i (vs_latest vs2),
                                vs_writers := AList.update dn txID (vs_writers vs2),
                                vs_cache := Cache_Delete dn (vs_cache vs2)\<rparr>))"

definition commit_at :: "uint64 \<Rightarrow> uint64 \<Rightarrow> nat \<Rightarrow> version list \<Rightarrow> version list" where
  "commit_at txID ts i h =
     (if v_tx (h ! i) = txID \<and> v_commit (h ! i) = 0 then h[i := (h ! i) \<lparr>v_commit := ts\<rparr>] else h)"

definition CommitVersion :: "uint64 \<Rightarrow> uint64 \<Rightarrow> version_store \<Rightarrow> version_store" where
  "CommitVersion txID ts vs =
     fold (\<lambda>(dn, r) vs. clearActiveWriter dn txID
        (vs \<lparr>vs_heap := fold (commit_at txID ts) (chain (vs_heap vs) r) (vs_heap vs)\<rparr>)) (vs_latest vs) vs"

definition rollback_entry :: "uint64 \<Rightarrow> bytes \<times> nat \<Rightarrow> version_store \<Rightarrow> version_store" where
  "rollback_entry txID = (\<lambda>(dn, r) vs.
     clearActiveWriter dn txID
       (case dropWhile (\<lambda>i. v_tx (vs_heap vs ! i) = txID \<and> v_commit (vs_heap vs ! i) = 0) (chain (vs_heap vs) r) of
          [] \<Rightarrow> vs \<lparr>vs_latest := AList.delete dn (vs_latest vs), vs_cache := Cache_Delete dn (vs_cache vs)\<rparr>
        | i # _ \<Rightarrow> if i \<noteq> r then vs \<lparr>vs_latest := AList.update dn i (vs_latest vs)\<rparr> else vs))"

definition RollbackVersion :: "uint64 \<Rightarrow> version_store \<Rightarrow> version_store" where
  "RollbackVersion txID vs = fold (rollback_entry txID) (vs_latest vs) vs"

definition LoadCommittedVersion :: "bytes \<Rightarrow> bytes \<Rightarrow> location \<Rightarrow> version_store \<Rightarrow> version_store" where
  "LoadCommittedVersion dn data loc vs =
     (let (i, vs1) = alloc_version (NewVersion 0 data loc \<lparr>v_commit := 1\<rparr>) vs
      in vs1 \<lparr>vs_latest := AList.update dn i (vs_latest vs1)\<rparr>)"

text \<open>\<^verbatim>\<open>GarbageCollect\<close> on one entry, with the count of removed versions.\<close>

definition collect_entry :: "uint64 \<Rightarrow> bytes \<times> nat \<Rightarrow> nat \<times> version_store \<Rightarrow> nat \<times> version_store" where
  "collect_entry oldest = (\<lambda>(dn, r) (n, vs).
     let (n1, vs1) =
           (case find (\<lambda>i. v_commit (vs_heap vs ! i) \<noteq> 0 \<and> v_commit (vs_heap vs ! i) \<le> oldest) (chain (vs_heap vs) r) of
              None \<Rightarrow> (n, vs)
            | Some i \<Rightarrow>
                (n + (length (chain (vs_heap vs) i) - 1),
                 vs \<lparr>vs_heap := (vs_heap vs)[i := (vs_heap vs ! i) \<lparr>v_prev := None\<rparr>]\<rparr>));
         v = vs_heap vs1 ! r
     in if v_deleted v \<and> v_commit v \<noteq> 0 \<and> v_commit v < oldest
        then (n1 + 1, vs1 \<lparr>vs_latest := AList.delete dn (vs_latest vs1)\<rparr>) else (n1, vs1))"

definition GarbageCollect :: "uint64 \<Rightarrow> version_store \<Rightarrow> nat \<times> version_store" where
  "GarbageCollect oldest vs = fold (collect_entry oldest) (vs_latest vs) (0, vs)"

end
