(* ===== verification/Oba_Db.thy ===== *)
theory Oba_Db
  imports Mvcc Page_Store Raft_Machine
begin

text \<open>
  The storage engine (\<^verbatim>\<open>internal/storage/engine/obadb.go\<close>): transactions, reads, writes and deletes
  over the version store, the DN tree and the page file. The attribute indexes are a parameter: a
  state and the function that updates it, which may fail. The database has no encryption key, and
  the background preload and garbage collection are operations of their own.
\<close>

section \<open>Entries on disk\<close>

datatype db_error =
    ErrDatabaseClosed
  | ErrDatabaseReadOnly
  | DBErrEntryNotFound
  | DBErrInvalidDN
  | DBErrInvalidEntry
  | DBErrUIDNotUnique
  | VersionError mvcc_error
  | TxError tx_error
  | PageError pm_error
  | TreeError radix_error
  | IndexError

definition db_value :: "bytes \<Rightarrow> bytes" where
  "db_value v = put_le 4 (word_of_nat (length v) :: uint32) @ v"

definition db_attribute :: "bytes \<times> bytes list \<Rightarrow> bytes" where
  "db_attribute a =
     put_le 2 (word_of_nat (length (fst a)) :: uint16) @ fst a @
     put_le 4 (word_of_nat (length (snd a)) :: uint32) @ concat (map db_value (snd a))"

definition DB_serializeEntry :: "entry \<Rightarrow> bytes" where
  "DB_serializeEntry e =
     put_le 4 (word_of_nat (length (s_dn e)) :: uint32) @ s_dn e @
     put_le 4 (word_of_nat (length (s_attributes e)) :: uint32) @ concat (map db_attribute (s_attributes e))"

text \<open>
  The loops of \<^verbatim>\<open>deserializeEntry\<close>. They stop at the end of the data; a value whose length does
  not fit ends the inner loop after its length was skipped.
\<close>

primrec db_values :: "nat \<Rightarrow> bytes \<Rightarrow> bytes list \<times> bytes" where
  "db_values 0 r = ([], r)"
| "db_values (Suc n) r =
     (if length r < 4 then ([], r)
      else let valueLen = unat (get_le (take 4 r) :: uint32); r1 = drop 4 r in
        if length r1 < valueLen then ([], r1)
        else let (vs, r2) = db_values n (drop valueLen r1) in (take valueLen r1 # vs, r2))"

primrec db_attributes :: "nat \<Rightarrow> bytes \<Rightarrow> (bytes \<times> bytes list) list \<Rightarrow> (bytes \<times> bytes list) list" where
  "db_attributes 0 r attrs = attrs"
| "db_attributes (Suc n) r attrs =
     (if length r < 2 then attrs
      else let nameLen = unat (get_le (take 2 r) :: uint16); r1 = drop 2 r in
        if length r1 < nameLen then attrs
        else let name = take nameLen r1; r2 = drop nameLen r1 in
          if length r2 < 4 then attrs
          else let (vals, r3) = db_values (unat (get_le (take 4 r2) :: uint32)) (drop 4 r2)
               in db_attributes n r3 (AList.update name vals attrs))"

definition DB_deserializeEntry :: "bytes \<Rightarrow> bytes \<Rightarrow> (db_error, entry) outcome" where
  "DB_deserializeEntry dn data =
     (if length data < 8 then Fail DBErrInvalidEntry
      else let r = drop (4 + unat (get_le (take 4 data) :: uint32)) data in
        Ok \<lparr>s_dn = dn, s_attributes =
          (if length r < 4 then [] else db_attributes (unat (get_le (take 4 r) :: uint32)) (drop 4 r) [])\<rparr>)"

definition DB_normalizeDN :: "unicode \<Rightarrow> bytes \<Rightarrow> bytes" where
  "DB_normalizeDN U dn = TrimSpace U (ToLower U dn)"

section \<open>The database\<close>

record 'i database =
  db_pm :: page_manager
  db_tree :: rnode
  db_vs :: version_store
  db_tm :: tx_manager
  db_ts :: uint64
  db_index :: 'i
  db_closed :: bool
  db_readonly :: bool

text \<open>The attribute indexes: old entry, new entry and its location to the new state or an error.\<close>

type_synonym 'i index_update = "entry option \<Rightarrow> entry option \<Rightarrow> location \<Rightarrow> 'i \<Rightarrow> (db_error, unit) outcome \<times> 'i"

text \<open>The entry stored in a page: a length of four bytes and the data.\<close>

definition page_entry :: "page \<Rightarrow> bytes option" where
  "page_entry p =
     (if length (p_data p) < 4 then None
      else let dataLen = unat (get_le (take 4 (p_data p)) :: uint32) in
        if dataLen = 0 \<or> length (p_data p) < dataLen + 4 then None
        else Some (take dataLen (drop 4 (p_data p))))"

definition disk_loader :: "unicode \<Rightarrow> rnode \<Rightarrow> page_manager \<Rightarrow> bytes \<Rightarrow> (bytes \<times> location) option" where
  "disk_loader U tree pm dn =
     (case Radix_Lookup U dn tree of
        None \<Rightarrow> None
      | Some (pageID, slotID) \<Rightarrow>
          if pageID = 0 then None
          else case ReadPage pageID pm of
              Ok p \<Rightarrow> (case page_entry p of Some data \<Rightarrow> Some (data, (pageID, slotID)) | None \<Rightarrow> None)
            | _ \<Rightarrow> None)"

definition allocateStorage :: "bytes \<Rightarrow> page_manager \<Rightarrow> (pm_error, location) outcome \<times> page_manager" where
  "allocateStorage data pm =
     and_then (AllocatePage PageTypeData pm) (\<lambda>pageID pm.
     and_then (ReadPage pageID pm, pm) (\<lambda>page pm.
       if length data + 4 \<le> length (p_data page) then
         and_then (WritePage
           (page \<lparr>p_data := go_copy (p_data page) 0 (put_le 4 (word_of_nat (length data) :: uint32) @ data),
                  p_header := p_header page \<lparr>ph_items := 1\<rparr>\<rparr>) pm) (\<lambda>_ pm.
         (Ok (pageID, 0), pm))
       else (Ok (pageID, 0), pm)))"

definition db_visible ::
  "unicode \<Rightarrow> bytes \<Rightarrow> uint64 \<Rightarrow> uint64 \<Rightarrow> 'i database \<Rightarrow> (mvcc_error, version) outcome \<times> 'i database" where
  "db_visible U dn snapshot txID db =
     (case GetVisibleForTx (disk_loader U (db_tree db) (db_pm db)) dn snapshot txID (db_vs db) of
        (r, vs) \<Rightarrow> (r, db \<lparr>db_vs := vs\<rparr>))"

text \<open>The snapshot and the ID of the reader: those of its transaction, else the current time.\<close>

definition reader :: "uint64 option \<Rightarrow> 'i database \<Rightarrow> uint64 \<times> uint64" where
  "reader txn db =
     (case txn of
        None \<Rightarrow> (db_ts db, 0)
      | Some i \<Rightarrow> (case map_of (tm_txns (db_tm db)) i of
          Some t \<Rightarrow> (t_snapshot t, t_id t) | None \<Rightarrow> (db_ts db, 0)))"

definition change_txn :: "uint64 \<Rightarrow> (transaction \<Rightarrow> transaction) \<Rightarrow> 'i database \<Rightarrow> 'i database" where
  "change_txn i f db =
     (case map_of (tm_txns (db_tm db)) i of
        None \<Rightarrow> db
      | Some t \<Rightarrow> db \<lparr>db_tm := db_tm db \<lparr>tm_txns := AList.update i (f t) (tm_txns (db_tm db))\<rparr>\<rparr>)"

definition CreateVersionWithLocation ::
  "unicode \<Rightarrow> uint64 \<Rightarrow> bytes \<Rightarrow> bytes \<Rightarrow> 'i database \<Rightarrow> (db_error, location) outcome \<times> 'i database" where
  "CreateVersionWithLocation U i dn data db =
     (case map_of (tm_txns (db_tm db)) i of
        None \<Rightarrow> (Fail (TxError ErrNilTransaction), db)
      | Some t \<Rightarrow>
          if t_state t \<noteq> TxActive then (Fail (VersionError TransactionAborted), db)
          else if write_conflict dn i (db_vs db) then (Fail (VersionError VersionConflict), db)
          else let vs = db_vs db \<lparr>vs_writers := AList.update dn i (vs_writers (db_vs db))\<rparr> in
            case allocateStorage data (db_pm db) of
              (Ok loc, pm) \<Rightarrow>
                (Ok loc, change_txn i (AddToWriteSet (fst loc))
                   (db \<lparr>db_pm := pm,
                        db_vs := link_version (disk_loader U (db_tree db) pm) i dn data loc vs\<rparr>))
            | (Fail e, pm) \<Rightarrow> (Fail (PageError e), db \<lparr>db_pm := pm, db_vs := clearActiveWriter dn i vs\<rparr>)
            | (Panic, pm) \<Rightarrow> (Panic, db \<lparr>db_pm := pm, db_vs := vs\<rparr>))"

section \<open>Unique user IDs\<close>

definition canonical_value :: "unicode \<Rightarrow> bytes \<Rightarrow> bytes" where
  "canonical_value U raw = ToLower U (TrimSpace U raw)"

definition extractCanonicalUID :: "unicode \<Rightarrow> (bytes \<times> bytes list) list \<Rightarrow> bytes" where
  "extractCanonicalUID U attrs =
     (case filter (\<lambda>uid. uid \<noteq> []) (map (canonical_value U)
        (concat (map snd (filter (\<lambda>(name, values). ToLower U name = lit ''uid'') attrs)))) of
        [] \<Rightarrow> [] | uid # _ \<Rightarrow> uid)"

definition isUsersSubtreeDN :: "unicode \<Rightarrow> bytes \<Rightarrow> bool" where
  "isUsersSubtreeDN U dn =
     (let normalized = DB_normalizeDN U dn in
      normalized \<noteq> [] \<and> Contains (comma # normalized) (lit '',ou=users,''))"

text \<open>The scan over all entries that \<^verbatim>\<open>checkUIDUnique\<close> makes.\<close>

primrec uid_scan ::
  "unicode \<Rightarrow> uint64 \<Rightarrow> uint64 \<Rightarrow> bytes \<Rightarrow> bytes \<Rightarrow> bytes list \<Rightarrow> 'i database \<Rightarrow> db_error option \<times> 'i database" where
  "uid_scan U snapshot txID dn uid [] db = (None, db)"
| "uid_scan U snapshot txID dn uid (d # ds) db =
     (case db_visible U d snapshot txID db of
        (Ok v, db1) \<Rightarrow>
          (case DB_deserializeEntry d (v_data v) of
             Ok e \<Rightarrow>
               if d \<noteq> [] \<and> d \<noteq> dn \<and> isUsersSubtreeDN U d \<and> extractCanonicalUID U (s_attributes e) = uid
               then (Some DBErrUIDNotUnique, db1)
               else uid_scan U snapshot txID dn uid ds db1
           | Fail err \<Rightarrow> (Some err, db1)
           | Panic \<Rightarrow> (Some DBErrInvalidEntry, db1))
      | (_, db1) \<Rightarrow> uid_scan U snapshot txID dn uid ds db1)"

definition checkUIDUnique ::
  "unicode \<Rightarrow> uint64 \<Rightarrow> bytes \<Rightarrow> (bytes \<times> bytes list) list \<Rightarrow> 'i database \<Rightarrow> db_error option \<times> 'i database" where
  "checkUIDUnique U i dn attrs db =
     (let uid = extractCanonicalUID U attrs in
      if uid = [] \<or> \<not> isUsersSubtreeDN U dn then (None, db)
      else case reader (Some i) db of (snapshot, txID) \<Rightarrow>
        uid_scan U snapshot txID dn uid (map (\<lambda>(p, loc). JoinDNReverse p) (iterate_node [] (db_tree db))) db)"

section \<open>Operations\<close>

definition DB_Begin :: "'i database \<Rightarrow> (db_error, uint64) outcome \<times> 'i database" where
  "DB_Begin db =
     (if db_closed db then (Fail ErrDatabaseClosed, db)
      else if db_readonly db then (Fail ErrDatabaseReadOnly, db)
      else case TxManager_Begin (db_tm db) of (i, tm) \<Rightarrow> (Ok i, db \<lparr>db_tm := tm\<rparr>))"

definition DB_Commit :: "uint64 option \<Rightarrow> 'i database \<Rightarrow> db_error option \<times> 'i database" where
  "DB_Commit txn db =
     (if db_closed db then (Some ErrDatabaseClosed, db)
      else if db_readonly db then (Some ErrDatabaseReadOnly, db)
      else case txn of
          None \<Rightarrow> (Some (TxError ErrNilTransaction), db)
        | Some i \<Rightarrow>
            let ts = db_ts db + 1;
                db1 = db \<lparr>db_ts := ts, db_vs := CommitVersion i ts (db_vs db)\<rparr>
            in case TxManager_Commit i (db_tm db1) of
                (r, tm) \<Rightarrow> (map_option TxError r, db1 \<lparr>db_tm := tm\<rparr>))"

definition DB_Rollback :: "uint64 option \<Rightarrow> 'i database \<Rightarrow> db_error option \<times> 'i database" where
  "DB_Rollback txn db =
     (if db_closed db then (Some ErrDatabaseClosed, db)
      else if db_readonly db then (Some ErrDatabaseReadOnly, db)
      else case txn of
          None \<Rightarrow> (Some (TxError ErrNilTransaction), db)
        | Some i \<Rightarrow>
            let db1 = db \<lparr>db_vs := RollbackVersion i (db_vs db)\<rparr>
            in case TxManager_Rollback i (db_tm db1) of
                (r, tm) \<Rightarrow> (map_option TxError r, db1 \<lparr>db_tm := tm\<rparr>))"

definition DB_Get :: "unicode \<Rightarrow> uint64 option \<Rightarrow> bytes \<Rightarrow> 'i database \<Rightarrow> (db_error, entry) outcome \<times> 'i database" where
  "DB_Get U txn dn db =
     (if db_closed db then (Fail ErrDatabaseClosed, db)
      else if dn = [] then (Fail DBErrInvalidDN, db)
      else let dn = DB_normalizeDN U dn; (snapshot, txID) = reader txn db in
        case db_visible U dn snapshot txID db of
          (Ok v, db1) \<Rightarrow> (DB_deserializeEntry dn (v_data v), db1)
        | (Fail e, db1) \<Rightarrow>
            (Fail (if e = VersionNotFound \<or> e = VersionDeleted then DBErrEntryNotFound else VersionError e), db1)
        | (Panic, db1) \<Rightarrow> (Panic, db1))"

text \<open>The entry seen before a write, as far as it can be read.\<close>

definition old_entry :: "bytes \<Rightarrow> (mvcc_error, version) outcome \<Rightarrow> entry option" where
  "old_entry dn r =
     (case r of
        Ok v \<Rightarrow> (case DB_deserializeEntry dn (v_data v) of Ok e \<Rightarrow> Some e | _ \<Rightarrow> None)
      | _ \<Rightarrow> None)"

definition update_indexes ::
  "'i index_update \<Rightarrow> entry option \<Rightarrow> entry option \<Rightarrow> location \<Rightarrow> 'i database \<Rightarrow> (db_error, unit) outcome \<times> 'i database" where
  "update_indexes ix old new loc db = (case ix old new loc (db_index db) of (r, s) \<Rightarrow> (r, db \<lparr>db_index := s\<rparr>))"

definition DB_Put ::
  "unicode \<Rightarrow> 'i index_update \<Rightarrow> uint64 option \<Rightarrow> entry \<Rightarrow> 'i database \<Rightarrow> (db_error, unit) outcome \<times> 'i database" where
  "DB_Put U ix txn e db =
     (if db_closed db then (Fail ErrDatabaseClosed, db)
      else if db_readonly db then (Fail ErrDatabaseReadOnly, db)
      else case txn of
          None \<Rightarrow> (Fail (TxError ErrNilTransaction), db)
        | Some i \<Rightarrow>
            if s_dn e = [] then (Fail DBErrInvalidEntry, db)
            else let dn = DB_normalizeDN U (s_dn e); e = e \<lparr>s_dn := dn\<rparr> in
              case checkUIDUnique U i dn (s_attributes e) db of
                (Some err, db1) \<Rightarrow> (Fail err, db1)
              | (None, db1) \<Rightarrow>
                  let data = DB_serializeEntry e; (snapshot, txID) = reader (Some i) db1 in
                  case db_visible U dn snapshot txID db1 of
                    (seen_old, db2) \<Rightarrow>
                      let old = old_entry dn seen_old in
                      and_then (CreateVersionWithLocation U i dn data db2) (\<lambda>loc db3.
                        let (r, tree) = (if old = None then Radix_Insert U dn loc (db_tree db3) else (None, db_tree db3));
                            db4 = db3 \<lparr>db_tree := tree\<rparr>
                        in case r of
                            Some err \<Rightarrow>
                              if err = RadixEntryExists then update_indexes ix old (Some e) loc db4
                              else (Fail (TreeError err), db4)
                          | None \<Rightarrow> update_indexes ix old (Some e) loc db4))"

definition DB_Delete ::
  "unicode \<Rightarrow> 'i index_update \<Rightarrow> uint64 option \<Rightarrow> bytes \<Rightarrow> 'i database \<Rightarrow> (db_error, unit) outcome \<times> 'i database" where
  "DB_Delete U ix txn dn db =
     (if db_closed db then (Fail ErrDatabaseClosed, db)
      else if db_readonly db then (Fail ErrDatabaseReadOnly, db)
      else case txn of
          None \<Rightarrow> (Fail (TxError ErrNilTransaction), db)
        | Some i \<Rightarrow>
            if dn = [] then (Fail DBErrInvalidDN, db)
            else let dn = DB_normalizeDN U dn; (snapshot, txID) = reader (Some i) db in
              case db_visible U dn snapshot txID db of
                (Fail e, db1) \<Rightarrow> (Fail (if e = VersionNotFound then DBErrEntryNotFound else VersionError e), db1)
              | (Panic, db1) \<Rightarrow> (Panic, db1)
              | (Ok v, db1) \<Rightarrow>
                  let old = old_entry dn (Ok v) in
                  (case map_of (tm_txns (db_tm db1)) i of
                     None \<Rightarrow> (Fail (TxError ErrNilTransaction), db1)
                   | Some t \<Rightarrow>
                       if t_state t \<noteq> TxActive then (Fail (VersionError TransactionAborted), db1)
                       else case DeleteVersion (disk_loader U (db_tree db1) (db_pm db1)) i dn (db_vs db1) of
                           (Fail e, vs) \<Rightarrow> (Fail (VersionError e), db1 \<lparr>db_vs := vs\<rparr>)
                         | (Panic, vs) \<Rightarrow> (Panic, db1 \<lparr>db_vs := vs\<rparr>)
                         | (Ok loc, vs) \<Rightarrow>
                             let db2 = change_txn i (AddToWriteSet (fst loc)) (db1 \<lparr>db_vs := vs\<rparr>);
                                 (r, tree) = Radix_Delete U dn (db_tree db2);
                                 db3 = db2 \<lparr>db_tree := tree\<rparr>
                             in case r of
                                 Some err \<Rightarrow>
                                   if err = RadixEntryNotFound
                                   then (if old = None then (Ok (), db3) else update_indexes ix old None (0, 0) db3)
                                   else (Fail (TreeError err), db3)
                               | None \<Rightarrow> if old = None then (Ok (), db3) else update_indexes ix old None (0, 0) db3))"

definition DB_HasChildren :: "unicode \<Rightarrow> bytes \<Rightarrow> 'i database \<Rightarrow> (db_error, bool) outcome" where
  "DB_HasChildren U dn db =
     (if db_closed db then Fail ErrDatabaseClosed
      else if dn = [] then Fail DBErrInvalidDN
      else case HasChildren U (DB_normalizeDN U dn) (db_tree db) of
          Ok b \<Rightarrow> Ok b | Fail e \<Rightarrow> Fail (TreeError (RadixDN e)) | Panic \<Rightarrow> Panic)"

section \<open>Searches\<close>

datatype search_scope = SearchBase | SearchOneLevel | SearchSubtree

text \<open>The DNs that the iterator of the tree goes through.\<close>

definition tree_dns :: "unicode \<Rightarrow> bytes \<Rightarrow> search_scope \<Rightarrow> rnode \<Rightarrow> (dn_error, bytes list) outcome" where
  "tree_dns U base scope tree =
     (if base = [] \<and> scope = SearchSubtree then Ok (map (JoinDNReverse \<circ> fst) (iterate_node [] tree))
      else case Radix_ParseDN U base of
          Ok cs \<Rightarrow> Ok (case find_at cs tree of
              None \<Rightarrow> []
            | Some n \<Rightarrow>
                (case scope of
                   SearchBase \<Rightarrow> if r_entry n \<noteq> None then [base] else []
                 | SearchOneLevel \<Rightarrow> map (JoinDNReverse \<circ> fst) (one_level cs n)
                 | SearchSubtree \<Rightarrow> map (JoinDNReverse \<circ> fst) (iterate_node cs n)))
        | Fail e \<Rightarrow> Fail e
        | Panic \<Rightarrow> Panic)"

text \<open>The entries an iterator returns: those with a visible version that the matcher accepts.\<close>

primrec visible_entries ::
  "unicode \<Rightarrow> uint64 \<Rightarrow> uint64 \<Rightarrow> (entry \<Rightarrow> bool) \<Rightarrow> bytes list \<Rightarrow> 'i database \<Rightarrow>
     entry list \<times> db_error option \<times> 'i database" where
  "visible_entries U snapshot txID P [] db = ([], None, db)"
| "visible_entries U snapshot txID P (d # ds) db =
     (case db_visible U d snapshot txID db of
        (Ok v, db1) \<Rightarrow>
          (case DB_deserializeEntry d (v_data v) of
             Ok e \<Rightarrow>
               (case visible_entries U snapshot txID P ds db1 of
                  (es, err, db2) \<Rightarrow> (if P e then e # es else es, err, db2))
           | Fail err \<Rightarrow> ([], Some err, db1)
           | Panic \<Rightarrow> ([], Some DBErrInvalidEntry, db1))
      | (_, db1) \<Rightarrow> visible_entries U snapshot txID P ds db1)"

definition DB_SearchByDN ::
  "unicode \<Rightarrow> uint64 option \<Rightarrow> bytes \<Rightarrow> search_scope \<Rightarrow> 'i database \<Rightarrow> entry list \<times> db_error option \<times> 'i database" where
  "DB_SearchByDN U txn base scope db =
     (if db_closed db then ([], Some ErrDatabaseClosed, db)
      else let base = DB_normalizeDN U base; (snapshot, txID) = reader txn db in
        case tree_dns U base scope (db_tree db) of
          Ok ds \<Rightarrow> visible_entries U snapshot txID (\<lambda>_. True) ds db
        | Fail e \<Rightarrow> ([], Some (TreeError (RadixDN e)), db)
        | Panic \<Rightarrow> ([], None, db))"

definition DB_SearchByFilter ::
  "unicode \<Rightarrow> uint64 option \<Rightarrow> bytes \<Rightarrow> (entry \<Rightarrow> bool) \<Rightarrow> 'i database \<Rightarrow> entry list \<times> db_error option \<times> 'i database" where
  "DB_SearchByFilter U txn base match db =
     (if db_closed db then ([], Some ErrDatabaseClosed, db)
      else let base = DB_normalizeDN U base; (snapshot, txID) = reader txn db in
        case Radix_ParseDN U base of
          Ok cs \<Rightarrow>
            (case tree_dns U base SearchSubtree (db_tree db) of
               Ok ds \<Rightarrow> visible_entries U snapshot txID match ds db
             | Fail e \<Rightarrow> ([], Some (TreeError (RadixDN e)), db)
             | Panic \<Rightarrow> ([], None, db))
        | Fail e \<Rightarrow> ([], Some (TreeError (RadixDN e)), db)
        | Panic \<Rightarrow> ([], None, db))"

section \<open>Starting up\<close>

text \<open>\<^verbatim>\<open>preloadHotEntries\<close>: at most a thousand entries of the tree go to the version store.\<close>

definition preload_entry :: "page_manager \<Rightarrow> bytes list \<times> location \<Rightarrow> version_store \<Rightarrow> version_store" where
  "preload_entry pm = (\<lambda>(p, pageID, slotID) vs.
     case ReadPage pageID pm of
       Ok page \<Rightarrow> (case page_entry page of
           Some data \<Rightarrow> LoadCommittedVersion (JoinDNReverse p) data (pageID, slotID) vs | None \<Rightarrow> vs)
     | _ \<Rightarrow> vs)"

definition preloadHotEntries :: "'i database \<Rightarrow> 'i database" where
  "preloadHotEntries db =
     db \<lparr>db_vs := fold (preload_entry (db_pm db))
       (take 1000 (filter (\<lambda>(p, pageID, slotID). pageID \<noteq> 0) (iterate_node [] (db_tree db)))) (db_vs db)\<rparr>"

text \<open>
  The database of a process that opens the files: the pages and the tree are those on disk, the
  version store, the transaction manager and the clock are new. The entry cache file is missing or
  does not belong to the last log position.
\<close>

definition DB_reopen :: "'i database \<Rightarrow> 'i database" where
  "DB_reopen db =
     db \<lparr>db_vs := NewVersionStore, db_tm := NewTxManager, db_ts := 0, db_closed := False, db_readonly := False\<rparr>"

definition DB_new :: "'i \<Rightarrow> 'i database" where
  "DB_new ix =
     \<lparr>db_pm = initializeNew 16, db_tree = NewRootNode, db_vs = NewVersionStore, db_tm = NewTxManager, db_ts = 0,
      db_index = ix, db_closed = False, db_readonly = False\<rparr>"

definition DB_ClearAll :: "('i \<Rightarrow> (db_error, unit) outcome \<times> 'i) \<Rightarrow> 'i database \<Rightarrow> (db_error, unit) outcome \<times> 'i database" where
  "DB_ClearAll clear_index db =
     (if db_closed db then (Fail ErrDatabaseClosed, db)
      else if db_readonly db then (Fail ErrDatabaseReadOnly, db)
      else case clear_index (db_index db) of (r, ix) \<Rightarrow>
        (r, db \<lparr>db_vs := db_vs db \<lparr>vs_latest := [], vs_writers := []\<rparr>, db_tree := NewRootNode, db_index := ix\<rparr>))"

end
