(* ===== verification/Oba_Db_Lemmas.thy ===== *)
theory Oba_Db_Lemmas
  imports Oba_Db Radix_Index Page_Props
begin

text \<open>
  Lemmas on the parts of the storage engine: the entry format is read back, storage for an entry
  is a fresh page, and what a write and a rollback do to the version store.
\<close>

section \<open>The entry format\<close>

definition attribute_fits :: "bytes \<times> bytes list \<Rightarrow> bool" where
  "attribute_fits a \<longleftrightarrow> length (fst a) < 2 ^ 16 \<and> length (snd a) < 2 ^ 32 \<and> (\<forall>v \<in> set (snd a). length v < 2 ^ 32)"

definition entry_fits :: "entry \<Rightarrow> bool" where
  "entry_fits e \<longleftrightarrow> length (s_dn e) < 2 ^ 32 \<and> length (s_attributes e) < 2 ^ 32 \<and>
     distinct (map fst (s_attributes e)) \<and> (\<forall>a \<in> set (s_attributes e). attribute_fits a)"

lemma unat_small32: "n < 2 ^ 32 \<Longrightarrow> unat (word_of_nat n :: uint32) = n"
  by (simp add: unat_of_nat take_bit_nat_eq_self)

lemma unat_small16: "n < 2 ^ 16 \<Longrightarrow> unat (word_of_nat n :: uint16) = n"
  by (simp add: unat_of_nat take_bit_nat_eq_self)

lemma db_values_roundtrip:
  "(\<forall>v \<in> set vs. length v < 2 ^ 32) \<Longrightarrow> db_values (length vs) (concat (map db_value vs) @ r) = (vs, r)"
  by (induction vs) (simp_all add: db_value_def Let_def unat_small32)

lemma db_attributes_roundtrip:
  "\<forall>a \<in> set as. attribute_fits a \<Longrightarrow> distinct (map fst (acc @ as)) \<Longrightarrow>
     db_attributes (length as) (concat (map db_attribute as)) acc = acc @ as"
proof (induction as arbitrary: acc)
  case (Cons a as)
  obtain name vals where a: "a = (name, vals)" by (cases a)
  have fits: "length name < 2 ^ 16" "length vals < 2 ^ 32" "\<forall>v \<in> set vals. length v < 2 ^ 32"
    using Cons.prems(1) by (auto simp: a attribute_fits_def)
  have "db_attributes (length (a # as)) (concat (map db_attribute (a # as))) acc =
      db_attributes (length as) (concat (map db_attribute as)) (AList.update name vals acc)"
    using fits by (simp add: a db_attribute_def Let_def unat_small16 unat_small32 db_values_roundtrip)
  also have "AList.update name vals acc = acc @ [(name, vals)]"
    using Cons.prems(2) by (intro update_fresh) (auto simp: a)
  also have "db_attributes (length as) (concat (map db_attribute as)) (acc @ [(name, vals)]) = (acc @ [(name, vals)]) @ as"
    using Cons.prems by (intro Cons.IH) (simp_all add: a)
  finally show ?case by (simp add: a)
qed simp

lemma entry_roundtrip:
  assumes "entry_fits e"
  shows "DB_deserializeEntry dn (DB_serializeEntry e) = Ok (e \<lparr>s_dn := dn\<rparr>)"
proof -
  have "drop (4 + length (s_dn e)) (DB_serializeEntry e) =
      put_le 4 (word_of_nat (length (s_attributes e)) :: uint32) @ concat (map db_attribute (s_attributes e))"
    by (simp add: DB_serializeEntry_def)
  moreover have "db_attributes (length (s_attributes e)) (concat (map db_attribute (s_attributes e))) [] = s_attributes e"
    using assms by (subst db_attributes_roundtrip) (simp_all add: entry_fits_def)
  moreover have "take 4 (DB_serializeEntry e) = put_le 4 (word_of_nat (length (s_dn e)) :: uint32)"
    "\<not> length (DB_serializeEntry e) < 8" by (simp_all add: DB_serializeEntry_def)
  ultimately show ?thesis
    using assms by (cases e) (simp add: DB_deserializeEntry_def Let_def unat_small32 entry_fits_def)
qed

lemma serialize_not_Nil: "DB_serializeEntry e \<noteq> []" "8 \<le> length (DB_serializeEntry e)"
  by (simp_all add: DB_serializeEntry_def flip: length_0_conv)

section \<open>Storage\<close>

definition pm_open :: "page_manager \<Rightarrow> bool" where
  "pm_open pm \<longleftrightarrow> pm_ok pm \<and> \<not> pm_closed pm \<and> \<not> pm_readonly pm \<and> unat (pm_total pm) + 8 < 2 ^ 64"

text \<open>A page that belongs to someone.\<close>

definition in_use :: "page_manager \<Rightarrow> uint64 \<Rightarrow> bool" where
  "in_use pm pid \<longleftrightarrow> pid < pm_total pm \<and> pid \<notin> set (fl_pages (pm_free pm))"

definition fits_page :: "bytes \<Rightarrow> bool" where
  "fits_page data \<longleftrightarrow> length data + 4 \<le> 4080"

lemma get_le_zeros: "get_le (replicate n 0) = (0 :: 'a::len word)"
  by (induction n) simp_all

lemma page_entry_new: "page_entry (stored (NewPage i t)) = None"
  by (simp add: page_entry_def stored_def NewPage_def get_le_zeros min_def)

lemma page_entry_written:
  assumes "length (p_data page) = 4080" "fits_page data" "data \<noteq> []"
  shows "page_entry (stored (page \<lparr>p_data := go_copy (p_data page) 0 (put_le 4 (word_of_nat (length data) :: uint32) @ data),
      p_header := h\<rparr>)) = Some data"
proof -
  have "length data < 2 ^ 32" "4 + length data \<le> 4080" using assms(2) by (simp_all add: fits_page_def)
  then show ?thesis
    using assms by (simp add: page_entry_def stored_def go_copy_within Let_def unat_small32)
qed

lemma allocateStorage_laws:
  assumes "pm_open pm" "data \<noteq> []"
  obtains pid pm' page where "allocateStorage data pm = (Ok (pid, 0), pm')" "pid \<noteq> 0"
    "pid \<in> set (fl_pages (pm_free pm)) \<or> pid = pm_total pm" "pm_ok pm'" "\<not> pm_closed pm'" "\<not> pm_readonly pm'"
    "ReadPage pid pm' = Ok page" "page_entry page = (if fits_page data then Some data else None)"
    "\<And>q. q < pm_total pm \<Longrightarrow> q \<noteq> pid \<Longrightarrow> ReadPage q pm' = ReadPage q pm"
    "in_use pm' pid" "unat (pm_total pm') \<le> unat (pm_total pm) + 8"
proof -
  have ok: "pm_ok pm" "\<not> pm_closed pm" "\<not> pm_readonly pm" "unat (pm_total pm) + 8 < 2 ^ 64"
    using assms(1) by (simp_all add: pm_open_def)
  obtain pid pm1 where a: "AllocatePage PageTypeData pm = (Ok pid, pm1)" "pm_ok pm1" "\<not> pm_closed pm1" "\<not> pm_readonly pm1"
    "pid \<in> set (fl_pages (pm_free pm)) \<or> pid = pm_total pm" "0 < pid" "pid < pm_total pm1" "pm_total pm \<le> pm_total pm1"
    "ReadPage pid pm1 = Ok (stored (NewPage pid PageTypeData))"
    "\<And>q. q < pm_total pm \<Longrightarrow> q \<noteq> pid \<Longrightarrow> ReadPage q pm1 = ReadPage q pm"
    "in_use pm1 pid" "unat (pm_total pm1) \<le> unat (pm_total pm) + 8"
    unfolding in_use_def by (rule alloc_laws [OF ok, of PageTypeData]) blast
  let ?p0 = "stored (NewPage pid PageTypeData)"
  have p0: "length (p_data ?p0) = 4080" "ph_id (p_header ?p0) = pid" by (simp_all add: stored_def)
  show thesis
  proof (cases "fits_page data")
    case True
    let ?p1 = "?p0 \<lparr>p_data := go_copy (p_data ?p0) 0 (put_le 4 (word_of_nat (length data) :: uint32) @ data),
        p_header := p_header ?p0 \<lparr>ph_items := 1\<rparr>\<rparr>"
    let ?pm2 = "pm1 \<lparr>pm_file := page_file_write (unat pid) (Page_Serialize ?p1) (pm_file pm1)\<rparr>"
    have p1: "ph_id (p_header ?p1) = pid" using p0(2) by simp
    note w = write_laws [OF a(2) a(6) a(7) p1]
    have "allocateStorage data pm = (Ok (pid, 0), ?pm2)"
      using a(1,3,4,9) p0(1) True w(1) by (simp add: allocateStorage_def fits_page_def WritePage_def)
    moreover have "ReadPage pid ?pm2 = Ok (stored ?p1)"
      using a(3) p0(1) w(3) [of pid] by (simp add: ReadPage_def Page_roundtrip)
    moreover have "ReadPage q ?pm2 = ReadPage q pm" if "q < pm_total pm" "q \<noteq> pid" for q
      using a(3) a(10) [OF that] w(3) [of q] that(2) by (simp add: ReadPage_def)
    ultimately show thesis
      using a True w(2) page_entry_written [OF p0(1) True assms(2)] by (intro that [of pid ?pm2 "stored ?p1"]) (auto simp: in_use_def)
  next
    case False
    then have "allocateStorage data pm = (Ok (pid, 0), pm1)"
      using a(1,9) p0(1) by (simp add: allocateStorage_def fits_page_def)
    with a False page_entry_new show thesis by (intro that [of pid pm1 ?p0]) auto
  qed
qed

section \<open>Inserting an entry\<close>

definition db_ready :: "'i database \<Rightarrow> bool" where
  "db_ready db \<longleftrightarrow> \<not> db_closed db \<and> \<not> db_readonly db \<and> pm_open (db_pm db)"

definition fresh_dn :: "unicode \<Rightarrow> bytes \<Rightarrow> 'i database \<Rightarrow> bool" where
  "fresh_dn U dn db \<longleftrightarrow>
     (case Radix_ParseDN U dn of Ok cs \<Rightarrow> [] \<notin> set cs | _ \<Rightarrow> False) \<and> Radix_Lookup U dn (db_tree db) = None \<and>
     map_of (vs_latest (db_vs db)) dn = None \<and> map_of (vs_cache (db_vs db)) dn = None \<and>
     map_of (vs_writers (db_vs db)) dn = None"

definition uid_free :: "unicode \<Rightarrow> entry \<Rightarrow> bool" where
  "uid_free U e \<longleftrightarrow> extractCanonicalUID U (s_attributes e) = [] \<or> \<not> isUsersSubtreeDN U (DB_normalizeDN U (s_dn e))"

definition active_txn :: "uint64 \<Rightarrow> 'i database \<Rightarrow> bool" where
  "active_txn i db \<longleftrightarrow> i \<in> set (tm_active (db_tm db)) \<and>
     (case map_of (tm_txns (db_tm db)) i of
        Some t \<Rightarrow> t_state t = TxActive \<and> t_id t = i \<and> t_snapshot t = i | None \<Rightarrow> False)"

definition index_accepts :: "'i index_update \<Rightarrow> bool" where
  "index_accepts ix \<longleftrightarrow> (\<forall>old new loc s. fst (ix old new loc s) = Ok ())"

text \<open>The version store after the first version of an entry is written.\<close>

definition first_version :: "uint64 \<Rightarrow> bytes \<Rightarrow> bytes \<Rightarrow> location \<Rightarrow> version_store \<Rightarrow> version_store" where
  "first_version i dn data loc vs =
     vs \<lparr>vs_heap := vs_heap vs @ [NewVersion i data loc],
         vs_latest := vs_latest vs @ [(dn, length (vs_heap vs))],
         vs_cache := Cache_Put dn (length (vs_heap vs)) (vs_cache vs),
         vs_writers := AList.update dn i (vs_writers vs)\<rparr>"

lemma map_of_None_fresh: "map_of xs k = None \<Longrightarrow> AList.update k v xs = xs @ [(k, v)]"
  by (simp add: update_fresh map_of_eq_None_iff)

lemma link_first:
  assumes "map_of (vs_latest vs) dn = None" "map_of (vs_cache vs) dn = None" "loader dn = None"
  shows "link_version loader i dn data loc (vs \<lparr>vs_writers := AList.update dn i (vs_writers vs)\<rparr>) = first_version i dn data loc vs"
  using assms
  by (simp add: link_version_def find_previous_def Cache_Get_def alloc_version_def first_version_def map_of_None_fresh
      NewVersion_def)

lemma insert_fresh_dn:
  assumes "fresh_dn U dn db"
  obtains tree where "Radix_Insert U dn loc (db_tree db) = (None, tree)" "Radix_Lookup U dn tree = Some loc"
proof -
  obtain cs where cs: "Radix_ParseDN U dn = Ok cs" "[] \<notin> set cs"
    using assms by (auto simp: fresh_dn_def split: outcome.splits)
  have "lookup cs (db_tree db) = None"
    using assms cs(1) by (simp add: fresh_dn_def Radix_Lookup_def lookup_def)
  then obtain tree where t: "insert_at cs loc (db_tree db) = (None, tree)"
    using insert_at_error(1) [of cs loc "db_tree db"] by (cases "insert_at cs loc (db_tree db)") auto
  then have "lookup cs tree = Some loc" using insert_at_lookup [OF t cs(2)] by simp
  with t cs show thesis by (intro that [of tree]) (simp_all add: Radix_Insert_def on_path_def Radix_Lookup_def lookup_def)
qed

lemma put_fresh:
  assumes "db_ready db" "active_txn i db" "s_dn e \<noteq> []" "uid_free U e" "index_accepts ix"
    and dn: "dn = DB_normalizeDN U (s_dn e)" and fresh: "fresh_dn U dn db"
    and data: "data = DB_serializeEntry (e \<lparr>s_dn := dn\<rparr>)"
  obtains pid pm' page tree s t where
    "DB_Put U ix (Some i) e db =
       (Ok (), db \<lparr>db_pm := pm', db_tree := tree, db_vs := first_version i dn data (pid, 0) (db_vs db),
                   db_tm := db_tm db \<lparr>tm_txns := AList.update i (AddToWriteSet pid t) (tm_txns (db_tm db))\<rparr>, db_index := s\<rparr>)"
    "map_of (tm_txns (db_tm db)) i = Some t" "pid \<noteq> 0" "pm_ok pm'" "\<not> pm_closed pm'"
    "Radix_Lookup U dn tree = Some (pid, 0)" "ReadPage pid pm' = Ok page"
    "page_entry page = (if fits_page data then Some data else None)"
    "\<not> pm_readonly pm'" "in_use pm' pid" "unat (pm_total pm') \<le> unat (pm_total (db_pm db)) + 8"
proof -
  obtain t where t: "map_of (tm_txns (db_tm db)) i = Some t" "t_state t = TxActive" "t_id t = i" "t_snapshot t = i"
    using assms(2) by (auto simp: active_txn_def split: option.splits)
  have pm: "pm_open (db_pm db)" and ne: "data \<noteq> []"
    using assms(1) by (simp_all add: db_ready_def data serialize_not_Nil)
  obtain pid pm' page where st: "allocateStorage data (db_pm db) = (Ok (pid, 0), pm')" "pid \<noteq> 0" "pm_ok pm'"
    "\<not> pm_closed pm'" "ReadPage pid pm' = Ok page" "page_entry page = (if fits_page data then Some data else None)"
    "\<not> pm_readonly pm'" "in_use pm' pid" "unat (pm_total pm') \<le> unat (pm_total (db_pm db)) + 8"
    by (rule allocateStorage_laws [OF pm ne]) blast
  obtain tree where tree: "Radix_Insert U dn (pid, 0) (db_tree db) = (None, tree)" "Radix_Lookup U dn tree = Some (pid, 0)"
    by (rule insert_fresh_dn [OF fresh])
  have uid: "checkUIDUnique U i dn (s_attributes e) db = (None, db)"
    using assms(4) by (auto simp: checkUIDUnique_def uid_free_def dn Let_def)
  have load: "disk_loader U (db_tree db) pm dn = None" for pm using fresh by (simp add: disk_loader_def fresh_dn_def)
  have f: "map_of (vs_latest (db_vs db)) dn = None" "map_of (vs_cache (db_vs db)) dn = None" "map_of (vs_writers (db_vs db)) dn = None"
    using fresh by (simp_all add: fresh_dn_def)
  have vis: "db_visible U dn i i db = (Fail VersionNotFound, db)"
    using f load by (simp add: db_visible_def GetVisibleForTx_def cached_visible_def Cache_Get_def load_visible_def)
  have ver: "CreateVersionWithLocation U i dn data db =
      (Ok (pid, 0), db \<lparr>db_pm := pm', db_vs := first_version i dn data (pid, 0) (db_vs db),
        db_tm := db_tm db \<lparr>tm_txns := AList.update i (AddToWriteSet pid t) (tm_txns (db_tm db))\<rparr>\<rparr>)"
    using t f st(1) link_first [where loader = "disk_loader U (db_tree db) pm'", OF f(1,2) load, of i]
    by (simp add: CreateVersionWithLocation_def write_conflict_def change_txn_def)
  obtain s where s: "ix None (Some (e \<lparr>s_dn := dn\<rparr>)) (pid, 0) (db_index db) = (Ok (), s)"
    using assms(5) by (metis index_accepts_def prod.collapse)
  have "DB_Put U ix (Some i) e db =
       (Ok (), db \<lparr>db_pm := pm', db_tree := tree, db_vs := first_version i dn data (pid, 0) (db_vs db),
                   db_tm := db_tm db \<lparr>tm_txns := AList.update i (AddToWriteSet pid t) (tm_txns (db_tm db))\<rparr>, db_index := s\<rparr>)"
    using assms(1,3) t uid vis ver tree(1) s
    by (simp add: DB_Put_def db_ready_def Let_def reader_def old_entry_def update_indexes_def flip: dn data)
  with t(1) st tree(2) show thesis by (intro that)
qed

end
