(* ===== verification/Oba_Db_Props.thy ===== *)
theory Oba_Db_Props
  imports Oba_Db_Lemmas
begin

text \<open>
  What readers of the storage engine see after a write, a rollback, a commit and a restart.
\<close>

section \<open>Reading\<close>

text \<open>The entry that a transaction begun now reads.\<close>

definition new_reader :: "unicode \<Rightarrow> bytes \<Rightarrow> 'i database \<Rightarrow> (db_error, entry) outcome" where
  "new_reader U dn db =
     (case DB_Begin db of
        (Ok j, db1) \<Rightarrow> fst (DB_Get U (Some j) dn db1)
      | (Fail e, db1) \<Rightarrow> Fail e
      | (Panic, db1) \<Rightarrow> Panic)"

lemma new_reader_eq:
  assumes "\<not> db_closed db" "\<not> db_readonly db" "dn \<noteq> []"
  shows "new_reader U dn db =
    (case fst (GetVisibleForTx (disk_loader U (db_tree db) (db_pm db)) (DB_normalizeDN U dn) (tm_next (db_tm db))
         (tm_next (db_tm db)) (db_vs db)) of
       Ok v \<Rightarrow> DB_deserializeEntry (DB_normalizeDN U dn) (v_data v)
     | Fail e \<Rightarrow> Fail (if e = VersionNotFound \<or> e = VersionDeleted then DBErrEntryNotFound else VersionError e)
     | Panic \<Rightarrow> Panic)"
  using assms
  by (simp add: new_reader_def DB_Begin_def TxManager_Begin_def DB_Get_def reader_def NewTransaction_def db_visible_def Let_def
      update_conv' split: prod.split outcome.split)

text \<open>Neither the version store nor its cache has a version for the reader.\<close>

definition unseen :: "bytes \<Rightarrow> uint64 \<Rightarrow> uint64 \<Rightarrow> version_store \<Rightarrow> bool" where
  "unseen dn snapshot txID vs \<longleftrightarrow>
     (case map_of (vs_latest vs) dn of
        None \<Rightarrow> True
      | Some r \<Rightarrow> find (\<lambda>i. IsVisibleTo snapshot txID (vs_heap vs ! i)) (chain (vs_heap vs) r) = None) \<and>
     (case map_of (vs_cache vs) dn of
        None \<Rightarrow> True
      | Some i \<Rightarrow> \<not> IsVisibleTo snapshot txID (vs_heap vs ! i))"

lemma load_visible_reads:
  "1 \<le> snapshot \<Longrightarrow> fst (load_visible loader dn snapshot txID vs) =
    (case loader dn of None \<Rightarrow> Fail VersionNotFound | Some (data, loc) \<Rightarrow> Ok (NewCommittedVersion data loc))"
  by (simp add: load_visible_def alloc_version_def IsVisibleTo_def NewCommittedVersion_def seen_def Let_def split: option.split prod.split)

lemma unseen_reads_disk:
  assumes "unseen dn snapshot txID vs" "1 \<le> snapshot"
  shows "fst (GetVisibleForTx loader dn snapshot txID vs) =
    (case loader dn of None \<Rightarrow> Fail VersionNotFound | Some (data, loc) \<Rightarrow> Ok (NewCommittedVersion data loc))"
  using assms
  by (auto simp: unseen_def GetVisibleForTx_def cached_visible_def Cache_Get_def load_visible_reads split: option.splits)

lemma chain_first: "v_prev (h ! i) = None \<Longrightarrow> chain h i = [i]"
  by (subst chain.simps) simp

lemma first_version_seen:
  assumes "map_of (vs_latest vs) dn = None"
  shows "unseen dn s j (first_version i dn data loc vs) \<longleftrightarrow> i \<noteq> j"
    "fst (GetVisibleForTx loader dn s i (first_version i dn data loc vs)) = Ok (NewVersion i data loc)"
  using assms
  by (auto simp: unseen_def first_version_def Cache_Put_def chain_first NewVersion_def IsVisibleTo_def map_add_def
      GetVisibleForTx_def seen_def)

lemma disk_loader_page:
  assumes "Radix_Lookup U dn tree = Some (pid, slot)" "pid \<noteq> 0" "ReadPage pid pm = Ok page"
  shows "disk_loader U tree pm dn = map_option (\<lambda>data. (data, (pid, slot))) (page_entry page)"
  using assms by (simp add: disk_loader_def split: option.split)

section \<open>Rollback and commit\<close>

lemma rollback_heap: "vs_heap (fold (rollback_entry i) xs vs) = vs_heap vs"
proof (induction xs arbitrary: vs)
  case (Cons x xs)
  have "vs_heap (rollback_entry i x vs) = vs_heap vs"
    by (auto simp: rollback_entry_def clearActiveWriter_def split: prod.split list.split)
  then show ?case by (simp add: Cons.IH)
qed simp

lemma clearActiveWriter_simps [simp]:
  "vs_latest (clearActiveWriter dn i vs) = vs_latest vs" "vs_cache (clearActiveWriter dn i vs) = vs_cache vs"
  "vs_heap (clearActiveWriter dn i vs) = vs_heap vs"
  by (simp_all add: clearActiveWriter_def)

lemma rollback_first:
  "unseen dn s j (RollbackVersion i (first_version i dn data loc vs))"
proof -
  let ?vs = "first_version i dn data loc vs" and ?n = "length (vs_heap vs)"
  let ?w = "fold (rollback_entry i) (vs_latest vs) ?vs"
  have "RollbackVersion i ?vs = rollback_entry i (dn, ?n) ?w"
    by (simp add: RollbackVersion_def) (simp add: first_version_def)
  moreover have "vs_heap ?w ! ?n = NewVersion i data loc"
    by (simp add: rollback_heap) (simp add: first_version_def)
  then have "rollback_entry i (dn, ?n) ?w =
      clearActiveWriter dn i (?w \<lparr>vs_latest := AList.delete dn (vs_latest ?w), vs_cache := Cache_Delete dn (vs_cache ?w)\<rparr>)"
    by (simp only: rollback_entry_def split_conv) (simp add: chain_first NewVersion_def)
  ultimately show ?thesis by (simp add: unseen_def Cache_Delete_def delete_conv')
qed

text \<open>A version that a commit may only mark as committed.\<close>

definition marked :: "nat \<Rightarrow> version \<Rightarrow> uint64 \<Rightarrow> version list \<Rightarrow> bool" where
  "marked n v ts h \<longleftrightarrow> n < length h \<and> (h ! n = v \<or> h ! n = v \<lparr>v_commit := ts\<rparr>)"

lemma marked_commit: "marked n v ts h \<Longrightarrow> marked n v ts (commit_at i ts k h)"
  by (cases "k = n") (auto simp: marked_def commit_at_def)

lemma marked_chain: "marked n v ts h \<Longrightarrow> marked n v ts (fold (commit_at i ts) xs h)"
  by (induction xs arbitrary: h) (simp_all add: marked_commit)

definition commit_entry :: "uint64 \<Rightarrow> uint64 \<Rightarrow> bytes \<times> nat \<Rightarrow> version_store \<Rightarrow> version_store" where
  "commit_entry i ts = (\<lambda>(dn, r) vs. clearActiveWriter dn i
     (vs \<lparr>vs_heap := fold (commit_at i ts) (chain (vs_heap vs) r) (vs_heap vs)\<rparr>))"

lemma commit_entry_simps [simp]:
  "vs_heap (commit_entry i ts (dn, r) vs) = fold (commit_at i ts) (chain (vs_heap vs) r) (vs_heap vs)"
  "vs_latest (commit_entry i ts x vs) = vs_latest vs" "vs_cache (commit_entry i ts x vs) = vs_cache vs"
  by (simp_all add: commit_entry_def clearActiveWriter_def split: prod.split)

lemma marked_entry: "marked n v ts (vs_heap vs) \<Longrightarrow> marked n v ts (vs_heap (commit_entry i ts x vs))"
  by (cases x) (simp add: marked_chain)

lemma marked_entries:
  "marked n v ts (vs_heap vs) \<Longrightarrow> marked n v ts (vs_heap (fold (commit_entry i ts) xs vs)) \<and>
     vs_latest (fold (commit_entry i ts) xs vs) = vs_latest vs"
  by (induction xs arbitrary: vs) (simp_all add: marked_entry)

lemma commit_first:
  assumes "map_of (vs_latest vs) dn = None" "0 < ts" "ts \<le> s"
  shows "fst (GetVisibleForTx loader dn s j (CommitVersion i ts (first_version i dn data loc vs))) =
    Ok (NewVersion i data loc \<lparr>v_commit := ts\<rparr>)"
proof -
  let ?vs = "first_version i dn data loc vs" and ?n = "length (vs_heap vs)" and ?v = "NewVersion i data loc"
  let ?w = "fold (commit_entry i ts) (vs_latest vs) ?vs"
  have c: "CommitVersion i ts ?vs = commit_entry i ts (dn, ?n) ?w"
    by (simp add: CommitVersion_def flip: commit_entry_def) (simp add: first_version_def)
  have "marked ?n ?v ts (vs_heap ?vs)" by (simp add: marked_def first_version_def)
  then have w: "marked ?n ?v ts (vs_heap ?w)" and l: "vs_latest ?w = vs_latest vs @ [(dn, ?n)]"
    using marked_entries by (blast, simp add: marked_entries first_version_def)
  have prev: "v_prev (vs_heap ?w ! ?n) = None" using w by (auto simp: marked_def NewVersion_def)
  have h: "vs_heap (CommitVersion i ts ?vs) ! ?n = ?v \<lparr>v_commit := ts\<rparr>"
    using w by (auto simp: c chain_first [OF prev] commit_at_def marked_def NewVersion_def)
  then have "chain (vs_heap (CommitVersion i ts ?vs)) ?n = [?n]" by (intro chain_first) (simp add: NewVersion_def)
  moreover have "map_of (vs_latest (CommitVersion i ts ?vs)) dn = Some ?n" using assms(1) l by (simp add: c map_add_def)
  moreover have "ts \<noteq> 0" using assms(2) by auto
  ultimately show ?thesis
    using h assms(3) by (simp add: GetVisibleForTx_def IsVisibleTo_def seen_def) (simp add: NewVersion_def)
qed

section \<open>Properties of the engine\<close>

text \<open>What an insert of a new entry starts from.\<close>

definition can_insert :: "unicode \<Rightarrow> 'i index_update \<Rightarrow> uint64 \<Rightarrow> entry \<Rightarrow> 'i database \<Rightarrow> bool" where
  "can_insert U ix i e db \<longleftrightarrow> db_ready db \<and> active_txn i db \<and> s_dn e \<noteq> [] \<and> uid_free U e \<and> index_accepts ix \<and>
     fresh_dn U (DB_normalizeDN U (s_dn e)) db \<and> entry_fits (e \<lparr>s_dn := DB_normalizeDN U (s_dn e)\<rparr>) \<and>
     0 < tm_next (db_tm db) \<and> i < tm_next (db_tm db)"

text \<open>The entry as it is stored.\<close>

definition stored_entry :: "unicode \<Rightarrow> entry \<Rightarrow> entry" where
  "stored_entry U e = e \<lparr>s_dn := DB_normalizeDN U (s_dn e)\<rparr>"

lemma insert_effect:
  assumes "can_insert U ix i e db"
  obtains pid loc tree pm' s t where
    "DB_Put U ix (Some i) e db =
       (Ok (), db \<lparr>db_pm := pm', db_tree := tree,
                   db_vs := first_version i (DB_normalizeDN U (s_dn e)) (DB_serializeEntry (stored_entry U e)) loc (db_vs db),
                   db_tm := db_tm db \<lparr>tm_txns := AList.update i (AddToWriteSet pid t) (tm_txns (db_tm db))\<rparr>, db_index := s\<rparr>)"
    "map_of (tm_txns (db_tm db)) i = Some t" "t_state t = TxActive" "t_id t = i"
    "disk_loader U tree pm' (DB_normalizeDN U (s_dn e)) =
       (if fits_page (DB_serializeEntry (stored_entry U e)) then Some (DB_serializeEntry (stored_entry U e), loc) else None)"
proof -
  let ?dn = "DB_normalizeDN U (s_dn e)"
  let ?data = "DB_serializeEntry (stored_entry U e)"
  have r: "db_ready db" "active_txn i db" "s_dn e \<noteq> []" "uid_free U e" "index_accepts ix" "fresh_dn U ?dn db"
    using assms by (simp_all add: can_insert_def)
  obtain pid pm' page tree s t where p: "DB_Put U ix (Some i) e db =
       (Ok (), db \<lparr>db_pm := pm', db_tree := tree, db_vs := first_version i ?dn ?data (pid, 0) (db_vs db),
                   db_tm := db_tm db \<lparr>tm_txns := AList.update i (AddToWriteSet pid t) (tm_txns (db_tm db))\<rparr>, db_index := s\<rparr>)"
    "map_of (tm_txns (db_tm db)) i = Some t" "pid \<noteq> 0" "Radix_Lookup U ?dn tree = Some (pid, 0)" "ReadPage pid pm' = Ok page"
    "page_entry page = (if fits_page ?data then Some ?data else None)"
    by (rule put_fresh [OF r(1-5) refl r(6) refl, folded stored_entry_def]) blast
  have "t_state t = TxActive" "t_id t = i" using r(2) p(2) by (simp_all add: active_txn_def)
  moreover have "disk_loader U tree pm' ?dn = (if fits_page ?data then Some (?data, (pid, 0)) else None)"
    using disk_loader_page [OF p(4,3,5)] p(6) by simp
  ultimately show thesis using p(1,2) by (intro that)
qed

lemma stored_entry_read:
  assumes "can_insert U ix i e db"
  shows "DB_deserializeEntry (DB_normalizeDN U (s_dn e)) (DB_serializeEntry (stored_entry U e)) = Ok (stored_entry U e)"
  using entry_roundtrip [of "stored_entry U e"] assms by (simp add: can_insert_def stored_entry_def)

lemma fresh_reads_nothing:
  assumes "can_insert U ix i e db"
  shows "new_reader U (s_dn e) db = Fail DBErrEntryNotFound"
proof -
  have r: "db_ready db" "s_dn e \<noteq> []" "fresh_dn U (DB_normalizeDN U (s_dn e)) db" "1 \<le> tm_next (db_tm db)"
    using assms by (simp_all add: can_insert_def word_le_nat_alt word_less_nat_alt unat_gt_0)
  then have "unseen (DB_normalizeDN U (s_dn e)) s j (db_vs db)" for s j
    by (simp add: unseen_def fresh_dn_def)
  moreover have "disk_loader U (db_tree db) pm (DB_normalizeDN U (s_dn e)) = None" for pm
    using r(3) by (simp add: disk_loader_def fresh_dn_def)
  ultimately show ?thesis
    using r by (simp add: new_reader_eq db_ready_def unseen_reads_disk)
qed

text \<open>
  C36. A transaction that inserts a new entry and is rolled back leaves the entry behind. Before the
  insert a newly begun transaction does not find the entry. After the insert, while it is still
  uncommitted, and after the rollback, a newly begun transaction reads the entry: the page and the
  location in the DN tree are written at once and are never undone, and the version store falls
  back on them when it has no visible version.
\<close>

theorem rolled_back_insert_is_read:
  assumes "can_insert U ix i e db" "fits_page (DB_serializeEntry (stored_entry U e))"
  defines "db1 \<equiv> snd (DB_Put U ix (Some i) e db)"
  defines "db2 \<equiv> snd (DB_Rollback (Some i) db1)"
  shows "fst (DB_Put U ix (Some i) e db) = Ok () \<and> fst (DB_Rollback (Some i) db1) = None \<and>
    new_reader U (s_dn e) db = Fail DBErrEntryNotFound \<and>
    new_reader U (s_dn e) db1 = Ok (stored_entry U e) \<and> new_reader U (s_dn e) db2 = Ok (stored_entry U e)"
proof -
  let ?dn = "DB_normalizeDN U (s_dn e)" and ?data = "DB_serializeEntry (stored_entry U e)" and ?j = "tm_next (db_tm db)"
  obtain pid loc tree pm' s t where p: "DB_Put U ix (Some i) e db =
       (Ok (), db \<lparr>db_pm := pm', db_tree := tree, db_vs := first_version i ?dn ?data loc (db_vs db),
          db_tm := db_tm db \<lparr>tm_txns := AList.update i (AddToWriteSet pid t) (tm_txns (db_tm db))\<rparr>, db_index := s\<rparr>)"
    "t_state t = TxActive" "disk_loader U tree pm' ?dn = Some (?data, loc)"
    by (rule insert_effect [OF assms(1)]) (use assms(2) in simp)
  have r: "\<not> db_closed db" "\<not> db_readonly db" "s_dn e \<noteq> []" "i \<in> set (tm_active (db_tm db))" "i \<noteq> ?j" "1 \<le> ?j"
    "map_of (vs_latest (db_vs db)) ?dn = None"
    using assms(1) by (auto simp: can_insert_def db_ready_def active_txn_def fresh_dn_def word_le_nat_alt word_less_nat_alt)
  have st: "t_state (AddToWriteSet pid t) = TxActive" using p(2) by (simp add: AddToWriteSet_def)
  have "new_reader U (s_dn e) db1 = Ok (stored_entry U e)"
    using r p(1,3) first_version_seen(1) [OF r(7)] stored_entry_read [OF assms(1)]
    by (simp add: db1_def new_reader_eq unseen_reads_disk NewCommittedVersion_def)
  moreover have rb: "DB_Rollback (Some i) db1 = (None, db2)" "tm_next (db_tm db2) = ?j" "\<not> db_closed db2" "\<not> db_readonly db2"
    "db_vs db2 = RollbackVersion i (first_version i ?dn ?data loc (db_vs db))" "db_tree db2 = tree" "db_pm db2 = pm'"
    using r p(1) st by (simp_all add: db1_def db2_def DB_Rollback_def TxManager_Rollback_def Let_def update_conv')
  moreover have "new_reader U (s_dn e) db2 = Ok (stored_entry U e)"
    using r rb p(3) rollback_first stored_entry_read [OF assms(1)]
    by (simp add: new_reader_eq unseen_reads_disk NewCommittedVersion_def)
  ultimately show ?thesis using p(1) fresh_reads_nothing [OF assms(1)] by simp
qed

text \<open>A database just created, with a transaction begun, and an entry.\<close>

definition demo_db :: "unit database" where
  "demo_db = snd (DB_Begin (DB_new ()))"

definition demo_index :: "unit index_update" where
  "demo_index = (\<lambda>old new loc s. (Ok (), s))"

definition demo_entry :: "bytes \<Rightarrow> entry" where
  "demo_entry v = \<lparr>s_dn = lit ''ou=x'', s_attributes = [(lit ''ou'', [v])]\<rparr>"

lemma demo_dn: "DB_normalizeDN plain_unicode (lit ''ou=x'') = lit ''ou=x''"
  "Radix_ParseDN plain_unicode (lit ''ou=x'') = Ok [lit ''ou=x'']" "lit ''ou=x'' \<noteq> []"
  "ToLower plain_unicode (lit ''ou'') \<noteq> lit ''uid''" "length (lit ''ou=x'') = 4" "length (lit ''ou'') = 2"
  by code_simp+

lemma demo_stored: "stored_entry plain_unicode (demo_entry v) = demo_entry v"
  by (simp add: stored_entry_def demo_entry_def demo_dn)

lemma demo_fits: "fits_page (DB_serializeEntry (demo_entry v)) \<longleftrightarrow> length v \<le> 4052"
  by (auto simp: fits_page_def DB_serializeEntry_def demo_entry_def db_attribute_def db_value_def Let_def demo_dn)

lemma demo_can_insert:
  assumes "length v < 2 ^ 32"
  shows "can_insert plain_unicode demo_index 1 (demo_entry v) demo_db"
proof -
  have "pm_ok (initializeNew 16)" using pm_run_ok [OF pm_run.new, of 16] by (simp add: run_ok_def)
  then have "pm_open (initializeNew 16)" by (simp add: pm_open_def initializeNew_def Let_def)
  then have "db_ready demo_db" by (simp add: db_ready_def demo_db_def DB_Begin_def DB_new_def TxManager_Begin_def Let_def)
  moreover have "active_txn 1 demo_db" "tm_next (db_tm demo_db) = 2"
    by (simp_all add: active_txn_def demo_db_def DB_Begin_def DB_new_def TxManager_Begin_def NewTxManager_def NewTransaction_def Let_def)
  moreover have "fresh_dn plain_unicode (lit ''ou=x'') demo_db"
    by (simp add: fresh_dn_def demo_dn Radix_Lookup_def demo_db_def DB_Begin_def DB_new_def TxManager_Begin_def
        NewVersionStore_def NewRootNode_def RNewNode_def GetChild_def Let_def)
  moreover have "uid_free plain_unicode (demo_entry v)"
    by (simp add: uid_free_def extractCanonicalUID_def demo_entry_def demo_dn)
  moreover have "entry_fits (demo_entry v)"
    using assms by (simp add: entry_fits_def attribute_fits_def demo_entry_def demo_dn)
  moreover have "index_accepts demo_index" by (simp add: index_accepts_def demo_index_def)
  ultimately show ?thesis
    using demo_stored by (simp add: can_insert_def stored_entry_def) (simp add: demo_entry_def demo_dn)
qed

theorem rolled_back_insert_is_read_witness:
  "let db1 = snd (DB_Put plain_unicode demo_index (Some 1) (demo_entry [65]) demo_db); db2 = snd (DB_Rollback (Some 1) db1)
   in fst (DB_Rollback (Some 1) db1) = None \<and> new_reader plain_unicode (lit ''ou=x'') db2 = Ok (demo_entry [65])"
proof -
  have "fits_page (DB_serializeEntry (stored_entry plain_unicode (demo_entry [65])))" by (simp add: demo_stored demo_fits)
  from rolled_back_insert_is_read [OF demo_can_insert [of "[65]", simplified] this] show ?thesis
    by (simp add: demo_stored) (simp add: demo_entry_def)
qed

lemma db_visible_keeps: "db_tree (snd (db_visible U d s j db)) = db_tree db" "db_pm (snd (db_visible U d s j db)) = db_pm db"
  by (simp_all add: db_visible_def split: prod.split)

lemma uid_scan_keeps:
  "db_tree (snd (uid_scan U s j dn uid ds db)) = db_tree db \<and> db_pm (snd (uid_scan U s j dn uid ds db)) = db_pm db"
proof (induction ds arbitrary: db)
  case (Cons d ds)
  show ?case
    using Cons.IH [of "snd (db_visible U d s j db)"] db_visible_keeps [of U d s j db]
    by (auto split: prod.split outcome.split)
qed simp

lemma checkUIDUnique_keeps:
  "db_tree (snd (checkUIDUnique U i dn as db)) = db_tree db" "db_pm (snd (checkUIDUnique U i dn as db)) = db_pm db"
  by (simp_all add: checkUIDUnique_def uid_scan_keeps Let_def split: prod.split)

lemma change_txn_keeps [simp]: "db_tree (change_txn i f db) = db_tree db" "db_pm (change_txn i f db) = db_pm db"
  by (simp_all add: change_txn_def split: option.split)

lemma CreateVersion_keeps:
  assumes "pm_open (db_pm db)" "data \<noteq> []" "in_use (db_pm db) pid"
  shows "db_tree (snd (CreateVersionWithLocation U i dn data db)) = db_tree db"
    "ReadPage pid (db_pm (snd (CreateVersionWithLocation U i dn data db))) = ReadPage pid (db_pm db)"
proof -
  obtain p pm' where a: "allocateStorage data (db_pm db) = (Ok (p, 0), pm')"
    "p \<in> set (fl_pages (pm_free (db_pm db))) \<or> p = pm_total (db_pm db)"
    "\<And>q. q < pm_total (db_pm db) \<Longrightarrow> q \<noteq> p \<Longrightarrow> ReadPage q pm' = ReadPage q (db_pm db)"
    by (rule allocateStorage_laws [OF assms(1,2)]) blast
  have "pid \<noteq> p" "pid < pm_total (db_pm db)" using a(2) assms(3) by (auto simp: in_use_def)
  then have "ReadPage pid pm' = ReadPage pid (db_pm db)" using a(3) by blast
  then show "db_tree (snd (CreateVersionWithLocation U i dn data db)) = db_tree db"
    "ReadPage pid (db_pm (snd (CreateVersionWithLocation U i dn data db))) = ReadPage pid (db_pm db)"
    using a(1) by (simp_all add: CreateVersionWithLocation_def Let_def split: option.split)
qed

lemma insert_known_dn:
  assumes "Radix_Lookup U dn tree = Some loc"
  shows "Radix_Insert U dn l tree = (Some RadixEntryExists, tree)"
proof -
  obtain cs where cs: "Radix_ParseDN U dn = Ok cs" "lookup cs tree = Some loc"
    using assms by (auto simp: Radix_Lookup_def lookup_def split: outcome.splits)
  then have "insert_at cs l tree = (Some RadixEntryExists, tree)"
    using insert_at_error [of cs l tree] by (cases "insert_at cs l tree") simp
  with cs(1) show ?thesis by (simp add: Radix_Insert_def on_path_def)
qed

lemma update_indexes_keeps [simp]:
  "db_tree (snd (update_indexes ix old new loc db)) = db_tree db" "db_pm (snd (update_indexes ix old new loc db)) = db_pm db"
  by (simp_all add: update_indexes_def split: prod.split)

lemma put_keeps:
  assumes "pm_open (db_pm db)" "Radix_Lookup U (DB_normalizeDN U (s_dn e)) (db_tree db) = Some loc" "in_use (db_pm db) pid"
  shows "db_tree (snd (DB_Put U ix txn e db)) = db_tree db \<and>
    ReadPage pid (db_pm (snd (DB_Put U ix txn e db))) = ReadPage pid (db_pm db)"
proof -
  let ?dn = "DB_normalizeDN U (s_dn e)"
  let ?data = "DB_serializeEntry (e \<lparr>s_dn := ?dn\<rparr>)"
  have kept: "db_tree db3 = db_tree db \<and> ReadPage pid (db_pm db3) = ReadPage pid (db_pm db)"
    if "checkUIDUnique U i ?dn (s_attributes e) db = (r, db1)" "db_visible U ?dn s j db1 = (r2, db2)"
      "CreateVersionWithLocation U i ?dn ?data db2 = (r3, db3)" for i r db1 s j r2 db2 r3 db3
  proof -
    have "db_tree db1 = db_tree db" "db_pm db1 = db_pm db" using checkUIDUnique_keeps [of U i ?dn] that(1) by (metis snd_conv)+
    moreover have "db_tree db2 = db_tree db1" "db_pm db2 = db_pm db1" using db_visible_keeps [of U ?dn] that(2) by (metis snd_conv)+
    ultimately show ?thesis
      using CreateVersion_keeps [of db2 ?data pid U i ?dn] assms(1,3) that(3) by (simp add: serialize_not_Nil)
  qed
  have uid: "db_tree db1 = db_tree db" "db_pm db1 = db_pm db"
    if "checkUIDUnique U i ?dn (s_attributes e) db = (r, db1)" for i r db1
    using checkUIDUnique_keeps [of U i ?dn] that by (metis snd_conv)+
  note ins = insert_known_dn [OF assms(2)]
  show ?thesis
  proof (cases txn)
    case (Some i)
    obtain r db1 where 1: "checkUIDUnique U i ?dn (s_attributes e) db = (r, db1)" by (cases "checkUIDUnique U i ?dn (s_attributes e) db")
    obtain s j where 2: "reader (Some i) db1 = (s, j)" by (cases "reader (Some i) db1")
    obtain r2 db2 where 3: "db_visible U ?dn s j db1 = (r2, db2)" by (cases "db_visible U ?dn s j db1")
    obtain r3 db3 where 4: "CreateVersionWithLocation U i ?dn ?data db2 = (r3, db3)" by (cases "CreateVersionWithLocation U i ?dn ?data db2")
    note k = kept [OF 1 3 4]
    with uid [OF 1] 1 2 3 4 Some ins show ?thesis
      by (cases r; cases r3; cases "old_entry ?dn r2") (simp_all add: DB_Put_def Let_def)
  qed (simp add: DB_Put_def)
qed

lemma reopened_insert:
  assumes "can_insert U ix i e db"
    and kept: "db_tree db' = db_tree (snd (DB_Put U ix (Some i) e db))" "db_pm db' = db_pm (snd (DB_Put U ix (Some i) e db))"
  shows "new_reader U (s_dn e) (DB_reopen db') =
    (if fits_page (DB_serializeEntry (stored_entry U e)) then Ok (stored_entry U e) else Fail DBErrEntryNotFound)"
proof -
  let ?dn = "DB_normalizeDN U (s_dn e)" and ?data = "DB_serializeEntry (stored_entry U e)"
  obtain loc where "disk_loader U (db_tree db') (db_pm db') ?dn = (if fits_page ?data then Some (?data, loc) else None)"
    by (rule insert_effect [OF assms(1)]) (simp add: kept)
  moreover have "unseen ?dn 1 1 NewVersionStore" by (simp add: unseen_def NewVersionStore_def)
  moreover have "s_dn e \<noteq> []" using assms(1) by (simp add: can_insert_def)
  ultimately show ?thesis
    using stored_entry_read [OF assms(1)]
    by (simp add: new_reader_eq DB_reopen_def NewTxManager_def unseen_reads_disk NewCommittedVersion_def)
qed

lemma insert_pages:
  assumes "can_insert U ix i e db" "unat (pm_total (db_pm db)) + 16 < 2 ^ 64"
  obtains pid where "Radix_Lookup U (DB_normalizeDN U (s_dn e)) (db_tree (snd (DB_Put U ix (Some i) e db))) = Some (pid, 0)"
    "in_use (db_pm (snd (DB_Put U ix (Some i) e db))) pid" "pm_open (db_pm (snd (DB_Put U ix (Some i) e db)))"
proof -
  have r: "db_ready db" "active_txn i db" "s_dn e \<noteq> []" "uid_free U e" "index_accepts ix" "fresh_dn U (DB_normalizeDN U (s_dn e)) db"
    using assms(1) by (simp_all add: can_insert_def)
  show thesis
    by (rule put_fresh [OF r(1-5) refl r(6) refl], rule that) (use assms(2) in \<open>simp_all add: pm_open_def\<close>)
qed

text \<open>
  C37. Rewriting an entry never reaches a restarted process. If the DN tree has a location for the
  DN, a \<open>Put\<close> of an entry with that DN, by any transaction and with any result, leaves the location
  and the page at it as they were. A process that opens the files without a usable entry cache
  therefore reads exactly what it would have read without the \<open>Put\<close>: the update is on a page that
  nothing refers to.
\<close>

theorem update_is_lost_on_restart:
  assumes "pm_open (db_pm db)" "Radix_Lookup U (DB_normalizeDN U (s_dn e)) (db_tree db) = Some (pid, slot)"
    "in_use (db_pm db) pid" "s_dn e \<noteq> []"
  shows "new_reader U (s_dn e) (DB_reopen (snd (DB_Put U ix txn e db))) = new_reader U (s_dn e) (DB_reopen db)"
proof -
  let ?dn = "DB_normalizeDN U (s_dn e)" and ?db = "snd (DB_Put U ix txn e db)"
  note k = put_keeps [OF assms(1-3), of ix txn]
  then have "disk_loader U (db_tree ?db) (db_pm ?db) ?dn = disk_loader U (db_tree db) (db_pm db) ?dn"
    using assms(2) by (simp add: disk_loader_def)
  moreover have "unseen ?dn 1 1 NewVersionStore" by (simp add: unseen_def NewVersionStore_def)
  ultimately show ?thesis
    using assms(4) by (simp add: new_reader_eq DB_reopen_def NewTxManager_def unseen_reads_disk)
qed

theorem update_is_lost_on_restart_witness:
  "let db1 = snd (DB_Put plain_unicode demo_index (Some 1) (demo_entry [65]) demo_db);
       db2 = snd (DB_Put plain_unicode demo_index (Some 1) (demo_entry [65] \<lparr>s_attributes := []\<rparr>) db1)
   in new_reader plain_unicode (lit ''ou=x'') (DB_reopen db2) = Ok (demo_entry [65])"
proof -
  let ?db1 = "snd (DB_Put plain_unicode demo_index (Some 1) (demo_entry [65]) demo_db)"
  let ?e = "demo_entry [65] \<lparr>s_attributes := []\<rparr>"
  have "unat (pm_total (db_pm demo_db)) + 16 < 2 ^ 64"
    by (simp add: demo_db_def DB_Begin_def DB_new_def TxManager_Begin_def initializeNew_def Let_def)
  then obtain pid where p: "Radix_Lookup plain_unicode (DB_normalizeDN plain_unicode (s_dn (demo_entry [65]))) (db_tree ?db1) = Some (pid, 0)"
    "in_use (db_pm ?db1) pid" "pm_open (db_pm ?db1)" by (rule insert_pages [OF demo_can_insert [of "[65]", simplified]])
  have dn: "s_dn (demo_entry [65]) = lit ''ou=x''" "s_dn ?e = s_dn (demo_entry [65])" "s_dn ?e \<noteq> []" by (simp_all add: demo_entry_def demo_dn)
  have "new_reader plain_unicode (s_dn ?e) (DB_reopen (snd (DB_Put plain_unicode demo_index (Some 1) ?e ?db1))) =
      new_reader plain_unicode (s_dn ?e) (DB_reopen ?db1)"
    by (rule update_is_lost_on_restart [OF p(3) p(1) [folded dn(2)] p(2) dn(3)])
  also have "\<dots> = Ok (demo_entry [65])"
    using reopened_insert [OF demo_can_insert [of "[65]", simplified] refl refl] by (simp add: demo_stored demo_fits)
  finally show ?thesis by (simp add: Let_def) (simp add: demo_entry_def)
qed



end
