(* ===== verification/Oba_Db_Locks.thy ===== *)
theory Oba_Db_Locks
  imports Oba_Db_Props
begin

text \<open>
  The write lock on an entry: a transaction that has written an entry keeps every other transaction
  from writing it until it commits or rolls back.
\<close>

section \<open>Sequences of operations\<close>

datatype db_op =
    OpBegin
  | OpCommit "uint64 option"
  | OpRollback "uint64 option"
  | OpGet "uint64 option" bytes
  | OpPut "uint64 option" entry
  | OpDelete "uint64 option" bytes
  | OpSearch "uint64 option" bytes search_scope
  | OpCollect uint64

fun db_step :: "unicode \<Rightarrow> 'i index_update \<Rightarrow> db_op \<Rightarrow> 'i database \<Rightarrow> 'i database" where
  "db_step U ix OpBegin db = snd (DB_Begin db)"
| "db_step U ix (OpCommit txn) db = snd (DB_Commit txn db)"
| "db_step U ix (OpRollback txn) db = snd (DB_Rollback txn db)"
| "db_step U ix (OpGet txn dn) db = snd (DB_Get U txn dn db)"
| "db_step U ix (OpPut txn e) db = snd (DB_Put U ix txn e db)"
| "db_step U ix (OpDelete txn dn) db = snd (DB_Delete U ix txn dn db)"
| "db_step U ix (OpSearch txn base scope) db = snd (snd (DB_SearchByDN U txn base scope db))"
| "db_step U ix (OpCollect oldest) db = db \<lparr>db_vs := snd (GarbageCollect oldest (db_vs db))\<rparr>"

text \<open>An operation that does not write, commit or roll back for the given transaction.\<close>

fun by_other :: "uint64 \<Rightarrow> db_op \<Rightarrow> bool" where
  "by_other i (OpCommit txn) = (txn \<noteq> Some i)"
| "by_other i (OpRollback txn) = (txn \<noteq> Some i)"
| "by_other i (OpPut txn e) = (txn \<noteq> Some i)"
| "by_other i (OpDelete txn dn) = (txn \<noteq> Some i)"
| "by_other i _ = True"

section \<open>The lock\<close>

definition write_locked :: "bytes \<Rightarrow> uint64 \<Rightarrow> version_store \<Rightarrow> bool" where
  "write_locked dn i vs \<longleftrightarrow> map_of (vs_writers vs) dn = Some i"

lemma write_locked_update [simp]:
  "write_locked dn i (vs \<lparr>vs_heap := h\<rparr>) = write_locked dn i vs" "write_locked dn i (vs \<lparr>vs_latest := l\<rparr>) = write_locked dn i vs"
  "write_locked dn i (vs \<lparr>vs_cache := c\<rparr>) = write_locked dn i vs"
  by (simp_all add: write_locked_def)

lemma write_locked_clear: "k \<noteq> i \<Longrightarrow> write_locked dn i vs \<Longrightarrow> write_locked dn i (clearActiveWriter d k vs)"
  by (auto simp: write_locked_def clearActiveWriter_def delete_conv')

lemma writers_visible [simp]: "vs_writers (snd (GetVisibleForTx loader d s j vs)) = vs_writers vs"
  by (simp add: GetVisibleForTx_def cached_visible_def load_visible_def alloc_version_def Let_def
      split: option.split prod.split)

lemma writers_db_visible [simp]: "vs_writers (db_vs (snd (db_visible U d s j db))) = vs_writers (db_vs db)"
  by (simp add: db_visible_def case_prod_beta)

lemma writers_uid_scan [simp]: "vs_writers (db_vs (snd (uid_scan U s j dn uid ds db))) = vs_writers (db_vs db)"
proof (induction ds arbitrary: db)
  case (Cons d ds)
  obtain r db1 where v: "db_visible U d s j db = (r, db1)" by (cases "db_visible U d s j db")
  have "vs_writers (db_vs db1) = vs_writers (db_vs db)" using writers_db_visible [of U d s j db] unfolding v by simp
  with v Cons.IH [of db1] show ?case by (auto split: prod.split outcome.split)
qed simp

lemma writers_checkUID [simp]: "vs_writers (db_vs (snd (checkUIDUnique U i dn as db))) = vs_writers (db_vs db)"
  by (simp add: checkUIDUnique_def Let_def split: prod.split)

lemma writers_entries [simp]: "vs_writers (db_vs (snd (snd (visible_entries U s j P ds db)))) = vs_writers (db_vs db)"
proof (induction ds arbitrary: db)
  case (Cons d ds)
  obtain r db1 where v: "db_visible U d s j db = (r, db1)" by (cases "db_visible U d s j db")
  have "vs_writers (db_vs db1) = vs_writers (db_vs db)" using writers_db_visible [of U d s j db] unfolding v by simp
  with v Cons.IH [of db1] show ?case by (auto split: prod.split outcome.split)
qed simp

lemma writers_previous [simp]: "vs_writers (snd (find_previous loader dn vs)) = vs_writers vs"
  by (simp add: find_previous_def alloc_version_def Let_def split: option.split prod.split)

lemma writers_link [simp]: "vs_writers (link_version loader i dn data loc vs) = vs_writers vs"
  by (simp add: link_version_def alloc_version_def case_prod_beta)

lemma write_locked_commit: "k \<noteq> i \<Longrightarrow> write_locked dn i vs \<Longrightarrow> write_locked dn i (CommitVersion k ts vs)"
proof -
  have "write_locked dn i vs \<Longrightarrow> write_locked dn i (fold (commit_entry k ts) xs vs)" if "k \<noteq> i" for xs
    using that by (induction xs arbitrary: vs) (auto simp: commit_entry_def write_locked_clear)
  then show "k \<noteq> i \<Longrightarrow> write_locked dn i vs \<Longrightarrow> ?thesis" by (simp add: CommitVersion_def flip: commit_entry_def)
qed

lemma write_locked_rollback: "k \<noteq> i \<Longrightarrow> write_locked dn i vs \<Longrightarrow> write_locked dn i (RollbackVersion k vs)"
proof -
  have "write_locked dn i (rollback_entry k x vs)" if "k \<noteq> i" "write_locked dn i vs" for x vs
    using that by (auto simp: rollback_entry_def write_locked_clear split: prod.split list.split)
  then have "write_locked dn i vs \<Longrightarrow> write_locked dn i (fold (rollback_entry k) xs vs)" if "k \<noteq> i" for xs
    using that by (induction xs arbitrary: vs) simp_all
  then show "k \<noteq> i \<Longrightarrow> write_locked dn i vs \<Longrightarrow> ?thesis" by (simp add: RollbackVersion_def)
qed

lemma write_locked_collect: "write_locked dn i vs \<Longrightarrow> write_locked dn i (snd (GarbageCollect oldest vs))"
proof -
  have "write_locked dn i (snd (collect_entry oldest x nv)) = write_locked dn i (snd nv)" for x nv
    by (cases x; cases nv) (simp add: collect_entry_def Let_def split: option.split)
  then have "write_locked dn i (snd (fold (collect_entry oldest) xs nv)) = write_locked dn i (snd nv)" for xs nv
    by (induction xs arbitrary: nv) simp_all
  then show "write_locked dn i vs \<Longrightarrow> ?thesis" by (simp add: GarbageCollect_def)
qed

lemma write_locked_conflict: "write_locked dn i vs \<Longrightarrow> k \<noteq> i \<Longrightarrow> write_conflict dn k vs"
  by (simp add: write_locked_def write_conflict_def)

lemma change_txn_vs [simp]: "db_vs (change_txn i f db) = db_vs db"
  by (simp add: change_txn_def split: option.split)

lemma update_indexes_vs [simp]: "db_vs (snd (update_indexes ix old new loc db)) = db_vs db"
  by (simp add: update_indexes_def split: prod.split)

lemma write_locked_create:
  assumes "k \<noteq> i" "write_locked dn i (db_vs db)"
  shows "write_locked dn i (db_vs (snd (CreateVersionWithLocation U k d data db)))"
proof (cases "d = dn")
  case True
  then show ?thesis
    using assms write_locked_conflict [OF assms(2,1)] by (simp add: CreateVersionWithLocation_def split: option.split)
next
  case False
  then have "write_locked dn i (db_vs db \<lparr>vs_writers := AList.update d k (vs_writers (db_vs db))\<rparr>)"
    using assms(2) by (simp add: write_locked_def update_conv')
  with assms write_locked_clear [OF assms(1) this, of d] show ?thesis
    by (auto simp: CreateVersionWithLocation_def Let_def write_locked_def split: option.split outcome.split prod.split)
qed

lemma write_locked_put:
  assumes "txn \<noteq> Some i" "write_locked dn i (db_vs db)"
  shows "write_locked dn i (db_vs (snd (DB_Put U ix txn e db)))"
proof (cases txn)
  case (Some k)
  let ?d = "DB_normalizeDN U (s_dn e)"
  let ?data = "DB_serializeEntry (e \<lparr>s_dn := ?d\<rparr>)"
  obtain r db1 where 1: "checkUIDUnique U k ?d (s_attributes e) db = (r, db1)" by (cases "checkUIDUnique U k ?d (s_attributes e) db")
  obtain s j where 2: "reader (Some k) db1 = (s, j)" by (cases "reader (Some k) db1")
  obtain r2 db2 where 3: "db_visible U ?d s j db1 = (r2, db2)" by (cases "db_visible U ?d s j db1")
  obtain r3 db3 where 4: "CreateVersionWithLocation U k ?d ?data db2 = (r3, db3)" by (cases "CreateVersionWithLocation U k ?d ?data db2")
  have l1: "write_locked dn i (db_vs db1)"
    using assms(2) writers_checkUID [of U k ?d "s_attributes e" db] unfolding write_locked_def 1 by simp
  then have "write_locked dn i (db_vs db2)" using writers_db_visible [of U ?d s j db1] unfolding write_locked_def 3 by simp
  then have "write_locked dn i (db_vs db3)" using write_locked_create [of k i dn db2 U ?d ?data] assms(1) Some 4 by simp
  with assms(2) l1 1 2 3 4 Some show ?thesis
    by (cases r; cases r3; cases "old_entry ?d r2") (simp_all add: DB_Put_def Let_def split: prod.split option.split)
qed (simp add: DB_Put_def assms(2))

lemma write_locked_DeleteVersion:
  assumes "k \<noteq> i" "write_locked dn i vs"
  shows "write_locked dn i (snd (DeleteVersion loader k d vs))"
proof -
  obtain r vs1 where f: "find_previous loader d vs = (r, vs1)" by (cases "find_previous loader d vs")
  have "write_locked dn i vs1" using assms(2) writers_previous [of loader d vs] unfolding write_locked_def f by simp
  then show ?thesis
    using assms(1) write_locked_conflict [of dn i vs1 k] f
    by (cases "d = dn"; cases r) (auto simp: DeleteVersion_def alloc_version_def Let_def write_locked_def update_conv')
qed

lemma write_locked_delete:
  assumes "txn \<noteq> Some i" "write_locked dn i (db_vs db)"
  shows "write_locked dn i (db_vs (snd (DB_Delete U ix txn d db)))"
proof (cases txn)
  case (Some k)
  let ?d = "DB_normalizeDN U d"
  obtain s j where 1: "reader (Some k) db = (s, j)" by (cases "reader (Some k) db")
  obtain r db1 where 2: "db_visible U ?d s j db = (r, db1)" by (cases "db_visible U ?d s j db")
  obtain r2 vs where 3: "DeleteVersion (disk_loader U (db_tree db1) (db_pm db1)) k ?d (db_vs db1) = (r2, vs)"
    by (cases "DeleteVersion (disk_loader U (db_tree db1) (db_pm db1)) k ?d (db_vs db1)")
  have l1: "write_locked dn i (db_vs db1)" using assms(2) writers_db_visible [of U ?d s j db] unfolding write_locked_def 2 by simp
  then have "write_locked dn i vs"
    using write_locked_DeleteVersion [of k i dn "db_vs db1" "disk_loader U (db_tree db1) (db_pm db1)" ?d] assms(1) Some 3 by simp
  with assms(2) l1 1 2 3 Some show ?thesis
    by (cases r; cases r2) (simp_all add: DB_Delete_def Let_def split: prod.split option.split)
qed (simp add: DB_Delete_def assms(2))

lemma write_locked_step:
  assumes "by_other i op" "write_locked dn i (db_vs db)"
  shows "write_locked dn i (db_vs (db_step U ix op db))"
proof (cases op)
  case OpBegin
  then show ?thesis using assms by (simp add: DB_Begin_def split: prod.split)
next
  case (OpCommit txn)
  then show ?thesis
    using assms write_locked_commit by (auto simp: DB_Commit_def Let_def split: prod.split option.split)
next
  case (OpRollback txn)
  then show ?thesis
    using assms write_locked_rollback by (auto simp: DB_Rollback_def Let_def split: prod.split option.split)
next
  case (OpGet txn d)
  have "vs_writers (db_vs (snd (DB_Get U txn d db))) = vs_writers (db_vs db)"
    using writers_db_visible [of U "DB_normalizeDN U d" "fst (reader txn db)" "snd (reader txn db)" db]
    by (cases "db_visible U (DB_normalizeDN U d) (fst (reader txn db)) (snd (reader txn db)) db")
       (simp add: DB_Get_def Let_def case_prod_beta split: outcome.split)
  with OpGet assms show ?thesis by (simp add: write_locked_def)
next
  case (OpSearch txn base scope)
  then show ?thesis
    using assms by (simp add: DB_SearchByDN_def write_locked_def Let_def split: prod.split outcome.split)
qed (use assms write_locked_put write_locked_delete write_locked_collect in simp_all)

lemma write_locked_run:
  "\<forall>op \<in> set ops. by_other i op \<Longrightarrow> write_locked dn i (db_vs db) \<Longrightarrow> write_locked dn i (db_vs (fold (db_step U ix) ops db))"
  by (induction ops arbitrary: db) (simp_all add: write_locked_step)

lemma create_locks:
  "CreateVersionWithLocation U i dn data db = (Ok loc, db') \<Longrightarrow> write_locked dn i (db_vs db')"
  by (auto simp: CreateVersionWithLocation_def write_locked_def Let_def update_conv'
      split: option.splits outcome.splits prod.splits if_splits)

lemma put_locks:
  assumes "DB_Put U ix (Some i) e db = (Ok (), db')"
  shows "write_locked (DB_normalizeDN U (s_dn e)) i (db_vs db')"
proof -
  let ?d = "DB_normalizeDN U (s_dn e)"
  let ?data = "DB_serializeEntry (e \<lparr>s_dn := ?d\<rparr>)"
  obtain r db1 where 1: "checkUIDUnique U i ?d (s_attributes e) db = (r, db1)" by (cases "checkUIDUnique U i ?d (s_attributes e) db")
  obtain s j where 2: "reader (Some i) db1 = (s, j)" by (cases "reader (Some i) db1")
  obtain r2 db2 where 3: "db_visible U ?d s j db1 = (r2, db2)" by (cases "db_visible U ?d s j db1")
  obtain r3 db3 where 4: "CreateVersionWithLocation U i ?d ?data db2 = (r3, db3)" by (cases "CreateVersionWithLocation U i ?d ?data db2")
  have o: "\<not> db_closed db" "\<not> db_readonly db" "s_dn e \<noteq> []" "r = None"
    using assms 1 by (auto simp: DB_Put_def Let_def split: if_splits option.splits)
  have "db_vs (snd (DB_Put U ix (Some i) e db)) = db_vs db3" "fst (DB_Put U ix (Some i) e db) \<noteq> Ok ()" if "\<nexists>loc. r3 = Ok loc"
    using o 1 2 3 4 that by (cases r3; simp add: DB_Put_def Let_def)+
  moreover have "db_vs (snd (DB_Put U ix (Some i) e db)) = db_vs db3" if "r3 = Ok loc" for loc
    using o 1 2 3 4 that by (cases "old_entry ?d r2") (simp_all add: DB_Put_def Let_def split: prod.split option.split)
  ultimately have "\<exists>loc. r3 = Ok loc \<and> db_vs db' = db_vs db3"
    unfolding assms by auto
  with create_locks 4 show ?thesis by metis
qed

lemma write_locked_put_fails:
  assumes "write_locked (DB_normalizeDN U (s_dn e)) i (db_vs db)" "k \<noteq> i"
  shows "fst (DB_Put U ix (Some k) e db) \<noteq> Ok () \<and> db_pm (snd (DB_Put U ix (Some k) e db)) = db_pm db \<and>
    db_tree (snd (DB_Put U ix (Some k) e db)) = db_tree db"
proof -
  let ?d = "DB_normalizeDN U (s_dn e)"
  let ?data = "DB_serializeEntry (e \<lparr>s_dn := ?d\<rparr>)"
  obtain r db1 where 1: "checkUIDUnique U k ?d (s_attributes e) db = (r, db1)" by (cases "checkUIDUnique U k ?d (s_attributes e) db")
  obtain s j where 2: "reader (Some k) db1 = (s, j)" by (cases "reader (Some k) db1")
  obtain r2 db2 where 3: "db_visible U ?d s j db1 = (r2, db2)" by (cases "db_visible U ?d s j db1")
  have k1: "db_pm db1 = db_pm db" "db_tree db1 = db_tree db" "vs_writers (db_vs db1) = vs_writers (db_vs db)"
    using checkUIDUnique_keeps [of U k ?d "s_attributes e" db] writers_checkUID [of U k ?d "s_attributes e" db] unfolding 1 by simp_all
  have k2: "db_pm db2 = db_pm db1" "db_tree db2 = db_tree db1" "vs_writers (db_vs db2) = vs_writers (db_vs db1)"
    using db_visible_keeps [of U ?d s j db1] writers_db_visible [of U ?d s j db1] unfolding 3 by simp_all
  have "write_conflict ?d k (db_vs db2)" using assms k1 k2 by (simp add: write_locked_def write_conflict_def)
  then have "\<exists>x. CreateVersionWithLocation U k ?d ?data db2 = (Fail x, db2)"
    by (simp add: CreateVersionWithLocation_def split: option.split)
  with k1 k2 1 2 3 show ?thesis by (cases r) (auto simp: DB_Put_def Let_def)
qed

lemma write_locked_delete_fails:
  assumes "write_locked (DB_normalizeDN U d) i (db_vs db)" "k \<noteq> i"
  shows "fst (DB_Delete U ix (Some k) d db) \<noteq> Ok ()"
proof -
  let ?d = "DB_normalizeDN U d"
  obtain s j where 1: "reader (Some k) db = (s, j)" by (cases "reader (Some k) db")
  obtain r db1 where 2: "db_visible U ?d s j db = (r, db1)" by (cases "db_visible U ?d s j db")
  let ?load = "disk_loader U (db_tree db1) (db_pm db1)"
  obtain p vs where 3: "find_previous ?load ?d (db_vs db1) = (p, vs)" by (cases "find_previous ?load ?d (db_vs db1)")
  have "write_conflict ?d k vs"
    using assms writers_db_visible [of U ?d s j db] writers_previous [of ?load ?d "db_vs db1"]
    unfolding 2 3 by (simp add: write_locked_def write_conflict_def)
  then have "\<exists>x. DeleteVersion ?load k ?d (db_vs db1) = (Fail x, vs)"
    using 3 by (cases p) (simp_all add: DeleteVersion_def)
  with 1 2 show ?thesis by (cases r) (auto simp: DB_Delete_def Let_def split: option.split)
qed

text \<open>
  C39. The first writer of an entry wins. After a successful \<open>Put\<close> by a transaction, whatever other
  transactions and readers do and however their operations are interleaved, no other transaction
  can put or delete an entry with the same normalized DN until the first one commits or rolls back:
  both operations fail, and the attempt to put leaves the pages and the DN tree as they were.
\<close>

theorem first_writer_wins:
  assumes "DB_Put U ix (Some i) e db = (Ok (), db1)" "\<forall>op \<in> set ops. by_other i op" "k \<noteq> i"
    "DB_normalizeDN U (s_dn e') = DB_normalizeDN U (s_dn e)"
  defines "db2 \<equiv> fold (db_step U ix) ops db1"
  shows "fst (DB_Put U ix (Some k) e' db2) \<noteq> Ok () \<and> db_pm (snd (DB_Put U ix (Some k) e' db2)) = db_pm db2 \<and>
    db_tree (snd (DB_Put U ix (Some k) e' db2)) = db_tree db2 \<and> fst (DB_Delete U ix (Some k) (s_dn e') db2) \<noteq> Ok ()"
proof -
  have "write_locked (DB_normalizeDN U (s_dn e')) i (db_vs db2)"
    unfolding db2_def using write_locked_run [OF assms(2) put_locks [OF assms(1)]] by (simp add: assms(4))
  from write_locked_put_fails [OF this assms(3)] write_locked_delete_fails [OF this assms(3)] show ?thesis by simp
qed

theorem first_writer_wins_witness:
  "let db2 = snd (DB_Begin (snd (DB_Put plain_unicode demo_index (Some 1) (demo_entry [65]) demo_db)))
   in fst (DB_Put plain_unicode demo_index (Some 2) (demo_entry [66]) db2) \<noteq> Ok () \<and>
     fst (DB_Delete plain_unicode demo_index (Some 2) (lit ''ou=x'') db2) \<noteq> Ok ()"
proof -
  let ?p = "DB_Put plain_unicode demo_index (Some 1) (demo_entry [65]) demo_db"
  have "fst ?p = Ok ()" by (rule insert_effect [OF demo_can_insert [of "[65]", simplified]]) simp
  then have p: "?p = (Ok (), snd ?p)" by (metis prod.collapse)
  have "(2 :: uint64) \<noteq> 1" by simp
  moreover have "DB_normalizeDN plain_unicode (s_dn (demo_entry [66])) = DB_normalizeDN plain_unicode (s_dn (demo_entry [65]))"
    "s_dn (demo_entry [66]) = lit ''ou=x''" by (simp_all add: demo_entry_def)
  ultimately show ?thesis
    using first_writer_wins [OF p, of "[OpBegin]" 2 "demo_entry [66]"] by (simp add: Let_def)
qed

end
