(* ===== verification/Ldap_Filter.thy ===== *)
theory Ldap_Filter
  imports Go_Strings Raft_Machine
begin

text \<open>
  Search filters (\<^verbatim>\<open>internal/filter\<close>): the filters with the tag of the source as constructors, matching
  of values (\<^verbatim>\<open>match.go\<close>), evaluation on an entry (\<^verbatim>\<open>evaluator.go\<close>), the text syntax
  (\<^verbatim>\<open>parser.go\<close>) and query plans (\<^verbatim>\<open>plan.go\<close>, \<^verbatim>\<open>optimizer.go\<close>). An entry is the one of the
  storage engine, its attributes in the order in which the map is iterated. A slice expression out
  of range is \<open>Panic\<close>.
\<close>

section \<open>Filters\<close>

record substring_filter =
  sf_attribute :: bytes
  sf_initial :: bytes
  sf_any :: "bytes list"
  sf_final :: bytes

datatype ldap_filter =
    FilterAnd "ldap_filter list"
  | FilterOr "ldap_filter list"
  | FilterNot "ldap_filter option"
  | FilterEquality bytes bytes
  | FilterSubstring "substring_filter option"
  | FilterGreaterOrEqual bytes bytes
  | FilterLessOrEqual bytes bytes
  | FilterPresent bytes
  | FilterApproxMatch bytes bytes
  | FilterExtensibleMatch

section \<open>Matching\<close>

definition matchEquality :: "unicode \<Rightarrow> bytes \<Rightarrow> bytes \<Rightarrow> bool" where
  "matchEquality U a b = EqualFold U a b"

text \<open>The slice \<^verbatim>\<open>s[pos:]\<close>.\<close>

definition slice_from :: "nat \<Rightarrow> bytes \<Rightarrow> (unit, bytes) outcome" where
  "slice_from pos s = (if pos \<le> length s then Ok (drop pos s) else Panic)"

text \<open>The loop over the middle parts: the position after them, or no match.\<close>

primrec match_any :: "unicode \<Rightarrow> bytes \<Rightarrow> nat \<Rightarrow> bytes list \<Rightarrow> (unit, nat option) outcome" where
  "match_any U value pos [] = Ok (Some pos)"
| "match_any U value pos (substr # rest) =
     (if substr = [] then match_any U value pos rest
      else case slice_from pos value of
          Ok s \<Rightarrow> (case Index s (ToLower U substr) of
              None \<Rightarrow> Ok None
            | Some idx \<Rightarrow> match_any U value (pos + idx + length substr) rest)
        | Fail e \<Rightarrow> Fail e
        | Panic \<Rightarrow> Panic)"

definition matchSubstring :: "unicode \<Rightarrow> bytes \<Rightarrow> bytes \<Rightarrow> bytes list \<Rightarrow> bytes \<Rightarrow> (unit, bool) outcome" where
  "matchSubstring U value initial anys final =
     (let valueLower = ToLower U value in
      if initial \<noteq> [] \<and> \<not> HasPrefix valueLower (ToLower U initial) then Ok False
      else case match_any U valueLower (length initial) anys of
          Ok None \<Rightarrow> Ok False
        | Ok (Some pos) \<Rightarrow>
            if final = [] then Ok True
            else (case slice_from pos valueLower of
                Ok s \<Rightarrow> Ok (HasSuffix s (ToLower U final)) | Fail e \<Rightarrow> Fail e | Panic \<Rightarrow> Panic)
        | Fail e \<Rightarrow> Fail e
        | Panic \<Rightarrow> Panic)"

text \<open>\<^verbatim>\<open>bytes.Compare(a, b) <= 0\<close>.\<close>

fun bytes_le :: "bytes \<Rightarrow> bytes \<Rightarrow> bool" where
  "bytes_le [] b = True"
| "bytes_le (x # a) [] = False"
| "bytes_le (x # a) (y # b) = (x < y \<or> x = y \<and> bytes_le a b)"

definition matchGreaterOrEqual :: "unicode \<Rightarrow> bytes \<Rightarrow> bytes \<Rightarrow> bool" where
  "matchGreaterOrEqual U value threshold = bytes_le (ToLower U threshold) (ToLower U value)"

definition matchLessOrEqual :: "unicode \<Rightarrow> bytes \<Rightarrow> bytes \<Rightarrow> bool" where
  "matchLessOrEqual U value threshold = bytes_le (ToLower U value) (ToLower U threshold)"

fun collapse_spaces :: "bool \<Rightarrow> bytes \<Rightarrow> bytes" where
  "collapse_spaces inWhitespace [] = []"
| "collapse_spaces inWhitespace (b # s) =
     (if b = 32 \<or> b = 9 \<or> b = 10 \<or> b = 13
      then (if inWhitespace then [] else [32]) @ collapse_spaces True s
      else b # collapse_spaces False s)"

definition normalizeForApprox :: "unicode \<Rightarrow> bytes \<Rightarrow> bytes" where
  "normalizeForApprox U value = TrimSpace U (collapse_spaces False (ToLower U value))"

definition matchApprox :: "unicode \<Rightarrow> bytes \<Rightarrow> bytes \<Rightarrow> bool" where
  "matchApprox U a b = (normalizeForApprox U a = normalizeForApprox U b)"

section \<open>Evaluation\<close>

definition getAttributeValues :: "unicode \<Rightarrow> bytes \<Rightarrow> entry \<Rightarrow> bytes list" where
  "getAttributeValues U attr e =
     (case map_of (s_attributes e) attr of
        Some values \<Rightarrow> values
      | None \<Rightarrow> (case find (\<lambda>(name, values). ToLower U name = ToLower U attr) (s_attributes e) of
            Some (name, values) \<Rightarrow> values | None \<Rightarrow> []))"

text \<open>The loops that stop at the first value or child that decides.\<close>

primrec any_ok :: "('a \<Rightarrow> (unit, bool) outcome) \<Rightarrow> 'a list \<Rightarrow> (unit, bool) outcome" where
  "any_ok f [] = Ok False"
| "any_ok f (x # xs) =
     (case f x of Ok b \<Rightarrow> if b then Ok True else any_ok f xs | Fail e \<Rightarrow> Fail e | Panic \<Rightarrow> Panic)"

primrec all_ok :: "('a \<Rightarrow> (unit, bool) outcome) \<Rightarrow> 'a list \<Rightarrow> (unit, bool) outcome" where
  "all_ok f [] = Ok True"
| "all_ok f (x # xs) =
     (case f x of Ok b \<Rightarrow> if b then all_ok f xs else Ok False | Fail e \<Rightarrow> Fail e | Panic \<Rightarrow> Panic)"

lemma any_ok_cong [fundef_cong]: "xs = ys \<Longrightarrow> (\<And>x. x \<in> set ys \<Longrightarrow> f x = g x) \<Longrightarrow> any_ok f xs = any_ok g ys"
  by (induction ys arbitrary: xs) (auto split: outcome.split)

lemma all_ok_cong [fundef_cong]: "xs = ys \<Longrightarrow> (\<And>x. x \<in> set ys \<Longrightarrow> f x = g x) \<Longrightarrow> all_ok f xs = all_ok g ys"
  by (induction ys arbitrary: xs) (auto split: outcome.split)

definition evaluateSubstring :: "unicode \<Rightarrow> substring_filter \<Rightarrow> entry \<Rightarrow> (unit, bool) outcome" where
  "evaluateSubstring U sf e =
     any_ok (\<lambda>v. matchSubstring U v (sf_initial sf) (sf_any sf) (sf_final sf)) (getAttributeValues U (sf_attribute sf) e)"

fun Evaluate :: "unicode \<Rightarrow> ldap_filter \<Rightarrow> entry \<Rightarrow> (unit, bool) outcome" where
  "Evaluate U (FilterAnd fs) e = all_ok (\<lambda>f. Evaluate U f e) fs"
| "Evaluate U (FilterOr fs) e = any_ok (\<lambda>f. Evaluate U f e) fs"
| "Evaluate U (FilterNot None) e = Ok False"
| "Evaluate U (FilterNot (Some f)) e =
     (case Evaluate U f e of Ok b \<Rightarrow> Ok (\<not> b) | Fail x \<Rightarrow> Fail x | Panic \<Rightarrow> Panic)"
| "Evaluate U (FilterEquality attr value) e =
     Ok (list_ex (\<lambda>v. matchEquality U v value) (getAttributeValues U attr e))"
| "Evaluate U (FilterSubstring None) e = Ok False"
| "Evaluate U (FilterSubstring (Some sf)) e = evaluateSubstring U sf e"
| "Evaluate U (FilterGreaterOrEqual attr value) e =
     Ok (list_ex (\<lambda>v. matchGreaterOrEqual U v value) (getAttributeValues U attr e))"
| "Evaluate U (FilterLessOrEqual attr value) e =
     Ok (list_ex (\<lambda>v. matchLessOrEqual U v value) (getAttributeValues U attr e))"
| "Evaluate U (FilterPresent attr) e = Ok (getAttributeValues U attr e \<noteq> [])"
| "Evaluate U (FilterApproxMatch attr value) e =
     Ok (list_ex (\<lambda>v. matchApprox U v value) (getAttributeValues U attr e))"
| "Evaluate U FilterExtensibleMatch e = Ok False"

section \<open>The text syntax\<close>

datatype filter_error =
    ErrEmptyFilter
  | ErrInvalidFilter
  | ErrUnbalancedParens
  | ErrMissingAttribute

definition parseSubstringFilter :: "bytes \<Rightarrow> bytes \<Rightarrow> ldap_filter" where
  "parseSubstringFilter attr value =
     (let parts = Split 42 value in
      FilterSubstring (Some \<lparr>sf_attribute = attr, sf_initial = hd parts,
        sf_any = filter (\<lambda>p. p \<noteq> []) (butlast (tl parts)), sf_final = last parts\<rparr>))"

text \<open>The position of an operator that is not at the start.\<close>

definition operator_at :: "bytes \<Rightarrow> string \<Rightarrow> nat option" where
  "operator_at s op = (case Index s (lit op) of Some i \<Rightarrow> if 0 < i then Some i else None | None \<Rightarrow> None)"

definition comparison ::
  "unicode \<Rightarrow> bytes \<Rightarrow> nat \<Rightarrow> nat \<Rightarrow> (bytes \<Rightarrow> bytes \<Rightarrow> ldap_filter) \<Rightarrow> (filter_error, ldap_filter) outcome" where
  "comparison U s i n f =
     (let attr = TrimSpace U (take i s) in if attr = [] then Fail ErrMissingAttribute else Ok (f attr (drop (i + n) s)))"

definition parseSimpleFilter :: "unicode \<Rightarrow> bytes \<Rightarrow> (filter_error, ldap_filter) outcome" where
  "parseSimpleFilter U s =
     (case operator_at s ''>='' of
        Some i \<Rightarrow> comparison U s i 2 FilterGreaterOrEqual
      | None \<Rightarrow>
          (case operator_at s ''<='' of
             Some i \<Rightarrow> comparison U s i 2 FilterLessOrEqual
           | None \<Rightarrow>
               (case operator_at s ''~='' of
                  Some i \<Rightarrow> comparison U s i 2 FilterApproxMatch
                | None \<Rightarrow>
                    (case operator_at s ''='' of
                       None \<Rightarrow> Fail ErrInvalidFilter
                     | Some i \<Rightarrow> comparison U s i 1 (\<lambda>attr value.
                         if value = [42] then FilterPresent attr
                         else if Contains value [42] then parseSubstringFilter attr value
                         else FilterEquality attr value)))))"

text \<open>The position of the parenthesis that closes the first one.\<close>

fun closing_paren :: "int \<Rightarrow> nat \<Rightarrow> bytes \<Rightarrow> nat option" where
  "closing_paren depth i [] = None"
| "closing_paren depth i (c # s) =
     (if c = 40 then closing_paren (depth + 1) (Suc i) s
      else if c = 41 then (if depth - 1 = 0 then Some i else closing_paren (depth - 1) (Suc i) s)
      else closing_paren depth (Suc i) s)"

text \<open>The outer parentheses are cut off; a text without any gets a pair first.\<close>

definition filter_body :: "bytes \<Rightarrow> (filter_error, bytes) outcome" where
  "filter_body s =
     (if HasPrefix s [40] \<and> HasSuffix s [41] then Ok (butlast (drop 1 s))
      else if Contains s [40] then Fail ErrInvalidFilter
      else Ok s)"

text \<open>Results of the parser: \<open>None\<close> when the bound on the nesting is used up.\<close>

definition then_parse ::
  "('e, 'a) outcome option \<Rightarrow> ('a \<Rightarrow> ('e, 'b) outcome option) \<Rightarrow> ('e, 'b) outcome option" where
  "then_parse r k =
     (case r of None \<Rightarrow> None | Some (Ok x) \<Rightarrow> k x | Some (Fail e) \<Rightarrow> Some (Fail e) | Some Panic \<Rightarrow> Some Panic)"

definition composite :: "(ldap_filter list \<Rightarrow> ldap_filter) \<Rightarrow> ldap_filter list \<Rightarrow> (filter_error, ldap_filter) outcome option" where
  "composite f fs = Some (if fs = [] then Fail ErrInvalidFilter else Ok (f fs))"

fun parseFilter :: "unicode \<Rightarrow> nat \<Rightarrow> bytes \<Rightarrow> (filter_error, ldap_filter) outcome option"
and parseFilterList :: "unicode \<Rightarrow> nat \<Rightarrow> bytes \<Rightarrow> (filter_error, ldap_filter list) outcome option" where
  "parseFilter U 0 s = None"
| "parseFilter U (Suc n) s =
     (let s = TrimSpace U s in
      if s = [] then Some (Fail ErrEmptyFilter)
      else then_parse (Some (filter_body s)) (\<lambda>inner.
        case inner of
          [] \<Rightarrow> Some (Fail ErrEmptyFilter)
        | c # r \<Rightarrow>
            if c = 38 then then_parse (parseFilterList U n (TrimSpace U r)) (composite FilterAnd)
            else if c = 124 then then_parse (parseFilterList U n (TrimSpace U r)) (composite FilterOr)
            else if c = 33 then then_parse (parseFilter U n (TrimSpace U r)) (\<lambda>f. Some (Ok (FilterNot (Some f))))
            else Some (parseSimpleFilter U inner)))"
| "parseFilterList U 0 s = None"
| "parseFilterList U (Suc n) s =
     (if s = [] then Some (Ok [])
      else if hd s \<noteq> 40 then Some (Fail ErrInvalidFilter)
      else case closing_paren 0 0 s of
          None \<Rightarrow> Some (Fail ErrUnbalancedParens)
        | Some i \<Rightarrow>
            then_parse (parseFilter U n (take (Suc i) s)) (\<lambda>f.
            then_parse (parseFilterList U n (TrimSpace U (drop (Suc i) s))) (\<lambda>fs. Some (Ok (f # fs)))))"

definition Filter_Parse :: "unicode \<Rightarrow> bytes \<Rightarrow> (filter_error, ldap_filter) outcome option" where
  "Filter_Parse U s =
     (let s = TrimSpace U s in if s = [] then Some (Fail ErrEmptyFilter) else parseFilter U (2 * length s + 1) s)"

section \<open>Query plans\<close>

datatype index_type = IndexEquality | IndexPresence | IndexSubstring

record query_plan =
  q_use_index :: bool
  q_attr :: bytes
  q_type :: index_type
  q_lookup :: bytes
  q_pattern :: "substring_filter option"
  q_post :: "ldap_filter option"
  q_cost :: nat

definition NewFullScanPlan :: "ldap_filter \<Rightarrow> query_plan" where
  "NewFullScanPlan f = \<lparr>q_use_index = False, q_attr = [], q_type = IndexEquality, q_lookup = [], q_pattern = None,
     q_post = Some f, q_cost = 10000\<rparr>"

definition NewIndexPlan :: "bytes \<Rightarrow> index_type \<Rightarrow> bytes \<Rightarrow> ldap_filter option \<Rightarrow> nat \<Rightarrow> query_plan" where
  "NewIndexPlan attr t lookup post cost = \<lparr>q_use_index = True, q_attr = attr, q_type = t, q_lookup = lookup,
     q_pattern = None, q_post = post, q_cost = cost\<rparr>"

definition normalizeAttr :: "unicode \<Rightarrow> bytes \<Rightarrow> bytes" where
  "normalizeAttr U attr = ToLower U (TrimSpace U attr)"

definition extractSubstringLookup :: "substring_filter \<Rightarrow> bytes option" where
  "extractSubstringLookup sf =
     find (\<lambda>p. 3 \<le> length p) (sf_initial sf # sf_any sf @ [sf_final sf])"

fun estimateCost :: "ldap_filter \<Rightarrow> nat" where
  "estimateCost (FilterAnd fs) = sum_list (map estimateCost fs)"
| "estimateCost (FilterOr fs) = sum_list (map estimateCost fs)"
| "estimateCost (FilterNot None) = 0"
| "estimateCost (FilterNot (Some f)) = estimateCost f"
| "estimateCost (FilterPresent a) = 50"
| "estimateCost (FilterSubstring sf) = 200"
| "estimateCost (FilterApproxMatch a v) = 300"
| "estimateCost _ = 100"

text \<open>The cheapest plan of a child that uses an index, the first of equal ones, with its position.\<close>

fun best_plan :: "nat \<Rightarrow> query_plan list \<Rightarrow> (nat \<times> query_plan) option \<Rightarrow> (nat \<times> query_plan) option" where
  "best_plan i [] best = best"
| "best_plan i (p # ps) best =
     best_plan (Suc i) ps
       (if q_use_index p \<and> (case best of None \<Rightarrow> True | Some (j, b) \<Rightarrow> q_cost p < q_cost b) then Some (i, p) else best)"

definition and_plan :: "ldap_filter list \<Rightarrow> query_plan list \<Rightarrow> query_plan" where
  "and_plan fs plans =
     (case best_plan 0 plans None of
        None \<Rightarrow> NewFullScanPlan (FilterAnd fs)
      | Some (i, best) \<Rightarrow>
          let remaining = take i fs @ drop (Suc i) fs;
              post = (case remaining of [] \<Rightarrow> None | [f] \<Rightarrow> Some f | _ \<Rightarrow> Some (FilterAnd remaining))
          in best \<lparr>q_use_index := True, q_post := post,
               q_cost := q_cost best + (case post of None \<Rightarrow> 0 | Some f \<Rightarrow> estimateCost f)\<rparr>)"

definition or_plan :: "ldap_filter list \<Rightarrow> query_plan list \<Rightarrow> query_plan" where
  "or_plan fs plans =
     (if fs \<noteq> [] \<and> list_all q_use_index plans
      then NewFullScanPlan (FilterOr fs) \<lparr>q_cost := sum_list (map q_cost plans) + 50 * length fs\<rparr>
      else NewFullScanPlan (FilterOr fs))"

fun Optimize :: "unicode \<Rightarrow> (bytes \<Rightarrow> index_type option) \<Rightarrow> ldap_filter \<Rightarrow> query_plan" where
  "Optimize U indexes (FilterEquality attr value) =
     (if indexes (normalizeAttr U attr) = Some IndexEquality
      then NewIndexPlan (normalizeAttr U attr) IndexEquality value None 10
      else NewFullScanPlan (FilterEquality attr value))"
| "Optimize U indexes (FilterPresent attr) =
     (if indexes (normalizeAttr U attr) = Some IndexPresence
      then NewIndexPlan (normalizeAttr U attr) IndexPresence [1] None 30
      else NewFullScanPlan (FilterPresent attr))"
| "Optimize U indexes (FilterSubstring (Some sf)) =
     (if indexes (normalizeAttr U (sf_attribute sf)) = Some IndexSubstring
      then (case extractSubstringLookup sf of
          None \<Rightarrow> NewFullScanPlan (FilterSubstring (Some sf))
        | Some lookup \<Rightarrow>
            NewIndexPlan (normalizeAttr U (sf_attribute sf)) IndexSubstring lookup (Some (FilterSubstring (Some sf))) 50
              \<lparr>q_pattern := Some sf\<rparr>)
      else NewFullScanPlan (FilterSubstring (Some sf)))"
| "Optimize U indexes (FilterAnd fs) = and_plan fs (map (Optimize U indexes) fs)"
| "Optimize U indexes (FilterOr fs) = or_plan fs (map (Optimize U indexes) fs)"
| "Optimize U indexes (FilterGreaterOrEqual attr value) =
     (if indexes (normalizeAttr U attr) = Some IndexEquality
      then NewIndexPlan (normalizeAttr U attr) IndexEquality value (Some (FilterGreaterOrEqual attr value)) 20
      else NewFullScanPlan (FilterGreaterOrEqual attr value))"
| "Optimize U indexes (FilterLessOrEqual attr value) =
     (if indexes (normalizeAttr U attr) = Some IndexEquality
      then NewIndexPlan (normalizeAttr U attr) IndexEquality value (Some (FilterLessOrEqual attr value)) 20
      else NewFullScanPlan (FilterLessOrEqual attr value))"
| "Optimize U indexes f = NewFullScanPlan f"

end
