(* ===== verification/Ldap_Filter_Props.thy ===== *)
theory Ldap_Filter_Props
  imports Ldap_Filter
begin

text \<open>
  Filter evaluation computes the declarative meaning of a filter, the parser returns, and what the
  query plans keep and lose.
\<close>

section \<open>The meaning of a filter\<close>

text \<open>The parts occur in the string in this order without overlapping.\<close>

fun in_order :: "bytes list \<Rightarrow> bytes \<Rightarrow> bool" where
  "in_order [] s = True"
| "in_order (p # ps) s = (\<exists>x y. s = x @ p @ y \<and> in_order ps y)"

definition substring_of :: "unicode \<Rightarrow> substring_filter \<Rightarrow> bytes \<Rightarrow> bool" where
  "substring_of U sf v \<longleftrightarrow>
     (\<exists>mid. ToLower U v = ToLower U (sf_initial sf) @ mid @ ToLower U (sf_final sf) \<and>
        in_order (map (ToLower U) (sf_any sf)) mid)"

fun satisfies :: "unicode \<Rightarrow> entry \<Rightarrow> ldap_filter \<Rightarrow> bool" where
  "satisfies U e (FilterAnd fs) = (\<forall>f \<in> set fs. satisfies U e f)"
| "satisfies U e (FilterOr fs) = (\<exists>f \<in> set fs. satisfies U e f)"
| "satisfies U e (FilterNot None) = False"
| "satisfies U e (FilterNot (Some f)) = (\<not> satisfies U e f)"
| "satisfies U e (FilterEquality attr value) = (\<exists>v \<in> set (getAttributeValues U attr e). matchEquality U v value)"
| "satisfies U e (FilterSubstring None) = False"
| "satisfies U e (FilterSubstring (Some sf)) = (\<exists>v \<in> set (getAttributeValues U (sf_attribute sf) e). substring_of U sf v)"
| "satisfies U e (FilterGreaterOrEqual attr value) =
     (\<exists>v \<in> set (getAttributeValues U attr e). matchGreaterOrEqual U v value)"
| "satisfies U e (FilterLessOrEqual attr value) = (\<exists>v \<in> set (getAttributeValues U attr e). matchLessOrEqual U v value)"
| "satisfies U e (FilterPresent attr) = (getAttributeValues U attr e \<noteq> [])"
| "satisfies U e (FilterApproxMatch attr value) = (\<exists>v \<in> set (getAttributeValues U attr e). matchApprox U v value)"
| "satisfies U e FilterExtensibleMatch = False"

text \<open>Lower case keeps the lengths of the parts of all substring filters.\<close>

definition same_length :: "unicode \<Rightarrow> bytes \<Rightarrow> bool" where
  "same_length U s \<longleftrightarrow> length (ToLower U s) = length s"

fun even_case :: "unicode \<Rightarrow> ldap_filter \<Rightarrow> bool" where
  "even_case U (FilterAnd fs) = (\<forall>f \<in> set fs. even_case U f)"
| "even_case U (FilterOr fs) = (\<forall>f \<in> set fs. even_case U f)"
| "even_case U (FilterNot (Some f)) = even_case U f"
| "even_case U (FilterSubstring (Some sf)) =
     (same_length U (sf_initial sf) \<and> list_all (same_length U) (sf_any sf) \<and> same_length U (sf_final sf))"
| "even_case U _ = True"

lemma same_length_ascii: "list_all is_ascii s \<Longrightarrow> same_length U s"
  by (simp add: same_length_def ToLower_def)

section \<open>Substrings\<close>

lemma Index_None_iff: "Index s p = None \<longleftrightarrow> (\<nexists>x y. s = x @ p @ y)"
proof (induction s)
  case (Cons b s)
  have "(\<exists>x y. b # s = x @ p @ y) \<longleftrightarrow> HasPrefix (b # s) p \<or> (\<exists>x y. s = x @ p @ y)"
    by (auto simp: HasPrefix_iff prefix_def Cons_eq_append_conv)
  with Cons show ?case by simp
qed simp

lemma Index_Some: "Index s p = Some i \<Longrightarrow> i + length p \<le> length s \<and> s = take i s @ p @ drop (i + length p) s"
proof (induction s arbitrary: i)
  case (Cons b s)
  show ?case
  proof (cases "HasPrefix (b # s) p")
    case True
    then have i: "i = 0" using Cons.prems by simp
    obtain r where "b # s = p @ r" using True by (auto simp: HasPrefix_iff prefix_def)
    then have "length p \<le> length (b # s)" "b # s = p @ drop (length p) (b # s)" by auto
    then show ?thesis using i by simp
  next
    case False
    then obtain j where "Index s p = Some j" "i = Suc j" using Cons.prems by auto
    with Cons.IH [of j] show ?thesis by simp
  qed
qed (simp split: if_splits)

lemma Index_least: "Index s p = Some i \<Longrightarrow> s = x @ p @ y \<Longrightarrow> i \<le> length x"
proof (induction s arbitrary: i x)
  case (Cons b s)
  show ?case
  proof (cases x)
    case Nil
    then have "HasPrefix (b # s) p" using Cons.prems(2) by (simp add: HasPrefix_iff prefix_def)
    then show ?thesis using Cons.prems(1) by simp
  next
    case (Cons c x')
    then have "s = x' @ p @ y" using Cons.prems(2) by simp
    then show ?thesis using Cons.IH Cons Cons.prems(1) by (auto split: if_splits)
  qed
qed (simp split: if_splits)

lemma in_order_prepend: "in_order ps s \<Longrightarrow> in_order ps (x @ s)"
proof (cases ps)
  case (Cons p qs)
  assume "in_order ps s"
  then obtain y z where "s = y @ p @ z" "in_order qs z" using Cons by auto
  then show ?thesis unfolding Cons by (simp, intro exI [of _ "x @ y"] exI [of _ z]) simp
qed simp

lemma in_order_append: "in_order ps s \<Longrightarrow> in_order ps (s @ t)"
proof (induction ps arbitrary: s)
  case (Cons p ps)
  then obtain x y where "s = x @ p @ y" "in_order ps (y @ t)" by auto
  then show ?case by (simp, intro exI [of _ x] exI [of _ "y @ t"]) simp
qed simp

lemma in_order_empty [simp]: "in_order ([] # ps) s = in_order ps s"
  by (auto intro: in_order_prepend)

text \<open>
  The loop over the middle parts finds the shortest stretch that has them all.
\<close>

definition shortest :: "bytes list \<Rightarrow> bytes \<Rightarrow> nat \<Rightarrow> bool" where
  "shortest ps s n \<longleftrightarrow> n \<le> length s \<and> in_order ps (take n s) \<and> (\<forall>k. in_order ps (take k s) \<longrightarrow> n \<le> k)"

lemma shortest_Nil: "shortest [] s 0"
  by (simp add: shortest_def)

lemma after_first:
  assumes "Index s p = Some i" "s = x @ p @ y"
  obtains z where "drop (i + length p) s = z @ y" "length x = i + length z"
proof -
  have "i \<le> length x" by (rule Index_least [OF assms])
  then have "drop (i + length p) (x @ p @ y) = drop (i + length p) (x @ p) @ y" "length (drop (i + length p) (x @ p)) = length x - i"
    by auto
  with assms(2) \<open>i \<le> length x\<close> show thesis by (intro that [of "drop (i + length p) (x @ p)"]) auto
qed

lemma shortest_step:
  assumes i: "Index s p = Some i" and n: "shortest ps (drop (i + length p) s) n"
  shows "shortest (p # ps) s (i + length p + n)"
proof -
  obtain u r where s: "s = u @ p @ r" "length u = i" "drop (i + length p) s = r"
    by (rule that [of "take i s" "drop (i + length p) s"]) (use Index_Some [OF i] in auto)
  have "take (i + length p + n) s = u @ p @ take n r" by (simp add: s(1) flip: s(2))
  then have "in_order (p # ps) (take (i + length p + n) s)" using n s(3) by (auto simp: shortest_def)
  moreover have "i + length p + n \<le> k" if k: "in_order (p # ps) (take k s)" for k
  proof -
    obtain x y where xy: "take k s = x @ p @ y" "in_order ps y" using k by auto
    then have "s = x @ p @ (y @ drop k s)" using append_take_drop_id [of k s] by simp
    then obtain z where z: "drop (i + length p) s = z @ y @ drop k s" "length x = i + length z" by (rule after_first [OF i])
    then have "in_order ps (take (length (z @ y)) (drop (i + length p) s))"
      using in_order_prepend [OF xy(2), of z] by simp
    then have "n \<le> length (z @ y)" using n by (simp add: shortest_def)
    moreover have "length (x @ p @ y) \<le> k" using xy(1) length_take [of k s] by simp
    ultimately show ?thesis using z(2) by simp
  qed
  moreover have "i + length p + n \<le> length s" using n s by (simp add: shortest_def)
  ultimately show ?thesis by (simp add: shortest_def)
qed

lemma no_stretch_step:
  assumes "Index s p = Some i" "\<not> in_order ps (drop (i + length p) s)"
  shows "\<not> in_order (p # ps) s"
proof
  assume "in_order (p # ps) s"
  then obtain x y where xy: "s = x @ p @ y" "in_order ps y" by auto
  obtain z where "drop (i + length p) s = z @ y" by (rule after_first [OF assms(1) xy(1)])
  with assms(2) in_order_prepend [OF xy(2), of z] show False by simp
qed

lemma match_any_law:
  assumes "list_all (same_length U) anys" "pos \<le> length v"
  obtains "match_any U v pos anys = Ok None" "\<not> in_order (map (ToLower U) anys) (drop pos v)"
  | n where "match_any U v pos anys = Ok (Some (pos + n))" "shortest (map (ToLower U) anys) (drop pos v) n"
  using assms
proof (induction anys arbitrary: pos thesis)
  case Nil
  then show ?case using shortest_Nil by force
next
  case (Cons a anys)
  let ?p = "ToLower U a" and ?s = "drop pos v"
  have len: "length ?p = length a" using Cons.prems(3) by (simp add: same_length_def)
  show ?case
  proof (cases "a = []")
    case True
    then have "?p = []" using len by simp
    then have e: "in_order (map (ToLower U) (a # anys)) = in_order (map (ToLower U) anys)"
      by (intro ext) (simp only: list.map in_order_empty)
    then have sh: "shortest (map (ToLower U) (a # anys)) = shortest (map (ToLower U) anys)"
      by (intro ext) (simp only: shortest_def)
    have m: "match_any U v pos (a # anys) = match_any U v pos anys" using True by simp
    show ?thesis
    proof (rule Cons.IH [of pos])
      show "list_all (same_length U) anys" "pos \<le> length v" using Cons.prems(3,4) by simp_all
      show thesis if "match_any U v pos anys = Ok None" "\<not> in_order (map (ToLower U) anys) (drop pos v)"
        by (rule Cons.prems(1) [unfolded e m, OF that])
      show thesis if "match_any U v pos anys = Ok (Some (pos + n))" "shortest (map (ToLower U) anys) (drop pos v) n" for n
        by (rule Cons.prems(2) [unfolded sh m, OF that])
    qed
  next
    case False
    show ?thesis
    proof (cases "Index ?s ?p")
      case None
      then have "\<not> in_order (map (ToLower U) (a # anys)) ?s" by (simp add: Index_None_iff)
      with None False Cons.prems show ?thesis by (simp add: slice_from_def)
    next
      case (Some i)
      have "i + length a \<le> length v - pos" using Index_Some [OF Some] len by simp
      then have le: "pos + i + length a \<le> length v" using Cons.prems(4) by linarith
      have m: "match_any U v pos (a # anys) = match_any U v (pos + i + length a) anys"
        using Some False Cons.prems(4) by (simp add: slice_from_def)
      have d: "drop (pos + i + length a) v = drop (i + length ?p) ?s" by (simp add: len add.commute add.left_commute)
      show ?thesis
      proof (rule Cons.IH [of "pos + i + length a"])
        show "list_all (same_length U) anys" "pos + i + length a \<le> length v" using Cons.prems(3) le by simp_all
        show thesis if "match_any U v (pos + i + length a) anys = Ok None"
          "\<not> in_order (map (ToLower U) anys) (drop (pos + i + length a) v)"
          using Cons.prems(1) that m no_stretch_step [OF Some] unfolding d by simp
        show thesis if "match_any U v (pos + i + length a) anys = Ok (Some (pos + i + length a + n))"
          "shortest (map (ToLower U) anys) (drop (pos + i + length a) v) n" for n
          using Cons.prems(2) [of "i + length ?p + n"] that m shortest_step [OF Some] unfolding d
          by (simp add: len add.assoc)
      qed
    qed
  qed
qed

lemma ToLower_Nil [simp]: "ToLower U [] = []"
  by (simp add: ToLower_def)

lemma shortest_suffix:
  assumes "shortest ps s n"
  shows "HasSuffix (drop n s) f \<longleftrightarrow> (\<exists>mid. s = mid @ f \<and> in_order ps mid)"
proof
  assume "HasSuffix (drop n s) f"
  then obtain z where "drop n s = z @ f" by (auto simp: HasSuffix_iff)
  then have "s = (take n s @ z) @ f" using append_take_drop_id [of n s] by simp
  moreover have "in_order ps (take n s @ z)" using assms by (intro in_order_append) (simp add: shortest_def)
  ultimately show "\<exists>mid. s = mid @ f \<and> in_order ps mid" by blast
next
  assume "\<exists>mid. s = mid @ f \<and> in_order ps mid"
  then obtain mid where m: "s = mid @ f" "in_order ps mid" by blast
  then have "n \<le> length mid" using assms by (simp add: shortest_def)
  then show "HasSuffix (drop n s) f" using m(1) by (simp add: HasSuffix_iff)
qed

lemma matchSubstring_iff:
  assumes "same_length U (sf_initial sf)" "list_all (same_length U) (sf_any sf)" "same_length U (sf_final sf)"
  shows "matchSubstring U v (sf_initial sf) (sf_any sf) (sf_final sf) = Ok (substring_of U sf v)"
proof (cases "HasPrefix (ToLower U v) (ToLower U (sf_initial sf))")
  case False
  then have "sf_initial sf \<noteq> []" by (auto simp: HasPrefix_def)
  moreover have "\<not> substring_of U sf v" using False by (auto simp: substring_of_def HasPrefix_iff)
  ultimately show ?thesis using False by (simp add: matchSubstring_def)
next
  case True
  let ?n = "length (sf_initial sf)" and ?ps = "map (ToLower U) (sf_any sf)"
  obtain r where r: "ToLower U v = ToLower U (sf_initial sf) @ r" using True by (auto simp: HasPrefix_iff)
  have n: "?n \<le> length (ToLower U v)" "drop ?n (ToLower U v) = r" using r assms(1) by (simp_all add: same_length_def)
  have spec: "substring_of U sf v \<longleftrightarrow> (\<exists>mid. r = mid @ ToLower U (sf_final sf) \<and> in_order ?ps mid)"
    by (simp add: substring_of_def r)
  show ?thesis
  proof (rule match_any_law [OF assms(2) n(1)])
    assume "match_any U (ToLower U v) ?n (sf_any sf) = Ok None" "\<not> in_order ?ps (drop ?n (ToLower U v))"
    then show ?thesis using True spec in_order_append by (auto simp: matchSubstring_def n(2))
  next
    fix k assume k: "match_any U (ToLower U v) ?n (sf_any sf) = Ok (Some (?n + k))" "shortest ?ps (drop ?n (ToLower U v)) k"
    have "?n + k \<le> length (ToLower U v)" using k(2) n(1) by (simp add: shortest_def le_diff_conv2)
    moreover have "drop (?n + k) (ToLower U v) = drop k r" using n(2) by (metis add.commute drop_drop)
    moreover note shortest_suffix [OF k(2) [unfolded n(2)], of "ToLower U (sf_final sf)"]
    ultimately show ?thesis
      using True k(1) spec by (auto simp: matchSubstring_def slice_from_def HasSuffix_def)
  qed
qed

section \<open>Evaluation\<close>

lemma any_ok_Ok: "\<forall>x \<in> set xs. f x = Ok (g x) \<Longrightarrow> any_ok f xs = Ok (\<exists>x \<in> set xs. g x)"
  by (induction xs) auto

lemma all_ok_Ok: "\<forall>x \<in> set xs. f x = Ok (g x) \<Longrightarrow> all_ok f xs = Ok (\<forall>x \<in> set xs. g x)"
  by (induction xs) auto

text \<open>
  C40. Evaluating a filter on an entry gives its meaning: conjunctions, disjunctions and negations
  of the meanings of the parts, comparisons with some value of the attribute, and for a substring
  filter that some value, in lower case, starts with the initial part, ends with the final part and
  has the middle parts between them in order and without overlaps. The greedy search therefore
  misses no match, and no evaluation panics, provided that converting the parts to lower case keeps
  their lengths, as it does for ASCII.
\<close>

theorem evaluate_gives_meaning:
  assumes "even_case U f"
  shows "Evaluate U f e = Ok (satisfies U e f)"
  using assms
proof (induction f rule: ldap_filter.induct)
  case (FilterAnd fs)
  then show ?case by (simp add: all_ok_Ok)
next
  case (FilterOr fs)
  then show ?case by (simp add: any_ok_Ok)
next
  case (FilterNot c)
  then show ?case by (cases c) simp_all
next
  case (FilterSubstring sf)
  then show ?case
    by (cases sf) (simp_all add: evaluateSubstring_def any_ok_Ok matchSubstring_iff)
qed (simp_all add: list_ex_iff)

theorem evaluate_gives_meaning_witness:
  "satisfies plain_unicode \<lparr>s_dn = [], s_attributes = [(lit ''CN'', [lit ''axbybzc''])]\<rparr>
     (FilterSubstring (Some \<lparr>sf_attribute = lit ''cn'', sf_initial = lit ''A'', sf_any = [lit ''b'', lit ''B''],
        sf_final = lit ''c''\<rparr>))"
proof -
  let ?sf = "\<lparr>sf_attribute = lit ''cn'', sf_initial = lit ''A'', sf_any = [lit ''b'', lit ''B''], sf_final = lit ''c''\<rparr>"
  let ?e = "\<lparr>s_dn = [], s_attributes = [(lit ''CN'', [lit ''axbybzc''])]\<rparr>"
  have "even_case plain_unicode (FilterSubstring (Some ?sf))" by code_simp
  then have "Evaluate plain_unicode (FilterSubstring (Some ?sf)) ?e = Ok (satisfies plain_unicode ?e (FilterSubstring (Some ?sf)))"
    by (rule evaluate_gives_meaning)
  moreover have "Evaluate plain_unicode (FilterSubstring (Some ?sf)) ?e = Ok True" by code_simp
  ultimately show ?thesis by simp
qed

text \<open>
  A part whose lower case is shorter makes the evaluation panic: the position is advanced by the
  length before the conversion, beyond the end of the value. The Kelvin sign, three bytes whose lower
  case is the letter k, is such a part.
\<close>

lemma substring_filter_panics:
  assumes "map_to_lower U [0xE2, 0x84, 0xAA] = lit ''k''"
  shows "Evaluate U (FilterSubstring (Some \<lparr>sf_attribute = lit ''cn'', sf_initial = [0xE2, 0x84, 0xAA], sf_any = [], sf_final = lit ''x''\<rparr>))
    \<lparr>s_dn = dn, s_attributes = [(lit ''cn'', [lit ''K''])]\<rparr> = Panic"
proof -
  have "ToLower U [0xE2, 0x84, 0xAA] = lit ''k''" using assms by (simp add: ToLower_def is_ascii_def)
  moreover have "ToLower U (lit ''K'') = lit ''k''" by (simp add: ToLower_def is_ascii_def lower_byte_def lit_def)
  ultimately show ?thesis
    by (simp add: evaluateSubstring_def getAttributeValues_def matchSubstring_def slice_from_def HasPrefix_def) (simp add: lit_def)
qed

section \<open>The parser returns\<close>

definition trims :: "unicode \<Rightarrow> bool" where
  "trims U \<longleftrightarrow> (\<forall>s. length (TrimSpace U s) \<le> length s)"

lemma trimsD: "trims U \<Longrightarrow> length (TrimSpace U s) \<le> length s"
  by (simp add: trims_def)

lemma filter_body_length: "filter_body s = Ok inner \<Longrightarrow> length inner \<le> length s"
  by (auto simp: filter_body_def split: if_splits)

lemma then_parse_None: "then_parse r k = None \<longleftrightarrow> r = None \<or> (\<exists>x. r = Some (Ok x) \<and> k x = None)"
  by (auto simp: then_parse_def split: option.split outcome.split)

lemma parse_returns_at:
  assumes "trims U"
  shows "(\<forall>s. 2 * length s < n \<longrightarrow> parseFilter U n s \<noteq> None) \<and>
    (\<forall>s. 2 * length s + 1 < n \<longrightarrow> parseFilterList U n s \<noteq> None)"
proof (induction n)
  case (Suc n)
  note t = trimsD [OF assms]
  have "parseFilter U (Suc n) s \<noteq> None" if s: "2 * length s < Suc n" for s
  proof -
    have r: "2 * length (TrimSpace U r) + 1 < n" if "filter_body (TrimSpace U s) = Ok (c # r)" for c r
      using filter_body_length [OF that] t [of s] t [of r] s by simp
    then have "parseFilterList U n (TrimSpace U r) \<noteq> None" "parseFilter U n (TrimSpace U r) \<noteq> None"
      if "filter_body (TrimSpace U s) = Ok (c # r)" for c r
      using Suc.IH that by (metis, metis add_lessD1)
    then show ?thesis by (auto simp: Let_def then_parse_None composite_def simp del: not_None_eq split: list.split)
  qed
  moreover have "parseFilterList U (Suc n) s \<noteq> None" if s: "2 * length s + 1 < Suc n" for s
  proof -
    have "parseFilter U n (take k s) \<noteq> None" for k using Suc.IH s by (auto simp: min_def)
    moreover have "parseFilterList U n (TrimSpace U (drop (Suc i) s)) \<noteq> None" if "s \<noteq> []" for i
    proof -
      have "length (drop (Suc i) s) < length s" using that by (cases s) auto
      then show ?thesis using Suc.IH s t [of "drop (Suc i) s"] by simp
    qed
    ultimately show ?thesis by (auto simp: then_parse_None simp del: not_None_eq split: option.split)
  qed
  ultimately show ?case by blast
qed simp

lemma parser_returns: "trims U \<Longrightarrow> Filter_Parse U s \<noteq> None"
  using parse_returns_at [of U "2 * length (TrimSpace U s) + 1"] by (simp add: Filter_Parse_def Let_def)

section \<open>Query plans\<close>

text \<open>
  An entry is selected by a plan if the index lookup returns it and it satisfies the filter applied
  after the lookup.
\<close>

definition selects :: "unicode \<Rightarrow> (bytes \<Rightarrow> index_type \<Rightarrow> bytes \<Rightarrow> entry \<Rightarrow> bool) \<Rightarrow> query_plan \<Rightarrow> entry \<Rightarrow> bool" where
  "selects U hit p e \<longleftrightarrow> (q_use_index p \<longrightarrow> hit (q_attr p) (q_type p) (q_lookup p) e) \<and>
     (case q_post p of None \<Rightarrow> True | Some f \<Rightarrow> satisfies U e f)"

text \<open>
  The plan of a conjunction drops the filter that the plan of its best part applies after the
  lookup: of two nested conditions only the one answered by the index is left.
\<close>

lemma nested_and_plan_forgets:
  assumes "indexes (normalizeAttr U a) = Some IndexEquality" "indexes (normalizeAttr U b) = None"
  shows "Optimize U indexes (FilterAnd [FilterAnd [FilterEquality a v, FilterEquality b w]]) =
      NewIndexPlan (normalizeAttr U a) IndexEquality v None 110"
    "selects U hit (Optimize U indexes (FilterAnd [FilterAnd [FilterEquality a v, FilterEquality b w]])) e =
      hit (normalizeAttr U a) IndexEquality v e"
proof -
  show "Optimize U indexes (FilterAnd [FilterAnd [FilterEquality a v, FilterEquality b w]]) =
      NewIndexPlan (normalizeAttr U a) IndexEquality v None 110"
    using assms by (simp add: and_plan_def NewIndexPlan_def NewFullScanPlan_def Let_def)
  then show "selects U hit (Optimize U indexes (FilterAnd [FilterAnd [FilterEquality a v, FilterEquality b w]])) e =
      hit (normalizeAttr U a) IndexEquality v e"
    by (simp add: selects_def NewIndexPlan_def)
qed

end
