(* ===== verification/Ldap_Message.thy ===== *)
theory Ldap_Message
  imports Ber_Codec
begin

text \<open>
  The envelope of LDAP messages (\<^verbatim>\<open>internal/ldap/message.go\<close>, \<^verbatim>\<open>types.go\<close>): the message with its
  operation as raw bytes and its controls, over the BER encoder and decoder. Loops of the parsers
  run on fuel; \<open>None\<close> is a loop that has not ended. The Go type \<^verbatim>\<open>int\<close> is \<open>int\<close> where the
  source has checked the range.
\<close>

section \<open>Parsing steps\<close>

datatype ldap_error =
    BerError ber_error
  | ParseError nat string "ldap_error option"
  | ErrInvalidMessageID
  | ErrMissingOperation
  | ErrInvalidOperation
  | ErrEmptyMessage
  | ErrInvalidBindVersion
  | ErrUnknownAuthMethod
  | ErrInvalidSASLCredentials
  | ErrInvalidModifyOperation
  | ErrInvalidSearchScope
  | ErrInvalidDerefAliases
  | LdapInvalidFilter
  | ErrInvalidSubstringFilter
  | ErrEmptyCompareDN
  | ErrEmptyCompareAttribute
  | ErrEmptyDeleteDN
  | ErrEmptyModifyObject
  | ErrEmptyModifications
  | ErrEmptyModifyDNEntry
  | ErrEmptyNewRDN

type_synonym 'a ldap_result = "((ldap_error, 'a) outcome \<times> decoder) option"

definition ldo :: "'a ldap_result \<Rightarrow> ('a \<Rightarrow> decoder \<Rightarrow> 'b ldap_result) \<Rightarrow> 'b ldap_result" where
  "ldo r k =
     (case r of
        None \<Rightarrow> None
      | Some (Ok x, d) \<Rightarrow> k x d
      | Some (Fail e, d) \<Rightarrow> Some (Fail e, d)
      | Some (Panic, d) \<Rightarrow> Some (Panic, d))"

text \<open>A read whose error is returned as it is, and one whose error is wrapped at a given offset.\<close>

definition ber_raw :: "'a dec_result \<Rightarrow> 'a ldap_result" where
  "ber_raw r = Some (map_fail BerError r)"

definition ber_at :: "nat \<Rightarrow> string \<Rightarrow> 'a dec_result \<Rightarrow> 'a ldap_result" where
  "ber_at off msg r = Some (map_fail (\<lambda>e. ParseError off msg (Some (BerError e))) r)"

text \<open>The offset is that of the decoder after the read.\<close>

definition ber_here :: "string \<Rightarrow> 'a dec_result \<Rightarrow> 'a ldap_result" where
  "ber_here msg r = ber_at (dec_offset (snd r)) msg r"

text \<open>Work on a decoder of its own, then go on with the outer one.\<close>

definition inside :: "decoder \<Rightarrow> 'a ldap_result \<Rightarrow> 'a ldap_result" where
  "inside d r = map_option (\<lambda>(x, _). (x, d)) r"

text \<open>The loop \<^verbatim>\<open>for decoder.Offset() < end && decoder.Remaining() > 0\<close>.\<close>

fun read_while :: "nat \<Rightarrow> int \<Rightarrow> (decoder \<Rightarrow> 'a ldap_result) \<Rightarrow> decoder \<Rightarrow> 'a list ldap_result" where
  "read_while 0 stop read d = (if int (dec_offset d) < stop \<and> 0 < Remaining d then None else Some (Ok [], d))"
| "read_while (Suc n) stop read d =
     (if int (dec_offset d) < stop \<and> 0 < Remaining d
      then ldo (read d) (\<lambda>x d. ldo (read_while n stop read d) (\<lambda>xs d. Some (Ok (x # xs), d)))
      else Some (Ok [], d))"

definition read_until :: "int \<Rightarrow> (decoder \<Rightarrow> 'a ldap_result) \<Rightarrow> decoder \<Rightarrow> 'a list ldap_result" where
  "read_until stop read d = read_while (length (dec_data d)) stop read d"

section \<open>Messages\<close>

record control =
  ctl_oid :: bytes
  ctl_critical :: bool
  ctl_value :: bytes

record raw_operation =
  op_tag :: int
  op_data :: bytes

record ldap_message =
  m_id :: int
  m_operation :: "raw_operation option"
  m_controls :: "control list"

text \<open>\<^verbatim>\<open>OperationType\<close> of a message.\<close>

definition OperationType :: "ldap_message \<Rightarrow> int" where
  "OperationType m = (case m_operation m of None \<Rightarrow> - 1 | Some op \<Rightarrow> op_tag op)"

definition MaxMessageID :: int where "MaxMessageID = 2147483647"

text \<open>The next element is of the universal class with the given number.\<close>

definition next_is :: "int \<Rightarrow> decoder \<Rightarrow> bool" where
  "next_is tag d =
     (case fst (PeekTag d) of Ok (class, constructed, num) \<Rightarrow> class = ClassUniversal \<and> num = tag | _ \<Rightarrow> False)"

definition parseControl :: "decoder \<Rightarrow> control ldap_result" where
  "parseControl d =
     ldo (ber_raw (ReadSequenceContents d)) (\<lambda>c d. inside d
       (ldo (ber_here ''failed to read control OID'' (ReadOctetString c)) (\<lambda>oid c.
        ldo (if 0 < Remaining c \<and> next_is TagBoolean c
             then ber_here ''failed to read control criticality'' (ReadBoolean c) else Some (Ok False, c)) (\<lambda>critical c.
        ldo (if 0 < Remaining c \<and> next_is TagOctetString c
             then ber_here ''failed to read control value'' (ReadOctetString c) else Some (Ok [], c)) (\<lambda>val c.
          Some (Ok \<lparr>ctl_oid = oid, ctl_critical = critical, ctl_value = val\<rparr>, c))))))"

text \<open>The controls after the first one when they are not wrapped: an error ends the list.\<close>

fun more_controls :: "nat \<Rightarrow> decoder \<Rightarrow> control list ldap_result" where
  "more_controls 0 d = (if 0 < Remaining d then None else Some (Ok [], d))"
| "more_controls (Suc n) d =
     (if 0 < Remaining d
      then (case parseControl d of
          None \<Rightarrow> None
        | Some (Ok c, d) \<Rightarrow> ldo (more_controls n d) (\<lambda>cs d. Some (Ok (c # cs), d))
        | Some (Fail e, d) \<Rightarrow> Some (Ok [], d)
        | Some (Panic, d) \<Rightarrow> Some (Panic, d))
      else Some (Ok [], d))"

definition parseControls :: "decoder \<Rightarrow> control list ldap_result" where
  "parseControls d =
     ldo (ber_raw (ExpectContextTag d 0)) (\<lambda>len d.
       if len = 0 then Some (Ok [], d)
       else ldo (ber_raw (PeekTag d)) (\<lambda>(class, constructed, num) d.
         if class = ClassUniversal \<and> num = TagSequence
         then let start = dec_offset d in
           ldo (ber_raw (ExpectSequence d)) (\<lambda>seqLen d.
             let seqEnd = int (dec_offset d) + seqLen in
             if 0 < Remaining d \<and> next_is TagOctetString d
             then ldo (parseControl (SetOffset d start)) (\<lambda>c d.
               ldo (more_controls (length (dec_data d)) d) (\<lambda>cs d. Some (Ok (c # cs), d)))
             else read_until seqEnd parseControl d)
         else Some (Fail (ParseError (dec_offset d) ''expected SEQUENCE for controls'' None), d)))"

definition ParseLDAPMessage :: "bytes \<Rightarrow> ldap_message ldap_result" where
  "ParseLDAPMessage data =
     (let d = NewBERDecoder data in
      if data = [] then Some (Fail ErrEmptyMessage, d)
      else ldo (ber_at 0 ''expected SEQUENCE for LDAPMessage'' (ExpectSequence d)) (\<lambda>seqLength d.
        let seqEnd = dec_offset d + nat seqLength in
        ldo (ber_here ''failed to read messageID'' (ReadInteger d)) (\<lambda>msgID d.
          if sint msgID < 0 \<or> sint msgID > MaxMessageID then Some (Fail ErrInvalidMessageID, d)
          else let opStart = dec_offset d in
            ldo (ber_at opStart ''failed to read protocolOp tag'' (ReadTag d)) (\<lambda>(class, constructed, tagNum) d.
              if class \<noteq> ClassApplication
              then Some (Fail (ParseError opStart ''protocolOp must have APPLICATION tag class'' (Some ErrInvalidOperation)), d)
              else ldo (ber_here ''failed to read protocolOp length'' (ReadLength d)) (\<lambda>opLength d.
                let contentStart = dec_offset d; contentEnd = contentStart + nat opLength in
                if length data < contentEnd
                then Some (Fail (ParseError contentStart ''truncated protocolOp data'' (Some (BerError ErrUnexpectedEOF))), d)
                else ldo (Some (go_slice data contentStart contentEnd, d)) (\<lambda>opData d.
                  let msg = \<lparr>m_id = sint msgID, m_operation = Some \<lparr>op_tag = tagNum, op_data = opData\<rparr>, m_controls = []\<rparr> in
                  if contentEnd < seqEnd
                  then ldo (Some (go_slice data contentEnd seqEnd, d)) (\<lambda>rest d.
                    if IsContextTag (NewBERDecoder rest) 0
                    then inside d (case parseControls (NewBERDecoder rest) of
                        Some (Ok cs, c) \<Rightarrow> Some (Ok (msg \<lparr>m_controls := cs\<rparr>), c)
                      | Some (Fail e, c) \<Rightarrow> Some (Fail (ParseError contentEnd ''failed to parse controls'' (Some e)), c)
                      | Some (Panic, c) \<Rightarrow> Some (Panic, c)
                      | None \<Rightarrow> None)
                    else Some (Ok msg, d))
                  else Some (Ok msg, d)))))))"

section \<open>Encoding\<close>

text \<open>\<^verbatim>\<open>encoder.Bytes()\<close> of a finished encoder.\<close>

definition Bytes :: "unit enc_result \<Rightarrow> (ldap_error, bytes) outcome" where
  "Bytes r = (case r of (Ok _, e) \<Rightarrow> Ok (buf e) | (Fail x, e) \<Rightarrow> Fail (BerError x) | (Panic, e) \<Rightarrow> Panic)"

definition encodeControl :: "encoder \<Rightarrow> control \<Rightarrow> unit enc_result" where
  "encodeControl e c =
     (let (pos, e) = BeginSequence e in
      and_then (WriteOctetString e (ctl_oid c)) (\<lambda>_ e.
      and_then (if ctl_critical c then WriteBoolean e True else (Ok (), e)) (\<lambda>_ e.
      and_then (if ctl_value c \<noteq> [] then WriteOctetString e (ctl_value c) else (Ok (), e)) (\<lambda>_ e.
        EndSequence e pos))))"

definition encodeControls :: "encoder \<Rightarrow> control list \<Rightarrow> unit enc_result" where
  "encodeControls e cs =
     (let (ctxPos, e) = WriteContextTag e 0 True; (seqPos, e) = BeginSequence e in
      and_then (write_all encodeControl e cs) (\<lambda>_ e.
      and_then (EndSequence e seqPos) (\<lambda>_ e.
        EndContextTag e ctxPos)))"

definition isConstructedOperation :: "int \<Rightarrow> bool" where
  "isConstructedOperation tag \<longleftrightarrow> tag \<noteq> 2 \<and> tag \<noteq> 16 \<and> tag \<noteq> 10"

definition Message_Encode :: "ldap_message \<Rightarrow> (ldap_error, bytes) outcome" where
  "Message_Encode m =
     (if m_id m < 0 \<or> m_id m > MaxMessageID then Fail ErrInvalidMessageID
      else case m_operation m of
          None \<Rightarrow> Fail ErrMissingOperation
        | Some op \<Rightarrow>
            (let (seqPos, e) = BeginSequence NewBEREncoder in
             Bytes (and_then (WriteInteger e (word_of_int (m_id m))) (\<lambda>_ e.
               let (appPos, e) = WriteApplicationTag e (op_tag op) (isConstructedOperation (op_tag op)) in
               and_then (EndApplicationTag (WriteRaw e (op_data op)) appPos) (\<lambda>_ e.
               and_then (if m_controls m \<noteq> [] then encodeControls e (m_controls m) else (Ok (), e)) (\<lambda>_ e.
                 EndSequence e seqPos))))))"

end
