(* ===== verification/Ldap_Requests.thy ===== *)
theory Ldap_Requests
  imports Ldap_Message
begin

text \<open>
  The operations of LDAP messages (\<^verbatim>\<open>add.go\<close>, \<^verbatim>\<open>bind.go\<close>, \<^verbatim>\<open>compare.go\<close>, \<^verbatim>\<open>delete.go\<close>, \<^verbatim>\<open>modify.go\<close>,
  \<^verbatim>\<open>modifydn.go\<close> of \<^verbatim>\<open>internal/ldap\<close>): requests are parsed from the contents of the application tag
  and encoded to them.
\<close>

definition empty_request :: "string \<Rightarrow> 'a ldap_result" where
  "empty_request msg = Some (Fail (ParseError 0 msg None), NewBERDecoder [])"

section \<open>Add\<close>

record ldap_attribute =
  at_type :: bytes
  at_values :: "bytes list"

record add_request =
  ar_entry :: bytes
  ar_attributes :: "ldap_attribute list"

text \<open>\<^verbatim>\<open>parseAttribute\<close> and \<^verbatim>\<open>parsePartialAttribute\<close> differ in the message of their first error.\<close>

definition read_attribute_as :: "string \<Rightarrow> decoder \<Rightarrow> ldap_attribute ldap_result" where
  "read_attribute_as what d =
     ldo (ber_here what (ReadSequenceContents d)) (\<lambda>a d. inside d
       (ldo (ber_at (dec_offset d) ''failed to read attribute type'' (ReadOctetString a)) (\<lambda>typ a.
        ldo (ber_at (dec_offset d) ''failed to read attribute values set'' (ExpectSet a)) (\<lambda>len a.
        ldo (read_until (int (dec_offset a) + len)
              (\<lambda>a. ber_at (dec_offset d) ''failed to read attribute value'' (ReadOctetString a)) a) (\<lambda>values a.
          Some (Ok \<lparr>at_type = typ, at_values = values\<rparr>, a))))))"

definition parseAttribute :: "decoder \<Rightarrow> ldap_attribute ldap_result" where
  "parseAttribute d = read_attribute_as ''failed to read attribute sequence'' d"

definition parsePartialAttribute :: "decoder \<Rightarrow> ldap_attribute ldap_result" where
  "parsePartialAttribute d = read_attribute_as ''failed to read partial attribute sequence'' d"

definition ParseAddRequest :: "bytes \<Rightarrow> add_request ldap_result" where
  "ParseAddRequest data =
     (if data = [] then empty_request ''empty add request data''
      else ldo (ber_here ''failed to read entry DN'' (ReadOctetString (NewBERDecoder data))) (\<lambda>entry d.
        ldo (ber_here ''failed to read attributes sequence'' (ExpectSequence d)) (\<lambda>len d.
        ldo (read_until (int (dec_offset d) + len) parseAttribute d) (\<lambda>attrs d.
          Some (Ok \<lparr>ar_entry = entry, ar_attributes = attrs\<rparr>, d)))))"

definition encodeAttribute :: "encoder \<Rightarrow> ldap_attribute \<Rightarrow> unit enc_result" where
  "encodeAttribute e a =
     (let (attrPos, e) = BeginSequence e in
      and_then (WriteOctetString e (at_type a)) (\<lambda>_ e.
        let (setPos, e) = BeginSet e in
        and_then (write_all WriteOctetString e (at_values a)) (\<lambda>_ e.
        and_then (EndSet e setPos) (\<lambda>_ e.
          EndSequence e attrPos))))"

definition Add_Encode :: "add_request \<Rightarrow> (ldap_error, bytes) outcome" where
  "Add_Encode r =
     Bytes (and_then (WriteOctetString NewBEREncoder (ar_entry r)) (\<lambda>_ e.
       let (pos, e) = BeginSequence e in
       and_then (write_all encodeAttribute e (ar_attributes r)) (\<lambda>_ e.
         EndSequence e pos)))"

definition Add_GetAttribute :: "add_request \<Rightarrow> bytes \<Rightarrow> ldap_attribute option" where
  "Add_GetAttribute r attrType = find (\<lambda>a. at_type a = attrType) (ar_attributes r)"

definition Add_GetAttributeValues :: "add_request \<Rightarrow> bytes \<Rightarrow> bytes list" where
  "Add_GetAttributeValues r attrType = (case Add_GetAttribute r attrType of None \<Rightarrow> [] | Some a \<Rightarrow> at_values a)"

section \<open>Bind\<close>

definition AuthSimple :: int where "AuthSimple = 0"
definition AuthSASL :: int where "AuthSASL = 3"

text \<open>The Go type \<^verbatim>\<open>AuthMethod\<close> is an integer: 0 is \<^verbatim>\<open>AuthMethodSimple\<close>, 1 is \<^verbatim>\<open>AuthMethodSASL\<close>.\<close>

definition AuthMethodSimple :: int where "AuthMethodSimple = 0"
definition AuthMethodSASL :: int where "AuthMethodSASL = 1"

record sasl_credentials =
  sc_mechanism :: bytes
  sc_credentials :: bytes

record bind_request =
  br_version :: int
  br_name :: bytes
  br_method :: int
  br_password :: bytes
  br_sasl :: "sasl_credentials option"

definition parse_sasl :: "nat \<Rightarrow> bytes \<Rightarrow> sasl_credentials ldap_result" where
  "parse_sasl off authData =
     ldo (ber_at off ''failed to read SASL mechanism'' (ReadOctetString (NewBERDecoder authData))) (\<lambda>mech s.
     ldo (if 0 < Remaining s then ber_at off ''failed to read SASL credentials'' (ReadOctetString s)
          else Some (Ok [], s)) (\<lambda>creds s.
       Some (Ok \<lparr>sc_mechanism = mech, sc_credentials = creds\<rparr>, s)))"

definition ParseBindRequest :: "bytes \<Rightarrow> bind_request ldap_result" where
  "ParseBindRequest data =
     (if data = [] then empty_request ''empty bind request data''
      else ldo (ber_here ''failed to read bind version'' (ReadInteger (NewBERDecoder data))) (\<lambda>version d.
        if sint version < 1 \<or> sint version > 127 then Some (Fail ErrInvalidBindVersion, d)
        else ldo (ber_here ''failed to read bind name'' (ReadOctetString d)) (\<lambda>name d.
          ldo (ber_here ''failed to read authentication'' (ReadTaggedValue d)) (\<lambda>(tagNum, constructed, authData) d.
            let req = \<lparr>br_version = sint version, br_name = name, br_method = AuthMethodSimple,
                       br_password = [], br_sasl = None\<rparr> in
            if tagNum = AuthSimple then Some (Ok (req \<lparr>br_password := authData\<rparr>), d)
            else if tagNum = AuthSASL then
              (if \<not> constructed
               then Some (Fail (ParseError (dec_offset d) ''SASL credentials must be constructed''
                      (Some ErrInvalidSASLCredentials)), d)
               else ldo (inside d (parse_sasl (dec_offset d) authData)) (\<lambda>sasl d.
                 Some (Ok (req \<lparr>br_method := AuthMethodSASL, br_sasl := Some sasl\<rparr>), d)))
            else Some (Fail (ParseError (dec_offset d) ''unknown authentication method tag'' (Some ErrUnknownAuthMethod)), d)))))"

text \<open>The credentials of SASL are reached through a pointer that may be nil.\<close>

definition encode_sasl :: "sasl_credentials \<Rightarrow> (ldap_error, bytes) outcome" where
  "encode_sasl sasl =
     Bytes (and_then (WriteOctetString NewBEREncoder (sc_mechanism sasl)) (\<lambda>_ s.
       if sc_credentials sasl \<noteq> [] then WriteOctetString s (sc_credentials sasl) else (Ok (), s)))"

definition Bind_Encode :: "bind_request \<Rightarrow> (ldap_error, bytes) outcome" where
  "Bind_Encode r =
     (let header = and_then (WriteInteger NewBEREncoder (word_of_int (br_version r))) (\<lambda>_ e.
        WriteOctetString e (br_name r)) in
      if br_method r = AuthMethodSimple
      then Bytes (and_then header (\<lambda>_ e. WriteTaggedValue e AuthSimple False (br_password r)))
      else case Bytes header of
          Fail e \<Rightarrow> Fail e
        | Panic \<Rightarrow> Panic
        | Ok _ \<Rightarrow>
            if br_method r = AuthMethodSASL
            then (case br_sasl r of
                None \<Rightarrow> Panic
              | Some sasl \<Rightarrow> (case encode_sasl sasl of
                    Ok content \<Rightarrow> Bytes (and_then header (\<lambda>_ e. WriteTaggedValue e AuthSASL True content))
                  | Fail e \<Rightarrow> Fail e
                  | Panic \<Rightarrow> Panic))
            else Fail ErrUnknownAuthMethod)"

definition Bind_IsAnonymous :: "bind_request \<Rightarrow> bool" where
  "Bind_IsAnonymous r \<longleftrightarrow> br_name r = [] \<and> br_method r = AuthMethodSimple \<and> br_password r = []"

section \<open>Compare, delete, unbind and abandon\<close>

record compare_request =
  cr_dn :: bytes
  cr_attribute :: bytes
  cr_value :: bytes

definition ParseCompareRequest :: "bytes \<Rightarrow> compare_request ldap_result" where
  "ParseCompareRequest data =
     (if data = [] then empty_request ''empty compare request data''
      else ldo (ber_here ''failed to read entry DN'' (ReadOctetString (NewBERDecoder data))) (\<lambda>dn d.
        ldo (ber_here ''failed to read AttributeValueAssertion'' (ReadSequenceContents d)) (\<lambda>a d. inside d
          (ldo (ber_at (dec_offset d) ''failed to read attribute description'' (ReadOctetString a)) (\<lambda>attr a.
           ldo (ber_at (dec_offset d) ''failed to read assertion value'' (ReadOctetString a)) (\<lambda>val a.
             Some (Ok \<lparr>cr_dn = dn, cr_attribute = attr, cr_value = val\<rparr>, a)))))))"

definition Compare_Encode :: "compare_request \<Rightarrow> (ldap_error, bytes) outcome" where
  "Compare_Encode r =
     Bytes (and_then (WriteOctetString NewBEREncoder (cr_dn r)) (\<lambda>_ e.
       let (pos, e) = BeginSequence e in
       and_then (WriteOctetString e (cr_attribute r)) (\<lambda>_ e.
       and_then (WriteOctetString e (cr_value r)) (\<lambda>_ e.
         EndSequence e pos))))"

definition Compare_Validate :: "compare_request \<Rightarrow> (ldap_error, unit) outcome" where
  "Compare_Validate r =
     (if cr_dn r = [] then Fail ErrEmptyCompareDN
      else if cr_attribute r = [] then Fail ErrEmptyCompareAttribute else Ok ())"

text \<open>The DN of a delete request is the data itself, an unbind request has no data that matters.\<close>

record delete_request =
  del_dn :: bytes

definition ParseDeleteRequest :: "bytes \<Rightarrow> (ldap_error, delete_request) outcome" where
  "ParseDeleteRequest data = Ok \<lparr>del_dn = data\<rparr>"

definition Delete_Encode :: "delete_request \<Rightarrow> (ldap_error, bytes) outcome" where
  "Delete_Encode r = Ok (del_dn r)"

definition Delete_Validate :: "delete_request \<Rightarrow> (ldap_error, unit) outcome" where
  "Delete_Validate r = (if del_dn r = [] then Fail ErrEmptyDeleteDN else Ok ())"

definition ParseUnbindRequest :: "bytes \<Rightarrow> (ldap_error, unit) outcome" where
  "ParseUnbindRequest data = Ok ()"

definition Unbind_Encode :: "unit \<Rightarrow> (ldap_error, bytes) outcome" where
  "Unbind_Encode r = Ok []"

definition ParseAbandonRequest :: "bytes \<Rightarrow> (ldap_error, int) outcome" where
  "ParseAbandonRequest data =
     (if data = [] then Fail (ParseError 0 ''empty abandon request data'' None)
      else let msgID = (if hd data AND 0x80 \<noteq> 0 then - 1 else 0 :: uint64) in
        Ok (sint (fold (\<lambda>b msgID. push_bit 8 msgID OR ucast b) data msgID)))"

definition Abandon_Encode :: "int \<Rightarrow> (ldap_error, bytes) outcome" where
  "Abandon_Encode msgID =
     (case Bytes (WriteInteger NewBEREncoder (word_of_int msgID)) of
        Ok encoded \<Rightarrow> Ok (if 2 \<le> length encoded then drop 2 encoded else [0])
      | Fail e \<Rightarrow> Fail e
      | Panic \<Rightarrow> Panic)"

section \<open>Modify and modify DN\<close>

record modification =
  md_operation :: int
  md_attribute :: ldap_attribute

record modify_request =
  mr_object :: bytes
  mr_changes :: "modification list"

definition parseModification :: "decoder \<Rightarrow> modification ldap_result" where
  "parseModification d =
     ldo (ber_here ''failed to read change sequence'' (ReadSequenceContents d)) (\<lambda>c d. inside d
       (ldo (ber_at (dec_offset d) ''failed to read operation'' (ReadEnumerated c)) (\<lambda>op c.
         if sint op < 0 \<or> sint op > 2 then Some (Fail ErrInvalidModifyOperation, c)
         else ldo (parsePartialAttribute c) (\<lambda>attr c.
           Some (Ok \<lparr>md_operation = sint op, md_attribute = attr\<rparr>, c)))))"

definition ParseModifyRequest :: "bytes \<Rightarrow> modify_request ldap_result" where
  "ParseModifyRequest data =
     (if data = [] then empty_request ''empty modify request data''
      else ldo (ber_here ''failed to read object DN'' (ReadOctetString (NewBERDecoder data))) (\<lambda>object d.
        ldo (ber_here ''failed to read changes sequence'' (ExpectSequence d)) (\<lambda>len d.
        ldo (read_until (int (dec_offset d) + len) parseModification d) (\<lambda>changes d.
          Some (Ok \<lparr>mr_object = object, mr_changes = changes\<rparr>, d)))))"

definition encodeModification :: "encoder \<Rightarrow> modification \<Rightarrow> unit enc_result" where
  "encodeModification e m =
     (let (pos, e) = BeginSequence e in
      and_then (WriteEnumerated e (word_of_int (md_operation m))) (\<lambda>_ e.
      and_then (encodeAttribute e (md_attribute m)) (\<lambda>_ e.
        EndSequence e pos)))"

definition Modify_Encode :: "modify_request \<Rightarrow> (ldap_error, bytes) outcome" where
  "Modify_Encode r =
     Bytes (and_then (WriteOctetString NewBEREncoder (mr_object r)) (\<lambda>_ e.
       let (pos, e) = BeginSequence e in
       and_then (write_all encodeModification e (mr_changes r)) (\<lambda>_ e.
         EndSequence e pos)))"

definition Modify_Validate :: "modify_request \<Rightarrow> (ldap_error, unit) outcome" where
  "Modify_Validate r =
     (if mr_object r = [] then Fail ErrEmptyModifyObject
      else if mr_changes r = [] then Fail ErrEmptyModifications
      else if list_ex (\<lambda>m. md_operation m < 0 \<or> md_operation m > 2) (mr_changes r)
      then Fail ErrInvalidModifyOperation else Ok ())"

definition AddModification :: "modify_request \<Rightarrow> int \<Rightarrow> bytes \<Rightarrow> bytes list \<Rightarrow> modify_request" where
  "AddModification r op attrType values =
     r \<lparr>mr_changes := mr_changes r @
          [\<lparr>md_operation = op, md_attribute = \<lparr>at_type = attrType, at_values = values\<rparr>\<rparr>]\<rparr>"

record modifydn_request =
  dr_entry :: bytes
  dr_rdn :: bytes
  dr_delete_old :: bool
  dr_superior :: bytes

definition ParseModifyDNRequest :: "bytes \<Rightarrow> modifydn_request ldap_result" where
  "ParseModifyDNRequest data =
     (if data = [] then empty_request ''empty modifydn request data''
      else ldo (ber_here ''failed to read entry DN'' (ReadOctetString (NewBERDecoder data))) (\<lambda>entry d.
        ldo (ber_here ''failed to read new RDN'' (ReadOctetString d)) (\<lambda>rdn d.
        ldo (ber_here ''failed to read deleteoldrdn'' (ReadBoolean d)) (\<lambda>delete_old d.
        ldo (if 0 < Remaining d \<and> IsContextTag d 0
             then ldo (ber_here ''failed to read newSuperior'' (ReadTaggedValue d)) (\<lambda>(tagNum, constructed, val) d.
               Some (Ok (if tagNum = 0 then val else []), d))
             else Some (Ok [], d)) (\<lambda>superior d.
          Some (Ok \<lparr>dr_entry = entry, dr_rdn = rdn, dr_delete_old = delete_old, dr_superior = superior\<rparr>, d))))))"

definition ModifyDN_Encode :: "modifydn_request \<Rightarrow> (ldap_error, bytes) outcome" where
  "ModifyDN_Encode r =
     Bytes (and_then (WriteOctetString NewBEREncoder (dr_entry r)) (\<lambda>_ e.
       and_then (WriteOctetString e (dr_rdn r)) (\<lambda>_ e.
       and_then (WriteBoolean e (dr_delete_old r)) (\<lambda>_ e.
         if dr_superior r \<noteq> []
         then let (pos, e) = WriteContextTag e 0 False in EndContextTag (WriteRaw e (dr_superior r)) pos
         else (Ok (), e)))))"

definition ModifyDN_Validate :: "modifydn_request \<Rightarrow> (ldap_error, unit) outcome" where
  "ModifyDN_Validate r =
     (if dr_entry r = [] then Fail ErrEmptyModifyDNEntry
      else if dr_rdn r = [] then Fail ErrEmptyNewRDN else Ok ())"

definition HasNewSuperior :: "modifydn_request \<Rightarrow> bool" where
  "HasNewSuperior r \<longleftrightarrow> dr_superior r \<noteq> []"

end
