(* ===== verification/Ldap_Search.thy ===== *)
theory Ldap_Search
  imports Ldap_Requests
begin

text \<open>
  Search requests and the results of operations (\<^verbatim>\<open>search.go\<close> and \<^verbatim>\<open>result.go\<close> of \<^verbatim>\<open>internal/ldap\<close>).
  A filter may be nested to any depth: its parser runs on fuel, one unit for each level; the
  filter of a level is shorter than the data it stands in, so the length of the data is enough.
\<close>

section \<open>Filters on the wire\<close>

record substring_components =
  sub_initial :: bytes
  sub_any :: "bytes list"
  sub_final :: bytes

record extensible_components =
  ext_rule :: bytes
  ext_type :: bytes
  ext_value :: bytes
  ext_dn_attributes :: bool

datatype search_filter =
  SearchFilter (sf_type: int) (sf_attribute: bytes) (sf_value: bytes)
    (sf_children: "search_filter list") (sf_child: "search_filter option")
    (sf_substrings: "substring_components option") (sf_extensible: "extensible_components option")

text \<open>The loop \<^verbatim>\<open>for decoder.Offset() < subEnd\<close>.\<close>

fun substring_loop ::
    "nat \<Rightarrow> int \<Rightarrow> substring_components \<Rightarrow> decoder \<Rightarrow> substring_components ldap_result" where
  "substring_loop 0 subEnd cs d = (if int (dec_offset d) < subEnd then None else Some (Ok cs, d))"
| "substring_loop (Suc n) subEnd cs d =
     (if int (dec_offset d) < subEnd
      then ldo (ber_here ''failed to read substring component'' (ReadTaggedValue d)) (\<lambda>(tagNum, constructed, val) d.
        if tagNum = 0 then substring_loop n subEnd (cs \<lparr>sub_initial := val\<rparr>) d
        else if tagNum = 1 then substring_loop n subEnd (cs \<lparr>sub_any := sub_any cs @ [val]\<rparr>) d
        else if tagNum = 2 then substring_loop n subEnd (cs \<lparr>sub_final := val\<rparr>) d
        else Some (Fail (ParseError (dec_offset d) ''unknown substring component tag'' (Some ErrInvalidSubstringFilter)), d))
      else Some (Ok cs, d))"

definition parse_substrings :: "decoder \<Rightarrow> (substring_components \<times> bytes) ldap_result" where
  "parse_substrings d =
     ldo (ber_here ''failed to read substring attribute'' (ReadOctetString d)) (\<lambda>attr d.
     ldo (ber_here ''failed to read substrings sequence'' (ExpectSequence d)) (\<lambda>len d.
     ldo (substring_loop (length (dec_data d)) (int (dec_offset d) + len)
            \<lparr>sub_initial = [], sub_any = [], sub_final = []\<rparr> d) (\<lambda>cs d.
       Some (Ok (cs, attr), d))))"

text \<open>The loop \<^verbatim>\<open>for decoder.Remaining() > 0\<close>; unknown components are skipped.\<close>

fun extensible_loop :: "nat \<Rightarrow> extensible_components \<Rightarrow> decoder \<Rightarrow> extensible_components ldap_result" where
  "extensible_loop 0 cs d = (if 0 < Remaining d then None else Some (Ok cs, d))"
| "extensible_loop (Suc n) cs d =
     (if 0 < Remaining d
      then ldo (ber_here ''failed to read extensible match component'' (ReadTaggedValue d)) (\<lambda>(tagNum, constructed, val) d.
        extensible_loop n
          (if tagNum = 1 then cs \<lparr>ext_rule := val\<rparr>
           else if tagNum = 2 then cs \<lparr>ext_type := val\<rparr>
           else if tagNum = 3 then cs \<lparr>ext_value := val\<rparr>
           else if tagNum = 4 then (if val \<noteq> [] \<and> hd val \<noteq> 0 then cs \<lparr>ext_dn_attributes := True\<rparr> else cs)
           else cs) d)
      else Some (Ok cs, d))"

definition parseExtensibleMatch :: "decoder \<Rightarrow> extensible_components ldap_result" where
  "parseExtensibleMatch d =
     extensible_loop (length (dec_data d))
       \<lparr>ext_rule = [], ext_type = [], ext_value = [], ext_dn_attributes = False\<rparr> d"

text \<open>A filter error at the position of a decoder.\<close>

definition refuse_filter :: "string \<Rightarrow> decoder \<Rightarrow> 'a ldap_result" where
  "refuse_filter msg d = Some (Fail (ParseError (dec_offset d) msg (Some LdapInvalidFilter)), d)"

fun parseSearchFilter :: "nat \<Rightarrow> decoder \<Rightarrow> search_filter ldap_result" where
  "parseSearchFilter 0 d = None"
| "parseSearchFilter (Suc n) d =
     ldo (ber_raw (ReadTaggedValue d)) (\<lambda>(tagNum, constructed, filterData) d.
       let sub = NewBERDecoder filterData in
       if tagNum = 0 \<or> tagNum = 1 then
         (if \<not> constructed then refuse_filter ''AND/OR filter must be constructed'' d
          else ldo (inside d (read_until (int (length filterData)) (parseSearchFilter n) sub)) (\<lambda>children d.
            Some (Ok (SearchFilter tagNum [] [] children None None None), d)))
       else if tagNum = 2 then
         (if \<not> constructed then refuse_filter ''NOT filter must be constructed'' d
          else ldo (inside d (parseSearchFilter n sub)) (\<lambda>child d.
            Some (Ok (SearchFilter tagNum [] [] [] (Some child) None None), d)))
       else if tagNum = 3 \<or> tagNum = 5 \<or> tagNum = 6 \<or> tagNum = 8 then
         (if \<not> constructed then refuse_filter ''comparison filter must be constructed'' d
          else inside d
            (ldo (ber_at (dec_offset d) ''failed to read filter attribute'' (ReadOctetString sub)) (\<lambda>attr sub.
             ldo (ber_at (dec_offset d) ''failed to read filter value'' (ReadOctetString sub)) (\<lambda>val sub.
               Some (Ok (SearchFilter tagNum attr val [] None None None), sub)))))
       else if tagNum = 4 then
         (if \<not> constructed then refuse_filter ''substring filter must be constructed'' d
          else ldo (inside d (parse_substrings sub)) (\<lambda>(cs, attr) d.
            Some (Ok (SearchFilter tagNum attr [] [] None (Some cs) None), d)))
       else if tagNum = 7 then
         (if constructed then refuse_filter ''present filter must be primitive'' d
          else Some (Ok (SearchFilter tagNum filterData [] [] None None None), d))
       else if tagNum = 9 then
         (if \<not> constructed then refuse_filter ''extensible match filter must be constructed'' d
          else ldo (inside d (parseExtensibleMatch sub)) (\<lambda>cs d.
            Some (Ok (SearchFilter tagNum [] [] [] None None (Some cs)), d)))
       else refuse_filter ''unknown filter type'' d)"

section \<open>Search requests\<close>

record search_request =
  sr_base :: bytes
  sr_scope :: int
  sr_deref :: int
  sr_size_limit :: int
  sr_time_limit :: int
  sr_types_only :: bool
  sr_filter :: search_filter
  sr_attributes :: "bytes list"

text \<open>A failed step whose error is wrapped at the offset of the decoder after it.\<close>

definition wrap_here :: "string \<Rightarrow> 'a ldap_result \<Rightarrow> 'a ldap_result" where
  "wrap_here msg r =
     (case r of Some (Fail e, d) \<Rightarrow> Some (Fail (ParseError (dec_offset d) msg (Some e)), d) | _ \<Rightarrow> r)"

definition ParseSearchRequest :: "bytes \<Rightarrow> search_request ldap_result" where
  "ParseSearchRequest data =
     (if data = [] then empty_request ''empty search request data''
      else ldo (ber_here ''failed to read baseObject'' (ReadOctetString (NewBERDecoder data))) (\<lambda>base d.
        ldo (ber_here ''failed to read scope'' (ReadEnumerated d)) (\<lambda>scope d.
        if sint scope < 0 \<or> sint scope > 2 then Some (Fail ErrInvalidSearchScope, d)
        else ldo (ber_here ''failed to read derefAliases'' (ReadEnumerated d)) (\<lambda>deref d.
        if sint deref < 0 \<or> sint deref > 3 then Some (Fail ErrInvalidDerefAliases, d)
        else ldo (ber_here ''failed to read sizeLimit'' (ReadInteger d)) (\<lambda>sizeLimit d.
        ldo (ber_here ''failed to read timeLimit'' (ReadInteger d)) (\<lambda>timeLimit d.
        ldo (ber_here ''failed to read typesOnly'' (ReadBoolean d)) (\<lambda>typesOnly d.
        ldo (wrap_here ''failed to read filter'' (parseSearchFilter (Suc (length data)) d)) (\<lambda>filt d.
        ldo (ber_here ''failed to read attributes sequence'' (ExpectSequence d)) (\<lambda>len d.
        ldo (read_until (int (dec_offset d) + len)
              (\<lambda>d. ber_here ''failed to read attribute'' (ReadOctetString d)) d) (\<lambda>attrs d.
          Some (Ok \<lparr>sr_base = base, sr_scope = sint scope, sr_deref = sint deref,
                    sr_size_limit = sint sizeLimit, sr_time_limit = sint timeLimit,
                    sr_types_only = typesOnly, sr_filter = filt, sr_attributes = attrs\<rparr>, d)))))))))))"

section \<open>Results\<close>

record ldap_res =
  res_code :: int
  res_matched :: bytes
  res_message :: bytes
  res_referral :: "bytes list"

definition LDAPResult_Encode :: "encoder \<Rightarrow> ldap_res \<Rightarrow> unit enc_result" where
  "LDAPResult_Encode e r =
     and_then (WriteEnumerated e (word_of_int (res_code r))) (\<lambda>_ e.
     and_then (WriteOctetString e (res_matched r)) (\<lambda>_ e.
     and_then (WriteOctetString e (res_message r)) (\<lambda>_ e.
       if res_referral r \<noteq> []
       then let (refPos, e) = WriteContextTag e 3 True in
         and_then (write_all WriteOctetString e (res_referral r)) (\<lambda>_ e. EndContextTag e refPos)
       else (Ok (), e))))"

text \<open>An application tag around what a writer appends.\<close>

definition tagged_response :: "int \<Rightarrow> (encoder \<Rightarrow> unit enc_result) \<Rightarrow> (ldap_error, bytes) outcome" where
  "tagged_response tag body =
     (let (appPos, e) = WriteApplicationTag NewBEREncoder tag True in
      Bytes (and_then (body e) (\<lambda>_ e. EndApplicationTag e appPos)))"

definition BindResponse_Encode :: "ldap_res \<Rightarrow> bytes \<Rightarrow> (ldap_error, bytes) outcome" where
  "BindResponse_Encode r serverSASLCreds =
     tagged_response 1 (\<lambda>e. and_then (LDAPResult_Encode e r) (\<lambda>_ e.
       if serverSASLCreds \<noteq> [] then WriteTaggedValue e 7 False serverSASLCreds else (Ok (), e)))"

text \<open>The loop body of \<^verbatim>\<open>SearchResultEntry.Encode\<close> is that of \<^verbatim>\<open>encodeAttribute\<close>.\<close>

definition SearchResultEntry_Encode :: "bytes \<Rightarrow> ldap_attribute list \<Rightarrow> (ldap_error, bytes) outcome" where
  "SearchResultEntry_Encode objectName attrs =
     tagged_response 4 (\<lambda>e. and_then (WriteOctetString e objectName) (\<lambda>_ e.
       let (attrSeqPos, e) = BeginSequence e in
       and_then (write_all encodeAttribute e attrs) (\<lambda>_ e. EndSequence e attrSeqPos)))"

definition SearchResultDone_Encode :: "ldap_res \<Rightarrow> (ldap_error, bytes) outcome" where
  "SearchResultDone_Encode r = tagged_response 5 (\<lambda>e. LDAPResult_Encode e r)"

definition ModifyResponse_Encode :: "ldap_res \<Rightarrow> (ldap_error, bytes) outcome" where
  "ModifyResponse_Encode r = tagged_response 7 (\<lambda>e. LDAPResult_Encode e r)"

definition AddResponse_Encode :: "ldap_res \<Rightarrow> (ldap_error, bytes) outcome" where
  "AddResponse_Encode r = tagged_response 9 (\<lambda>e. LDAPResult_Encode e r)"

definition DeleteResponse_Encode :: "ldap_res \<Rightarrow> (ldap_error, bytes) outcome" where
  "DeleteResponse_Encode r = tagged_response 11 (\<lambda>e. LDAPResult_Encode e r)"

definition ModifyDNResponse_Encode :: "ldap_res \<Rightarrow> (ldap_error, bytes) outcome" where
  "ModifyDNResponse_Encode r = tagged_response 13 (\<lambda>e. LDAPResult_Encode e r)"

definition CompareResponse_Encode :: "ldap_res \<Rightarrow> (ldap_error, bytes) outcome" where
  "CompareResponse_Encode r = tagged_response 15 (\<lambda>e. LDAPResult_Encode e r)"

definition NewSuccessResult :: ldap_res where
  "NewSuccessResult = \<lparr>res_code = 0, res_matched = [], res_message = [], res_referral = []\<rparr>"

definition NewErrorResultWithDN :: "int \<Rightarrow> bytes \<Rightarrow> bytes \<Rightarrow> ldap_res" where
  "NewErrorResultWithDN code matchedDN message =
     \<lparr>res_code = code, res_matched = matchedDN, res_message = message, res_referral = []\<rparr>"

definition NewErrorResult :: "int \<Rightarrow> bytes \<Rightarrow> ldap_res" where
  "NewErrorResult code message =
     \<lparr>res_code = code, res_matched = [], res_message = message, res_referral = []\<rparr>"

end
