(* ===== verification/Ldap_Connection.thy ===== *)
theory Ldap_Connection
  imports Ldap_Search Go_Strings
begin

text \<open>
  A client connection of the LDAP server (\<^verbatim>\<open>internal/server/connection.go\<close>, \<^verbatim>\<open>handler.go\<close>, and the
  control of \<^verbatim>\<open>persistent_search.go\<close>): messages are read from the network, dispatched to the handler
  of their operation and answered. The network is the bytes that are still to be read, the
  messages written so far and the number of writes it takes before it fails. The handlers are
  functions of the connection, the request and the state of the backend; they are installed
  by other components and are parameters here. What is logged and the state of TLS are left out.
\<close>

section \<open>Handlers\<close>

definition ResultSuccess :: int where "ResultSuccess = 0"
definition ResultProtocolError :: int where "ResultProtocolError = 2"
definition ResultUnavailableCriticalExtension :: int where "ResultUnavailableCriticalExtension = 12"
definition ResultInvalidCredentials :: int where "ResultInvalidCredentials = 49"
definition ResultUnwillingToPerform :: int where "ResultUnwillingToPerform = 53"

record operation_result =
  or_code :: int
  or_matched :: bytes
  or_message :: bytes

record search_entry =
  se_dn :: bytes
  se_attributes :: "ldap_attribute list"

record search_result =
  sres_result :: operation_result
  sres_entries :: "search_entry list"

record persistent_search_control =
  ps_change_types :: int
  ps_changes_only :: bool
  ps_return_ecs :: bool
  ps_critical :: bool

record 's connection =
  conn_in :: bytes
  conn_out :: "bytes list"
  conn_accepts :: nat
  conn_bindDN :: bytes
  conn_authenticated :: bool
  conn_messageID :: int
  conn_closed :: bool
  conn_persistent :: bool
  conn_watches :: "(search_request \<times> persistent_search_control \<times> int) list"
  conn_backend :: 's

type_synonym ('s, 'q, 'r) operation_handler = "'s connection \<Rightarrow> 'q \<Rightarrow> 'r \<times> 's"

record 's handler =
  bindHandler :: "('s, bind_request, operation_result) operation_handler option"
  searchHandler :: "('s, search_request, search_result) operation_handler option"
  addHandler :: "('s, add_request, operation_result) operation_handler option"
  deleteHandler :: "('s, delete_request, operation_result) operation_handler option"
  modifyHandler :: "('s, modify_request, operation_result) operation_handler option"
  modifyDNHandler :: "('s, modifydn_request, operation_result) operation_handler option"
  compareHandler :: "('s, compare_request, operation_result) operation_handler option"

definition refusal :: "int \<Rightarrow> string \<Rightarrow> operation_result" where
  "refusal code msg = \<lparr>or_code = code, or_matched = [], or_message = lit msg\<rparr>"

text \<open>A handler that is not configured refuses; a configured one is called.\<close>

definition call_handler ::
    "('s, 'q, 'r) operation_handler option \<Rightarrow> 'r \<Rightarrow> 's connection \<Rightarrow> 'q \<Rightarrow> 'r \<times> 's connection" where
  "call_handler h refused c q =
     (case h of None \<Rightarrow> (refused, c) | Some f \<Rightarrow> let (r, s) = f c q in (r, c \<lparr>conn_backend := s\<rparr>))"

definition HandleBind where
  "HandleBind h = call_handler (bindHandler h) (refusal ResultUnwillingToPerform ''bind handler not configured'')"

definition HandleSearch where
  "HandleSearch h = call_handler (searchHandler h)
     \<lparr>sres_result = refusal ResultUnwillingToPerform ''search handler not configured'', sres_entries = []\<rparr>"

definition HandleAdd where
  "HandleAdd h = call_handler (addHandler h) (refusal ResultUnwillingToPerform ''add handler not configured'')"

definition HandleDelete where
  "HandleDelete h = call_handler (deleteHandler h) (refusal ResultUnwillingToPerform ''delete handler not configured'')"

definition HandleModify where
  "HandleModify h = call_handler (modifyHandler h) (refusal ResultUnwillingToPerform ''modify handler not configured'')"

definition HandleModifyDN where
  "HandleModifyDN h = call_handler (modifyDNHandler h) (refusal ResultUnwillingToPerform ''modifydn handler not configured'')"

definition HandleCompare where
  "HandleCompare h = call_handler (compareHandler h) (refusal ResultUnwillingToPerform ''compare handler not configured'')"

text \<open>The handlers of \<^verbatim>\<open>NewHandler\<close>.\<close>

definition defaultBindHandler :: "('s, bind_request, operation_result) operation_handler" where
  "defaultBindHandler c req =
     (if Bind_IsAnonymous req then \<lparr>or_code = ResultSuccess, or_matched = [], or_message = []\<rparr>
      else refusal ResultInvalidCredentials ''authentication not configured'', conn_backend c)"

definition defaultSearchHandler :: "('s, search_request, search_result) operation_handler" where
  "defaultSearchHandler c req =
     (\<lparr>sres_result = refusal ResultUnwillingToPerform ''search not implemented'', sres_entries = []\<rparr>, conn_backend c)"

definition default_handler :: "string \<Rightarrow> ('s, 'q, operation_result) operation_handler" where
  "default_handler msg c req = (refusal ResultUnwillingToPerform msg, conn_backend c)"

definition NewHandler :: "'s handler" where
  "NewHandler =
     \<lparr>bindHandler = Some defaultBindHandler,
      searchHandler = Some defaultSearchHandler,
      addHandler = Some (default_handler ''add not implemented''),
      deleteHandler = Some (default_handler ''delete not implemented''),
      modifyHandler = Some (default_handler ''modify not implemented''),
      modifyDNHandler = Some (default_handler ''modifydn not implemented''),
      compareHandler = Some (default_handler ''compare not implemented'')\<rparr>"

section \<open>The persistent search control\<close>

definition PersistentSearchOID :: bytes where "PersistentSearchOID = lit ''2.16.840.1.113730.3.4.3''"

definition ParsePersistentSearchControl :: "control \<Rightarrow> persistent_search_control option ldap_result" where
  "ParsePersistentSearchControl ctrl =
     (let d = NewBERDecoder (ctl_value ctrl);
          psc = \<lparr>ps_change_types = 15, ps_changes_only = False, ps_return_ecs = True, ps_critical = ctl_critical ctrl\<rparr> in
      if ctl_oid ctrl \<noteq> PersistentSearchOID then Some (Ok None, d)
      else if ctl_value ctrl = [] then Some (Ok (Some psc), d)
      else ldo (ber_raw (ExpectSequence d)) (\<lambda>_ d.
        ldo (ber_raw (ReadInteger d)) (\<lambda>changeTypes d.
        ldo (ber_raw (ReadBoolean d)) (\<lambda>changesOnly d.
        ldo (ber_raw (ReadBoolean d)) (\<lambda>returnECs d.
          Some (Ok (Some (psc \<lparr>ps_change_types := sint changeTypes, ps_changes_only := changesOnly,
                              ps_return_ecs := returnECs\<rparr>)), d))))))"

fun FindPersistentSearchControl :: "control list \<Rightarrow> persistent_search_control option ldap_result" where
  "FindPersistentSearchControl [] = Some (Ok None, NewBERDecoder [])"
| "FindPersistentSearchControl (ctrl # cs) =
     (if ctl_oid ctrl = PersistentSearchOID then ParsePersistentSearchControl ctrl
      else FindPersistentSearchControl cs)"

section \<open>Reading and writing messages\<close>

datatype conn_error =
    EOF
  | UnexpectedEOF
  | ErrInvalidMessage
  | ErrMessageTooLarge
  | ErrConnectionClosed
  | NetworkError
  | MessageError ldap_error

definition MaxMessageSize :: int where "MaxMessageSize = 16 * 1024 * 1024"

text \<open>\<^verbatim>\<open>io.ReadFull\<close> into a slice of \<open>n\<close> bytes.\<close>

definition ReadFull :: "nat \<Rightarrow> bytes \<Rightarrow> (conn_error, bytes) outcome \<times> bytes" where
  "ReadFull n inp =
     (if n \<le> length inp then (Ok (take n inp), drop n inp)
      else if inp = [] then (Fail EOF, []) else (Fail UnexpectedEOF, []))"

text \<open>
  \<^verbatim>\<open>readLength\<close> with its \<^verbatim>\<open>int\<close> of 64 bits: the shifts drop what does not fit, and the result may
  be negative.
\<close>

definition readLength :: "bytes \<Rightarrow> (conn_error, uint64 \<times> bytes) outcome \<times> bytes" where
  "readLength inp =
     and_then (ReadFull 1 inp) (\<lambda>firstByte inp.
       if hd firstByte AND 0x80 = 0 then (Ok (ucast (hd firstByte), firstByte), inp)
       else let numBytes = unat (hd firstByte AND 0x7F) in
         if numBytes = 0 then (Fail ErrInvalidMessage, inp)
         else and_then (ReadFull numBytes inp) (\<lambda>lengthBytes inp.
           (Ok (fold (\<lambda>b len. push_bit 8 len OR ucast b) lengthBytes 0, firstByte @ lengthBytes), inp)))"

text \<open>
  The bytes of the next message with its tag and length. \<^verbatim>\<open>make([]byte, length)\<close> panics for a
  negative length.
\<close>

definition read_frame :: "bytes \<Rightarrow> (conn_error, bytes) outcome \<times> bytes" where
  "read_frame inp =
     and_then (ReadFull 1 inp) (\<lambda>tag inp.
       if hd tag \<noteq> 0x30 then (Fail ErrInvalidMessage, inp)
       else and_then (readLength inp) (\<lambda>(len, lengthBytes) inp.
         if sint len > MaxMessageSize then (Fail ErrMessageTooLarge, inp)
         else if sint len < 0 then (Panic, inp)
         else and_then (ReadFull (unat len) inp) (\<lambda>content inp.
           (Ok (tag @ lengthBytes @ content), inp))))"

type_synonym ('s, 'a) conn_result = "((conn_error, 'a) outcome \<times> 's connection) option"

definition ReadMessage :: "'s connection \<Rightarrow> ('s, ldap_message) conn_result" where
  "ReadMessage c =
     (case read_frame (conn_in c) of
        (Fail e, inp) \<Rightarrow> Some (Fail e, c \<lparr>conn_in := inp\<rparr>)
      | (Panic, inp) \<Rightarrow> Some (Panic, c \<lparr>conn_in := inp\<rparr>)
      | (Ok fullMessage, inp) \<Rightarrow>
          let c = c \<lparr>conn_in := inp\<rparr> in
          (case ParseLDAPMessage fullMessage of
             None \<Rightarrow> None
           | Some (Fail e, _) \<Rightarrow> Some (Fail (MessageError e), c)
           | Some (Panic, _) \<Rightarrow> Some (Panic, c)
           | Some (Ok msg, _) \<Rightarrow> Some (Ok msg, c \<lparr>conn_messageID := m_id msg\<rparr>)))"

definition WriteMessage :: "'s connection \<Rightarrow> ldap_message \<Rightarrow> (conn_error, unit) outcome \<times> 's connection" where
  "WriteMessage c msg =
     (if conn_closed c then (Fail ErrConnectionClosed, c)
      else case Message_Encode msg of
          Fail e \<Rightarrow> (Fail (MessageError e), c)
        | Panic \<Rightarrow> (Panic, c)
        | Ok data \<Rightarrow>
            if length (conn_out c) < conn_accepts c
            then (Ok (), c \<lparr>conn_out := conn_out c @ [data]\<rparr>)
            else (Fail NetworkError, c))"

definition Conn_Close :: "'s connection \<Rightarrow> 's connection" where
  "Conn_Close c = (if conn_closed c then c else c \<lparr>conn_closed := True, conn_watches := []\<rparr>)"

section \<open>Responses\<close>

text \<open>\<^verbatim>\<open>nil\<close> is returned where the encoder fails.\<close>

definition response_message :: "int \<Rightarrow> int \<Rightarrow> (ldap_error, bytes) outcome \<Rightarrow> (conn_error, ldap_message option) outcome" where
  "response_message tag msgID r =
     (case r of
        Ok data \<Rightarrow> Ok (Some \<lparr>m_id = msgID, m_operation = Some \<lparr>op_tag = tag, op_data = data\<rparr>, m_controls = []\<rparr>)
      | Fail e \<Rightarrow> Ok None
      | Panic \<Rightarrow> Panic)"

definition create_result :: "int \<Rightarrow> int \<Rightarrow> operation_result \<Rightarrow> (conn_error, ldap_message option) outcome" where
  "create_result tag msgID r =
     response_message tag msgID
       (Bytes (and_then (WriteEnumerated NewBEREncoder (word_of_int (or_code r))) (\<lambda>_ e.
         and_then (WriteOctetString e (or_matched r)) (\<lambda>_ e.
           WriteOctetString e (or_message r)))))"

definition createBindResponse where "createBindResponse = create_result 1"
definition createSearchDoneResponse where "createSearchDoneResponse = create_result 5"
definition createModifyResponse where "createModifyResponse = create_result 7"
definition createAddResponse where "createAddResponse = create_result 9"
definition createDeleteResponse where "createDeleteResponse = create_result 11"
definition createModifyDNResponse where "createModifyDNResponse = create_result 13"
definition createCompareResponse where "createCompareResponse = create_result 15"
definition createErrorResponse where "createErrorResponse = createBindResponse"

definition createSearchEntryResponse :: "int \<Rightarrow> search_entry \<Rightarrow> (conn_error, ldap_message option) outcome" where
  "createSearchEntryResponse msgID entry =
     response_message 4 msgID
       (Bytes (and_then (WriteOctetString NewBEREncoder (se_dn entry)) (\<lambda>_ e.
         let (attrListPos, e) = BeginSequence e in
         and_then (write_all encodeAttribute e (se_attributes entry)) (\<lambda>_ e.
           EndSequence e attrListPos))))"

section \<open>Dispatch\<close>

type_synonym 's answer = "('s, ldap_message option) conn_result"

text \<open>
  What the seven handlers share: the operation's data is parsed, a request that does not parse is
  answered with a protocol error, and one that does is handed on.
\<close>

definition with_request ::
    "(bytes \<Rightarrow> 'q ldap_result) \<Rightarrow> (int \<Rightarrow> operation_result \<Rightarrow> (conn_error, ldap_message option) outcome) \<Rightarrow> string \<Rightarrow>
     ldap_message \<Rightarrow> 's connection \<Rightarrow> ('q \<Rightarrow> 's answer) \<Rightarrow> 's answer" where
  "with_request parse create invalid msg c serve =
     (case m_operation msg of
        None \<Rightarrow> Some (Panic, c)
      | Some op \<Rightarrow>
          (case parse (op_data op) of
             None \<Rightarrow> None
           | Some (Panic, _) \<Rightarrow> Some (Panic, c)
           | Some (Fail e, _) \<Rightarrow> Some (create (m_id msg) (refusal ResultProtocolError invalid), c)
           | Some (Ok req, _) \<Rightarrow> serve req))"

definition handleBind :: "'s handler \<Rightarrow> 's connection \<Rightarrow> ldap_message \<Rightarrow> 's answer" where
  "handleBind h c msg =
     with_request ParseBindRequest createBindResponse ''invalid bind request'' msg c (\<lambda>req.
       let (result, c) = HandleBind h c req;
           c = (if or_code result = ResultSuccess
                then c \<lparr>conn_bindDN := br_name req, conn_authenticated := \<not> Bind_IsAnonymous req\<rparr> else c)
       in Some (createBindResponse (m_id msg) result, c))"

definition handleAdd :: "'s handler \<Rightarrow> 's connection \<Rightarrow> ldap_message \<Rightarrow> 's answer" where
  "handleAdd h c msg =
     with_request ParseAddRequest createAddResponse ''invalid add request'' msg c (\<lambda>req.
       let (result, c) = HandleAdd h c req in Some (createAddResponse (m_id msg) result, c))"

definition handleDelete :: "'s handler \<Rightarrow> 's connection \<Rightarrow> ldap_message \<Rightarrow> 's answer" where
  "handleDelete h c msg =
     with_request (\<lambda>data. Some (ParseDeleteRequest data, NewBERDecoder data))
       createDeleteResponse ''invalid delete request'' msg c (\<lambda>req.
       let (result, c) = HandleDelete h c req in Some (createDeleteResponse (m_id msg) result, c))"

definition handleModify :: "'s handler \<Rightarrow> 's connection \<Rightarrow> ldap_message \<Rightarrow> 's answer" where
  "handleModify h c msg =
     with_request ParseModifyRequest createModifyResponse ''invalid modify request'' msg c (\<lambda>req.
       let (result, c) = HandleModify h c req in Some (createModifyResponse (m_id msg) result, c))"

definition handleModifyDN :: "'s handler \<Rightarrow> 's connection \<Rightarrow> ldap_message \<Rightarrow> 's answer" where
  "handleModifyDN h c msg =
     with_request ParseModifyDNRequest createModifyDNResponse ''invalid modifydn request'' msg c (\<lambda>req.
       let (result, c) = HandleModifyDN h c req in Some (createModifyDNResponse (m_id msg) result, c))"

definition handleCompare :: "'s handler \<Rightarrow> 's connection \<Rightarrow> ldap_message \<Rightarrow> 's answer" where
  "handleCompare h c msg =
     with_request ParseCompareRequest createCompareResponse ''invalid compare request'' msg c (\<lambda>req.
       let (result, c) = HandleCompare h c req in Some (createCompareResponse (m_id msg) result, c))"

text \<open>
  The entries of a search are written before its last response. An entry that could not be
  encoded is a nil message, which \<^verbatim>\<open>WriteMessage\<close> dereferences on an open connection.
\<close>

fun write_entries :: "int \<Rightarrow> search_entry list \<Rightarrow> 's connection \<Rightarrow> (conn_error, unit) outcome \<times> 's connection" where
  "write_entries msgID [] c = (Ok (), c)"
| "write_entries msgID (entry # entries) c =
     (case createSearchEntryResponse msgID entry of
        Ok (Some msg) \<Rightarrow> and_then (WriteMessage c msg) (\<lambda>_ c. write_entries msgID entries c)
      | Ok None \<Rightarrow> (if conn_closed c then (Fail ErrConnectionClosed, c) else (Panic, c))
      | Fail e \<Rightarrow> (Fail e, c)
      | Panic \<Rightarrow> (Panic, c))"

definition run_search :: "'s handler \<Rightarrow> 's connection \<Rightarrow> ldap_message \<Rightarrow> search_request \<Rightarrow> 's answer" where
  "run_search h c msg req =
     (let (result, c) = HandleSearch h c req in
      case write_entries (m_id msg) (sres_entries result) c of
        (Ok _, c) \<Rightarrow> Some (createSearchDoneResponse (m_id msg) (sres_result result), c)
      | (Fail e, c) \<Rightarrow> Some (Ok None, c)
      | (Panic, c) \<Rightarrow> Some (Panic, c))"

definition handleSearch :: "'s handler \<Rightarrow> 's connection \<Rightarrow> ldap_message \<Rightarrow> 's answer" where
  "handleSearch h c msg =
     with_request ParseSearchRequest createSearchDoneResponse ''invalid search request'' msg c (\<lambda>req.
       case FindPersistentSearchControl (m_controls msg) of
         None \<Rightarrow> None
       | Some (Panic, _) \<Rightarrow> Some (Panic, c)
       | Some (Fail e, _) \<Rightarrow>
           Some (createSearchDoneResponse (m_id msg) (refusal ResultProtocolError ''invalid persistent search control''), c)
       | Some (Ok None, _) \<Rightarrow> run_search h c msg req
       | Some (Ok (Some psCtrl), _) \<Rightarrow>
           if conn_persistent c
           then Some (Ok None, c \<lparr>conn_watches := conn_watches c @ [(req, psCtrl, m_id msg)]\<rparr>)
           else if ps_critical psCtrl
           then Some (createSearchDoneResponse (m_id msg)
                  (refusal ResultUnavailableCriticalExtension ''persistent search not supported''), c)
           else run_search h c msg req)"

definition dispatchMessage :: "'s handler option \<Rightarrow> 's connection \<Rightarrow> ldap_message \<Rightarrow> 's answer" where
  "dispatchMessage handler c msg =
     (case handler of
        None \<Rightarrow> Some (createErrorResponse (m_id msg) (refusal ResultUnwillingToPerform ''no handler configured''), c)
      | Some h \<Rightarrow>
          (let tag = OperationType msg in
           if tag = 0 then handleBind h c msg
           else if tag = 3 then handleSearch h c msg
           else if tag = 8 then handleAdd h c msg
           else if tag = 10 then handleDelete h c msg
           else if tag = 6 then handleModify h c msg
           else if tag = 12 then handleModifyDN h c msg
           else if tag = 14 then handleCompare h c msg
           else if tag = 16 then Some (Ok None, c)
           else Some (createErrorResponse (m_id msg) (refusal ResultProtocolError ''unsupported operation''), c)))"

section \<open>The message loop\<close>

text \<open>
  \<^verbatim>\<open>Handle\<close>: one unit of fuel for each round. Every return runs the deferred \<^verbatim>\<open>Close\<close>; a panic is not
  recovered and ends the process.
\<close>

fun Handle :: "nat \<Rightarrow> 's handler option \<Rightarrow> 's connection \<Rightarrow> ('s, unit) conn_result" where
  "Handle 0 h c = None"
| "Handle (Suc n) h c =
     (if conn_closed c then Some (Ok (), Conn_Close c)
      else case ReadMessage c of
          None \<Rightarrow> None
        | Some (Fail e, c) \<Rightarrow> Some (Ok (), Conn_Close c)
        | Some (Panic, c) \<Rightarrow> Some (Panic, c)
        | Some (Ok msg, c) \<Rightarrow>
            if OperationType msg = 2 then Some (Ok (), Conn_Close c)
            else (case dispatchMessage h c msg of
                None \<Rightarrow> None
              | Some (Panic, c) \<Rightarrow> Some (Panic, c)
              | Some (Fail e, c) \<Rightarrow> Some (Fail e, c)
              | Some (Ok None, c) \<Rightarrow> Handle n h c
              | Some (Ok (Some response), c) \<Rightarrow>
                  (case WriteMessage c response of
                     (Ok _, c) \<Rightarrow> Handle n h c
                   | (Fail e, c) \<Rightarrow> Some (Ok (), Conn_Close c)
                   | (Panic, c) \<Rightarrow> Some (Panic, c))))"

end
