(* ===== verification/Ldap_Safety.thy ===== *)
theory Ldap_Safety
  imports Ldap_Connection
begin

text \<open>
  The parsers of LDAP messages on arbitrary input. The contract of a parsing step is that of a
  read of the BER layer (\<^const>\<open>safe_from\<close>), with the fuel added: the step returns, does not
  panic, keeps the data and does not move backwards. A step that advances when it succeeds can be
  repeated, and as many rounds as there are bytes left are enough.
\<close>

section \<open>The contract of a parsing step\<close>

definition settles :: "'a ldap_result \<Rightarrow> bool" where
  "settles r \<longleftrightarrow> (case r of None \<Rightarrow> False | Some (x, d) \<Rightarrow> x \<noteq> Panic)"

definition steps_from :: "decoder \<Rightarrow> 'a ldap_result \<Rightarrow> bool" where
  "steps_from d r \<longleftrightarrow> settles r \<and>
     (\<forall>x d'. r = Some (x, d') \<longrightarrow> dec_data d' = dec_data d \<and> dec_offset d \<le> dec_offset d')"

definition moves_from :: "decoder \<Rightarrow> 'a ldap_result \<Rightarrow> bool" where
  "moves_from d r \<longleftrightarrow> steps_from d r \<and> (\<forall>a d'. r = Some (Ok a, d') \<longrightarrow> dec_offset d < dec_offset d')"

lemma settles_simps [simp]:
  "settles (Some (Ok a, d))" "settles (Some (Fail e, d))" "\<not> settles (Some (Panic, d))" "\<not> settles None"
  by (simp_all add: settles_def)

lemma settlesE:
  assumes "settles r"
  obtains a d where "r = Some (Ok a, d)" | e d where "r = Some (Fail e, d)"
proof -
  obtain x d where r: "r = Some (x, d)" and "x \<noteq> Panic"
    using assms by (auto simp: settles_def split: option.splits)
  then show thesis using that by (cases x) auto
qed

lemma steps_settles: "steps_from d r \<Longrightarrow> settles r"
  by (simp add: steps_from_def)

lemma moves_steps: "moves_from d r \<Longrightarrow> steps_from d r"
  by (simp add: moves_from_def)

lemma steps_from_done [simp]: "steps_from d (Some (Ok a, d))" "steps_from d (Some (Fail e, d))"
  by (simp_all add: steps_from_def)

lemma moves_from_Fail [simp]: "moves_from d (Some (Fail e, d))"
  by (simp add: moves_from_def)

lemma ldo_simps [simp]:
  "ldo (Some (Ok a, d)) k = k a d" "ldo (Some (Fail e, d)) k = Some (Fail e, d)"
  "ldo (Some (Panic, d)) k = Some (Panic, d)" "ldo None k = None"
  by (simp_all add: ldo_def)

lemma settles_ldo:
  assumes "settles r" and "\<And>a d. r = Some (Ok a, d) \<Longrightarrow> settles (k a d)"
  shows "settles (ldo r k)"
  using assms(1) by (rule settlesE) (simp_all add: assms(2))

lemma steps_from_trans:
  assumes "steps_from d' r" and "dec_data d' = dec_data d" and "dec_offset d \<le> dec_offset d'"
  shows "steps_from d r"
  unfolding steps_from_def
proof (intro conjI allI impI)
  show "settles r" using assms(1) by (rule steps_settles)
  fix x d2
  assume "r = Some (x, d2)"
  then have "dec_data d2 = dec_data d'" "dec_offset d' \<le> dec_offset d2"
    using assms(1) by (simp_all add: steps_from_def)
  then show "dec_data d2 = dec_data d" "dec_offset d \<le> dec_offset d2"
    using assms(2,3) by simp_all
qed

lemma steps_from_ldo:
  assumes "steps_from d r"
    and "\<And>a d'. r = Some (Ok a, d') \<Longrightarrow> dec_data d' = dec_data d \<Longrightarrow> steps_from d' (k a d')"
  shows "steps_from d (ldo r k)"
proof (cases rule: settlesE [OF steps_settles [OF assms(1)]])
  case (1 a d')
  then have "dec_data d' = dec_data d" "dec_offset d \<le> dec_offset d'"
    using assms(1) by (simp_all add: steps_from_def)
  with 1 show ?thesis
    using assms(2) [of a d'] by (simp add: steps_from_trans)
next
  case (2 e d')
  then show ?thesis using assms(1) by (simp add: steps_from_def)
qed

lemma moves_from_ldo:
  assumes "moves_from d r"
    and "\<And>a d'. r = Some (Ok a, d') \<Longrightarrow> dec_data d' = dec_data d \<Longrightarrow> steps_from d' (k a d')"
  shows "moves_from d (ldo r k)"
proof -
  have s: "steps_from d (ldo r k)"
    using assms by (intro steps_from_ldo) (auto simp: moves_from_def)
  show ?thesis
  proof (cases rule: settlesE [OF steps_settles [OF moves_steps [OF assms(1)]]])
    case (1 a d')
    then have "dec_data d' = dec_data d" "dec_offset d < dec_offset d'"
      using assms(1) by (simp_all add: moves_from_def steps_from_def)
    then have "dec_offset d < dec_offset d2" if "k a d' = Some (Ok b, d2)" for b d2
      using assms(2) [OF 1] that by (fastforce simp: steps_from_def)
    with 1 s show ?thesis by (simp add: moves_from_def)
  next
    case (2 e d')
    then show ?thesis using s by (simp add: moves_from_def)
  qed
qed

lemma steps_from_inside: "settles r \<Longrightarrow> steps_from d (inside d r)"
  by (erule settlesE) (simp_all add: inside_def)

text \<open>Steps that are reads of the BER layer.\<close>

lemma map_fail_parts:
  "snd (map_fail g r) = snd r" "fst (map_fail g r) = Panic \<longleftrightarrow> fst r = Panic"
  "fst (map_fail g r) = Ok a \<longleftrightarrow> fst r = Ok a"
  by (cases "(g, r)" rule: map_fail.cases; simp)+

lemma steps_from_ber:
  assumes "safe_from d r"
  shows "steps_from d (ber_at off msg r)" "steps_from d (ber_here msg r)" "steps_from d (ber_raw r)"
  using assms
  by (auto simp: steps_from_def settles_def ber_at_def ber_here_def ber_raw_def safe_from_def
      map_fail_parts prod_eq_iff split: prod.splits)

lemma advancing_ber:
  assumes "advancing d r"
  shows "moves_from d (ber_at off msg r)" "moves_from d (ber_here msg r)" "moves_from d (ber_raw r)"
  using assms steps_from_ber [of d r]
  by (auto simp: moves_from_def ber_at_def ber_here_def ber_raw_def advancing_def map_fail_parts prod_eq_iff)

lemma ber_Ok:
  "ber_at off msg r = Some (Ok a, d) \<longleftrightarrow> r = (Ok a, d)" "ber_here msg r = Some (Ok a, d) \<longleftrightarrow> r = (Ok a, d)"
  "ber_raw r = Some (Ok a, d) \<longleftrightarrow> r = (Ok a, d)"
  by (auto simp: ber_at_def ber_here_def ber_raw_def map_fail_parts prod_eq_iff)

section \<open>Loops\<close>

lemma steps_from_read_while:
  assumes "Remaining d \<le> int n" and "\<And>d'. dec_data d' = dec_data d \<Longrightarrow> moves_from d' (read d')"
  shows "steps_from d (read_while n stop read d)"
  using assms
proof (induction n arbitrary: d)
  case 0
  then show ?case by simp
next
  case (Suc n)
  have "steps_from d' (ldo (read_while n stop read d') (\<lambda>xs d. Some (Ok (a # xs), d)))"
    if "read d = Some (Ok a, d')" "dec_data d' = dec_data d" for a d'
  proof (rule steps_from_ldo [OF Suc.IH])
    have "dec_offset d < dec_offset d'"
      using Suc.prems(2) [of d] that by (simp add: moves_from_def)
    then show "Remaining d' \<le> int n"
      using Suc.prems(1) that(2) by (simp add: Remaining_def)
  qed (use Suc.prems(2) that in auto)
  then have "steps_from d (ldo (read d) (\<lambda>x d. ldo (read_while n stop read d) (\<lambda>xs d. Some (Ok (x # xs), d))))"
    using Suc.prems(2) [of d] by - (rule steps_from_ldo [OF moves_steps], simp_all)
  then show ?case by simp
qed

lemma steps_from_read_until:
  assumes "\<And>d'. dec_data d' = dec_data d \<Longrightarrow> moves_from d' (read d')"
  shows "steps_from d (read_until stop read d)"
  unfolding read_until_def using assms by (intro steps_from_read_while) (auto simp: Remaining_def)

lemma advancing_progress: "ber_progress read \<Longrightarrow> advancing d (read d)"
  using ber_progress.progress [of read d] ber_progress.axioms(1) [of read]
    ber_reader.safe [of read d] by (fastforce simp: advancing_def prod_eq_iff)

lemmas reads_advance =
  advancing_progress [OF boolean.ber_progress_axioms] advancing_progress [OF integer.ber_progress_axioms]
  advancing_progress [OF octets.ber_progress_axioms] advancing_progress [OF enumerated.ber_progress_axioms]
  advancing_progress [OF tagged.ber_progress_axioms] advancing_progress [OF sequence_contents.ber_progress_axioms]
  advancing_progress [OF expect_sequence.ber_progress_axioms] advancing_progress [OF expect_set.ber_progress_axioms]
  advancing_progress [OF expect_context.ber_progress_axioms] advancing_ReadTag

lemmas read_moves = advancing_ber [OF reads_advance(1)] advancing_ber [OF reads_advance(2)]
  advancing_ber [OF reads_advance(3)] advancing_ber [OF reads_advance(4)] advancing_ber [OF reads_advance(5)]
  advancing_ber [OF reads_advance(6)] advancing_ber [OF reads_advance(7)] advancing_ber [OF reads_advance(8)]
  advancing_ber [OF reads_advance(9)] advancing_ber [OF reads_advance(10)]

lemmas read_steps = read_moves [THEN moves_steps] steps_from_ber [OF peek.safe] steps_from_ber [OF len.safe]

lemmas parse_steps = read_steps steps_from_ldo steps_from_inside steps_from_read_until

section \<open>The parsers\<close>

lemma moves_parseControl: "moves_from d (parseControl d)"
  unfolding parseControl_def
  by (intro moves_from_ldo read_moves steps_from_inside steps_settles [OF steps_from_ldo])
     (auto intro!: parse_steps)

lemma steps_more_controls: "Remaining d \<le> int n \<Longrightarrow> steps_from d (more_controls n d)"
proof (induction n arbitrary: d)
  case 0
  then show ?case by simp
next
  case (Suc n)
  have m: "moves_from d (parseControl d)"
    by (rule moves_parseControl)
  show ?case
  proof (cases rule: settlesE [OF steps_settles [OF moves_steps [OF m]]])
    case (1 a d')
    then have d': "dec_data d' = dec_data d" "dec_offset d < dec_offset d'"
      using m by (simp_all add: moves_from_def steps_from_def)
    then have "Remaining d' \<le> int n"
      using Suc.prems by (simp add: Remaining_def)
    then have "steps_from d' (ldo (more_controls n d') (\<lambda>cs d. Some (Ok (a # cs), d)))"
      by (intro steps_from_ldo Suc.IH) simp_all
    then have "steps_from d (ldo (more_controls n d') (\<lambda>cs d. Some (Ok (a # cs), d)))"
      by (rule steps_from_trans) (use d' in simp_all)
    with 1 show ?thesis by simp
  next
    case (2 e d')
    then show ?thesis using m by (auto simp: moves_from_def steps_from_def)
  qed
qed

lemma settles_parseControls: "settles (parseControls d)"
proof -
  have more: "settles (ldo (parseControl (SetOffset d' off)) (\<lambda>c d.
      ldo (more_controls (length (dec_data d)) d) (\<lambda>cs d. Some (Ok (c # cs), d))))" for d' off
    by (intro settles_ldo steps_settles [OF moves_steps [OF moves_parseControl]]
        steps_settles [OF steps_more_controls])
       (auto simp: Remaining_def)
  show ?thesis
    unfolding parseControls_def Let_def
    by (intro settles_ldo steps_settles [OF read_steps(25)] steps_settles [OF read_steps(31)])
       (auto intro!: settles_ldo more steps_settles [OF steps_from_read_until] moves_parseControl
         read_steps [THEN steps_settles])
qed

lemma moves_read_attribute_as: "moves_from d (read_attribute_as what d)"
  unfolding read_attribute_as_def
  by (intro moves_from_ldo read_moves) (auto intro!: steps_settles parse_steps read_moves)

lemma moves_parseAttribute: "moves_from d (parseAttribute d)" "moves_from d (parsePartialAttribute d)"
  by (simp_all add: parseAttribute_def parsePartialAttribute_def moves_read_attribute_as)

lemma moves_parseModification: "moves_from d (parseModification d)"
  unfolding parseModification_def
  by (intro moves_from_ldo read_moves)
     (auto intro!: steps_settles parse_steps moves_steps [OF moves_parseAttribute(2)])

lemma settles_ParseAddRequest: "settles (ParseAddRequest data)"
  unfolding ParseAddRequest_def empty_request_def
  by (auto intro!: steps_settles parse_steps moves_parseAttribute)

lemma settles_parse_sasl: "settles (parse_sasl off data)"
  unfolding parse_sasl_def by (auto intro!: steps_settles parse_steps)

lemma settles_ParseBindRequest: "settles (ParseBindRequest data)"
  unfolding ParseBindRequest_def empty_request_def
  by (auto simp: Let_def intro!: steps_settles parse_steps settles_parse_sasl)

lemma settles_ParseCompareRequest: "settles (ParseCompareRequest data)"
  unfolding ParseCompareRequest_def empty_request_def
  by (auto intro!: steps_settles parse_steps)

lemma settles_ParseModifyRequest: "settles (ParseModifyRequest data)"
  unfolding ParseModifyRequest_def empty_request_def
  by (auto intro!: steps_settles parse_steps moves_parseModification)

lemma settles_ParseModifyDNRequest: "settles (ParseModifyDNRequest data)"
  unfolding ParseModifyDNRequest_def empty_request_def
  by (auto intro!: steps_settles parse_steps)

section \<open>Nested filters\<close>

lemma take_value_Ok:
  "take_value d len = (Ok v, d') \<Longrightarrow>
     length v = nat len \<and> dec_offset d' = dec_offset d + length v \<and> dec_offset d' \<le> length (dec_data d)"
  by (auto simp: take_value_def go_slice_def split: if_splits)

lemma tagged_value_shorter:
  assumes "ReadTaggedValue d = (Ok (t, c, v), d')"
  shows "length v < length (dec_data d)"
proof -
  obtain x d1 len d2 where t: "ReadTag d = (Ok x, d1)" and l: "ReadLength d1 = (Ok len, d2)"
    and v: "take_value d2 len = (Ok v, d')"
    using assms by (auto simp: ReadTaggedValue_def Let_def and_then_Ok_iff split: if_splits)
  have "dec_offset d < dec_offset d1" "dec_data d1 = dec_data d"
    using advancing_ReadTag [of d] t by (cases x, auto simp: advancing_def safe_from_def)+
  moreover have "dec_offset d1 \<le> dec_offset d2" "dec_data d2 = dec_data d1"
    using safe_ReadLength [of d1] l by (auto simp: safe_from_def)
  ultimately show ?thesis
    using take_value_Ok [OF v] by simp
qed

lemma steps_substring_loop:
  "Remaining d \<le> int n \<Longrightarrow> subEnd \<le> int (length (dec_data d)) \<Longrightarrow> steps_from d (substring_loop n subEnd cs d)"
proof (induction n arbitrary: d cs)
  case 0
  then show ?case by (auto simp: Remaining_def)
next
  case (Suc n)
  have next_: "steps_from d' (substring_loop n subEnd cs' d')"
    if "ber_here msg (ReadTaggedValue d) = Some (Ok a, d')" "dec_data d' = dec_data d" for msg a d' cs'
  proof (rule Suc.IH)
    have "dec_offset d < dec_offset d'"
      using tagged.progress that(1) by (simp add: ber_Ok)
    then show "Remaining d' \<le> int n"
      using Suc.prems(1) that(2) by (simp add: Remaining_def)
  qed (use Suc.prems(2) that(2) in simp)
  have "steps_from d (ldo (ber_here ''failed to read substring component'' (ReadTaggedValue d)) (\<lambda>(tagNum, constructed, val) d.
        if tagNum = 0 then substring_loop n subEnd (cs \<lparr>sub_initial := val\<rparr>) d
        else if tagNum = 1 then substring_loop n subEnd (cs \<lparr>sub_any := sub_any cs @ [val]\<rparr>) d
        else if tagNum = 2 then substring_loop n subEnd (cs \<lparr>sub_final := val\<rparr>) d
        else Some (Fail (ParseError (dec_offset d) ''unknown substring component tag'' (Some ErrInvalidSubstringFilter)), d)))"
    by (rule steps_from_ldo [OF steps_from_ber(2) [OF tagged.safe]]) (auto intro: next_)
  then show ?case by simp
qed

lemma settles_parse_substrings: "settles (parse_substrings d)"
proof -
  have loop: "steps_from d2 (substring_loop n (int (dec_offset d2) + len) cs d2)"
    if "ber_here msg (ExpectSequence d1) = Some (Ok len, d2)" "n = length (dec_data d2)" for msg d1 d2 len cs n
    using content_checked_ExpectSequence [of d1] that
    by (intro steps_substring_loop) (auto simp: Remaining_def ber_Ok content_checked_def beyond_end_def)
  show ?thesis
    unfolding parse_substrings_def
    by (rule steps_settles) (auto intro!: steps_from_ldo read_steps intro: loop)
qed

lemma steps_extensible_loop: "Remaining d \<le> int n \<Longrightarrow> steps_from d (extensible_loop n cs d)"
proof (induction n arbitrary: d cs)
  case 0
  then show ?case by simp
next
  case (Suc n)
  have next_: "steps_from d' (extensible_loop n cs' d')"
    if "ber_here msg (ReadTaggedValue d) = Some (Ok a, d')" "dec_data d' = dec_data d" for msg a d' cs'
  proof (rule Suc.IH)
    have "dec_offset d < dec_offset d'"
      using tagged.progress that(1) by (simp add: ber_Ok)
    then show "Remaining d' \<le> int n"
      using Suc.prems(1) that(2) by (simp add: Remaining_def)
  qed
  have "steps_from d (ldo (ber_here ''failed to read extensible match component'' (ReadTaggedValue d))
      (\<lambda>(tagNum, constructed, val) d. extensible_loop n (f tagNum val) d))" for f
    by (rule steps_from_ldo [OF steps_from_ber(2) [OF tagged.safe]]) (auto intro: next_)
  then show ?case by simp
qed

lemma settles_parseExtensibleMatch: "settles (parseExtensibleMatch d)"
  unfolding parseExtensibleMatch_def
  by (rule steps_settles [OF steps_extensible_loop]) (simp add: Remaining_def)

lemma steps_refuse_filter [simp]: "steps_from d (refuse_filter msg d)"
  by (simp add: refuse_filter_def)

lemma dec_data_NewBERDecoder [simp]: "dec_data (NewBERDecoder bs) = bs"
  by (simp add: NewBERDecoder_def)

lemma moves_parseSearchFilter: "length (dec_data d) < n \<Longrightarrow> moves_from d (parseSearchFilter n d)"
proof (induction n arbitrary: d)
  case 0
  then show ?case by simp
next
  case (Suc n)
  have sub: "moves_from s (parseSearchFilter n s)"
    if "ber_raw (ReadTaggedValue d) = Some (Ok (t, c, v), d')" "dec_data s = v" for t c v d' s
    using Suc.prems tagged_value_shorter that by (intro Suc.IH) (fastforce simp: ber_Ok)
  have children: "settles (read_until stop (parseSearchFilter n) (NewBERDecoder v))"
    if "ber_raw (ReadTaggedValue d) = Some (Ok (t, c, v), d')" for t c v d' stop
    by (rule steps_settles [OF steps_from_read_until]) (use sub [OF that] in simp)
  show ?case
    unfolding parseSearchFilter.simps(2) Let_def
    by (rule moves_from_ldo [OF read_moves(15)])
       (auto intro!: steps_from_ldo [OF steps_from_inside] steps_from_inside children
         steps_settles [OF moves_steps [OF sub]] settles_parse_substrings settles_parseExtensibleMatch
         settles_ldo read_steps [THEN steps_settles])
qed

lemma steps_wrap_here: "steps_from d r \<Longrightarrow> steps_from d (wrap_here msg r)"
  by (rule settlesE [OF steps_settles]) (auto simp: wrap_here_def steps_from_def)

lemma settles_ParseSearchRequest: "settles (ParseSearchRequest data)"
  unfolding ParseSearchRequest_def empty_request_def
  by (auto simp del: parseSearchFilter.simps
      intro!: steps_settles parse_steps steps_wrap_here moves_steps [OF moves_parseSearchFilter] read_moves)

section \<open>Whole messages\<close>

lemma settles_inside: "settles r \<Longrightarrow> settles (inside d r)"
  by (erule settlesE) (simp_all add: inside_def)

lemma settles_ParseLDAPMessage: "settles (ParseLDAPMessage data)"
proof -
  have content: "dec_offset d1 + nat len \<le> length data"
    if "ber_at 0 msg (ExpectSequence (NewBERDecoder data)) = Some (Ok len, d1)" for msg len d1
    using content_checked_ExpectSequence [of "NewBERDecoder data"] that
    by (auto simp: ber_Ok content_checked_def beyond_end_def advancing_def safe_from_def)
  have parts: "settles (case parseControls c of Some (Ok cs, c) \<Rightarrow> Some (Ok (m cs), c)
      | Some (Fail e, c) \<Rightarrow> Some (Fail (f e), c) | Some (Panic, c) \<Rightarrow> Some (Panic, c) | None \<Rightarrow> None)" for c m f
    using settles_parseControls [of c] by (rule settlesE) simp_all
  show ?thesis
    unfolding ParseLDAPMessage_def Let_def
    by (auto simp: go_slice_def dest!: content
        intro!: settles_ldo settles_inside parts read_steps [THEN steps_settles])
qed

end
