(* ===== verification/Ldap_Codec.thy ===== *)
theory Ldap_Codec
  imports Ldap_Safety
begin

text \<open>
  Encoding of LDAP messages and requests against a reference: the octets of every value are
  written down as nested tag-length-value triples, the encoders append exactly these octets, and
  the parsers read them back wherever they stand. The contract of a repeated element is the locale
  \<open>ldap_codec\<close>; it is interpreted on octet strings, attributes, modifications and controls.
\<close>

section \<open>Repeated elements\<close>

locale ldap_codec =
  fixes read :: "decoder \<Rightarrow> 'a ldap_result"
    and put :: "encoder \<Rightarrow> 'a \<Rightarrow> unit enc_result"
    and enc :: "'a \<Rightarrow> bytes"
    and valid :: "'a \<Rightarrow> bool"
  assumes write_enc: "valid v \<Longrightarrow> put e v = (Ok (), append_bytes e (enc v))"
    and read_enc: "valid v \<Longrightarrow> read (decoder_at pre (enc v @ rest)) = Some (Ok v, decoder_at (pre @ enc v) rest)"
    and enc_nonempty: "enc v \<noteq> []"
begin

lemma write_all_enc:
  "list_all valid vs \<Longrightarrow> write_all put e vs = (Ok (), append_bytes e (concat (map enc vs)))"
  by (induction vs arbitrary: e) (auto simp: write_enc append_bytes_def)

lemma read_while_enc:
  "list_all valid vs \<Longrightarrow> length vs \<le> n \<Longrightarrow>
     read_while n (int (length pre + length (concat (map enc vs)))) read (decoder_at pre (concat (map enc vs) @ rest)) =
       Some (Ok vs, decoder_at (pre @ concat (map enc vs)) rest)"
proof (induction vs arbitrary: n pre)
  case Nil
  then show ?case by (cases n) simp_all
next
  case (Cons v vs)
  then obtain m where n: "n = Suc m" and m: "length vs \<le> m" by (cases n) auto
  have pos: "0 < length (enc v)"
    using enc_nonempty [of v] by simp
  have "read_while m (int (length (pre @ enc v) + length (concat (map enc vs)))) read
      (decoder_at (pre @ enc v) (concat (map enc vs) @ rest)) = Some (Ok vs, decoder_at ((pre @ enc v) @ concat (map enc vs)) rest)"
    using Cons.prems m by (intro Cons.IH) simp_all
  then show ?case
    using Cons.prems pos read_enc [of v pre "concat (map enc vs) @ rest"]
    by (simp add: n Remaining_def add.assoc add_pos_nonneg)
qed

lemma length_le_enc: "length vs \<le> length (concat (map enc vs))"
proof (induction vs)
  case (Cons v vs)
  then show ?case using enc_nonempty [of v] by (cases "enc v") simp_all
qed simp

lemma read_until_enc:
  assumes "list_all valid vs" and "stop = int (length pre) + int (length (concat (map enc vs)))"
  shows "read_until stop read (decoder_at pre (concat (map enc vs) @ rest)) =
    Some (Ok vs, decoder_at (pre @ concat (map enc vs)) rest)"
  using read_while_enc [OF assms(1), of "length (pre @ concat (map enc vs) @ rest)" pre rest] length_le_enc [of vs]
  by (simp add: read_until_def assms(2))

lemma read_until_enc_end:
  assumes "list_all valid vs" and "stop = int (length pre) + int (length (concat (map enc vs)))"
  shows "read_until stop read (decoder_at pre (concat (map enc vs))) =
    Some (Ok vs, decoder_at (pre @ concat (map enc vs)) [])"
  using read_until_enc [OF assms, of "[]"] by simp

end

section \<open>Reference octets\<close>

abbreviation octets_of :: "bytes \<Rightarrow> bytes" where
  "octets_of v \<equiv> tlv ClassUniversal TypePrimitive TagOctetString v"

abbreviation sequence_of :: "bytes \<Rightarrow> bytes" where
  "sequence_of v \<equiv> tlv ClassUniversal TypeConstructed TagSequence v"

abbreviation set_of :: "bytes \<Rightarrow> bytes" where
  "set_of v \<equiv> tlv ClassUniversal TypeConstructed TagSet v"

lemma tag_octets_nonempty [simp]: "tag_octets c k n \<noteq> []"
  by (simp add: tag_octets_def)

lemma tlv_nonempty [simp]: "tlv c k n v \<noteq> []"
  by (simp add: tlv_def)

lemma length_tlv: "length v < length (tlv c k n v)"
  by (simp add: tlv_def)

text \<open>Values that the in-place length and the decoder both handle.\<close>

definition small :: "bytes \<Rightarrow> bool" where
  "small v \<longleftrightarrow> length v < 2 ^ 32"

lemma small_fits [simp]: "small v \<Longrightarrow> fits_length v"
  by (simp add: small_def readable_length_iff)

lemma small_tlv: "small (tlv c k n v) \<Longrightarrow> small v"
  using length_tlv [of v c k n] by (simp add: small_def)

lemma small_append: "small (v @ w) \<Longrightarrow> small v \<and> small w"
  by (simp add: small_def)

lemma small_concat: "small (concat (map f vs)) \<Longrightarrow> list_all (\<lambda>v. small (f v)) vs"
  by (induction vs) (auto dest: small_append)

lemma small_mono: "length v \<le> length w \<Longrightarrow> small w \<Longrightarrow> small v"
  by (simp add: small_def)

lemmas small_parts = small_tlv small_append

lemmas small_writes = constructed_writes [folded small_def]

lemma octets_write: "small v \<Longrightarrow> WriteOctetString e v = (Ok (), append_bytes e (octets_of v))"
  by (simp add: octets_codec.write_enc)

lemma octets_read:
  "small v \<Longrightarrow> ReadOctetString (decoder_at pre (octets_of v @ rest)) = (Ok v, decoder_at (pre @ octets_of v) rest)"
  by (simp add: octets_codec.read_enc)

lemma octets_read_end:
  "small v \<Longrightarrow> ReadOctetString (decoder_at pre (octets_of v)) = (Ok v, decoder_at (pre @ octets_of v) [])"
  using octets_read [of v pre "[]"] by simp

lemma ber_simps [simp]:
  "ber_at off msg (Ok a, d) = Some (Ok a, d)" "ber_here msg (Ok a, d) = Some (Ok a, d)" "ber_raw (Ok a, d) = Some (Ok a, d)"
  by (simp_all add: ber_at_def ber_here_def ber_raw_def)

lemma inside_simps [simp]: "inside d (Some (x, d')) = Some (x, d)"
  by (simp add: inside_def)

interpretation octets_list: ldap_codec "\<lambda>d. ber_at off msg (ReadOctetString d)" WriteOctetString
  octets_of "\<lambda>v. small (octets_of v)"
  by unfold_locales (auto simp: octets_write octets_read dest: small_tlv)

lemma expect_read:
  assumes "small content"
  shows "ExpectSequence (decoder_at pre (sequence_of content @ rest)) =
      (Ok (int (length content)),
       decoder_at (pre @ tag_octets ClassUniversal TypeConstructed TagSequence @ length_field (int (length content))) (content @ rest))"
    and "ExpectSet (decoder_at pre (set_of content @ rest)) =
      (Ok (int (length content)),
       decoder_at (pre @ tag_octets ClassUniversal TypeConstructed TagSet @ length_field (int (length content))) (content @ rest))"
    and "valid_form k \<Longrightarrow> readable_tag n \<Longrightarrow> ExpectContextTag (decoder_at pre (tlv ClassContextSpecific k n content @ rest)) n =
      (Ok (int (length content)),
       decoder_at (pre @ tag_octets ClassContextSpecific k n @ length_field (int (length content))) (content @ rest))"
  using small_fits [OF assms]
  by (simp_all add: ExpectSequence_def ExpectSet_def ExpectContextTag_def tlv_read)

lemmas expect_read_end = expect_read [where rest = "[]", unfolded append_Nil2]

lemmas sequence_read = contents_read(1) [OF small_fits]

section \<open>Attributes\<close>

definition attribute_octets :: "ldap_attribute \<Rightarrow> bytes" where
  "attribute_octets a = sequence_of (octets_of (at_type a) @ set_of (concat (map octets_of (at_values a))))"

lemma attribute_parts:
  assumes "small (attribute_octets a)"
  shows "small (octets_of (at_type a) @ set_of (concat (map octets_of (at_values a))))"
    and "small (at_type a)" and "small (concat (map octets_of (at_values a)))"
    and "list_all (\<lambda>v. small (octets_of v)) (at_values a)"
  using assms by (auto simp: attribute_octets_def dest!: small_parts intro: small_concat)

lemma encodeAttribute_octets:
  assumes "small (attribute_octets a)"
  shows "encodeAttribute e a = (Ok (), append_bytes e (attribute_octets a))"
proof -
  obtain pos e1 where b: "BeginSequence e = (pos, e1)" by (cases "BeginSequence e")
  obtain setPos e2 where s: "BeginSet (append_bytes e1 (octets_of (at_type a))) = (setPos, e2)"
    by (cases "BeginSet (append_bytes e1 (octets_of (at_type a)))")
  note parts = attribute_parts [OF assms]
  show ?thesis
    using octets_list.write_all_enc [OF parts(4)] small_writes(2) [OF parts(3) s] small_writes(1) [OF parts(1) b]
    by (simp add: encodeAttribute_def b s attribute_octets_def octets_write parts)
qed

lemma read_attribute_octets:
  assumes "small (attribute_octets a)"
  shows "read_attribute_as what (decoder_at pre (attribute_octets a @ rest)) =
    Some (Ok a, decoder_at (pre @ attribute_octets a) rest)"
  using attribute_parts [OF assms]
  by (simp add: read_attribute_as_def attribute_octets_def sequence_read NewBERDecoder_decoder_at octets_read
      expect_read_end octets_list.read_until_enc_end)

interpretation attribute_list: ldap_codec parseAttribute encodeAttribute attribute_octets "\<lambda>a. small (attribute_octets a)"
  by unfold_locales
     (simp_all add: encodeAttribute_octets read_attribute_octets parseAttribute_def, simp add: attribute_octets_def)

interpretation partial_attribute: ldap_codec parsePartialAttribute encodeAttribute attribute_octets "\<lambda>a. small (attribute_octets a)"
  by unfold_locales
     (simp_all add: encodeAttribute_octets read_attribute_octets parsePartialAttribute_def, simp add: attribute_octets_def)

section \<open>Modifications\<close>

abbreviation enumerated_of :: "int \<Rightarrow> bytes" where
  "enumerated_of n \<equiv> tlv ClassUniversal TypePrimitive TagEnumerated (encodeInteger (word_of_int n))"

abbreviation integer_of :: "int \<Rightarrow> bytes" where
  "integer_of n \<equiv> tlv ClassUniversal TypePrimitive TagInteger (encodeInteger (word_of_int n))"

abbreviation boolean_of :: "bool \<Rightarrow> bytes" where
  "boolean_of b \<equiv> tlv ClassUniversal TypePrimitive TagBoolean [if b then 0xFF else 0]"

lemma boolean_write: "WriteBoolean e b = (Ok (), append_bytes e (boolean_of b))"
  using boolean_codec.write_enc by simp

lemma boolean_read: "ReadBoolean (decoder_at pre (boolean_of b @ rest)) = (Ok b, decoder_at (pre @ boolean_of b) rest)"
  using boolean_codec.read_enc [where v = b and pre = pre and rest = rest] by (cases b) simp_all

definition modification_ok :: "modification \<Rightarrow> bool" where
  "modification_ok m \<longleftrightarrow> 0 \<le> md_operation m \<and> md_operation m \<le> 2"

definition modification_octets :: "modification \<Rightarrow> bytes" where
  "modification_octets m = sequence_of (enumerated_of (md_operation m) @ attribute_octets (md_attribute m))"

lemma sint_of_small: "- (2 ^ 63) \<le> n \<Longrightarrow> n < 2 ^ 63 \<Longrightarrow> sint (word_of_int n :: uint64) = n"
  by (simp add: sint_sbintrunc' signed_take_bit_int_eq_self)

lemma encodeModification_octets:
  assumes "small (modification_octets m)"
  shows "encodeModification e m = (Ok (), append_bytes e (modification_octets m))"
proof -
  have parts: "small (enumerated_of (md_operation m) @ attribute_octets (md_attribute m))"
    using assms unfolding modification_octets_def by (rule small_tlv)
  obtain pos e1 where b: "BeginSequence e = (pos, e1)" by (cases "BeginSequence e")
  show ?thesis
    using small_append [OF parts] small_writes(1) [OF parts b]
    by (simp add: encodeModification_def b modification_octets_def enumerated_codec.write_enc encodeAttribute_octets)
qed

lemma parseModification_octets:
  assumes "small (modification_octets m)" and "modification_ok m"
  shows "parseModification (decoder_at pre (modification_octets m @ rest)) =
    Some (Ok m, decoder_at (pre @ modification_octets m) rest)"
proof -
  have parts: "small (enumerated_of (md_operation m) @ attribute_octets (md_attribute m))"
    using assms(1) unfolding modification_octets_def by (rule small_tlv)
  have op: "sint (word_of_int (md_operation m) :: uint64) = md_operation m"
    using assms(2) by (intro sint_of_small) (auto simp: modification_ok_def)
  show ?thesis
    using small_append [OF parts] assms(2)
      read_attribute_octets [of "md_attribute m" _ "enumerated_of (md_operation m)" "[]"]
    by (simp add: parseModification_def modification_octets_def sequence_read [OF parts] NewBERDecoder_decoder_at
        enumerated_codec.read_enc op modification_ok_def parsePartialAttribute_def)
qed

interpretation modification_list: ldap_codec parseModification encodeModification modification_octets
  "\<lambda>m. small (modification_octets m) \<and> modification_ok m"
  by unfold_locales
     (simp_all add: encodeModification_octets parseModification_octets, simp add: modification_octets_def)

section \<open>Requests\<close>

lemma Bytes_appended [simp]: "Bytes (Ok (), append_bytes NewBEREncoder bs) = Ok bs"
  by (simp add: Bytes_def NewBEREncoder_def)

lemma wrapped_write:
  assumes "small content" and "\<And>e. write e = (Ok (), append_bytes e content)"
  shows "(let (pos, e) = BeginSequence e in and_then (write e) (\<lambda>_ e. EndSequence e pos)) =
    (Ok (), append_bytes e (sequence_of content))"
  using small_writes(1) [OF assms(1)] by (cases "BeginSequence e") (simp add: assms(2))

definition add_octets :: "add_request \<Rightarrow> bytes" where
  "add_octets r = octets_of (ar_entry r) @ sequence_of (concat (map attribute_octets (ar_attributes r)))"

lemma Add_Encode_octets:
  assumes "small (add_octets r)"
  shows "Add_Encode r = Ok (add_octets r)"
proof -
  have parts: "small (ar_entry r)" "small (concat (map attribute_octets (ar_attributes r)))"
    using assms by (auto simp: add_octets_def dest!: small_parts)
  show ?thesis
    using wrapped_write [OF parts(2) attribute_list.write_all_enc [OF small_concat [OF parts(2)]]]
    by (simp add: Add_Encode_def add_octets_def octets_write parts)
qed

lemma ParseAddRequest_octets:
  assumes "small (add_octets r)"
  shows "ParseAddRequest (add_octets r) = Some (Ok r, decoder_at (add_octets r) [])"
proof -
  have parts: "small (ar_entry r)" "small (concat (map attribute_octets (ar_attributes r)))"
    using assms by (auto simp: add_octets_def dest!: small_parts)
  show ?thesis
    by (simp add: ParseAddRequest_def add_octets_def NewBERDecoder_decoder_at octets_read parts
        expect_read_end attribute_list.read_until_enc_end small_concat) (simp add: tlv_def)
qed

definition modify_octets :: "modify_request \<Rightarrow> bytes" where
  "modify_octets r = octets_of (mr_object r) @ sequence_of (concat (map modification_octets (mr_changes r)))"

lemma modify_parts:
  assumes "small (modify_octets r)" and "list_all modification_ok (mr_changes r)"
  shows "small (mr_object r)" "small (concat (map modification_octets (mr_changes r)))"
    "list_all (\<lambda>m. small (modification_octets m) \<and> modification_ok m) (mr_changes r)"
proof -
  show *: "small (mr_object r)" "small (concat (map modification_octets (mr_changes r)))"
    using assms(1) by (auto simp: modify_octets_def dest!: small_parts)
  show "list_all (\<lambda>m. small (modification_octets m) \<and> modification_ok m) (mr_changes r)"
    using small_concat [OF *(2)] assms(2) by (simp add: list_all_iff)
qed

lemma Modify_Encode_octets:
  assumes "small (modify_octets r)" and "list_all modification_ok (mr_changes r)"
  shows "Modify_Encode r = Ok (modify_octets r)"
  using wrapped_write [OF modify_parts(2) [OF assms] modification_list.write_all_enc [OF modify_parts(3) [OF assms]]]
  by (simp add: Modify_Encode_def modify_octets_def octets_write modify_parts(1) [OF assms])

lemma ParseModifyRequest_octets:
  assumes "small (modify_octets r)" and "list_all modification_ok (mr_changes r)"
  shows "ParseModifyRequest (modify_octets r) = Some (Ok r, decoder_at (modify_octets r) [])"
  by (simp add: ParseModifyRequest_def modify_octets_def NewBERDecoder_decoder_at octets_read
      modify_parts [OF assms] expect_read_end modification_list.read_until_enc_end) (simp add: tlv_def)

definition compare_octets :: "compare_request \<Rightarrow> bytes" where
  "compare_octets r = octets_of (cr_dn r) @ sequence_of (octets_of (cr_attribute r) @ octets_of (cr_value r))"

lemma compare_parts:
  assumes "small (compare_octets r)"
  shows "small (cr_dn r)" "small (cr_attribute r)" "small (cr_value r)"
    "small (octets_of (cr_attribute r) @ octets_of (cr_value r))"
  using assms by (auto simp: compare_octets_def dest!: small_parts)

lemma Compare_Encode_octets:
  assumes "small (compare_octets r)"
  shows "Compare_Encode r = Ok (compare_octets r)"
proof -
  have "\<And>e. and_then (WriteOctetString e (cr_attribute r)) (\<lambda>_ e. WriteOctetString e (cr_value r)) =
      (Ok (), append_bytes e (octets_of (cr_attribute r) @ octets_of (cr_value r)))"
    by (simp add: octets_write compare_parts [OF assms])
  from wrapped_write [OF compare_parts(4) [OF assms] this] show ?thesis
    by (simp add: Compare_Encode_def compare_octets_def octets_write compare_parts [OF assms] and_then_assoc)
qed

lemma ParseCompareRequest_octets:
  assumes "small (compare_octets r)"
  shows "ParseCompareRequest (compare_octets r) = Some (Ok r, decoder_at (compare_octets r) [])"
  using contents_read(1) [OF small_fits [OF compare_parts(4) [OF assms]], of "octets_of (cr_dn r)" "[]"]
  by (simp add: ParseCompareRequest_def compare_octets_def NewBERDecoder_decoder_at octets_read octets_read_end
      compare_parts [OF assms])

definition modifydn_octets :: "modifydn_request \<Rightarrow> bytes" where
  "modifydn_octets r = octets_of (dr_entry r) @ octets_of (dr_rdn r) @ boolean_of (dr_delete_old r) @
     (if dr_superior r = [] then [] else tlv ClassContextSpecific TypePrimitive 0 (dr_superior r))"

lemma modifydn_parts:
  assumes "small (modifydn_octets r)"
  shows "small (dr_entry r)" "small (dr_rdn r)" "dr_superior r = [] \<or> small (dr_superior r)"
  using assms by (auto simp: modifydn_octets_def dest!: small_parts split: if_splits)

lemma ModifyDN_Encode_octets:
  assumes "small (modifydn_octets r)"
  shows "ModifyDN_Encode r = Ok (modifydn_octets r)"
proof -
  have "(let (pos, e) = WriteContextTag e 0 False in EndContextTag (WriteRaw e (dr_superior r)) pos) =
      (Ok (), append_bytes e (tlv ClassContextSpecific TypePrimitive 0 (dr_superior r)))" if "dr_superior r \<noteq> []" for e
    using small_writes(3) [of "dr_superior r" e 0 False] modifydn_parts(3) [OF assms] that
    by (cases "WriteContextTag e 0 False") (simp add: WriteRaw_def constructed_flag_def)
  then show ?thesis
    by (simp add: ModifyDN_Encode_def modifydn_octets_def octets_write modifydn_parts [OF assms] boolean_write)
qed

lemma Remaining_decoder_at [simp]: "Remaining (decoder_at pre rest) = int (length rest)"
  by (simp add: Remaining_def)

lemma peek_tlv:
  assumes "valid_class c" "valid_form k" "readable_tag n"
  shows "PeekTag (decoder_at pre (tlv c k n v @ rest)) = (Ok (c, k, n), decoder_at pre (tlv c k n v @ rest))"
proof -
  have "ReadTag (decoder_at pre (tlv c k n v @ rest)) =
      (Ok (c, k, n), decoder_at (pre @ tag_octets c k n) (length_field (int (length v)) @ v @ rest))"
    using assms by (simp add: tlv_def ReadTag_tag_octets)
  then show ?thesis
    by (simp add: PeekTag_def decoder_at_def tlv_def)
qed

lemmas peek_tlv_end = peek_tlv [where rest = "[]", unfolded append_Nil2]

lemma tagged_read:
  assumes "small v" "readable_tag n"
  shows "ReadTaggedValue (decoder_at pre (tlv ClassContextSpecific (constructed_flag k) n v @ rest)) =
    (Ok (n, k, v), decoder_at (pre @ tlv ClassContextSpecific (constructed_flag k) n v) rest)"
  using tagged_codec.read_enc [of "(n, k, v)" pre rest] assms by simp

lemmas primitive_read = tagged_read [where k = False, simplified constructed_flag_def if_False]
lemmas constructed_read = tagged_read [where k = True, simplified constructed_flag_def if_True]

lemma readable_tag_small [simp]: "0 \<le> n \<Longrightarrow> n \<le> 30 \<Longrightarrow> readable_tag n"
  by (simp add: readable_tag_iff)

lemma ParseModifyDNRequest_octets:
  assumes "small (modifydn_octets r)"
  shows "ParseModifyDNRequest (modifydn_octets r) = Some (Ok r, decoder_at (modifydn_octets r) [])"
proof (cases "dr_superior r = []")
  case True
  then show ?thesis
    using boolean_read [of _ "dr_delete_old r" "[]"]
    by (simp add: ParseModifyDNRequest_def modifydn_octets_def NewBERDecoder_decoder_at octets_read modifydn_parts [OF assms])
next
  case False
  let ?sup = "tlv ClassContextSpecific TypePrimitive 0 (dr_superior r)"
  have "IsContextTag (decoder_at pre ?sup) 0" for pre
    by (simp add: IsContextTag_def peek_tlv_end)
  moreover have "ReadTaggedValue (decoder_at pre ?sup) = (Ok (0, False, dr_superior r), decoder_at (pre @ ?sup) [])" for pre
    using primitive_read [of "dr_superior r" 0 pre "[]"] modifydn_parts(3) [OF assms] False by simp
  ultimately show ?thesis
    using False
    by (simp add: ParseModifyDNRequest_def modifydn_octets_def NewBERDecoder_decoder_at octets_read boolean_read
        modifydn_parts [OF assms])
qed

definition bind_ok :: "bind_request \<Rightarrow> bool" where
  "bind_ok r \<longleftrightarrow> 1 \<le> br_version r \<and> br_version r \<le> 127 \<and>
     (br_method r = AuthMethodSimple \<and> br_sasl r = None \<or>
      br_method r = AuthMethodSASL \<and> br_password r = [] \<and> br_sasl r \<noteq> None)"

definition sasl_octets :: "sasl_credentials \<Rightarrow> bytes" where
  "sasl_octets s = octets_of (sc_mechanism s) @ (if sc_credentials s = [] then [] else octets_of (sc_credentials s))"

definition bind_octets :: "bind_request \<Rightarrow> bytes" where
  "bind_octets r = integer_of (br_version r) @ octets_of (br_name r) @
     (case br_sasl r of
        None \<Rightarrow> tlv ClassContextSpecific TypePrimitive 0 (br_password r)
      | Some s \<Rightarrow> tlv ClassContextSpecific TypeConstructed 3 (sasl_octets s))"

lemma sasl_parts:
  "small (sasl_octets s) \<Longrightarrow> small (sc_mechanism s) \<and> (sc_credentials s = [] \<or> small (sc_credentials s))"
  by (auto simp: sasl_octets_def dest!: small_parts split: if_splits)

lemma encode_sasl_octets: "small (sasl_octets s) \<Longrightarrow> encode_sasl s = Ok (sasl_octets s)"
  using sasl_parts [of s] by (auto simp: encode_sasl_def sasl_octets_def octets_write)

lemma parse_sasl_octets:
  assumes "small (sasl_octets s)"
  shows "parse_sasl off (sasl_octets s) = Some (Ok s, decoder_at (sasl_octets s) [])"
proof (cases "sc_credentials s = []")
  case True
  then show ?thesis
    using sasl_parts [OF assms] octets_read_end [of "sc_mechanism s" "[]"]
    by (simp add: parse_sasl_def sasl_octets_def NewBERDecoder_decoder_at)
next
  case False
  then show ?thesis
    using sasl_parts [OF assms]
    by (simp add: parse_sasl_def sasl_octets_def NewBERDecoder_decoder_at octets_read octets_read_end)
qed

lemma tagged_write:
  "small v \<Longrightarrow> readable_tag n \<Longrightarrow>
     WriteTaggedValue e n k v = (Ok (), append_bytes e (tlv ClassContextSpecific (constructed_flag k) n v))"
  using tagged_codec.write_enc [of "(n, k, v)" e] by simp

lemmas auth_defs = AuthSimple_def AuthSASL_def AuthMethodSimple_def AuthMethodSASL_def

lemma Bind_Encode_octets:
  assumes "small (bind_octets r)" and "bind_ok r"
  shows "Bind_Encode r = Ok (bind_octets r)"
proof (cases "br_sasl r")
  case None
  have "small (br_name r)" "small (br_password r)"
    using assms(1) None by (auto simp: bind_octets_def dest!: small_parts)
  then show ?thesis
    using None assms(2)
    by (simp add: Bind_Encode_def bind_octets_def bind_ok_def auth_defs integer_codec.write_enc octets_write
        tagged_write constructed_flag_def Let_def)
next
  case (Some s)
  have "small (br_name r)" "small (sasl_octets s)"
    using assms(1) Some by (auto simp: bind_octets_def dest!: small_parts)
  then show ?thesis
    using Some assms(2)
    by (simp add: Bind_Encode_def bind_octets_def bind_ok_def auth_defs integer_codec.write_enc octets_write
        tagged_write constructed_flag_def Let_def encode_sasl_octets)
qed

lemma ParseBindRequest_octets:
  assumes "small (bind_octets r)" and "bind_ok r"
  shows "ParseBindRequest (bind_octets r) = Some (Ok r, decoder_at (bind_octets r) [])"
proof (cases "br_sasl r")
  case None
  have small: "small (br_name r)" "small (br_password r)"
    using assms(1) None by (auto simp: bind_octets_def dest!: small_parts)
  have "sint (word_of_int (br_version r) :: uint64) = br_version r"
    using assms(2) by (intro sint_of_small) (auto simp: bind_ok_def)
  then show ?thesis
    using None assms(2) small primitive_read [of "br_password r" 0 _ "[]"]
    by (simp add: ParseBindRequest_def bind_octets_def bind_ok_def auth_defs NewBERDecoder_decoder_at
        integer_codec.read_enc octets_read)
next
  case (Some s)
  have small: "small (br_name r)" "small (sasl_octets s)"
    using assms(1) Some by (auto simp: bind_octets_def dest!: small_parts)
  have "sint (word_of_int (br_version r) :: uint64) = br_version r"
    using assms(2) by (intro sint_of_small) (auto simp: bind_ok_def)
  then show ?thesis
    using Some assms(2) small constructed_read [of "sasl_octets s" 3 _ "[]"]
    by (simp add: ParseBindRequest_def bind_octets_def bind_ok_def auth_defs NewBERDecoder_decoder_at [of "integer_of _ @ _"]
        integer_codec.read_enc octets_read parse_sasl_octets)
qed

end
