(* ===== verification/Ldap_Roundtrip.thy ===== *)
theory Ldap_Roundtrip
  imports Ldap_Codec
begin

text \<open>
  Whole messages: controls, the envelope and the frame that the connection reads. What
  \<^const>\<open>Message_Encode\<close> writes is the reference encoding, \<^const>\<open>ReadMessage\<close> cuts exactly these
  octets off the front of its input, and the parser gives back the message.
\<close>

section \<open>Controls\<close>

definition control_octets :: "control \<Rightarrow> bytes" where
  "control_octets c = sequence_of (octets_of (ctl_oid c) @ (if ctl_critical c then boolean_of True else []) @
     (if ctl_value c = [] then [] else octets_of (ctl_value c)))"

lemma control_parts:
  assumes "small (control_octets c)"
  shows "small (octets_of (ctl_oid c) @ (if ctl_critical c then boolean_of True else []) @
      (if ctl_value c = [] then [] else octets_of (ctl_value c)))"
    and "small (ctl_oid c)" and "ctl_value c \<noteq> [] \<Longrightarrow> small (ctl_value c)"
  using assms by (auto simp: control_octets_def dest!: small_parts split: if_splits)

lemma encodeControl_octets:
  assumes "small (control_octets c)"
  shows "encodeControl e c = (Ok (), append_bytes e (control_octets c))"
proof -
  obtain pos e1 where b: "BeginSequence e = (pos, e1)" by (cases "BeginSequence e")
  show ?thesis
    using control_parts [OF assms] small_writes(1) [OF control_parts(1) [OF assms] b]
    by (auto simp: encodeControl_def b control_octets_def octets_write boolean_write)
qed

lemma next_is_tlv:
  assumes "valid_class c" "valid_form k" "readable_tag n"
  shows "next_is t (decoder_at pre (tlv c k n v @ rest)) \<longleftrightarrow> c = ClassUniversal \<and> n = t"
  using assms by (simp add: next_is_def peek_tlv)

lemmas next_is_tlv_end = next_is_tlv [where rest = "[]", unfolded append_Nil2]

lemma other_tags [simp]: "TagOctetString \<noteq> TagBoolean" "TagSequence \<noteq> TagOctetString"
  by (simp_all add: ber_tag_defs)

lemma parseControl_octets:
  assumes "small (control_octets c)"
  shows "parseControl (decoder_at pre (control_octets c @ rest)) = Some (Ok c, decoder_at (pre @ control_octets c) rest)"
proof -
  let ?true = "tlv ClassUniversal TypePrimitive TagBoolean [0xFF]"
  have "ReadBoolean (decoder_at p (?true @ r)) = (Ok True, decoder_at (p @ ?true) r)" for p r
    using boolean_read [of p True r] by simp
  moreover from this [where r = "[]"]
  have "ReadBoolean (decoder_at p ?true) = (Ok True, decoder_at (p @ ?true) [])" for p
    by simp
  ultimately show ?thesis
    using control_parts [OF assms] sequence_read [OF control_parts(1) [OF assms], of pre rest]
    by (cases "ctl_critical c"; cases "ctl_value c = []")
       (simp_all add: parseControl_def control_octets_def NewBERDecoder_decoder_at octets_read octets_read_end
         next_is_tlv next_is_tlv_end add_pos_nonneg)
qed

interpretation control_list: ldap_codec parseControl encodeControl control_octets "\<lambda>c. small (control_octets c)"
  by unfold_locales (simp_all add: encodeControl_octets parseControl_octets, simp add: control_octets_def)

definition controls_octets :: "control list \<Rightarrow> bytes" where
  "controls_octets cs =
     (if cs = [] then []
      else tlv ClassContextSpecific TypeConstructed 0 (sequence_of (concat (map control_octets cs))))"

lemma encodeControls_octets:
  assumes "small (controls_octets cs)" and "cs \<noteq> []"
  shows "encodeControls e cs = (Ok (), append_bytes e (controls_octets cs))"
proof -
  let ?cs = "concat (map control_octets cs)"
  have seq: "small (sequence_of ?cs)"
    using assms by (auto simp: controls_octets_def dest: small_tlv)
  then have cs: "small ?cs" by (rule small_tlv)
  obtain pos e1 where b: "WriteContextTag e 0 True = (pos, e1)" by (cases "WriteContextTag e 0 True")
  obtain pos' e2 where b': "BeginSequence e1 = (pos', e2)" by (cases "BeginSequence e1")
  show ?thesis
    using small_writes(3) [OF seq b] small_writes(1) [OF cs b'] control_list.write_all_enc [OF small_concat [OF cs]] assms(2)
    by (simp add: encodeControls_def b b' controls_octets_def constructed_flag_def)
qed

lemma parseControls_octets:
  assumes "small (controls_octets cs)" and "cs \<noteq> []"
  shows "\<exists>d. parseControls (NewBERDecoder (controls_octets cs)) = Some (Ok cs, d)"
proof -
  let ?cs = "concat (map control_octets cs)"
  have seq: "small (sequence_of ?cs)"
    using assms by (auto simp: controls_octets_def dest: small_tlv)
  then have cs: "small ?cs" by (rule small_tlv)
  obtain c cs' where cons: "cs = c # cs'" using assms(2) by (cases cs) auto
  have "\<not> next_is TagOctetString (decoder_at pre ?cs)" for pre
    by (simp add: cons control_octets_def next_is_tlv)
  then show ?thesis
    using assms(2) expect_read_end(3) [OF seq, of TypeConstructed 0 "[]"] expect_read_end(1) [OF cs]
    by (simp add: control_list.read_until_enc_end [OF small_concat [OF cs]] parseControls_def controls_octets_def peek_tlv_end Let_def NewBERDecoder_decoder_at)
qed

section \<open>The envelope\<close>

definition message_ok :: "ldap_message \<Rightarrow> bool" where
  "message_ok m \<longleftrightarrow> 0 \<le> m_id m \<and> m_id m \<le> MaxMessageID \<and>
     (case m_operation m of None \<Rightarrow> False | Some op \<Rightarrow> readable_tag (op_tag op))"

definition message_content :: "ldap_message \<Rightarrow> bytes" where
  "message_content m =
     (case m_operation m of
        None \<Rightarrow> []
      | Some op \<Rightarrow> integer_of (m_id m) @
          tlv ClassApplication (constructed_flag (isConstructedOperation (op_tag op))) (op_tag op) (op_data op) @
          controls_octets (m_controls m))"

definition message_octets :: "ldap_message \<Rightarrow> bytes" where
  "message_octets m = sequence_of (message_content m)"

lemma message_parts:
  assumes "small (message_octets m)" and "m_operation m = Some op"
  shows "small (message_content m)" "small (op_data op)" "small (controls_octets (m_controls m))"
proof -
  show *: "small (message_content m)"
    using assms(1) unfolding message_octets_def by (rule small_tlv)
  show "small (op_data op)" "small (controls_octets (m_controls m))"
    using * assms(2) by (auto simp: message_content_def dest!: small_parts)
qed

lemma Message_Encode_octets:
  assumes "message_ok m" and "small (message_octets m)"
  shows "Message_Encode m = Ok (message_octets m)"
proof -
  obtain op where op: "m_operation m = Some op"
    using assms(1) by (auto simp: message_ok_def split: option.splits)
  note parts = message_parts [OF assms(2) op]
  let ?k = "isConstructedOperation (op_tag op)"
  obtain pos e1 where b: "BeginSequence NewBEREncoder = (pos, e1)" by (cases "BeginSequence NewBEREncoder")
  let ?e2 = "append_bytes e1 (integer_of (m_id m))"
  obtain pos' e3 where b': "WriteApplicationTag ?e2 (op_tag op) ?k = (pos', e3)"
    by (cases "WriteApplicationTag ?e2 (op_tag op) ?k")
  show ?thesis
    using assms(1) small_writes(1) [OF parts(1) b] small_writes(4) [OF parts(2) b'] encodeControls_octets [OF parts(3)]
    by (auto simp: Message_Encode_def op b b' message_octets_def message_content_def message_ok_def WriteRaw_def
        integer_codec.write_enc controls_octets_def)
qed

lemma ParseLDAPMessage_octets:
  assumes "message_ok m" and "small (message_octets m)"
  shows "\<exists>d. ParseLDAPMessage (message_octets m) = Some (Ok m, d)"
proof -
  obtain op where op: "m_operation m = Some op" and tag: "readable_tag (op_tag op)"
    using assms(1) by (auto simp: message_ok_def split: option.splits)
  note parts = message_parts [OF assms(2) op]
  have id: "sint (word_of_int (m_id m) :: uint64) = m_id m"
    using assms(1) by (intro sint_of_small) (auto simp: message_ok_def MaxMessageID_def)
  define P where "P = tag_octets ClassUniversal TypeConstructed TagSequence @ length_field (int (length (message_content m)))"
  define T where "T = tag_octets ClassApplication (constructed_flag (isConstructedOperation (op_tag op))) (op_tag op)"
  define L where "L = length_field (int (length (op_data op)))"
  define C where "C = controls_octets (m_controls m)"
  let ?I = "integer_of (m_id m)"
  have content: "message_content m = ?I @ T @ L @ op_data op @ C"
    by (simp add: message_content_def op tlv_def T_def L_def C_def)
  then have octets: "message_octets m = P @ ?I @ T @ L @ op_data op @ C"
    by (simp add: message_octets_def tlv_def P_def)
  have "ExpectSequence (NewBERDecoder (message_octets m)) =
      (Ok (int (length (message_content m))), decoder_at P (?I @ T @ L @ op_data op @ C))"
    using expect_read_end(1) [OF parts(1), of "[]"] content
    by (simp add: NewBERDecoder_decoder_at message_octets_def P_def)
  moreover have "ReadTag (decoder_at p (T @ r)) = (Ok (ClassApplication, constructed_flag (isConstructedOperation (op_tag op)), op_tag op),
      decoder_at (p @ T) r)" for p r
    using tag by (simp add: T_def ReadTag_tag_octets)
  moreover have "ReadLength (decoder_at p (L @ r)) = (Ok (int (length (op_data op))), decoder_at (p @ L) r)" for p r
    using small_fits [OF parts(2)] by (simp add: L_def ReadLength_length_field)
  moreover have "P \<noteq> []" "0 \<le> m_id m" "m_id m \<le> MaxMessageID"
    using assms(1) by (simp_all add: P_def message_ok_def)
  moreover have "C \<noteq> [] \<Longrightarrow> IsContextTag (NewBERDecoder C) 0 \<and> (\<exists>d. parseControls (NewBERDecoder C) = Some (Ok (m_controls m), d))"
    using parseControls_octets [OF parts(3)]
    by (auto simp: C_def controls_octets_def IsContextTag_def NewBERDecoder_decoder_at peek_tlv_end split: if_splits)
  moreover have "C = [] \<longleftrightarrow> m_controls m = []"
    by (simp add: C_def controls_octets_def)
  moreover have "\<lparr>m_id = m_id m, m_operation = Some \<lparr>op_tag = op_tag op, op_data = op_data op\<rparr>, m_controls = m_controls m\<rparr> = m"
    using op by (cases m, cases op) simp
  ultimately show ?thesis
    by (auto simp: ParseLDAPMessage_def octets content id integer_codec.read_enc Let_def go_slice_def
        simp flip: of_nat_add)
qed

end
