(* ===== verification/Ldap_Frames.thy ===== *)
theory Ldap_Frames
  imports Ldap_Roundtrip
begin

text \<open>
  How a connection cuts the next message off its input: the length octets as a 64-bit integer, the
  frames of encoded messages, and the inputs on which reading a frame panics.
\<close>

section \<open>Lengths on the network\<close>

abbreviation shift_in :: "byte \<Rightarrow> uint64 \<Rightarrow> uint64" where
  "shift_in b len \<equiv> push_bit 8 len OR ucast b"

lemma bit_fold_shift_in:
  "n < 64 \<Longrightarrow> bit (fold shift_in bs w) n \<longleftrightarrow>
     (if n < 8 * length bs then bit (bs ! (length bs - Suc (n div 8))) (n mod 8) else bit w (n - 8 * length bs))"
proof (induction bs arbitrary: n rule: rev_induct)
  case Nil
  then show ?case by simp
next
  case (snoc b bs)
  let ?x = "fold shift_in bs w"
  have step: "bit (shift_in b ?x) n \<longleftrightarrow> (if n < 8 then bit b n else bit ?x (n - 8))"
    using snoc.prems bit_imp_le_length [of b n] by (auto simp: bit_or_iff bit_push_bit_iff bit_ucast_iff)
  show ?case
  proof (cases "n < 8")
    case True
    then show ?thesis
      using step by (simp add: nth_append)
  next
    case False
    then obtain k where n: "n = k + 8"
      by (metis add.commute le_iff_add not_less)
    have "(bs @ [b]) ! (length bs - Suc (k div 8)) = bs ! (length bs - Suc (k div 8))" if "k < 8 * length bs"
    proof (rule nth_append_left)
      have "bs \<noteq> []" using that by auto
      then show "length bs - Suc (k div 8) < length bs" by simp
    qed
    moreover have "(k + 8) div 8 = Suc (k div 8)"
      by simp
    ultimately show ?thesis
      using step snoc.IH [of k] snoc.prems by (simp add: n del: div_add_self2)
  qed
qed

lemma shift_in_drop_bit:
  "shift_in (word_of_int (drop_bit (8 * n) l)) (word_of_int (drop_bit (8 * Suc n) l)) = word_of_int (drop_bit (8 * n) l)"
proof -
  have "word_of_int (push_bit 8 a OR uint b) = shift_in b (word_of_int a)" for a :: int and b :: byte
    by (simp add: of_int_or_eq push_bit_of_int flip: word_of_int_uint)
  then show ?thesis
    using shift8_join [of n l] by metis
qed

lemma fold_length_octets: "fold shift_in (length_octets n l) (word_of_int (drop_bit (8 * n) l)) = word_of_int l"
proof (induction n)
  case (Suc n)
  then show ?case
    using shift_in_drop_bit [of n l] by (simp add: length_octets_Suc)
qed simp

lemma ReadFull_append [simp]: "length xs = n \<Longrightarrow> ReadFull n (xs @ inp) = (Ok xs, inp)"
  by (simp add: ReadFull_def)

lemma ReadFull_Cons [simp]: "ReadFull (Suc 0) (b # inp) = (Ok [b], inp)"
  by (simp add: ReadFull_def)

lemma readLength_field:
  assumes "0 \<le> l" and "readable_length l"
  shows "readLength (length_field l @ inp) = (Ok (word_of_int l, length_field l), inp)"
proof (cases "l \<le> MaxShortFormLength")
  case True
  have "word_of_int l AND 0x80 = (0 :: byte)" and "uint (word_of_int l :: byte) = l"
    using assms True
    by (auto intro!: low_bits_and_mask [where k = 7]
        simp: readable_length_def MaxShortFormLength_def uint_word_of_int)
  moreover from this(2) have "ucast (word_of_int l :: byte) = (word_of_int l :: uint64)"
    by (simp add: ucast_eq)
  ultimately show ?thesis
    using True by (simp add: readLength_def length_field_def)
next
  case False
  let ?n = "num_length_bytes l"
  have "0 < ?n"
    using False by (intro num_length_bytes_pos) (simp add: MaxShortFormLength_def)
  moreover have "fold shift_in (length_octets ?n l) 0 = word_of_int l"
    using fold_length_octets [of ?n l] drop_num_length_bytes [OF assms(1)] by simp
  ultimately show ?thesis
    using False long_form_octet [OF readable_length_octets [OF assms(2)]]
    by (simp add: readLength_def length_field_def Let_def)
qed

lemma read_frame_message:
  assumes "int (length (message_content m)) \<le> MaxMessageSize"
  shows "read_frame (message_octets m @ inp) = (Ok (message_octets m), inp)"
proof -
  let ?n = "length (message_content m)"
  have n: "int ?n \<le> 2 ^ 24"
    using assms by (simp add: MaxMessageSize_def)
  have s: "sint (word_of_int (int ?n) :: uint64) = int ?n"
    using n by (intro sint_of_small) simp_all
  have u: "unat (word_of_int (int ?n) :: uint64) = ?n"
    using n by (simp add: unat_of_nat)
  have r: "readable_length (int ?n)"
    using n by (simp add: readable_length_iff)
  have tag: "tag_octets ClassUniversal TypeConstructed TagSequence = [0x30]"
    by (simp add: tag_octets_def ber_const_defs)
  show ?thesis
    using assms s u readLength_field [OF _ r, of "message_content m @ inp"]
    by (simp add: read_frame_def message_octets_def tlv_def tag del: of_int_of_nat_eq)
qed

section \<open>Negative lengths\<close>

text \<open>
  A message whose length has eight octets or more, the eighth from the end with its top bit set.
\<close>

definition negative_length :: "bytes \<Rightarrow> bool" where
  "negative_length inp \<longleftrightarrow>
     (\<exists>k bs rest. inp = 0x30 # k # bs @ rest \<and> k AND 0x80 \<noteq> 0 \<and> length bs = unat (k AND 0x7F) \<and>
        8 \<le> length bs \<and> bs ! (length bs - 8) AND 0x80 \<noteq> 0)"

lemma top_bit: "b AND 0x80 \<noteq> 0 \<longleftrightarrow> bit b 7" for b :: byte
  using and_exp_eq_0_iff_not_bit [of b 7] by simp

lemma negative_fold:
  "sint (fold shift_in bs 0) < 0 \<longleftrightarrow> 8 \<le> length bs \<and> bs ! (length bs - 8) AND 0x80 \<noteq> 0"
  using bit_fold_shift_in [of 63 bs 0] bit_last_iff [of "fold shift_in bs 0"]
  by (auto simp: top_bit split: if_splits)

lemma ReadFull_Ok: "ReadFull n inp = (Ok xs, rest) \<longleftrightarrow> inp = xs @ rest \<and> length xs = n"
  by (auto simp: ReadFull_def)

lemma ReadFull_no_panic [simp]: "ReadFull n inp \<noteq> (Panic, t)"
  by (simp add: ReadFull_def)

lemma readLength_short: "b AND 0x80 = 0 \<Longrightarrow> readLength (b # inp) = (Ok (ucast b, [b]), inp)"
  by (simp add: readLength_def)

lemma readLength_long:
  assumes "b AND 0x80 \<noteq> 0" and "unat (b AND 0x7F) = n"
  shows "readLength (b # inp) = (Ok (len, lb), rest) \<longleftrightarrow>
    (\<exists>bs. inp = bs @ rest \<and> length bs = n \<and> n \<noteq> 0 \<and> len = fold shift_in bs 0 \<and> lb = b # bs)"
proof -
  have "readLength (b # inp) =
      (if n = 0 then (Fail ErrInvalidMessage, inp)
       else and_then (ReadFull n inp) (\<lambda>bs inp. (Ok (fold shift_in bs 0, b # bs), inp)))"
    using assms by (simp add: readLength_def Let_def)
  then show ?thesis
    by (cases "n = 0") (auto simp: and_then_Ok_iff ReadFull_Ok)
qed

lemma readLength_Ok:
  "readLength inp = (Ok (len, lb), rest) \<longleftrightarrow>
     (\<exists>b. b AND 0x80 = 0 \<and> inp = b # rest \<and> len = ucast b \<and> lb = [b]) \<or>
     (\<exists>b bs. b AND 0x80 \<noteq> 0 \<and> inp = b # bs @ rest \<and> length bs = unat (b AND 0x7F) \<and> bs \<noteq> [] \<and>
        len = fold shift_in bs 0 \<and> lb = b # bs)"
proof (cases inp)
  case Nil
  then show ?thesis by (simp add: readLength_def ReadFull_def)
next
  case (Cons b inp')
  show ?thesis
  proof (cases "b AND 0x80 = 0")
    case True
    then show ?thesis
      unfolding Cons readLength_short [OF True] by blast
  next
    case False
    obtain n where n: "unat (b AND 0x7F) = n" by blast
    have "readLength inp = (Ok (len, lb), rest) \<longleftrightarrow>
        (\<exists>bs. inp' = bs @ rest \<and> length bs = n \<and> bs \<noteq> [] \<and> len = fold shift_in bs 0 \<and> lb = b # bs)"
      unfolding Cons readLength_long [OF False n] by (intro iff_exI) force
    then show ?thesis
      using False Cons n by simp
  qed
qed

lemma readLength_no_panic [simp]: "readLength inp \<noteq> (Panic, t)"
  by (auto simp: readLength_def Let_def and_then_Panic_iff split: if_splits)

lemma read_frame_panics: "(\<exists>t. read_frame inp = (Panic, t)) \<longleftrightarrow> negative_length inp"
proof -
  have short: "\<not> sint (ucast b :: uint64) < 0" for b :: byte
    using bit_last_iff [of "ucast b :: uint64"] bit_imp_le_length [of b 63] by (auto simp: bit_ucast_iff)
  have "(\<exists>t. read_frame inp = (Panic, t)) \<longleftrightarrow>
      (\<exists>len lb rest inp'. inp = 0x30 # inp' \<and> readLength inp' = (Ok (len, lb), rest) \<and> sint len < 0)"
  proof (cases inp)
    case Nil
    then show ?thesis by (simp add: read_frame_def ReadFull_def)
  next
    case (Cons t inp')
    obtain r rest where "readLength inp' = (r, rest)" by (cases "readLength inp'")
    then show ?thesis
      using Cons readLength_no_panic [of inp' rest]
      by (cases r) (auto simp: read_frame_def and_then_Panic_iff MaxMessageSize_def split: if_splits)
  qed
  also have "\<dots> \<longleftrightarrow> (\<exists>b bs rest. inp = 0x30 # b # bs @ rest \<and> b AND 0x80 \<noteq> 0 \<and> length bs = unat (b AND 0x7F) \<and>
      bs \<noteq> [] \<and> sint (fold shift_in bs 0) < 0)"
    unfolding readLength_Ok using short by blast
  also have "\<dots> \<longleftrightarrow> negative_length inp"
    unfolding negative_fold negative_length_def by (intro iff_exI) auto
  finally show ?thesis .
qed

end
