(* ===== verification/Ldap_Answers.thy ===== *)
theory Ldap_Answers
  imports Ldap_Frames
begin

text \<open>
  The answers of a connection: responses are always encoded, writing does not panic, and dispatching
  a message gives the response that belongs to it and leaves the identity of the client alone, a successful bind excepted.
\<close>

section \<open>Responses are encoded\<close>

text \<open>What a handler returns is in memory: the length of a string or a slice is a positive \<^verbatim>\<open>int\<close>.\<close>

definition in_memory :: "bytes \<Rightarrow> bool" where
  "in_memory v \<longleftrightarrow> length v < 2 ^ 63"

definition grows :: "encoder \<Rightarrow> unit enc_result \<Rightarrow> bool" where
  "grows e r \<longleftrightarrow> (\<exists>e'. r = (Ok (), e') \<and> length (buf e) \<le> length (buf e'))"

lemma grows_refl [simp]: "grows e (Ok (), e)"
  by (simp add: grows_def)

lemma grows_and_then: "grows e r \<Longrightarrow> (\<And>e'. grows e' (f () e')) \<Longrightarrow> grows e (and_then r f)"
  by (fastforce simp: grows_def)

lemma grows_append: "grows e (Ok (), append_bytes e bs)"
  by (simp add: grows_def)

lemma WriteOctetString_Ok: "in_memory v \<Longrightarrow> \<exists>bs. WriteOctetString e v = (Ok (), append_bytes e bs)"
proof -
  assume "in_memory v"
  then have "int (length v) < 256 ^ 8"
    by (simp add: in_memory_def)
  then have "num_length_bytes (int (length v)) \<le> 8"
    by (rule num_length_bytes_bound)
  then show ?thesis
    by (auto simp: WriteOctetString_def WriteTag_octets WriteLength_field)
qed

lemma grows_WriteOctetString: "in_memory v \<Longrightarrow> grows e (WriteOctetString e v)"
  using WriteOctetString_Ok [of v e] by (auto simp: grows_append)

lemma grows_write_all: "list_all P vs \<Longrightarrow> (\<And>e v. P v \<Longrightarrow> grows e (put e v)) \<Longrightarrow> grows e (write_all put e vs)"
  by (induction vs arbitrary: e) (auto intro: grows_and_then)

lemma fixup_shrinks:
  "pos + 4 \<le> length (buf e) \<Longrightarrow> \<exists>e'. fixupLength e pos = (Ok (), e') \<and> length (buf e) \<le> length (buf e') + 3"
  by (auto simp: fixupLength_def Let_def length_go_copy)

lemma grows_sequence:
  assumes "BeginSequence e = (pos, e1)" and "grows e1 (w e1)"
  shows "grows e (and_then (w e1) (\<lambda>_ e. EndSequence e pos))"
proof -
  have "pos = length (buf e) + 1" "length (buf e1) = length (buf e) + 5"
    using assms(1) by (auto simp: BeginSequence_def Let_def)
  moreover obtain e2 where "w e1 = (Ok (), e2)" "length (buf e1) \<le> length (buf e2)"
    using assms(2) by (auto simp: grows_def)
  ultimately show ?thesis
    using fixup_shrinks [of pos e2] by (auto simp: grows_def EndSequence_def)
qed

lemma grows_set:
  assumes "BeginSet e = (pos, e1)" and "grows e1 (w e1)"
  shows "grows e (and_then (w e1) (\<lambda>_ e. EndSet e pos))"
proof -
  have "pos = length (buf e) + 1" "length (buf e1) = length (buf e) + 5"
    using assms(1) by (auto simp: BeginSet_def Let_def)
  moreover obtain e2 where "w e1 = (Ok (), e2)" "length (buf e1) \<le> length (buf e2)"
    using assms(2) by (auto simp: grows_def)
  ultimately show ?thesis
    using fixup_shrinks [of pos e2] by (auto simp: grows_def EndSet_def)
qed

definition sized_attribute :: "ldap_attribute \<Rightarrow> bool" where
  "sized_attribute a \<longleftrightarrow> in_memory (at_type a) \<and> list_all in_memory (at_values a)"

lemma grows_encodeAttribute:
  assumes "sized_attribute a"
  shows "grows e (encodeAttribute e a)"
proof -
  obtain pos e1 where b: "BeginSequence e = (pos, e1)" by (cases "BeginSequence e")
  have vals: "grows e (let (setPos, e) = BeginSet e in and_then (write_all WriteOctetString e (at_values a)) (\<lambda>_ e. EndSet e setPos))" for e
  proof -
    obtain p e2 where "BeginSet e = (p, e2)" by (cases "BeginSet e")
    then show ?thesis
      using assms grows_set [of e p e2 "\<lambda>e. write_all WriteOctetString e (at_values a)"]
        grows_write_all [of in_memory "at_values a"] grows_WriteOctetString
      by (simp add: sized_attribute_def)
  qed
  have "grows e (and_then (and_then (WriteOctetString e1 (at_type a)) (\<lambda>_ e. let (setPos, e) = BeginSet e in
      and_then (write_all WriteOctetString e (at_values a)) (\<lambda>_ e. EndSet e setPos))) (\<lambda>_ e. EndSequence e pos))"
    using assms by (intro grows_sequence [OF b] grows_and_then vals grows_WriteOctetString) (simp add: sized_attribute_def)
  then show ?thesis
    by (simp add: encodeAttribute_def b and_then_assoc case_prod_beta Let_def)
qed

definition sized_result :: "operation_result \<Rightarrow> bool" where
  "sized_result r \<longleftrightarrow> in_memory (or_matched r) \<and> in_memory (or_message r)"

definition sized_entry :: "search_entry \<Rightarrow> bool" where
  "sized_entry entry \<longleftrightarrow> in_memory (se_dn entry) \<and> list_all sized_attribute (se_attributes entry)"

lemma grows_Bytes: "grows e r \<Longrightarrow> \<exists>bs. Bytes r = Ok bs"
  by (auto simp: grows_def Bytes_def)

lemma response_message_Ok:
  assumes "grows e r"
  shows "\<exists>m. response_message tag msgID (Bytes r) = Ok (Some m) \<and> m_id m = msgID \<and> m_controls m = [] \<and> OperationType m = tag"
  using grows_Bytes [OF assms] by (auto simp: response_message_def OperationType_def)

lemma create_result_Ok:
  assumes "sized_result r"
  shows "\<exists>m. create_result tag msgID r = Ok (Some m) \<and> m_id m = msgID \<and> m_controls m = [] \<and> OperationType m = tag"
  unfolding create_result_def
  using assms
  by (intro response_message_Ok [of NewBEREncoder] grows_and_then grows_WriteOctetString)
     (simp_all add: enumerated_codec.write_enc grows_append sized_result_def)

lemma createSearchEntryResponse_Ok:
  assumes "sized_entry entry"
  shows "\<exists>m. createSearchEntryResponse msgID entry = Ok (Some m)"
proof -
  have "grows e (let (pos, e) = BeginSequence e in and_then (write_all encodeAttribute e (se_attributes entry)) (\<lambda>_ e. EndSequence e pos))" for e
  proof -
    obtain pos e1 where "BeginSequence e = (pos, e1)" by (cases "BeginSequence e")
    then show ?thesis
      using assms grows_sequence [of e pos e1 "\<lambda>e. write_all encodeAttribute e (se_attributes entry)"]
        grows_write_all [of sized_attribute "se_attributes entry"] grows_encodeAttribute
      by (simp add: sized_entry_def)
  qed
  then have "grows NewBEREncoder (and_then (WriteOctetString NewBEREncoder (se_dn entry)) (\<lambda>_ e.
      let (pos, e) = BeginSequence e in and_then (write_all encodeAttribute e (se_attributes entry)) (\<lambda>_ e. EndSequence e pos)))"
    using assms by (intro grows_and_then grows_WriteOctetString) (simp add: sized_entry_def)
  from response_message_Ok [OF this] show ?thesis
    unfolding createSearchEntryResponse_def by blast
qed

section \<open>Writing does not panic\<close>

definition calm :: "unit enc_result \<Rightarrow> bool" where
  "calm r \<longleftrightarrow> fst r \<noteq> Panic"

lemma calm_and_then: "calm r \<Longrightarrow> (\<And>e. calm (f () e)) \<Longrightarrow> calm (and_then r f)"
  by (cases "(r, f)" rule: and_then.cases) (auto simp: calm_def)

lemma calm_writes [simp]:
  "calm (Ok (), e)" "calm (WriteTag e c k n)" "calm (WriteLength e l)" "calm (fixupLength e pos)"
  by (simp_all add: calm_def WriteTag_def WriteLength_def fixupLength_def Let_def)

lemma calm_values [simp]:
  "calm (WriteOctetString e v)" "calm (WriteBoolean e b)" "calm (WriteInteger e i)"
  by (auto simp: WriteOctetString_def WriteBoolean_def WriteInteger_def Let_def intro!: calm_and_then)

lemma calm_write_all: "(\<And>e v. calm (put e v)) \<Longrightarrow> calm (write_all put e vs)"
  by (induction vs arbitrary: e) (auto intro!: calm_and_then)

lemma calm_encodeControls: "calm (encodeControls e cs)"
proof -
  have "calm (encodeControl e c)" for e c
    by (auto simp: encodeControl_def EndSequence_def case_prod_beta intro!: calm_and_then)
  then show ?thesis
    by (auto simp: encodeControls_def EndSequence_def EndContextTag_def case_prod_beta Let_def
        intro!: calm_and_then calm_write_all)
qed

lemma Bytes_no_panic: "calm r \<Longrightarrow> Bytes r \<noteq> Panic"
  by (auto simp: calm_def Bytes_def split: outcome.splits prod.splits)

lemma Message_Encode_no_panic [simp]: "Message_Encode m \<noteq> Panic"
  by (auto simp: Message_Encode_def EndSequence_def EndApplicationTag_def case_prod_beta Let_def
      split: option.splits intro!: Bytes_no_panic calm_and_then calm_encodeControls)

lemma WriteMessage_cases:
  obtains out where "WriteMessage c m = (Ok (), c \<lparr>conn_out := out\<rparr>)" | e where "WriteMessage c m = (Fail e, c)"
proof -
  have "(\<exists>out. WriteMessage c m = (Ok (), c \<lparr>conn_out := out\<rparr>)) \<or> (\<exists>e. WriteMessage c m = (Fail e, c))"
    using Message_Encode_no_panic [of m] by (cases "Message_Encode m") (auto simp: WriteMessage_def)
  then show thesis using that by blast
qed

lemma write_entries_cases:
  assumes "list_all sized_entry entries"
  obtains x out where "write_entries msgID entries c = (x, c \<lparr>conn_out := out\<rparr>)" and "x \<noteq> Panic"
  using assms
proof (induction entries arbitrary: c thesis)
  case Nil
  then show ?case using Nil.prems(1) [of "Ok ()" "conn_out c"] by simp
next
  case (Cons entry entries)
  obtain m where m: "createSearchEntryResponse msgID entry = Ok (Some m)"
    using Cons.prems(2) createSearchEntryResponse_Ok [of entry msgID] by auto
  show ?case
  proof (cases rule: WriteMessage_cases [of c m])
    case (1 out)
    obtain x out' where "write_entries msgID entries (c \<lparr>conn_out := out\<rparr>) = (x, c \<lparr>conn_out := out'\<rparr>)" "x \<noteq> Panic"
      using Cons.IH [of "c \<lparr>conn_out := out\<rparr>"] Cons.prems(2) by auto
    then show ?thesis
      using Cons.prems(1) [of x out'] 1 m by simp
  next
    case (2 e)
    then show ?thesis
      using Cons.prems(1) [of "Fail e" "conn_out c"] m by simp
  qed
qed

section \<open>Requests and their answers\<close>

definition sized_handler :: "'s handler \<Rightarrow> bool" where
  "sized_handler h \<longleftrightarrow>
     (\<forall>c q. sized_result (fst (HandleBind h c q))) \<and> (\<forall>c q. sized_result (fst (HandleAdd h c q))) \<and>
     (\<forall>c q. sized_result (fst (HandleDelete h c q))) \<and> (\<forall>c q. sized_result (fst (HandleModify h c q))) \<and>
     (\<forall>c q. sized_result (fst (HandleModifyDN h c q))) \<and> (\<forall>c q. sized_result (fst (HandleCompare h c q))) \<and>
     (\<forall>c q. sized_result (sres_result (fst (HandleSearch h c q))) \<and>
        list_all sized_entry (sres_entries (fst (HandleSearch h c q))))"

text \<open>The operation that answers a request; other operations are answered with a bind response.\<close>

definition response_tag :: "int \<Rightarrow> int" where
  "response_tag tag = (if tag = 3 then 5 else if tag \<in> {6, 8, 10, 12, 14} then tag + 1 else 1)"

definition unchanged :: "'s connection \<Rightarrow> 's connection \<Rightarrow> bool" where
  "unchanged c c' \<longleftrightarrow> conn_in c' = conn_in c \<and> conn_closed c' = conn_closed c"

definition identity :: "'s connection \<Rightarrow> bytes \<times> bool" where
  "identity c = (conn_bindDN c, conn_authenticated c)"

definition answered :: "int \<Rightarrow> ldap_message \<Rightarrow> 's connection \<Rightarrow> 's answer \<Rightarrow> bool" where
  "answered tag msg c a \<longleftrightarrow>
     (\<exists>m c'. a = Some (Ok (Some m), c') \<and> m_id m = m_id msg \<and> OperationType m = tag \<and> m_controls m = [] \<and>
        unchanged c c' \<and> identity c' = identity c)"

lemma sized_refusal: "length msg < 2 ^ 63 \<Longrightarrow> sized_result (refusal code msg)"
  by (simp add: sized_result_def refusal_def in_memory_def lit_def)

lemma answered_create:
  assumes "sized_result r" and "unchanged c c'" and "identity c' = identity c"
  shows "answered tag msg c (Some (create_result tag (m_id msg) r, c'))"
  using create_result_Ok [OF assms(1), of tag "m_id msg"] assms(2,3) by (auto simp: answered_def)

lemma call_handler_unchanged:
  "unchanged c (snd (call_handler f r c q)) \<and> identity (snd (call_handler f r c q)) = identity c"
  by (auto simp: call_handler_def unchanged_def identity_def split: option.splits prod.splits)

lemma call_handler_keeps:
  "call_handler f r c q = (result, c') \<Longrightarrow> unchanged c c' \<and> identity c' = identity c"
  using call_handler_unchanged [of c f r q] by simp

lemma with_request_cases:
  assumes "settles (parse (op_data op))" and "m_operation msg = Some op"
  obtains q d where "parse (op_data op) = Some (Ok q, d)" "with_request parse create invalid msg c serve = serve q"
  | "with_request parse create invalid msg c serve = Some (create (m_id msg) (refusal ResultProtocolError invalid), c)"
  using assms(1) by (rule settlesE) (auto simp: with_request_def assms(2) that)

lemma answered_with_request:
  assumes "settles (parse (op_data op))" and "m_operation msg = Some op" and "length invalid < 2 ^ 63"
    and "\<And>q. answered tag msg c (serve q)"
  shows "answered tag msg c (with_request parse (create_result tag) invalid msg c serve)"
proof (cases rule: with_request_cases [of parse op msg "create_result tag" invalid c serve, OF assms(1,2)])
  case (1 q d)
  then show ?thesis using assms(4) by simp
next
  case 2
  then show ?thesis
    using assms(3) by (simp add: answered_create sized_refusal unchanged_def)
qed

lemma answered_served:
  assumes "sized_result (fst (call_handler f r c q))"
  shows "answered tag msg c (let (result, c) = call_handler f r c q in Some (create_result tag (m_id msg) result, c))"
  using assms call_handler_unchanged [of c f r q] by (simp add: answered_create case_prod_beta)

lemmas handle_defs =
  HandleBind_def HandleSearch_def HandleAdd_def HandleDelete_def HandleModify_def HandleModifyDN_def HandleCompare_def
lemmas create_defs =
  createBindResponse_def createSearchDoneResponse_def createModifyResponse_def createAddResponse_def
  createDeleteResponse_def createModifyDNResponse_def createCompareResponse_def createErrorResponse_def

lemma answered_simple:
  assumes "sized_handler h" and "m_operation msg = Some op"
  shows "answered 9 msg c (handleAdd h c msg)" "answered 11 msg c (handleDelete h c msg)"
    "answered 7 msg c (handleModify h c msg)" "answered 13 msg c (handleModifyDN h c msg)"
    "answered 15 msg c (handleCompare h c msg)"
  using assms(1)
  unfolding handleAdd_def handleDelete_def handleModify_def handleModifyDN_def handleCompare_def handle_defs create_defs
    sized_handler_def
  by (intro answered_with_request [OF _ assms(2)] answered_served settles_ParseAddRequest settles_ParseModifyRequest
      settles_ParseModifyDNRequest settles_ParseCompareRequest;
      simp add: ParseDeleteRequest_def)+

text \<open>A bind that succeeds sets the identity; nothing else in a bind does.\<close>

definition bound_by :: "'s handler \<Rightarrow> 's connection \<Rightarrow> ldap_message \<Rightarrow> 's connection \<Rightarrow> bool" where
  "bound_by h c msg c' \<longleftrightarrow>
     (\<exists>op q d. m_operation msg = Some op \<and> op_tag op = 0 \<and> ParseBindRequest (op_data op) = Some (Ok q, d) \<and>
        or_code (fst (HandleBind h c q)) = ResultSuccess \<and> identity c' = (br_name q, \<not> Bind_IsAnonymous q))"

lemma handleBind_answers:
  assumes "sized_handler h" and "m_operation msg = Some op" and "op_tag op = 0"
  shows "\<exists>m c'. handleBind h c msg = Some (Ok (Some m), c') \<and> m_id m = m_id msg \<and> OperationType m = 1 \<and>
    unchanged c c' \<and> (identity c' = identity c \<or> bound_by h c msg c')"
proof (cases rule: with_request_cases [of ParseBindRequest op msg "create_result 1" "''invalid bind request''" c
      "\<lambda>req. let (result, c) = HandleBind h c req;
           c = (if or_code result = ResultSuccess
                then c \<lparr>conn_bindDN := br_name req, conn_authenticated := \<not> Bind_IsAnonymous req\<rparr> else c)
       in Some (createBindResponse (m_id msg) result, c)", OF settles_ParseBindRequest assms(2)])
  case (1 q d)
  obtain result c1 where r: "HandleBind h c q = (result, c1)" by (cases "HandleBind h c q")
  have "unchanged c c1" "identity c1 = identity c"
    using call_handler_keeps [OF r [unfolded handle_defs]] by simp_all
  moreover obtain m where "create_result 1 (m_id msg) result = Ok (Some m)" "m_id m = m_id msg" "OperationType m = 1"
    using create_result_Ok [of result 1 "m_id msg"] assms(1) r by (metis fst_conv sized_handler_def)
  ultimately show ?thesis
    using 1 r assms(2,3) by (auto simp: handleBind_def create_defs bound_by_def identity_def unchanged_def)
next
  case 2
  then show ?thesis
    using create_result_Ok [OF sized_refusal, of "''invalid bind request''" 1 "m_id msg" ResultProtocolError]
    by (auto simp: handleBind_def create_defs unchanged_def)
qed

lemma settles_FindPersistentSearchControl: "settles (FindPersistentSearchControl cs)"
  by (induction cs)
     (auto simp: ParsePersistentSearchControl_def Let_def intro!: settles_ldo read_steps [THEN steps_settles])

lemma run_search_answers:
  assumes "sized_handler h"
  shows "\<exists>r c'. run_search h c msg req = Some (Ok r, c') \<and> unchanged c c' \<and> identity c' = identity c \<and>
    (\<forall>m. r = Some m \<longrightarrow> m_id m = m_id msg \<and> OperationType m = 5)"
proof -
  obtain result c1 where r: "HandleSearch h c req = (result, c1)" by (cases "HandleSearch h c req")
  have c1: "unchanged c c1" "identity c1 = identity c"
    using call_handler_keeps [OF r [unfolded handle_defs]] by simp_all
  have sized: "sized_result (sres_result result)" "list_all sized_entry (sres_entries result)"
    using assms r by (metis fst_conv sized_handler_def)+
  obtain x out where w: "write_entries (m_id msg) (sres_entries result) c1 = (x, c1 \<lparr>conn_out := out\<rparr>)" "x \<noteq> Panic"
    by (rule write_entries_cases [OF sized(2)])
  show ?thesis
    using r w c1 create_result_Ok [OF sized(1), of 5 "m_id msg"]
    by (cases x) (auto simp: run_search_def create_defs unchanged_def identity_def)
qed

lemma handleSearch_answers:
  assumes "sized_handler h" and "m_operation msg = Some op"
  shows "\<exists>r c'. handleSearch h c msg = Some (Ok r, c') \<and> unchanged c c' \<and> identity c' = identity c \<and>
    (\<forall>m. r = Some m \<longrightarrow> m_id m = m_id msg \<and> OperationType m = 5)"
proof -
  have refused: "\<exists>m. create_result 5 (m_id msg) (refusal code why) = Ok (Some m) \<and> m_id m = m_id msg \<and> OperationType m = 5"
    if "length why < 2 ^ 63" for code why
    using create_result_Ok [OF sized_refusal [OF that, of code], of 5 "m_id msg"] by auto
  show ?thesis
  proof (cases rule: settlesE [OF settles_ParseSearchRequest [of "op_data op"]])
    case (1 q d)
    show ?thesis
    proof (cases rule: settlesE [OF settles_FindPersistentSearchControl [of "m_controls msg"]])
      case ctl: (1 psc d')
      show ?thesis
        using 1 ctl assms(2) run_search_answers [OF assms(1), of c msg q]
          refused [of "''persistent search not supported''" ResultUnavailableCriticalExtension]
        by (cases psc) (auto simp: handleSearch_def create_defs with_request_def unchanged_def identity_def)
    next
      case (2 e d')
      then show ?thesis
        using 1 assms(2) refused [of "''invalid persistent search control''" ResultProtocolError]
        by (auto simp: handleSearch_def create_defs with_request_def unchanged_def)
    qed
  next
    case (2 e d)
    then show ?thesis
      using assms(2) refused [of "''invalid search request''" ResultProtocolError]
      by (auto simp: handleSearch_def create_defs with_request_def unchanged_def)
  qed
qed

definition served :: "'s handler \<Rightarrow> 's connection \<Rightarrow> ldap_message \<Rightarrow> 's answer \<Rightarrow> bool" where
  "served h c msg a \<longleftrightarrow>
     (\<exists>r c'. a = Some (Ok r, c') \<and> unchanged c c' \<and>
        (\<forall>m. r = Some m \<longrightarrow> m_id m = m_id msg \<and> OperationType m = response_tag (OperationType msg)) \<and>
        (r = None \<longrightarrow> OperationType msg \<in> {3, 16}) \<and>
        (identity c' = identity c \<or> bound_by h c msg c'))"

lemma answered_serves: "answered (response_tag (OperationType msg)) msg c a \<Longrightarrow> served h c msg a"
  by (auto simp: answered_def served_def)

lemma dispatch_serves:
  assumes "sized_handler h"
  shows "served h c msg (dispatchMessage (Some h) c msg)"
proof (cases "OperationType msg \<in> {0, 3, 6, 8, 10, 12, 14}")
  case True
  then obtain op where op: "m_operation msg = Some op" "OperationType msg = op_tag op"
    by (auto simp: OperationType_def split: option.splits)
  have "served h c msg (handleBind h c msg)" if "op_tag op = 0"
    using handleBind_answers [OF assms op(1) that, of c] that op(2) by (auto simp: served_def response_tag_def)
  moreover have "served h c msg (handleSearch h c msg)" if "op_tag op = 3"
    using handleSearch_answers [OF assms op(1), of c] that op(2) by (auto simp: served_def response_tag_def)
  ultimately show ?thesis
    using True answered_simple [OF assms op(1), of c] answered_serves [of msg c _ h]
    by (elim insertE; simp add: op(2) dispatchMessage_def response_tag_def)
next
  case False
  have "\<exists>m. createErrorResponse (m_id msg) (refusal ResultProtocolError ''unsupported operation'') = Ok (Some m) \<and>
      m_id m = m_id msg \<and> OperationType m = 1"
    using create_result_Ok [OF sized_refusal, of "''unsupported operation''" 1 "m_id msg" ResultProtocolError]
    by (auto simp: create_defs)
  then show ?thesis
    using False by (cases "OperationType msg = 16")
      (auto simp: dispatchMessage_def served_def response_tag_def unchanged_def)
qed

end
