(* ===== verification/Ldap_Props.thy ===== *)
theory Ldap_Props
  imports Ldap_Answers
begin

text \<open>
  The properties of LDAP messages and of client connections.
\<close>

section \<open>The message loop\<close>

lemma read_frame_consumes:
  assumes "read_frame inp = (Ok full, rest)"
  shows "\<exists>k. rest = drop k inp \<and> length rest < length inp"
proof -
  obtain tag inp1 len lb inp2 content where "inp = tag @ inp1" "length tag = 1" "readLength inp1 = (Ok (len, lb), inp2)"
    "inp2 = content @ rest"
    using assms by (auto simp: read_frame_def and_then_Ok_iff ReadFull_Ok split: if_splits)
  then show ?thesis
    by (auto simp: readLength_Ok intro: exI [of _ "length inp - length rest"])
qed

lemma ReadMessage_cases:
  obtains m c' k where "ReadMessage c = Some (Ok m, c')" "conn_in c' = drop k (conn_in c)"
      "length (conn_in c') < length (conn_in c)" "conn_closed c' = conn_closed c"
  | e c' where "ReadMessage c = Some (Fail e, c')"
  | c' where "ReadMessage c = Some (Panic, c')" "negative_length (conn_in c)"
proof -
  obtain r rest where r: "read_frame (conn_in c) = (r, rest)" by (cases "read_frame (conn_in c)")
  show thesis
  proof (cases r)
    case (Ok full)
    obtain k where k: "rest = drop k (conn_in c)" "length rest < length (conn_in c)"
      using read_frame_consumes r Ok by blast
    show thesis
    proof (cases rule: settlesE [OF settles_ParseLDAPMessage [of full]])
      case (1 m d)
      then show thesis
        using that(1) [of m "c \<lparr>conn_in := rest, conn_messageID := m_id m\<rparr>" k] r Ok k by (simp add: ReadMessage_def)
    next
      case (2 e d)
      then show thesis
        using that(2) [of "MessageError e" "c \<lparr>conn_in := rest\<rparr>"] r Ok by (simp add: ReadMessage_def)
    qed
  next
    case (Fail e)
    then show thesis
      using that(2) [of e "c \<lparr>conn_in := rest\<rparr>"] r by (simp add: ReadMessage_def)
  next
    case Panic
    then show thesis
      using that(3) [of "c \<lparr>conn_in := rest\<rparr>"] r read_frame_panics [of "conn_in c"] by (auto simp: ReadMessage_def)
  qed
qed

definition sized_handlers :: "'s handler option \<Rightarrow> bool" where
  "sized_handlers h \<longleftrightarrow> (case h of None \<Rightarrow> True | Some h \<Rightarrow> sized_handler h)"

lemma dispatch_returns:
  assumes "sized_handlers h"
  obtains r c' where "dispatchMessage h c msg = Some (Ok r, c')" "conn_in c' = conn_in c"
proof (cases h)
  case None
  show thesis
    using that None create_result_Ok [OF sized_refusal, of "''no handler configured''" 1 "m_id msg" ResultUnwillingToPerform]
    by (auto simp: dispatchMessage_def create_defs)
next
  case (Some h')
  then show thesis
    using that assms dispatch_serves [of h' c msg] by (auto simp: sized_handlers_def served_def unchanged_def)
qed

definition loop_ends :: "'s connection \<Rightarrow> ('s, unit) conn_result \<Rightarrow> bool" where
  "loop_ends c r \<longleftrightarrow>
     (\<exists>c'. r = Some (Ok (), c') \<and> conn_closed c') \<or>
     (\<exists>c' k. r = Some (Panic, c') \<and> negative_length (drop k (conn_in c)))"

lemma loop_ends_later:
  assumes "loop_ends c' r" and "conn_in c' = drop k (conn_in c)"
  shows "loop_ends c r"
  using assms by (auto simp: loop_ends_def)

lemma Conn_Close_closed [simp]: "conn_closed (Conn_Close c)"
  by (simp add: Conn_Close_def)

lemma Handle_ends:
  assumes "sized_handlers h"
  shows "length (conn_in c) < n \<Longrightarrow> loop_ends c (Handle n h c)"
proof (induction n arbitrary: c)
  case 0
  then show ?case by simp
next
  case (Suc n)
  show ?case
  proof (cases "conn_closed c")
    case True
    then show ?thesis by (simp add: loop_ends_def)
  next
    case open_: False
    show ?thesis
    proof (cases rule: ReadMessage_cases [of c])
      case (1 m c1 k)
      obtain r c2 where d: "dispatchMessage h c1 m = Some (Ok r, c2)" "conn_in c2 = conn_in c1"
        by (rule dispatch_returns [OF assms])
      have rest: "loop_ends c (Handle n h c3)" if "conn_in c3 = conn_in c1" for c3 :: "'a connection"
        by (rule loop_ends_later [OF Suc.IH, where k = k]) (use 1 that Suc.prems in simp_all)
      show ?thesis
      proof (cases r)
        case None
        then show ?thesis
          using open_ 1(1) d rest [of c2] by (simp add: loop_ends_def)
      next
        case (Some resp)
        then show ?thesis
          using open_ 1(1) d rest by (cases rule: WriteMessage_cases [of c2 resp]) (auto simp: loop_ends_def)
      qed
    next
      case (2 e c1)
      then show ?thesis using open_ by (simp add: loop_ends_def)
    next
      case (3 c1)
      then have "negative_length (drop 0 (conn_in c))" by simp
      then show ?thesis
        using open_ 3(1) by (auto simp: loop_ends_def intro: exI [of _ 0])
    qed
  qed
qed

section \<open>Requests from a client to the handler\<close>

datatype request =
    BindRequest bind_request
  | AddRequest add_request
  | DeleteRequest delete_request
  | ModifyRequest modify_request
  | ModifyDNRequest modifydn_request
  | CompareRequest compare_request

fun request_tag :: "request \<Rightarrow> int" where
  "request_tag (BindRequest _) = 0"
| "request_tag (AddRequest _) = 8"
| "request_tag (DeleteRequest _) = 10"
| "request_tag (ModifyRequest _) = 6"
| "request_tag (ModifyDNRequest _) = 12"
| "request_tag (CompareRequest _) = 14"

fun encode_request :: "request \<Rightarrow> (ldap_error, bytes) outcome" where
  "encode_request (BindRequest q) = Bind_Encode q"
| "encode_request (AddRequest q) = Add_Encode q"
| "encode_request (DeleteRequest q) = Delete_Encode q"
| "encode_request (ModifyRequest q) = Modify_Encode q"
| "encode_request (ModifyDNRequest q) = ModifyDN_Encode q"
| "encode_request (CompareRequest q) = Compare_Encode q"

fun request_octets :: "request \<Rightarrow> bytes" where
  "request_octets (BindRequest q) = bind_octets q"
| "request_octets (AddRequest q) = add_octets q"
| "request_octets (DeleteRequest q) = del_dn q"
| "request_octets (ModifyRequest q) = modify_octets q"
| "request_octets (ModifyDNRequest q) = modifydn_octets q"
| "request_octets (CompareRequest q) = compare_octets q"

fun request_ok :: "request \<Rightarrow> bool" where
  "request_ok (BindRequest q) = bind_ok q"
| "request_ok (ModifyRequest q) = list_all modification_ok (mr_changes q)"
| "request_ok _ = True"

text \<open>What the server does with a request that has arrived: its handler is called, and a successful bind is recorded.\<close>

fun serve_request :: "'s handler \<Rightarrow> 's connection \<Rightarrow> int \<Rightarrow> request \<Rightarrow> 's answer" where
  "serve_request h c i (BindRequest q) =
     (let (r, c) = HandleBind h c q;
          c = (if or_code r = ResultSuccess
               then c \<lparr>conn_bindDN := br_name q, conn_authenticated := \<not> Bind_IsAnonymous q\<rparr> else c)
      in Some (createBindResponse i r, c))"
| "serve_request h c i (AddRequest q) = (let (r, c) = HandleAdd h c q in Some (createAddResponse i r, c))"
| "serve_request h c i (DeleteRequest q) = (let (r, c) = HandleDelete h c q in Some (createDeleteResponse i r, c))"
| "serve_request h c i (ModifyRequest q) = (let (r, c) = HandleModify h c q in Some (createModifyResponse i r, c))"
| "serve_request h c i (ModifyDNRequest q) = (let (r, c) = HandleModifyDN h c q in Some (createModifyDNResponse i r, c))"
| "serve_request h c i (CompareRequest q) = (let (r, c) = HandleCompare h c q in Some (createCompareResponse i r, c))"

definition message_of :: "int \<Rightarrow> request \<Rightarrow> control list \<Rightarrow> ldap_message" where
  "message_of i q cs = \<lparr>m_id = i, m_operation = Some \<lparr>op_tag = request_tag q, op_data = request_octets q\<rparr>, m_controls = cs\<rparr>"

lemma encode_request_octets:
  "request_ok q \<Longrightarrow> small (request_octets q) \<Longrightarrow> encode_request q = Ok (request_octets q)"
  by (cases q) (simp_all add: Bind_Encode_octets Add_Encode_octets Modify_Encode_octets ModifyDN_Encode_octets
      Compare_Encode_octets Delete_Encode_def)

lemma dispatch_request:
  assumes "request_ok q" and "small (request_octets q)"
  shows "dispatchMessage (Some h) c (message_of i q cs) = serve_request h c i q"
proof (cases q)
  case (BindRequest r)
  then show ?thesis
    using assms by (simp add: dispatchMessage_def message_of_def OperationType_def handleBind_def with_request_def ParseBindRequest_octets)
next
  case (AddRequest r)
  then show ?thesis
    using assms by (simp add: dispatchMessage_def message_of_def OperationType_def handleAdd_def with_request_def ParseAddRequest_octets)
next
  case (DeleteRequest r)
  moreover obtain dn where "r = \<lparr>del_dn = dn\<rparr>" by (cases r)
  ultimately show ?thesis
    by (simp add: dispatchMessage_def message_of_def OperationType_def handleDelete_def with_request_def ParseDeleteRequest_def)
next
  case (ModifyRequest r)
  then show ?thesis
    using assms by (simp add: dispatchMessage_def message_of_def OperationType_def handleModify_def with_request_def ParseModifyRequest_octets)
next
  case (ModifyDNRequest r)
  then show ?thesis
    using assms by (simp add: dispatchMessage_def message_of_def OperationType_def handleModifyDN_def with_request_def ParseModifyDNRequest_octets)
next
  case (CompareRequest r)
  then show ?thesis
    using assms by (simp add: dispatchMessage_def message_of_def OperationType_def handleCompare_def with_request_def ParseCompareRequest_octets)
qed

lemma small_message:
  assumes "int (length (message_content m)) \<le> MaxMessageSize"
  shows "small (message_octets m)"
proof -
  let ?n = "int (length (message_content m))"
  have n: "?n \<le> 2 ^ 24" using assms by (simp add: MaxMessageSize_def)
  then have "?n < 256 ^ 5" by simp
  then have "num_length_bytes ?n \<le> 5" by (rule num_length_bytes_bound)
  then have "length (length_field ?n) \<le> 6" by (simp add: length_field_def)
  then show ?thesis
    using n by (simp add: small_def message_octets_def tlv_def tag_octets_def ber_const_defs)
qed

section \<open>Properties\<close>

definition demo_connection :: "bytes \<Rightarrow> unit connection" where
  "demo_connection inp =
     \<lparr>conn_in = inp, conn_out = [], conn_accepts = 10, conn_bindDN = [], conn_authenticated = False, conn_messageID = 0,
      conn_closed = False, conn_persistent = False, conn_watches = [], conn_backend = ()\<rparr>"

lemma sized_NewHandler: "sized_handler NewHandler"
proof -
  have "sized_result \<lparr>or_code = code, or_matched = [], or_message = []\<rparr>" for code
    by (simp add: sized_result_def in_memory_def)
  then show ?thesis
    by (simp add: sized_handler_def handle_defs call_handler_def NewHandler_def defaultBindHandler_def
        defaultSearchHandler_def default_handler_def sized_refusal)
qed

text \<open>
  C18. The server survives every input but one kind. Whatever bytes a client sends, every request
  parser returns without a panic, and the message loop of its connection ends: it closes the connection
  after at most one round for each byte, or it panics on a message whose length is negative as a
  64-bit integer. Reading a message panics on exactly those. The handlers are assumed to return
  strings whose length is an \<^verbatim>\<open>int\<close>.
\<close>

theorem connection_survives_input:
  assumes "sized_handlers h"
  shows "settles (ParseLDAPMessage data) \<and> settles (ParseBindRequest data) \<and> settles (ParseSearchRequest data) \<and>
    settles (ParseAddRequest data) \<and> settles (ParseModifyRequest data) \<and> settles (ParseModifyDNRequest data) \<and>
    settles (ParseCompareRequest data) \<and>
    loop_ends c (Handle (Suc (length (conn_in c))) h c) \<and>
    ((\<exists>c'. ReadMessage c = Some (Panic, c')) \<longleftrightarrow> negative_length (conn_in c))"
proof (intro conjI)
  show "loop_ends c (Handle (Suc (length (conn_in c))) h c)"
    by (rule Handle_ends [OF assms]) simp
  show "(\<exists>c'. ReadMessage c = Some (Panic, c')) \<longleftrightarrow> negative_length (conn_in c)"
  proof (cases "negative_length (conn_in c)")
    case True
    then obtain t where "read_frame (conn_in c) = (Panic, t)"
      using read_frame_panics by blast
    with True show ?thesis by (simp add: ReadMessage_def)
  next
    case False
    then show ?thesis by (cases rule: ReadMessage_cases [of c]) auto
  qed
qed (fact settles_ParseLDAPMessage settles_ParseBindRequest settles_ParseSearchRequest settles_ParseAddRequest
    settles_ParseModifyRequest settles_ParseModifyDNRequest settles_ParseCompareRequest)+

theorem connection_survives_input_witness:
  "sized_handlers (Some NewHandler :: unit handler option) \<and>
   loop_ends (demo_connection [0x30, 0x02, 0x05, 0x00]) (Handle 5 (Some NewHandler) (demo_connection [0x30, 0x02, 0x05, 0x00])) \<and>
   \<not> (\<exists>c'. ReadMessage (demo_connection [0x30, 0x02, 0x05, 0x00]) = Some (Panic, c'))"
proof -
  have s: "sized_handlers (Some NewHandler :: unit handler option)"
    by (simp add: sized_handlers_def sized_NewHandler)
  have "\<not> negative_length [0x30, 0x02, 0x05, 0x00]"
    by (simp add: negative_length_def)
  then show ?thesis
    using s connection_survives_input [OF s, of "[]" "demo_connection [0x30, 0x02, 0x05, 0x00]"]
    by (simp add: demo_connection_def eval_nat_numeral)
qed

text \<open>Ten bytes from a client that has not bound end the process.\<close>

lemma ten_bytes_end_the_server:
  "\<exists>c'. Handle 1 (Some NewHandler) (demo_connection ([0x30, 0x88] @ replicate 8 0xFF)) = Some (Panic, c')"
proof -
  let ?inp = "[0x30, 0x88] @ replicate 8 0xFF :: bytes"
  have "negative_length ?inp"
    unfolding negative_length_def
    by (intro exI [of _ "0x88"] exI [of _ "replicate 8 0xFF"] exI [of _ "[]"]) simp
  then obtain t where "read_frame ?inp = (Panic, t)"
    using read_frame_panics by blast
  then show ?thesis
    by (simp add: ReadMessage_def demo_connection_def)
qed

text \<open>
  C21. From the client to the handler. A bind, add, delete, modify, rename or compare request,
  with any controls, encoded by the LDAP layer and written to the network, is read back from the
  front of whatever else the connection has received as the same message, and dispatching that
  message calls the handler of its operation with exactly that request. The size is limited
  by \<^verbatim>\<open>MaxMessageSize\<close>.
\<close>

theorem request_reaches_its_handler:
  assumes "request_ok q" and "0 \<le> i" and "i \<le> MaxMessageID"
    and "int (length (message_content (message_of i q cs))) \<le> MaxMessageSize"
  shows "encode_request q = Ok (request_octets q) \<and>
    (\<exists>bs. Message_Encode (message_of i q cs) = Ok bs \<and>
       ReadMessage (c \<lparr>conn_in := bs @ rest\<rparr>) =
         Some (Ok (message_of i q cs), c \<lparr>conn_in := rest, conn_messageID := i\<rparr>)) \<and>
    dispatchMessage (Some h) c (message_of i q cs) = serve_request h c i q"
proof -
  let ?m = "message_of i q cs"
  have small: "small (message_octets ?m)"
    using small_message [OF assms(4)] .
  have "readable_tag (request_tag q)"
    by (cases q) simp_all
  then have ok: "message_ok ?m"
    using assms(2,3) by (simp add: message_ok_def message_of_def)
  have "small (request_octets q)"
    using message_parts(2) [OF small, of "\<lparr>op_tag = request_tag q, op_data = request_octets q\<rparr>"] by (simp add: message_of_def)
  moreover obtain d where "ParseLDAPMessage (message_octets ?m) = Some (Ok ?m, d)"
    using ParseLDAPMessage_octets [OF ok small] by blast
  moreover have "m_id ?m = i"
    by (simp add: message_of_def)
  ultimately show ?thesis
    using read_frame_message [OF assms(4), of rest] Message_Encode_octets [OF ok small] assms(1)
    by (simp add: encode_request_octets dispatch_request ReadMessage_def)
qed

theorem request_reaches_its_handler_witness:
  "\<exists>bs. Message_Encode (message_of 7 (DeleteRequest \<lparr>del_dn = [1, 2]\<rparr>) []) = Ok bs \<and>
     ReadMessage (demo_connection (bs @ [9])) =
       Some (Ok (message_of 7 (DeleteRequest \<lparr>del_dn = [1, 2]\<rparr>) []), (demo_connection [9]) \<lparr>conn_messageID := 7\<rparr>)"
proof -
  let ?q = "DeleteRequest \<lparr>del_dn = [1, 2]\<rparr>"
  have "length (encodeInteger (7 :: uint64)) \<le> 8"
    using encodeInteger_length [of 7] by auto
  then have "int (length (message_content (message_of 7 ?q []))) \<le> MaxMessageSize"
    by (simp add: message_content_def message_of_def controls_octets_def tlv_def tag_octets_def ber_const_defs
        length_field_def MaxMessageSize_def)
  then show ?thesis
    using request_reaches_its_handler [where q = ?q and i = 7 and cs = "[]" and c = "demo_connection []" and rest = "[9]"]
    by (simp add: MaxMessageID_def demo_connection_def)
qed

text \<open>
  C22. Every request gets its answer, and only a bind changes who the client is. Dispatching a
  message returns without a panic. A response carries the message ID of the request and the
  response operation that belongs to it, or a bind response for an operation that the server does not know; only
  abandon requests and searches may be left without one. The identity of the connection stays as it was
  unless the message is a bind request that its handler accepted, and then it is the name of that request.
\<close>

theorem requests_are_answered:
  assumes "sized_handler h"
  shows "\<exists>r c'. dispatchMessage (Some h) c msg = Some (Ok r, c') \<and>
    (\<forall>m. r = Some m \<longrightarrow> m_id m = m_id msg \<and> OperationType m = response_tag (OperationType msg)) \<and>
    (r = None \<longrightarrow> OperationType msg \<in> {3, 16}) \<and>
    (identity c' = identity c \<or> bound_by h c msg c')"
  using dispatch_serves [OF assms, of c msg] unfolding served_def by blast

theorem requests_are_answered_witness:
  "sized_handler (NewHandler :: unit handler) \<and>
   (\<exists>r c'. dispatchMessage (Some NewHandler) (demo_connection []) (message_of 7 (DeleteRequest \<lparr>del_dn = [1]\<rparr>) []) = Some (Ok r, c') \<and>
      (\<forall>m. r = Some m \<longrightarrow> m_id m = 7 \<and> OperationType m = 11) \<and> r \<noteq> None)"
  using requests_are_answered [OF sized_NewHandler, of "demo_connection []" "message_of 7 (DeleteRequest \<lparr>del_dn = [1]\<rparr>) []"]
  by (auto simp: message_of_def OperationType_def response_tag_def sized_NewHandler)

end
