(* ===== verification/Change_Stream.thy ===== *)
theory Change_Stream
  imports Go_Strings "HOL-Library.AList"
begin

text \<open>
  Change streams (\<^verbatim>\<open>internal/storage/stream\<close>): the broker numbers the published changes, keeps the last
  ones in a ring buffer and hands every change to the subscribers whose filter it matches. A
  subscriber's channel is the list of the events that it has not received yet. The entry of an event is
  not looked at and is a type parameter; the current time is an argument, and the creation time of a
  subscriber, which nothing reads, is left out.
\<close>

section \<open>Events and filters\<close>

record 'e change_event =
  ev_token :: uint64
  ev_operation :: byte
  ev_dn :: bytes
  ev_entry :: "'e option"
  ev_old_dn :: bytes
  ev_time :: int

record watch_filter =
  wf_base :: bytes
  wf_scope :: int
  wf_operations :: "byte list"

definition isDirectChild :: "bytes \<Rightarrow> bytes \<Rightarrow> bool" where
  "isDirectChild dn baseDN =
     (let suffix = comma # baseDN in
      if \<not> HasSuffix dn suffix then False
      else let prefix = TrimSuffix dn suffix in prefix \<noteq> [] \<and> \<not> Contains prefix [comma])"

definition Matches :: "unicode \<Rightarrow> watch_filter \<Rightarrow> 'e change_event \<Rightarrow> bool" where
  "Matches U f event =
     (if wf_operations f \<noteq> [] \<and> ev_operation event \<notin> set (wf_operations f) then False
      else if wf_base f = [] then True
      else let dn = ToLower U (ev_dn event); baseDN = ToLower U (wf_base f) in
        if wf_scope f = 0 then dn = baseDN
        else if wf_scope f = 1 then isDirectChild dn baseDN
        else if wf_scope f = 2 then dn = baseDN \<or> HasSuffix dn (comma # baseDN)
        else False)"

definition MatchAll :: watch_filter where
  "MatchAll = \<lparr>wf_base = [], wf_scope = 0, wf_operations = []\<rparr>"

definition MatchDN :: "bytes \<Rightarrow> watch_filter" where
  "MatchDN dn = \<lparr>wf_base = dn, wf_scope = 0, wf_operations = []\<rparr>"

definition MatchSubtree :: "bytes \<Rightarrow> watch_filter" where
  "MatchSubtree dn = \<lparr>wf_base = dn, wf_scope = 2, wf_operations = []\<rparr>"

section \<open>The ring buffer\<close>

definition ReplayBufferSize :: nat where "ReplayBufferSize = 4096"
definition DefaultBufferSize :: nat where "DefaultBufferSize = 256"

record 'e ring_buffer =
  rb_events :: "'e change_event list"
  rb_head :: nat
  rb_tail :: nat
  rb_size :: nat
  rb_capacity :: nat
  rb_min_token :: uint64

definition zero_event :: "'e change_event" where
  "zero_event = \<lparr>ev_token = 0, ev_operation = 0, ev_dn = [], ev_entry = None, ev_old_dn = [], ev_time = 0\<rparr>"

definition NewRingBuffer :: "int \<Rightarrow> 'e ring_buffer" where
  "NewRingBuffer capacity =
     (let n = (if capacity \<le> 0 then ReplayBufferSize else nat capacity) in
      \<lparr>rb_events = replicate n zero_event, rb_head = 0, rb_tail = 0, rb_size = 0, rb_capacity = n, rb_min_token = 0\<rparr>)"

definition Ring_Push :: "'e change_event \<Rightarrow> 'e ring_buffer \<Rightarrow> 'e ring_buffer" where
  "Ring_Push event rb =
     (let rb = rb \<lparr>rb_events := (rb_events rb)[rb_tail rb := event], rb_tail := (rb_tail rb + 1) mod rb_capacity rb\<rparr> in
      if rb_size rb < rb_capacity rb
      then let rb = rb \<lparr>rb_size := rb_size rb + 1\<rparr> in
        if rb_size rb = 1 then rb \<lparr>rb_min_token := ev_token event\<rparr> else rb
      else let rb = rb \<lparr>rb_head := (rb_head rb + 1) mod rb_capacity rb\<rparr> in
        rb \<lparr>rb_min_token := ev_token (rb_events rb ! rb_head rb)\<rparr>)"

text \<open>The slots of the loop over the buffer, oldest first.\<close>

definition ring_list :: "'e ring_buffer \<Rightarrow> 'e change_event list" where
  "ring_list rb = map (\<lambda>i. rb_events rb ! ((rb_head rb + i) mod rb_capacity rb)) [0..<rb_size rb]"

text \<open>
  \<^verbatim>\<open>EventsSince\<close> starts from a nil slice and appends to it: without an event to append the result
  is nil, as it is for a token that is too old.
\<close>

definition EventsSince :: "'e ring_buffer \<Rightarrow> uint64 \<Rightarrow> 'e change_event list option" where
  "EventsSince rb token =
     (if rb_size rb = 0 then Some []
      else if 0 < token \<and> token < rb_min_token rb then None
      else let result = filter (\<lambda>e. token < ev_token e) (ring_list rb) in
        if result = [] then None else Some result)"

definition Ring_MinToken :: "'e ring_buffer \<Rightarrow> uint64" where
  "Ring_MinToken rb = (if rb_size rb = 0 then 0 else rb_min_token rb)"

definition Ring_MaxToken :: "'e ring_buffer \<Rightarrow> uint64" where
  "Ring_MaxToken rb =
     (if rb_size rb = 0 then 0
      else ev_token (rb_events rb ! ((rb_tail rb + rb_capacity rb - 1) mod rb_capacity rb)))"

definition Ring_Clear :: "'e ring_buffer \<Rightarrow> 'e ring_buffer" where
  "Ring_Clear rb = rb \<lparr>rb_head := 0, rb_tail := 0, rb_size := 0, rb_min_token := 0\<rparr>"

section \<open>Subscribers\<close>

record 'e subscriber =
  sub_id :: uint64
  sub_filter :: watch_filter
  sub_channel :: "'e change_event list"
  sub_room :: nat
  sub_dropped :: uint64
  sub_closed :: bool

definition NewSubscriber :: "uint64 \<Rightarrow> watch_filter \<Rightarrow> int \<Rightarrow> 'e subscriber" where
  "NewSubscriber sid f bufferSize =
     \<lparr>sub_id = sid, sub_filter = f, sub_channel = [],
      sub_room = (if bufferSize \<le> 0 then DefaultBufferSize else nat bufferSize), sub_dropped = 0, sub_closed = False\<rparr>"

text \<open>A send that would block counts the event as dropped.\<close>

definition Sub_Send :: "'e change_event \<Rightarrow> 'e subscriber \<Rightarrow> bool \<times> 'e subscriber" where
  "Sub_Send event s =
     (if sub_closed s then (False, s)
      else if length (sub_channel s) < sub_room s then (True, s \<lparr>sub_channel := sub_channel s @ [event]\<rparr>)
      else (False, s \<lparr>sub_dropped := sub_dropped s + 1\<rparr>))"

definition Sub_Close :: "'e subscriber \<Rightarrow> 'e subscriber" where
  "Sub_Close s = s \<lparr>sub_closed := True\<rparr>"

definition ResetDropped :: "'e subscriber \<Rightarrow> uint64 \<times> 'e subscriber" where
  "ResetDropped s = (sub_dropped s, s \<lparr>sub_dropped := 0\<rparr>)"

section \<open>The broker\<close>

record 'e broker =
  bk_subscribers :: "(uint64 \<times> 'e subscriber) list"
  bk_next_id :: uint64
  bk_count :: int
  bk_replay :: "'e ring_buffer"
  bk_next_token :: uint64
  bk_closed :: bool

datatype stream_error = ErrTokenTooOld | ErrBrokerClosed

definition NewBroker :: "'e broker" where
  "NewBroker = \<lparr>bk_subscribers = [], bk_next_id = 0, bk_count = 0,
     bk_replay = NewRingBuffer (int ReplayBufferSize), bk_next_token = 0, bk_closed = False\<rparr>"

text \<open>The subscriber is shared with the broker; its identifier is returned for it.\<close>

definition Subscribe :: "watch_filter \<Rightarrow> 'e broker \<Rightarrow> uint64 option \<times> 'e broker" where
  "Subscribe f b =
     (if bk_closed b then (None, b)
      else let sid = bk_next_id b + 1 in
        (Some sid, b \<lparr>bk_next_id := sid,
           bk_subscribers := AList.update sid (NewSubscriber sid f (int DefaultBufferSize)) (bk_subscribers b),
           bk_count := bk_count b + 1\<rparr>))"

definition update_sub :: "uint64 \<Rightarrow> ('e subscriber \<Rightarrow> 'e subscriber) \<Rightarrow> 'e broker \<Rightarrow> 'e broker" where
  "update_sub sid g b =
     b \<lparr>bk_subscribers := map (\<lambda>(i, s). if i = sid then (i, g s) else (i, s)) (bk_subscribers b)\<rparr>"

definition SubscribeWithResume ::
    "unicode \<Rightarrow> watch_filter \<Rightarrow> uint64 \<Rightarrow> 'e broker \<Rightarrow> (stream_error, uint64) outcome \<times> 'e broker" where
  "SubscribeWithResume U f token b =
     (if bk_closed b then (Fail ErrBrokerClosed, b)
      else case EventsSince (bk_replay b) token of
          None \<Rightarrow> (Fail ErrTokenTooOld, b)
        | Some events \<Rightarrow>
            (case Subscribe f b of
               (None, b) \<Rightarrow> (Fail ErrBrokerClosed, b)
             | (Some sid, b) \<Rightarrow>
                 (Ok sid, update_sub sid (fold (\<lambda>event s. snd (Sub_Send event s)) (filter (Matches U f) events)) b)))"

text \<open>The subscribers that are closed leave the broker and are returned: their readers still hold them.\<close>

definition Unsubscribe :: "uint64 \<Rightarrow> 'e broker \<Rightarrow> 'e subscriber option \<times> 'e broker" where
  "Unsubscribe sid b =
     (case map_of (bk_subscribers b) sid of
        None \<Rightarrow> (None, b)
      | Some s \<Rightarrow> (Some (Sub_Close s), b \<lparr>bk_subscribers := AList.delete sid (bk_subscribers b), bk_count := bk_count b - 1\<rparr>))"

definition Publish :: "unicode \<Rightarrow> int \<Rightarrow> 'e change_event \<Rightarrow> 'e broker \<Rightarrow> 'e broker" where
  "Publish U now event b =
     (if bk_closed b then b
      else let token = bk_next_token b + 1; event = event \<lparr>ev_token := token, ev_time := now\<rparr>;
               b' = b \<lparr>bk_next_token := token, bk_replay := Ring_Push event (bk_replay b)\<rparr> in
        if bk_count b = 0 then b'
        else b' \<lparr>bk_subscribers :=
               map (\<lambda>(i, s). (i, if Matches U (sub_filter s) event then snd (Sub_Send event s) else s)) (bk_subscribers b)\<rparr>)"

definition HasSubscribers :: "'e broker \<Rightarrow> bool" where
  "HasSubscribers b = (0 < bk_count b)"

definition Broker_Close :: "'e broker \<Rightarrow> 'e subscriber list \<times> 'e broker" where
  "Broker_Close b =
     (if bk_closed b then ([], b)
      else (map (Sub_Close \<circ> snd) (bk_subscribers b), b \<lparr>bk_closed := True, bk_subscribers := [], bk_count := 0\<rparr>))"

end
