(* ===== verification/Stream_Props.thy ===== *)
theory Stream_Props
  imports Change_Stream "HOL-Library.Sublist"
begin

text \<open>
  Correctness of change streams: the ring buffer holds the last events that were pushed, the broker
  numbers events without gaps, and what a subscriber that resumes receives.
\<close>

section \<open>The ring buffer as a bounded queue\<close>

definition ring_ok :: "'e ring_buffer \<Rightarrow> bool" where
  "ring_ok rb \<longleftrightarrow> 0 < rb_capacity rb \<and> length (rb_events rb) = rb_capacity rb \<and> rb_size rb \<le> rb_capacity rb \<and>
     rb_head rb < rb_capacity rb \<and> rb_tail rb = (rb_head rb + rb_size rb) mod rb_capacity rb \<and>
     (0 < rb_size rb \<longrightarrow> rb_min_token rb = ev_token (hd (ring_list rb)))"

lemma length_ring_list [simp]: "length (ring_list rb) = rb_size rb"
  by (simp add: ring_list_def)

lemma ring_list_nth: "i < rb_size rb \<Longrightarrow> ring_list rb ! i = rb_events rb ! ((rb_head rb + i) mod rb_capacity rb)"
  by (simp add: ring_list_def)

lemma ring_ok_New: "ring_ok (NewRingBuffer n) \<and> ring_list (NewRingBuffer n) = []"
  by (simp add: ring_ok_def NewRingBuffer_def Let_def ring_list_def ReplayBufferSize_def)

lemma ring_slot:
  assumes "i < n" and "j < n" and "n \<le> (cap :: nat)" and "(h + i) mod cap = (h + j) mod cap"
  shows "i = j"
proof -
  have *: "i = j" if "i \<le> j" "i < n" "j < n" "(h + i) mod cap = (h + j) mod cap" for i j
  proof -
    have "cap dvd (h + j) - (h + i)"
      using that(4) by (metis mod_eq_dvd_iff_nat add_left_mono that(1))
    then have "cap dvd j - i" by simp
    moreover have "j - i < cap" using that(3) assms(3) by simp
    ultimately have "j - i = 0" using nat_dvd_not_less by blast
    then show ?thesis using that(1) by simp
  qed
  show ?thesis using *[of i j] *[of j i] assms by (cases "i \<le> j") auto
qed

lemma Ring_Push_room:
  assumes "ring_ok rb" and "rb_size rb < rb_capacity rb"
  shows "ring_list (Ring_Push e rb) = ring_list rb @ [e] \<and> ring_ok (Ring_Push e rb)"
proof -
  let ?rb = "Ring_Push e rb" and ?c = "rb_capacity rb" and ?n = "rb_size rb"
  have new: "rb_events ?rb = (rb_events rb)[(rb_head rb + ?n) mod ?c := e]" "rb_head ?rb = rb_head rb" "rb_size ?rb = Suc ?n"
    "rb_capacity ?rb = ?c" "rb_tail ?rb = (rb_head rb + Suc ?n) mod ?c"
    "rb_min_token ?rb = (if ?n = 0 then ev_token e else rb_min_token rb)"
    using assms by (auto simp: Ring_Push_def Let_def ring_ok_def mod_Suc_eq)
  have l: "ring_list ?rb = ring_list rb @ [e]"
  proof (rule nth_equalityI)
    fix i assume i: "i < length (ring_list ?rb)"
    show "ring_list ?rb ! i = (ring_list rb @ [e]) ! i"
    proof (cases "i < ?n")
      case True
      then have "(rb_head rb + i) mod ?c \<noteq> (rb_head rb + ?n) mod ?c"
        using ring_slot [of i "Suc ?n" ?n ?c "rb_head rb"] assms(2) by auto
      with True show ?thesis
        by (simp add: ring_list_nth new nth_append)
    next
      case False
      then have "i = ?n" using i new(3) by simp
      moreover have "(rb_head rb + ?n) mod ?c < length (rb_events rb)"
        using assms(1) by (simp add: ring_ok_def)
      ultimately show ?thesis
        by (simp add: ring_list_nth new nth_append)
    qed
  qed (simp add: new)
  moreover have "0 < ?n \<Longrightarrow> hd (ring_list rb @ [e]) = hd (ring_list rb)"
    using length_ring_list [of rb] by (cases "ring_list rb") auto
  moreover have "?n = 0 \<Longrightarrow> ring_list rb = []"
    by (simp add: ring_list_def)
  ultimately show ?thesis
    using assms unfolding ring_ok_def by (auto simp: new)
qed

lemma Ring_Push_full:
  assumes "ring_ok rb" and "rb_size rb = rb_capacity rb"
  shows "ring_list (Ring_Push e rb) = tl (ring_list rb) @ [e] \<and> ring_ok (Ring_Push e rb)"
proof -
  let ?rb = "Ring_Push e rb" and ?c = "rb_capacity rb"
  have c: "0 < ?c" "rb_head rb < ?c" using assms(1) by (simp_all add: ring_ok_def)
  have new: "rb_events ?rb = (rb_events rb)[rb_head rb := e]" "rb_head ?rb = Suc (rb_head rb) mod ?c" "rb_size ?rb = ?c"
    "rb_capacity ?rb = ?c" "rb_tail ?rb = Suc (rb_head rb) mod ?c"
    "rb_min_token ?rb = ev_token ((rb_events rb)[rb_head rb := e] ! (Suc (rb_head rb) mod ?c))"
    using assms by (auto simp: Ring_Push_def Let_def ring_ok_def)
  have l: "ring_list ?rb = tl (ring_list rb) @ [e]"
  proof (rule nth_equalityI)
    fix i assume "i < length (ring_list ?rb)"
    then have i: "i < ?c" by (simp add: new)
    have slot: "ring_list ?rb ! i = (rb_events rb)[rb_head rb := e] ! ((rb_head rb + Suc i) mod ?c)"
      using i by (simp add: ring_list_nth new mod_simps)
    show "ring_list ?rb ! i = (tl (ring_list rb) @ [e]) ! i"
    proof (cases "Suc i < ?c")
      case True
      then have "(rb_head rb + Suc i) mod ?c \<noteq> rb_head rb"
        using ring_slot [of "Suc i" ?c 0 ?c "rb_head rb"] c by auto
      with True slot assms(2) show ?thesis
        by (simp add: nth_append nth_tl ring_list_nth)
    next
      case False
      then have "Suc i = ?c" using i by simp
      then have "(rb_head rb + Suc i) mod ?c = rb_head rb" "i = length (tl (ring_list rb))"
        using c assms(2) by simp_all
      moreover have "rb_head rb < length (rb_events rb)"
        using assms(1) by (simp add: ring_ok_def)
      ultimately show ?thesis
        using slot by (simp add: nth_append)
    qed
  qed (use c assms(2) in \<open>simp add: new\<close>)
  moreover have "ev_token (hd (ring_list ?rb)) = rb_min_token ?rb"
  proof -
    have "ring_list ?rb \<noteq> []" using c length_ring_list [of ?rb] new(3) by (metis length_0_conv less_irrefl)
    then show ?thesis
      using c by (simp add: hd_conv_nth ring_list_nth new)
  qed
  ultimately show ?thesis
    using assms c unfolding ring_ok_def by (simp add: new)
qed

text \<open>Pushing drops the oldest event when the buffer is full.\<close>

lemma Ring_Push_list:
  assumes "ring_ok rb"
  shows "ring_ok (Ring_Push e rb) \<and> rb_capacity (Ring_Push e rb) = rb_capacity rb \<and>
    ring_list (Ring_Push e rb) = drop (Suc (rb_size rb) - rb_capacity rb) (ring_list rb @ [e])"
proof (cases "rb_size rb < rb_capacity rb")
  case True
  then show ?thesis
    using Ring_Push_room [OF assms True, of e] by (auto simp: Ring_Push_def Let_def)
next
  case False
  then have full: "rb_size rb = rb_capacity rb"
    using assms by (simp add: ring_ok_def)
  moreover obtain x xs where "ring_list rb = x # xs"
    using assms full length_ring_list [of rb] unfolding ring_ok_def by (cases "ring_list rb") auto
  moreover have "rb_capacity (Ring_Push e rb) = rb_capacity rb"
    by (simp add: Ring_Push_def Let_def)
  ultimately show ?thesis
    using Ring_Push_full [OF assms full, of e] by simp
qed

section \<open>The broker\<close>

text \<open>
  The calls on a broker and, in \<open>SReceive\<close>, the reader of a subscriber's channel, in the order in which
  they take effect. The state has the broker, the history of the published events, and what each
  subscriber received.
\<close>

datatype 'e stream_op =
    SPublish int "'e change_event"
  | SSubscribe watch_filter
  | SResume watch_filter uint64
  | SUnsubscribe uint64
  | SReceive uint64

record 'e stream_state =
  st_hist :: "'e change_event list"
  st_broker :: "'e broker"
  st_got :: "(uint64 \<times> 'e change_event) list"

fun stream_step :: "unicode \<Rightarrow> 'e stream_op \<Rightarrow> 'e stream_state \<Rightarrow> 'e stream_state" where
  "stream_step U (SPublish now e) st =
     st \<lparr>st_hist := st_hist st @ [e \<lparr>ev_token := bk_next_token (st_broker st) + 1, ev_time := now\<rparr>],
         st_broker := Publish U now e (st_broker st)\<rparr>"
| "stream_step U (SSubscribe f) st = st \<lparr>st_broker := snd (Subscribe f (st_broker st))\<rparr>"
| "stream_step U (SResume f t) st = st \<lparr>st_broker := snd (SubscribeWithResume U f t (st_broker st))\<rparr>"
| "stream_step U (SUnsubscribe i) st = st \<lparr>st_broker := snd (Unsubscribe i (st_broker st))\<rparr>"
| "stream_step U (SReceive i) st =
     (case map_of (bk_subscribers (st_broker st)) i of
        None \<Rightarrow> st
      | Some s \<Rightarrow>
          (case sub_channel s of
             [] \<Rightarrow> st
           | e # rest \<Rightarrow>
               st \<lparr>st_broker := update_sub i (\<lambda>s. s \<lparr>sub_channel := rest\<rparr>) (st_broker st),
                   st_got := st_got st @ [(i, e)]\<rparr>))"

definition stream_init :: "'e stream_state" where
  "stream_init = \<lparr>st_hist = [], st_broker = NewBroker, st_got = []\<rparr>"

definition stream_run :: "unicode \<Rightarrow> 'e stream_op list \<Rightarrow> 'e stream_state" where
  "stream_run U ops = fold (stream_step U) ops stream_init"

definition received :: "uint64 \<Rightarrow> 'e stream_state \<Rightarrow> 'e change_event list" where
  "received sid st = map snd (filter (\<lambda>(i, e). i = sid) (st_got st))"

definition broker_ok :: "'e change_event list \<Rightarrow> 'e broker \<Rightarrow> bool" where
  "broker_ok hist b \<longleftrightarrow>
     \<not> bk_closed b \<and> ring_ok (bk_replay b) \<and> rb_capacity (bk_replay b) = ReplayBufferSize \<and>
     bk_next_token b = of_nat (length hist) \<and>
     map ev_token hist = map of_nat [1..<Suc (length hist)] \<and>
     ring_list (bk_replay b) = drop (length hist - ReplayBufferSize) hist"

lemma broker_ok_New: "broker_ok [] NewBroker"
  using ring_ok_New [of "int ReplayBufferSize"]
  by (simp add: broker_ok_def NewBroker_def) (simp add: NewRingBuffer_def ReplayBufferSize_def)

lemma broker_size: "broker_ok hist b \<Longrightarrow> rb_size (bk_replay b) = min (length hist) ReplayBufferSize"
  using length_ring_list [of "bk_replay b"] by (auto simp: broker_ok_def simp del: length_ring_list)

lemma broker_ok_Publish:
  assumes "broker_ok hist b"
  shows "broker_ok (hist @ [e \<lparr>ev_token := bk_next_token b + 1, ev_time := now\<rparr>]) (Publish U now e b)"
proof -
  let ?e = "e \<lparr>ev_token := bk_next_token b + 1, ev_time := now\<rparr>" and ?rb = "bk_replay b"
  have ok: "ring_ok ?rb" "ring_list ?rb = drop (length hist - ReplayBufferSize) hist" "rb_capacity ?rb = ReplayBufferSize"
    using assms by (simp_all add: broker_ok_def)
  have kept: "drop (Suc (rb_size ?rb) - ReplayBufferSize) (ring_list ?rb @ [?e]) =
      drop (Suc (length hist) - ReplayBufferSize) (hist @ [?e])"
  proof (cases "length hist < ReplayBufferSize")
    case True
    then show ?thesis using ok(2) broker_size [OF assms] by simp
  next
    case False
    then have "Suc (rb_size ?rb) - ReplayBufferSize = 1" "Suc (length hist) - ReplayBufferSize = Suc (length hist - ReplayBufferSize)"
      using broker_size [OF assms] by (simp_all add: ReplayBufferSize_def)
    moreover have "length hist - ReplayBufferSize < length hist"
      using False by (simp add: ReplayBufferSize_def)
    ultimately show ?thesis using ok(2) by (simp add: drop_Suc tl_drop)
  qed
  have pushed: "ring_ok (Ring_Push ?e ?rb)" "rb_capacity (Ring_Push ?e ?rb) = ReplayBufferSize"
    "ring_list (Ring_Push ?e ?rb) = drop (Suc (length hist) - ReplayBufferSize) (hist @ [?e])"
    using Ring_Push_list [OF ok(1), of ?e] ok(3) kept by (simp_all only: simp_thms)
  moreover have "bk_replay (Publish U now e b) = Ring_Push ?e ?rb" "bk_next_token (Publish U now e b) = bk_next_token b + 1"
    "\<not> bk_closed (Publish U now e b)"
    using assms by (simp_all add: broker_ok_def Publish_def Let_def)
  ultimately show ?thesis
    using assms by (simp add: broker_ok_def del: drop_append)
qed

lemma broker_ok_cong:
  "broker_ok hist b \<Longrightarrow> bk_closed b' = bk_closed b \<Longrightarrow> bk_replay b' = bk_replay b \<Longrightarrow>
     bk_next_token b' = bk_next_token b \<Longrightarrow> broker_ok hist b'"
  by (simp add: broker_ok_def)

lemma broker_ok_step:
  assumes ok: "broker_ok (st_hist st) (st_broker st)"
  shows "broker_ok (st_hist (stream_step U a st)) (st_broker (stream_step U a st))"
proof (cases a)
  case (SPublish now e)
  then show ?thesis using broker_ok_Publish [OF ok] by simp
next
  case (SSubscribe f)
  have "broker_ok (st_hist st) (snd (Subscribe f (st_broker st)))"
    using ok by (rule broker_ok_cong) (simp_all add: Subscribe_def Let_def)
  then show ?thesis using SSubscribe by simp
next
  case (SResume f t)
  have "broker_ok (st_hist st) (snd (SubscribeWithResume U f t (st_broker st)))"
    using ok by (rule broker_ok_cong)
      (auto simp: SubscribeWithResume_def Subscribe_def Let_def update_sub_def split: option.splits)
  then show ?thesis using SResume by simp
next
  case (SUnsubscribe i)
  have "broker_ok (st_hist st) (snd (Unsubscribe i (st_broker st)))"
    using ok by (rule broker_ok_cong) (simp_all add: Unsubscribe_def split: option.splits)
  then show ?thesis using SUnsubscribe by simp
next
  case (SReceive i)
  have "broker_ok (st_hist st) (update_sub i g (st_broker st))" for g
    using ok by (rule broker_ok_cong) (simp_all add: update_sub_def)
  then show ?thesis using SReceive ok by (simp split: option.split list.split)
qed

lemma broker_ok_run: "broker_ok (st_hist (stream_run U ops)) (st_broker (stream_run U ops))"
proof -
  have "broker_ok (st_hist (fold (stream_step U) ops st)) (st_broker (fold (stream_step U) ops st))"
    if "broker_ok (st_hist st) (st_broker st)" for st
    using that by (induction ops arbitrary: st) (simp_all add: broker_ok_step)
  then show ?thesis
    by (simp add: stream_run_def stream_init_def broker_ok_New)
qed

section \<open>Resuming\<close>

lemma unat_count: "n < 2 ^ 64 \<Longrightarrow> unat (of_nat n :: uint64) = n"
  by (simp add: unsigned_of_nat take_bit_nat_eq_self)

lemma filter_newer:
  assumes "map ev_token xs = map of_nat [a..<a + length xs]" and "a + length xs \<le> 2 ^ 64"
  shows "filter (\<lambda>e. (t :: uint64) < ev_token e) xs = drop (Suc (unat t) - a) xs"
  using assms
proof (induction xs arbitrary: a)
  case (Cons x xs)
  have x: "ev_token x = of_nat a" and xs: "map ev_token xs = map of_nat [Suc a..<Suc a + length xs]"
    using Cons.prems(1) by (simp_all add: upt_conv_Cons del: upt_Suc)
  have "unat (ev_token x) = a"
    using Cons.prems(2) by (simp add: x unat_count)
  then have "t < ev_token x \<longleftrightarrow> unat t < a"
    by (simp add: word_less_nat_alt)
  moreover have "filter (\<lambda>e. t < ev_token e) xs = drop (Suc (unat t) - Suc a) xs"
    using Cons.IH [OF xs] Cons.prems(2) by simp
  ultimately show ?case
    by (cases "unat t < a") (simp_all add: Suc_diff_le)
qed simp

lemma broker_EventsSince:
  assumes ok: "broker_ok hist b" and small: "length hist < 2 ^ 64"
  defines "m \<equiv> length hist - ReplayBufferSize"
  shows "EventsSince (bk_replay b) t =
    (if hist = [] then Some []
     else if t = 0 \<or> m < unat t \<and> unat t < length hist then Some (drop (max (unat t) m) hist)
     else None)"
proof (cases "hist = []")
  case True
  then show ?thesis using broker_size [OF ok] by (simp add: EventsSince_def)
next
  case False
  let ?rb = "bk_replay b"
  have m: "m < length hist" using False by (simp add: m_def ReplayBufferSize_def)
  have l: "ring_list ?rb = drop m hist" using ok by (simp add: broker_ok_def m_def)
  have tok: "map ev_token (drop m hist) = map of_nat [Suc m..<Suc m + length (drop m hist)]"
    using ok m by (simp add: broker_ok_def drop_map [symmetric] del: upt_Suc) (simp add: drop_map drop_upt del: upt_Suc)
  have f: "filter (\<lambda>e. t < ev_token e) (drop m hist) = drop (max (unat t) m) hist"
    using filter_newer [OF tok, of t] small m by (simp add: max_def)
  have size: "rb_size ?rb \<noteq> 0" using broker_size [OF ok] False by (simp add: ReplayBufferSize_def)
  then have "rb_min_token ?rb = ev_token (hd (drop m hist))"
    using ok l by (simp add: broker_ok_def ring_ok_def)
  also have "\<dots> = of_nat (Suc m)"
    using m tok by (cases "drop m hist") (simp_all add: upt_conv_Cons del: upt_Suc of_nat_Suc)
  finally have mintok: "rb_min_token ?rb = of_nat (Suc m)" .
  have "t < of_nat (Suc m) \<longleftrightarrow> unat t < Suc m"
    using m small by (simp add: word_less_nat_alt unat_count del: of_nat_Suc)
  moreover have "EventsSince ?rb t = (if 0 < t \<and> t < of_nat (Suc m) then None
      else if drop (max (unat t) m) hist = [] then None else Some (drop (max (unat t) m) hist))"
    using size by (simp only: EventsSince_def l f mintok Let_def if_False)
  ultimately show ?thesis
    using False m by (auto simp: word_neq_0_conv max_def simp del: of_nat_Suc)
qed

lemma send_all:
  assumes "\<not> sub_closed s" and "length (sub_channel s) \<le> sub_room s"
  shows "fold (\<lambda>event s. snd (Sub_Send event s)) es s =
    s \<lparr>sub_channel := sub_channel s @ take (sub_room s - length (sub_channel s)) es,
       sub_dropped := sub_dropped s + of_nat (length es - (sub_room s - length (sub_channel s)))\<rparr>"
  using assms
proof (induction es arbitrary: s)
  case (Cons e es)
  show ?case
  proof (cases "length (sub_channel s) < sub_room s")
    case True
    then obtain k where "sub_room s = Suc (length (sub_channel s)) + k"
      using less_imp_Suc_add by auto
    then show ?thesis using Cons.prems Cons.IH [of "s \<lparr>sub_channel := sub_channel s @ [e]\<rparr>"]
      by (simp add: Sub_Send_def)
  next
    case False
    then show ?thesis using Cons.prems Cons.IH [of "s \<lparr>sub_dropped := sub_dropped s + 1\<rparr>"]
      by (simp add: Sub_Send_def)
  qed
qed simp

lemma map_of_update_sub:
  "map_of (bk_subscribers (update_sub sid g b)) i =
     (if i = sid then map_option g (map_of (bk_subscribers b) i) else map_of (bk_subscribers b) i)"
proof -
  have "map_of (map (\<lambda>(j, s). if j = sid then (j, g s) else (j, s)) al) i =
      (if i = sid then map_option g (map_of al i) else map_of al i)" for al
    by (induction al) auto
  then show ?thesis by (simp add: update_sub_def)
qed

text \<open>The events that a resumed subscriber has to be sent, among the first \<open>n\<close> published ones.\<close>

definition resume_point :: "uint64 \<Rightarrow> 'e change_event list \<Rightarrow> nat" where
  "resume_point t hist = max (unat t) (length hist - ReplayBufferSize)"

definition resumable :: "uint64 \<Rightarrow> 'e change_event list \<Rightarrow> bool" where
  "resumable t hist \<longleftrightarrow>
     hist = [] \<or> t = 0 \<or> length hist - ReplayBufferSize < unat t \<and> unat t < length hist"

definition resumed_sub :: "unicode \<Rightarrow> watch_filter \<Rightarrow> uint64 \<Rightarrow> 'e change_event list \<Rightarrow> uint64 \<Rightarrow> 'e subscriber" where
  "resumed_sub U f t hist sid =
     (let missed = filter (Matches U f) (drop (resume_point t hist) hist) in
      \<lparr>sub_id = sid, sub_filter = f, sub_channel = take DefaultBufferSize missed, sub_room = DefaultBufferSize,
       sub_dropped = of_nat (length missed - DefaultBufferSize), sub_closed = False\<rparr>)"

lemma resume_broker:
  assumes ok: "broker_ok hist b" and small: "length hist < 2 ^ 64"
  shows "resumable t hist \<Longrightarrow>
      \<exists>g. SubscribeWithResume U f t b = (Ok (bk_next_id b + 1), update_sub (bk_next_id b + 1) g (snd (Subscribe f b))) \<and>
          g (NewSubscriber (bk_next_id b + 1) f (int DefaultBufferSize)) = resumed_sub U f t hist (bk_next_id b + 1)"
    and "\<not> resumable t hist \<Longrightarrow> SubscribeWithResume U f t b = (Fail ErrTokenTooOld, b)"
proof -
  let ?sid = "bk_next_id b + 1" and ?es = "filter (Matches U f) (drop (resume_point t hist) hist)"
  let ?g = "fold (\<lambda>event s. snd (Sub_Send event s)) ?es"
  have ev: "EventsSince (bk_replay b) t =
      (if resumable t hist then Some (drop (resume_point t hist) hist) else None)"
    using broker_EventsSince [OF ok small, of t] by (auto simp: resumable_def resume_point_def)
  have "?g (NewSubscriber ?sid f (int DefaultBufferSize)) = resumed_sub U f t hist ?sid"
    by (subst send_all) (simp_all add: NewSubscriber_def resumed_sub_def DefaultBufferSize_def Let_def)
  moreover have "resumable t hist \<Longrightarrow> SubscribeWithResume U f t b = (Ok ?sid, update_sub ?sid ?g (snd (Subscribe f b)))"
    using ok by (simp add: SubscribeWithResume_def ev Subscribe_def broker_ok_def Let_def)
  ultimately show "resumable t hist \<Longrightarrow>
      \<exists>g. SubscribeWithResume U f t b = (Ok ?sid, update_sub ?sid g (snd (Subscribe f b))) \<and>
          g (NewSubscriber ?sid f (int DefaultBufferSize)) = resumed_sub U f t hist ?sid"
    by blast
  show "\<not> resumable t hist \<Longrightarrow> SubscribeWithResume U f t b = (Fail ErrTokenTooOld, b)"
    using ok by (simp add: SubscribeWithResume_def ev broker_ok_def)
qed

lemma Subscribe_map_of:
  "\<not> bk_closed b \<Longrightarrow> map_of (bk_subscribers (snd (Subscribe f b))) =
     (map_of (bk_subscribers b))(bk_next_id b + 1 \<mapsto> NewSubscriber (bk_next_id b + 1) f (int DefaultBufferSize))"
  by (simp add: Subscribe_def Let_def update_conv')

lemma Publish_sel [simp]:
  assumes "\<not> bk_closed b"
  shows "bk_next_token (Publish U now e b) = bk_next_token b + 1" and "\<not> bk_closed (Publish U now e b)"
    and "bk_next_id (Publish U now e b) = bk_next_id b"
  using assms by (simp_all add: Publish_def Let_def)

lemma NewBroker_sel [simp]: "bk_next_token NewBroker = 0" "\<not> bk_closed NewBroker" "bk_next_id NewBroker = 0"
  by (simp_all add: NewBroker_def)

definition three_changes :: "unit stream_op list" where
  "three_changes = map (\<lambda>d. SPublish 0 (zero_event \<lparr>ev_dn := d\<rparr>)) [lit ''cn=a'', lit ''cn=b'', lit ''cn=c'']"

lemma three_changes_run:
  "st_hist (stream_run U three_changes) =
     [zero_event \<lparr>ev_token := 1, ev_dn := lit ''cn=a''\<rparr>, zero_event \<lparr>ev_token := 2, ev_dn := lit ''cn=b''\<rparr>,
      zero_event \<lparr>ev_token := 3, ev_dn := lit ''cn=c''\<rparr>]"
  "bk_next_id (st_broker (stream_run U three_changes)) = 0"
  by (simp_all add: stream_run_def three_changes_def stream_init_def zero_event_def)

text \<open>
  C10. After any sequence of calls, resuming after event \<open>t\<close> is refused with \<^verbatim>\<open>ErrTokenTooOld\<close> and leaves
  the broker as it was, unless nothing was ever published, \<open>t\<close> is 0, or event \<open>t\<close> is still in the replay
  buffer of 4096 events and is not the last one. Otherwise the new subscriber's channel has the matching
  events after \<open>t\<close> (all those of the buffer when \<open>t\<close> is 0), in order, up to the 256 that it has room
  for, the others are counted as dropped, and no other subscriber is touched. In particular a client that is up to date cannot resume.
\<close>

theorem resume_is_exact:
  fixes U :: unicode and ops :: "'e stream_op list"
  defines "st \<equiv> stream_run U ops"
  assumes "length (st_hist st) < 2 ^ 64"
  shows "let (r, b') = SubscribeWithResume U f t (st_broker st); sid = bk_next_id (st_broker st) + 1 in
    if resumable t (st_hist st)
    then r = Ok sid \<and> map_of (bk_subscribers b') =
      (map_of (bk_subscribers (st_broker st)))(sid \<mapsto> resumed_sub U f t (st_hist st) sid)
    else r = Fail ErrTokenTooOld \<and> b' = st_broker st"
proof -
  have ok: "broker_ok (st_hist st) (st_broker st)"
    by (simp add: st_def broker_ok_run)
  then have "\<not> bk_closed (st_broker st)" by (simp add: broker_ok_def)
  note sub = Subscribe_map_of [OF this, of f]
  show ?thesis
    using resume_broker [OF ok assms(2), of t U f]
    by (cases "resumable t (st_hist st)") (auto simp: map_of_update_sub sub fun_eq_iff)
qed

theorem resume_is_exact_witness:
  "let b = st_broker (stream_run plain_unicode three_changes);
       (r, b') = SubscribeWithResume plain_unicode MatchAll 1 b in
     r = Ok 1 \<and> map_option (\<lambda>s. map ev_token (sub_channel s)) (map_of (bk_subscribers b') 1) = Some [2, 3] \<and>
     SubscribeWithResume plain_unicode MatchAll 3 b = (Fail ErrTokenTooOld, b)"
proof -
  let ?st = "stream_run plain_unicode three_changes"
  have hist: "length (st_hist ?st) < 2 ^ 64" "resumable 1 (st_hist ?st)" "\<not> resumable 3 (st_hist ?st)"
    "map ev_token (sub_channel (resumed_sub plain_unicode MatchAll 1 (st_hist ?st) 1)) = [2, 3]"
    by (simp_all add: three_changes_run resumable_def ReplayBufferSize_def resumed_sub_def resume_point_def
        DefaultBufferSize_def Matches_def MatchAll_def)
  show ?thesis
    using resume_is_exact [OF hist(1), of MatchAll 1] resume_is_exact [OF hist(1), of MatchAll 3] hist
    by (auto simp: Let_def three_changes_run split: prod.splits)
qed

section \<open>Streams without gaps\<close>

definition stream_inv :: "nat \<Rightarrow> 'e stream_state \<Rightarrow> bool" where
  "stream_inv n st \<longleftrightarrow>
     (let b = st_broker st in
      broker_ok (st_hist st) b \<and> length (st_hist st) \<le> n \<and> unat (bk_next_id b) \<le> n \<and>
      distinct (map fst (bk_subscribers b)) \<and> bk_count b = int (length (bk_subscribers b)) \<and>
      list_all (\<lambda>i. unat i \<le> unat (bk_next_id b)) (map fst (bk_subscribers b)) \<and>
      list_all (\<lambda>i. unat i \<le> unat (bk_next_id b)) (map fst (st_got st)))"

lemma AList_update_fresh: "k \<notin> fst ` set al \<Longrightarrow> AList.update k v al = al @ [(k, v)]"
  by (induction al) auto

lemma AList_delete_one:
  "distinct (map fst al) \<Longrightarrow> map_of al k = Some v \<Longrightarrow> Suc (length (AList.delete k al)) = length al"
proof (induction al)
  case (Cons x al)
  have "k \<notin> fst ` set xs \<Longrightarrow> AList.delete k xs = xs" for xs :: "('a \<times> 'b) list"
    by (induction xs) auto
  with Cons show ?case by (cases "fst x = k") auto
qed simp

lemma map_fst_update_sub [simp]: "map fst (bk_subscribers (update_sub sid g b)) = map fst (bk_subscribers b)"
  by (simp add: update_sub_def case_prod_beta' comp_def if_distrib)

lemma update_sub_sel [simp]:
  "bk_next_id (update_sub sid g b) = bk_next_id b" "bk_count (update_sub sid g b) = bk_count b"
  by (simp_all add: update_sub_def)

lemma map_fst_Publish [simp]: "map fst (bk_subscribers (Publish U now e b)) = map fst (bk_subscribers b)"
  by (simp add: Publish_def Let_def comp_def case_prod_beta')

lemma stream_inv_same:
  assumes "stream_inv n st" and "broker_ok (st_hist st') (st_broker st')" and "length (st_hist st') \<le> Suc n"
    and "map fst (bk_subscribers (st_broker st')) = map fst (bk_subscribers (st_broker st))"
    and "bk_next_id (st_broker st') = bk_next_id (st_broker st)" and "bk_count (st_broker st') = bk_count (st_broker st)"
    and "\<And>i. i \<in> set (map fst (st_got st')) \<Longrightarrow> i \<in> set (map fst (bk_subscribers (st_broker st))) \<union> set (map fst (st_got st))"
  shows "stream_inv (Suc n) st'"
proof -
  have "length (bk_subscribers (st_broker st')) = length (bk_subscribers (st_broker st))"
    using arg_cong [OF assms(4), of length] by simp
  moreover have "list_all (\<lambda>i. unat i \<le> unat (bk_next_id (st_broker st))) (map fst (st_got st'))"
    using assms(1,7) unfolding stream_inv_def Let_def list_all_iff by blast
  ultimately show ?thesis
    using assms(1-6) by (simp add: stream_inv_def Let_def)
qed

text \<open>Identifiers do not wrap, so a new subscriber has one that was never used.\<close>

lemma stream_inv_fresh:
  assumes "stream_inv n st" and "Suc n < 2 ^ 64"
  shows "unat (bk_next_id (st_broker st) + 1) = Suc (unat (bk_next_id (st_broker st)))"
    and "bk_next_id (st_broker st) + 1 \<notin> fst ` set (bk_subscribers (st_broker st)) \<union> fst ` set (st_got st)"
proof -
  let ?i = "bk_next_id (st_broker st)"
  have "Suc (unat ?i) < 2 ^ 64"
    using assms by (simp add: stream_inv_def Let_def)
  moreover have "?i + 1 = of_nat (Suc (unat ?i))" by simp
  ultimately show succ: "unat (?i + 1) = Suc (unat ?i)"
    by (simp only: unat_count)
  have old: "unat i \<le> unat ?i" if "i \<in> fst ` set (bk_subscribers (st_broker st)) \<union> fst ` set (st_got st)" for i
    using assms(1) that by (auto simp: stream_inv_def Let_def list_all_iff)
  show "?i + 1 \<notin> fst ` set (bk_subscribers (st_broker st)) \<union> fst ` set (st_got st)"
    using old [of "?i + 1"] succ by auto
qed

lemma Subscribe_fresh:
  assumes "stream_inv n st" and "Suc n < 2 ^ 64"
  defines "b \<equiv> st_broker st"
  shows "snd (Subscribe f b) = b \<lparr>bk_next_id := bk_next_id b + 1,
      bk_subscribers := bk_subscribers b @ [(bk_next_id b + 1, NewSubscriber (bk_next_id b + 1) f (int DefaultBufferSize))],
      bk_count := bk_count b + 1\<rparr>"
proof -
  have "\<not> bk_closed b" using assms(1) by (simp add: stream_inv_def b_def Let_def broker_ok_def)
  moreover have "bk_next_id b + 1 \<notin> fst ` set (bk_subscribers b)"
    using stream_inv_fresh(2) [OF assms(1,2)] by (simp add: b_def)
  ultimately show ?thesis
    by (simp add: Subscribe_def Let_def AList_update_fresh)
qed

lemma stream_inv_Subscribe:
  assumes inv: "stream_inv n st" and n: "Suc n < 2 ^ 64"
    and ok: "broker_ok (st_hist st) b'" and keys: "map fst (bk_subscribers b') = map fst (bk_subscribers b1)"
    and same: "bk_next_id b' = bk_next_id b1" "bk_count b' = bk_count b1"
    and b1: "b1 = snd (Subscribe f (st_broker st))"
  shows "stream_inv (Suc n) (st \<lparr>st_broker := b'\<rparr>)"
proof -
  let ?b = "st_broker st" let ?sid = "bk_next_id ?b + 1"
  note fresh = stream_inv_fresh [OF inv n]
  have new: "map fst (bk_subscribers b') = map fst (bk_subscribers ?b) @ [?sid]" "bk_next_id b' = ?sid"
    "bk_count b' = bk_count ?b + 1"
    by (simp_all add: keys same b1 Subscribe_fresh [OF inv n])
  have "length (bk_subscribers b') = Suc (length (bk_subscribers ?b))"
    using arg_cong [OF new(1), of length] by simp
  moreover have "list_all (\<lambda>i. unat i \<le> Suc m) xs" if "list_all (\<lambda>i. unat i \<le> m) xs" for m and xs :: "uint64 list"
    using that by (auto simp: list_all_iff)
  ultimately show ?thesis
    using inv ok fresh by (simp add: stream_inv_def Let_def new)
qed

lemma stream_inv_step:
  assumes inv: "stream_inv n st" and n: "Suc n < 2 ^ 64"
  shows "stream_inv (Suc n) (stream_step U a st)"
proof -
  let ?b = "st_broker st"
  have ok: "broker_ok (st_hist st) ?b" and len: "length (st_hist st) \<le> n" and dist: "distinct (map fst (bk_subscribers ?b))"
    using inv by (simp_all add: stream_inv_def Let_def)
  note ok' = broker_ok_step [OF ok, of U a]
  show ?thesis
  proof (cases a)
    case (SPublish now e)
    then show ?thesis using ok ok' len
      by (intro stream_inv_same [OF inv]) (simp_all add: broker_ok_def, simp add: Publish_def Let_def)
  next
    case (SSubscribe f)
    then show ?thesis using ok' stream_inv_Subscribe [OF inv n] by simp
  next
    case (SResume f t)
    have small: "length (st_hist st) < 2 ^ 64" using len n by simp
    show ?thesis
    proof (cases "resumable t (st_hist st)")
      case True
      then obtain g where "snd (SubscribeWithResume U f t ?b) = update_sub (bk_next_id ?b + 1) g (snd (Subscribe f ?b))"
        using resume_broker(1) [OF ok small, of t U f] by auto
      then show ?thesis
        using ok' SResume stream_inv_Subscribe [OF inv n _ map_fst_update_sub _ _ refl] by simp
    next
      case False
      from resume_broker(2) [OF ok small this, of U f] SResume len ok show ?thesis
        by (auto intro!: stream_inv_same [OF inv])
    qed
  next
    case (SUnsubscribe i)
    show ?thesis
    proof (cases "map_of (bk_subscribers ?b) i")
      case None
      then show ?thesis using SUnsubscribe len ok
        by (auto intro!: stream_inv_same [OF inv] simp: Unsubscribe_def)
    next
      case (Some s)
      from AList_delete_one [OF dist Some] show ?thesis
        using inv ok' SUnsubscribe Some
        by (auto simp: stream_inv_def Let_def Unsubscribe_def distinct_map_filter list_all_iff AList.delete_eq)
    qed
  next
    case (SReceive i)
    then show ?thesis using ok ok' len
      by (auto intro!: stream_inv_same [OF inv] split: option.split list.split simp: rev_image_eqI dest: map_of_SomeD)
  qed
qed

lemma stream_inv_run: "length ops < 2 ^ 64 \<Longrightarrow> stream_inv (length ops) (stream_run U ops)"
proof (induction ops rule: rev_induct)
  case Nil
  show ?case
    by (simp add: stream_run_def stream_inv_def stream_init_def broker_ok_New Let_def) (simp add: NewBroker_def)
next
  case (snoc a ops)
  then show ?case
    using stream_inv_step [of "length ops" "stream_run U ops" U a] by (simp add: stream_run_def)
qed

text \<open>
  What a subscriber received and what waits in its channel is a part, in order, of the matching events
  from number \<open>k\<close> on, and its counter has the number of those that are missing.
\<close>

definition follows :: "unicode \<Rightarrow> watch_filter \<Rightarrow> nat \<Rightarrow> uint64 \<Rightarrow> 'e stream_state \<Rightarrow> bool" where
  "follows U f k sid st \<longleftrightarrow>
     (\<exists>s. map_of (bk_subscribers (st_broker st)) sid = Some s \<and> sub_filter s = f \<and> \<not> sub_closed s \<and>
        k \<le> length (st_hist st) \<and>
        (let seen = received sid st @ sub_channel s; wanted = filter (Matches U f) (drop k (st_hist st)) in
         subseq seen wanted \<and> sub_dropped s = of_nat (length wanted - length seen)))"

lemma follows_same:
  assumes "follows U f k sid st" and "st_hist st' = st_hist st" and "received sid st' = received sid st"
    and "map_of (bk_subscribers (st_broker st')) sid = map_of (bk_subscribers (st_broker st)) sid"
  shows "follows U f k sid st'"
  using assms by (simp add: follows_def)

lemma map_of_Publish:
  assumes "\<not> bk_closed b" and "map_of (bk_subscribers b) sid = Some s" and "bk_count b = int (length (bk_subscribers b))"
    and e': "e' = e \<lparr>ev_token := bk_next_token b + 1, ev_time := now\<rparr>"
  shows "map_of (bk_subscribers (Publish U now e b)) sid = Some (if Matches U (sub_filter s) e' then snd (Sub_Send e' s) else s)"
proof -
  have "map_of (map (\<lambda>(i, s). (i, g s)) al) sid = map_option g (map_of al sid)" for g :: "'a subscriber \<Rightarrow> 'a subscriber" and al
    by (induction al) auto
  moreover have "bk_count b \<noteq> 0" using assms(2,3) by auto
  ultimately show ?thesis
    using assms(1,2) by (simp add: Publish_def Let_def e')
qed

lemma follows_Publish:
  assumes "follows U f k sid st" and "stream_inv n st"
  shows "follows U f k sid (stream_step U (SPublish now e) st)"
proof -
  let ?b = "st_broker st" let ?e = "e \<lparr>ev_token := bk_next_token ?b + 1, ev_time := now\<rparr>"
  let ?st = "stream_step U (SPublish now e) st" and ?w = "filter (Matches U f) (drop k (st_hist st))"
  obtain s where s: "map_of (bk_subscribers ?b) sid = Some s" "sub_filter s = f" "\<not> sub_closed s" "k \<le> length (st_hist st)"
      "subseq (received sid st @ sub_channel s) ?w"
      "sub_dropped s = of_nat (length ?w - length (received sid st @ sub_channel s))"
    using assms(1) by (auto simp: follows_def Let_def)
  have sub: "map_of (bk_subscribers (st_broker ?st)) sid = Some (if Matches U f ?e then snd (Sub_Send ?e s) else s)"
    using map_of_Publish [OF _ s(1) _ refl, of U now e] assms(2) s(2) by (simp add: stream_inv_def Let_def broker_ok_def)
  have hist: "filter (Matches U f) (drop k (st_hist ?st)) = ?w @ (if Matches U f ?e then [?e] else [])"
    "received sid ?st = received sid st" "k \<le> length (st_hist ?st)"
    using s(4) by (simp_all add: received_def)
  have len: "length (received sid st @ sub_channel s) \<le> length ?w"
    using s(5) by (rule list_emb_length)
  show ?thesis
  proof (cases "Matches U f ?e")
    case False
    then show ?thesis using sub hist s by (simp only: follows_def if_False append_Nil2 Let_def) auto
  next
    case True
    let ?s = "snd (Sub_Send ?e s)"
    have "subseq (received sid st @ sub_channel ?s) (?w @ [?e])"
      using s(3,5) subseq_append [of "received sid st @ sub_channel s" "[?e]" ?w]
      by (auto simp: Sub_Send_def list_emb_prefix)
    moreover have "sub_dropped ?s = of_nat (length (?w @ [?e]) - length (received sid st @ sub_channel ?s))"
      using s(3,6) len by (simp add: Sub_Send_def Suc_diff_le)
    moreover have "sub_filter ?s = f" "\<not> sub_closed ?s" using s(2,3) by (simp_all add: Sub_Send_def)
    ultimately show ?thesis
      using True sub hist by (simp only: follows_def if_True Let_def) auto
  qed
qed

lemma follows_Receive: "follows U f k sid st \<Longrightarrow> follows U f k sid (stream_step U (SReceive i) st)"
proof (cases "i = sid")
  case False
  assume "follows U f k sid st"
  then show ?thesis
    using False by (elim follows_same) (simp_all add: received_def map_of_update_sub split: option.split list.split)
next
  case True
  assume "follows U f k sid st"
  with True show ?thesis
    by (auto simp: follows_def Let_def received_def map_of_update_sub split: option.split list.split)
qed

lemma follows_step:
  assumes f: "follows U f k sid st" and inv: "stream_inv n st" and n: "Suc n < 2 ^ 64" and a: "a \<noteq> SUnsubscribe sid"
  shows "follows U f k sid (stream_step U a st)"
proof -
  let ?b = "st_broker st"
  have ok: "broker_ok (st_hist st) ?b" "length (st_hist st) < 2 ^ 64" and open_: "\<not> bk_closed ?b"
    using inv n by (simp_all add: stream_inv_def Let_def broker_ok_def)
  have "sid \<in> fst ` set (bk_subscribers ?b)"
    using f by (auto simp: follows_def rev_image_eqI dest: map_of_SomeD)
  then have new: "sid \<noteq> bk_next_id ?b + 1" using stream_inv_fresh(2) [OF inv n] by blast
  show ?thesis
  proof (cases a)
    case (SPublish now e)
    then show ?thesis using follows_Publish [OF f inv] by simp
  next
    case (SSubscribe g)
    then show ?thesis using f new Subscribe_map_of [OF open_]
      by (elim follows_same) (simp_all add: received_def)
  next
    case (SResume g t)
    then show ?thesis using f new Subscribe_map_of [OF open_, of g] resume_broker [OF ok, of t U g]
      by (cases "resumable t (st_hist st)"; elim follows_same) (auto simp: received_def map_of_update_sub)
  next
    case (SUnsubscribe i)
    then show ?thesis using f a
      by (elim follows_same) (simp_all add: received_def Unsubscribe_def AList.delete_conv' split: option.split)
  next
    case (SReceive i)
    then show ?thesis using follows_Receive [OF f] by simp
  qed
qed

lemma follows_fold:
  assumes "follows U f k sid st" and "stream_inv n st" and "n + length ops < 2 ^ 64" and "SUnsubscribe sid \<notin> set ops"
  shows "follows U f k sid (fold (stream_step U) ops st)"
  using assms
proof (induction ops arbitrary: st n)
  case (Cons a ops)
  have n: "Suc n < 2 ^ 64" and a: "a \<noteq> SUnsubscribe sid" using Cons.prems(3,4) by auto
  show ?case
    using Cons.IH [OF follows_step [OF Cons.prems(1,2) n a] stream_inv_step [OF Cons.prems(2) n]] Cons.prems(3,4) by simp
qed simp

lemma follows_resume:
  assumes inv: "stream_inv n st" and n: "Suc n < 2 ^ 64"
    and r: "SubscribeWithResume U f t (st_broker st) = (Ok sid, b)"
  shows "follows U f (min (resume_point t (st_hist st)) (length (st_hist st))) sid (stream_step U (SResume f t) st)"
proof -
  let ?b = "st_broker st" and ?w = "filter (Matches U f) (drop (resume_point t (st_hist st)) (st_hist st))"
  have ok: "broker_ok (st_hist st) ?b" "length (st_hist st) < 2 ^ 64" and open_: "\<not> bk_closed ?b"
    using inv n by (simp_all add: stream_inv_def Let_def broker_ok_def)
  have res: "resumable t (st_hist st)" using r resume_broker(2) [OF ok, of t U f] by auto
  have sid: "sid = bk_next_id ?b + 1" using r resume_broker(1) [OF ok res, of U f] by auto
  have sub: "map_of (bk_subscribers b) sid = Some (resumed_sub U f t (st_hist st) sid)"
    using r resume_broker(1) [OF ok res, of U f] Subscribe_map_of [OF open_, of f] by (auto simp: map_of_update_sub)
  have "sid \<notin> fst ` set (st_got st)" using stream_inv_fresh(2) [OF inv n] sid by simp
  then have "received sid st = []" by (auto simp: received_def filter_empty_conv rev_image_eqI)
  moreover have "drop (min k (length xs)) xs = drop k xs" for k and xs :: "'a change_event list"
    by (simp add: min_def)
  moreover have "subseq (take m xs) xs" for m and xs :: "'a change_event list"
    by (metis append_take_drop_id list_emb_prefix subseq_order.refl)
  moreover have "c - min c d = c - d" for c d :: nat by simp
  ultimately show ?thesis
    using sub r by (simp add: follows_def resumed_sub_def received_def Let_def del: of_nat_diff)
qed



end
