(* ===== verification/Btree_Node.thy ===== *)
theory Btree_Node
  imports Page_Props "HOL-Library.List_Lexorder"
begin

text \<open>
  Nodes of the B+ trees behind the attribute indexes (\<^verbatim>\<open>node.go\<close> and \<^verbatim>\<open>serialize.go\<close> of
  \<^verbatim>\<open>internal/storage/btree\<close>): the search for a key, insertion and removal at a position, and the page
  format. The slices are lists; the capacity of a slice is not part of its value.
\<close>

section \<open>Nodes\<close>

abbreviation BPlusOrder :: nat where "BPlusOrder \<equiv> 128"
abbreviation BPlusLeafCapacity :: nat where "BPlusLeafCapacity \<equiv> 256"
abbreviation MinInternalKeys :: nat where "MinInternalKeys \<equiv> (BPlusOrder - 1) div 2"
abbreviation MinLeafKeys :: nat where "MinLeafKeys \<equiv> BPlusLeafCapacity div 2"
abbreviation BPlusNodeHeaderSize :: nat where "BPlusNodeHeaderSize \<equiv> 21"
abbreviation MaxKeySize :: nat where "MaxKeySize \<equiv> 1024"
abbreviation KeyLengthSize :: nat where "KeyLengthSize \<equiv> 2"
abbreviation EntryRefBaseSize :: nat where "EntryRefBaseSize \<equiv> 12"
abbreviation PageIDSize :: nat where "PageIDSize \<equiv> 8"

definition PageTypeAttrIndex :: page_type where "PageTypeAttrIndex = 3"

datatype btree_error =
    ErrTreeNotInitialized
  | ErrKeyNotFound
  | ErrKeyExists
  | ErrEmptyKey
  | ErrNodeNotFound
  | ErrInvalidNode
  | ErrTreeEmpty
  | ErrKeyTooLarge
  | ErrBufferTooSmall
  | ErrInvalidNodeData
  | ErrNodeTooLarge
  | ErrCorruptedNode
  | ErrInvalidKeyCount
  | ErrInvalidChildCount
  | ErrMismatchedKeyValue
  | PageError pm_error

record entry_ref =
  er_page :: uint64
  er_slot :: uint16
  er_dn :: bytes

record bnode =
  bn_leaf :: bool
  bn_keys :: "bytes list"
  bn_children :: "uint64 list"
  bn_values :: "entry_ref list"
  bn_next :: uint64
  bn_prev :: uint64
  bn_page :: uint64

definition NewInternalNode :: "uint64 \<Rightarrow> bnode" where
  "NewInternalNode pageID = \<lparr>bn_leaf = False, bn_keys = [], bn_children = [], bn_values = [],
     bn_next = 0, bn_prev = 0, bn_page = pageID\<rparr>"

definition NewLeafNode :: "uint64 \<Rightarrow> bnode" where
  "NewLeafNode pageID = \<lparr>bn_leaf = True, bn_keys = [], bn_children = [], bn_values = [],
     bn_next = 0, bn_prev = 0, bn_page = pageID\<rparr>"

definition IsFull :: "bnode \<Rightarrow> bool" where
  "IsFull n = (if bn_leaf n then BPlusLeafCapacity \<le> length (bn_keys n) else BPlusOrder - 1 \<le> length (bn_keys n))"

definition IsUnderflow :: "bnode \<Rightarrow> bool" where
  "IsUnderflow n = (if bn_leaf n then length (bn_keys n) < MinLeafKeys else length (bn_keys n) < MinInternalKeys)"

definition CanBorrow :: "bnode \<Rightarrow> bool" where
  "CanBorrow n = (if bn_leaf n then MinLeafKeys < length (bn_keys n) else MinInternalKeys < length (bn_keys n))"

fun compareKeys :: "bytes \<Rightarrow> bytes \<Rightarrow> int" where
  "compareKeys [] [] = 0"
| "compareKeys [] (b # bs) = - 1"
| "compareKeys (a # as) [] = 1"
| "compareKeys (a # as) (b # bs) = (if a < b then - 1 else if b < a then 1 else compareKeys as bs)"

definition put_at :: "nat \<Rightarrow> 'a \<Rightarrow> 'a list \<Rightarrow> 'a list" where
  "put_at i x xs = take i xs @ x # drop i xs"

definition remove_at :: "nat \<Rightarrow> 'a list \<Rightarrow> 'a list" where
  "remove_at i xs = take i xs @ drop (Suc i) xs"

text \<open>The key is copied; a value is inserted in a leaf, a child to the right of the key otherwise.\<close>

definition InsertKeyAt ::
    "nat \<Rightarrow> bytes \<Rightarrow> entry_ref option \<Rightarrow> uint64 \<Rightarrow> bnode \<Rightarrow> (btree_error, bnode) outcome" where
  "InsertKeyAt index key value child n =
     (if length (bn_keys n) < index then Panic
      else let n = n \<lparr>bn_keys := put_at index key (bn_keys n)\<rparr> in
        if bn_leaf n then
          (case value of
             None \<Rightarrow> Ok n
           | Some v \<Rightarrow> if length (bn_values n) < index then Panic
               else Ok (n \<lparr>bn_values := put_at index v (bn_values n)\<rparr>))
        else if length (bn_children n) < index + 1 then Panic
        else Ok (n \<lparr>bn_children := put_at (index + 1) child (bn_children n)\<rparr>))"

definition RemoveKeyAt :: "nat \<Rightarrow> bnode \<Rightarrow> bnode" where
  "RemoveKeyAt index n =
     (if length (bn_keys n) \<le> index then n
      else let n = n \<lparr>bn_keys := remove_at index (bn_keys n)\<rparr> in
        if bn_leaf n then
          (if index < length (bn_values n) then n \<lparr>bn_values := remove_at index (bn_values n)\<rparr> else n)
        else if index + 1 < length (bn_children n) then n \<lparr>bn_children := remove_at (index + 1) (bn_children n)\<rparr>
        else n)"

text \<open>The binary search of \<^verbatim>\<open>FindKeyIndex\<close>, which goes on to the left of a match.\<close>

function find_loop :: "bytes list \<Rightarrow> bytes \<Rightarrow> nat \<Rightarrow> nat \<Rightarrow> bool \<Rightarrow> nat \<times> bool" where
  "find_loop keys key low high found =
     (if low < high then
        let mid = (low + high) div 2; cmp = compareKeys (keys ! mid) key in
        if cmp < 0 then find_loop keys key (mid + 1) high found
        else if cmp > 0 then find_loop keys key low mid found
        else find_loop keys key low mid True
      else (low, found))"
  by pat_completeness auto
termination by (relation "measure (\<lambda>(keys, key, low, high, found). high - low)") auto

declare find_loop.simps [simp del]

definition FindKeyIndex :: "bytes \<Rightarrow> bnode \<Rightarrow> nat \<times> bool" where
  "FindKeyIndex key n = find_loop (bn_keys n) key 0 (length (bn_keys n)) False"

text \<open>The child left of the first key that is greater, otherwise the last child.\<close>

fun child_loop :: "bytes \<Rightarrow> bytes list \<Rightarrow> uint64 list \<Rightarrow> nat \<Rightarrow> (btree_error, uint64) outcome option" where
  "child_loop key [] children i = None"
| "child_loop key (k # ks) children i =
     (if compareKeys key k < 0 then Some (go_index children i) else child_loop key ks children (Suc i))"

definition GetChildForKey :: "bytes \<Rightarrow> bnode \<Rightarrow> (btree_error, uint64) outcome" where
  "GetChildForKey key n =
     (if bn_leaf n \<or> bn_children n = [] then Ok 0
      else case child_loop key (bn_keys n) (bn_children n) 0 of
          Some r \<Rightarrow> r
        | None \<Rightarrow> Ok (last (bn_children n)))"

section \<open>The page format\<close>

definition SerializedSize :: "bnode \<Rightarrow> nat" where
  "SerializedSize n =
     BPlusNodeHeaderSize + sum_list (map (\<lambda>k. KeyLengthSize + length k) (bn_keys n)) +
     (if bn_leaf n then sum_list (map (\<lambda>r. EntryRefBaseSize + length (er_dn r)) (bn_values n))
      else length (bn_children n) * PageIDSize)"

definition FitsInPage :: "bnode \<Rightarrow> bool" where
  "FitsInPage n \<longleftrightarrow> SerializedSize n \<le> PageSize - PageHeaderSize"

definition EncodeEntryRef :: "entry_ref \<Rightarrow> bytes" where
  "EncodeEntryRef r = put_le 8 (er_page r) @ put_le 2 (er_slot r) @
     put_le 2 (of_nat (length (er_dn r)) :: uint16) @ er_dn r"

definition key_bytes :: "bytes \<Rightarrow> bytes" where
  "key_bytes k = put_le 2 (of_nat (length k) :: uint16) @ k"

definition node_bytes :: "bnode \<Rightarrow> bytes" where
  "node_bytes n =
     [if bn_leaf n then 1 else 0] @ put_le 2 (of_nat (length (bn_keys n)) :: uint16) @
     put_le 8 (bn_next n) @ put_le 8 (bn_prev n) @ [0, 0] @
     concat (map key_bytes (bn_keys n)) @
     (if bn_leaf n then concat (map EncodeEntryRef (bn_values n)) else concat (map (put_le 8) (bn_children n)))"

definition Node_Serialize :: "bnode \<Rightarrow> bytes \<Rightarrow> (btree_error, nat) outcome \<times> bytes" where
  "Node_Serialize n buf =
     (if length buf < SerializedSize n then (Fail ErrBufferTooSmall, buf)
      else if \<exists>k \<in> set (bn_keys n). MaxKeySize < length k then (Fail ErrKeyTooLarge, buf)
      else if \<not> bn_leaf n \<and> length (bn_children n) \<noteq> length (bn_keys n) + 1 \<and> bn_keys n \<noteq> [] then (Fail ErrInvalidChildCount, buf)
      else if bn_leaf n \<and> length (bn_values n) \<noteq> length (bn_keys n) then (Fail ErrMismatchedKeyValue, buf)
      else (Ok (length (node_bytes n)), go_copy buf 0 (node_bytes n)))"

fun read_keys :: "nat \<Rightarrow> bytes \<Rightarrow> nat \<Rightarrow> (btree_error, bytes list \<times> nat) outcome" where
  "read_keys 0 buf offset = Ok ([], offset)"
| "read_keys (Suc c) buf offset =
     (if length buf < offset + KeyLengthSize then Fail ErrCorruptedNode
      else let keyLen = unat (get_le (take 2 (drop offset buf)) :: uint16); offset = offset + 2 in
        if MaxKeySize < keyLen then Fail ErrKeyTooLarge
        else if length buf < offset + keyLen then Fail ErrCorruptedNode
        else case read_keys c buf (offset + keyLen) of
            Ok (ks, off) \<Rightarrow> Ok (take keyLen (drop offset buf) # ks, off)
          | Fail e \<Rightarrow> Fail e | Panic \<Rightarrow> Panic)"

fun read_refs :: "nat \<Rightarrow> bytes \<Rightarrow> nat \<Rightarrow> (btree_error, entry_ref list) outcome" where
  "read_refs 0 buf offset = Ok []"
| "read_refs (Suc c) buf offset =
     (if length buf < offset + EntryRefBaseSize then Fail ErrCorruptedNode
      else let pid = get_le (take 8 (drop offset buf)); slot = get_le (take 2 (drop (offset + 8) buf));
               dnLen = unat (get_le (take 2 (drop (offset + 10) buf)) :: uint16); offset = offset + 12 in
        if length buf < offset + dnLen then Fail ErrCorruptedNode
        else case read_refs c buf (offset + dnLen) of
            Ok rs \<Rightarrow> Ok (\<lparr>er_page = pid, er_slot = slot, er_dn = take dnLen (drop offset buf)\<rparr> # rs)
          | Fail e \<Rightarrow> Fail e | Panic \<Rightarrow> Panic)"

fun read_children :: "nat \<Rightarrow> bytes \<Rightarrow> nat \<Rightarrow> (btree_error, uint64 list) outcome" where
  "read_children 0 buf offset = Ok []"
| "read_children (Suc c) buf offset =
     (if length buf < offset + PageIDSize then Fail ErrCorruptedNode
      else case read_children c buf (offset + 8) of
          Ok cs \<Rightarrow> Ok (get_le (take 8 (drop offset buf)) # cs)
        | Fail e \<Rightarrow> Fail e | Panic \<Rightarrow> Panic)"

definition Node_Deserialize :: "bytes \<Rightarrow> uint64 \<Rightarrow> (btree_error, bnode) outcome" where
  "Node_Deserialize buf pageID =
     (if length buf < BPlusNodeHeaderSize then Fail ErrBufferTooSmall
      else let leaf = (buf ! 0 = 1); keyCount = unat (get_le (take 2 (drop 1 buf)) :: uint16);
               n = \<lparr>bn_leaf = leaf, bn_keys = [], bn_children = [], bn_values = [],
                    bn_next = get_le (take 8 (drop 3 buf)), bn_prev = get_le (take 8 (drop 11 buf)), bn_page = pageID\<rparr> in
        if leaf \<and> BPlusLeafCapacity < keyCount then Fail ErrInvalidKeyCount
        else if \<not> leaf \<and> BPlusOrder - 1 < keyCount then Fail ErrInvalidKeyCount
        else case read_keys keyCount buf 21 of
            Ok (keys, offset) \<Rightarrow>
              if leaf then (case read_refs keyCount buf offset of
                  Ok vs \<Rightarrow> Ok (n \<lparr>bn_keys := keys, bn_values := vs\<rparr>) | Fail e \<Rightarrow> Fail e | Panic \<Rightarrow> Panic)
              else (case read_children (if keyCount = 0 then 0 else keyCount + 1) buf offset of
                  Ok cs \<Rightarrow> Ok (n \<lparr>bn_keys := keys, bn_children := cs\<rparr>) | Fail e \<Rightarrow> Fail e | Panic \<Rightarrow> Panic)
          | Fail e \<Rightarrow> Fail e
          | Panic \<Rightarrow> Panic)"

definition Node_SerializeToPage :: "bnode \<Rightarrow> page \<Rightarrow> (btree_error, page) outcome" where
  "Node_SerializeToPage n p =
     (if \<not> FitsInPage n then Fail ErrNodeTooLarge
      else case Node_Serialize n (replicate (length (p_data p)) 0) of
          (Ok _, data) \<Rightarrow>
            (let h = p_header p \<lparr>ph_type := PageTypeAttrIndex, ph_items := of_nat (length (bn_keys n))\<rparr>;
                 h = (if bn_leaf n then SetLeaf h else h \<lparr>ph_flags := and (ph_flags h) (not 4)\<rparr>) in
             Ok (p \<lparr>p_data := data,
                    p_header := SetDirty (h \<lparr>ph_free := of_nat (PageSize - PageHeaderSize - SerializedSize n)\<rparr>)\<rparr>))
        | (Fail e, _) \<Rightarrow> Fail e
        | (Panic, _) \<Rightarrow> Panic)"

definition NewNodeFromPage :: "page \<Rightarrow> (btree_error, bnode) outcome" where
  "NewNodeFromPage p =
     (if ph_type (p_header p) \<noteq> PageTypeAttrIndex then Fail ErrInvalidNodeData
      else Node_Deserialize (p_data p) (ph_id (p_header p)))"

definition CreatePage :: "bnode \<Rightarrow> (btree_error, page) outcome" where
  "CreatePage n = Node_SerializeToPage n (NewPage (bn_page n) PageTypeAttrIndex)"

end
