(* ===== verification/Btree.thy ===== *)
theory Btree
  imports Btree_Node
begin

text \<open>
  B+ trees (\<^verbatim>\<open>tree.go\<close> and \<^verbatim>\<open>insert.go\<close> of \<^verbatim>\<open>internal/storage/btree\<close>) in the pages of a page manager. The
  order of a tree is left out, as only its statistics depend on it. A path from the root is a list with the leaf first. The loops follow page numbers that they
  read, so they run on fuel: as many rounds as the file has pages, \<open>None\<close> when that is not enough. A
  node that was read is a copy; the leaf of a path is the object that an operation changes.
\<close>

section \<open>Reading and writing nodes\<close>

record btree =
  bt_root :: uint64
  bt_pm :: page_manager

fun lift_pm :: "(pm_error, 'a) outcome \<Rightarrow> (btree_error, 'a) outcome" where
  "lift_pm (Ok a) = Ok a"
| "lift_pm (Fail e) = Fail (PageError e)"
| "lift_pm Panic = Panic"

definition readNode :: "uint64 \<Rightarrow> btree \<Rightarrow> (btree_error, bnode) outcome" where
  "readNode pageID t =
     (if pageID = 0 then Fail ErrNodeNotFound
      else case ReadPage pageID (bt_pm t) of
          Ok p \<Rightarrow> NewNodeFromPage p
        | Fail e \<Rightarrow> Fail (PageError e)
        | Panic \<Rightarrow> Panic)"

definition writeNode :: "bnode \<Rightarrow> btree \<Rightarrow> (btree_error, unit) outcome \<times> btree" where
  "writeNode n t =
     (case CreatePage n of
        Ok p \<Rightarrow> (case WritePage p (bt_pm t) of (r, pm) \<Rightarrow> (lift_pm r, t \<lparr>bt_pm := pm\<rparr>))
      | Fail e \<Rightarrow> (Fail e, t)
      | Panic \<Rightarrow> (Panic, t))"

definition allocateNode :: "bool \<Rightarrow> btree \<Rightarrow> (btree_error, bnode) outcome \<times> btree" where
  "allocateNode isLeaf t =
     (case AllocatePage PageTypeAttrIndex (bt_pm t) of
        (Ok pageID, pm) \<Rightarrow> (Ok (if isLeaf then NewLeafNode pageID else NewInternalNode pageID), t \<lparr>bt_pm := pm\<rparr>)
      | (Fail e, pm) \<Rightarrow> (Fail (PageError e), t \<lparr>bt_pm := pm\<rparr>)
      | (Panic, pm) \<Rightarrow> (Panic, t \<lparr>bt_pm := pm\<rparr>))"

definition freeNode :: "uint64 \<Rightarrow> btree \<Rightarrow> (btree_error, unit) outcome \<times> btree" where
  "freeNode pageID t = (case FreePage pageID (bt_pm t) of (r, pm) \<Rightarrow> (lift_pm r, t \<lparr>bt_pm := pm\<rparr>))"

definition NewBPlusTree :: "page_manager \<Rightarrow> (btree_error, unit) outcome \<times> btree" where
  "NewBPlusTree pm =
     and_then (allocateNode True \<lparr>bt_root = 0, bt_pm = pm\<rparr>)
       (\<lambda>rootNode t. and_then (writeNode rootNode t) (\<lambda>_ t. (Ok (), t \<lparr>bt_root := bn_page rootNode\<rparr>)))"

definition NewBPlusTreeWithRoot :: "page_manager \<Rightarrow> uint64 \<Rightarrow> (btree_error, btree) outcome" where
  "NewBPlusTreeWithRoot pm rootPageID =
     (let t = \<lparr>bt_root = rootPageID, bt_pm = pm\<rparr> in
      case readNode rootPageID t of Ok _ \<Rightarrow> Ok t | Fail e \<Rightarrow> Fail e | Panic \<Rightarrow> Panic)"

definition IsEmpty :: "btree \<Rightarrow> bool" where
  "IsEmpty t =
     (if bt_root t = 0 then True
      else case readNode (bt_root t) t of Ok n \<Rightarrow> bn_keys n = [] | _ \<Rightarrow> True)"

section \<open>Finding a leaf\<close>

abbreviation fuel_of :: "btree \<Rightarrow> nat" where
  "fuel_of t \<equiv> unat (pm_total (bt_pm t))"

text \<open>The loop of the functions that go down to a leaf, which differ in the child they choose.\<close>

fun descend ::
    "nat \<Rightarrow> (bnode \<Rightarrow> (btree_error, uint64) outcome) \<Rightarrow> bnode \<Rightarrow> bnode list \<Rightarrow> btree \<Rightarrow>
     (btree_error, bnode list) outcome option" where
  "descend fuel pick node path t =
     (if bn_leaf node then Some (Ok (node # path))
      else case fuel of
          0 \<Rightarrow> None
        | Suc fuel' \<Rightarrow>
            (case pick node of
               Ok childID \<Rightarrow>
                 (case readNode childID t of
                    Ok child \<Rightarrow> descend fuel' pick child (node # path) t
                  | Fail e \<Rightarrow> Some (Fail e)
                  | Panic \<Rightarrow> Some Panic)
             | Fail e \<Rightarrow> Some (Fail e)
             | Panic \<Rightarrow> Some Panic))"

declare descend.simps [simp del]

definition down :: "(bnode \<Rightarrow> (btree_error, uint64) outcome) \<Rightarrow> btree \<Rightarrow> (btree_error, bnode list) outcome option" where
  "down pick t =
     (if bt_root t = 0 then Some (Fail ErrTreeNotInitialized)
      else case readNode (bt_root t) t of
          Ok node \<Rightarrow> descend (fuel_of t) pick node [] t
        | Fail e \<Rightarrow> Some (Fail e)
        | Panic \<Rightarrow> Some Panic)"

definition pick_key :: "bytes \<Rightarrow> bnode \<Rightarrow> (btree_error, uint64) outcome" where
  "pick_key key node =
     (case GetChildForKey key node of
        Ok childID \<Rightarrow> if childID = 0 then Fail ErrNodeNotFound else Ok childID
      | r \<Rightarrow> r)"

definition findLeafWithPath :: "bytes \<Rightarrow> btree \<Rightarrow> (btree_error, bnode list) outcome option" where
  "findLeafWithPath key t = down (pick_key key) t"

fun the_leaf :: "(btree_error, bnode list) outcome option \<Rightarrow> (btree_error, bnode) outcome option" where
  "the_leaf (Some (Ok (leaf # path))) = Some (Ok leaf)"
| "the_leaf (Some (Ok [])) = Some Panic"
| "the_leaf (Some (Fail e)) = Some (Fail e)"
| "the_leaf (Some Panic) = Some Panic"
| "the_leaf None = None"

definition findLeaf :: "bytes \<Rightarrow> btree \<Rightarrow> (btree_error, bnode) outcome option" where
  "findLeaf key t = the_leaf (down (pick_key key) t)"

definition findLeftmostLeaf :: "btree \<Rightarrow> (btree_error, bnode) outcome option" where
  "findLeftmostLeaf t =
     the_leaf (down (\<lambda>n. if bn_children n = [] then Fail ErrInvalidNode else Ok (hd (bn_children n))) t)"

definition findRightmostLeaf :: "btree \<Rightarrow> (btree_error, bnode) outcome option" where
  "findRightmostLeaf t =
     the_leaf (down (\<lambda>n. if bn_children n = [] then Fail ErrInvalidNode else Ok (last (bn_children n))) t)"

definition findLeafWithPathForPageID :: "uint64 \<Rightarrow> btree \<Rightarrow> (btree_error, bnode list) outcome option" where
  "findLeafWithPathForPageID target t =
     (if bt_root t = 0 then Some (Fail ErrTreeNotInitialized)
      else case readNode target t of
          Ok leaf \<Rightarrow>
            if \<not> bn_leaf leaf then Some (Fail ErrInvalidNode)
            else if bn_keys leaf = [] then Some (Ok [leaf])
            else findLeafWithPath (hd (bn_keys leaf)) t
        | Fail e \<Rightarrow> Some (Fail e)
        | Panic \<Rightarrow> Some Panic)"

section \<open>Search\<close>

text \<open>Back to the first leaf that has the key, when it has duplicates in earlier leaves.\<close>

fun back_leaf :: "nat \<Rightarrow> bytes \<Rightarrow> bnode \<Rightarrow> btree \<Rightarrow> bnode option" where
  "back_leaf fuel key leaf t =
     (if bn_prev leaf = 0 then Some leaf
      else case fuel of
          0 \<Rightarrow> None
        | Suc fuel' \<Rightarrow>
            (case readNode (bn_prev leaf) t of
               Ok prevLeaf \<Rightarrow>
                 if bn_keys prevLeaf \<noteq> [] \<and> compareKeys (last (bn_keys prevLeaf)) key = 0
                 then back_leaf fuel' key prevLeaf t else Some leaf
             | _ \<Rightarrow> Some leaf))"

declare back_leaf.simps [simp del]

text \<open>The values up to the first other key, and whether there was one.\<close>

fun take_key :: "bytes \<Rightarrow> (bytes \<times> entry_ref) list \<Rightarrow> entry_ref list \<times> bool" where
  "take_key key [] = ([], False)"
| "take_key key ((k, v) # kvs) =
     (if compareKeys k key = 0 then (case take_key key kvs of (rs, other) \<Rightarrow> (v # rs, other)) else ([], True))"

definition leaf_entries :: "bnode \<Rightarrow> (bytes \<times> entry_ref) list" where
  "leaf_entries n = zip (bn_keys n) (bn_values n)"

fun collect_next :: "nat \<Rightarrow> bytes \<Rightarrow> bnode \<Rightarrow> entry_ref list \<Rightarrow> btree \<Rightarrow> entry_ref list option" where
  "collect_next fuel key leaf refs t =
     (if bn_next leaf = 0 then Some refs
      else case fuel of
          0 \<Rightarrow> None
        | Suc fuel' \<Rightarrow>
            (case readNode (bn_next leaf) t of
               Ok nextLeaf \<Rightarrow>
                 (case take_key key (leaf_entries nextLeaf) of
                    (rs, True) \<Rightarrow> Some (refs @ rs)
                  | (rs, False) \<Rightarrow> collect_next fuel' key nextLeaf (refs @ rs) t)
             | _ \<Rightarrow> Some refs))"

declare collect_next.simps [simp del]

text \<open>The position of the key in the leaf or, when it is not there, in the next one.\<close>

definition key_position :: "bytes \<Rightarrow> bnode \<Rightarrow> btree \<Rightarrow> bnode \<times> nat \<times> bool" where
  "key_position key leaf t =
     (case FindKeyIndex key leaf of
        (idx, True) \<Rightarrow> (leaf, idx, True)
      | (idx, False) \<Rightarrow>
          if bn_next leaf = 0 then (leaf, idx, False)
          else case readNode (bn_next leaf) t of
              Ok nextLeaf \<Rightarrow> (case FindKeyIndex key nextLeaf of (idx, found) \<Rightarrow> (if found then nextLeaf else leaf, idx, found))
            | _ \<Rightarrow> (leaf, idx, False))"

definition BTree_Search :: "bytes \<Rightarrow> btree \<Rightarrow> (btree_error, entry_ref list) outcome option" where
  "BTree_Search key t =
     (if key = [] then Some (Fail ErrEmptyKey)
      else case findLeaf key t of
          None \<Rightarrow> None
        | Some Panic \<Rightarrow> Some Panic
        | Some (Fail e) \<Rightarrow> if e = ErrTreeNotInitialized then Some (Ok []) else Some (Fail e)
        | Some (Ok leaf) \<Rightarrow>
            (case back_leaf (fuel_of t) key leaf t of
               None \<Rightarrow> None
             | Some leaf \<Rightarrow>
                 (case key_position key leaf t of
                    (leaf, idx, found) \<Rightarrow>
                      if \<not> found then Some (Ok [])
                      else case take_key key (drop idx (leaf_entries leaf)) of
                          (rs, True) \<Rightarrow> Some (Ok rs)
                        | (rs, False) \<Rightarrow> map_option Ok (collect_next (fuel_of t) key leaf rs t))))"

definition BTree_Contains :: "bytes \<Rightarrow> btree \<Rightarrow> (btree_error, bool) outcome option" where
  "BTree_Contains key t =
     (if key = [] then Some (Fail ErrEmptyKey)
      else case BTree_Search key t of
          Some (Ok refs) \<Rightarrow> Some (Ok (refs \<noteq> []))
        | Some (Fail e) \<Rightarrow> Some (Fail e)
        | Some Panic \<Rightarrow> Some Panic
        | None \<Rightarrow> None)"

text \<open>The entries of a leaf up to the end key, and whether a greater key ended them.\<close>

fun take_range :: "bytes option \<Rightarrow> (bytes \<times> entry_ref) list \<Rightarrow> entry_ref list \<times> bool" where
  "take_range endKey [] = ([], False)"
| "take_range endKey ((k, v) # kvs) =
     (if case endKey of None \<Rightarrow> False | Some e \<Rightarrow> compareKeys k e > 0 then ([], True)
      else case take_range endKey kvs of (rs, done) \<Rightarrow> (v # rs, done))"

text \<open>The references found so far are returned with an error of the next leaf.\<close>

fun range_loop ::
    "nat \<Rightarrow> bytes option \<Rightarrow> nat \<Rightarrow> bnode \<Rightarrow> entry_ref list \<Rightarrow> btree \<Rightarrow> ((btree_error, unit) outcome \<times> entry_ref list) option" where
  "range_loop fuel endKey startIdx leaf refs t =
     (case take_range endKey (drop startIdx (leaf_entries leaf)) of
        (rs, True) \<Rightarrow> Some (Ok (), refs @ rs)
      | (rs, False) \<Rightarrow>
          if bn_next leaf = 0 then Some (Ok (), refs @ rs)
          else case fuel of
              0 \<Rightarrow> None
            | Suc fuel' \<Rightarrow>
                (case readNode (bn_next leaf) t of
                   Ok nextLeaf \<Rightarrow> range_loop fuel' endKey 0 nextLeaf (refs @ rs) t
                 | Fail e \<Rightarrow> Some (Fail e, refs @ rs)
                 | Panic \<Rightarrow> Some (Panic, refs @ rs)))"

declare range_loop.simps [simp del]

definition BTree_SearchRange ::
    "bytes option \<Rightarrow> bytes option \<Rightarrow> btree \<Rightarrow> ((btree_error, unit) outcome \<times> entry_ref list) option" where
  "BTree_SearchRange startKey endKey t =
     (if bt_root t = 0 then Some (Ok (), [])
      else case (case startKey of None \<Rightarrow> findLeftmostLeaf t | Some k \<Rightarrow> findLeaf k t) of
          None \<Rightarrow> None
        | Some (Fail e) \<Rightarrow> Some (Fail e, [])
        | Some Panic \<Rightarrow> Some (Panic, [])
        | Some (Ok leaf) \<Rightarrow>
            range_loop (fuel_of t) endKey (case startKey of None \<Rightarrow> 0 | Some k \<Rightarrow> fst (FindKeyIndex k leaf)) leaf [] t)"

section \<open>Insertion\<close>

text \<open>The leaf, the new leaf to its right and the first key of the new leaf.\<close>

definition splitLeaf :: "bnode \<Rightarrow> btree \<Rightarrow> (btree_error, bnode \<times> bnode \<times> bytes) outcome \<times> btree" where
  "splitLeaf leaf t =
     and_then (allocateNode True t)
       (\<lambda>newLeaf t.
          let splitPoint = (length (bn_keys leaf) + 1) div 2;
              newLeaf = newLeaf \<lparr>bn_keys := drop splitPoint (bn_keys leaf), bn_values := drop splitPoint (bn_values leaf),
                          bn_next := bn_next leaf, bn_prev := bn_page leaf\<rparr>;
              leaf = leaf \<lparr>bn_keys := take splitPoint (bn_keys leaf), bn_values := take splitPoint (bn_values leaf),
                       bn_next := bn_page newLeaf\<rparr>;
              t = (if bn_next newLeaf = 0 then t
                   else case readNode (bn_next newLeaf) t of
                       Ok nextLeaf \<Rightarrow> snd (writeNode (nextLeaf \<lparr>bn_prev := bn_page newLeaf\<rparr>) t)
                     | _ \<Rightarrow> t)
          in if bn_keys newLeaf = [] then (Panic, t) else (Ok (leaf, newLeaf, hd (bn_keys newLeaf)), t))"

definition createNewRoot :: "uint64 \<Rightarrow> bytes \<Rightarrow> uint64 \<Rightarrow> btree \<Rightarrow> (btree_error, unit) outcome \<times> btree" where
  "createNewRoot leftChild key rightChild t =
     and_then (allocateNode False t)
       (\<lambda>newRoot t.
          let newRoot = newRoot \<lparr>bn_keys := [key], bn_children := [leftChild, rightChild]\<rparr> in
          and_then (writeNode newRoot t) (\<lambda>_ t. (Ok (), t \<lparr>bt_root := bn_page newRoot\<rparr>)))"

text \<open>The node, the new node to its right and the middle key, which moves up.\<close>

definition splitInternal :: "bnode \<Rightarrow> btree \<Rightarrow> (btree_error, bnode \<times> bnode \<times> bytes) outcome \<times> btree" where
  "splitInternal internal t =
     and_then (allocateNode False t)
       (\<lambda>newInternal t.
          let splitPoint = length (bn_keys internal) div 2 in
          if length (bn_keys internal) \<le> splitPoint \<or> length (bn_children internal) \<le> splitPoint then (Panic, t)
          else (Ok (internal \<lparr>bn_keys := take splitPoint (bn_keys internal), bn_children := take (splitPoint + 1) (bn_children internal)\<rparr>,
                    newInternal \<lparr>bn_keys := drop (splitPoint + 1) (bn_keys internal),
                      bn_children := drop (splitPoint + 1) (bn_children internal)\<rparr>,
                    bn_keys internal ! splitPoint), t))"

function (sequential) insertIntoParent ::
    "bnode list \<Rightarrow> uint64 \<Rightarrow> bytes \<Rightarrow> uint64 \<Rightarrow> btree \<Rightarrow> (btree_error, unit) outcome \<times> btree"
  and splitInternalAndPropagate :: "bnode list \<Rightarrow> btree \<Rightarrow> (btree_error, unit) outcome \<times> btree" where
  "insertIntoParent [] leftChild key rightChild t = createNewRoot leftChild key rightChild t"
| "insertIntoParent (parent # path) leftChild key rightChild t =
     (case InsertKeyAt (fst (FindKeyIndex key parent)) key None rightChild parent of
        Ok parent \<Rightarrow>
          if IsFull parent \<or> \<not> FitsInPage parent then splitInternalAndPropagate (parent # path) t
          else writeNode parent t
      | Fail e \<Rightarrow> (Fail e, t)
      | Panic \<Rightarrow> (Panic, t))"
| "splitInternalAndPropagate [] t = (Panic, t)"
| "splitInternalAndPropagate (internal # path) t =
     and_then (splitInternal internal t)
       (\<lambda>(internal, newInternal, promotedKey) t.
          and_then (writeNode internal t)
            (\<lambda>_ t. and_then (writeNode newInternal t)
              (\<lambda>_ t. insertIntoParent path (bn_page internal) promotedKey (bn_page newInternal) t)))"
  by pat_completeness auto
termination
  by (relation "measure (\<lambda>x. case x of Inl (path, _) \<Rightarrow> 2 * length path + 1 | Inr (path, _) \<Rightarrow> 2 * length path)") auto

definition splitLeafAndPropagate :: "bnode list \<Rightarrow> btree \<Rightarrow> (btree_error, unit) outcome \<times> btree" where
  "splitLeafAndPropagate path t =
     (case path of
        [] \<Rightarrow> (Panic, t)
      | leaf # path \<Rightarrow>
          and_then (splitLeaf leaf t)
            (\<lambda>(leaf, newLeaf, promotedKey) t.
               and_then (writeNode leaf t)
                 (\<lambda>_ t. and_then (writeNode newLeaf t)
                   (\<lambda>_ t. insertIntoParent path (bn_page leaf) promotedKey (bn_page newLeaf) t))))"

text \<open>The part after the leaf was found, shared by \<^verbatim>\<open>Insert\<close> and \<^verbatim>\<open>InsertUnique\<close>.\<close>

definition insert_in_leaf :: "nat \<Rightarrow> bytes \<Rightarrow> entry_ref \<Rightarrow> bnode list \<Rightarrow> btree \<Rightarrow> (btree_error, unit) outcome \<times> btree" where
  "insert_in_leaf idx key ref path t =
     (case InsertKeyAt idx key (Some ref) 0 (hd path) of
        Ok leaf \<Rightarrow>
          if IsFull leaf \<or> \<not> FitsInPage leaf then splitLeafAndPropagate (leaf # tl path) t
          else writeNode leaf t
      | Fail e \<Rightarrow> (Fail e, t)
      | Panic \<Rightarrow> (Panic, t))"

definition BTree_Insert :: "bytes \<Rightarrow> entry_ref \<Rightarrow> btree \<Rightarrow> (btree_error, unit) outcome option \<times> btree" where
  "BTree_Insert key ref t =
     (if key = [] then (Some (Fail ErrEmptyKey), t)
      else case findLeafWithPath key t of
          None \<Rightarrow> (None, t)
        | Some (Fail e) \<Rightarrow> (Some (Fail e), t)
        | Some Panic \<Rightarrow> (Some Panic, t)
        | Some (Ok path) \<Rightarrow>
            apfst Some (insert_in_leaf (fst (FindKeyIndex key (hd path))) key ref path t))"

definition BTree_InsertUnique :: "bytes \<Rightarrow> entry_ref \<Rightarrow> btree \<Rightarrow> (btree_error, unit) outcome option \<times> btree" where
  "BTree_InsertUnique key ref t =
     (if key = [] then (Some (Fail ErrEmptyKey), t)
      else case findLeafWithPath key t of
          None \<Rightarrow> (None, t)
        | Some (Fail e) \<Rightarrow> (Some (Fail e), t)
        | Some Panic \<Rightarrow> (Some Panic, t)
        | Some (Ok path) \<Rightarrow>
            (case FindKeyIndex key (hd path) of
               (idx, True) \<Rightarrow> (Some (Fail ErrKeyExists), t)
             | (idx, False) \<Rightarrow> apfst Some (insert_in_leaf idx key ref path t)))"

end
