(* ===== verification/Btree_Pages.thy ===== *)
theory Btree_Pages
  imports Btree
begin

text \<open>
  What the operations on nodes do: the order of keys, the binary search, and a node that is written is
  read back.
\<close>

section \<open>Keys\<close>

lemma compareKeys_iff:
  "compareKeys a b < 0 \<longleftrightarrow> a < b" "compareKeys a b = 0 \<longleftrightarrow> a = b" "0 < compareKeys a b \<longleftrightarrow> b < a"
proof -
  have *: "compareKeys a b = (if a < b then - 1 else if a = b then 0 else 1)"
    by (induction a b rule: compareKeys.induct) (auto simp: not_less_iff_gr_or_eq)
  show "compareKeys a b < 0 \<longleftrightarrow> a < b" "compareKeys a b = 0 \<longleftrightarrow> a = b" "0 < compareKeys a b \<longleftrightarrow> b < a"
    unfolding * by auto
qed

abbreviation ascending :: "bytes list \<Rightarrow> bool" where
  "ascending \<equiv> sorted_wrt (<)"

lemma find_loop_works:
  assumes "ascending keys" and "high \<le> length keys"
    and "\<And>i. i < low \<Longrightarrow> i < length keys \<Longrightarrow> keys ! i < key" and "\<And>i. high \<le> i \<Longrightarrow> i < length keys \<Longrightarrow> key \<le> keys ! i"
    and "low \<le> high" and "found \<longleftrightarrow> high < length keys \<and> keys ! high = key"
  shows "find_loop keys key low high found = (length (filter (\<lambda>k. k < key) keys), key \<in> set keys)"
  using assms
proof (induction keys key low high found rule: find_loop.induct)
  case (1 keys key low high found)
  show ?case
  proof (cases "low < high")
    case False
    then have eq: "low = high" using "1.prems"(5) by simp
    have "keys = take low keys @ drop low keys" by simp
    then have "filter (\<lambda>k. k < key) keys = filter (\<lambda>k. k < key) (take low keys) @ filter (\<lambda>k. k < key) (drop low keys)"
      by (metis filter_append)
    moreover have "filter (\<lambda>k. k < key) (take low keys) = take low keys"
      using "1.prems"(3) by (auto simp: filter_id_conv in_set_conv_nth)
    moreover have "filter (\<lambda>k. k < key) (drop low keys) = []"
      using "1.prems"(4) eq by (auto simp: filter_empty_conv in_set_conv_nth not_less)
    ultimately have "length (filter (\<lambda>k. k < key) keys) = low" using "1.prems"(2) eq by simp
    moreover have "key \<in> set keys \<longleftrightarrow> found"
    proof
      assume "key \<in> set keys"
      then obtain i where i: "i < length keys" "keys ! i = key" by (auto simp: in_set_conv_nth)
      then have "high \<le> i" using "1.prems"(3) [of i] eq by (metis less_irrefl not_less)
      moreover have "\<not> high < i"
      proof
        assume "high < i"
        then have "keys ! high < keys ! i" using "1.prems"(1) i(1) by (simp add: sorted_wrt_nth_less)
        then show False using "1.prems"(4) [of high] i \<open>high < i\<close> by auto
      qed
      ultimately show found using "1.prems"(6) i by simp
    qed (use "1.prems"(6) in auto)
    ultimately show ?thesis using False by (simp add: find_loop.simps)
  next
    case True
    define mid where "mid = (low + high) div 2"
    have mid: "low \<le> mid" "mid < high" "mid < length keys" using True "1.prems"(2) by (auto simp: mid_def)
    have below: "keys ! i < keys ! mid" if "i < mid" for i
      using "1.prems"(1) mid(3) that by (simp add: sorted_wrt_nth_less)
    have above: "keys ! mid < keys ! i" if "mid < i" "i < length keys" for i
      using "1.prems"(1) that by (simp add: sorted_wrt_nth_less)
    note IH = "1.IH" [OF True mid_def refl]
    consider "keys ! mid < key" | "key < keys ! mid" | "keys ! mid = key" by fastforce
    then show ?thesis
    proof cases
      case 1
      then have "keys ! i < key" if "i < mid + 1" for i
        using below [of i] that by (cases "i = mid") (auto intro: less_trans)
      then have "find_loop keys key (mid + 1) high found = (length (filter (\<lambda>k. k < key) keys), key \<in> set keys)"
        using "1.prems" mid 1 by (intro IH(1)) (simp_all add: compareKeys_iff)
      then show ?thesis using True 1
        by (subst find_loop.simps) (simp add: compareKeys_iff mid_def [symmetric] Let_def)
    next
      case 2
      then have ge: "key < keys ! i" if "mid \<le> i" "i < length keys" for i
        using above [of i] that by (cases "i = mid") (auto intro: less_trans)
      have nf: "\<not> found" "keys ! mid \<noteq> key" "\<not> keys ! mid < key"
        using "1.prems"(6) mid ge [of high] 2 by (metis less_imp_le less_irrefl, auto)
      have "find_loop keys key low mid found = (length (filter (\<lambda>k. k < key) keys), key \<in> set keys)"
        using "1.prems"(1,3) mid ge 2 nf by (intro IH(2)) (simp_all add: compareKeys_iff less_imp_le not_less)
      then show ?thesis using True 2 nf(3)
        by (subst find_loop.simps) (simp add: compareKeys_iff mid_def [symmetric] Let_def)
    next
      case 3
      then have "key \<le> keys ! i" if "mid \<le> i" "i < length keys" for i
        using above [of i] that by (cases "i = mid") auto
      then have "find_loop keys key low mid True = (length (filter (\<lambda>k. k < key) keys), key \<in> set keys)"
        using "1.prems"(1,3) mid 3 by (intro IH(3)) (simp_all add: compareKeys_iff)
      then show ?thesis using True 3
        by (subst find_loop.simps) (simp add: compareKeys_iff mid_def [symmetric] Let_def)
    qed
  qed
qed

text \<open>In ascending keys the search gives the number of smaller keys and whether the key is there.\<close>

lemma FindKeyIndex_ascending:
  "ascending (bn_keys n) \<Longrightarrow> FindKeyIndex key n = (length (filter (\<lambda>k. k < key) (bn_keys n)), key \<in> set (bn_keys n))"
  unfolding FindKeyIndex_def by (rule find_loop_works) auto


section \<open>The page format\<close>

text \<open>A node that its page can hold.\<close>

definition node_ok :: "bnode \<Rightarrow> bool" where
  "node_ok n \<longleftrightarrow> FitsInPage n \<and> (\<forall>k \<in> set (bn_keys n). length k \<le> MaxKeySize) \<and>
     (if bn_leaf n
      then length (bn_values n) = length (bn_keys n) \<and> bn_children n = [] \<and> length (bn_keys n) \<le> BPlusLeafCapacity
      else length (bn_children n) = Suc (length (bn_keys n)) \<and> bn_values n = [] \<and> bn_keys n \<noteq> [] \<and>
        length (bn_keys n) \<le> BPlusOrder - 1)"

lemma unat_count16: "n < 2 ^ 16 \<Longrightarrow> unat (of_nat n :: uint16) = n"
  by (simp add: unsigned_of_nat take_bit_nat_eq_self)

lemma length_EncodeEntryRef [simp]: "length (EncodeEntryRef r) = 12 + length (er_dn r)"
  by (simp add: EncodeEntryRef_def)

lemma length_key_bytes [simp]: "length (key_bytes k) = 2 + length k"
  by (simp add: key_bytes_def)

lemma read_keys_written:
  assumes "\<forall>k \<in> set ks. length k \<le> MaxKeySize"
  shows "read_keys (length ks) (pre @ concat (map key_bytes ks) @ post) (length pre) =
    Ok (ks, length pre + length (concat (map key_bytes ks)))"
  using assms
proof (induction ks arbitrary: pre)
  case (Cons k ks)
  have k: "length k \<le> 1024" "unat (of_nat (length k) :: uint16) = length k"
    using Cons.prems by (auto simp: unat_count16)
  have "read_keys (length ks) ((pre @ key_bytes k) @ concat (map key_bytes ks) @ post) (length (pre @ key_bytes k)) =
      Ok (ks, length (pre @ key_bytes k) + length (concat (map key_bytes ks)))"
    using Cons.prems by (intro Cons.IH) simp
  with k show ?case by (simp add: key_bytes_def [of k] Let_def Suc_diff_le)
qed simp

lemma read_refs_written:
  assumes "\<forall>r \<in> set rs. length (er_dn r) < 2 ^ 16"
  shows "read_refs (length rs) (pre @ concat (map EncodeEntryRef rs) @ post) (length pre) = Ok rs"
  using assms
proof (induction rs arbitrary: pre)
  case (Cons r rs)
  have r: "unat (of_nat (length (er_dn r)) :: uint16) = length (er_dn r)"
    using Cons.prems by (simp add: unat_count16)
  have "read_refs (length rs) ((pre @ EncodeEntryRef r) @ concat (map EncodeEntryRef rs) @ post) (length (pre @ EncodeEntryRef r)) = Ok rs"
    using Cons.prems by (intro Cons.IH) simp
  with r show ?case by (simp add: EncodeEntryRef_def [of r] Let_def add.assoc)
qed simp

lemma read_children_written:
  "read_children (length cs) (pre @ concat (map (put_le 8) cs) @ post) (length pre) = Ok cs"
proof (induction cs arbitrary: pre)
  case (Cons c cs)
  have "read_children (length cs) ((pre @ put_le 8 c) @ concat (map (put_le 8) cs) @ post) (length (pre @ put_le 8 c)) = Ok cs"
    by (rule Cons.IH)
  then show ?case by simp
qed simp

lemma length_node_bytes:
  assumes "node_ok n"
  shows "length (node_bytes n) = SerializedSize n"
proof -
  have "sum_list (map (\<lambda>k. 2 + length k) ks) = length (concat (map key_bytes ks))" for ks
    by (induction ks) simp_all
  moreover have "sum_list (map (\<lambda>r. 12 + length (er_dn r)) rs) = length (concat (map EncodeEntryRef rs))" for rs
    by (induction rs) simp_all
  moreover have "length (concat (map (put_le 8) cs)) = length cs * 8" for cs :: "uint64 list"
    by (induction cs) simp_all
  ultimately show ?thesis
    by (simp add: node_bytes_def SerializedSize_def)
qed

lemma dn_fits:
  assumes "node_ok n" and "r \<in> set (bn_values n)"
  shows "length (er_dn r) < 2 ^ 16"
proof -
  have leaf: "bn_leaf n" using assms by (auto simp: node_ok_def split: if_splits)
  have "12 + length (er_dn r) \<le> sum_list (map (\<lambda>r. 12 + length (er_dn r)) (bn_values n))"
    using assms(2) by (intro member_le_sum_list) auto
  then show ?thesis using assms(1) leaf by (simp add: node_ok_def FitsInPage_def SerializedSize_def)
qed

lemma node_roundtrip:
  assumes ok: "node_ok n"
  shows "Node_Deserialize (node_bytes n @ post) (bn_page n) = Ok n"
proof -
  let ?K = "length (bn_keys n)"
  define pre where "pre = [if bn_leaf n then 1 else (0 :: byte)] @ put_le 2 (of_nat ?K :: uint16) @
    put_le 8 (bn_next n) @ put_le 8 (bn_prev n) @ [0, 0]"
  define body where "body = (if bn_leaf n then concat (map EncodeEntryRef (bn_values n)) else concat (map (put_le 8) (bn_children n)))"
  have bytes: "node_bytes n @ post = pre @ concat (map key_bytes (bn_keys n)) @ body @ post"
    by (simp add: node_bytes_def pre_def body_def)
  have pre: "length pre = 21" by (simp add: pre_def)
  have K: "?K \<le> 256" "unat (of_nat ?K :: uint16) = ?K" "\<not> bn_leaf n \<Longrightarrow> ?K \<le> 127 \<and> bn_keys n \<noteq> []"
    using ok by (auto simp: node_ok_def unat_count16 split: if_splits)
  have buf: "(pre @ xs) ! 0 = (if bn_leaf n then 1 else 0)" "get_le (take 2 (drop 1 (pre @ xs))) = (of_nat ?K :: uint16)"
    "get_le (take 8 (drop 3 (pre @ xs))) = bn_next n" "get_le (take 8 (drop 11 (pre @ xs))) = bn_prev n" for xs
    by (simp_all add: pre_def)
  have keys: "read_keys ?K (pre @ concat (map key_bytes (bn_keys n)) @ body @ post) 21 =
      Ok (bn_keys n, length (pre @ concat (map key_bytes (bn_keys n))))"
    using read_keys_written [of "bn_keys n" pre "body @ post"] ok pre by (simp add: node_ok_def)
  show ?thesis
  proof (cases "bn_leaf n")
    case True
    have "read_refs (length (bn_values n)) ((pre @ concat (map key_bytes (bn_keys n))) @ body @ post)
        (length (pre @ concat (map key_bytes (bn_keys n)))) = Ok (bn_values n)"
      unfolding body_def using True dn_fits [OF ok] by (simp only: if_True, intro read_refs_written) blast
    then show ?thesis
      using True ok keys K pre unfolding bytes Node_Deserialize_def Let_def buf by (simp add: node_ok_def)
  next
    case False
    have "read_children (length (bn_children n)) ((pre @ concat (map key_bytes (bn_keys n))) @ body @ post)
        (length (pre @ concat (map key_bytes (bn_keys n)))) = Ok (bn_children n)"
      unfolding body_def using False by (simp only: if_False) (rule read_children_written)
    then show ?thesis
      using False ok keys K pre unfolding bytes Node_Deserialize_def Let_def buf
      by (simp add: node_ok_def del: read_children.simps)
  qed
qed

lemma CreatePage_ok:
  assumes ok: "node_ok n"
  obtains p where "CreatePage n = Ok p" "ph_id (p_header p) = bn_page n" "ph_type (p_header p) = PageTypeAttrIndex"
    "length (p_data p) = 4080" "Node_Deserialize (p_data p) (bn_page n) = Ok n"
proof -
  have size: "SerializedSize n \<le> 4080" using ok by (simp add: node_ok_def FitsInPage_def)
  then have data: "go_copy (replicate 4080 0) 0 (node_bytes n) = node_bytes n @ replicate (4080 - SerializedSize n) 0"
    using length_node_bytes [OF ok] by (simp add: go_copy_within)
  have ser: "Node_Serialize n (replicate 4080 0) = (Ok (length (node_bytes n)), node_bytes n @ replicate (4080 - SerializedSize n) 0)"
    using ok size unfolding Node_Serialize_def data by (auto simp: node_ok_def not_less split: if_splits)
  define h where "h = p_header (NewPage (bn_page n) PageTypeAttrIndex)
    \<lparr>ph_type := PageTypeAttrIndex, ph_items := of_nat (length (bn_keys n))\<rparr>"
  define h' where "h' = SetDirty ((if bn_leaf n then SetLeaf h else h \<lparr>ph_flags := and (ph_flags h) (not 4)\<rparr>)
    \<lparr>ph_free := of_nat (PageSize - PageHeaderSize - SerializedSize n)\<rparr>)"
  define p where "p = NewPage (bn_page n) PageTypeAttrIndex
    \<lparr>p_data := node_bytes n @ replicate (4080 - SerializedSize n) 0, p_header := h'\<rparr>"
  have "CreatePage n = Ok p"
    using ok ser by (simp add: CreatePage_def Node_SerializeToPage_def node_ok_def p_def h'_def h_def Let_def)
  moreover have "ph_id (p_header p) = bn_page n" "ph_type (p_header p) = PageTypeAttrIndex"
    by (simp_all add: p_def h'_def h_def SetDirty_def SetLeaf_def)
  moreover have "length (p_data p) = 4080" "Node_Deserialize (p_data p) (bn_page n) = Ok n"
    using size length_node_bytes [OF ok] node_roundtrip [OF ok] by (simp_all add: p_def)
  ultimately show thesis by (rule that)
qed

section \<open>The nodes in the pages\<close>

text \<open>The nodes that can be read.\<close>

definition view :: "btree \<Rightarrow> uint64 \<Rightarrow> bnode option" where
  "view t p = (case readNode p t of Ok n \<Rightarrow> Some n | _ \<Rightarrow> None)"

lemma view_Some: "view t p = Some n \<Longrightarrow> readNode p t = Ok n"
  by (simp add: view_def split: outcome.splits)

lemma writeNode_law:
  assumes run: "run_ok U (bt_pm t)" and ok: "node_ok n" and p: "bn_page n \<in> U"
  obtains t' where "writeNode n t = (Ok (), t')" "run_ok U (bt_pm t')" "view t' = (view t)(bn_page n \<mapsto> n)"
    "bt_root t' = bt_root t" "pm_total (bt_pm t') = pm_total (bt_pm t)"
proof -
  obtain pg where pg: "CreatePage n = Ok pg" "ph_id (p_header pg) = bn_page n" "ph_type (p_header pg) = PageTypeAttrIndex"
      "length (p_data pg) = 4080" "Node_Deserialize (p_data pg) (bn_page n) = Ok n"
    by (rule CreatePage_ok [OF ok])
  have pm: "pm_ok (bt_pm t)" "\<not> pm_closed (bt_pm t)" "\<not> pm_readonly (bt_pm t)" "0 < bn_page n" "bn_page n < pm_total (bt_pm t)"
    using run p by (auto simp: run_ok_def)
  note w = write_laws [OF pm(1,4,5) pg(2)]
  define pm' where "pm' = bt_pm t \<lparr>pm_file := page_file_write (unat (bn_page n)) (Page_Serialize pg) (pm_file (bt_pm t))\<rparr>"
  have wp: "WritePage pg (bt_pm t) = (Ok (), pm')" using pm w(1) by (simp add: WritePage_def pm'_def)
  have closed: "\<not> pm_closed pm'" using pm by (simp add: pm'_def)
  have rd: "ReadPage q pm' = (if q = bn_page n then Ok (stored pg) else ReadPage q (bt_pm t))" for q
    using w(3) [of q] pm(2) closed Page_roundtrip [OF pg(4)] unfolding ReadPage_def pm'_def by simp
  have st: "NewNodeFromPage (stored pg) = Ok n"
    using pg by (simp add: NewNodeFromPage_def stored_def)
  show thesis
  proof (rule that)
    show "writeNode n t = (Ok (), t \<lparr>bt_pm := pm'\<rparr>)" by (simp add: writeNode_def pg(1) wp)
    show "run_ok U (bt_pm (t \<lparr>bt_pm := pm'\<rparr>))" using run_ok_write [OF run wp] by simp
    show "view (t \<lparr>bt_pm := pm'\<rparr>) = (view t)(bn_page n \<mapsto> n)"
      using pm(4) by (auto simp: view_def readNode_def rd st fun_eq_iff)
    show "pm_total (bt_pm (t \<lparr>bt_pm := pm'\<rparr>)) = pm_total (bt_pm t)" by (simp add: pm'_def)
  qed simp
qed

lemma allocateNode_law:
  assumes run: "run_ok U (bt_pm t)" and room: "unat (pm_total (bt_pm t)) + 8 < 2 ^ 64"
  obtains p t' where "allocateNode leaf t = (Ok (if leaf then NewLeafNode p else NewInternalNode p), t')"
    "p \<notin> U" "run_ok (insert p U) (bt_pm t')" "\<And>q. q \<in> U \<Longrightarrow> view t' q = view t q"
    "bt_root t' = bt_root t" "unat (pm_total (bt_pm t')) \<le> unat (pm_total (bt_pm t)) + 8"
proof -
  have ok: "pm_ok (bt_pm t)" "\<not> pm_closed (bt_pm t)" "\<not> pm_readonly (bt_pm t)" using run by (simp_all add: run_ok_def)
  obtain p pm' where a: "AllocatePage PageTypeAttrIndex (bt_pm t) = (Ok p, pm')"
      "p \<in> set (fl_pages (pm_free (bt_pm t))) \<or> p = pm_total (bt_pm t)"
      "\<And>q. q < pm_total (bt_pm t) \<Longrightarrow> q \<noteq> p \<Longrightarrow> ReadPage q pm' = ReadPage q (bt_pm t)"
      "unat (pm_total pm') \<le> unat (pm_total (bt_pm t)) + 8"
    by (rule alloc_laws [OF ok room, of PageTypeAttrIndex]) blast
  have U: "q < pm_total (bt_pm t) \<and> q \<noteq> p" if "q \<in> U" for q using run that a(2) by (auto simp: run_ok_def)
  show thesis
  proof (rule that)
    show "allocateNode leaf t = (Ok (if leaf then NewLeafNode p else NewInternalNode p), t \<lparr>bt_pm := pm'\<rparr>)"
      by (simp add: allocateNode_def a(1))
    show "p \<notin> U" using U by blast
    show "run_ok (insert p U) (bt_pm (t \<lparr>bt_pm := pm'\<rparr>))" using run_ok_alloc [OF run room a(1)] by simp
    show "view (t \<lparr>bt_pm := pm'\<rparr>) q = view t q" if "q \<in> U" for q
      using a(3) [of q] U [OF that] by (simp add: view_def readNode_def)
  qed (use a(4) in simp_all)
qed

end
