(* ===== verification/Btree_Shape.thy ===== *)
theory Btree_Shape
  imports Btree_Pages "HOL-Library.Multiset"
begin

text \<open>
  The shape of a B+ tree: the tree that the nodes of the pages form, the place of a leaf in it as a
  context of frames, the order of its keys, its pages and its leaves from left to right.
\<close>

section \<open>Trees and contexts\<close>

datatype shape = SLeaf uint64 "(bytes \<times> entry_ref) list" | SNode uint64 "shape list" "bytes list"

fun spage :: "shape \<Rightarrow> uint64" where
  "spage (SLeaf p kvs) = p"
| "spage (SNode p cs ks) = p"

fun pages :: "shape \<Rightarrow> uint64 list" where
  "pages (SLeaf p kvs) = [p]"
| "pages (SNode p cs ks) = p # concat (map pages cs)"

fun leaves :: "shape \<Rightarrow> (uint64 \<times> (bytes \<times> entry_ref) list) list" where
  "leaves (SLeaf p kvs) = [(p, kvs)]"
| "leaves (SNode p cs ks) = concat (map leaves cs)"

definition entries :: "shape \<Rightarrow> (bytes \<times> entry_ref) list" where
  "entries g = concat (map snd (leaves g))"

text \<open>A node with a hole for one child: the children and keys left and right of it.\<close>

datatype frame = Frame uint64 "(shape \<times> bytes) list" "(bytes \<times> shape) list"

fun plug1 :: "frame \<Rightarrow> shape \<Rightarrow> shape" where
  "plug1 (Frame p ls rs) g = SNode p (map fst ls @ g # map snd rs) (map snd ls @ map fst rs)"

fun plug :: "frame list \<Rightarrow> shape \<Rightarrow> shape" where
  "plug [] g = g"
| "plug (f # fs) g = plug fs (plug1 f g)"

lemma plug_append [simp]: "plug (fs @ [f]) g = plug1 f (plug fs g)"
  by (induction fs arbitrary: g) simp_all

fun left_leaves :: "frame list \<Rightarrow> (uint64 \<times> (bytes \<times> entry_ref) list) list" where
  "left_leaves [] = []"
| "left_leaves (Frame p ls rs # fs) = left_leaves fs @ concat (map (leaves \<circ> fst) ls)"

fun right_leaves :: "frame list \<Rightarrow> (uint64 \<times> (bytes \<times> entry_ref) list) list" where
  "right_leaves [] = []"
| "right_leaves (Frame p ls rs # fs) = concat (map (leaves \<circ> snd) rs) @ right_leaves fs"

lemma leaves_plug: "leaves (plug fs g) = left_leaves fs @ leaves g @ right_leaves fs"
proof (induction fs arbitrary: g)
  case (Cons f fs)
  then show ?case by (cases f) simp
qed simp

fun frame_pages :: "frame list \<Rightarrow> uint64 list" where
  "frame_pages [] = []"
| "frame_pages (Frame p ls rs # fs) =
     p # concat (map (pages \<circ> fst) ls) @ concat (map (pages \<circ> snd) rs) @ frame_pages fs"

lemma pages_plug: "mset (pages (plug fs g)) = mset (frame_pages fs) + mset (pages g)"
proof (induction fs arbitrary: g)
  case (Cons f fs)
  then show ?case by (cases f) simp
qed simp

lemma set_pages_plug: "set (pages (plug fs g)) = set (frame_pages fs) \<union> set (pages g)"
  using arg_cong [OF pages_plug [of fs g], of set_mset] by simp

lemma distinct_pages_plug:
  "distinct (pages (plug fs g)) \<longleftrightarrow> distinct (frame_pages fs @ pages g)"
  using mset_eq_imp_distinct_iff [of "pages (plug fs g)" "frame_pages fs @ pages g"] by (simp add: pages_plug)

section \<open>Order\<close>

text \<open>Keys of a tree lie between a lower bound, included, and an upper one, excluded if there is one.\<close>

fun below :: "bytes \<Rightarrow> bytes option \<Rightarrow> bool" where
  "below k None \<longleftrightarrow> True"
| "below k (Some h) \<longleftrightarrow> k < h"

fun ordered :: "bytes \<Rightarrow> bytes option \<Rightarrow> shape \<Rightarrow> bool"
  and ordered_list :: "bytes \<Rightarrow> bytes option \<Rightarrow> shape list \<Rightarrow> bytes list \<Rightarrow> bool" where
  "ordered lo hi (SLeaf p kvs) \<longleftrightarrow>
     below lo hi \<and> ascending (map fst kvs) \<and> (\<forall>k \<in> fst ` set kvs. lo \<le> k \<and> below k hi)"
| "ordered lo hi (SNode p cs ks) \<longleftrightarrow> ordered_list lo hi cs ks"
| "ordered_list lo hi [] ks \<longleftrightarrow> False"
| "ordered_list lo hi (c # cs) [] \<longleftrightarrow> cs = [] \<and> ordered lo hi c"
| "ordered_list lo hi (c # cs) (k # ks) \<longleftrightarrow> ordered lo (Some k) c \<and> ordered_list k hi cs ks"

fun last_bound :: "bytes \<Rightarrow> (shape \<times> bytes) list \<Rightarrow> bytes" where
  "last_bound lo [] = lo"
| "last_bound lo ((c, k) # ls) = last_bound k ls"

fun first_bound :: "bytes option \<Rightarrow> (bytes \<times> shape) list \<Rightarrow> bytes option" where
  "first_bound hi [] = hi"
| "first_bound hi ((k, c) # rs) = Some k"

fun left_ordered :: "bytes \<Rightarrow> (shape \<times> bytes) list \<Rightarrow> bool" where
  "left_ordered lo [] \<longleftrightarrow> True"
| "left_ordered lo ((c, k) # ls) \<longleftrightarrow> ordered lo (Some k) c \<and> left_ordered k ls"

fun right_ordered :: "bytes option \<Rightarrow> (bytes \<times> shape) list \<Rightarrow> bool" where
  "right_ordered hi [] \<longleftrightarrow> True"
| "right_ordered hi ((k, c) # rs) \<longleftrightarrow> ordered k (first_bound hi rs) c \<and> right_ordered hi rs"

lemma ordered_list_right:
  "ordered_list lo hi (g # map snd rs) (map fst rs) \<longleftrightarrow> ordered lo (first_bound hi rs) g \<and> right_ordered hi rs"
  by (induction rs arbitrary: lo g) auto

lemma ordered_list_split:
  "ordered_list lo hi (map fst ls @ g # map snd rs) (map snd ls @ map fst rs) \<longleftrightarrow>
     left_ordered lo ls \<and> ordered (last_bound lo ls) (first_bound hi rs) g \<and> right_ordered hi rs"
proof (induction ls arbitrary: lo)
  case Nil
  show ?case using ordered_list_right [of lo hi g rs] by simp
next
  case (Cons l ls)
  then show ?case by (cases l) simp
qed

fun bounds :: "bytes \<Rightarrow> bytes option \<Rightarrow> frame list \<Rightarrow> bytes \<times> bytes option" where
  "bounds lo hi [] = (lo, hi)"
| "bounds lo hi (Frame p ls rs # fs) =
     (last_bound (fst (bounds lo hi fs)) ls, first_bound (snd (bounds lo hi fs)) rs)"

fun context_ordered :: "bytes \<Rightarrow> bytes option \<Rightarrow> frame list \<Rightarrow> bool" where
  "context_ordered lo hi [] \<longleftrightarrow> True"
| "context_ordered lo hi (Frame p ls rs # fs) \<longleftrightarrow>
     context_ordered lo hi fs \<and> left_ordered (fst (bounds lo hi fs)) ls \<and> right_ordered (snd (bounds lo hi fs)) rs"

lemma ordered_plug:
  "ordered lo hi (plug fs g) \<longleftrightarrow> context_ordered lo hi fs \<and> ordered (fst (bounds lo hi fs)) (snd (bounds lo hi fs)) g"
proof (induction fs arbitrary: g)
  case (Cons f fs)
  then show ?case by (cases f) (auto simp: ordered_list_split)
qed simp

lemma below_trans: "a < b \<Longrightarrow> below b h \<Longrightarrow> below a h" "a \<le> b \<Longrightarrow> below b h \<Longrightarrow> below a h"
  by (cases h; auto)+

lemma ordered_below: "ordered lo hi g \<Longrightarrow> below lo hi"
  and ordered_list_below: "ordered_list lo hi cs ks \<Longrightarrow> below lo hi"
  by (induction lo hi g and lo hi cs ks rule: ordered_ordered_list.induct) (auto intro: below_trans)

lemma ordered_entries:
  "ordered lo hi g \<Longrightarrow> ascending (map fst (entries g)) \<and> (\<forall>k \<in> fst ` set (entries g). lo \<le> k \<and> below k hi)"
  and ordered_list_entries: "ordered_list lo hi cs ks \<Longrightarrow>
    ascending (map fst (concat (map entries cs))) \<and> (\<forall>k \<in> fst ` set (concat (map entries cs)). lo \<le> k \<and> below k hi)"
proof (induction lo hi g and lo hi cs ks rule: ordered_ordered_list.induct)
  case (2 lo hi p cs ks)
  have "concat (map snd (concat (map leaves cs))) = concat (map entries cs)" for cs
    by (induction cs) (simp_all add: entries_def)
  then have "entries (SNode p cs ks) = concat (map entries cs)" by (simp add: entries_def)
  with 2 show ?case by simp
next
  case (5 lo hi c cs k ks)
  let ?C = "fst ` set (entries c)" and ?R = "fst ` set (concat (map entries cs))"
  from 5(3) have o: "ordered lo (Some k) c" "ordered_list k hi cs ks" by simp_all
  from 5(1) [OF o(1)] have c: "ascending (map fst (entries c))" "\<And>x. x \<in> ?C \<Longrightarrow> lo \<le> x" "\<And>x. x \<in> ?C \<Longrightarrow> x < k"
    unfolding below.simps by blast+
  from 5(2) [OF o(2)] have cs: "ascending (map fst (concat (map entries cs)))" "\<And>x. x \<in> ?R \<Longrightarrow> k \<le> x"
      "\<And>x. x \<in> ?R \<Longrightarrow> below x hi"
    by blast+
  have k: "lo \<le> k" "below k hi" using ordered_below [OF o(1)] ordered_list_below [OF o(2)] by simp_all
  have "x < y" if "x \<in> ?C" "y \<in> ?R" for x y
    using c(3) [OF that(1)] cs(2) [OF that(2)] by (rule less_le_trans)
  then have "ascending (map fst (concat (map entries (c # cs))))"
    using c(1) cs(1) unfolding list.map(2) concat.simps(2) map_append sorted_wrt_append set_map by blast
  moreover have "lo \<le> x \<and> below x hi" if "x \<in> fst ` set (concat (map entries (c # cs)))" for x
  proof -
    from that have "x \<in> ?C \<or> x \<in> ?R" by auto
    then show ?thesis using c(2,3) cs(2,3) k below_trans(1) [of x k hi] order_trans [of lo k x] by blast
  qed
  ultimately show ?case by blast
next
  case (4 lo hi c cs)
  then show ?case by simp
next
  case (1 lo hi p kvs)
  then show ?case by (simp add: entries_def)
qed simp


section \<open>Nodes\<close>

definition leaf_node :: "uint64 \<Rightarrow> (bytes \<times> entry_ref) list \<Rightarrow> uint64 \<Rightarrow> uint64 \<Rightarrow> bnode" where
  "leaf_node p kvs nx pv = \<lparr>bn_leaf = True, bn_keys = map fst kvs, bn_children = [], bn_values = map snd kvs,
     bn_next = nx, bn_prev = pv, bn_page = p\<rparr>"

definition inner_node :: "uint64 \<Rightarrow> uint64 list \<Rightarrow> bytes list \<Rightarrow> bnode" where
  "inner_node p cs ks = \<lparr>bn_leaf = False, bn_keys = ks, bn_children = cs, bn_values = [],
     bn_next = 0, bn_prev = 0, bn_page = p\<rparr>"

text \<open>Keys and references so short that a page that overflows by one of them splits into two that fit.\<close>

definition short_key :: "bytes \<Rightarrow> bool" where
  "short_key k \<longleftrightarrow> k \<noteq> [] \<and> length k \<le> 200"

definition short_entry :: "bytes \<times> entry_ref \<Rightarrow> bool" where
  "short_entry e \<longleftrightarrow> fst e \<noteq> [] \<and> length (fst e) + length (er_dn (snd e)) \<le> 200"

text \<open>The nodes of the pages form the tree.\<close>

fun rep :: "(uint64 \<Rightarrow> bnode option) \<Rightarrow> shape \<Rightarrow> bool" where
  "rep M (SLeaf p kvs) \<longleftrightarrow>
     (\<exists>nx pv. M p = Some (leaf_node p kvs nx pv) \<and> node_ok (leaf_node p kvs nx pv)) \<and> list_all short_entry kvs"
| "rep M (SNode p cs ks) \<longleftrightarrow>
     M p = Some (inner_node p (map spage cs) ks) \<and> node_ok (inner_node p (map spage cs) ks) \<and>
     list_all short_key ks \<and> list_all (rep M) cs"

lemma rep_cong: "(\<And>p. p \<in> set (pages g) \<Longrightarrow> M p = M' p) \<Longrightarrow> rep M g \<longleftrightarrow> rep M' g"
proof (induction g)
  case (SNode p cs ks)
  then have "list_all (rep M) cs \<longleftrightarrow> list_all (rep M') cs"
    by (intro list.pred_cong refl) auto
  with SNode show ?case by simp
qed simp

lemma rep_page: "rep M g \<Longrightarrow> \<exists>n. M (spage g) = Some n \<and> node_ok n \<and> bn_page n = spage g"
  by (cases g) (auto simp: leaf_node_def inner_node_def)

fun frame_node :: "frame \<Rightarrow> uint64 \<Rightarrow> bnode" where
  "frame_node (Frame p ls rs) c =
     inner_node p (map (spage \<circ> fst) ls @ c # map (spage \<circ> snd) rs) (map snd ls @ map fst rs)"

fun frame_page :: "frame \<Rightarrow> uint64" where
  "frame_page (Frame p ls rs) = p"

fun siblings :: "frame \<Rightarrow> shape list" where
  "siblings (Frame p ls rs) = map fst ls @ map snd rs"

fun frame_keys :: "frame \<Rightarrow> bytes list" where
  "frame_keys (Frame p ls rs) = map snd ls @ map fst rs"

fun path_nodes :: "uint64 \<Rightarrow> frame list \<Rightarrow> bnode list" where
  "path_nodes c [] = []"
| "path_nodes c (f # fs) = frame_node f c # path_nodes (frame_page f) fs"

fun context_rep :: "(uint64 \<Rightarrow> bnode option) \<Rightarrow> uint64 \<Rightarrow> frame list \<Rightarrow> bool" where
  "context_rep M c [] \<longleftrightarrow> True"
| "context_rep M c (f # fs) \<longleftrightarrow>
     M (frame_page f) = Some (frame_node f c) \<and> node_ok (frame_node f c) \<and> list_all short_key (frame_keys f) \<and>
     list_all (rep M) (siblings f) \<and> context_rep M (frame_page f) fs"

lemma spage_plug1 [simp]: "spage (plug1 f g) = frame_page f"
  by (cases f) simp

lemma rep_plug: "rep M (plug fs g) \<longleftrightarrow> context_rep M (spage g) fs \<and> rep M g"
proof (induction fs arbitrary: g)
  case (Cons f fs)
  have "rep M (plug1 f g) \<longleftrightarrow> M (frame_page f) = Some (frame_node f (spage g)) \<and> node_ok (frame_node f (spage g)) \<and>
      list_all short_key (frame_keys f) \<and> list_all (rep M) (siblings f) \<and> rep M g"
    by (cases f) auto
  with Cons show ?case by auto
qed simp

lemma path_nodes_append:
  "path_nodes c (fs @ [f]) = path_nodes c fs @ [frame_node f (if fs = [] then c else frame_page (last fs))]"
  by (induction fs arbitrary: c) simp_all

section \<open>Going down\<close>

lemma pick_child:
  assumes "ordered_list lo hi cs ks" and "lo \<le> key" and "below key hi"
  shows "\<exists>ls c rs. cs = map fst ls @ c # map snd rs \<and> ks = map snd ls @ map fst rs \<and>
    last_bound lo ls \<le> key \<and> below key (first_bound hi rs) \<and>
    child_loop key ks (pre @ map spage cs) (length pre) = (if rs = [] then None else Some (Ok (spage c)))"
  using assms
proof (induction ks arbitrary: lo cs pre)
  case Nil
  then obtain c where "cs = [c]" by (cases cs) auto
  with Nil show ?case by (intro exI [of _ "[]"] exI [of _ c]) simp
next
  case (Cons k ks)
  then obtain c cs' where cs: "cs = c # cs'" "ordered lo (Some k) c" "ordered_list k hi cs' ks" by (cases cs) auto
  show ?case
  proof (cases "key < k")
    case True
    have "length cs' = Suc (length ks)" if "ordered_list l h cs' ks" for l h
      using that by (induction l h cs' ks rule: ordered_ordered_list.induct(2) [of "\<lambda>_ _ _. True"]) auto
    with cs(3) have len: "length cs' = Suc (length ks)" by blast
    have "cs = map fst [] @ c # map snd (zip (k # ks) cs')" "k # ks = map snd [] @ map fst (zip (k # ks) cs')"
      using len cs(1) by simp_all
    moreover have "zip (k # ks) cs' \<noteq> []" "first_bound hi (zip (k # ks) cs') = Some k"
      using len by (cases cs'; simp)+
    ultimately show ?thesis
      using True Cons.prems(2) cs(1) by (intro exI [of _ "[]"] exI [of _ c] exI [of _ "zip (k # ks) cs'"])
        (simp add: compareKeys_iff)
  next
    case False
    then have "k \<le> key" by simp
    from Cons.IH [OF cs(3) this Cons.prems(3), of "pre @ [spage c]"] obtain ls c' rs where
      "cs' = map fst ls @ c' # map snd rs" "ks = map snd ls @ map fst rs" "last_bound k ls \<le> key"
      "below key (first_bound hi rs)"
      "child_loop key ks ((pre @ [spage c]) @ map spage cs') (length (pre @ [spage c])) = (if rs = [] then None else Some (Ok (spage c')))"
      by blast
    then show ?thesis
      using False cs(1) by (intro exI [of _ "(c, k) # ls"] exI [of _ c'] exI [of _ rs]) (simp add: compareKeys_iff)
  qed
qed

end
