(* ===== verification/Btree_Works.thy ===== *)
theory Btree_Works
  imports Btree_Shape
begin

text \<open>
  The operations on B+ trees with distinct keys: a search finds exactly the entry of its key, a scan
  lists the entries in the order of the keys, and an insertion adds its entry.
\<close>

section \<open>Going down\<close>

lemma view_0 [simp]: "view t 0 = None"
  by (simp add: view_def readNode_def)

lemma pick_key_inner:
  assumes "ordered_list lo hi cs ks" and "lo \<le> key" and "below key hi" and "\<And>c. c \<in> set cs \<Longrightarrow> spage c \<noteq> 0"
  obtains ls c rs where "cs = map fst ls @ c # map snd rs" "ks = map snd ls @ map fst rs"
    "last_bound lo ls \<le> key" "below key (first_bound hi rs)" "pick_key key (inner_node p (map spage cs) ks) = Ok (spage c)"
proof -
  from pick_child [OF assms(1-3), of "[]"] obtain ls c rs where *:
    "cs = map fst ls @ c # map snd rs" "ks = map snd ls @ map fst rs" "last_bound lo ls \<le> key"
    "below key (first_bound hi rs)" "child_loop key ks (map spage cs) 0 = (if rs = [] then None else Some (Ok (spage c)))"
    by auto
  have "spage c \<noteq> 0" using assms(4) *(1) by simp
  moreover have "last (map spage cs) = spage c" if "rs = []" using that *(1) by simp
  moreover have "cs \<noteq> []" using *(1) by simp
  ultimately have "pick_key key (inner_node p (map spage cs) ks) = Ok (spage c)"
    using *(5) by (auto simp: pick_key_def GetChildForKey_def inner_node_def)
  with * show thesis by (intro that)
qed

text \<open>The path to the leaf of a key is the context of that leaf, whose bounds contain the key.\<close>

lemma descend_finds:
  assumes "rep (view t) g" and "ordered lo hi g" and "lo \<le> key" and "below key hi" and "length (pages g) \<le> Suc fuel"
  shows "\<exists>fs p kvs nx pv n. g = plug fs (SLeaf p kvs) \<and> fst (bounds lo hi fs) \<le> key \<and> below key (snd (bounds lo hi fs)) \<and>
    view t p = Some (leaf_node p kvs nx pv) \<and> view t (spage g) = Some n \<and>
    descend fuel (pick_key key) n path t = Some (Ok (leaf_node p kvs nx pv # path_nodes p fs @ path))"
  using assms
proof (induction g arbitrary: lo hi fuel path)
  case (SLeaf p kvs)
  then obtain nx pv where "view t p = Some (leaf_node p kvs nx pv)" by auto
  then show ?case
    using SLeaf by (intro exI [of _ "[]"] exI [of _ p] exI [of _ kvs] exI [of _ nx] exI [of _ pv] exI [of _ "leaf_node p kvs nx pv"])
      (simp add: descend.simps, simp add: leaf_node_def)
next
  case (SNode p cs ks)
  let ?n = "inner_node p (map spage cs) ks"
  have n: "view t p = Some ?n" and reps: "\<And>c. c \<in> set cs \<Longrightarrow> rep (view t) c"
    using SNode.prems(1) by (auto simp: list_all_iff)
  have nz: "spage c \<noteq> 0" if "c \<in> set cs" for c using rep_page [OF reps [OF that]] by auto
  have o: "ordered_list lo hi cs ks" using SNode.prems(2) by simp
  obtain ls c rs where s: "cs = map fst ls @ c # map snd rs" "ks = map snd ls @ map fst rs"
    "last_bound lo ls \<le> key" "below key (first_bound hi rs)" "pick_key key ?n = Ok (spage c)"
    by (rule pick_key_inner [OF o SNode.prems(3,4) nz])
  have c: "c \<in> set cs" "ordered (last_bound lo ls) (first_bound hi rs) c"
    using o by (simp_all add: s(1,2) ordered_list_split)
  have "Suc (length (pages c)) \<le> length (pages (SNode p cs ks))" by (simp add: s(1))
  moreover have "0 < length (pages c)" by (cases c) simp_all
  ultimately have "fuel \<noteq> 0" "length (pages c) \<le> fuel"
    using SNode.prems(5) by linarith+
  then obtain fuel' where fuel: "fuel = Suc fuel'" "length (pages c) \<le> Suc fuel'"
    using not0_implies_Suc by blast
  from SNode.IH [OF c(1) reps [OF c(1)] c(2) s(3,4) fuel(2), of "?n # path"] obtain fs q kvs nx pv m where IH:
    "c = plug fs (SLeaf q kvs)" "fst (bounds (last_bound lo ls) (first_bound hi rs) fs) \<le> key" "below key (snd (bounds (last_bound lo ls) (first_bound hi rs) fs))"
    "view t q = Some (leaf_node q kvs nx pv)" "view t (spage c) = Some m"
    "descend fuel' (pick_key key) m (?n # path) t = Some (Ok (leaf_node q kvs nx pv # path_nodes q fs @ ?n # path))"
    by blast
  let ?f = "Frame p ls rs"
  have b: "bounds lo hi (fs @ [?f]) = bounds (last_bound lo ls) (first_bound hi rs) fs" for fs
  proof (induction fs)
    case (Cons f fs) then show ?case by (cases f) simp
  qed simp
  have "spage (plug fs (SLeaf q kvs)) = (if fs = [] then q else frame_page (last fs))"
    by (induction fs rule: rev_induct) simp_all
  then have path: "path_nodes q (fs @ [?f]) = path_nodes q fs @ [?n]"
    by (simp add: path_nodes_append s(1,2) IH(1) comp_def split del: if_split)
  have "descend fuel (pick_key key) ?n path t = Some (Ok (leaf_node q kvs nx pv # path_nodes q (fs @ [?f]) @ path))"
    using s(5) IH(6) view_Some [OF IH(5)] unfolding fuel(1) path
    by (subst descend.simps) (simp add: inner_node_def)
  then show ?case
    using IH(1-4) b [of fs] n s(1,2)
    by (intro exI [of _ "fs @ [?f]"] exI [of _ q] exI [of _ kvs] exI [of _ nx] exI [of _ pv] exI [of _ ?n]) simp
qed

section \<open>The chain of leaves\<close>

fun first_page :: "(uint64 \<times> 'a) list \<Rightarrow> uint64" where
  "first_page [] = 0"
| "first_page ((p, x) # ls) = p"

fun linked :: "(uint64 \<Rightarrow> bnode option) \<Rightarrow> uint64 \<Rightarrow> (uint64 \<times> (bytes \<times> entry_ref) list) list \<Rightarrow> bool" where
  "linked M pv [] \<longleftrightarrow> True"
| "linked M pv ((p, kvs) # ls) \<longleftrightarrow> M p = Some (leaf_node p kvs (first_page ls) pv) \<and> linked M p ls"

fun last_page :: "uint64 \<Rightarrow> (uint64 \<times> 'a) list \<Rightarrow> uint64" where
  "last_page pv [] = pv"
| "last_page pv ((p, x) # ls) = last_page p ls"

fun linked_to :: "(uint64 \<Rightarrow> bnode option) \<Rightarrow> uint64 \<Rightarrow> (uint64 \<times> (bytes \<times> entry_ref) list) list \<Rightarrow> uint64 \<Rightarrow> bool" where
  "linked_to M pv [] nx \<longleftrightarrow> True"
| "linked_to M pv ((p, kvs) # ls) nx \<longleftrightarrow>
     M p = Some (leaf_node p kvs (if ls = [] then nx else first_page ls) pv) \<and> linked_to M p ls nx"

lemma linked_split:
  "linked M pv (as @ (p, kvs) # bs) \<longleftrightarrow>
     linked_to M pv as p \<and> M p = Some (leaf_node p kvs (first_page bs) (last_page pv as)) \<and> linked M p bs"
proof (induction as arbitrary: pv)
  case (Cons a as)
  then show ?case by (cases a; cases as) auto
qed simp

lemma linked_cong: "(\<And>p. p \<in> fst ` set ls \<Longrightarrow> M p = M' p) \<Longrightarrow> linked M pv ls \<longleftrightarrow> linked M' pv ls"
  by (induction ls arbitrary: pv) (auto simp: image_iff)

lemma leaves_in_pages: "fst ` set (leaves g) \<subseteq> set (pages g)"
  by (induction g) auto

lemma length_leaves: "length (leaves g) \<le> length (pages g)"
proof (induction g)
  case (SNode p cs ks)
  then have "length (concat (map leaves cs)) \<le> length (concat (map pages cs))"
    by (induction cs) (simp_all add: add_le_mono)
  then show ?case by simp
qed simp

section \<open>Trees in the pages\<close>

text \<open>A tree in the pages of its manager.\<close>

definition tree_ok :: "btree \<Rightarrow> shape \<Rightarrow> bool" where
  "tree_ok t g \<longleftrightarrow> run_ok (set (pages g)) (bt_pm t) \<and> bt_root t = spage g \<and> distinct (pages g) \<and>
     rep (view t) g \<and> ordered [] None g \<and> linked (view t) 0 (leaves g)"

lemma pages_fuel:
  assumes "run_ok (set ps) (bt_pm t)" and "distinct ps"
  shows "length ps < fuel_of t"
proof -
  have inj: "inj_on unat (set ps)" by (auto simp: inj_on_def dest: word_unat_eq_iff [THEN iffD2])
  have "unat ` set ps \<subseteq> {1..<unat (pm_total (bt_pm t))}"
    using assms(1) by (auto simp: run_ok_def word_less_nat_alt Suc_le_eq unat_gt_0)
  then have "card (unat ` set ps) \<le> card {1..<unat (pm_total (bt_pm t))}" by (intro card_mono) simp_all
  moreover have "card (unat ` set ps) = length ps" using assms(2) by (simp add: card_image [OF inj] distinct_card)
  moreover have "0 < unat (pm_total (bt_pm t))" using assms(1) by (simp add: run_ok_def pm_ok_def word_less_nat_alt)
  ultimately show ?thesis by simp
qed

text \<open>The leaf of a key: its place in the tree and in the chain of leaves.\<close>

lemma findLeaf_ok:
  assumes ok: "tree_ok t g"
  obtains fs p kvs where "g = plug fs (SLeaf p kvs)" "fst (bounds [] None fs) \<le> key" "below key (snd (bounds [] None fs))"
    "view t p = Some (leaf_node p kvs (first_page (right_leaves fs)) (last_page 0 (left_leaves fs)))"
    "findLeafWithPath key t =
       Some (Ok (leaf_node p kvs (first_page (right_leaves fs)) (last_page 0 (left_leaves fs)) # path_nodes p fs))"
proof -
  have fuel: "length (pages g) \<le> Suc (fuel_of t)"
    using pages_fuel [of "pages g" t] ok by (simp add: tree_ok_def)
  have r: "rep (view t) g" "ordered [] None g" using ok by (simp_all add: tree_ok_def)
  from descend_finds [OF r _ _ fuel, of key "[]"] obtain fs p kvs nx pv n where *:
    "g = plug fs (SLeaf p kvs)" "fst (bounds [] None fs) \<le> key" "below key (snd (bounds [] None fs))"
    "view t p = Some (leaf_node p kvs nx pv)" "view t (spage g) = Some n"
    "descend (fuel_of t) (pick_key key) n [] t = Some (Ok (leaf_node p kvs nx pv # path_nodes p fs @ []))"
    by auto
  have "linked (view t) 0 (left_leaves fs @ (p, kvs) # right_leaves fs)"
    using ok *(1) by (simp add: tree_ok_def leaves_plug)
  then have "leaf_node p kvs nx pv = leaf_node p kvs (first_page (right_leaves fs)) (last_page 0 (left_leaves fs))"
    using *(4) unfolding linked_split by simp
  moreover have "findLeafWithPath key t = Some (Ok (leaf_node p kvs nx pv # path_nodes p fs))"
  proof -
    have "bt_root t \<noteq> 0" "readNode (bt_root t) t = Ok n"
      using ok *(5) view_Some [OF *(5)] by (auto simp: tree_ok_def)
    then show ?thesis using *(6) by (simp add: findLeafWithPath_def down_def)
  qed
  ultimately show thesis using * by (intro that) simp_all
qed

text \<open>The leaves left of the place of a key have smaller keys, those right of it greater ones.\<close>

abbreviation leaf_keys :: "(uint64 \<times> (bytes \<times> entry_ref) list) list \<Rightarrow> bytes set" where
  "leaf_keys ls \<equiv> fst ` set (concat (map snd ls))"

lemma left_ordered_keys:
  "left_ordered lo ls \<Longrightarrow> lo \<le> last_bound lo ls \<and> (\<forall>k \<in> leaf_keys (concat (map (leaves \<circ> fst) ls)). k < last_bound lo ls)"
proof (induction ls arbitrary: lo)
  case (Cons l ls)
  obtain c k where l: "l = (c, k)" by (cases l)
  have o: "ordered lo (Some k) c" "left_ordered k ls" using Cons.prems l by simp_all
  have "lo < k" using ordered_below [OF o(1)] by simp
  have c: "x < k" if "x \<in> fst ` set (entries c)" for x using conjunct2 [OF ordered_entries [OF o(1)]] that by auto
  have IH: "k \<le> last_bound k ls" "\<And>x. x \<in> leaf_keys (concat (map (leaves \<circ> fst) ls)) \<Longrightarrow> x < last_bound k ls"
    using Cons.IH [OF o(2)] by blast+
  have "leaf_keys (concat (map (leaves \<circ> fst) (l # ls))) = fst ` set (entries c) \<union> leaf_keys (concat (map (leaves \<circ> fst) ls))"
    by (simp add: l entries_def image_Un)
  then have "x < last_bound k ls" if "x \<in> leaf_keys (concat (map (leaves \<circ> fst) (l # ls)))" for x
    using that c [of x] IH less_le_trans by blast
  then show ?case using \<open>lo < k\<close> IH(1) l by (simp only: last_bound.simps) (meson less_imp_le order_trans)
qed simp

lemma right_ordered_keys:
  assumes "right_ordered hi rs" and "below x (first_bound hi rs)"
  shows "below x hi \<and> (\<forall>k \<in> leaf_keys (concat (map (leaves \<circ> snd) rs)). x < k)"
  using assms
proof (induction rs arbitrary: x)
  case (Cons r rs)
  obtain k c where r: "r = (k, c)" by (cases r)
  have o: "ordered k (first_bound hi rs) c" "right_ordered hi rs" and x: "x < k" using Cons.prems r by simp_all
  have "below x (first_bound hi rs)" using below_trans(1) [OF x ordered_below [OF o(1)]] .
  from Cons.IH [OF o(2) this] have IH: "below x hi" "\<And>y. y \<in> leaf_keys (concat (map (leaves \<circ> snd) rs)) \<Longrightarrow> x < y" by blast+
  have "x < y" if "y \<in> fst ` set (entries c)" for y
    using conjunct2 [OF ordered_entries [OF o(1)]] that x less_le_trans by blast
  moreover have "leaf_keys (concat (map (leaves \<circ> snd) (r # rs))) = fst ` set (entries c) \<union> leaf_keys (concat (map (leaves \<circ> snd) rs))"
    by (simp add: r entries_def image_Un)
  ultimately show ?case using IH by blast
qed simp

lemma context_keys:
  assumes "context_ordered lo hi fs" and "fst (bounds lo hi fs) \<le> key" and "below key (snd (bounds lo hi fs))"
  shows "(\<forall>k \<in> leaf_keys (left_leaves fs). k < key) \<and> (\<forall>k \<in> leaf_keys (right_leaves fs). key < k)"
  using assms
proof (induction fs)
  case (Cons f fs)
  obtain p ls rs where f: "f = Frame p ls rs" by (cases f)
  have o: "context_ordered lo hi fs" "left_ordered (fst (bounds lo hi fs)) ls" "right_ordered (snd (bounds lo hi fs)) rs"
    "last_bound (fst (bounds lo hi fs)) ls \<le> key" "below key (first_bound (snd (bounds lo hi fs)) rs)"
    using Cons.prems f by simp_all
  note l = left_ordered_keys [OF o(2)] and r = right_ordered_keys [OF o(3,5)]
  have le: "fst (bounds lo hi fs) \<le> key" by (rule order_trans [OF conjunct1 [OF l] o(4)])
  note IH = Cons.IH [OF o(1) le conjunct1 [OF r]]
  have keys: "leaf_keys (left_leaves (f # fs)) = leaf_keys (left_leaves fs) \<union> leaf_keys (concat (map (leaves \<circ> fst) ls))"
    "leaf_keys (right_leaves (f # fs)) = leaf_keys (concat (map (leaves \<circ> snd) rs)) \<union> leaf_keys (right_leaves fs)"
    by (simp_all add: f image_Un)
  have "k < key" if "k \<in> leaf_keys (concat (map (leaves \<circ> fst) ls))" for k
    using bspec [OF conjunct2 [OF l] that] o(4) by (rule less_le_trans)
  then show ?case unfolding keys ball_Un using IH r by simp
qed simp

section \<open>Search\<close>

lemma leaf_node_sel [simp]:
  "bn_leaf (leaf_node p kvs nx pv)" "bn_keys (leaf_node p kvs nx pv) = map fst kvs" "bn_children (leaf_node p kvs nx pv) = []"
  "bn_values (leaf_node p kvs nx pv) = map snd kvs" "bn_next (leaf_node p kvs nx pv) = nx" "bn_prev (leaf_node p kvs nx pv) = pv"
  "bn_page (leaf_node p kvs nx pv) = p" "leaf_entries (leaf_node p kvs nx pv) = kvs"
  by (simp_all add: leaf_node_def leaf_entries_def zip_map_fst_snd)

lemma take_key_other: "key \<notin> fst ` set kvs \<Longrightarrow> take_key key kvs = ([], kvs \<noteq> [])"
  by (cases kvs) (auto simp: compareKeys_iff)

lemma collect_next_none:
  assumes "linked (view t) p ls" and "key \<notin> leaf_keys ls" and "length ls \<le> fuel" and "bn_next leaf = first_page ls"
  shows "collect_next fuel key leaf refs t = Some refs"
  using assms
proof (induction ls arbitrary: p leaf fuel)
  case Nil
  then show ?case by (subst collect_next.simps) simp
next
  case (Cons l ls)
  obtain q kvs where l: "l = (q, kvs)" by (cases l)
  obtain fuel' where fuel: "fuel = Suc fuel'" "length ls \<le> fuel'" using Cons.prems(3) by (cases fuel) auto
  let ?n = "leaf_node q kvs (first_page ls) p"
  have v: "view t q = Some ?n" using Cons.prems(1) l by simp
  then have n: "readNode q t = Ok ?n" "linked (view t) q ls" "q \<noteq> 0" using Cons.prems(1) l by (auto simp: view_Some)
  have "key \<notin> fst ` set kvs" "key \<notin> leaf_keys ls" using Cons.prems(2) l by (simp_all add: image_Un)
  moreover have "collect_next fuel' key ?n refs t = Some refs"
    using calculation(2) by (intro Cons.IH [OF n(2) _ fuel(2)]) simp_all
  ultimately show ?case
    using Cons.prems(4) n(1,3) fuel(1) l by (subst collect_next.simps) (simp add: take_key_other split: bool.split)
qed

lemma back_leaf_stays:
  assumes "linked_to (view t) 0 as p" and "bn_prev leaf = last_page 0 as" and "key \<notin> leaf_keys as"
    and "0 < fuel"
  shows "back_leaf fuel key leaf t = Some leaf"
proof (cases as rule: rev_cases)
  case Nil
  then show ?thesis using assms(2) by (subst back_leaf.simps) simp
next
  case (snoc as' a)
  obtain q kvs where a: "a = (q, kvs)" by (cases a)
  have "linked_to (view t) pv (xs @ [(q, kvs)]) p \<Longrightarrow> \<exists>pv'. view t q = Some (leaf_node q kvs p pv')" for pv xs
  proof (induction xs arbitrary: pv)
    case (Cons x xs) then show ?case by (cases x) (simp, blast)
  qed auto
  then obtain pv' where q: "view t q = Some (leaf_node q kvs p pv')" using assms(1) snoc a by blast
  have "last_page pv (xs @ [(q, kvs)]) = q" for pv and xs :: "(uint64 \<times> (bytes \<times> entry_ref) list) list"
  proof (induction xs arbitrary: pv)
    case (Cons x xs) then show ?case by (cases x) simp
  qed simp
  then have prev: "bn_prev leaf = q" using assms(2) snoc a by simp
  have "kvs \<noteq> [] \<Longrightarrow> last (map fst kvs) \<noteq> key"
    using assms(3) snoc a by (auto simp: image_Un last_map image_iff)
  then show ?thesis
    using prev view_Some [OF q] assms(4) by (subst back_leaf.simps) (auto simp: compareKeys_iff split: nat.split)
qed

lemma take_key_found:
  assumes "ascending (map fst kvs)" and "(key, v) \<in> set kvs"
  shows "\<exists>other. take_key key (drop (length (filter (\<lambda>k. k < key) (map fst kvs))) kvs) = ([v], other)"
proof -
  obtain as bs where kvs: "kvs = as @ (key, v) # bs" using assms(2) by (meson split_list)
  have "\<forall>x \<in> fst ` set as. x < key" "\<forall>x \<in> fst ` set bs. key < x"
    using assms(1) by (auto simp: kvs sorted_wrt_append)
  then have "filter (\<lambda>k. k < key) (map fst as) = map fst as" "filter (\<lambda>k. k < key) (map fst bs) = []" "key \<notin> fst ` set bs"
    by (auto simp: filter_id_conv filter_empty_conv dest: order.asym)
  then show ?thesis by (simp add: kvs compareKeys_iff take_key_other)
qed

lemma ascending_lookup:
  assumes "ascending (map fst kvs)" and "(key, v) \<in> set kvs"
  shows "filter (\<lambda>e. fst e = key) kvs = [(key, v)]"
proof -
  obtain as bs where kvs: "kvs = as @ (key, v) # bs" using assms(2) by (meson split_list)
  have "\<forall>x \<in> fst ` set as. x < key" "\<forall>x \<in> fst ` set bs. key < x"
    using assms(1) by (auto simp: kvs sorted_wrt_append)
  then have "filter (\<lambda>e. fst e = key) as = []" "filter (\<lambda>e. fst e = key) bs = []"
    by (auto simp: filter_empty_conv)
  then show ?thesis by (simp add: kvs)
qed

definition lookup :: "bytes \<Rightarrow> (bytes \<times> entry_ref) list \<Rightarrow> entry_ref list" where
  "lookup key kvs = map snd (filter (\<lambda>e. fst e = key) kvs)"

text \<open>The walk to the leaf of a key, with what the proofs about searches need to know about it.\<close>

lemma locate:
  assumes ok: "tree_ok t g"
  obtains fs p kvs where "g = plug fs (SLeaf p kvs)"
    "findLeafWithPath key t = Some (Ok (leaf_node p kvs (first_page (right_leaves fs)) (last_page 0 (left_leaves fs)) # path_nodes p fs))"
    "findLeaf key t = Some (Ok (leaf_node p kvs (first_page (right_leaves fs)) (last_page 0 (left_leaves fs))))"
    "ascending (map fst kvs)" "key \<notin> leaf_keys (left_leaves fs)" "key \<notin> leaf_keys (right_leaves fs)"
    "linked_to (view t) 0 (left_leaves fs) p" "linked (view t) p (right_leaves fs)"
    "0 < fuel_of t" "length (right_leaves fs) \<le> fuel_of t"
proof -
  obtain fs p kvs where g: "g = plug fs (SLeaf p kvs)" and b: "fst (bounds [] None fs) \<le> key" "below key (snd (bounds [] None fs))"
    and path: "findLeafWithPath key t =
       Some (Ok (leaf_node p kvs (first_page (right_leaves fs)) (last_page 0 (left_leaves fs)) # path_nodes p fs))"
    by (rule findLeaf_ok [OF ok])
  have o: "context_ordered [] None fs" "ordered (fst (bounds [] None fs)) (snd (bounds [] None fs)) (SLeaf p kvs)"
    using ok by (simp_all add: tree_ok_def g ordered_plug)
  have run: "run_ok (set (pages g)) (bt_pm t)" "distinct (pages g)" using ok by (simp_all add: tree_ok_def)
  have "length (right_leaves fs) \<le> length (pages g)" using length_leaves [of g] by (simp add: g leaves_plug)
  then have fuel: "0 < fuel_of t" "length (right_leaves fs) \<le> fuel_of t" using pages_fuel [OF run] by simp_all
  have link: "linked_to (view t) 0 (left_leaves fs) p" "linked (view t) p (right_leaves fs)"
    using ok unfolding tree_ok_def g leaves_plug by (simp_all add: linked_split)
  show thesis
    by (rule that [OF g path _ _ _ _ link fuel])
      (use path o(2) context_keys [OF o(1) b] in \<open>auto simp: findLeaf_def findLeafWithPath_def\<close>)
qed

lemma lookup_absent: "key \<notin> fst ` set kvs \<Longrightarrow> lookup key kvs = []"
  by (auto simp: lookup_def filter_empty_conv image_iff)

lemma lookup_plug:
  assumes "key \<notin> leaf_keys (left_leaves fs)" "key \<notin> leaf_keys (right_leaves fs)"
  shows "lookup key (entries (plug fs (SLeaf p kvs))) = lookup key kvs"
proof -
  have "entries (plug fs (SLeaf p kvs)) = concat (map snd (left_leaves fs)) @ kvs @ concat (map snd (right_leaves fs))"
    by (simp add: entries_def leaves_plug)
  moreover have "filter (\<lambda>e. fst e = key) xs = []" if "key \<notin> fst ` set xs" for xs :: "(bytes \<times> entry_ref) list"
    using that by (auto simp: filter_empty_conv image_iff)
  ultimately show ?thesis using assms by (simp add: lookup_def del: concat.simps)
qed

text \<open>A key that is in neither leaf has no position.\<close>

lemma key_position_absent:
  assumes "linked (view t) p R" "key \<notin> leaf_keys R" "ascending (map fst (concat (map snd R)))"
    and "ascending (map fst kvs)" "key \<notin> fst ` set kvs"
  shows "\<exists>l i. key_position key (leaf_node p kvs (first_page R) q) t = (l, i, False)"
proof -
  have "\<not> (\<exists>n. readNode (first_page R) t = Ok n \<and> snd (FindKeyIndex key n))"
  proof (cases R)
    case (Cons r rs)
    obtain q kvs' where r: "r = (q, kvs')" by (cases r)
    have n: "readNode q t = Ok (leaf_node q kvs' (first_page rs) p)" using assms(1) Cons r by (simp add: view_Some)
    have "ascending (map fst kvs')" using assms(3) by (simp add: Cons r sorted_wrt_append)
    then have "snd (FindKeyIndex key (leaf_node q kvs' (first_page rs) p)) \<longleftrightarrow> key \<in> fst ` set kvs'"
      by (simp add: FindKeyIndex_ascending)
    moreover have "key \<notin> fst ` set kvs'" using assms(2) by (simp add: Cons r image_Un)
    ultimately show ?thesis using n by (simp add: Cons r)
  qed (simp add: readNode_def)
  moreover have "\<not> snd (FindKeyIndex key (leaf_node p kvs (first_page R) q))"
    using FindKeyIndex_ascending [of "leaf_node p kvs (first_page R) q" key] assms(4,5) by simp
  ultimately show ?thesis by (auto simp: key_position_def split: outcome.split prod.split)
qed

lemma Search_ok:
  assumes ok: "tree_ok t g" and key: "key \<noteq> []"
  shows "BTree_Search key t = Some (Ok (lookup key (entries g)))"
proof -
  obtain fs p kvs where g: "g = plug fs (SLeaf p kvs)"
    and leaf: "findLeaf key t = Some (Ok (leaf_node p kvs (first_page (right_leaves fs)) (last_page 0 (left_leaves fs))))"
    and asc: "ascending (map fst kvs)" and out: "key \<notin> leaf_keys (left_leaves fs)" "key \<notin> leaf_keys (right_leaves fs)"
    and link: "linked_to (view t) 0 (left_leaves fs) p" "linked (view t) p (right_leaves fs)"
    and fuel: "0 < fuel_of t" "length (right_leaves fs) \<le> fuel_of t"
    by (rule locate [OF ok, of key])
  let ?leaf = "leaf_node p kvs (first_page (right_leaves fs)) (last_page 0 (left_leaves fs))"
  have stay: "back_leaf (fuel_of t) key ?leaf t = Some ?leaf"
    by (rule back_leaf_stays [OF link(1) _ out(1) fuel(1)]) simp
  have entries: "lookup key (entries g) = lookup key kvs" using lookup_plug [OF out] by (simp add: g)
  have found: "FindKeyIndex key ?leaf = (length (filter (\<lambda>k. k < key) (map fst kvs)), key \<in> fst ` set kvs)"
    using FindKeyIndex_ascending [of ?leaf key] asc by simp
  show ?thesis
  proof (cases "key \<in> fst ` set kvs")
    case True
    then obtain v where kv: "(key, v) \<in> set kvs" by auto
    obtain other where tk: "take_key key (drop (length (filter (\<lambda>k. k < key) (map fst kvs))) kvs) = ([v], other)"
      using take_key_found [OF asc kv] by blast
    have "collect_next (fuel_of t) key ?leaf [v] t = Some [v]"
      by (rule collect_next_none [OF link(2) out(2) fuel(2)]) simp
    then show ?thesis
      using key leaf stay found True tk ascending_lookup [OF asc kv] unfolding BTree_Search_def key_position_def entries
      by (cases other) (simp_all add: lookup_def)
  next
    case False
    have "ascending (map fst (entries g))" using ok ordered_entries by (auto simp: tree_ok_def)
    then have "ascending (map fst (concat (map snd (right_leaves fs))))"
      by (simp add: entries_def g leaves_plug sorted_wrt_append)
    from key_position_absent [OF link(2) out(2) this asc False, of "last_page 0 (left_leaves fs)"] show ?thesis
      using key leaf stay unfolding BTree_Search_def entries by (auto simp: lookup_absent [OF False])
  qed
qed

end
