(* ===== verification/Btree_Insert.thy ===== *)
theory Btree_Insert
  imports Btree_Works
begin

text \<open>
  Insertion into a B+ tree whose keys are distinct: the splits fit their pages, and the tree that
  results has the new entry and is well formed.
\<close>

section \<open>Sizes\<close>

lemma size_leaf_node:
  "SerializedSize (leaf_node p kvs nx pv) = 21 + sum_list (map (\<lambda>e. 14 + length (fst e) + length (er_dn (snd e))) kvs)"
  by (induction kvs) (simp_all add: SerializedSize_def leaf_node_def)

lemma size_inner_node:
  "SerializedSize (inner_node p cs ks) = 21 + sum_list (map (\<lambda>k. 2 + length k) ks) + 8 * length cs"
  by (simp add: SerializedSize_def inner_node_def)

lemma sum_list_between:
  assumes "\<And>x. x \<in> set xs \<Longrightarrow> a \<le> f x \<and> f x \<le> (b :: nat)"
  shows "a * length xs \<le> sum_list (map f xs) \<and> sum_list (map f xs) \<le> b * length xs"
  using assms by (induction xs) (simp_all add: add_mono)

lemma leaf_halves_arith:
  fixes L R a b :: nat
  assumes "15 * a \<le> L" "L \<le> 214 * a" "15 * b \<le> R" "R \<le> 214 * b" "b \<le> a" "a \<le> Suc b" "L + R \<le> 4273"
  shows "L \<le> 4059" "R \<le> 4059"
  using assms by linarith+

lemma inner_halves_arith:
  fixes L R a b m n :: nat
  assumes "3 * a \<le> L" "L \<le> 202 * a" "3 * b \<le> R" "R \<le> 202 * b" "3 \<le> m" "n = Suc (a + b)" "a \<le> Suc b" "b \<le> a"
    "L + m + R + 8 * Suc n \<le> 4269"
  shows "L + 8 * Suc a \<le> 4059" "R + 8 * Suc b \<le> 4059"
proof -
  have *: "L + m + R + 8 * a + 8 * b + 16 \<le> 4269" "a \<le> b + 1" using assms(6,7,9) by simp_all
  have "L + 8 * a + 8 \<le> 4059" using assms(1-5) * by linarith
  then show "L + 8 * Suc a \<le> 4059" by simp
  have "R + 8 * b + 8 \<le> 4059" using assms(1-5,8) * by linarith
  then show "R + 8 * Suc b \<le> 4059" by simp
qed

lemma leaf_halves_fit:
  assumes short: "list_all short_entry kvs" and over: "SerializedSize (leaf_node p kvs nx pv) \<le> 4080 + 214"
    and sp: "sp = (length kvs + 1) div 2"
  shows "SerializedSize (leaf_node q (take sp kvs) nx' pv') \<le> 4080" "SerializedSize (leaf_node q (drop sp kvs) nx' pv') \<le> 4080"
proof -
  define f where "f = (\<lambda>e :: bytes \<times> entry_ref. 14 + length (fst e) + length (er_dn (snd e)))"
  have size: "SerializedSize (leaf_node p kvs nx pv) = 21 + sum_list (map f kvs)" for p kvs nx pv
    by (simp add: size_leaf_node f_def)
  have b: "15 \<le> f e \<and> f e \<le> 214" if "e \<in> set kvs" for e
    using short that by (auto simp: list_all_iff short_entry_def Suc_le_eq f_def)
  have l: "15 * length (take sp kvs) \<le> sum_list (map f (take sp kvs)) \<and> sum_list (map f (take sp kvs)) \<le> 214 * length (take sp kvs)"
    by (rule sum_list_between) (rule b, erule in_set_takeD)
  have r: "15 * length (drop sp kvs) \<le> sum_list (map f (drop sp kvs)) \<and> sum_list (map f (drop sp kvs)) \<le> 214 * length (drop sp kvs)"
    by (rule sum_list_between) (rule b, erule in_set_dropD)
  have sum: "sum_list (map f (take sp kvs)) + sum_list (map f (drop sp kvs)) = sum_list (map f kvs)"
    by (simp only: sum_list.append [symmetric] map_append [symmetric] append_take_drop_id)
  have len: "length (drop sp kvs) \<le> length (take sp kvs)" "length (take sp kvs) \<le> Suc (length (drop sp kvs))"
    using sp by simp_all
  have tot: "sum_list (map f (take sp kvs)) + sum_list (map f (drop sp kvs)) \<le> 4273"
    using over unfolding size sum by simp
  note * = leaf_halves_arith [OF conjunct1 [OF l] conjunct2 [OF l] conjunct1 [OF r] conjunct2 [OF r] len tot]
  show "SerializedSize (leaf_node q (take sp kvs) nx' pv') \<le> 4080" "SerializedSize (leaf_node q (drop sp kvs) nx' pv') \<le> 4080"
    using * unfolding size by simp_all
qed

lemma inner_halves_fit:
  assumes short: "list_all short_key ks" and over: "SerializedSize (inner_node p cs ks) \<le> 4080 + 210"
    and cs: "length cs = Suc (length ks)" and sp: "sp = length ks div 2" "sp < length ks"
  shows "SerializedSize (inner_node q (take (Suc sp) cs) (take sp ks)) \<le> 4080"
    "SerializedSize (inner_node q (drop (Suc sp) cs) (drop (Suc sp) ks)) \<le> 4080"
proof -
  define f where "f = (\<lambda>k :: bytes. 2 + length k)"
  have size: "SerializedSize (inner_node p cs ks) = 21 + sum_list (map f ks) + 8 * length cs" for p cs ks
    by (simp add: size_inner_node f_def)
  have b: "3 \<le> f k \<and> f k \<le> 202" if "k \<in> set ks" for k
    using short that by (auto simp: list_all_iff short_key_def Suc_le_eq f_def)
  have l: "3 * length (take sp ks) \<le> sum_list (map f (take sp ks)) \<and> sum_list (map f (take sp ks)) \<le> 202 * length (take sp ks)"
    by (rule sum_list_between) (rule b, erule in_set_takeD)
  have r: "3 * length (drop (Suc sp) ks) \<le> sum_list (map f (drop (Suc sp) ks)) \<and>
      sum_list (map f (drop (Suc sp) ks)) \<le> 202 * length (drop (Suc sp) ks)"
    by (rule sum_list_between) (rule b, erule in_set_dropD)
  have mid: "3 \<le> f (ks ! sp)" using b [of "ks ! sp"] sp(2) by simp
  have sum: "sum_list (map f (take sp ks)) + f (ks ! sp) + sum_list (map f (drop (Suc sp) ks)) = sum_list (map f ks)"
    using arg_cong [OF id_take_nth_drop [OF sp(2)], of "\<lambda>xs. sum_list (map f xs)"] by simp
  have len: "length ks = Suc (length (take sp ks) + length (drop (Suc sp) ks))"
    "length (take sp ks) \<le> Suc (length (drop (Suc sp) ks))" "length (drop (Suc sp) ks) \<le> length (take sp ks)"
    using sp by simp_all
  have tot: "sum_list (map f (take sp ks)) + f (ks ! sp) + sum_list (map f (drop (Suc sp) ks)) + 8 * Suc (length ks) \<le> 4269"
    using over unfolding size sum cs by simp
  note * = inner_halves_arith [OF conjunct1 [OF l] conjunct2 [OF l] conjunct1 [OF r] conjunct2 [OF r] mid len tot]
  have "length (take (Suc sp) cs) = Suc (length (take sp ks))" "length (drop (Suc sp) cs) = Suc (length (drop (Suc sp) ks))"
    using sp(2) cs by simp_all
  with * show "SerializedSize (inner_node q (take (Suc sp) cs) (take sp ks)) \<le> 4080"
    "SerializedSize (inner_node q (drop (Suc sp) cs) (drop (Suc sp) ks)) \<le> 4080"
    unfolding size by simp_all
qed

section \<open>The place of a separator in a frame\<close>

lemma left_ordered_seps:
  "left_ordered lo ls \<Longrightarrow> ascending (map snd ls) \<and> (\<forall>k \<in> snd ` set ls. lo < k \<and> k \<le> last_bound lo ls)"
proof (induction ls arbitrary: lo)
  case (Cons l ls)
  obtain c k where l: "l = (c, k)" by (cases l)
  have o: "lo < k" "left_ordered k ls" using Cons.prems l ordered_below [of lo "Some k" c] by simp_all
  note IH = Cons.IH [OF o(2)] and le = conjunct1 [OF left_ordered_keys [OF o(2)]]
  have "lo < x" if "x \<in> snd ` set ls" for x using IH that o(1) less_trans by blast
  then show ?case using IH le o(1) l by auto
qed simp

lemma right_ordered_seps:
  "right_ordered hi rs \<Longrightarrow> below x (first_bound hi rs) \<Longrightarrow> ascending (map fst rs) \<and> (\<forall>k \<in> fst ` set rs. x < k)"
proof (induction rs arbitrary: x)
  case (Cons r rs)
  obtain k c where r: "r = (k, c)" by (cases r)
  have o: "below k (first_bound hi rs)" "right_ordered hi rs" "x < k" using Cons.prems r ordered_below [of k _ c] by simp_all
  note IH = Cons.IH [OF o(2,1)]
  then have "x < y" if "y \<in> fst ` set rs" for y using that o(3) less_trans by blast
  then show ?case using IH o(3) r by auto
qed simp

lemma FindKeyIndex_frame:
  assumes "left_ordered lo ls" and "right_ordered hi rs" and "last_bound lo ls < key" and "below key (first_bound hi rs)"
  shows "fst (FindKeyIndex key (frame_node (Frame p ls rs) c)) = length ls"
proof -
  note l = left_ordered_seps [OF assms(1)] and r = right_ordered_seps [OF assms(2,4)]
  have lk: "k < key" if "k \<in> snd ` set ls" for k using l that assms(3) le_less_trans by blast
  have rk: "key < k" if "k \<in> fst ` set rs" for k using r that by blast
  have "ascending (map snd ls @ map fst rs)"
    using l r lk rk less_trans unfolding sorted_wrt_append set_map by blast
  moreover have "filter (\<lambda>k. k < key) (map snd ls) = map snd ls" "filter (\<lambda>k. k < key) (map fst rs) = []"
    using lk rk by (auto simp: filter_id_conv filter_empty_conv dest: order.asym)
  ultimately show ?thesis
    by (simp add: FindKeyIndex_ascending inner_node_def)
qed

lemma InsertKeyAt_frame:
  "InsertKeyAt (length ls) key None (spage g2) (frame_node (Frame p ls rs) c) = Ok (frame_node (Frame p ls ((key, g2) # rs)) c)"
  by (simp add: InsertKeyAt_def inner_node_def put_at_def)

section \<open>Changes of the pages\<close>

text \<open>Pages may change their links: the tree they form does not.\<close>

definition relinked :: "(uint64 \<Rightarrow> bnode option) \<Rightarrow> (uint64 \<Rightarrow> bnode option) \<Rightarrow> uint64 \<Rightarrow> bool" where
  "relinked M M' p \<longleftrightarrow> M' p = M p \<or>
     (\<exists>kvs nx pv nx' pv'. M p = Some (leaf_node p kvs nx pv) \<and> M' p = Some (leaf_node p kvs nx' pv'))"

lemma leaf_node_inj [simp]: "leaf_node p kvs nx pv = leaf_node p' kvs' nx' pv' \<longleftrightarrow> p = p' \<and> kvs = kvs' \<and> nx = nx' \<and> pv = pv'"
proof -
  have "map fst kvs = map fst kvs' \<Longrightarrow> map snd kvs = map snd kvs' \<Longrightarrow> kvs = kvs'"
    by (metis zip_map_fst_snd)
  then show ?thesis by (auto simp: leaf_node_def)
qed

lemma leaf_not_inner [simp]: "leaf_node p kvs nx pv \<noteq> inner_node q cs ks" "inner_node q cs ks \<noteq> leaf_node p kvs nx pv"
  by (simp_all add: leaf_node_def inner_node_def)

lemma node_ok_leaf: "node_ok (leaf_node p kvs nx pv) \<longleftrightarrow>
    SerializedSize (leaf_node p kvs nx pv) \<le> 4080 \<and> (\<forall>k \<in> fst ` set kvs. length k \<le> 1024) \<and> length kvs \<le> 256"
  by (auto simp: node_ok_def FitsInPage_def)

lemma node_ok_links: "node_ok (leaf_node p kvs nx pv) \<Longrightarrow> node_ok (leaf_node p kvs nx' pv')"
  unfolding node_ok_leaf size_leaf_node .

lemma node_ok_inner: "node_ok (inner_node p cs ks) \<longleftrightarrow>
    SerializedSize (inner_node p cs ks) \<le> 4080 \<and> (\<forall>k \<in> set ks. length k \<le> 1024) \<and>
    length cs = Suc (length ks) \<and> ks \<noteq> [] \<and> length ks \<le> 127"
  by (auto simp: node_ok_def FitsInPage_def inner_node_def)

lemma rep_relinked:
  assumes "\<And>p. p \<in> set (pages g) \<Longrightarrow> relinked M M' p" and "rep M g"
  shows "rep M' g"
  using assms
proof (induction g)
  case (SLeaf p kvs)
  then have "relinked M M' p" by simp
  with SLeaf.prems(2) show ?case by (auto simp: relinked_def intro: node_ok_links)
next
  case (SNode p cs ks)
  have "relinked M M' p" using SNode.prems(1) by simp
  then have "M' p = M p" using SNode.prems(2) by (auto simp: relinked_def)
  moreover have "list_all (rep M') cs" using SNode by (auto simp: list_all_iff)
  ultimately show ?case using SNode.prems(2) by simp
qed

lemma context_rep_relinked:
  assumes "\<And>p. p \<in> set (frame_pages fs) \<Longrightarrow> relinked M M' p" and "context_rep M c fs"
  shows "context_rep M' c fs"
  using assms
proof (induction fs arbitrary: c)
  case (Cons f fs)
  obtain p ls rs where f: "f = Frame p ls rs" by (cases f)
  have "relinked M M' p" using Cons.prems(1) f by simp
  then have "M' p = M p" using Cons.prems(2) f by (auto simp: relinked_def)
  moreover have sib: "rep M' x" if "x \<in> set (siblings f)" for x
  proof (rule rep_relinked)
    show "rep M x" using Cons.prems(2) that by (simp add: list_all_iff)
    have "set (pages x) \<subseteq> set (frame_pages (f # fs))" using that by (auto simp: f)
    then show "relinked M M' q" if "q \<in> set (pages x)" for q using Cons.prems(1) that by blast
  qed
  moreover have "list_all (rep M') (siblings f)" using sib by (simp add: list_all_iff)
  moreover have "context_rep M' p fs" using Cons f by simp
  ultimately show ?case using Cons.prems(2) f by simp
qed simp

lemma relinked_refl: "M' p = M p \<Longrightarrow> relinked M M' p"
  by (simp add: relinked_def)

section \<open>Splitting a node\<close>

lemma ordered_list_halves:
  assumes "ordered_list lo hi cs ks" and "sp < length ks"
  shows "ordered_list lo (Some (ks ! sp)) (take (Suc sp) cs) (take sp ks) \<and>
    ordered_list (ks ! sp) hi (drop (Suc sp) cs) (drop (Suc sp) ks)"
  using assms
proof (induction sp arbitrary: lo cs ks)
  case 0
  then obtain c cs' k ks' where "cs = c # cs'" "ks = k # ks'" by (cases cs; cases ks) auto
  with 0 show ?case by simp
next
  case (Suc sp)
  then obtain c cs' k ks' where c: "cs = c # cs'" "ks = k # ks'" by (cases cs; cases ks) auto
  with Suc.prems have "ordered_list k hi cs' ks'" "sp < length ks'" by simp_all
  from Suc.IH [OF this] Suc.prems c show ?case by simp
qed

lemma ordered_list_length: "ordered_list lo hi cs ks \<Longrightarrow> length cs = Suc (length ks)"
proof (induction ks arbitrary: lo cs)
  case Nil then show ?case by (cases cs) auto
next
  case (Cons k ks) then show ?case by (cases cs) auto
qed

text \<open>The two nodes that a node splits into, as shapes.\<close>

definition left_half :: "uint64 \<Rightarrow> shape list \<Rightarrow> bytes list \<Rightarrow> shape" where
  "left_half p cs ks = SNode p (take (Suc (length ks div 2)) cs) (take (length ks div 2) ks)"

definition right_half :: "uint64 \<Rightarrow> shape list \<Rightarrow> bytes list \<Rightarrow> shape" where
  "right_half q cs ks = SNode q (drop (Suc (length ks div 2)) cs) (drop (Suc (length ks div 2)) ks)"

lemma halves_leaves: "leaves (left_half p cs ks) @ leaves (right_half q cs ks) = concat (map leaves cs)"
  unfolding left_half_def right_half_def leaves.simps concat_append [symmetric] map_append [symmetric] append_take_drop_id ..

lemma halves_pages: "mset (pages (left_half p cs ks)) + mset (pages (right_half q cs ks)) = {#p, q#} + mset (concat (map pages cs))"
proof -
  have "mset (concat (map pages (take n cs))) + mset (concat (map pages (drop n cs))) = mset (concat (map pages cs))" for n
    unfolding mset_append [symmetric] concat_append [symmetric] map_append [symmetric] append_take_drop_id ..
  then show ?thesis by (simp add: left_half_def right_half_def)
qed

definition inner_of :: "shape \<Rightarrow> bnode" where
  "inner_of g = (case g of SNode p cs ks \<Rightarrow> inner_node p (map spage cs) ks | SLeaf p kvs \<Rightarrow> leaf_node p kvs 0 0)"

lemma halves_ok:
  assumes "list_all short_key ks" and "SerializedSize (inner_node p (map spage cs) ks) \<le> 4080 + 210"
    and "length cs = Suc (length ks)" and "length ks \<le> 128" and "3 \<le> length ks"
  shows "node_ok (inner_of (left_half p cs ks))" "node_ok (inner_of (right_half q cs ks))"
proof -
  define sp where "sp = length ks div 2"
  have sp: "sp < length ks" "0 < sp" "Suc sp < length ks" using assms(5) by (simp_all add: sp_def)
  have short: "length k \<le> 1024" if "k \<in> set ks" for k using assms(1) that by (auto simp: list_all_iff short_key_def)
  note fit = inner_halves_fit [OF assms(1,2) _ sp_def sp(1), unfolded length_map, OF assms(3)]
  have "node_ok (inner_node p (map spage (take (Suc sp) cs)) (take sp ks))"
    using fit(1) [of p] assms(3,4) sp short unfolding node_ok_inner take_map
    by (auto dest: in_set_takeD)
  then show "node_ok (inner_of (left_half p cs ks))" by (simp add: inner_of_def left_half_def sp_def)
  have "node_ok (inner_node q (map spage (drop (Suc sp) cs)) (drop (Suc sp) ks))"
    using fit(2) [of q] assms(3,4) sp short unfolding node_ok_inner drop_map
    by (auto dest: in_set_dropD)
  then show "node_ok (inner_of (right_half q cs ks))" by (simp add: inner_of_def right_half_def sp_def)
qed

lemma splitInternal_ok:
  assumes run: "run_ok U (bt_pm t)" and room: "unat (pm_total (bt_pm t)) + 8 < 2 ^ 64"
    and len: "length cs = Suc (length ks)" "3 \<le> length ks"
  obtains q t' where "splitInternal (inner_node p (map spage cs) ks) t =
      (Ok (inner_of (left_half p cs ks), inner_of (right_half q cs ks), ks ! (length ks div 2)), t')"
    "q \<notin> U" "run_ok (insert q U) (bt_pm t')" "\<And>r. r \<in> U \<Longrightarrow> view t' r = view t r"
    "bt_root t' = bt_root t" "unat (pm_total (bt_pm t')) \<le> unat (pm_total (bt_pm t)) + 8"
proof -
  obtain q t' where a: "allocateNode False t = (Ok (NewInternalNode q), t')"
    "q \<notin> U" "run_ok (insert q U) (bt_pm t')" "\<And>r. r \<in> U \<Longrightarrow> view t' r = view t r"
    "bt_root t' = bt_root t" "unat (pm_total (bt_pm t')) \<le> unat (pm_total (bt_pm t)) + 8"
    using allocateNode_law [OF run room, of False] by (metis (full_types))
  have lt: "length ks div 2 < length ks" "length ks div 2 < length cs" using len by simp_all
  have "splitInternal (inner_node p (map spage cs) ks) t =
      (Ok (inner_of (left_half p cs ks), inner_of (right_half q cs ks), ks ! (length ks div 2)), t')"
    using lt unfolding splitInternal_def a(1)
    by (simp add: inner_of_def left_half_def right_half_def inner_node_def NewInternalNode_def take_map drop_map Let_def)
  then show thesis using a(2-6) by (rule that)
qed

text \<open>A node with one short key more than fits has enough keys to be split.\<close>

lemma inner_overflow:
  assumes "list_all short_key ks" and "length cs = Suc (length ks)" and "127 \<le> length ks \<or> 4080 < SerializedSize (inner_node p cs ks)"
  shows "3 \<le> length ks"
proof (rule ccontr)
  assume "\<not> 3 \<le> length ks"
  then have n: "length ks \<le> 2" by simp
  have "sum_list (map (\<lambda>k :: bytes. 2 + length k) ks) \<le> 202 * length ks"
    by (rule conjunct2 [OF sum_list_between [of _ 0]]) (use assms(1) in \<open>auto simp: list_all_iff short_key_def\<close>)
  then have "SerializedSize (inner_node p cs ks) \<le> 4080" using n assms(2) unfolding size_inner_node by simp
  then show False using assms(3) n by simp
qed

lemma linked_outside:
  assumes "linked M pv ls" and "\<And>p. p \<in> fst ` set ls \<Longrightarrow> M' p = M p"
  shows "linked M' pv ls"
  using assms linked_cong [of ls M M' pv] by auto

lemma spage_plug: "spage (plug fs g) = (if fs = [] then spage g else frame_page (last fs))"
  by (induction fs arbitrary: g) simp_all

text \<open>The state before a separator and the page right of it are inserted into the nodes above.\<close>

definition pending :: "btree \<Rightarrow> frame list \<Rightarrow> shape \<Rightarrow> bytes \<Rightarrow> shape \<Rightarrow> bool" where
  "pending t fs g1 key g2 \<longleftrightarrow>
     run_ok (set (frame_pages fs @ pages g1 @ pages g2)) (bt_pm t) \<and> distinct (frame_pages fs @ pages g1 @ pages g2) \<and>
     context_rep (view t) (spage g1) fs \<and> rep (view t) g1 \<and> rep (view t) g2 \<and> context_ordered [] None fs \<and>
     ordered (fst (bounds [] None fs)) (Some key) g1 \<and> ordered key (snd (bounds [] None fs)) g2 \<and> short_key key \<and>
     linked (view t) 0 (left_leaves fs @ leaves g1 @ leaves g2 @ right_leaves fs) \<and>
     (fs \<noteq> [] \<longrightarrow> bt_root t = frame_page (last fs)) \<and> unat (pm_total (bt_pm t)) + 8 * Suc (length fs) < 2 ^ 64"

lemma view_root [simp]: "view (t \<lparr>bt_root := p\<rparr>) = view t"
  by (simp add: view_def readNode_def fun_eq_iff)

lemma pending_root:
  assumes pend: "pending t [] g1 key g2"
  shows "\<exists>t' g. createNewRoot (spage g1) key (spage g2) t = (Ok (), t') \<and> tree_ok t' g \<and> leaves g = leaves g1 @ leaves g2"
proof -
  let ?U = "set (pages g1 @ pages g2)"
  have run: "run_ok ?U (bt_pm t)" and room: "unat (pm_total (bt_pm t)) + 8 < 2 ^ 64"
    and r: "rep (view t) g1" "rep (view t) g2" and k: "short_key key"
    using pend by (simp_all add: pending_def)
  obtain q t1 where a: "allocateNode False t = (Ok (NewInternalNode q), t1)"
    "q \<notin> ?U" "run_ok (insert q ?U) (bt_pm t1)" "\<And>p. p \<in> ?U \<Longrightarrow> view t1 p = view t p"
    using allocateNode_law [OF run room, of False] by (metis (full_types))
  let ?n = "inner_node q [spage g1, spage g2] [key]" and ?g = "SNode q [g1, g2] [key]"
  have ok: "node_ok ?n" using k by (simp add: node_ok_inner size_inner_node short_key_def)
  obtain t2 where w: "writeNode ?n t1 = (Ok (), t2)" "run_ok (insert q ?U) (bt_pm t2)" "view t2 = (view t1)(q \<mapsto> ?n)"
    using writeNode_law [OF a(3) ok] by (metis inner_node_def bnode.select_convs(7) insertI1)
  have same: "view t2 p = view t p" if "p \<in> ?U" for p using that a(2) a(4) w(3) by auto
  have "linked (view t2) 0 (leaves g1 @ leaves g2)"
    by (rule linked_outside [of "view t"]) (use pend same leaves_in_pages in \<open>auto simp: pending_def\<close>)
  moreover have "rep (view t2) g1" "rep (view t2) g2"
    using r same rep_cong [of g1 "view t2" "view t"] rep_cong [of g2 "view t2" "view t"] by simp_all
  ultimately have "tree_ok (t2 \<lparr>bt_root := q\<rparr>) ?g"
    using pend w ok k a(2) by (simp add: tree_ok_def pending_def)
  moreover have "createNewRoot (spage g1) key (spage g2) t = (Ok (), t2 \<lparr>bt_root := q\<rparr>)"
    using w(1) unfolding createNewRoot_def a(1) by (simp add: NewInternalNode_def inner_node_def)
  ultimately show ?thesis by (intro exI [of _ "t2 \<lparr>bt_root := q\<rparr>"] exI [of _ ?g]) simp
qed

lemma linked_inner:
  "linked M pv ls \<Longrightarrow> M p = Some (inner_node p cs ks) \<Longrightarrow> p \<notin> fst ` set ls"
proof (induction ls arbitrary: pv)
  case (Cons l ls)
  then show ?case by (cases l) auto
qed simp

text \<open>The node above with the separator and the page inserted, when it fits.\<close>

lemma pending_fits:
  assumes pend: "pending t (Frame p ls rs # fs) g1 key g2"
    and ok: "node_ok (frame_node (Frame p ls ((key, g2) # rs)) (spage g1))"
  shows "\<exists>t' g. writeNode (frame_node (Frame p ls ((key, g2) # rs)) (spage g1)) t = (Ok (), t') \<and> tree_ok t' g \<and>
    leaves g = left_leaves (Frame p ls rs # fs) @ leaves g1 @ leaves g2 @ right_leaves (Frame p ls rs # fs)"
proof -
  let ?f = "Frame p ls rs" and ?f' = "Frame p ls ((key, g2) # rs)" and ?n = "frame_node (Frame p ls ((key, g2) # rs)) (spage g1)"
  let ?g = "plug (?f' # fs) g1" and ?U = "set (frame_pages (?f # fs) @ pages g1 @ pages g2)"
  have run: "run_ok ?U (bt_pm t)" and dist: "distinct (frame_pages (?f # fs) @ pages g1 @ pages g2)"
    using pend unfolding pending_def by blast+
  have "bn_page ?n \<in> ?U" by (simp add: inner_node_def)
  then obtain t' where w: "writeNode ?n t = (Ok (), t')" "run_ok ?U (bt_pm t')" "view t' = (view t)(p \<mapsto> ?n)" "bt_root t' = bt_root t"
    using writeNode_law [OF run ok] by (metis frame_node.simps inner_node_def bnode.select_convs(7))
  have pages: "mset (pages ?g) = mset (frame_pages (?f # fs) @ pages g1 @ pages g2)"
    unfolding pages_plug by simp
  then have set: "set (pages ?g) = ?U" "distinct (pages ?g)"
    using dist mset_eq_setD [OF pages] mset_eq_imp_distinct_iff [OF pages] by simp_all
  have leaves: "leaves ?g = left_leaves (?f # fs) @ leaves g1 @ leaves g2 @ right_leaves (?f # fs)"
    unfolding leaves_plug by simp
  have outside: "view t' q = view t q" if "q \<in> S" "p \<notin> S" for q S
    using that w(3) by (metis fun_upd_other)
  have p: "p \<notin> set (frame_pages fs)" using dist by simp
  have "context_rep (view t') p fs"
  proof (rule context_rep_relinked)
    show "context_rep (view t) p fs" using pend by (simp add: pending_def)
    show "relinked (view t) (view t') q" if "q \<in> set (frame_pages fs)" for q
      using outside [OF that p] by (rule relinked_refl)
  qed
  moreover have "rep (view t') x" if "x \<in> set (g1 # g2 # siblings ?f)" for x
  proof -
    have "p \<notin> set (pages x)" using that dist by auto
    then have "rep (view t') x \<longleftrightarrow> rep (view t) x" using outside by (intro rep_cong) blast
    then show ?thesis using that pend by (auto simp: pending_def list_all_iff)
  qed
  ultimately have "rep (view t') ?g"
    using pend ok w(3) unfolding rep_plug by (simp add: pending_def list_all_iff)
  moreover have "ordered [] None ?g"
    using pend unfolding ordered_plug by (simp add: pending_def)
  moreover have "linked (view t') 0 (leaves ?g)"
  proof (rule linked_outside)
    show l: "linked (view t) 0 (leaves ?g)" using pend unfolding leaves by (simp add: pending_def)
    have "p \<notin> fst ` set (leaves ?g)" by (rule linked_inner [OF l]) (use pend in \<open>simp add: pending_def\<close>)
    then show "view t' q = view t q" if "q \<in> fst ` set (leaves ?g)" for q using that outside by blast
  qed
  moreover have "bt_root t' = spage ?g" using pend w(4) by (simp add: pending_def spage_plug)
  ultimately have "tree_ok t' ?g" using w(2) set unfolding tree_ok_def by simp
  then show ?thesis using w(1) leaves by blast
qed

lemma inner_of_half [simp]:
  "bn_page (inner_of (left_half p cs ks)) = p" "bn_page (inner_of (right_half q cs ks)) = q"
  "spage (left_half p cs ks) = p" "spage (right_half q cs ks) = q"
  by (simp_all add: inner_of_def left_half_def right_half_def inner_node_def)

lemma rep_halves:
  assumes "list_all short_key ks" and "list_all (rep M) cs" and "M p = Some (inner_of (left_half p cs ks))"
    and "M q = Some (inner_of (right_half q cs ks))"
    and "node_ok (inner_of (left_half p cs ks))" and "node_ok (inner_of (right_half q cs ks))"
  shows "rep M (left_half p cs ks)" "rep M (right_half q cs ks)"
  using assms by (auto simp: left_half_def right_half_def inner_of_def list_all_iff dest: in_set_takeD in_set_dropD)

text \<open>The children and keys of the node above, with the new ones.\<close>

definition new_children :: "frame \<Rightarrow> shape \<Rightarrow> shape \<Rightarrow> shape list" where
  "new_children f g1 g2 = (case f of Frame p ls rs \<Rightarrow> map fst ls @ g1 # g2 # map snd rs)"

definition new_keys :: "frame \<Rightarrow> bytes \<Rightarrow> bytes list" where
  "new_keys f key = (case f of Frame p ls rs \<Rightarrow> map snd ls @ key # map fst rs)"

lemma overflow_facts:
  assumes pend: "pending t (f # fs) g1 key g2" and over: "\<not> node_ok n \<or> IsFull n"
    and n: "n = inner_node p (map spage (new_children f g1 g2)) (new_keys f key)"
  shows "list_all short_key (new_keys f key)" "length (new_children f g1 g2) = Suc (length (new_keys f key))"
    "SerializedSize n \<le> 4080 + 210" "length (new_keys f key) \<le> 128" "3 \<le> length (new_keys f key)"
proof -
  obtain p' ls rs where f: "f = Frame p' ls rs" by (cases f)
  note defs = new_children_def new_keys_def
  have old: "node_ok (frame_node f (spage g1))" using pend by (simp add: pending_def)
  show short: "list_all short_key (new_keys f key)" using pend by (simp add: pending_def f defs)
  show len: "length (new_children f g1 g2) = Suc (length (new_keys f key))" by (simp add: f defs)
  show "SerializedSize n \<le> 4080 + 210" "length (new_keys f key) \<le> 128"
    using old pend by (simp_all add: n f node_ok_inner size_inner_node defs pending_def short_key_def)
  show "3 \<le> length (new_keys f key)"
  proof (rule inner_overflow [OF short])
    show "length (map spage (new_children f g1 g2)) = Suc (length (new_keys f key))" by (simp add: len)
    have "length k \<le> 1024" if "k \<in> set (new_keys f key)" for k using short that by (auto simp: list_all_iff short_key_def)
    then show "127 \<le> length (new_keys f key) \<or> 4080 < SerializedSize (inner_node p (map spage (new_children f g1 g2)) (new_keys f key))"
      using over len unfolding n node_ok_inner by (auto simp: IsFull_def inner_node_def f defs)
  qed
qed

lemma pending_halves:
  assumes pend: "pending t (f # fs) g1 key g2" and cs: "cs = new_children f g1 g2" and ks: "ks = new_keys f key"
    and U: "U = set (frame_pages (f # fs) @ pages g1 @ pages g2)" and p: "p = frame_page f"
    and q: "q \<notin> U" and run: "run_ok (insert q U) (bt_pm t')" and three: "3 \<le> length ks"
    and new: "view t' p = Some (inner_of (left_half p cs ks))" "view t' q = Some (inner_of (right_half q cs ks))"
    and same: "\<And>r. r \<in> U \<Longrightarrow> r \<noteq> p \<Longrightarrow> view t' r = view t r" and root: "bt_root t' = bt_root t"
    and room: "unat (pm_total (bt_pm t')) \<le> unat (pm_total (bt_pm t)) + 8"
    and ok: "node_ok (inner_of (left_half p cs ks))" "node_ok (inner_of (right_half q cs ks))"
  shows "pending t' fs (left_half p cs ks) (ks ! (length ks div 2)) (right_half q cs ks)"
proof -
  obtain ls rs where f: "f = Frame p ls rs" using p by (cases f) simp
  note defs = new_children_def new_keys_def
  let ?h1 = "left_half p cs ks" and ?h2 = "right_half q cs ks" and ?mid = "ks ! (length ks div 2)"
  have dist: "distinct (frame_pages (f # fs) @ pages g1 @ pages g2)" using pend unfolding pending_def by blast
  have m: "mset (frame_pages fs @ pages ?h1 @ pages ?h2) = mset (q # frame_pages (f # fs) @ pages g1 @ pages g2)"
    using halves_pages [of p cs ks q] by (simp add: f cs defs)
  have set: "set (frame_pages fs @ pages ?h1 @ pages ?h2) = insert q U"
    using mset_eq_setD [OF m] by (simp add: U)
  have d: "distinct (frame_pages fs @ pages ?h1 @ pages ?h2)"
    using mset_eq_imp_distinct_iff [OF m] dist q U by simp
  have pU: "p \<notin> set (frame_pages fs)" "\<And>c. c \<in> set cs \<Longrightarrow> p \<notin> set (pages c)" using dist by (auto simp: f cs defs)
  have sub: "set (frame_pages fs) \<subseteq> U" "\<And>c. c \<in> set cs \<Longrightarrow> set (pages c) \<subseteq> U" by (auto simp: U f cs defs)
  have short: "list_all short_key ks" using pend by (simp add: pending_def f ks defs)
  have "rep (view t') c" if "c \<in> set cs" for c
  proof -
    have "rep (view t') c \<longleftrightarrow> rep (view t) c" using same pU(2) [OF that] sub(2) [OF that] by (intro rep_cong) blast
    then show ?thesis using that pend by (auto simp: pending_def list_all_iff f cs defs)
  qed
  then have "list_all (rep (view t')) cs" by (simp add: list_all_iff)
  note reps = rep_halves [OF short this new ok]
  have ctx: "context_rep (view t') p fs"
    by (rule context_rep_relinked [of _ "view t"], rule relinked_refl, rule same)
      (use pU(1) sub(1) pend in \<open>auto simp: pending_def f\<close>)
  have "ordered_list (fst (bounds [] None fs)) (snd (bounds [] None fs)) cs ks"
    using pend ordered_list_split [of "fst (bounds [] None fs)" "snd (bounds [] None fs)" ls g1 "(key, g2) # rs"]
    by (simp add: pending_def f cs ks defs)
  from ordered_list_halves [OF this, of "length ks div 2"] three
  have ord: "ordered (fst (bounds [] None fs)) (Some ?mid) ?h1" "ordered ?mid (snd (bounds [] None fs)) ?h2"
    by (simp_all add: left_half_def right_half_def)
  have "leaves ?h1 @ leaves ?h2 = concat (map leaves cs)" by (rule halves_leaves)
  then have leaves: "left_leaves fs @ leaves ?h1 @ leaves ?h2 @ right_leaves fs =
      left_leaves (f # fs) @ leaves g1 @ leaves g2 @ right_leaves (f # fs)"
    by (simp add: f cs defs append_assoc [symmetric] del: append_assoc)
  have "linked (view t') 0 (left_leaves fs @ leaves ?h1 @ leaves ?h2 @ right_leaves fs)"
  proof (rule linked_outside)
    show l: "linked (view t) 0 (left_leaves fs @ leaves ?h1 @ leaves ?h2 @ right_leaves fs)"
      using pend unfolding leaves by (simp add: pending_def)
    have "left_leaves fs @ leaves ?h1 @ leaves ?h2 @ right_leaves fs = leaves (plug fs (SNode p cs ks))"
      unfolding leaves_plug leaves.simps halves_leaves [symmetric, of cs p ks q] by simp
    then have in_U: "fst ` set (left_leaves fs @ leaves ?h1 @ leaves ?h2 @ right_leaves fs) \<subseteq> U"
      using leaves_in_pages [of "plug fs (SNode p cs ks)"] sub unfolding set_pages_plug by (auto simp: U f)
    have "p \<notin> fst ` set (left_leaves fs @ leaves ?h1 @ leaves ?h2 @ right_leaves fs)"
      by (rule linked_inner [OF l]) (use pend in \<open>simp add: pending_def f\<close>)
    then show "view t' r = view t r" if "r \<in> fst ` set (left_leaves fs @ leaves ?h1 @ leaves ?h2 @ right_leaves fs)" for r
      using that same in_U by blast
  qed
  moreover have "short_key ?mid" using short three by (simp add: list_all_length)
  ultimately show ?thesis
    using run set d ctx reps ord pend root room f unfolding pending_def by simp
qed

lemma pending_split:
  assumes pend: "pending t (f # fs) g1 key g2" and over: "\<not> node_ok n \<or> IsFull n"
    and n: "n = inner_node p (map spage (new_children f g1 g2)) (new_keys f key)" and p: "p = frame_page f"
  shows "\<exists>t' h1 mid h2. pending t' fs h1 mid h2 \<and> spage h1 = p \<and>
    leaves h1 @ leaves h2 = concat (map leaves (new_children f g1 g2)) \<and>
    splitInternalAndPropagate (n # path) t = insertIntoParent path p mid (spage h2) t'"
proof -
  define cs where "cs = new_children f g1 g2"
  define ks where "ks = new_keys f key"
  define U where "U = set (frame_pages (f # fs) @ pages g1 @ pages g2)"
  note facts = overflow_facts [OF pend over n, folded cs_def ks_def]
  have run: "run_ok U (bt_pm t)" and room: "unat (pm_total (bt_pm t)) + 8 < 2 ^ 64"
    using pend unfolding pending_def U_def by simp_all
  let ?h1 = "left_half p cs ks" and ?mid = "ks ! (length ks div 2)"
  obtain q t1 where sp: "splitInternal (inner_node p (map spage cs) ks) t = (Ok (inner_of ?h1, inner_of (right_half q cs ks), ?mid), t1)"
    "q \<notin> U" "run_ok (insert q U) (bt_pm t1)" "\<And>r. r \<in> U \<Longrightarrow> view t1 r = view t r"
    "bt_root t1 = bt_root t" "unat (pm_total (bt_pm t1)) \<le> unat (pm_total (bt_pm t)) + 8"
    by (rule splitInternal_ok [OF run room facts(2,5)]) blast
  let ?h2 = "right_half q cs ks"
  have size: "SerializedSize (inner_node p (map spage cs) ks) \<le> 4080 + 210" using facts(3) unfolding n cs_def ks_def .
  note ok = halves_ok [OF facts(1) size facts(2,4,5)]
  have pU: "p \<in> U" unfolding U_def p by (cases f) simp
  have pin: "bn_page (inner_of ?h1) \<in> insert q U" "bn_page (inner_of ?h2) \<in> insert q U" using pU by simp_all
  obtain t2 where w2: "writeNode (inner_of ?h1) t1 = (Ok (), t2)" "run_ok (insert q U) (bt_pm t2)" "view t2 = (view t1)(p \<mapsto> inner_of ?h1)"
    "bt_root t2 = bt_root t1" "pm_total (bt_pm t2) = pm_total (bt_pm t1)"
    using writeNode_law [OF sp(3) ok(1) pin(1)] inner_of_half(1) [of p cs ks] by metis
  obtain t3 where w3: "writeNode (inner_of ?h2) t2 = (Ok (), t3)" "run_ok (insert q U) (bt_pm t3)" "view t3 = (view t2)(q \<mapsto> inner_of ?h2)"
    "bt_root t3 = bt_root t2" "pm_total (bt_pm t3) = pm_total (bt_pm t2)"
    using writeNode_law [OF w2(2) ok(2) pin(2)] inner_of_half(2) [of q cs ks] by metis
  have pq: "p \<noteq> q" using pU sp(2) by blast
  have "pending t3 fs ?h1 ?mid ?h2"
  proof (rule pending_halves [OF pend cs_def ks_def U_def p sp(2) w3(2) facts(5) _ _ _ _ _ ok])
    show "view t3 p = Some (inner_of ?h1)" "view t3 q = Some (inner_of ?h2)" using w2(3) w3(3) pq by simp_all
    show "view t3 r = view t r" if "r \<in> U" "r \<noteq> p" for r
      using that sp(2,4) w2(3) w3(3) by (metis fun_upd_other)
  qed (use sp w2 w3 in simp_all)
  moreover have "splitInternalAndPropagate (n # path) t = insertIntoParent path p ?mid (spage ?h2) t3"
    unfolding n cs_def [symmetric] ks_def [symmetric] using sp(1) w2(1) w3(1) by simp
  ultimately show ?thesis
    using halves_leaves [of p cs ks q] unfolding cs_def [symmetric]
    by (intro exI [of _ t3] exI [of _ ?h1] exI [of _ ?mid] exI [of _ ?h2]) simp
qed

lemma insertIntoParent_ok:
  "pending t fs g1 key g2 \<Longrightarrow>
     \<exists>t' g. insertIntoParent (path_nodes (spage g1) fs) (spage g1) key (spage g2) t = (Ok (), t') \<and> tree_ok t' g \<and>
       leaves g = left_leaves fs @ leaves g1 @ leaves g2 @ right_leaves fs"
proof (induction fs arbitrary: t g1 key g2)
  case Nil
  then show ?case using pending_root [OF Nil] by simp
next
  case (Cons f fs)
  obtain p ls rs where f: "f = Frame p ls rs" by (cases f)
  let ?n = "frame_node (Frame p ls ((key, g2) # rs)) (spage g1)"
  have n: "?n = inner_node p (map spage (new_children f g1 g2)) (new_keys f key)" by (simp add: f new_children_def new_keys_def)
  have o: "ordered (last_bound (fst (bounds [] None fs)) ls) (Some key) g1" "ordered key (first_bound (snd (bounds [] None fs)) rs) g2"
    using Cons.prems by (simp_all add: pending_def f)
  have "last_bound (fst (bounds [] None fs)) ls < key" "below key (first_bound (snd (bounds [] None fs)) rs)"
    using ordered_below [OF o(1)] ordered_below [OF o(2)] by simp_all
  then have idx: "fst (FindKeyIndex key (frame_node f (spage g1))) = length ls"
    using Cons.prems unfolding f by (intro FindKeyIndex_frame) (simp_all add: pending_def)
  have ins: "InsertKeyAt (length ls) key None (spage g2) (frame_node f (spage g1)) = Ok ?n"
    unfolding f by (rule InsertKeyAt_frame)
  show ?case
  proof (cases "IsFull ?n \<or> \<not> FitsInPage ?n")
    case True
    then have "\<not> node_ok ?n \<or> IsFull ?n" by (auto simp: node_ok_def)
    from pending_split [OF Cons.prems this n, of "path_nodes p fs"] obtain t' h1 mid h2 where s:
      "pending t' fs h1 mid h2" "spage h1 = p" "leaves h1 @ leaves h2 = concat (map leaves (new_children f g1 g2))"
      "splitInternalAndPropagate (?n # path_nodes p fs) t = insertIntoParent (path_nodes p fs) p mid (spage h2) t'"
      by (auto simp: f)
    have "left_leaves fs @ (leaves h1 @ leaves h2) @ right_leaves fs = left_leaves (f # fs) @ leaves g1 @ leaves g2 @ right_leaves (f # fs)"
      unfolding s(3) by (simp add: f new_children_def)
    moreover have "insertIntoParent (path_nodes (spage g1) (f # fs)) (spage g1) key (spage g2) t =
        insertIntoParent (path_nodes p fs) p mid (spage h2) t'"
      using True idx ins s(4) by (simp add: f)
    ultimately show ?thesis using Cons.IH [OF s(1)] s(2) by auto
  next
    case False
    have "list_all short_key (new_keys f key)" using Cons.prems by (simp add: pending_def f new_keys_def)
    then have "length k \<le> 1024" if "k \<in> set (new_keys f key)" for k
      using that by (auto simp: list_all_iff short_key_def)
    then have ok: "node_ok ?n"
      using False unfolding n node_ok_inner by (auto simp: IsFull_def FitsInPage_def inner_node_def new_children_def new_keys_def f)
    show ?thesis
      using pending_fits [OF Cons.prems [unfolded f] ok] False idx ins by (simp add: f)
  qed
qed

end
