(* ===== verification/Btree_Props.thy ===== *)
theory Btree_Props
  imports Btree_Insert
begin

text \<open>
  The properties of B+ trees with distinct keys: insertions and searches on the pages of the tree are
  those of a finite map, and scans list it in the order of the keys.
\<close>

section \<open>Splitting a leaf\<close>

lemma linked_member:
  assumes "linked M pv ls" and "(q, kvs) \<in> set ls"
  shows "\<exists>nx pv'. M q = Some (leaf_node q kvs nx pv')"
  using assms
proof (induction ls arbitrary: pv)
  case (Cons l ls)
  then show ?case by (cases l) auto
qed simp

lemma leaf_in_tree:
  assumes "rep M g" and "(q, kvs) \<in> set (leaves g)"
  shows "\<exists>nx pv. M q = Some (leaf_node q kvs nx pv) \<and> node_ok (leaf_node q kvs nx pv) \<and> list_all short_entry kvs"
  using assms by (induction g) (auto simp: list_all_iff)

lemma leaf_node_prev: "leaf_node p kvs nx pv \<lparr>bn_prev := q\<rparr> = leaf_node p kvs nx q"
  by (simp add: leaf_node_def)

lemma splitLeaf_ok:
  assumes run: "run_ok U (bt_pm t)" and room: "unat (pm_total (bt_pm t)) + 8 < 2 ^ 64"
    and sp: "sp = (length kvs + 1) div 2" "sp < length kvs"
    and link: "linked (view t) p R" and R: "\<And>r kr. (r, kr) \<in> set R \<Longrightarrow> r \<in> U \<and> (\<forall>nx pv. node_ok (leaf_node r kr nx pv))"
  obtains q t' where "splitLeaf (leaf_node p kvs (first_page R) pv) t =
      (Ok (leaf_node p (take sp kvs) q pv, leaf_node q (drop sp kvs) (first_page R) p, fst (hd (drop sp kvs))), t')"
    "q \<notin> U" "run_ok (insert q U) (bt_pm t')" "bt_root t' = bt_root t"
    "unat (pm_total (bt_pm t')) \<le> unat (pm_total (bt_pm t)) + 8"
    "\<forall>x \<in> U. x \<noteq> first_page R \<longrightarrow> view t' x = view t x"
    "\<forall>r kr R'. R = (r, kr) # R' \<longrightarrow> view t' r = Some (leaf_node r kr (first_page R') q)"
proof -
  obtain q t1 where a: "allocateNode True t = (Ok (NewLeafNode q), t1)" "q \<notin> U" "run_ok (insert q U) (bt_pm t1)"
    "\<And>x. x \<in> U \<Longrightarrow> view t1 x = view t x" "bt_root t1 = bt_root t" "unat (pm_total (bt_pm t1)) \<le> unat (pm_total (bt_pm t)) + 8"
    using allocateNode_law [OF run room, of True] by (metis (full_types))
  define t' where "t' = (if first_page R = 0 then t1 else case readNode (first_page R) t1 of
      Ok n \<Rightarrow> snd (writeNode (n \<lparr>bn_prev := q\<rparr>) t1) | _ \<Rightarrow> t1)"
  have "drop sp kvs \<noteq> []" using sp by simp
  then have s: "splitLeaf (leaf_node p kvs (first_page R) pv) t =
      (Ok (leaf_node p (take sp kvs) q pv, leaf_node q (drop sp kvs) (first_page R) p, fst (hd (drop sp kvs))), t')"
    unfolding splitLeaf_def a(1) and_then.simps Let_def t'_def using sp(1)
    by (simp add: NewLeafNode_def leaf_node_def take_map drop_map hd_map cong: outcome.case_cong)
  show thesis
  proof (cases R)
    case Nil
    then have "t' = t1" by (simp add: t'_def)
    then show thesis using a Nil by (intro that [OF s]) simp_all
  next
    case (Cons x R')
    obtain r kr where x: "x = (r, kr)" by (cases x)
    have r: "r \<in> U" "node_ok (leaf_node r kr (first_page R') q)" using R [of r kr] Cons x by simp_all
    have v: "view t r = Some (leaf_node r kr (first_page R') p)" using link Cons x by simp
    then have nz: "r \<noteq> 0" and rd: "readNode r t1 = Ok (leaf_node r kr (first_page R') p)"
      using a(4) [OF r(1)] by (auto simp: view_Some)
    obtain t2 where w: "writeNode (leaf_node r kr (first_page R') q) t1 = (Ok (), t2)" "run_ok (insert q U) (bt_pm t2)"
      "view t2 = (view t1)(r \<mapsto> leaf_node r kr (first_page R') q)" "bt_root t2 = bt_root t1" "pm_total (bt_pm t2) = pm_total (bt_pm t1)"
      using writeNode_law [OF a(3) r(2)] r(1) by (metis insertI2 leaf_node_sel(7))
    have "t' = t2" using nz rd w(1) by (simp add: t'_def Cons x leaf_node_prev)
    then show thesis using a w Cons x by (intro that [OF s]) auto
  qed
qed

lemma linked_to_cong:
  "(\<And>x. x \<in> fst ` set ls \<Longrightarrow> M x = M' x) \<Longrightarrow> linked_to M pv ls p \<longleftrightarrow> linked_to M' pv ls p"
proof (induction ls arbitrary: pv)
  case (Cons a ls)
  then show ?case by (cases a) (auto simp: image_iff)
qed simp

lemma linked_split_leaf:
  assumes l: "linked M 0 (L @ (p, kvs) # R)"
    and p': "M' p = Some (leaf_node p k1 q (last_page 0 L))" and q': "M' q = Some (leaf_node q k2 (first_page R) p)"
    and r': "\<And>r kr R'. R = (r, kr) # R' \<Longrightarrow> M' r = Some (leaf_node r kr (first_page R') q)"
    and same: "\<And>x. x \<in> fst ` set L \<Longrightarrow> M' x = M x" "\<And>x. x \<in> fst ` set (tl R) \<Longrightarrow> M' x = M x"
  shows "linked M' 0 (L @ (p, k1) # (q, k2) # R)"
proof -
  have L: "linked_to M 0 L p" "linked M p R" using l unfolding linked_split by simp_all
  have "M' x = M x" if "x \<in> fst ` set L" for x using that by (rule same(1))
  then have "linked_to M' 0 L p" using L(1) linked_to_cong [of L M' M] by blast
  moreover have "linked M' q R"
  proof (cases R)
    case (Cons x R')
    obtain r kr where x: "x = (r, kr)" by (cases x)
    have "linked M' r R'"
      by (rule linked_outside [of M]) (use L(2) Cons x same(2) in simp_all)
    then show ?thesis using r' Cons x by simp
  qed simp
  ultimately show ?thesis using p' q' by (simp add: linked_split)
qed

lemma distinct_leaves:
  assumes "distinct (pages g)"
  shows "distinct (map fst (leaves g))"
proof -
  have sub: "mset (map fst (leaves g)) \<subseteq># mset (pages g)"
  proof (induction g)
    case (SNode p cs ks)
    then have "mset (map fst (concat (map leaves cs))) \<subseteq># mset (concat (map pages cs))"
      by (induction cs) (simp_all add: subset_mset.add_mono)
    then have "mset (map fst (concat (map leaves cs))) \<subseteq># add_mset p (mset (concat (map pages cs)))"
      by (rule subset_mset.order_trans) simp
    then show ?case by simp
  qed simp
  have "count (mset (map fst (leaves g))) a \<le> 1" for a
    using mset_subset_eq_count [OF sub, of a] assms by (auto simp: distinct_count_atmost_1 split: if_splits)
  then show ?thesis unfolding distinct_count_atmost_1
    by (metis One_nat_def count_greater_zero_iff le_antisym less_one not_in_iff not_less set_mset_mset)
qed

text \<open>A leaf of a tree with its entries changed, before it is written.\<close>

definition changed :: "btree \<Rightarrow> frame list \<Rightarrow> uint64 \<Rightarrow> (bytes \<times> entry_ref) list \<Rightarrow> (bytes \<times> entry_ref) list \<Rightarrow> bool" where
  "changed t fs p kvs kvs' \<longleftrightarrow> tree_ok t (plug fs (SLeaf p kvs)) \<and>
     ordered (fst (bounds [] None fs)) (snd (bounds [] None fs)) (SLeaf p kvs') \<and> list_all short_entry kvs' \<and> length kvs' \<le> 257 \<and>
     SerializedSize (leaf_node p kvs' 0 0) \<le> 4080 + 214 \<and> unat (pm_total (bt_pm t)) + 8 * (length fs + 2) < 2 ^ 64"

lemma changed_tree:
  assumes "changed t fs p kvs kvs'"
  shows "run_ok (set (frame_pages fs @ [p])) (bt_pm t)" "distinct (frame_pages fs @ [p])"
    "context_rep (view t) p fs" "rep (view t) (SLeaf p kvs)" "context_ordered [] None fs"
    "linked (view t) 0 (left_leaves fs @ (p, kvs) # right_leaves fs)" "bt_root t = spage (plug fs (SLeaf p kvs))"
    "fst ` set (left_leaves fs) \<union> fst ` set (right_leaves fs) \<subseteq> set (frame_pages fs @ [p])"
    "distinct (map fst (left_leaves fs @ (p, kvs) # right_leaves fs))"
proof -
  have ok: "tree_ok t (plug fs (SLeaf p kvs))" using assms by (simp add: changed_def)
  have set: "set (pages (plug fs (SLeaf p kvs))) = set (frame_pages fs @ [p])" by (simp add: set_pages_plug)
  show "run_ok (set (frame_pages fs @ [p])) (bt_pm t)" "context_rep (view t) p fs" "rep (view t) (SLeaf p kvs)"
    "bt_root t = spage (plug fs (SLeaf p kvs))"
    using ok unfolding tree_ok_def set rep_plug by simp_all
  show "distinct (frame_pages fs @ [p])" using ok distinct_pages_plug [of fs "SLeaf p kvs"] by (simp add: tree_ok_def)
  show "context_ordered [] None fs" "linked (view t) 0 (left_leaves fs @ (p, kvs) # right_leaves fs)"
    using ok by (simp_all add: tree_ok_def ordered_plug leaves_plug)
  show "fst ` set (left_leaves fs) \<union> fst ` set (right_leaves fs) \<subseteq> set (frame_pages fs @ [p])"
    using leaves_in_pages [of "plug fs (SLeaf p kvs)"] unfolding set leaves_plug by (auto simp: image_Un)
  show "distinct (map fst (left_leaves fs @ (p, kvs) # right_leaves fs))"
    using distinct_leaves [of "plug fs (SLeaf p kvs)"] ok by (simp add: tree_ok_def leaves_plug)
qed

lemma changed_fits:
  assumes ch: "changed t fs p kvs kvs'" and size: "SerializedSize (leaf_node p kvs' 0 0) \<le> 4080" and len: "length kvs' \<le> 256"
  shows "\<exists>t'. writeNode (leaf_node p kvs' (first_page (right_leaves fs)) (last_page 0 (left_leaves fs))) t = (Ok (), t') \<and>
    tree_ok t' (plug fs (SLeaf p kvs'))"
proof -
  note old = changed_tree [OF ch]
  let ?n = "leaf_node p kvs' (first_page (right_leaves fs)) (last_page 0 (left_leaves fs))"
  have short: "list_all short_entry kvs'" using ch by (simp add: changed_def)
  then have "length k \<le> 1024" if "k \<in> fst ` set kvs'" for k using that by (auto simp: list_all_iff short_entry_def)
  then have ok: "node_ok ?n" using size len unfolding node_ok_leaf size_leaf_node by blast
  have "bn_page ?n \<in> set (frame_pages fs @ [p])" by simp
  from writeNode_law [OF old(1) ok this] obtain t' where w: "writeNode ?n t = (Ok (), t')" "run_ok (set (frame_pages fs @ [p])) (bt_pm t')"
    "view t' = (view t)(p \<mapsto> ?n)" "bt_root t' = bt_root t"
    by auto
  have p: "p \<notin> set (frame_pages fs)" using old(2) by simp
  have "context_rep (view t') p fs"
    by (rule context_rep_relinked [OF _ old(3)], rule relinked_refl) (use w(3) p in auto)
  then have "rep (view t') (plug fs (SLeaf p kvs'))"
    using w(3) ok short unfolding rep_plug by auto
  moreover have "linked (view t') 0 (leaves (plug fs (SLeaf p kvs')))"
  proof -
    have "view t' x = view t x" if "x \<in> fst ` set (left_leaves fs)" for x using that w(3) old(9) by auto
    then have "linked_to (view t') 0 (left_leaves fs) p"
      using old(6) linked_to_cong [of "left_leaves fs" "view t'" "view t"] unfolding linked_split by blast
    moreover have "linked (view t') p (right_leaves fs)"
      by (rule linked_outside [of "view t"]) (use old(6,9) w(3) in \<open>auto simp: linked_split\<close>)
    ultimately show ?thesis using w(3) unfolding leaves_plug by (simp add: linked_split)
  qed
  moreover have "ordered [] None (plug fs (SLeaf p kvs'))"
    using ch old(5) unfolding ordered_plug by (simp add: changed_def)
  ultimately have "tree_ok t' (plug fs (SLeaf p kvs'))"
    using w old distinct_pages_plug [of fs "SLeaf p kvs'"] by (simp add: tree_ok_def set_pages_plug spage_plug)
  then show ?thesis using w(1) by blast
qed

lemma leaf_halves_ordered:
  assumes "ordered lo hi (SLeaf p kvs)" and "list_all short_entry kvs" and "k1 = take sp kvs" and "drop sp kvs = e # k2" and "0 < sp"
  shows "ordered lo (Some (fst e)) (SLeaf p' k1)" "ordered (fst e) hi (SLeaf q (drop sp kvs))" "short_key (fst e)"
proof -
  have kvs: "kvs = k1 @ e # k2" using assms(3,4) append_take_drop_id [of sp kvs] by simp
  have "k1 \<noteq> []" using assms(4,5) unfolding assms(3) by auto
  then obtain e1 k1' where k1: "k1 = e1 # k1'" by (cases k1) auto
  have asc: "ascending (map fst k1)" "\<forall>x \<in> fst ` set k1. x < fst e" "ascending (map fst (e # k2))"
    and b: "\<forall>x \<in> fst ` set k1. lo \<le> x" "\<forall>x \<in> fst ` set (e # k2). below x hi"
    using assms(1) unfolding kvs by (auto simp: sorted_wrt_append)
  have "lo \<le> fst e1" "fst e1 < fst e" using asc(2) b(1) by (simp_all add: k1)
  then have "lo < fst e" by (rule le_less_trans)
  then show "ordered lo (Some (fst e)) (SLeaf p' k1)" using asc b by simp
  have "\<forall>x \<in> fst ` set (e # k2). fst e \<le> x" using asc(3) by (auto simp: less_imp_le)
  then show "ordered (fst e) hi (SLeaf q (drop sp kvs))" using asc(3) b(2) unfolding assms(4) by simp
  show "short_key (fst e)" using assms(2) by (simp add: kvs short_entry_def short_key_def)
qed

lemma pending_leaves:
  assumes ch: "changed t fs p kvs kvs'" and lt: "sp < length kvs'" "0 < sp"
    and q: "q \<notin> set (frame_pages fs @ [p])" and run: "run_ok (insert q (set (frame_pages fs @ [p]))) (bt_pm t')"
    and p': "view t' p = Some (leaf_node p (take sp kvs') q (last_page 0 (left_leaves fs)))"
    and q': "view t' q = Some (leaf_node q (drop sp kvs') (first_page (right_leaves fs)) p)"
    and same: "\<And>x. x \<in> set (frame_pages fs @ [p]) \<Longrightarrow> x \<noteq> p \<Longrightarrow> x \<noteq> first_page (right_leaves fs) \<Longrightarrow> view t' x = view t x"
    and r': "\<And>r kr R'. right_leaves fs = (r, kr) # R' \<Longrightarrow> view t' r = Some (leaf_node r kr (first_page R') q)"
    and root: "bt_root t' = bt_root t" and room: "unat (pm_total (bt_pm t')) \<le> unat (pm_total (bt_pm t)) + 8"
    and ok: "\<And>nx pv. node_ok (leaf_node p (take sp kvs') nx pv)" "\<And>nx pv. node_ok (leaf_node q (drop sp kvs') nx pv)"
  shows "pending t' fs (SLeaf p (take sp kvs')) (fst (hd (drop sp kvs'))) (SLeaf q (drop sp kvs'))"
proof -
  let ?L = "left_leaves fs" and ?R = "right_leaves fs" and ?k1 = "take sp kvs'" and ?k2 = "drop sp kvs'"
  note old = changed_tree [OF ch]
  let ?lo = "fst (bounds [] None fs)" and ?hi = "snd (bounds [] None fs)"
  have o: "ordered ?lo ?hi (SLeaf p kvs')" and short: "list_all short_entry kvs'"
    using ch by (simp_all add: changed_def)
  obtain e k2' where k2: "?k2 = e # k2'" using lt by (cases ?k2) auto
  have ord: "ordered ?lo (Some (fst e)) (SLeaf p ?k1)" "ordered (fst e) ?hi (SLeaf q ?k2)" "short_key (fst e)"
    using leaf_halves_ordered [OF o short refl k2] lt by simp_all
  have pos: "x \<noteq> 0" if "x \<in> set (frame_pages fs @ [p])" for x
  proof -
    have "0 < x" using old(1) that unfolding run_ok_def by blast
    then show ?thesis by simp
  qed
  have "relinked (view t) (view t') x" if x: "x \<in> set (frame_pages fs)" for x
  proof (cases "x = first_page ?R")
    case True
    then obtain kr R' where R: "?R = (x, kr) # R'" using pos [of x] x by (cases ?R) auto
    have "linked (view t) p ?R" using old(6) by (simp add: linked_split)
    then have "view t x = Some (leaf_node x kr (first_page R') p)" unfolding R by simp
    then show ?thesis using r' [OF R] unfolding relinked_def by blast
  next
    case False
    have "x \<noteq> p" using old(2) x by auto
    then show ?thesis using same [of x] x False by (intro relinked_refl) simp
  qed
  then have ctx: "context_rep (view t') p fs" by (rule context_rep_relinked [OF _ old(3)])
  have reps: "rep (view t') (SLeaf p ?k1)" "rep (view t') (SLeaf q ?k2)"
    using p' q' ok short by (auto simp: list_all_iff dest: in_set_takeD in_set_dropD)
  have "first_page xs \<in> fst ` set xs \<and> first_page xs \<notin> fst ` set (tl xs)" if "xs \<noteq> []" "distinct (map fst xs)"
    for xs :: "(uint64 \<times> (bytes \<times> entry_ref) list) list"
    using that by (cases xs rule: first_page.cases) simp_all
  then have R: "fst ` set ?L \<inter> fst ` set ?R = {}" "?R \<noteq> [] \<Longrightarrow> first_page ?R \<in> fst ` set ?R \<and> first_page ?R \<notin> fst ` set (tl ?R)"
    using old(9) by (simp_all add: disjoint_iff)
  have "linked (view t') 0 (?L @ (p, ?k1) # (q, ?k2) # ?R)"
  proof (rule linked_split_leaf [OF old(6) p' q' r'])
    show "view t' x = view t x" if "x \<in> fst ` set ?L" for x
    proof (rule same)
      show x: "x \<in> set (frame_pages fs @ [p])" using that old(8) by blast
      show "x \<noteq> p" using that old(9) by auto
      show "x \<noteq> first_page ?R" using that R pos [OF x] by (cases "?R = []") (simp, blast)
    qed
    show "view t' x = view t x" if "x \<in> fst ` set (tl ?R)" for x
    proof (rule same)
      have "x \<in> fst ` set ?R" using that by (cases ?R) auto
      then show "x \<in> set (frame_pages fs @ [p])" "x \<noteq> p" using old(8,9) by auto
      show "x \<noteq> first_page ?R" using that R(2) by (cases "?R = []") (simp, blast)
    qed
  qed
  moreover have "set (frame_pages fs @ pages (SLeaf p ?k1) @ pages (SLeaf q ?k2)) = insert q (set (frame_pages fs @ [p]))" by auto
  moreover have "distinct (frame_pages fs @ pages (SLeaf p ?k1) @ pages (SLeaf q ?k2))" using old(2) q by auto
  moreover have "fs \<noteq> [] \<longrightarrow> bt_root t' = frame_page (last fs)" using root old(7) by (simp add: spage_plug)
  moreover have "unat (pm_total (bt_pm t')) + 8 * Suc (length fs) < 2 ^ 64" using room ch by (simp add: changed_def)
  ultimately show ?thesis
    using ord ctx reps old(5) run unfolding pending_def k2 by (simp only: leaves.simps append_Cons append_Nil spage.simps list.sel(1))
qed

lemma changed_splits:
  assumes ch: "changed t fs p kvs kvs'" and many: "3 \<le> length kvs'" and sp: "sp = (length kvs' + 1) div 2"
  shows "\<exists>t' q. pending t' fs (SLeaf p (take sp kvs')) (fst (hd (drop sp kvs'))) (SLeaf q (drop sp kvs')) \<and>
    splitLeafAndPropagate (leaf_node p kvs' (first_page (right_leaves fs)) (last_page 0 (left_leaves fs)) # path) t =
      insertIntoParent path p (fst (hd (drop sp kvs'))) q t'"
proof -
  let ?L = "left_leaves fs" and ?R = "right_leaves fs" and ?U = "set (frame_pages fs @ [p])"
  let ?k1 = "take sp kvs'" and ?k2 = "drop sp kvs'"
  note old = changed_tree [OF ch]
  have lt: "sp < length kvs'" "0 < sp" using many sp by simp_all
  have room: "unat (pm_total (bt_pm t)) + 8 < 2 ^ 64" using ch by (simp add: changed_def)
  have R: "r \<in> ?U \<and> (\<forall>nx pv. node_ok (leaf_node r kr nx pv))" if "(r, kr) \<in> set ?R" for r kr
  proof -
    have "rep (view t) (plug fs (SLeaf p kvs))" using ch by (simp add: changed_def tree_ok_def)
    from leaf_in_tree [OF this, of r kr] that have "\<exists>nx pv. node_ok (leaf_node r kr nx pv)" by (auto simp: leaves_plug)
    then show ?thesis using that old(8) node_ok_links by (auto simp: image_iff; blast)
  qed
  have link: "linked (view t) p ?R" using old(6) by (simp add: linked_split)
  obtain q t1 where s: "splitLeaf (leaf_node p kvs' (first_page ?R) (last_page 0 ?L)) t =
      (Ok (leaf_node p ?k1 q (last_page 0 ?L), leaf_node q ?k2 (first_page ?R) p, fst (hd ?k2)), t1)"
    "q \<notin> ?U" "run_ok (insert q ?U) (bt_pm t1)" "bt_root t1 = bt_root t"
    "unat (pm_total (bt_pm t1)) \<le> unat (pm_total (bt_pm t)) + 8"
    "\<forall>x \<in> ?U. x \<noteq> first_page ?R \<longrightarrow> view t1 x = view t x"
    "\<forall>r kr R'. ?R = (r, kr) # R' \<longrightarrow> view t1 r = Some (leaf_node r kr (first_page R') q)"
    by (rule splitLeaf_ok [OF old(1) room sp lt(1) link R, of "last_page 0 ?L"])
  have short: "list_all short_entry kvs'" "length kvs' \<le> 257" and size: "SerializedSize (leaf_node p kvs' 0 0) \<le> 4080 + 214"
    using ch by (simp_all add: changed_def)
  note fit = leaf_halves_fit [OF short(1) size sp]
  have keys: "length k \<le> 1024" if "k \<in> fst ` set kvs'" for k using short(1) that by (auto simp: list_all_iff short_entry_def)
  have halves: "\<forall>k \<in> fst ` set ?k1. length k \<le> 1024" "\<forall>k \<in> fst ` set ?k2. length k \<le> 1024"
    using keys set_take_subset [of sp kvs'] set_drop_subset [of sp kvs'] by blast+
  have ok: "node_ok (leaf_node p ?k1 nx pv)" "node_ok (leaf_node q ?k2 nx pv)" for nx pv
    using fit lt sp short(2) halves unfolding node_ok_leaf by simp_all
  have pin: "p \<in> insert q ?U" "q \<in> insert q ?U" "p \<noteq> q" using s(2) by auto
  obtain t2 where w2: "writeNode (leaf_node p ?k1 q (last_page 0 ?L)) t1 = (Ok (), t2)" "run_ok (insert q ?U) (bt_pm t2)"
    "view t2 = (view t1)(p \<mapsto> leaf_node p ?k1 q (last_page 0 ?L))" "bt_root t2 = bt_root t1" "pm_total (bt_pm t2) = pm_total (bt_pm t1)"
    using writeNode_law [OF s(3) ok(1)] pin(1) by (metis leaf_node_sel(7))
  obtain t3 where w3: "writeNode (leaf_node q ?k2 (first_page ?R) p) t2 = (Ok (), t3)" "run_ok (insert q ?U) (bt_pm t3)"
    "view t3 = (view t2)(q \<mapsto> leaf_node q ?k2 (first_page ?R) p)" "bt_root t3 = bt_root t2" "pm_total (bt_pm t3) = pm_total (bt_pm t2)"
    using writeNode_law [OF w2(2) ok(2)] pin(2) by (metis leaf_node_sel(7))
  have "pending t3 fs (SLeaf p ?k1) (fst (hd ?k2)) (SLeaf q ?k2)"
  proof (rule pending_leaves [OF ch lt s(2) w3(2)])
    show "view t3 p = Some (leaf_node p ?k1 q (last_page 0 ?L))" "view t3 q = Some (leaf_node q ?k2 (first_page ?R) p)"
      using w2(3) w3(3) pin(3) by simp_all
    show "view t3 x = view t x" if "x \<in> ?U" "x \<noteq> p" "x \<noteq> first_page ?R" for x
      using that s(2,6) w2(3) w3(3) by (metis fun_upd_other)
    show "view t3 r = Some (leaf_node r kr (first_page R') q)" if "?R = (r, kr) # R'" for r kr R'
    proof -
      have "r \<noteq> p" "r \<noteq> q" using that old(8,9) s(2) by auto
      then show ?thesis using s(7) that w2(3) w3(3) by simp
    qed
  qed (use s w2 w3 ok in simp_all)
  moreover have "splitLeafAndPropagate (leaf_node p kvs' (first_page ?R) (last_page 0 ?L) # path) t =
      insertIntoParent path p (fst (hd ?k2)) q t3"
    using s(1) w2(1) w3(1) by (simp add: splitLeafAndPropagate_def)
  ultimately show ?thesis by blast
qed

section \<open>Insertion\<close>

definition add_entry :: "bytes \<Rightarrow> entry_ref \<Rightarrow> (bytes \<times> entry_ref) list \<Rightarrow> (bytes \<times> entry_ref) list" where
  "add_entry key ref kvs = filter (\<lambda>e. fst e < key) kvs @ (key, ref) # filter (\<lambda>e. key < fst e) kvs"

lemma put_at_add_entry:
  assumes "ascending (map fst kvs)" and "key \<notin> fst ` set kvs"
  shows "put_at (length (filter (\<lambda>k. k < key) (map fst kvs))) (key, ref) kvs = add_entry key ref kvs"
  using assms
proof (induction kvs)
  case (Cons e kvs)
  have asc: "ascending (map fst kvs)" "\<forall>x \<in> fst ` set kvs. fst e < x" and key: "key \<noteq> fst e" "key \<notin> fst ` set kvs"
    using Cons.prems by auto
  show ?case
  proof (cases "fst e < key")
    case True
    then have "\<not> key < fst e" by (simp add: less_imp_le not_less)
    then show ?thesis using Cons.IH [OF asc(1) key(2)] True by (simp add: put_at_def add_entry_def)
  next
    case False
    then have lt: "key < fst e" using key(1) by simp
    then have gt: "\<forall>x \<in> fst ` set kvs. key < x" using asc(2) less_trans by blast
    then have "filter (\<lambda>e. fst e < key) kvs = []" "filter (\<lambda>e. key < fst e) kvs = kvs" "filter (\<lambda>k. k < key) (map fst kvs) = []"
      by (auto simp: filter_empty_conv filter_id_conv dest: order.asym)
    then show ?thesis using False lt by (simp add: put_at_def add_entry_def)
  qed
qed (simp add: put_at_def add_entry_def)

lemma add_entry_append:
  assumes "\<forall>x \<in> fst ` set xs. x < key" and "\<forall>x \<in> fst ` set zs. key < x"
  shows "add_entry key ref (xs @ ys @ zs) = xs @ add_entry key ref ys @ zs"
proof -
  have "filter (\<lambda>e. fst e < key) xs = xs" "filter (\<lambda>e. key < fst e) xs = []"
    "filter (\<lambda>e. fst e < key) zs = []" "filter (\<lambda>e. key < fst e) zs = zs"
    using assms by (auto simp: filter_id_conv filter_empty_conv dest: order.asym)
  then show ?thesis by (simp add: add_entry_def)
qed

lemma add_entry_facts:
  assumes "ordered lo hi (SLeaf p kvs)" and "lo \<le> key" and "below key hi" and "key \<notin> fst ` set kvs"
  shows "ordered lo hi (SLeaf p (add_entry key ref kvs))" "length (add_entry key ref kvs) = Suc (length kvs)"
    "set (add_entry key ref kvs) = insert (key, ref) (set kvs)"
    "SerializedSize (leaf_node p (add_entry key ref kvs) nx pv) = SerializedSize (leaf_node p kvs nx pv) + (14 + length key + length (er_dn ref))"
proof -
  have asc: "ascending (map fst kvs)" and b: "\<forall>k \<in> fst ` set kvs. lo \<le> k \<and> below k hi" using assms(1) by simp_all
  show set: "set (add_entry key ref kvs) = insert (key, ref) (set kvs)"
    using assms(4) by (auto simp: add_entry_def image_iff)
  have "mset (add_entry key ref kvs) = add_mset (key, ref) (mset kvs)"
  proof -
    have "filter (\<lambda>e. key < fst e) kvs = filter (\<lambda>e. \<not> fst e < key) kvs"
      using assms(4) by (intro filter_cong) (auto simp: image_iff not_less le_less)
    then show ?thesis using multiset_partition [of "mset kvs" "\<lambda>e. fst e < key"] by (simp add: add_entry_def mset_filter)
  qed
  then have perm: "mset (add_entry key ref kvs) = mset ((key, ref) # kvs)" by simp
  show "length (add_entry key ref kvs) = Suc (length kvs)" using mset_eq_length [OF perm] by simp
  have "sum_list (map f (add_entry key ref kvs)) = sum_list (map f ((key, ref) # kvs))" for f :: "bytes \<times> entry_ref \<Rightarrow> nat"
    using arg_cong [OF perm, of "\<lambda>M. sum_mset (image_mset f M)"] by (simp flip: sum_mset_sum_list mset_map)
  then show "SerializedSize (leaf_node p (add_entry key ref kvs) nx pv) = SerializedSize (leaf_node p kvs nx pv) + (14 + length key + length (er_dn ref))"
    unfolding size_leaf_node by simp
  have "ascending (map fst (add_entry key ref kvs))"
    using asc by (auto simp: add_entry_def sorted_wrt_append sorted_wrt_map sorted_wrt_filter intro: less_trans)
  then show "ordered lo hi (SLeaf p (add_entry key ref kvs))" using set assms b by simp
qed

lemma frames_below_pages: "length fs \<le> length (frame_pages fs)"
proof (induction fs)
  case (Cons f fs) then show ?case by (cases f) simp
qed simp

lemma leaf_overflow:
  assumes "list_all short_entry kvs" and "256 \<le> length kvs \<or> 4080 < SerializedSize (leaf_node p kvs 0 0)"
  shows "3 \<le> length kvs"
proof (rule ccontr)
  assume "\<not> 3 \<le> length kvs"
  then have n: "length kvs \<le> 2" by simp
  have "sum_list (map (\<lambda>e. 14 + length (fst e) + length (er_dn (snd e))) kvs) \<le> 214 * length kvs"
    by (rule conjunct2 [OF sum_list_between [of _ 0]]) (use assms(1) in \<open>auto simp: list_all_iff short_entry_def\<close>)
  then have "SerializedSize (leaf_node p kvs 0 0) \<le> 4080" using n unfolding size_leaf_node by simp
  then show False using assms(2) n by simp
qed

text \<open>The part of an insertion after the leaf was found.\<close>

lemma insert_in_leaf_ok:
  assumes ok: "tree_ok t (plug fs (SLeaf p kvs))" and b: "fst (bounds [] None fs) \<le> key" "below key (snd (bounds [] None fs))"
    and key: "key \<notin> fst ` set kvs" and short: "short_entry (key, ref)" and small: "unat (pm_total (bt_pm t)) < 2 ^ 60"
    and leaf: "leaf = leaf_node p kvs (first_page (right_leaves fs)) (last_page 0 (left_leaves fs))"
  shows "\<exists>t' g'. insert_in_leaf (fst (FindKeyIndex key leaf)) key ref (leaf # path_nodes p fs) t = (Ok (), t') \<and> tree_ok t' g' \<and>
    entries g' = concat (map snd (left_leaves fs)) @ add_entry key ref kvs @ concat (map snd (right_leaves fs))"
proof -
  let ?kvs = "add_entry key ref kvs" and ?L = "left_leaves fs" and ?R = "right_leaves fs"
  let ?leaf = "leaf_node p ?kvs (first_page ?R) (last_page 0 ?L)"
  have o: "ordered (fst (bounds [] None fs)) (snd (bounds [] None fs)) (SLeaf p kvs)" and r: "rep (view t) (SLeaf p kvs)"
    using ok by (simp_all add: tree_ok_def ordered_plug rep_plug)
  note add = add_entry_facts [OF o b key, of ref]
  have asc: "ascending (map fst kvs)" using o by simp
  have idx: "fst (FindKeyIndex key leaf) = length (filter (\<lambda>k. k < key) (map fst kvs))"
    using asc by (simp add: leaf FindKeyIndex_ascending)
  have n: "InsertKeyAt (fst (FindKeyIndex key leaf)) key (Some ref) 0 leaf = Ok ?leaf"
  proof -
    have "\<not> length kvs < length (filter ((\<lambda>k. k < key) \<circ> fst) kvs)" by (simp add: not_less)
    then show ?thesis
      unfolding idx put_at_add_entry [OF asc key, symmetric]
      by (simp add: leaf InsertKeyAt_def leaf_node_def put_at_def take_map drop_map)
  qed
  have run: "run_ok (set (frame_pages fs @ [p])) (bt_pm t)" "distinct (frame_pages fs @ [p])"
    using ok distinct_pages_plug [of fs "SLeaf p kvs"] by (simp_all add: tree_ok_def set_pages_plug)
  have "length fs < fuel_of t" using pages_fuel [OF run] frames_below_pages [of fs] by simp
  then have room: "unat (pm_total (bt_pm t)) + 8 * (length fs + 2) < 2 ^ 64" using small by simp
  have old: "SerializedSize (leaf_node p kvs 0 0) \<le> 4080" "length kvs \<le> 256" "list_all short_entry kvs"
    using r by (auto simp: node_ok_leaf size_leaf_node)
  have shorts: "list_all short_entry ?kvs" using old(3) short by (simp add: list_all_iff add(3))
  have ch: "changed t fs p kvs ?kvs"
    using ok add old short shorts room unfolding changed_def by (simp add: short_entry_def)
  show ?thesis
  proof (cases "IsFull ?leaf \<or> \<not> FitsInPage ?leaf")
    case False
    then have "SerializedSize (leaf_node p ?kvs 0 0) \<le> 4080" "length ?kvs \<le> 256"
      by (simp_all add: IsFull_def FitsInPage_def size_leaf_node)
    from changed_fits [OF ch this] obtain t' where "writeNode ?leaf t = (Ok (), t')" "tree_ok t' (plug fs (SLeaf p ?kvs))" by blast
    moreover have "entries (plug fs (SLeaf p ?kvs)) = concat (map snd ?L) @ ?kvs @ concat (map snd ?R)"
      by (simp add: entries_def leaves_plug)
    ultimately show ?thesis
      using False n by (auto simp: insert_in_leaf_def)
  next
    case True
    have many: "3 \<le> length ?kvs" by (rule leaf_overflow [OF shorts]) (use True in \<open>auto simp: IsFull_def FitsInPage_def size_leaf_node\<close>)
    from changed_splits [OF ch many refl, of "path_nodes p fs"] obtain t1 q k1 key' k2 where
      s: "pending t1 fs (SLeaf p k1) key' (SLeaf q k2)" "k1 @ k2 = ?kvs"
      "splitLeafAndPropagate (?leaf # path_nodes p fs) t = insertIntoParent (path_nodes p fs) p key' q t1"
      by (metis append_take_drop_id)
    from insertIntoParent_ok [OF s(1)] obtain t' g' where
      g': "insertIntoParent (path_nodes p fs) p key' q t1 = (Ok (), t')" "tree_ok t' g'" "leaves g' = ?L @ [(p, k1)] @ [(q, k2)] @ ?R"
      by auto
    have "entries g' = concat (map snd ?L) @ ?kvs @ concat (map snd ?R)" by (simp add: entries_def g'(3) s(2) [symmetric])
    then show ?thesis using True n s(3) g' by (auto simp: insert_in_leaf_def)
  qed
qed

lemma Insert_ok:
  assumes ok: "tree_ok t g" and short: "short_entry (key, ref)" and small: "unat (pm_total (bt_pm t)) < 2 ^ 60"
  shows "key \<notin> fst ` set (entries g) \<Longrightarrow> \<exists>t' g'. BTree_Insert key ref t = (Some (Ok ()), t') \<and>
      BTree_InsertUnique key ref t = (Some (Ok ()), t') \<and> tree_ok t' g' \<and> entries g' = add_entry key ref (entries g)"
    and "key \<in> fst ` set (entries g) \<Longrightarrow> BTree_InsertUnique key ref t = (Some (Fail ErrKeyExists), t)"
proof -
  obtain fs p kvs where g: "g = plug fs (SLeaf p kvs)" and b: "fst (bounds [] None fs) \<le> key" "below key (snd (bounds [] None fs))"
    and path: "findLeafWithPath key t =
       Some (Ok (leaf_node p kvs (first_page (right_leaves fs)) (last_page 0 (left_leaves fs)) # path_nodes p fs))"
    by (rule findLeaf_ok [OF ok])
  let ?leaf = "leaf_node p kvs (first_page (right_leaves fs)) (last_page 0 (left_leaves fs))"
  let ?L = "concat (map snd (left_leaves fs))" and ?R = "concat (map snd (right_leaves fs))"
  have o: "context_ordered [] None fs" "ascending (map fst kvs)" using ok by (simp_all add: tree_ok_def g ordered_plug)
  note ctx = context_keys [OF o(1) b]
  have e: "entries g = ?L @ kvs @ ?R" by (simp add: entries_def g leaves_plug)
  have nonempty: "key \<noteq> []" using short by (simp add: short_entry_def)
  have found: "snd (FindKeyIndex key ?leaf) \<longleftrightarrow> key \<in> fst ` set kvs" using o(2) by (simp add: FindKeyIndex_ascending)
  show "BTree_InsertUnique key ref t = (Some (Fail ErrKeyExists), t)" if "key \<in> fst ` set (entries g)"
  proof -
    have "key \<notin> fst ` set ?L" "key \<notin> fst ` set ?R" using ctx by blast+
    then have "key \<in> fst ` set kvs" using that unfolding e set_append image_Un by blast
    then show ?thesis using found path nonempty
      by (cases "FindKeyIndex key ?leaf") (simp add: BTree_InsertUnique_def)
  qed
  show "\<exists>t' g'. BTree_Insert key ref t = (Some (Ok ()), t') \<and> BTree_InsertUnique key ref t = (Some (Ok ()), t') \<and>
      tree_ok t' g' \<and> entries g' = add_entry key ref (entries g)" if "key \<notin> fst ` set (entries g)"
  proof -
    have key: "key \<notin> fst ` set kvs" using that by (simp add: e image_Un)
    from insert_in_leaf_ok [OF ok [unfolded g] b key short small refl] obtain t' g' where
      t': "insert_in_leaf (fst (FindKeyIndex key ?leaf)) key ref (?leaf # path_nodes p fs) t = (Ok (), t')" "tree_ok t' g'"
        "entries g' = ?L @ add_entry key ref kvs @ ?R"
      by blast
    have "entries g' = add_entry key ref (entries g)" unfolding e t'(3) using ctx by (intro add_entry_append [symmetric]) blast+
    moreover obtain i where i: "FindKeyIndex key ?leaf = (i, False)" using found key by (cases "FindKeyIndex key ?leaf") simp
    moreover have "insert_in_leaf i key ref (?leaf # path_nodes p fs) t = (Ok (), t')" using t'(1) unfolding i by simp
    ultimately show ?thesis
      using t'(2) path nonempty by (intro exI [of _ t'] exI [of _ g']) (simp add: BTree_Insert_def BTree_InsertUnique_def)
  qed
qed

section \<open>Scans\<close>

lemma leftmost_descends:
  assumes "rep (view t) g" and "length (pages g) \<le> Suc fuel"
    and pick: "pick = (\<lambda>n. if bn_children n = [] then Fail ErrInvalidNode else Ok (hd (bn_children n)))"
  shows "\<exists>n leaf rest path'. view t (spage g) = Some n \<and> leaves g = leaf # rest \<and> view t (fst leaf) \<noteq> None \<and>
    descend fuel pick n path t = Some (Ok (the (view t (fst leaf)) # path'))"
  using assms(1,2)
proof (induction g arbitrary: fuel path)
  case (SLeaf p kvs)
  then obtain nx pv where "view t p = Some (leaf_node p kvs nx pv)" by auto
  then show ?case
    by (intro exI [of _ "leaf_node p kvs nx pv"] exI [of _ "(p, kvs)"] exI [of _ "[]"] exI [of _ path])
      (simp add: descend.simps)
next
  case (SNode p cs ks)
  let ?n = "inner_node p (map spage cs) ks"
  have n: "view t p = Some ?n" "node_ok ?n" and reps: "\<And>c. c \<in> set cs \<Longrightarrow> rep (view t) c"
    using SNode.prems(1) by (auto simp: list_all_iff)
  then obtain c cs' where cs: "cs = c # cs'" by (cases cs) (auto simp: node_ok_inner)
  have "Suc (length (pages c)) \<le> length (pages (SNode p cs ks))" "0 < length (pages c)" by (simp add: cs) (cases c; simp)
  then have "fuel \<noteq> 0" "length (pages c) \<le> fuel" using SNode.prems(2) by linarith+
  then obtain fuel' where fuel: "fuel = Suc fuel'" "length (pages c) \<le> Suc fuel'" using not0_implies_Suc by blast
  have c: "c \<in> set cs" by (simp add: cs)
  from SNode.IH [OF c reps [OF c] fuel(2), of "?n # path"] obtain m leaf rest path' where IH:
    "view t (spage c) = Some m" "leaves c = leaf # rest" "view t (fst leaf) \<noteq> None"
    "descend fuel' pick m (?n # path) t = Some (Ok (the (view t (fst leaf)) # path'))"
    by blast
  have "descend fuel pick ?n path t = Some (Ok (the (view t (fst leaf)) # path'))"
  proof -
    have "pick ?n = Ok (spage c)" "\<not> bn_leaf ?n" by (simp_all add: pick cs inner_node_def)
    then show ?thesis using IH(4) view_Some [OF IH(1)] unfolding fuel(1) by (subst descend.simps) simp
  qed
  then show ?case using n(1) IH(2,3) cs by (intro exI [of _ ?n] exI [of _ leaf]) auto
qed

lemma take_range_ascending:
  assumes "ascending (map fst kvs)"
  shows "\<exists>done. take_range endKey kvs = (map snd (filter (\<lambda>e. \<forall>h. endKey = Some h \<longrightarrow> fst e \<le> h) kvs), done) \<and>
    (done \<longleftrightarrow> (\<exists>e \<in> set kvs. \<exists>h. endKey = Some h \<and> h < fst e))"
  using assms
proof (induction kvs)
  case (Cons e kvs)
  obtain k v where e: "e = (k, v)" by (cases e)
  have asc: "ascending (map fst kvs)" "\<forall>x \<in> fst ` set kvs. k < x" using Cons.prems e by auto
  show ?case
  proof (cases "\<exists>h. endKey = Some h \<and> h < k")
    case True
    then obtain h where h: "endKey = Some h" "h < k" by blast
    then have "\<forall>x \<in> fst ` set kvs. h < x" using asc(2) less_trans by blast
    then have "filter (\<lambda>e. \<forall>h. endKey = Some h \<longrightarrow> fst e \<le> h) kvs = []"
      using h by (auto simp: filter_empty_conv not_le)
    then show ?thesis using h e by (auto simp: compareKeys_iff)
  next
    case False
    then have "take_range endKey (e # kvs) = (case take_range endKey kvs of (rs, done) \<Rightarrow> (v # rs, done))"
      by (auto simp: e compareKeys_iff split: option.split)
    then show ?thesis using Cons.IH [OF asc(1)] False e by (auto simp: not_less)
  qed
qed auto

definition up_to :: "bytes option \<Rightarrow> (bytes \<times> entry_ref) list \<Rightarrow> (bytes \<times> entry_ref) list" where
  "up_to endKey kvs = filter (\<lambda>e. \<forall>h. endKey = Some h \<longrightarrow> fst e \<le> h) kvs"

lemma range_loop_chain:
  assumes "linked (view t) p ls" and "bn_next leaf = first_page ls" and "length ls \<le> fuel"
    and "ascending (map fst (drop i (leaf_entries leaf) @ concat (map snd ls)))"
  shows "range_loop fuel endKey i leaf refs t =
    Some (Ok (), refs @ map snd (up_to endKey (drop i (leaf_entries leaf) @ concat (map snd ls))))"
  using assms
proof (induction ls arbitrary: p leaf fuel i refs)
  case Nil
  have asc: "ascending (map fst (drop i (leaf_entries leaf)))" using Nil.prems(4) by simp
  show ?case using take_range_ascending [OF asc, of endKey] Nil.prems(2)
    by (subst range_loop.simps) (auto simp: up_to_def split: bool.split)
next
  case (Cons l ls)
  obtain q kvs where l: "l = (q, kvs)" by (cases l)
  obtain fuel' where fuel: "fuel = Suc fuel'" "length ls \<le> fuel'" using Cons.prems(3) by (cases fuel) auto
  let ?n = "leaf_node q kvs (first_page ls) p" and ?d = "drop i (leaf_entries leaf)"
  have v: "view t q = Some ?n" "linked (view t) q ls" using Cons.prems(1) l by simp_all
  then have rd: "readNode q t = Ok ?n" "q \<noteq> 0" by (auto simp: view_Some)
  have asc: "ascending (map fst ?d)" "ascending (map fst (kvs @ concat (map snd ls)))"
    and lt: "\<And>x y. x \<in> fst ` set ?d \<Longrightarrow> y \<in> fst ` set (kvs @ concat (map snd ls)) \<Longrightarrow> x < y"
  proof -
    have "ascending (map fst ?d @ map fst (kvs @ concat (map snd ls)))" using Cons.prems(4) by (simp add: l)
    note * = this [unfolded sorted_wrt_append [of _ "map fst ?d"] set_map]
    from * show "ascending (map fst ?d)" "ascending (map fst (kvs @ concat (map snd ls)))" by blast+
    from * show "x < y" if "x \<in> fst ` set ?d" "y \<in> fst ` set (kvs @ concat (map snd ls))" for x y using that by blast
  qed
  obtain fin where tr: "take_range endKey ?d = (map snd (up_to endKey ?d), fin)"
    "fin \<longleftrightarrow> (\<exists>e \<in> set ?d. \<exists>h. endKey = Some h \<and> h < fst e)"
    using take_range_ascending [OF asc(1), of endKey] unfolding up_to_def by blast
  show ?case
  proof (cases fin)
    case True
    then obtain e h where e: "e \<in> set ?d" "endKey = Some h" "h < fst e" using tr(2) by blast
    then have "h < y" if "y \<in> fst ` set (kvs @ concat (map snd ls))" for y using lt that less_trans by blast
    then have "up_to endKey (kvs @ concat (map snd ls)) = []"
      using e(2) by (auto simp: up_to_def filter_empty_conv not_le)
    then have "up_to endKey (?d @ concat (map snd (l # ls))) = up_to endKey ?d" by (simp add: up_to_def l)
    then show ?thesis using True tr(1) by (subst range_loop.simps) simp
  next
    case False
    have "range_loop fuel' endKey 0 ?n (refs @ map snd (up_to endKey ?d)) t =
        Some (Ok (), (refs @ map snd (up_to endKey ?d)) @ map snd (up_to endKey (drop 0 (leaf_entries ?n) @ concat (map snd ls))))"
      by (rule Cons.IH [OF v(2) _ fuel(2)]) (use asc(2) in simp_all)
    then show ?thesis
      using False tr(1) rd Cons.prems(2) fuel(1) by (subst range_loop.simps) (simp add: l up_to_def)
  qed
qed

definition between :: "bytes option \<Rightarrow> bytes option \<Rightarrow> (bytes \<times> entry_ref) list \<Rightarrow> (bytes \<times> entry_ref) list" where
  "between startKey endKey kvs = filter (\<lambda>e. \<forall>l. startKey = Some l \<longrightarrow> l \<le> fst e) (up_to endKey kvs)"

lemma between_eq: "between startKey endKey kvs = up_to endKey (filter (\<lambda>e. \<forall>l. startKey = Some l \<longrightarrow> l \<le> fst e) kvs)"
  by (simp add: between_def up_to_def conj_commute)

lemma SearchRange_None:
  assumes ok: "tree_ok t g"
  shows "BTree_SearchRange None endKey t = Some (Ok (), map snd (between None endKey (entries g)))"
proof -
  have run: "run_ok (set (pages g)) (bt_pm t)" "distinct (pages g)" and r: "rep (view t) g" and o: "ordered [] None g"
    and link: "linked (view t) 0 (leaves g)" and root: "bt_root t = spage g"
    using ok by (simp_all add: tree_ok_def)
  have fuel: "length (pages g) \<le> Suc (fuel_of t)" "length (leaves g) \<le> fuel_of t"
    using pages_fuel [OF run] length_leaves [of g] by simp_all
  from leftmost_descends [OF r fuel(1) refl, of "[]"] obtain n leaf rest path' where d:
    "view t (spage g) = Some n" "leaves g = leaf # rest"
    "descend (fuel_of t) (\<lambda>n. if bn_children n = [] then Fail ErrInvalidNode else Ok (hd (bn_children n))) n [] t =
      Some (Ok (the (view t (fst leaf)) # path'))"
    by blast
  obtain p kvs where leaf: "leaf = (p, kvs)" by (cases leaf)
  let ?n = "leaf_node p kvs (first_page rest) 0"
  have l: "view t p = Some ?n" "linked (view t) p rest" using link d(2) leaf by simp_all
  have find: "findLeftmostLeaf t = Some (Ok ?n)" "bt_root t \<noteq> 0"
    using d(1,3) root l(1) view_Some [OF d(1)] by (auto simp: findLeftmostLeaf_def down_def leaf)
  have e: "entries g = kvs @ concat (map snd rest)" by (simp add: entries_def d(2) leaf)
  have "range_loop (fuel_of t) endKey 0 ?n [] t =
      Some (Ok (), [] @ map snd (up_to endKey (drop 0 (leaf_entries ?n) @ concat (map snd rest))))"
    by (rule range_loop_chain [OF l(2)])
      (use fuel(2) d(2) ordered_entries [OF o] in \<open>simp_all add: e\<close>)
  then show ?thesis using find by (simp add: BTree_SearchRange_def between_eq e)
qed

lemma drop_smaller:
  assumes "ascending (map fst kvs)"
  shows "drop (length (filter (\<lambda>k. k < key) (map fst kvs))) kvs = filter (\<lambda>e. key \<le> fst e) kvs"
  using assms
proof (induction kvs)
  case (Cons e kvs)
  have asc: "ascending (map fst kvs)" "\<forall>x \<in> fst ` set kvs. fst e < x" using Cons.prems by auto
  show ?case
  proof (cases "fst e < key")
    case True
    then show ?thesis using Cons.IH [OF asc(1)] by (simp add: not_le)
  next
    case False
    then have le: "key \<le> fst e" by (simp only: not_less)
    have ge: "key \<le> fst x" if "x \<in> set kvs" for x
      by (rule less_imp_le, rule le_less_trans [OF le]) (use asc(2) that in blast)
    then have "filter (\<lambda>e. key \<le> fst e) kvs = kvs" by (simp add: filter_id_conv)
    moreover have "filter (\<lambda>k. k < key) (map fst kvs) = []" using ge by (simp add: filter_empty_conv not_less)
    ultimately show ?thesis using False le by simp
  qed
qed simp

lemma SearchRange_Some:
  assumes ok: "tree_ok t g"
  shows "BTree_SearchRange (Some key) endKey t = Some (Ok (), map snd (between (Some key) endKey (entries g)))"
proof -
  obtain fs p kvs where g: "g = plug fs (SLeaf p kvs)" and b: "fst (bounds [] None fs) \<le> key" "below key (snd (bounds [] None fs))"
    and path: "findLeafWithPath key t =
       Some (Ok (leaf_node p kvs (first_page (right_leaves fs)) (last_page 0 (left_leaves fs)) # path_nodes p fs))"
    by (rule findLeaf_ok [OF ok])
  let ?L = "left_leaves fs" and ?R = "right_leaves fs" let ?n = "leaf_node p kvs (first_page ?R) (last_page 0 ?L)"
  let ?i = "length (filter (\<lambda>k. k < key) (map fst kvs))"
  have o: "context_ordered [] None fs" "ascending (map fst kvs)" using ok by (simp_all add: tree_ok_def g ordered_plug)
  note ctx = context_keys [OF o(1) b]
  have e: "entries g = concat (map snd ?L) @ kvs @ concat (map snd ?R)" by (simp add: entries_def g leaves_plug)
  have asc: "ascending (map fst (entries g))" using ok ordered_entries [of "[]" None g] by (simp add: tree_ok_def)
  have link: "linked (view t) p ?R" using ok unfolding tree_ok_def g leaves_plug by (simp add: linked_split)
  have "length ?R \<le> length (pages g)" using length_leaves [of g] by (simp add: g leaves_plug)
  then have fuel: "length ?R \<le> fuel_of t" using pages_fuel [of "pages g" t] ok by (simp add: tree_ok_def)
  have "filter (\<lambda>e. key \<le> fst e) (concat (map snd ?L)) = []" "filter (\<lambda>e. key \<le> fst e) (concat (map snd ?R)) = concat (map snd ?R)"
    using ctx by (auto simp: filter_empty_conv filter_id_conv not_le less_imp_le image_iff) 
  then have rest: "filter (\<lambda>e. key \<le> fst e) (entries g) = drop ?i kvs @ concat (map snd ?R)"
    using drop_smaller [OF o(2), of key] by (simp add: e)
  have "ascending (map fst (drop ?i kvs @ concat (map snd ?R)))"
    using asc unfolding rest [symmetric] by (simp add: sorted_wrt_map sorted_wrt_filter)
  then have "range_loop (fuel_of t) endKey ?i ?n [] t =
      Some (Ok (), [] @ map snd (up_to endKey (drop ?i (leaf_entries ?n) @ concat (map snd ?R))))"
    by (intro range_loop_chain [OF link _ fuel]) simp_all
  moreover have "findLeaf key t = Some (Ok ?n)" using path by (simp add: findLeaf_def findLeafWithPath_def)
  moreover have "bt_root t \<noteq> 0" using ok rep_page [of "view t" g] by (auto simp: tree_ok_def)
  moreover have "FindKeyIndex key ?n = (?i, key \<in> fst ` set kvs)" using o(2) by (simp add: FindKeyIndex_ascending)
  ultimately show ?thesis by (simp add: BTree_SearchRange_def between_eq rest)
qed

section \<open>A tree as a finite map\<close>

text \<open>
  The runs of a tree: it is made on a manager in use, and gets entries whose key and DN have at most 200
  bytes together; \<^verbatim>\<open>Insert\<close> only with keys that the tree does not have. The second argument is the map
  that the calls describe.
\<close>

inductive tree_run :: "btree \<Rightarrow> (bytes \<rightharpoonup> entry_ref) \<Rightarrow> bool" where
  new: "pm_run U pm \<Longrightarrow> unat (pm_total pm) < 2 ^ 60 \<Longrightarrow> NewBPlusTree pm = (Ok (), t) \<Longrightarrow> tree_run t Map.empty"
| add: "tree_run t m \<Longrightarrow> unat (pm_total (bt_pm t)) < 2 ^ 60 \<Longrightarrow> short_entry (key, ref) \<Longrightarrow> m key = None \<Longrightarrow>
    BTree_Insert key ref t = (r, t') \<Longrightarrow> tree_run t' (m(key \<mapsto> ref))"
| unique: "tree_run t m \<Longrightarrow> unat (pm_total (bt_pm t)) < 2 ^ 60 \<Longrightarrow> short_entry (key, ref) \<Longrightarrow>
    BTree_InsertUnique key ref t = (r, t') \<Longrightarrow> tree_run t' (if m key = None then m(key \<mapsto> ref) else m)"

lemma NewBPlusTree_ok:
  assumes "run_ok U pm" and "unat (pm_total pm) < 2 ^ 60"
  shows "\<exists>t p. NewBPlusTree pm = (Ok (), t) \<and> tree_ok t (SLeaf p []) \<and> unat (pm_total (bt_pm t)) \<le> unat (pm_total pm) + 8"
proof -
  let ?t = "\<lparr>bt_root = 0, bt_pm = pm\<rparr>"
  have run: "run_ok {} (bt_pm ?t)" and room: "unat (pm_total (bt_pm ?t)) + 8 < 2 ^ 64" using assms by (simp_all add: run_ok_def)
  obtain p t1 where a: "allocateNode True ?t = (Ok (NewLeafNode p), t1)" "run_ok {p} (bt_pm t1)" "unat (pm_total (bt_pm t1)) \<le> unat (pm_total pm) + 8"
    by (rule allocateNode_law [OF run room, of True]) auto
  have n: "NewLeafNode p = leaf_node p [] 0 0" by (simp add: NewLeafNode_def leaf_node_def)
  have ok: "node_ok (leaf_node p [] 0 0)" by (simp add: node_ok_leaf size_leaf_node)
  have "bn_page (leaf_node p [] 0 0) \<in> {p}" by simp
  from writeNode_law [OF a(2) ok this] obtain t2 where w: "writeNode (leaf_node p [] 0 0) t1 = (Ok (), t2)"
    "run_ok {p} (bt_pm t2)" "view t2 = (view t1)(p \<mapsto> leaf_node p [] 0 0)"
    "pm_total (bt_pm t2) = pm_total (bt_pm t1)"
    by auto
  have "tree_ok (t2 \<lparr>bt_root := p\<rparr>) (SLeaf p [])" using w ok by (simp add: tree_ok_def)
  moreover have "NewBPlusTree pm = (Ok (), t2 \<lparr>bt_root := p\<rparr>)"
    unfolding NewBPlusTree_def a(1) n using w(1) by simp
  ultimately show ?thesis using a(3) w(4) by (intro exI [of _ "t2 \<lparr>bt_root := p\<rparr>"] exI [of _ p]) simp
qed

lemma map_of_filter_fst: "map_of (filter (\<lambda>e. P (fst e)) kvs) k = (if P k then map_of kvs k else None)"
  by (induction kvs) auto

lemma in_map: "key \<in> fst ` set kvs \<longleftrightarrow> map_of kvs key \<noteq> None"
  by (simp add: map_of_eq_None_iff)

lemma map_of_add_entry:
  assumes "key \<notin> fst ` set kvs"
  shows "map_of (add_entry key ref kvs) = (map_of kvs)(key \<mapsto> ref)"
proof (rule ext)
  fix k
  have lo: "map_of (filter (\<lambda>e. fst e < key) kvs) k = (if k < key then map_of kvs k else None)"
    by (rule map_of_filter_fst)
  have hi: "map_of (filter (\<lambda>e. key < fst e) kvs) k = (if key < k then map_of kvs k else None)"
    by (rule map_of_filter_fst)
  have "map_of (add_entry key ref kvs) k = (case map_of (filter (\<lambda>e. fst e < key) kvs) k of Some x \<Rightarrow> Some x
      | None \<Rightarrow> if k = key then Some ref else map_of (filter (\<lambda>e. key < fst e) kvs) k)"
    by (simp add: add_entry_def map_add_def split: option.split)
  also have "\<dots> = (case if k < key then map_of kvs k else None of Some x \<Rightarrow> Some x
      | None \<Rightarrow> if k = key then Some ref else if key < k then map_of kvs k else None)"
    unfolding lo hi ..
  also have "\<dots> = ((map_of kvs)(key \<mapsto> ref)) k"
    using less_linear [of k key] by (cases "map_of kvs k") auto
  finally show "map_of (add_entry key ref kvs) k = ((map_of kvs)(key \<mapsto> ref)) k" .
qed

lemma tree_run_ok: "tree_run t m \<Longrightarrow> \<exists>g. tree_ok t g \<and> map_of (entries g) = m"
proof (induction rule: tree_run.induct)
  case (new U pm t)
  then show ?case using NewBPlusTree_ok [OF pm_run_ok [OF new(1)] new(2)] by (force simp: entries_def)
next
  case (add t m key ref r t')
  then obtain g where g: "tree_ok t g" "map_of (entries g) = m" by blast
  have key: "key \<notin> fst ` set (entries g)" using add(4) g(2) in_map [of key "entries g"] by simp
  then show ?case using Insert_ok(1) [OF g(1) add(3,2) key] add(5) map_of_add_entry [OF key, of ref] g(2) by auto
next
  case (unique t m key ref r t')
  then obtain g where g: "tree_ok t g" "map_of (entries g) = m" by blast
  show ?case
  proof (cases "m key = None")
    case True
    then have key: "key \<notin> fst ` set (entries g)" using g(2) in_map [of key "entries g"] by simp
    then show ?thesis using Insert_ok(1) [OF g(1) unique(3,2) key] unique(4) map_of_add_entry [OF key, of ref] g(2) True by auto
  next
    case False
    then have key: "key \<in> fst ` set (entries g)" using g(2) in_map [of key "entries g"] by simp
    then show ?thesis using Insert_ok(2) [OF g(1) unique(3,2) key] unique(4) g False by auto
  qed
qed

lemma lookup_map_of:
  assumes "ascending (map fst kvs)"
  shows "lookup key kvs = (case map_of kvs key of None \<Rightarrow> [] | Some r \<Rightarrow> [r])"
proof (cases "map_of kvs key")
  case None
  then have "filter (\<lambda>e. fst e = key) kvs = []" by (auto simp: filter_empty_conv map_of_eq_None_iff image_iff)
  then show ?thesis using None by (simp add: lookup_def)
next
  case (Some r)
  then show ?thesis using ascending_lookup [OF assms map_of_SomeD [OF Some]] by (simp add: lookup_def)
qed



end
