(* ===== verification/Spec2Isabelle.thy ===== *)
theory Spec2Isabelle
  imports Ber_Props Raft_Props Acl_Yaml Machine_Props Radix_Index Page_Reopen Oba_Db_Locks Ldap_Filter_Props Ldap_Props Stream_Props Btree_Props
begin

text \<open>
  A verification library for oba, an LDAP directory server written in Go with its own storage engine
  (ObaDB), access control, a REST interface and replication by Raft. The sources are under
  \<^verbatim>\<open>src/internal\<close>; the paths below are relative to it.

  \<^bold>\<open>The program.\<close> A client connection (\<^verbatim>\<open>server/connection.go\<close>) cuts messages off its input, the message
  layer (\<^verbatim>\<open>ldap\<close>) parses them with the BER decoder (\<^verbatim>\<open>ber\<close>), and the handler of the operation answers.
  Handlers work on the directory: search filters are parsed and evaluated by \<^verbatim>\<open>filter\<close>, access is decided
  by \<^verbatim>\<open>acl\<close>, and entries are kept by the storage engine (\<^verbatim>\<open>storage/engine\<close>) in versions
  (\<^verbatim>\<open>storage/mvcc\<close>, \<^verbatim>\<open>storage/tx\<close>), found through a tree of distinguished names (\<^verbatim>\<open>storage/radix\<close>) and
  stored in a file of pages (\<^verbatim>\<open>storage\<close>). Changes are published to subscribers (\<^verbatim>\<open>storage/stream\<close>). In a
  cluster, changes of entries and of the access control list are commands of a replicated log (\<^verbatim>\<open>raft\<close>),
  which the state machine of every node applies.

  \<^bold>\<open>Conventions.\<close> \<open>Oba_Prelude\<close> has the vocabulary: the result of a Go call is \<open>Ok\<close>, \<open>Fail\<close> with the error
  value of the source, or \<open>Panic\<close>; an index or slice expression that the source does not guard panics out
  of range. Machine integers are words of their width, except where the source has checked the range.
  Strings and byte slices are lists of bytes, Go maps are association lists in the order of iteration,
  pointers that may be nil are options, shared objects that are changed in place live in an explicit heap
  or store. State is a record passed through and returned by every operation, also by one that fails.
  Where a loop runs on fuel, \<open>None\<close> is a loop that has not ended. \<open>Go_Strings\<close> has the functions of the
  package \<^verbatim>\<open>strings\<close>; what they do beyond ASCII depends on the Unicode tables, which are the parameter
  \<open>unicode\<close>, with \<open>plain_unicode\<close> as its concrete instance.

  \<^bold>\<open>BER\<close> (\<^verbatim>\<open>ber\<close>). \<open>Ber_Encoder\<close> and \<open>Ber_Decoder\<close> are \<^verbatim>\<open>encoder.go\<close> and \<^verbatim>\<open>decoder.go\<close>, every operation
  with its errors and the cursor it leaves behind. \<open>Ber_Safety\<close> has the contracts \<open>ber_reader\<close> and
  \<open>ber_progress\<close> and shows that every read keeps them on arbitrary input; \<open>Ber_Roundtrip\<close>,
  \<open>Ber_Integer\<close> and \<open>Ber_Codec\<close> show that what is written is read back at any position, through the
  contract \<open>ber_codec\<close>; \<open>Ber_Props\<close> has the properties.

  \<^bold>\<open>LDAP messages and connections\<close> (\<^verbatim>\<open>ldap\<close>, \<^verbatim>\<open>server\<close>). \<open>Ldap_Message\<close> is the envelope with its controls,
  \<open>Ldap_Requests\<close> and \<open>Ldap_Search\<close> are the parsers, encoders and checks of all requests and the results,
  \<open>Ldap_Connection\<close> is the connection: reading of frames, dispatch, responses and the message loop.
  \<open>Ldap_Safety\<close> shows that the parsers return without a panic on every input, \<open>Ldap_Codec\<close>,
  \<open>Ldap_Roundtrip\<close> and \<open>Ldap_Frames\<close> that encoded messages are read back from the network (contract
  \<open>ldap_codec\<close>), \<open>Ldap_Answers\<close> what dispatching answers; \<open>Ldap_Props\<close> has the properties. Fuel: a loop
  over the contents of a value gets the length of the data, as every round consumes a byte; a filter
  gets one unit more than the length of the data, as every level of nesting costs two bytes; the message
  loop gets one unit more than the length of the input. It is proved that these suffice.

  \<^bold>\<open>Search filters\<close> (\<^verbatim>\<open>filter\<close>). \<open>Ldap_Filter\<close> has matching, evaluation, the text syntax and the query
  plans; \<open>Ldap_Filter_Props\<close> shows that evaluation gives the declarative meaning of a filter, that the
  parser returns (fuel: twice the length of the text plus one) and what the plans keep and lose.

  \<^bold>\<open>Access control\<close> (\<^verbatim>\<open>acl\<close>, \<^verbatim>\<open>rest/acl_handlers.go\<close>). \<open>Acl\<close> has rules, matching, evaluation and validation,
  \<open>Acl_Loader\<close> the reader of the file, \<open>Acl_Manager\<close> the operations on a configuration. \<open>Acl_Props\<close> shows
  which rule decides, what scopes mean on the components of a name, what the attribute filters let
  through and that a configuration stays valid; \<open>Acl_Yaml\<close> what a saved configuration is read back as.

  \<^bold>\<open>Replication\<close> (\<^verbatim>\<open>raft\<close>). \<open>Raft_Codec\<close> has the formats of \<^verbatim>\<open>log.go\<close> and \<^verbatim>\<open>rpc.go\<close>, \<open>Raft_Wire\<close> their round
  trips (contracts \<open>wire_codec\<close> and \<open>wire_exact\<close>), \<open>Raft_Log\<close> the log with its file, \<open>Raft_Node\<close> the state and
  the handlers of a node, each critical section one function, and \<open>Raft_Handlers\<close> what they do to one
  node. \<open>Election_Spec\<close> is an abstract voting protocol over a quorum system (locale \<open>quorum_system\<close>);
  \<open>Raft_Election\<close> is the cluster as a step relation, with messages delayed, reordered, duplicated and
  lost and nodes restarted, and shows that it refines the protocol. \<open>Raft_Trace\<close> is a run that elects
  two leaders of one term, and \<open>Raft_Props\<close> has the properties. Election safety is stated for runs
  without a stale step-down, and the trace shows that it needs that.

  \<^bold>\<open>State machine\<close> (\<^verbatim>\<open>raft/statemachine.go\<close>, \<^verbatim>\<open>rest/acl_handlers.go\<close>). \<open>Raft_Machine\<close> applies commands to
  engines and appliers that are records of operations, as they are interfaces in the code; \<open>Rest_Acl\<close>
  has the handlers that change access control. \<open>Machine_Props\<close> has the properties that span the
  handlers, the log, the state machine and the manager.

  \<^bold>\<open>Storage\<close> (\<^verbatim>\<open>storage\<close>). \<open>Radix_Dn\<close> and \<open>Radix_Tree\<close> are distinguished names and the DN tree;
  \<open>Radix_Props\<close> and \<open>Radix_Index\<close> show that the tree is a finite map from paths (contract \<open>path_index\<close>)
  and that enumeration is exact. \<open>Page_Store\<close> is the file of pages with header and free list (fuel of
  the walk along the free list: the number of pages of the file); \<open>Page_Props\<close> and \<open>Page_Reopen\<close> show
  that allocation is exclusive, that the free list survives a close, and what a crash does. \<open>Mvcc\<close> has
  transactions and versions, \<open>Oba_Db\<close> the engine over all of these; \<open>Oba_Db_Lemmas\<close>, \<open>Oba_Db_Props\<close> and
  \<open>Oba_Db_Locks\<close> show what readers see after writes, rollbacks, commits and restarts, and that a writer
  keeps others from an entry until it ends.

  \<^bold>\<open>B+ trees\<close> (\<^verbatim>\<open>storage/btree\<close>). \<open>Btree_Node\<close> has the nodes and their page format, \<open>Btree\<close> the walk to a
  leaf, searches and insertion on the pages of \<open>Page_Store\<close>. \<open>Btree_Pages\<close> shows that nodes that fit are
  read back from their pages; \<open>Btree_Shape\<close> has the shape of a tree as a ghost value, with contexts for
  the path to a leaf, and \<open>Btree_Works\<close> what it means that the pages hold a shape; \<open>Btree_Insert\<close> and
  \<open>Btree_Props\<close> show that insertions keep such a shape and that the tree is a finite map. Fuel: the walks
  get the number of pages of the file, which is enough, as a walk meets no page twice. Entries are at
  most 200 bytes of key and DN, so that after a split by number of entries both halves fit in a page, and
  the file has less than \<open>2 ^ 60\<close> pages, so that page numbers do not wrap. The keys are distinct: with
  duplicates the separators of the source do not lead to all leaves of a key.

  \<^bold>\<open>Change streams\<close> (\<^verbatim>\<open>storage/stream\<close>). \<open>Change_Stream\<close> has the filters, the ring buffer, the subscribers
  and the broker; \<open>Stream_Props\<close> shows that the buffer is a bounded queue and, for any sequence of calls,
  when a resume is accepted and that a subscriber misses only events that are counted as dropped.

  \<^bold>\<open>What the theorems assume.\<close> A handler, a critical section or a call of the broker is one step: the
  interleavings inside it are not considered. Writes to disk succeed, except that a crash loses what was
  not saved where a property is about crashes; the network takes the number of writes that the
  connection's state says and then fails. Hypotheses on the Unicode parameter, on lengths below the width
  of a counter, and on handlers are written in the theorems, each with a concrete instance in its
  witness. The step relation of the cluster lets a candidate's term be used for one election of that
  candidate only, as the code increments the term first.

  \<^bold>\<open>Not modelled.\<close>
  \<^item> Timers, goroutine schedules, log messages and statistics: the modelled state does not depend on them.
  \<^item> TLS, the TCP transport and the snapshot files of the cluster (\<^verbatim>\<open>raft/transport.go\<close>,
    \<^verbatim>\<open>raft/snapshot.go\<close>, \<^verbatim>\<open>raft/cluster.go\<close>), the watchers of files: input and output around modelled parts.
  \<^item> The JSON text of snapshots and of the REST interface: the standard library writes and reads it; the
    model starts from the decoded structure.
  \<^item> Page sizes other than the default one, encryption of the files, memory mapping, and write errors.
  \<^item> Deletion from B+ trees and their iterators; the attribute indexes over the trees, which are a
    parameter of the engine; the pages of the DN tree and the cache files, shadow pages, snapshots and the
    schedule of the collector.
  \<^item> The write-ahead log file, recovery and checkpoints: the records that the engine appends are a list.
  \<^item> The handlers behind LDAP requests, the backend, the schema, passwords, the configuration, backups and
    the command line. The connection takes its handlers as parameters.
  \<^item> The web interface, which runs in the browser.
\<close>

end
